(* ===== verification/Prelude.thy ===== *)
theory Prelude
  imports Complex_Main "HOL-Library.Word"
begin

text \<open>
  Shared vocabulary of the development: the names of the machine integers, the result type
  of fallible Rust code (\<open>'e + 'a\<close>, with \<open>Inl\<close> for \<open>Err\<close>), the standard library's
  byte order conversions, saturating arithmetic and slices, and the list facts the
  components share. The collections \<open>byte_simps\<close> and \<open>result_simps\<close> gather the
  rewriting rules the codec proofs run on, \<open>byte_eval\<close> those that compute concrete bytes.
\<close>

named_theorems byte_simps "byte order conversions and slices of concatenations"
named_theorems byte_eval "evaluation of byte conversions on concrete arguments"
named_theorems result_simps "evaluation of the result type"

type_synonym byte = "8 word"
type_synonym bytes = "8 word list"
type_synonym u16 = "16 word"
type_synonym u32 = "32 word"
type_synonym u64 = "64 word"

section \<open>Results\<close>

text \<open>The \<open>?\<close> operator of Rust: an error leaves the function, a value is passed on.\<close>

definition res_bind :: "'e + 'a \<Rightarrow> ('a \<Rightarrow> 'e + 'b) \<Rightarrow> 'e + 'b" where
  "res_bind r k = (case r of Inl e \<Rightarrow> Inl e | Inr v \<Rightarrow> k v)"

text \<open>\<open>Option::ok_or\<close>.\<close>

definition ok_or :: "'a option \<Rightarrow> 'e \<Rightarrow> 'e + 'a" where
  "ok_or x e = (case x of None \<Rightarrow> Inl e | Some v \<Rightarrow> Inr v)"

lemma res_bind_Inl [simp, result_simps]: "res_bind (Inl e) k = Inl e"
  by (simp add: res_bind_def)

lemma res_bind_Inr [simp, result_simps]: "res_bind (Inr v) k = k v"
  by (simp add: res_bind_def)

lemma ok_or_None [simp, result_simps]: "ok_or None e = Inl e"
  by (simp add: ok_or_def)

lemma ok_or_Some [simp, result_simps]: "ok_or (Some v) e = Inr v"
  by (simp add: ok_or_def)

lemma res_bind_eq_Inr_iff:
  "res_bind r k = Inr y \<longleftrightarrow> (\<exists>v. r = Inr v \<and> k v = Inr y)"
  by (cases r) auto

lemma ok_or_eq_Inr_iff [simp]: "ok_or x e = Inr v \<longleftrightarrow> x = Some v"
  by (cases x) auto

text \<open>Did the call succeed?\<close>

definition is_ok :: "'e + 'a \<Rightarrow> bool" where
  "is_ok r = (case r of Inl _ \<Rightarrow> False | Inr _ \<Rightarrow> True)"

lemma is_ok_simps [simp, result_simps]: "\<not> is_ok (Inl e)" "is_ok (Inr v)"
  by (simp_all add: is_ok_def)

lemma is_ok_iff: "is_ok r \<longleftrightarrow> (\<exists>v. r = Inr v)"
  by (cases r) auto

section \<open>Machine integers\<close>

text \<open>\<open>saturating_sub\<close> on an unsigned word.\<close>

definition sat_sub :: "'a::len word \<Rightarrow> 'a word \<Rightarrow> 'a word" where
  "sat_sub a b = (if a < b then 0 else a - b)"

lemma unat_sat_sub: "unat (sat_sub a b) = unat a - unat b"
  by (auto simp: sat_sub_def word_less_nat_alt unat_sub word_le_nat_alt)

lemma sat_sub_self [simp]: "sat_sub a a = 0"
  by (simp add: sat_sub_def)

lemma unat_plus_one_no_wrap:
  fixes a :: "'a::len word"
  assumes "Suc (unat a) < 2 ^ LENGTH('a)"
  shows "unat (a + 1) = Suc (unat a)"
  using assms by (simp add: unat_word_ariths)

lemma unat_word_bounds:
  "unat (b :: byte) < 256" "unat (h :: u16) < 65536"
  "unat (w :: u32) < 4294967296" "unat (d :: u64) < 18446744073709551616"
  by (rule unsigned_less [THEN less_le_trans], simp)+

lemma unat_of_nat_small: "x < 2 ^ LENGTH('a::len) \<Longrightarrow> unat (of_nat x :: 'a word) = x"
  by (rule of_nat_inverse) simp_all

section \<open>Byte order\<close>

text \<open>
  \<open>le_bytes n x\<close> are the low \<open>n\<close> bytes of \<open>x\<close>, least significant first
  (\<open>to_le_bytes\<close> after an \<open>as\<close> cast to the width); \<open>le_val\<close> reads them back.
\<close>

fun le_bytes :: "nat \<Rightarrow> nat \<Rightarrow> bytes" where
  "le_bytes 0 x = []"
| "le_bytes (Suc n) x = of_nat x # le_bytes n (x div 256)"

fun le_val :: "bytes \<Rightarrow> nat" where
  "le_val [] = 0"
| "le_val (b # bs) = unat b + 256 * le_val bs"

text \<open>\<open>from_be_bytes\<close>: most significant byte first.\<close>

definition be_val :: "bytes \<Rightarrow> nat" where
  "be_val bs = le_val (rev bs)"

lemma length_le_bytes [simp, byte_simps]: "length (le_bytes n x) = n"
  by (induction n x rule: le_bytes.induct) simp_all

lemma le_bytes_not_Nil [simp]: "le_bytes n x = [] \<longleftrightarrow> n = 0"
  by (cases n) simp_all

text \<open>Evaluation on concrete widths.\<close>

lemma le_bytes_numeral [byte_eval]:
  "le_bytes (numeral k) x = of_nat x # le_bytes (pred_numeral k) (x div 256)"
  by (simp only: numeral_eq_Suc [of k] le_bytes.simps(2))

lemma le_val_le_bytes: "le_val (le_bytes n x) = x mod 256 ^ n"
proof (induction n x rule: le_bytes.induct)
  case (1 x)
  then show ?case by simp
next
  case (2 n x)
  have "unat (of_nat x :: byte) = x mod 256"
    by (simp add: unat_of_nat)
  moreover have "x mod (256 * 256 ^ n) = 256 * (x div 256 mod 256 ^ n) + x mod 256"
    by (rule mod_mult2_eq)
  ultimately show ?case using 2 by simp
qed

lemma le_val_le_bytes_small [byte_simps]: "x < 256 ^ n \<Longrightarrow> le_val (le_bytes n x) = x"
  by (simp add: le_val_le_bytes)

lemma le_val_bound: "le_val bs < 256 ^ length bs"
proof (induction bs)
  case (Cons b bs)
  with unat_word_bounds(1) [of b] show ?case by simp
qed simp

lemma le_bytes_le_val: "length bs = n \<Longrightarrow> le_bytes n (le_val bs) = bs"
proof (induction bs arbitrary: n)
  case (Cons b bs)
  have "(256 :: byte) = 0" by simp
  then have "256 * (of_nat (le_val bs) :: byte) = 0" by (metis mult_zero_left)
  then have "(of_nat (unat b + 256 * le_val bs) :: byte) = b" by simp
  with Cons unat_word_bounds(1) [of b] show ?case by (cases n) simp_all
qed simp

definition le16 :: "u16 \<Rightarrow> bytes" where "le16 w = le_bytes 2 (unat w)"
definition le32 :: "u32 \<Rightarrow> bytes" where "le32 w = le_bytes 4 (unat w)"
definition le64 :: "u64 \<Rightarrow> bytes" where "le64 w = le_bytes 8 (unat w)"

definition rd16 :: "bytes \<Rightarrow> u16" where "rd16 bs = of_nat (le_val bs)"
definition rd32 :: "bytes \<Rightarrow> u32" where "rd32 bs = of_nat (le_val bs)"
definition rd64 :: "bytes \<Rightarrow> u64" where "rd64 bs = of_nat (le_val bs)"

lemmas [byte_eval] = le16_def le32_def le64_def rd16_def rd32_def rd64_def

lemma length_le_words [simp, byte_simps]:
  "length (le16 a) = 2" "length (le32 b) = 4" "length (le64 c) = 8"
  by (simp_all add: le16_def le32_def le64_def)

lemma rd_le_words [simp, byte_simps]:
  "rd16 (le16 a) = a" "rd32 (le32 b) = b" "rd64 (le64 c) = c"
  using unat_word_bounds(2) [of a] unat_word_bounds(3) [of b] unat_word_bounds(4) [of c]
  by (simp_all add: rd16_def le16_def rd32_def le32_def rd64_def le64_def le_val_le_bytes)

lemma le_rd_words:
  "length bs = 2 \<Longrightarrow> le16 (rd16 bs) = bs"
  "length bs = 4 \<Longrightarrow> le32 (rd32 bs) = bs"
  "length bs = 8 \<Longrightarrow> le64 (rd64 bs) = bs"
  using le_val_bound [of bs]
  by (simp_all add: rd16_def le16_def rd32_def le32_def rd64_def le64_def unat_of_nat
      le_bytes_le_val)

lemma unat_rd_words [byte_simps]:
  "length bs = 2 \<Longrightarrow> unat (rd16 bs) = le_val bs"
  "length bs = 4 \<Longrightarrow> unat (rd32 bs) = le_val bs"
  "length bs = 8 \<Longrightarrow> unat (rd64 bs) = le_val bs"
  using le_val_bound [of bs] by (simp_all add: rd16_def rd32_def rd64_def unat_of_nat)

lemma le_val_le_words [simp, byte_simps]:
  "le_val (le16 a) = unat a" "le_val (le32 b) = unat b" "le_val (le64 c) = unat c"
  using unat_word_bounds(2) [of a] unat_word_bounds(3) [of b] unat_word_bounds(4) [of c]
  by (simp_all add: le16_def le32_def le64_def le_val_le_bytes)

section \<open>Slices\<close>

text \<open>\<open>p[a..b]\<close>, used only where the code has checked that it is in range.\<close>

definition slc :: "nat \<Rightarrow> nat \<Rightarrow> 'a list \<Rightarrow> 'a list" where
  "slc a b p = take (b - a) (drop a p)"

lemma length_slc [simp, byte_simps]: "b \<le> length p \<Longrightarrow> length (slc a b p) = b - a"
  by (simp add: slc_def)

lemma slc_prefix [byte_simps]: "length xs = n \<Longrightarrow> slc 0 n (xs @ ys) = xs"
  by (simp add: slc_def)

lemma slc_skip [byte_simps]:
  "length xs \<le> a \<Longrightarrow> slc a b (xs @ ys) = slc (a - length xs) (b - length xs) ys"
  by (simp add: slc_def)

lemma slc_all [byte_simps]: "length p = n \<Longrightarrow> slc 0 n p = p"
  by (simp add: slc_def)

lemma slc_cons_skip [byte_simps]:
  "0 < a \<Longrightarrow> slc a b (x # ys) = slc (a - 1) (b - 1) ys"
  by (cases a) (simp_all add: slc_def)

lemma slc_join [byte_simps]: "a \<le> b \<Longrightarrow> b \<le> c \<Longrightarrow> slc a b p @ slc b c p = slc a c p"
proof -
  assume "a \<le> b" "b \<le> c"
  then have "take (c - a) (drop a p) = take (b - a) (drop a p) @ take (c - b) (drop (b - a) (drop a p))"
    by (metis add.commute le_add_diff_inverse2 Nat.add_diff_assoc2 take_add ordered_cancel_comm_monoid_diff_class.add_diff_assoc)
  with \<open>a \<le> b\<close> show ?thesis by (simp add: slc_def)
qed

section \<open>Lists\<close>

lemma sum_list_map_filter_le:
  fixes f :: "'a \<Rightarrow> nat"
  shows "sum_list (map f (filter P xs)) \<le> sum_list (map f xs)"
  by (induction xs) auto

lemma find_filter_None: "List.find P xs = None \<longleftrightarrow> filter P xs = []"
  by (induction xs) auto

lemma find_Some_mem: "List.find P xs = Some x \<Longrightarrow> x \<in> set xs \<and> P x"
  by (induction xs) (auto split: if_splits)

lemma find_cong_filter:
  "(\<And>x. P x \<Longrightarrow> Q x) \<Longrightarrow> List.find P (filter Q xs) = List.find P xs"
  by (induction xs) auto

lemma drop_append_ge: "length xs \<le> n \<Longrightarrow> drop n (xs @ ys) = drop (n - length xs) ys"
  by simp

lemma concat_take_drop_nth:
  "i < length xss \<Longrightarrow> concat xss = concat (take i xss) @ xss ! i @ concat (drop (Suc i) xss)"
  by (metis append_take_drop_id concat.simps(2) concat_append Cons_nth_drop_Suc)

end
