(* ===== verification/Framing.thy ===== *)
theory Framing
  imports Prelude
begin

text \<open>
  Length-prefixed framing of the control stream (\<open>crates/quosh-proto/src/lib.rs\<close>): the
  protocol constants, the error type, \<open>encode_frame\<close>, \<open>peek_len\<close> and \<open>split_frame\<close>, and
  the accumulating \<open>FrameBuffer\<close> of the browser binding
  (\<open>crates/quosh-proto-wasm/src/lib.rs\<close>). The lemmas show that a frame survives the round
  trip, that splitting is insensitive to the boundaries of the reads the bytes arrived in,
  and that a bad length is an error as soon as its four bytes are there.
\<close>

section \<open>Constants and errors\<close>

definition PROTOCOL_VERSION :: u16 where "PROTOCOL_VERSION = 2"
definition OUTAGE_BANNER_SECS :: nat where "OUTAGE_BANNER_SECS = 3"
definition IDLE_SECS :: nat where "IDLE_SECS = 7 * 24 * 60 * 60"
definition MAX_FRAME :: nat where "MAX_FRAME = 16 * 1024 * 1024"
definition MAX_SCREEN_RAW :: nat where "MAX_SCREEN_RAW = 8 * 1024 * 1024"
definition MAX_INPUT_BYTES :: nat where "MAX_INPUT_BYTES = 32 * 1024"
definition MAX_COLS :: u16 where "MAX_COLS = 512"
definition MAX_ROWS :: u16 where "MAX_ROWS = 512"
definition MIN_COLS :: u16 where "MIN_COLS = 2"
definition MIN_ROWS :: u16 where "MIN_ROWS = 2"
definition MODE_CURSOR_VISIBLE :: u16 where "MODE_CURSOR_VISIBLE = 1"
definition MODE_BRACKETED_PASTE :: u16 where "MODE_BRACKETED_PASTE = 8"

definition MSG_HELLO :: byte where "MSG_HELLO = 1"
definition MSG_HELLO_OK :: byte where "MSG_HELLO_OK = 2"
definition MSG_INPUT :: byte where "MSG_INPUT = 3"
definition MSG_RESIZE :: byte where "MSG_RESIZE = 4"
definition MSG_HANGUP :: byte where "MSG_HANGUP = 5"
definition MSG_ACK_STATE :: byte where "MSG_ACK_STATE = 6"
definition MSG_INPUT_ACK :: byte where "MSG_INPUT_ACK = 7"
definition MSG_SCREEN :: byte where "MSG_SCREEN = 8"
definition MSG_EXIT :: byte where "MSG_EXIT = 9"
definition MSG_ERROR :: byte where "MSG_ERROR = 10"
definition MSG_PING :: byte where "MSG_PING = 11"
definition MSG_PONG :: byte where "MSG_PONG = 12"
definition MSG_AUTH_HELLO :: byte where "MSG_AUTH_HELLO = 13"
definition MSG_CHALLENGE :: byte where "MSG_CHALLENGE = 14"
definition MSG_ENROLL :: byte where "MSG_ENROLL = 15"
definition MSG_ASSERT :: byte where "MSG_ASSERT = 16"
definition MSG_AUTH_OK :: byte where "MSG_AUTH_OK = 17"
definition MSG_AUTH_FAIL :: byte where "MSG_AUTH_FAIL = 18"
definition MSG_SHARED_SCREEN :: byte where "MSG_SHARED_SCREEN = 19"

lemmas msg_defs =
  MSG_HELLO_def MSG_HELLO_OK_def MSG_INPUT_def MSG_RESIZE_def MSG_HANGUP_def
  MSG_ACK_STATE_def MSG_INPUT_ACK_def MSG_SCREEN_def MSG_EXIT_def MSG_ERROR_def
  MSG_PING_def MSG_PONG_def MSG_AUTH_HELLO_def MSG_CHALLENGE_def MSG_ENROLL_def
  MSG_ASSERT_def MSG_AUTH_OK_def MSG_AUTH_FAIL_def MSG_SHARED_SCREEN_def

datatype proto_error = Truncated | Magic | Frame | Lz4 | TooLarge | Io

section \<open>Frames\<close>

definition encode_frame :: "byte \<Rightarrow> bytes \<Rightarrow> bytes" where
  "encode_frame typ payload =
     (let n = 1 + length payload in le32 (of_nat n) @ [typ] @ payload)"

definition peek_len :: "bytes \<Rightarrow> proto_error + nat option" where
  "peek_len buf =
     (if length buf < 4 then Inr None
      else let n = unat (rd32 (slc 0 4 buf)) in
        if n = 0 \<or> n > MAX_FRAME then Inl TooLarge else Inr (Some n))"

text \<open>
  \<open>split_frame\<close> mutates the buffer it is given: the model returns the frame, if one is
  complete, with the bytes that are left.
\<close>

definition split_frame :: "bytes \<Rightarrow> proto_error + (byte \<times> bytes) option \<times> bytes" where
  "split_frame buf = res_bind (peek_len buf) (\<lambda>m.
     case m of None \<Rightarrow> Inr (None, buf)
     | Some n \<Rightarrow>
         if length buf < 4 + n then Inr (None, buf)
         else (let body = drop 4 (take (4 + n) buf); rest = drop (4 + n) buf in
           case body of [] \<Rightarrow> Inl Truncated | typ # payload \<Rightarrow> Inr (Some (typ, payload), rest)))"

lemma encode_frame_length [simp]: "length (encode_frame typ payload) = 5 + length payload"
  by (simp add: encode_frame_def Let_def)

lemma MAX_FRAME_lt: "n \<le> MAX_FRAME \<Longrightarrow> n < 4294967296"
  by (simp add: MAX_FRAME_def)

lemma peek_len_encode:
  assumes "1 + length payload \<le> MAX_FRAME"
  shows "peek_len (encode_frame typ payload @ rest) = Inr (Some (1 + length payload))"
proof -
  let ?n = "1 + length payload"
  have n: "unat (of_nat ?n :: u32) = ?n"
    using MAX_FRAME_lt [OF assms] by (simp add: unat_of_nat_small del: of_nat_Suc)
  have "slc 0 4 (encode_frame typ payload @ rest) = le32 (of_nat ?n)"
    by (simp add: encode_frame_def slc_def Let_def)
  then show ?thesis
    using assms n by (simp add: peek_len_def Let_def del: of_nat_Suc)
qed

lemma split_frame_encode:
  assumes "1 + length payload \<le> MAX_FRAME"
  shows "split_frame (encode_frame typ payload @ rest) = Inr (Some (typ, payload), rest)"
proof -
  have "drop 4 (take (4 + (1 + length payload)) (encode_frame typ payload @ rest)) = typ # payload"
    and "drop (4 + (1 + length payload)) (encode_frame typ payload @ rest) = rest"
    by (simp_all add: encode_frame_def Let_def)
  then show ?thesis
    by (simp add: split_frame_def peek_len_encode [OF assms] Let_def)
qed

lemma peek_len_append:
  "4 \<le> length a \<Longrightarrow> peek_len (a @ b) = peek_len a"
  by (simp add: peek_len_def slc_def)

lemma split_frame_Some_iff:
  "split_frame a = Inr (Some (t, p), r) \<longleftrightarrow>
     (\<exists>n. peek_len a = Inr (Some n) \<and> 4 + n \<le> length a \<and>
          drop 4 (take (4 + n) a) = t # p \<and> r = drop (4 + n) a)"
proof (cases "peek_len a")
  case (Inr m)
  then show ?thesis
    by (cases m) (auto simp: split_frame_def Let_def not_less split: list.split)
qed (simp add: split_frame_def)

lemma split_frame_None_iff:
  "split_frame a = Inr (None, r) \<longleftrightarrow>
     r = a \<and> (peek_len a = Inr None \<or> (\<exists>n. peek_len a = Inr (Some n) \<and> length a < 4 + n))"
proof (cases "peek_len a")
  case (Inr m)
  then show ?thesis
    by (cases m) (auto simp: split_frame_def Let_def not_less split: list.split)
qed (simp add: split_frame_def)

lemma peek_len_SomeD:
  assumes "peek_len a = Inr (Some n)"
  shows "4 \<le> length a \<and> 0 < n \<and> n \<le> MAX_FRAME"
  using assms by (auto simp: peek_len_def Let_def split: if_splits)

lemma split_frame_Inl_iff:
  "split_frame a = Inl e \<longleftrightarrow> peek_len a = Inl e"
proof (cases "peek_len a")
  case (Inr m)
  show ?thesis
  proof (cases m)
    case (Some n)
    with Inr have "0 < n" and "4 \<le> length a" using peek_len_SomeD by blast+
    with Inr Some show ?thesis
      by (auto simp: split_frame_def Let_def split: list.split)
  qed (simp add: Inr split_frame_def)
qed (simp add: split_frame_def)

lemma split_frame_Some_append:
  assumes "split_frame a = Inr (Some f, r)"
  shows "split_frame (a @ b) = Inr (Some f, r @ b)"
proof -
  obtain t p where f: "f = (t, p)" by fastforce
  with assms obtain n where n: "peek_len a = Inr (Some n)" "4 + n \<le> length a"
      "drop 4 (take (4 + n) a) = t # p" "r = drop (4 + n) a"
    by (auto simp: split_frame_Some_iff)
  then have "peek_len (a @ b) = Inr (Some n)"
    using peek_len_SomeD peek_len_append by metis
  with n f show ?thesis by (auto simp: split_frame_Some_iff)
qed

lemma split_frame_Inl_append:
  assumes "split_frame a = Inl e"
  shows "split_frame (a @ b) = Inl e"
proof -
  from assms have "peek_len a = Inl e" by (simp add: split_frame_Inl_iff)
  moreover from this have "4 \<le> length a"
    by (auto simp: peek_len_def Let_def split: if_splits)
  ultimately show ?thesis by (simp add: split_frame_Inl_iff peek_len_append)
qed

lemma split_frame_shrinks:
  assumes "split_frame a = Inr (Some (t, p), r)"
  shows "length a = 5 + length p + length r"
proof -
  from assms obtain n where n: "4 + n \<le> length a" "drop 4 (take (4 + n) a) = t # p"
      "r = drop (4 + n) a"
    by (auto simp: split_frame_Some_iff)
  from arg_cong [OF n(2), of length] n(1) have "n = 1 + length p" by simp
  with n(1,3) show ?thesis by simp
qed

lemma split_frame_None_rest: "split_frame a = Inr (None, r) \<Longrightarrow> r = a"
  by (simp add: split_frame_None_iff)

lemma split_frame_payload_bound:
  assumes "split_frame a = Inr (Some (t, p), r)"
  shows "length p < MAX_FRAME"
proof -
  from assms obtain n where n: "peek_len a = Inr (Some n)" "4 + n \<le> length a"
      "drop 4 (take (4 + n) a) = t # p"
    by (auto simp: split_frame_Some_iff)
  from arg_cong [OF n(3), of length] n(2) have "n = 1 + length p" by simp
  with peek_len_SomeD [OF n(1)] show ?thesis by simp
qed

section \<open>The loop over a buffer\<close>

text \<open>
  Every reader of the control stream runs \<open>split_frame\<close> until it returns \<open>None\<close> or fails.
  \<open>split_all\<close> is that loop: the frames in order, what is left in the buffer, and the error
  that stopped it. It ends because each frame takes at least five bytes.
\<close>

function split_all :: "bytes \<Rightarrow> (byte \<times> bytes) list \<times> bytes \<times> proto_error option" where
  "split_all buf = (case split_frame buf of
      Inl e \<Rightarrow> ([], buf, Some e)
    | Inr (None, r) \<Rightarrow> ([], r, None)
    | Inr (Some f, r) \<Rightarrow> (let (fs, r', e) = split_all r in (f # fs, r', e)))"
  by pat_completeness auto
termination
  by (relation "measure length") (auto dest: split_frame_shrinks)

declare split_all.simps [simp del]

lemma split_all_frame:
  "split_frame buf = Inr (Some f, r) \<Longrightarrow>
   split_all buf = (f # fst (split_all r), snd (split_all r))"
  by (subst split_all.simps) (simp add: split_def Let_def)

lemma split_all_none: "split_frame buf = Inr (None, r) \<Longrightarrow> split_all buf = ([], buf, None)"
  by (subst split_all.simps) (simp add: split_frame_None_rest)

lemma split_all_error: "split_frame buf = Inl e \<Longrightarrow> split_all buf = ([], buf, Some e)"
  by (subst split_all.simps) simp

lemmas split_all_cases = split_all_frame split_all_none split_all_error

lemma split_all_append:
  "split_all (a @ b) =
     (case split_all a of
        (fs, r, Some e) \<Rightarrow> (fs, r @ b, Some e)
      | (fs, r, None) \<Rightarrow> (fs @ fst (split_all (r @ b)), snd (split_all (r @ b))))"
proof (induction a rule: split_all.induct)
  case (1 a)
  show ?case
  proof (cases "split_frame a")
    case (Inl e)
    then show ?thesis by (simp add: split_all_cases split_frame_Inl_append)
  next
    case (Inr res)
    then obtain m r where s: "split_frame a = Inr (m, r)" by (cases res) simp
    show ?thesis
    proof (cases m)
      case None
      with s show ?thesis by (simp add: split_all_none)
    next
      case (Some f)
      with s have sf: "split_frame a = Inr (Some f, r)" by simp
      from 1 [OF sf refl refl]
      show ?thesis
        by (simp add: split_all_frame [OF sf] split_all_frame [OF split_frame_Some_append [OF sf]]
            split: prod.splits option.splits)
    qed
  qed
qed

lemma split_all_encode:
  assumes "1 + length p \<le> MAX_FRAME"
  shows "split_all (encode_frame t p @ rest) = ((t, p) # fst (split_all rest), snd (split_all rest))"
  by (rule split_all_frame [OF split_frame_encode [OF assms]])

lemma split_all_Nil [simp]: "split_all [] = ([], [], None)"
  by (rule split_all_none) (simp add: split_frame_def peek_len_def)

text \<open>A stream made of encoded frames splits into exactly those frames.\<close>

lemma split_all_concat_encode:
  assumes "list_all (\<lambda>(t, p). 1 + length p \<le> MAX_FRAME) fs"
  shows "split_all (concat (map (\<lambda>(t, p). encode_frame t p) fs)) = (fs, [], None)"
  using assms
proof (induction fs)
  case (Cons f fs)
  obtain t p where "f = (t, p)" by fastforce
  with Cons show ?case by (simp add: split_all_encode)
qed simp

section \<open>The accumulating buffer of the browser binding\<close>

record frame_buffer =
  fb_buf :: bytes

definition fb_new :: frame_buffer where "fb_new = \<lparr>fb_buf = []\<rparr>"

definition fb_push :: "bytes \<Rightarrow> frame_buffer \<Rightarrow> frame_buffer" where
  "fb_push bs fb = fb\<lparr>fb_buf := fb_buf fb @ bs\<rparr>"

definition fb_take ::
  "frame_buffer \<Rightarrow> proto_error + (byte \<times> bytes) option \<times> frame_buffer" where
  "fb_take fb = (case split_frame (fb_buf fb) of
      Inl e \<Rightarrow> Inl e
    | Inr (m, r) \<Rightarrow> Inr (m, fb\<lparr>fb_buf := r\<rparr>))"

definition fb_remaining :: "frame_buffer \<Rightarrow> bytes" where
  "fb_remaining fb = fb_buf fb"

text \<open>
  The reader of the stream: every chunk the transport delivers is pushed, and the complete
  frames are taken out. The reader stops at the first malformed length.
\<close>

fun fb_read ::
  "bytes list \<Rightarrow> frame_buffer \<Rightarrow> (byte \<times> bytes) list \<times> frame_buffer \<times> proto_error option" where
  "fb_read [] fb = ([], fb, None)"
| "fb_read (c # cs) fb =
     (case split_all (fb_remaining (fb_push c fb)) of
        (fs, r, Some e) \<Rightarrow> (fs, fb\<lparr>fb_buf := r\<rparr>, Some e)
      | (fs, r, None) \<Rightarrow>
          (let (gs, fb', e) = fb_read cs (fb\<lparr>fb_buf := r\<rparr>) in (fs @ gs, fb', e)))"

lemma split_all_rest:
  "split_all a = (fs, r, e) \<Longrightarrow> split_all r = ([], r, e) \<and> (fs = [] \<longrightarrow> r = a)"
proof (induction a arbitrary: fs rule: split_all.induct)
  case (1 a)
  show ?case
  proof (cases "split_frame a")
    case (Inl e')
    with "1.prems" show ?thesis by (auto simp: split_all_error)
  next
    case (Inr res)
    then obtain m r' where s: "split_frame a = Inr (m, r')" by (cases res) simp
    show ?thesis
    proof (cases m)
      case None
      with s "1.prems" show ?thesis by (auto simp: split_all_none)
    next
      case (Some f)
      with s have sf: "split_frame a = Inr (Some f, r')" by simp
      with "1.prems" obtain gs where "split_all r' = (gs, r, e)" "fs = f # gs"
        by (cases "split_all r'") (auto simp: split_all_frame)
      with "1.IH" [OF sf refl refl] show ?thesis by simp
    qed
  qed
qed

lemma fb_read_split_all:
  assumes "split_all (fb_buf fb) = ([], fb_buf fb, None)"
    and "split_all (fb_buf fb @ concat cs) = (fs, r, e)"
  shows "\<exists>r'. fb_read cs fb = (fs, \<lparr>fb_buf = r'\<rparr>, e) \<and> (e = None \<longrightarrow> r' = r)"
  using assms
proof (induction cs arbitrary: fb fs)
  case (Cons c cs)
  obtain gs r1 e1 where s: "split_all (fb_buf fb @ c) = (gs, r1, e1)" by (metis prod_cases3)
  have r1: "split_all r1 = ([], r1, e1)" using split_all_rest [OF s] by simp
  have app: "split_all ((fb_buf fb @ c) @ concat cs) = (fs, r, e)" using Cons.prems(2) by simp
  show ?case
  proof (cases e1)
    case (Some x)
    with s app split_all_append [of "fb_buf fb @ c" "concat cs"]
    show ?thesis by (cases fb) (simp add: fb_remaining_def fb_push_def)
  next
    case None
    obtain hs where hs: "split_all (r1 @ concat cs) = (hs, r, e)" "fs = gs @ hs"
      using s None app split_all_append [of "fb_buf fb @ c" "concat cs"]
      by (cases "split_all (r1 @ concat cs)") auto
    from Cons.IH [of "\<lparr>fb_buf = r1\<rparr>" hs] r1 None hs s
    show ?thesis by (cases fb) (auto simp: fb_remaining_def fb_push_def)
  qed
qed (auto intro: frame_buffer.equality)

section \<open>Properties\<close>

text \<open>The frames taken out of the stream, and the error that ends it, do not depend on how
  the transport cut the bytes into chunks: pushing the chunks one by one gives what one push of
  all the bytes gives, and without an error the same unfinished bytes are kept.\<close>

theorem framing_chunk_independent:
  "\<exists>r. fb_read chunks fb_new = (fst (split_all (concat chunks)), \<lparr>fb_buf = r\<rparr>,
                                snd (snd (split_all (concat chunks)))) \<and>
       (snd (snd (split_all (concat chunks))) = None \<longrightarrow> r = fst (snd (split_all (concat chunks))))"
  by (rule fb_read_split_all) (simp_all add: fb_new_def)

theorem framing_chunk_independent_witness:
  "fst (fb_read [[2, 0], [0, 0, 11], [7, 1, 0, 0, 0, 5, 9]] fb_new) = [(11, [7]), (5, [])]"
proof -
  have "split_all (concat [[2, 0], [0, 0, 11], [7, 1, 0, 0, 0, 5, 9]]) =
      ([(11, [7]), (5, [])], [9], None)"
    by (simp add: split_all.simps split_frame_def peek_len_def slc_def rd32_def MAX_FRAME_def)
  with framing_chunk_independent [of "[[2, 0], [0, 0, 11], [7, 1, 0, 0, 0, 5, 9]]"]
  show ?thesis by auto
qed

text \<open>Frames that respect the size limit are all delivered, in order and with their types
  and payloads, however their encodings are cut into chunks; the bytes of an unfinished frame
  after them stay in the buffer.\<close>

theorem framing_roundtrip:
  assumes "list_all (\<lambda>(t, p). 1 + length p \<le> MAX_FRAME) fs"
    and "concat chunks = concat (map (\<lambda>(t, p). encode_frame t p) fs) @ part"
    and "split_frame part = Inr (None, part)"
  shows "fb_read chunks fb_new = (fs, \<lparr>fb_buf = part\<rparr>, None)"
proof -
  have "split_all (concat chunks) = (fs, part, None)"
    using split_all_append [of "concat (map (\<lambda>(t, p). encode_frame t p) fs)" part]
    by (simp add: split_all_concat_encode [OF assms(1)] assms(2) split_all_none [OF assms(3)])
  then show ?thesis using fb_read_split_all [of fb_new chunks fs part None]
    by (auto simp: fb_new_def)
qed

theorem framing_roundtrip_witness:
  "fb_read [[2, 0], [0, 0, 11], [7, 1, 0, 0, 0, 5, 9]] fb_new = ([(11, [7]), (5, [])], \<lparr>fb_buf = [9]\<rparr>, None)"
  by (rule framing_roundtrip)
    (simp_all add: MAX_FRAME_def encode_frame_def split_frame_def peek_len_def byte_eval)

end
