(* ===== verification/Utf8.thy ===== *)
theory Utf8
  imports Prelude
begin

text \<open>
  Rust strings. A \<open>str\<close> is a byte sequence that is valid UTF-8, so strings are modelled as
  their bytes; \<open>from_utf8\<close>, \<open>from_utf8_lossy\<close> and the iterator over characters follow the
  standard library: an invalid sequence is cut at the longest prefix that could have begun
  a character, and the lossy conversion writes U+FFFD for each such piece.
\<close>

type_synonym rstr = bytes

definition lit :: "string \<Rightarrow> rstr" where
  "lit s = map of_char s"

definition utf8_get :: "bytes \<Rightarrow> nat \<Rightarrow> byte" where
  "utf8_get bs i = (if i < length bs then bs ! i else 0)"

definition is_cont :: "byte \<Rightarrow> bool" where
  "is_cont b \<longleftrightarrow> 0x80 \<le> b \<and> b \<le> 0xBF"

definition second_of_three :: "byte \<Rightarrow> byte \<Rightarrow> bool" where
  "second_of_three b0 b1 \<longleftrightarrow>
     (if b0 = 0xE0 then 0xA0 \<le> b1 \<and> b1 \<le> 0xBF
      else if b0 = 0xED then 0x80 \<le> b1 \<and> b1 \<le> 0x9F
      else is_cont b1)"

definition second_of_four :: "byte \<Rightarrow> byte \<Rightarrow> bool" where
  "second_of_four b0 b1 \<longleftrightarrow>
     (if b0 = 0xF0 then 0x90 \<le> b1 \<and> b1 \<le> 0xBF
      else if b0 = 0xF4 then 0x80 \<le> b1 \<and> b1 \<le> 0x8F
      else is_cont b1)"

text \<open>Is the next piece a character, and how many bytes does it take?\<close>

definition utf8_step :: "bytes \<Rightarrow> bool \<times> nat" where
  "utf8_step bs =
     (let b0 = utf8_get bs 0; b1 = utf8_get bs 1; b2 = utf8_get bs 2; b3 = utf8_get bs 3 in
      if b0 < 0x80 then (True, 1)
      else if 0xC2 \<le> b0 \<and> b0 \<le> 0xDF then (if is_cont b1 then (True, 2) else (False, 1))
      else if 0xE0 \<le> b0 \<and> b0 \<le> 0xEF then
        (if \<not> second_of_three b0 b1 then (False, 1)
         else if \<not> is_cont b2 then (False, 2) else (True, 3))
      else if 0xF0 \<le> b0 \<and> b0 \<le> 0xF4 then
        (if \<not> second_of_four b0 b1 then (False, 1)
         else if \<not> is_cont b2 then (False, 2)
         else if \<not> is_cont b3 then (False, 3) else (True, 4))
      else (False, 1))"

lemma utf8_get_cont: "is_cont (utf8_get bs i) \<Longrightarrow> i < length bs"
  by (auto simp: utf8_get_def is_cont_def split: if_splits)

lemma second_of_three_0 [simp]: "\<not> second_of_three b 0"
  by (simp add: second_of_three_def is_cont_def)

lemma second_of_four_0 [simp]: "\<not> second_of_four b 0"
  by (simp add: second_of_four_def is_cont_def)

lemma utf8_get_second:
  "second_of_three b (utf8_get bs i) \<Longrightarrow> i < length bs"
  "second_of_four b (utf8_get bs i) \<Longrightarrow> i < length bs"
  by (auto simp: utf8_get_def split: if_splits)

lemma utf8_step_pos: "0 < snd (utf8_step bs)"
  by (simp add: utf8_step_def Let_def)

lemma utf8_step_drop:
  assumes "bs \<noteq> []"
  shows "length (drop (snd (utf8_step bs)) bs) < length bs"
  using assms utf8_step_pos [of bs] by (simp add: diff_less)

lemma utf8_step_le: "bs \<noteq> [] \<Longrightarrow> snd (utf8_step bs) \<le> length bs"
  by (auto simp: utf8_step_def Let_def Suc_le_eq numeral_2_eq_2 numeral_3_eq_3
      dest: utf8_get_cont utf8_get_second)

function utf8_valid :: "bytes \<Rightarrow> bool" where
  "utf8_valid bs =
     (if bs = [] then True
      else fst (utf8_step bs) \<and> utf8_valid (drop (snd (utf8_step bs)) bs))"
  by pat_completeness auto
termination
  by (relation "measure length", simp) (simp only: in_measure, rule utf8_step_drop)

function utf8_lossy :: "bytes \<Rightarrow> rstr" where
  "utf8_lossy bs =
     (if bs = [] then []
      else (let (ok, n) = utf8_step bs in
        (if ok then take n bs else [0xEF, 0xBF, 0xBD]) @ utf8_lossy (drop n bs)))"
  by pat_completeness auto
termination
  by (relation "measure length", simp) (simp only: in_measure, metis snd_conv utf8_step_drop)

text \<open>The characters of a string, each as its bytes.\<close>

function utf8_chars :: "bytes \<Rightarrow> bytes list" where
  "utf8_chars bs =
     (if bs = [] then []
      else take (snd (utf8_step bs)) bs # utf8_chars (drop (snd (utf8_step bs)) bs))"
  by pat_completeness auto
termination
  by (relation "measure length", simp) (simp only: in_measure, rule utf8_step_drop)

declare utf8_valid.simps [simp del] utf8_lossy.simps [simp del] utf8_chars.simps [simp del]

lemma utf8_valid_Nil [simp]: "utf8_valid []"
  by (subst utf8_valid.simps) simp

lemma utf8_lossy_Nil [simp]: "utf8_lossy [] = []"
  by (subst utf8_lossy.simps) simp

lemma utf8_chars_Nil [simp]: "utf8_chars [] = []"
  by (subst utf8_chars.simps) simp

lemma utf8_lossy_valid: "utf8_valid bs \<Longrightarrow> utf8_lossy bs = bs"
proof (induction bs rule: utf8_valid.induct)
  case (1 bs)
  show ?case
  proof (cases "bs = []")
    case False
    with "1.prems" have "fst (utf8_step bs)" "utf8_valid (drop (snd (utf8_step bs)) bs)"
      by (simp_all add: utf8_valid.simps [of bs])
    with False "1.IH" show ?thesis
      by (simp add: utf8_lossy.simps [of bs] split_def Let_def)
  qed simp
qed

lemma concat_utf8_chars: "concat (utf8_chars bs) = bs"
proof (induction bs rule: utf8_chars.induct)
  case (1 bs)
  then show ?case by (cases "bs = []") (simp_all add: utf8_chars.simps [of bs])
qed

text \<open>ASCII text is valid and each byte is a character.\<close>

lemma utf8_step_ascii: "b < 0x80 \<Longrightarrow> utf8_step (b # bs) = (True, 1)"
  by (simp add: utf8_step_def utf8_get_def)

lemma utf8_valid_ascii_Cons [simp]: "b < 0x80 \<Longrightarrow> utf8_valid (b # bs) = utf8_valid bs"
  by (simp add: utf8_valid.simps [of "b # bs"] utf8_step_ascii)

lemma utf8_chars_ascii_Cons [simp]: "b < 0x80 \<Longrightarrow> utf8_chars (b # bs) = [b] # utf8_chars bs"
  by (simp add: utf8_chars.simps [of "b # bs"] utf8_step_ascii)

lemma utf8_ascii:
  assumes "list_all (\<lambda>b. b < 0x80) bs"
  shows "utf8_valid bs" "utf8_chars bs = map (\<lambda>b. [b]) bs"
  using assms by (induction bs) auto

text \<open>\<open>str::from_utf8\<close>; the error value carries no information the code uses.\<close>

definition from_utf8 :: "bytes \<Rightarrow> rstr option" where
  "from_utf8 bs = (if utf8_valid bs then Some bs else None)"

text \<open>The lossy conversion always yields a string.\<close>

lemma utf8_get_take: "i < n \<Longrightarrow> n \<le> length bs \<Longrightarrow> utf8_get (take n bs @ ys) i = utf8_get bs i"
  by (simp add: utf8_get_def nth_append)

lemma branch_cong:
  fixes g h :: "nat \<Rightarrow> 'a" and n :: nat
  assumes "(if A (g 0) then (True, 1) else if B (g 0) then (if C (g 1) then (True, 2) else (False, 1))
      else if D (g 0) then (if \<not> E (g 0) (g 1) then (False, 1) else if \<not> C (g 2) then (False, 2) else (True, 3))
      else if H (g 0) then (if \<not> K (g 0) (g 1) then (False, 1) else if \<not> C (g 2) then (False, 2)
        else if \<not> C (g 3) then (False, 3) else (True, 4)) else (False, 1)) = (True, n)"
    and "\<And>i. i < n \<Longrightarrow> h i = g i"
  shows "(if A (h 0) then (True, 1) else if B (h 0) then (if C (h 1) then (True, 2) else (False, 1))
      else if D (h 0) then (if \<not> E (h 0) (h 1) then (False, 1) else if \<not> C (h 2) then (False, 2) else (True, 3))
      else if H (h 0) then (if \<not> K (h 0) (h 1) then (False, 1) else if \<not> C (h 2) then (False, 2)
        else if \<not> C (h 3) then (False, 3) else (True, 4)) else (False, 1)) = (True, n)"
proof -
  have "n = 1 \<or> n = 2 \<or> n = 3 \<or> n = 4" using assms(1) by (simp split: if_splits)
  with assms show ?thesis by (elim disjE) (simp_all split: if_splits)
qed

lemma utf8_step_take:
  assumes "fst (utf8_step bs)" "bs \<noteq> []"
  shows "utf8_step (take (snd (utf8_step bs)) bs @ ys) = utf8_step bs"
proof -
  obtain n where st: "utf8_step bs = (True, n)" using assms(1) by (cases "utf8_step bs") simp
  have le: "n \<le> length bs" using utf8_step_le [OF assms(2)] st by simp
  have agree: "i < n \<Longrightarrow> utf8_get (take n bs @ ys) i = utf8_get bs i" for i
    by (rule utf8_get_take [OF _ le])
  note same = branch_cong [where A = "\<lambda>b. b < 0x80" and B = "\<lambda>b. 0xC2 \<le> b \<and> b \<le> 0xDF"
      and C = is_cont and D = "\<lambda>b. 0xE0 \<le> b \<and> b \<le> 0xEF" and E = second_of_three
      and H = "\<lambda>b. 0xF0 \<le> b \<and> b \<le> 0xF4" and K = second_of_four
      and g = "utf8_get bs" and h = "utf8_get (take n bs @ ys)" and n = n]
  have "utf8_step (take n bs @ ys) = (True, n)"
    unfolding utf8_step_def [of "take n bs @ ys"] Let_def
    by (rule same [OF st [unfolded utf8_step_def Let_def] agree])
  with st show ?thesis by simp
qed

lemma utf8_valid_append_step:
  assumes "fst (utf8_step bs)" "bs \<noteq> []" "utf8_valid ys"
  shows "utf8_valid (take (snd (utf8_step bs)) bs @ ys)"
proof -
  let ?n = "snd (utf8_step bs)" and ?zs = "take (snd (utf8_step bs)) bs @ ys"
  have "0 < ?n" "?n \<le> length bs" using utf8_step_pos utf8_step_le [OF assms(2)] by blast+
  then have "?zs \<noteq> []" "drop ?n ?zs = ys" using assms(2) by auto
  with utf8_step_take [OF assms(1,2), of ys] assms(1,3) show ?thesis
    by (subst utf8_valid.simps) simp
qed

lemma utf8_valid_replacement [simp]: "utf8_valid ([0xEF, 0xBF, 0xBD] @ ys) = utf8_valid ys"
proof -
  have "utf8_step ([0xEF, 0xBF, 0xBD] @ ys) = (True, 3)"
    by (simp add: utf8_step_def utf8_get_def second_of_three_def is_cont_def numeral_2_eq_2 [symmetric])
  then show ?thesis by (subst utf8_valid.simps) simp
qed

lemma utf8_valid_lossy [simp]: "utf8_valid (utf8_lossy bs)"
proof (induction bs rule: utf8_lossy.induct)
  case (1 bs)
  show ?case
  proof (cases "bs = []")
    case False
    obtain ok n where st: "utf8_step bs = (ok, n)" by fastforce
    have IH: "utf8_valid (utf8_lossy (drop n bs))"
      using "1.IH" [OF False st [symmetric] refl] .
    have "utf8_lossy bs = (if ok then take n bs else [0xEF, 0xBF, 0xBD]) @ utf8_lossy (drop n bs)"
      using False st by (simp add: utf8_lossy.simps [of bs])
    moreover have "ok \<Longrightarrow> utf8_valid (take n bs @ utf8_lossy (drop n bs))"
      using utf8_valid_append_step [OF _ False IH] st by simp
    moreover have "utf8_valid ([0xEF, 0xBF, 0xBD] @ utf8_lossy (drop n bs))"
      using IH by (simp only: utf8_valid_replacement)
    ultimately show ?thesis by (cases ok) simp_all
  qed simp
qed

end
