(* ===== verification/Frame_Lib.thy ===== *)
theory Frame_Lib
  imports Framing Utf8
begin

text \<open>
  Terminal frames. \<open>FrameState\<close> belongs to the third-party crate \<open>blit_remote\<close>: the model
  takes its operations as a record \<open>frame_lib\<close> over an unknown type of frames, and states
  the documented behaviour the code relies on as the predicates \<open>frame_laws\<close> (construction
  and access) and \<open>frame_edit_laws\<close> (in-place edits). The 12-byte cell format is used
  directly by the sources, so its operations are defined here, from
  \<open>crates/quosh-predict/src/lib.rs\<close>. A plain record of the fields, \<open>cframe\<close>, is the
  concrete library the examples run on.
\<close>

section \<open>BTreeMap\<close>

text \<open>
  The overflow table is a \<open>BTreeMap<usize, String>\<close>: an association list with ascending
  keys, the order in which it is iterated.
\<close>

fun btree_insert :: "nat \<Rightarrow> 'v \<Rightarrow> (nat \<times> 'v) list \<Rightarrow> (nat \<times> 'v) list" where
  "btree_insert k v [] = [(k, v)]"
| "btree_insert k v ((k', v') # m) =
     (if k < k' then (k, v) # (k', v') # m
      else if k = k' then (k, v) # m
      else (k', v') # btree_insert k v m)"

definition btree_remove :: "nat \<Rightarrow> (nat \<times> 'v) list \<Rightarrow> (nat \<times> 'v) list" where
  "btree_remove k m = filter (\<lambda>(k', _). k' \<noteq> k) m"

definition btree_ok :: "(nat \<times> 'v) list \<Rightarrow> bool" where
  "btree_ok m \<longleftrightarrow> sorted_wrt (<) (map fst m)"

lemma btree_insert_keys: "fst ` set (btree_insert k v m) = insert k (fst ` set m)"
  by (induction k v m rule: btree_insert.induct) auto

lemma btree_insert_set: "set (btree_insert k v m) \<subseteq> insert (k, v) (set m)"
  by (induction k v m rule: btree_insert.induct) auto

lemma btree_insert_ok: "btree_ok m \<Longrightarrow> btree_ok (btree_insert k v m)"
  unfolding btree_ok_def
proof (induction k v m rule: btree_insert.induct)
  case (2 k v k' v' m)
  have "\<forall>x \<in> fst ` set (btree_insert k v m). x = k \<or> x \<in> fst ` set m"
    using btree_insert_keys [of k v m] by simp
  with 2 show ?case by (fastforce split: if_splits)
qed simp

lemma btree_insert_lookup: "btree_ok m \<Longrightarrow> map_of (btree_insert k v m) = (map_of m)(k \<mapsto> v)"
proof (induction k v m rule: btree_insert.induct)
  case (2 k v k' v' m)
  then have "btree_ok m" and lt: "\<forall>x \<in> fst ` set m. k' < x" by (simp_all add: btree_ok_def)
  moreover have "k < k' \<Longrightarrow> map_of m k = None" using lt by (force simp: map_of_eq_None_iff)
  ultimately show ?case using "2.IH" by (auto simp: fun_eq_iff)
qed simp

lemma btree_insert_append:
  "\<forall>x \<in> fst ` set m. x < k \<Longrightarrow> btree_insert k v m = m @ [(k, v)]"
  by (induction k v m rule: btree_insert.induct) auto

lemma btree_insert_length: "length (btree_insert k v m) \<le> Suc (length m)"
  by (induction k v m rule: btree_insert.induct) auto

section \<open>The frame library\<close>

definition CELL_SIZE :: nat where "CELL_SIZE = 12"

record 'f frame_lib =
  fs_rows :: "'f \<Rightarrow> u16"
  fs_cols :: "'f \<Rightarrow> u16"
  fs_cursor_row :: "'f \<Rightarrow> u16"
  fs_cursor_col :: "'f \<Rightarrow> u16"
  fs_mode :: "'f \<Rightarrow> u16"
  fs_title :: "'f \<Rightarrow> rstr"
  fs_cells :: "'f \<Rightarrow> bytes"
  fs_overflow :: "'f \<Rightarrow> (nat \<times> rstr) list"
  fs_cell_links :: "'f \<Rightarrow> nat list"
  fs_cell_content :: "'f \<Rightarrow> u16 \<Rightarrow> u16 \<Rightarrow> rstr"
  fs_from_parts :: "u16 \<Rightarrow> u16 \<Rightarrow> u16 \<Rightarrow> u16 \<Rightarrow> u16 \<Rightarrow> rstr \<Rightarrow> bytes \<Rightarrow> 'f"
  fs_set_overflow :: "(nat \<times> rstr) list \<Rightarrow> 'f \<Rightarrow> 'f"
  fs_set_cells :: "bytes \<Rightarrow> 'f \<Rightarrow> 'f"
  fs_set_cursor :: "u16 \<Rightarrow> u16 \<Rightarrow> 'f \<Rightarrow> 'f"
  fs_max_cell_count :: nat

text \<open>Two frames that no accessor of cells, cursor, mode, title and overflow tells apart.\<close>

definition frame_same :: "('f, 'z) frame_lib_scheme \<Rightarrow> 'f \<Rightarrow> 'f \<Rightarrow> bool" where
  "frame_same F f g \<longleftrightarrow>
     fs_rows F f = fs_rows F g \<and> fs_cols F f = fs_cols F g \<and>
     fs_cursor_row F f = fs_cursor_row F g \<and> fs_cursor_col F f = fs_cursor_col F g \<and>
     fs_mode F f = fs_mode F g \<and> fs_title F f = fs_title F g \<and>
     fs_cells F f = fs_cells F g \<and> fs_overflow F f = fs_overflow F g"

definition cell_count :: "('f, 'z) frame_lib_scheme \<Rightarrow> 'f \<Rightarrow> nat" where
  "cell_count F f = unat (fs_rows F f) * unat (fs_cols F f)"

definition from_parts_law :: "('f, 'z) frame_lib_scheme \<Rightarrow> bool" where
  "from_parts_law F \<longleftrightarrow>
     (\<forall>r c cr cc m t cells. length cells = unat r * unat c * CELL_SIZE \<longrightarrow>
        (let f = fs_from_parts F r c cr cc m t cells in
           fs_rows F f = r \<and> fs_cols F f = c \<and> fs_cursor_row F f = cr \<and> fs_cursor_col F f = cc \<and>
           fs_mode F f = m \<and> fs_title F f = t \<and> fs_cells F f = cells \<and> fs_overflow F f = []))"

definition set_overflow_law :: "('f, 'z) frame_lib_scheme \<Rightarrow> bool" where
  "set_overflow_law F \<longleftrightarrow>
     (\<forall>f ov. let g = fs_set_overflow F ov f in
        fs_rows F g = fs_rows F f \<and> fs_cols F g = fs_cols F f \<and>
        fs_cursor_row F g = fs_cursor_row F f \<and> fs_cursor_col F g = fs_cursor_col F f \<and>
        fs_mode F g = fs_mode F f \<and> fs_title F g = fs_title F f \<and>
        fs_cells F g = fs_cells F f \<and> fs_overflow F g = ov)"

definition frame_laws :: "('f, 'z) frame_lib_scheme \<Rightarrow> bool" where
  "frame_laws F \<longleftrightarrow> from_parts_law F \<and> set_overflow_law F"

definition set_cells_law :: "('f, 'z) frame_lib_scheme \<Rightarrow> bool" where
  "set_cells_law F \<longleftrightarrow>
     (\<forall>f cs. length cs = length (fs_cells F f) \<longrightarrow> (let g = fs_set_cells F cs f in
        fs_rows F g = fs_rows F f \<and> fs_cols F g = fs_cols F f \<and>
        fs_cursor_row F g = fs_cursor_row F f \<and> fs_cursor_col F g = fs_cursor_col F f \<and>
        fs_mode F g = fs_mode F f \<and> fs_title F g = fs_title F f \<and>
        fs_cells F g = cs \<and> fs_overflow F g = fs_overflow F f))"

definition set_cursor_law :: "('f, 'z) frame_lib_scheme \<Rightarrow> bool" where
  "set_cursor_law F \<longleftrightarrow>
     (\<forall>f r c. let g = fs_set_cursor F r c f in
        fs_rows F g = fs_rows F f \<and> fs_cols F g = fs_cols F f \<and>
        fs_mode F g = fs_mode F f \<and> fs_title F g = fs_title F f \<and>
        fs_cells F g = fs_cells F f \<and> fs_overflow F g = fs_overflow F f \<and>
        fs_cursor_row F g = r \<and> fs_cursor_col F g = c)"

definition frame_edit_laws :: "('f, 'z) frame_lib_scheme \<Rightarrow> bool" where
  "frame_edit_laws F \<longleftrightarrow> set_overflow_law F \<and> set_cells_law F \<and> set_cursor_law F"

lemma from_parts_simps:
  assumes "frame_laws F" "length cells = unat r * unat c * CELL_SIZE"
  shows "fs_rows F (fs_from_parts F r c cr cc m t cells) = r"
    "fs_cols F (fs_from_parts F r c cr cc m t cells) = c"
    "fs_cursor_row F (fs_from_parts F r c cr cc m t cells) = cr"
    "fs_cursor_col F (fs_from_parts F r c cr cc m t cells) = cc"
    "fs_mode F (fs_from_parts F r c cr cc m t cells) = m"
    "fs_title F (fs_from_parts F r c cr cc m t cells) = t"
    "fs_cells F (fs_from_parts F r c cr cc m t cells) = cells"
    "fs_overflow F (fs_from_parts F r c cr cc m t cells) = []"
  using assms by (auto simp: frame_laws_def from_parts_law_def Let_def)

lemma set_overflow_simps:
  assumes "set_overflow_law F"
  shows "fs_rows F (fs_set_overflow F ov f) = fs_rows F f"
    "fs_cols F (fs_set_overflow F ov f) = fs_cols F f"
    "fs_cursor_row F (fs_set_overflow F ov f) = fs_cursor_row F f"
    "fs_cursor_col F (fs_set_overflow F ov f) = fs_cursor_col F f"
    "fs_mode F (fs_set_overflow F ov f) = fs_mode F f"
    "fs_title F (fs_set_overflow F ov f) = fs_title F f"
    "fs_cells F (fs_set_overflow F ov f) = fs_cells F f"
    "fs_overflow F (fs_set_overflow F ov f) = ov"
  using assms by (auto simp: set_overflow_law_def Let_def)

lemma set_cells_simps:
  assumes "set_cells_law F" "length cs = length (fs_cells F f)"
  shows "fs_rows F (fs_set_cells F cs f) = fs_rows F f"
    "fs_cols F (fs_set_cells F cs f) = fs_cols F f"
    "fs_cursor_row F (fs_set_cells F cs f) = fs_cursor_row F f"
    "fs_cursor_col F (fs_set_cells F cs f) = fs_cursor_col F f"
    "fs_mode F (fs_set_cells F cs f) = fs_mode F f"
    "fs_title F (fs_set_cells F cs f) = fs_title F f"
    "fs_cells F (fs_set_cells F cs f) = cs"
    "fs_overflow F (fs_set_cells F cs f) = fs_overflow F f"
  using assms by (auto simp: set_cells_law_def Let_def)

lemma set_cursor_simps:
  assumes "set_cursor_law F"
  shows "fs_rows F (fs_set_cursor F r c f) = fs_rows F f"
    "fs_cols F (fs_set_cursor F r c f) = fs_cols F f"
    "fs_mode F (fs_set_cursor F r c f) = fs_mode F f"
    "fs_title F (fs_set_cursor F r c f) = fs_title F f"
    "fs_cells F (fs_set_cursor F r c f) = fs_cells F f"
    "fs_overflow F (fs_set_cursor F r c f) = fs_overflow F f"
    "fs_cursor_row F (fs_set_cursor F r c f) = r"
    "fs_cursor_col F (fs_set_cursor F r c f) = c"
  using assms by (auto simp: set_cursor_law_def Let_def)

section \<open>Cells\<close>

text \<open>Characters are Unicode scalar values; \<open>encode_utf8\<close> and \<open>len_utf8\<close> of the standard
  library.\<close>

definition utf8_encode :: "nat \<Rightarrow> bytes" where
  "utf8_encode ch =
     (if ch < 0x80 then [of_nat ch]
      else if ch < 0x800 then [of_nat (0xC0 + ch div 64), of_nat (0x80 + ch mod 64)]
      else if ch < 0x10000 then
        [of_nat (0xE0 + ch div 4096), of_nat (0x80 + ch div 64 mod 64), of_nat (0x80 + ch mod 64)]
      else
        [of_nat (0xF0 + ch div 262144), of_nat (0x80 + ch div 4096 mod 64),
         of_nat (0x80 + ch div 64 mod 64), of_nat (0x80 + ch mod 64)])"

unbundle bit_operations_syntax

text \<open>The content length field of the second byte of a cell.\<close>

definition content_len :: "bytes \<Rightarrow> nat" where
  "content_len cell = unat (drop_bit 3 (cell ! 1) AND 7)"

definition cell_text :: "bytes \<Rightarrow> rstr" where
  "cell_text cell =
     (if cell ! 1 AND 4 \<noteq> 0 then []
      else let len = content_len cell in
        if len = 0 then lit '' ''
        else if len \<ge> 7 \<or> len > 4 then []
        else utf8_lossy (slc 8 (8 + len) cell))"

definition is_blank :: "rstr \<Rightarrow> bool" where
  "is_blank s \<longleftrightarrow> s = [] \<or> s = lit '' '' \<or> s = [0xC2, 0xA0]"

definition contents_match :: "rstr \<Rightarrow> rstr \<Rightarrow> bool" where
  "contents_match a b \<longleftrightarrow> (is_blank a \<and> is_blank b) \<or> a = b"

definition make_char_cell :: "bytes \<Rightarrow> nat \<Rightarrow> bytes" where
  "make_char_cell src ch =
     (let s = utf8_encode ch; len = min (length s) 4 in
      (take 8 src)[1 := (src ! 1 AND 1) OR push_bit 3 (of_nat len)]
        @ take len s @ replicate (4 - len) 0)"

definition make_blank_cell :: "bytes \<Rightarrow> bytes" where
  "make_blank_cell src = (take 8 src)[1 := src ! 1 AND 1] @ replicate 4 0"

definition copy_renditions :: "bytes \<Rightarrow> bytes \<Rightarrow> bytes" where
  "copy_renditions dst src =
     [src ! 0, (dst ! 1 AND 0xFE) OR (src ! 1 AND 1)] @ slc 2 8 src @ drop 8 dst"

definition cell_is_overflow :: "bytes \<Rightarrow> bool" where
  "cell_is_overflow cell \<longleftrightarrow> content_len cell = 7"

lemma length_utf8_encode: "1 \<le> length (utf8_encode ch)" "length (utf8_encode ch) \<le> 4"
  by (auto simp: utf8_encode_def)

lemma length_make_char_cell [simp]:
  "length src = 12 \<Longrightarrow> length (make_char_cell src ch) = 12"
  using length_utf8_encode [of ch] by (simp add: make_char_cell_def Let_def)

lemma length_make_blank_cell [simp]: "length src = 12 \<Longrightarrow> length (make_blank_cell src) = 12"
  by (simp add: make_blank_cell_def)

lemma length_copy_renditions [simp]:
  "length src = 12 \<Longrightarrow> length dst = 12 \<Longrightarrow> length (copy_renditions dst src) = 12"
  by (simp add: copy_renditions_def slc_def)

section \<open>A concrete library\<close>

record cframe =
  cf_rows :: u16
  cf_cols :: u16
  cf_cursor_row :: u16
  cf_cursor_col :: u16
  cf_mode :: u16
  cf_title :: rstr
  cf_cells :: bytes
  cf_overflow :: "(nat \<times> rstr) list"

definition cf_cell_content :: "cframe \<Rightarrow> u16 \<Rightarrow> u16 \<Rightarrow> rstr" where
  "cf_cell_content f r c =
     (let i = unat r * unat (cf_cols f) + unat c; cell = slc (12 * i) (12 * i + 12) (cf_cells f) in
      if r \<ge> cf_rows f \<or> c \<ge> cf_cols f then []
      else if cell_is_overflow cell
      then (case map_of (cf_overflow f) i of None \<Rightarrow> [] | Some s \<Rightarrow> s)
      else cell_text cell)"

definition cframe_lib :: "cframe frame_lib" where
  "cframe_lib = \<lparr>
     fs_rows = cf_rows, fs_cols = cf_cols, fs_cursor_row = cf_cursor_row,
     fs_cursor_col = cf_cursor_col, fs_mode = cf_mode, fs_title = cf_title, fs_cells = cf_cells,
     fs_overflow = cf_overflow, fs_cell_links = (\<lambda>_. []), fs_cell_content = cf_cell_content,
     fs_from_parts = (\<lambda>r c cr cc m t cells. \<lparr>cf_rows = r, cf_cols = c, cf_cursor_row = cr,
        cf_cursor_col = cc, cf_mode = m, cf_title = t, cf_cells = cells, cf_overflow = []\<rparr>),
     fs_set_overflow = (\<lambda>ov f. f\<lparr>cf_overflow := ov\<rparr>),
     fs_set_cells = (\<lambda>cs f. f\<lparr>cf_cells := cs\<rparr>),
     fs_set_cursor = (\<lambda>r c f. f\<lparr>cf_cursor_row := r, cf_cursor_col := c\<rparr>),
     fs_max_cell_count = 262144\<rparr>"

lemma cframe_laws: "frame_laws cframe_lib" "frame_edit_laws cframe_lib"
  by (simp_all add: frame_laws_def frame_edit_laws_def from_parts_law_def set_overflow_law_def
      set_cells_law_def set_cursor_law_def cframe_lib_def)

end
