(* ===== verification/Connect_Line.thy ===== *)
theory Connect_Line
  imports Framing Utf8
begin

text \<open>
  The line a server prints for its client, \<open>QUOSH CONNECT <port> <hash> <session> <token>\<close>
  (\<open>crates/quosh-proto/src/lib.rs\<close>): \<open>parse_connect_line\<close>, \<open>format_connect_line\<close> and the
  standard library's \<open>trim\<close>, \<open>split_whitespace\<close> and integer parsing on strings. The \<open>hex\<close>
  crate is a parameter: a pair of functions with the laws \<open>hex_laws\<close>.
\<close>

section \<open>Characters and words\<close>

text \<open>The UTF-8 encodings of the characters with the property White\_Space.\<close>

definition is_ws :: "bytes \<Rightarrow> bool" where
  "is_ws c \<longleftrightarrow> c \<in> set [[0x09], [0x0A], [0x0B], [0x0C], [0x0D], [0x20], [0xC2, 0x85], [0xC2, 0xA0],
     [0xE1, 0x9A, 0x80], [0xE2, 0x80, 0x80], [0xE2, 0x80, 0x81], [0xE2, 0x80, 0x82],
     [0xE2, 0x80, 0x83], [0xE2, 0x80, 0x84], [0xE2, 0x80, 0x85], [0xE2, 0x80, 0x86],
     [0xE2, 0x80, 0x87], [0xE2, 0x80, 0x88], [0xE2, 0x80, 0x89], [0xE2, 0x80, 0x8A],
     [0xE2, 0x80, 0xA8], [0xE2, 0x80, 0xA9], [0xE2, 0x80, 0xAF], [0xE2, 0x81, 0x9F],
     [0xE3, 0x80, 0x80]]"

definition trim_chars :: "bytes list \<Rightarrow> bytes list" where
  "trim_chars cs = rev (dropWhile is_ws (rev (dropWhile is_ws cs)))"

definition str_trim :: "rstr \<Rightarrow> rstr" where
  "str_trim s = concat (trim_chars (utf8_chars s))"

definition str_trim_start :: "rstr \<Rightarrow> rstr" where
  "str_trim_start s = concat (dropWhile is_ws (utf8_chars s))"

definition strip_prefix :: "rstr \<Rightarrow> rstr \<Rightarrow> rstr option" where
  "strip_prefix p s = (if take (length p) s = p then Some (drop (length p) s) else None)"

function words_of :: "bytes list \<Rightarrow> rstr list" where
  "words_of cs = (let cs' = dropWhile is_ws cs in
     if cs' = [] then []
     else concat (takeWhile (\<lambda>c. \<not> is_ws c) cs') # words_of (dropWhile (\<lambda>c. \<not> is_ws c) cs'))"
  by pat_completeness auto
termination
proof (relation "measure length")
  fix cs x :: "bytes list"
  assume x: "x = dropWhile is_ws cs" "x \<noteq> []"
  from x(2) obtain y ys where y: "x = y # ys" by (meson neq_Nil_conv)
  with x have "\<not> is_ws y" by (metis hd_dropWhile list.sel(1) list.distinct(1))
  then have "length (dropWhile (\<lambda>c. \<not> is_ws c) x) \<le> length ys"
    by (simp add: y length_dropWhile_le)
  moreover have "length x \<le> length cs" using x(1) length_dropWhile_le by simp
  ultimately show "(dropWhile (\<lambda>c. \<not> is_ws c) x, cs) \<in> measure length" by (simp add: y)
qed simp

declare words_of.simps [simp del]

definition split_whitespace :: "rstr \<Rightarrow> rstr list" where
  "split_whitespace s = words_of (utf8_chars s)"

section \<open>Numbers\<close>

definition is_digit :: "byte \<Rightarrow> bool" where
  "is_digit b \<longleftrightarrow> 48 \<le> b \<and> b \<le> 57"

definition digits_val :: "bytes \<Rightarrow> nat" where
  "digits_val bs = fold (\<lambda>b n. n * 10 + (unat b - 48)) bs 0"

text \<open>\<open>str::parse\<close> for an unsigned type with the given bound: an optional plus sign, at least
  one digit, no overflow.\<close>

definition parse_uint :: "nat \<Rightarrow> rstr \<Rightarrow> nat option" where
  "parse_uint bound s =
     (let ds = (case s of b # r \<Rightarrow> if b = 43 then r else s | [] \<Rightarrow> s) in
      if ds = [] \<or> \<not> list_all is_digit ds \<or> digits_val ds \<ge> bound then None
      else Some (digits_val ds))"

fun dec_digits :: "nat \<Rightarrow> bytes" where
  "dec_digits n = (if n < 10 then [of_nat (48 + n)]
     else dec_digits (n div 10) @ [of_nat (48 + n mod 10)])"

declare dec_digits.simps [simp del]

section \<open>The line\<close>

definition WT_PATH :: rstr where "WT_PATH = lit ''/quosh''"
definition CONNECT_PREFIX :: rstr where "CONNECT_PREFIX = lit ''QUOSH CONNECT''"

definition hex_n :: "(rstr \<Rightarrow> bytes option) \<Rightarrow> nat \<Rightarrow> rstr \<Rightarrow> proto_error + bytes" where
  "hex_n hex_decode n s = (case hex_decode s of None \<Rightarrow> Inl Frame
     | Some v \<Rightarrow> if length v = n then Inr v else Inl Frame)"

definition hex_16 :: "(rstr \<Rightarrow> bytes option) \<Rightarrow> rstr \<Rightarrow> proto_error + bytes" where
  "hex_16 hex_decode s = hex_n hex_decode 16 s"

definition hex_32 :: "(rstr \<Rightarrow> bytes option) \<Rightarrow> rstr \<Rightarrow> proto_error + bytes" where
  "hex_32 hex_decode s = hex_n hex_decode 32 s"

text \<open>\<open>parts.next()\<close> on the iterator of words.\<close>

definition next_word :: "rstr list \<Rightarrow> proto_error + rstr \<times> rstr list" where
  "next_word ws = (case ws of [] \<Rightarrow> Inl Frame | w # ws \<Rightarrow> Inr (w, ws))"

definition parse_connect_line ::
  "(rstr \<Rightarrow> bytes option) \<Rightarrow> rstr \<Rightarrow> proto_error + u16 \<times> bytes \<times> bytes \<times> bytes" where
  "parse_connect_line hex_decode line =
     res_bind (ok_or (strip_prefix CONNECT_PREFIX (str_trim line)) Frame) (\<lambda>rest.
     res_bind (next_word (split_whitespace (str_trim rest))) (\<lambda>(w, ws).
     res_bind (ok_or (parse_uint 65536 w) Frame) (\<lambda>port.
     res_bind (next_word ws) (\<lambda>(w, ws).
     res_bind (hex_32 hex_decode w) (\<lambda>hash.
     res_bind (next_word ws) (\<lambda>(w, ws).
     res_bind (hex_16 hex_decode w) (\<lambda>sid.
     res_bind (next_word ws) (\<lambda>(w, ws).
     res_bind (hex_32 hex_decode w) (\<lambda>tok.
     Inr (of_nat port, hash, sid, tok))))))))))"

definition format_connect_line ::
  "(bytes \<Rightarrow> rstr) \<Rightarrow> u16 \<Rightarrow> bytes \<Rightarrow> bytes \<Rightarrow> bytes \<Rightarrow> rstr" where
  "format_connect_line hex_encode port hash session token =
     CONNECT_PREFIX @ lit '' '' @ dec_digits (unat port) @ lit '' '' @ hex_encode hash @
     lit '' '' @ hex_encode session @ lit '' '' @ hex_encode token"

text \<open>What the \<open>hex\<close> crate promises: two lower-case hexadecimal digits for each byte, inverted by
  the decoder.\<close>

definition hex_digit :: "byte \<Rightarrow> bool" where
  "hex_digit b \<longleftrightarrow> (48 \<le> b \<and> b \<le> 57) \<or> (97 \<le> b \<and> b \<le> 102)"

definition hex_laws :: "(bytes \<Rightarrow> rstr) \<Rightarrow> (rstr \<Rightarrow> bytes option) \<Rightarrow> bool" where
  "hex_laws enc dec \<longleftrightarrow> (\<forall>b. dec (enc b) = Some b \<and> length (enc b) = 2 * length b \<and>
     list_all hex_digit (enc b))"

section \<open>Round trip\<close>

text \<open>Printable ASCII without blanks.\<close>

definition graph_byte :: "byte \<Rightarrow> bool" where
  "graph_byte b \<longleftrightarrow> 33 \<le> b \<and> b < 127"

lemma graph_byte_ascii: "graph_byte b \<Longrightarrow> b < 0x80" "graph_byte b \<Longrightarrow> \<not> is_ws [b]"
  by (auto simp: graph_byte_def is_ws_def word_le_nat_alt word_less_nat_alt)

lemma hex_digit_graph: "hex_digit b \<Longrightarrow> graph_byte b"
  by (auto simp: hex_digit_def graph_byte_def word_le_nat_alt word_less_nat_alt)

lemma is_digit_graph: "is_digit b \<Longrightarrow> graph_byte b"
  by (auto simp: is_digit_def graph_byte_def word_le_nat_alt word_less_nat_alt)

lemma digit_unat: "d < 10 \<Longrightarrow> unat (of_nat (48 + d) :: byte) = 48 + d"
  by (rule unat_of_nat_small) simp

lemma dec_digits_digits: "list_all is_digit (dec_digits n)"
proof (induction n rule: dec_digits.induct)
  case (1 n)
  have d: "d < 10 \<Longrightarrow> is_digit (of_nat (48 + d))" for d
    using digit_unat [of d] by (simp add: is_digit_def word_le_nat_alt)
  show ?case
    using 1 d [of n] d [of "n mod 10"] by (subst dec_digits.simps) (simp del: of_nat_add)
qed

lemma dec_digits_val: "digits_val (dec_digits n) = n"
proof (induction n rule: dec_digits.induct)
  case (1 n)
  show ?case
    using 1 digit_unat [of n] digit_unat [of "n mod 10"]
    by (subst dec_digits.simps) (auto simp: digits_val_def simp del: of_nat_add)
qed

lemma dec_digits_not_Nil [simp]: "dec_digits n \<noteq> []"
  by (subst dec_digits.simps) simp

lemma parse_uint_dec_digits: "n < bound \<Longrightarrow> parse_uint bound (dec_digits n) = Some n"
proof -
  assume "n < bound"
  moreover have "hd (dec_digits n) \<noteq> 43"
    using dec_digits_digits [of n] by (cases "dec_digits n") (auto simp: is_digit_def word_le_nat_alt)
  ultimately show ?thesis
    using dec_digits_digits [of n] dec_digits_val [of n]
    by (cases "dec_digits n") (auto simp: parse_uint_def Let_def)
qed

lemma words_of_graph:
  assumes "list_all graph_byte w" "w \<noteq> []" "rest = [] \<or> is_ws (hd rest)"
  shows "words_of (map (\<lambda>b. [b]) w @ rest) = w # words_of rest"
proof -
  let ?m = "map (\<lambda>b. [b]) w"
  have nw: "\<forall>c \<in> set ?m. \<not> is_ws c"
    using assms(1) graph_byte_ascii(2) by (auto simp: list_all_iff)
  obtain c m where m: "?m = c # m" using assms(2) by (cases ?m) auto
  then have dw: "dropWhile is_ws (?m @ rest) = ?m @ rest" using nw by simp
  moreover have tw: "takeWhile (\<lambda>c. \<not> is_ws c) (?m @ rest) = ?m"
    using nw assms(3) by (cases rest) (auto simp: takeWhile_append)
  moreover have dw2: "dropWhile (\<lambda>c. \<not> is_ws c) (?m @ rest) = rest"
    using nw assms(3) by (cases rest) (auto simp: dropWhile_append)
  moreover have "concat ?m = w" by (induction w) auto
  ultimately show ?thesis using m by (subst words_of.simps) (simp add: Let_def)
qed

lemma words_of_space: "is_ws c \<Longrightarrow> words_of (c # rest) = words_of rest"
  by (subst (1 2) words_of.simps) simp

lemma is_ws_space [simp]: "is_ws [32]"
  by (simp add: is_ws_def)

lemma lit_space: "lit '' '' = [32]"
  by (simp add: lit_def)

text \<open>Trimming leaves text alone that begins and ends with a printable byte.\<close>

lemma trim_chars_graph:
  assumes "graph_byte (hd w)" "graph_byte (last w)" "w \<noteq> []" "list_all is_ws pre" "list_all is_ws post"
  shows "trim_chars (pre @ map (\<lambda>b. [b]) w @ post) = map (\<lambda>b. [b]) w"
proof -
  let ?m = "map (\<lambda>b. [b]) w"
  have drop_ws: "dropWhile is_ws (xs @ ys) = ys"
    if "list_all is_ws xs" "ys \<noteq> []" "\<not> is_ws (hd ys)" for xs ys
    using that by (induction xs) (auto simp: neq_Nil_conv)
  have "hd ?m = [hd w]" "hd (rev ?m) = [last w]"
    using assms(3) by (simp_all add: hd_map hd_rev last_map)
  with assms graph_byte_ascii(2) have h: "\<not> is_ws (hd (?m @ post))" "\<not> is_ws (hd (rev ?m))"
    by (auto simp: hd_append)
  have "dropWhile is_ws (pre @ ?m @ post) = ?m @ post"
    by (rule drop_ws) (use assms h in auto)
  moreover have "dropWhile is_ws (rev post @ rev ?m) = rev ?m"
    by (rule drop_ws) (use assms h in auto)
  ultimately show ?thesis by (simp add: trim_chars_def)
qed

definition blank_byte :: "byte \<Rightarrow> bool" where
  "blank_byte b \<longleftrightarrow> b < 0x80 \<and> is_ws [b]"

lemma trim_graph:
  assumes "list_all (\<lambda>b. b < 0x80) w" "graph_byte (hd w)" "graph_byte (last w)" "w \<noteq> []"
    and "list_all blank_byte pre" "list_all blank_byte post"
  shows "str_trim (pre @ w @ post) = w"
proof -
  let ?sing = "map (\<lambda>b :: byte. [b])"
  have "list_all (\<lambda>b. b < 0x80) (pre @ w @ post)"
    using assms(1,5,6) by (auto simp: list_all_iff blank_byte_def)
  then have "utf8_chars (pre @ w @ post) = ?sing pre @ ?sing w @ ?sing post"
    by (simp add: utf8_ascii(2))
  moreover have "list_all is_ws (?sing pre)" "list_all is_ws (?sing post)"
    using assms(5,6) by (auto simp: list_all_iff blank_byte_def)
  moreover have "concat (?sing w) = w" by (induction w) auto
  ultimately show ?thesis using assms(2-4) by (simp add: str_trim_def trim_chars_graph)
qed

lemma words_of_sep:
  assumes "list_all graph_byte w" "w \<noteq> []"
  shows "words_of (map (\<lambda>b. [b]) w @ [32] # rest) = w # words_of rest"
    and "words_of (map (\<lambda>b. [b]) w) = [w]"
proof -
  show "words_of (map (\<lambda>b. [b]) w @ [32] # rest) = w # words_of rest"
    using words_of_graph [OF assms, of "[32] # rest"] by (simp add: words_of_space)
  have "words_of [] = []" by (subst words_of.simps) simp
  with words_of_graph [OF assms, of "[]"] show "words_of (map (\<lambda>b. [b]) w) = [w]" by simp
qed

section \<open>Properties\<close>

text \<open>A formatted connect line parses back to its port, certificate hash, session id and token,
  with any ASCII blanks (a line end among them) around it.\<close>

theorem connect_line_roundtrip:
  assumes "hex_laws enc dec" "length hash = 32" "length sid = 16" "length tok = 32"
    and "list_all blank_byte pre" "list_all blank_byte post"
  shows "parse_connect_line dec (pre @ format_connect_line enc port hash sid tok @ post)
     = Inr (port, hash, sid, tok)"
proof -
  let ?d = "dec_digits (unat port)"
  let ?body = "?d @ [32] @ enc hash @ [32] @ enc sid @ [32] @ enc tok"
  have hx: "list_all graph_byte (enc b)" "dec (enc b) = Some b" "length (enc b) = 2 * length b" for b
    using assms(1) by (auto simp: hex_laws_def list_all_iff intro: hex_digit_graph)
  have ne: "enc hash \<noteq> []" "enc sid \<noteq> []" "enc tok \<noteq> []"
    using hx(3) assms(2-4) by (metis length_0_conv mult_eq_0_iff zero_neq_numeral)+
  have dg: "list_all graph_byte ?d"
    using dec_digits_digits by (auto simp: list_all_iff intro: is_digit_graph)
  have ends: "graph_byte (hd ?d)" "graph_byte (last (enc tok))"
    using dg hx(1) [of tok] ne by (auto simp: list_all_iff hd_in_set last_in_set)
  have asc: "list_all (\<lambda>b. b < 0x80) ?body"
    using dg hx(1) [of hash] hx(1) [of sid] hx(1) [of tok] graph_byte_ascii(1)
    by (auto simp: list_all_iff)
  have t2: "str_trim (lit '' '' @ ?body) = ?body"
    using trim_graph [of ?body "[32]" "[]"] asc ends ne
    by (simp add: lit_space blank_byte_def)
  have line: "format_connect_line enc port hash sid tok = CONNECT_PREFIX @ lit '' '' @ ?body"
    by (simp add: format_connect_line_def lit_space)
  have pa: "list_all (\<lambda>b. b < 0x80) (CONNECT_PREFIX @ lit '' '')" "graph_byte (hd CONNECT_PREFIX)"
    "CONNECT_PREFIX \<noteq> []" "length CONNECT_PREFIX = 13"
    by (simp_all add: CONNECT_PREFIX_def lit_def of_char_def graph_byte_def)
  have t1: "str_trim (pre @ format_connect_line enc port hash sid tok @ post) = CONNECT_PREFIX @ lit '' '' @ ?body"
    unfolding line
    by (rule trim_graph) (use pa asc ends ne assms(5,6) in \<open>auto simp: hd_append\<close>)
  have "utf8_chars ?body = map (\<lambda>b. [b]) ?body" using asc by (rule utf8_ascii(2))
  then have sp: "split_whitespace ?body = [?d, enc hash, enc sid, enc tok]"
    using words_of_sep(1) [OF dg] words_of_sep(1) [OF hx(1) ne(1)] words_of_sep(1) [OF hx(1) ne(2)]
      words_of_sep(2) [OF hx(1) ne(3)]
    by (simp add: split_whitespace_def)
  have "parse_uint 65536 ?d = Some (unat port)"
    by (rule parse_uint_dec_digits) (rule unat_word_bounds(2))
  then show ?thesis
    using assms(2-4) hx(2) t2 sp
    by (simp add: parse_connect_line_def t1 strip_prefix_def next_word_def hex_32_def hex_16_def hex_n_def)
qed

text \<open>A concrete hexadecimal codec.\<close>

definition hex_enc_ex :: "bytes \<Rightarrow> rstr" where
  "hex_enc_ex bs = concat (map (\<lambda>b. let d = (\<lambda>n. if n < 10 then of_nat (48 + n) else of_nat (87 + n)) in
     [d (unat b div 16), d (unat b mod 16)]) bs)"

definition hex_nib_ex :: "byte \<Rightarrow> nat" where
  "hex_nib_ex b = (if b < 58 then unat b - 48 else unat b - 87)"

fun hex_dec_ex :: "rstr \<Rightarrow> bytes option" where
  "hex_dec_ex [] = Some []"
| "hex_dec_ex [_] = None"
| "hex_dec_ex (a # b # r) = (if \<not> hex_digit a \<or> \<not> hex_digit b then None
     else map_option (Cons (of_nat (16 * hex_nib_ex a + hex_nib_ex b))) (hex_dec_ex r))"

lemma hex_nib_ex_digit:
  assumes "n < 16"
  shows "let d = (if n < 10 then of_nat (48 + n) else of_nat (87 + n)) in hex_digit d \<and> hex_nib_ex d = n"
proof (cases "n < 10")
  case True
  then have "unat (of_nat (48 + n) :: byte) = 48 + n" by (intro unat_of_nat_small) simp
  with True show ?thesis
    by (simp add: hex_digit_def hex_nib_ex_def word_le_nat_alt word_less_nat_alt del: of_nat_add)
next
  case False
  then have "unat (of_nat (87 + n) :: byte) = 87 + n" using assms by (intro unat_of_nat_small) simp
  with False assms show ?thesis
    by (simp add: hex_digit_def hex_nib_ex_def word_le_nat_alt word_less_nat_alt del: of_nat_add)
qed

lemma hex_ex_laws: "hex_laws hex_enc_ex hex_dec_ex"
proof -
  have "hex_dec_ex (hex_enc_ex bs) = Some bs \<and> length (hex_enc_ex bs) = 2 * length bs \<and>
      list_all hex_digit (hex_enc_ex bs)" for bs
  proof (induction bs)
    case Nil
    then show ?case by (simp add: hex_enc_ex_def)
  next
    case (Cons b bs)
    have lt: "unat b div 16 < 16" "unat b mod 16 < 16"
      using unat_word_bounds(1) [of b] by auto
    have "of_nat (16 * (unat b div 16) + unat b mod 16) = b" by simp
    with Cons hex_nib_ex_digit [OF lt(1)] hex_nib_ex_digit [OF lt(2)] show ?case
      by (simp add: hex_enc_ex_def Let_def del: of_nat_add of_nat_mult)
  qed
  then show ?thesis by (simp add: hex_laws_def)
qed

theorem connect_line_roundtrip_witness:
  "parse_connect_line hex_dec_ex ([32] @ format_connect_line hex_enc_ex 443 (replicate 32 171) (replicate 16 5)
     (replicate 32 0) @ [13, 10]) = Inr (443, replicate 32 171, replicate 16 5, replicate 32 0)"
  by (rule connect_line_roundtrip [OF hex_ex_laws]) (simp_all add: blank_byte_def is_ws_def)

end
