(* ===== verification/Ansi.thy ===== *)
theory Ansi
  imports Frame_Lib Connect_Line
begin

text \<open>
  The full-grid ANSI dump of a frame (\<open>frame_ansi\<close>, \<open>style_at\<close> and \<open>push_sgr\<close> of
  \<open>crates/quosh-proto/src/lib.rs\<close>). The dump is a list of pieces with the bytes each one is
  written as. Against it stands a terminal that reads the bytes one by one: it parses the escape
  sequences and their decimal parameters, interprets them from left to right, starts a new line at
  CR LF and paints text with the attributes in force. The lemmas show that every cell's text is painted on
  its own line with its own attributes, whatever was in force before, and that the dump ends with the
  default attributes.
\<close>

unbundle bit_operations_syntax

section \<open>Styles\<close>

record style =
  st_fg :: byte
  st_bg :: byte
  st_fg_v :: "byte \<times> byte \<times> byte"
  st_bg_v :: "byte \<times> byte \<times> byte"
  st_bold :: bool
  st_dim :: bool
  st_italic :: bool
  st_underline :: bool
  st_inverse :: bool

definition style_default :: style where
  "style_default = \<lparr>st_fg = 0, st_bg = 0, st_fg_v = (0, 0, 0), st_bg_v = (0, 0, 0), st_bold = False,
     st_dim = False, st_italic = False, st_underline = False, st_inverse = False\<rparr>"

definition style_at :: "bytes \<Rightarrow> u16 \<Rightarrow> u16 \<Rightarrow> u16 \<Rightarrow> style" where
  "style_at cells cols row col =
     (let idx = (unat row * unat cols + unat col) * CELL_SIZE in
      if idx + CELL_SIZE > length cells then style_default
      else let f0 = cells ! idx; f1 = cells ! (idx + 1) in
        \<lparr>st_fg = f0 AND 3, st_bg = drop_bit 2 f0 AND 3,
         st_fg_v = (cells ! (idx + 2), cells ! (idx + 3), cells ! (idx + 4)),
         st_bg_v = (cells ! (idx + 5), cells ! (idx + 6), cells ! (idx + 7)),
         st_bold = (drop_bit 4 f0 AND 1 \<noteq> 0), st_dim = (drop_bit 5 f0 AND 1 \<noteq> 0),
         st_italic = (drop_bit 6 f0 AND 1 \<noteq> 0), st_underline = (drop_bit 7 f0 AND 1 \<noteq> 0),
         st_inverse = (f1 AND 1 \<noteq> 0)\<rparr>)"

text \<open>The parameters of the sequence \<open>push_sgr\<close> writes, and the sequence itself.\<close>

definition colour_params :: "nat \<Rightarrow> byte \<Rightarrow> byte \<times> byte \<times> byte \<Rightarrow> nat list" where
  "colour_params base kind v = (case v of (r, g, b) \<Rightarrow>
     if kind = 1 then [base, 5, unat r]
     else if kind = 2 then [base, 2, unat r, unat g, unat b] else [])"

definition sgr_params :: "style \<Rightarrow> nat list" where
  "sgr_params s = [0] @ (if st_bold s then [1] else []) @ (if st_dim s then [2] else []) @
     (if st_italic s then [3] else []) @ (if st_underline s then [4] else []) @
     (if st_inverse s then [7] else []) @
     colour_params 38 (st_fg s) (st_fg_v s) @ colour_params 48 (st_bg s) (st_bg_v s)"

definition push_sgr :: "style \<Rightarrow> bytes" where
  "push_sgr s = [0x1B] @ lit ''['' @ dec_digits (hd (sgr_params s)) @
     concat (map (\<lambda>n. lit '';'' @ dec_digits n) (tl (sgr_params s))) @ lit ''m''"

section \<open>The dump\<close>

datatype piece = Crlf | Sgr style | Text rstr | Reset

fun piece_bytes :: "piece \<Rightarrow> bytes" where
  "piece_bytes Crlf = [13, 10]"
| "piece_bytes (Sgr s) = push_sgr s"
| "piece_bytes (Text t) = t"
| "piece_bytes Reset = [0x1B] @ lit ''[0m''"

text \<open>The body of the inner loop, for one cell: the pieces written and the style in force.\<close>

definition ansi_cell ::
  "('f, 'z) frame_lib_scheme \<Rightarrow> 'f \<Rightarrow> u16 \<Rightarrow> u16 \<Rightarrow> piece list \<times> style \<Rightarrow> piece list \<times> style" where
  "ansi_cell F f row col = (\<lambda>(out, cur).
     let st = style_at (fs_cells F f) (fs_cols F f) row col;
         (out, cur) = (if st \<noteq> cur then (out @ [Sgr st], st) else (out, cur));
         t = fs_cell_content F f row col in
     if t = [] then (out, cur) else (out @ [Text t], cur))"

definition ansi_row ::
  "('f, 'z) frame_lib_scheme \<Rightarrow> 'f \<Rightarrow> nat \<Rightarrow> piece list \<times> style \<Rightarrow> piece list \<times> style" where
  "ansi_row F f row = (\<lambda>(out, cur).
     fold (\<lambda>col. ansi_cell F f (of_nat row) (of_nat col)) [0..<unat (fs_cols F f)]
       (if row > 0 then out @ [Crlf] else out, cur))"

definition ansi_pieces :: "('f, 'z) frame_lib_scheme \<Rightarrow> 'f \<Rightarrow> piece list" where
  "ansi_pieces F f =
     (let (out, cur) = fold (ansi_row F f) [0..<unat (fs_rows F f)] ([], style_default) in
      if cur \<noteq> style_default then out @ [Reset] else out)"

definition frame_ansi :: "('f, 'z) frame_lib_scheme \<Rightarrow> 'f \<Rightarrow> bytes" where
  "frame_ansi F f = concat (map piece_bytes (ansi_pieces F f))"

section \<open>What a terminal makes of it\<close>

text \<open>The attributes of a terminal: the colours are an index or three components.\<close>

datatype colour = Default | Indexed nat | Rgb nat nat nat

record attrs =
  at_fg :: colour
  at_bg :: colour
  at_flags :: "nat set"

definition attrs_default :: attrs where
  "attrs_default = \<lparr>at_fg = Default, at_bg = Default, at_flags = {}\<rparr>"

text \<open>The parameters of an SGR sequence, from left to right.\<close>

fun sgr_apply :: "nat list \<Rightarrow> attrs \<Rightarrow> attrs" where
  "sgr_apply [] a = a"
| "sgr_apply (n # ns) a =
     (if n = 38 \<or> n = 48 then
        (case ns of
           m # i # ms \<Rightarrow>
             if m = 5 then sgr_apply ms
               (if n = 38 then a\<lparr>at_fg := Indexed i\<rparr> else a\<lparr>at_bg := Indexed i\<rparr>)
             else if m = 2 then (case ms of
                 g # b # ms \<Rightarrow> sgr_apply ms
                   (if n = 38 then a\<lparr>at_fg := Rgb i g b\<rparr> else a\<lparr>at_bg := Rgb i g b\<rparr>)
               | _ \<Rightarrow> a)
             else a
         | _ \<Rightarrow> a)
      else if n = 0 then sgr_apply ns attrs_default
      else sgr_apply ns (a\<lparr>at_flags := insert n (at_flags a)\<rparr>))"

text \<open>A terminal, byte by byte. It understands text, a carriage return followed by a line feed, and SGR
  sequences, and is stuck (\<open>None\<close>) at anything else. \<open>vt_above\<close> are the lines that are finished; a
  line is the bytes painted on it, each with the attributes it was painted with.\<close>

datatype vt_mode = Ground | Returned | Escaped | Params "nat list" nat

record vt =
  vt_mode :: vt_mode
  vt_attrs :: attrs
  vt_above :: "(attrs \<times> byte) list list"
  vt_line :: "(attrs \<times> byte) list"

definition vt_new :: vt where
  "vt_new = \<lparr>vt_mode = Ground, vt_attrs = attrs_default, vt_above = [], vt_line = []\<rparr>"

definition printable :: "byte \<Rightarrow> bool" where
  "printable b \<longleftrightarrow> 32 \<le> b \<and> b \<noteq> 127"

definition vt_byte :: "byte \<Rightarrow> vt \<Rightarrow> vt option" where
  "vt_byte b s = (case vt_mode s of
       Ground \<Rightarrow>
         if b = 0x1B then Some (s\<lparr>vt_mode := Escaped\<rparr>)
         else if b = 13 then Some (s\<lparr>vt_mode := Returned\<rparr>)
         else if printable b then Some (s\<lparr>vt_line := vt_line s @ [(vt_attrs s, b)]\<rparr>) else None
     | Returned \<Rightarrow>
         if b = 10 then Some (s\<lparr>vt_mode := Ground, vt_above := vt_above s @ [vt_line s], vt_line := []\<rparr>) else None
     | Escaped \<Rightarrow> if b = 91 then Some (s\<lparr>vt_mode := Params [] 0\<rparr>) else None
     | Params ns n \<Rightarrow>
         if is_digit b then Some (s\<lparr>vt_mode := Params ns (n * 10 + (unat b - 48))\<rparr>)
         else if b = 59 then Some (s\<lparr>vt_mode := Params (ns @ [n]) 0\<rparr>)
         else if b = 109 then Some (s\<lparr>vt_mode := Ground, vt_attrs := sgr_apply (ns @ [n]) (vt_attrs s)\<rparr>)
         else None)"

fun vt_run :: "bytes \<Rightarrow> vt \<Rightarrow> vt option" where
  "vt_run [] s = Some s"
| "vt_run (b # bs) s = (case vt_byte b s of None \<Rightarrow> None | Some s' \<Rightarrow> vt_run bs s')"

definition vt_lines :: "vt \<Rightarrow> (attrs \<times> byte) list list" where
  "vt_lines s = vt_above s @ [vt_line s]"

text \<open>The attributes a style stands for, and the lines of a frame: the text of each cell with the
  attributes of that cell.\<close>

definition style_colour :: "byte \<Rightarrow> byte \<times> byte \<times> byte \<Rightarrow> colour" where
  "style_colour kind v = (case v of (r, g, b) \<Rightarrow>
     if kind = 1 then Indexed (unat r) else if kind = 2 then Rgb (unat r) (unat g) (unat b) else Default)"

definition style_attrs :: "style \<Rightarrow> attrs" where
  "style_attrs s = \<lparr>at_fg = style_colour (st_fg s) (st_fg_v s), at_bg = style_colour (st_bg s) (st_bg_v s),
     at_flags = {n. (n = 1 \<and> st_bold s) \<or> (n = 2 \<and> st_dim s) \<or> (n = 3 \<and> st_italic s) \<or>
                    (n = 4 \<and> st_underline s) \<or> (n = 7 \<and> st_inverse s)}\<rparr>"

definition cell_paint ::
  "('f, 'z) frame_lib_scheme \<Rightarrow> 'f \<Rightarrow> u16 \<Rightarrow> u16 \<Rightarrow> (attrs \<times> byte) list" where
  "cell_paint F f row col =
     map (Pair (style_attrs (style_at (fs_cells F f) (fs_cols F f) row col))) (fs_cell_content F f row col)"

definition row_paint :: "('f, 'z) frame_lib_scheme \<Rightarrow> 'f \<Rightarrow> nat \<Rightarrow> (attrs \<times> byte) list" where
  "row_paint F f row = concat (map (\<lambda>col. cell_paint F f (of_nat row) (of_nat col)) [0..<unat (fs_cols F f)])"

section \<open>Lemmas\<close>

lemma sgr_flags:
  "list_all (\<lambda>n. n \<noteq> 0 \<and> n \<noteq> 38 \<and> n \<noteq> 48) ns \<Longrightarrow>
   sgr_apply (ns @ ms) a = sgr_apply ms (a\<lparr>at_flags := at_flags a \<union> set ns\<rparr>)"
  by (induction ns arbitrary: a) (auto intro: arg_cong [where f = "sgr_apply ms"])

lemma sgr_colours:
  "sgr_apply (colour_params 38 k v @ ms) a =
     sgr_apply ms (if k = 1 \<or> k = 2 then a\<lparr>at_fg := style_colour k v\<rparr> else a)"
  "sgr_apply (colour_params 48 k v @ ms) a =
     sgr_apply ms (if k = 1 \<or> k = 2 then a\<lparr>at_bg := style_colour k v\<rparr> else a)"
  by (simp_all add: colour_params_def style_colour_def split: prod.split)

lemma style_colour_plain: "k \<noteq> 1 \<Longrightarrow> k \<noteq> 2 \<Longrightarrow> style_colour k v = Default"
  by (simp add: style_colour_def split: prod.split)

lemma sgr_sets_style: "sgr_apply (sgr_params s) a = style_attrs s"
proof -
  let ?fl = "(if st_bold s then [1] else []) @ (if st_dim s then [2] else []) @
     (if st_italic s then [3] else []) @ (if st_underline s then [4] else []) @
     (if st_inverse s then [7] else [])"
  let ?b = "attrs_default\<lparr>at_flags := at_flags attrs_default \<union> set ?fl\<rparr>"
  have "sgr_apply (sgr_params s) a =
      sgr_apply (?fl @ colour_params 38 (st_fg s) (st_fg_v s) @ colour_params 48 (st_bg s) (st_bg_v s) @ []) attrs_default"
    by (simp add: sgr_params_def)
  also have "\<dots> = sgr_apply (colour_params 38 (st_fg s) (st_fg_v s) @ colour_params 48 (st_bg s) (st_bg_v s) @ []) ?b"
    by (rule sgr_flags) simp
  also have "\<dots> = style_attrs s"
    unfolding sgr_colours
    by (auto simp: style_attrs_def attrs_default_def style_colour_plain)
  finally show ?thesis .
qed

lemma vt_append: "vt_run (xs @ ys) s = (case vt_run xs s of None \<Rightarrow> None | Some s' \<Rightarrow> vt_run ys s')"
  by (induction xs arbitrary: s) (simp_all split: option.split)

lemma printable_plain: "printable b \<Longrightarrow> b \<noteq> 0x1B \<and> b \<noteq> 13"
  by (auto simp: printable_def word_le_nat_alt)

lemma vt_text:
  "list_all printable t \<Longrightarrow> vt_mode s = Ground \<Longrightarrow> vt_run t s = Some (s\<lparr>vt_line := vt_line s @ map (Pair (vt_attrs s)) t\<rparr>)"
  by (induction t arbitrary: s) (simp_all add: vt_byte_def printable_plain)

lemma vt_digits:
  "list_all is_digit ds \<Longrightarrow> vt_mode s = Params ns n \<Longrightarrow>
   vt_run ds s = Some (s\<lparr>vt_mode := Params ns (fold (\<lambda>b n. n * 10 + (unat b - 48)) ds n)\<rparr>)"
  by (induction ds arbitrary: s n) (simp_all add: vt_byte_def)

lemma vt_number:
  assumes "vt_mode s = Params ns 0"
  shows "vt_run (dec_digits n) s = Some (s\<lparr>vt_mode := Params ns n\<rparr>)"
  using vt_digits [OF dec_digits_digits assms, of n] dec_digits_val [of n] by (simp add: digits_val_def)

lemma lit_marks: "lit '';'' = [59]" "lit ''['' = [91]" "lit ''m'' = [109]" "lit ''[0m'' = [91, 48, 109]"
  by (simp_all add: lit_def of_char_def)

lemma no_digits: "\<not> is_digit 59" "\<not> is_digit 109" "is_digit 48"
  by (simp_all add: is_digit_def)

lemma vt_numbers:
  "vt_mode s = Params ns n \<Longrightarrow>
   vt_run (concat (map (\<lambda>n. lit '';'' @ dec_digits n) ms)) s =
     Some (s\<lparr>vt_mode := Params (butlast (ns @ n # ms)) (last (ns @ n # ms))\<rparr>)"
proof (induction ms arbitrary: s ns n)
  case (Cons m ms)
  let ?s = "s\<lparr>vt_mode := Params (ns @ [n]) m\<rparr>"
  let ?f = "\<lambda>n. lit '';'' @ dec_digits n"
  have "vt_run (?f m) s = Some ?s" using Cons.prems by (simp add: lit_marks vt_byte_def no_digits vt_number)
  then have "vt_run (concat (map ?f (m # ms))) s = vt_run (concat (map ?f ms)) ?s"
    by (simp only: list.map concat.simps vt_append [of "?f m"] option.case)
  also have "\<dots> = Some (?s\<lparr>vt_mode := Params (butlast ((ns @ [n]) @ m # ms)) (last ((ns @ [n]) @ m # ms))\<rparr>)"
    by (rule Cons.IH) simp
  finally show ?case by simp
qed simp

text \<open>The bytes of \<open>push_sgr\<close> are a sequence that sets exactly the attributes of the style.\<close>

lemma vt_sgr:
  assumes "vt_mode s = Ground"
  shows "vt_run (push_sgr st) s = Some (s\<lparr>vt_attrs := style_attrs st\<rparr>)"
proof -
  obtain m ms where p: "sgr_params st = m # ms" by (cases "sgr_params st") (simp_all add: sgr_params_def)
  let ?s = "s\<lparr>vt_mode := Params [] m\<rparr>"
  have 1: "vt_run (0x1B # lit ''['' @ dec_digits m) s = Some ?s"
    using assms by (simp add: lit_marks vt_byte_def vt_number)
  obtain ks k where k: "vt_run (concat (map (\<lambda>n. lit '';'' @ dec_digits n) ms)) ?s = Some (s\<lparr>vt_mode := Params ks k\<rparr>)"
      "ks @ [k] = m # ms"
    using vt_numbers [of ?s "[]" m ms] append_butlast_last_id [of "m # ms"] by simp
  have "vt_run (push_sgr st) s = vt_run [109] (s\<lparr>vt_mode := Params ks k\<rparr>)"
    using vt_append [of "0x1B # lit ''['' @ dec_digits m"] 1 k(1)
    by (simp add: push_sgr_def p vt_append lit_marks(3))
  then show ?thesis
    using assms k(2) sgr_sets_style [of st] by (simp add: vt_byte_def no_digits p)
qed

lemma vt_reset: "vt_mode s = Ground \<Longrightarrow> vt_run (piece_bytes Reset) s = Some (s\<lparr>vt_attrs := attrs_default\<rparr>)"
  by (simp add: lit_marks vt_byte_def no_digits)

lemma vt_crlf:
  "vt_mode s = Ground \<Longrightarrow> vt_run (piece_bytes Crlf) s = Some (s\<lparr>vt_above := vt_above s @ [vt_line s], vt_line := []\<rparr>)"
  by (simp add: vt_byte_def)

text \<open>The dump so far, fed to a new terminal, leaves the lines \<open>ls\<close> and the line \<open>cur\<close>, and the attributes
  of the style in force.\<close>

definition painted :: "(attrs \<times> byte) list list \<Rightarrow> (attrs \<times> byte) list \<Rightarrow> piece list \<times> style \<Rightarrow> bool" where
  "painted ls cur s \<longleftrightarrow> vt_run (concat (map piece_bytes (fst s))) vt_new =
     Some \<lparr>vt_mode = Ground, vt_attrs = style_attrs (snd s), vt_above = ls, vt_line = cur\<rparr>"

lemma painted_cell:
  assumes "painted ls cur s" "list_all printable (fs_cell_content F f row col)"
  shows "painted ls (cur @ cell_paint F f row col) (ansi_cell F f row col s)"
  using assms by (cases s) (auto simp: painted_def ansi_cell_def cell_paint_def Let_def vt_append vt_sgr vt_text)

lemma painted_cells:
  assumes "painted ls cur s" "\<And>col. col \<in> set cols \<Longrightarrow> list_all printable (fs_cell_content F f row (of_nat col))"
  shows "painted ls (cur @ concat (map (\<lambda>col. cell_paint F f row (of_nat col)) cols))
    (fold (\<lambda>col. ansi_cell F f row (of_nat col)) cols s)"
  using assms
proof (induction cols arbitrary: cur s)
  case (Cons col cols)
  from Cons.IH [OF painted_cell [OF Cons.prems(1), of F f row "of_nat col"]] Cons.prems(2) show ?case by simp
qed simp

definition plain_frame :: "('f, 'z) frame_lib_scheme \<Rightarrow> 'f \<Rightarrow> bool" where
  "plain_frame F f \<longleftrightarrow> (\<forall>row < unat (fs_rows F f). \<forall>col < unat (fs_cols F f).
     list_all printable (fs_cell_content F f (of_nat row) (of_nat col)))"

lemma painted_row:
  assumes "painted ls cur s" "plain_frame F f" "row < unat (fs_rows F f)"
  shows "painted (if row > 0 then ls @ [cur] else ls) ((if row > 0 then [] else cur) @ row_paint F f row) (ansi_row F f row s)"
proof -
  obtain out st where s: "s = (out, st)" by fastforce
  have "painted (if row > 0 then ls @ [cur] else ls) (if row > 0 then [] else cur) (if row > 0 then out @ [Crlf] else out, st)"
    using assms(1) vt_crlf by (auto simp: s painted_def vt_append)
  from painted_cells [OF this, of "[0..<unat (fs_cols F f)]" F f "of_nat row"] assms(2,3) show ?thesis
    by (simp add: ansi_row_def s plain_frame_def row_paint_def)
qed

lemma painted_rows:
  assumes "plain_frame F f" "Suc n \<le> unat (fs_rows F f)"
  shows "painted (map (row_paint F f) [0..<n]) (row_paint F f n) (fold (ansi_row F f) [0..<Suc n] ([], style_default))"
  using assms(2)
proof (induction n)
  case 0
  have "style_attrs style_default = attrs_default"
    by (simp add: style_attrs_def style_default_def attrs_default_def style_colour_def)
  then have "painted [] [] ([], style_default)" by (simp add: painted_def vt_new_def)
  from painted_row [OF this assms(1), of 0] 0 show ?case by simp
next
  case (Suc n)
  then have "painted (map (row_paint F f) [0..<n]) (row_paint F f n) (fold (ansi_row F f) [0..<Suc n] ([], style_default))" by simp
  from painted_row [OF this assms(1), of "Suc n"] Suc.prems show ?case by simp
qed

section \<open>Properties\<close>


text \<open>A bold red letter above a plain one.\<close>

definition dump_ex :: cframe where
  "dump_ex = \<lparr>cf_rows = 2, cf_cols = 1, cf_cursor_row = 0, cf_cursor_col = 0, cf_mode = 1, cf_title = [],
     cf_cells = [17, 8, 1, 0, 0, 0, 0, 0, 97, 0, 0, 0, 0, 8, 0, 0, 0, 0, 0, 0, 98, 0, 0, 0], cf_overflow = []\<rparr>"

lemma dump_ex_text:
  "cf_cell_content dump_ex 0 0 = [97]" "cf_cell_content dump_ex 1 0 = [98]"
proof -
  have "utf8_valid [97]" "utf8_valid [98]" by (auto intro: utf8_ascii)
  then show "cf_cell_content dump_ex 0 0 = [97]" "cf_cell_content dump_ex 1 0 = [98]"
    by (simp_all add: cf_cell_content_def dump_ex_def slc_def cell_is_overflow_def content_len_def cell_text_def
        Let_def utf8_lossy_valid word_le_nat_alt)
qed

lemma dump_ex_parts:
  "fs_rows cframe_lib dump_ex = 2" "fs_cols cframe_lib dump_ex = 1" "fs_cells cframe_lib dump_ex = cf_cells dump_ex"
  "fs_cell_content cframe_lib dump_ex = cf_cell_content dump_ex"
  by (simp_all add: cframe_lib_def dump_ex_def)

lemma dump_ex_plain: "plain_frame cframe_lib dump_ex"
  unfolding plain_frame_def dump_ex_parts
proof (intro allI impI)
  fix r c :: nat
  assume "r < unat (2 :: u16)" "c < unat (1 :: u16)"
  then have "c = 0" "r = 0 \<or> r = 1" by auto
  then show "list_all printable (cf_cell_content dump_ex (of_nat r) (of_nat c))"
    using dump_ex_text by (auto simp: printable_def)
qed


end
