(* ===== verification/Messages.thy ===== *)
theory Messages
  imports Framing Utf8
begin

text \<open>
  The fixed layout messages of the control stream (\<open>crates/quosh-proto/src/lib.rs\<close>): hello,
  hello-ok, input, resize, acknowledgements, exit, error, ping, pong and hangup, and the
  bounds on terminal dimensions. The locale \<open>wire_codec\<close> is the contract between a message
  type and the framed stream: an encoder that produces one frame of its type and a decoder
  that reads the payload back. Its lemmas (a message survives the stream, the encoding is
  injective, a list of messages comes out of the stream in order) are proved once and
  interpreted for every message.
\<close>

section \<open>The contract of a message\<close>

locale wire_codec =
  fixes mty :: byte
    and enc :: "'a \<Rightarrow> proto_error + bytes"
    and dec :: "bytes \<Rightarrow> proto_error + 'a"
    and valid :: "'a \<Rightarrow> bool"
  assumes enc_dec:
    "valid x \<Longrightarrow> \<exists>p. enc x = Inr (encode_frame mty p) \<and> length p < MAX_FRAME \<and> dec p = Inr x"
begin

lemma over_stream:
  assumes "valid x"
  shows "\<exists>w p. enc x = Inr w \<and> split_frame (w @ rest) = Inr (Some (mty, p), rest) \<and> dec p = Inr x"
proof -
  from enc_dec [OF assms] obtain p where
    p: "enc x = Inr (encode_frame mty p)" "length p < MAX_FRAME" "dec p = Inr x" by blast
  then have "split_frame (encode_frame mty p @ rest) = Inr (Some (mty, p), rest)"
    by (intro split_frame_encode) simp
  with p show ?thesis by blast
qed

lemma enc_inj:
  assumes "valid x" "valid y" "enc x = enc y"
  shows "x = y"
proof -
  from over_stream [OF assms(1), of "[]"] obtain w p where
    x: "enc x = Inr w" "split_frame w = Inr (Some (mty, p), [])" "dec p = Inr x" by auto
  from over_stream [OF assms(2), of "[]"] obtain w' p' where
    y: "enc y = Inr w'" "split_frame w' = Inr (Some (mty, p'), [])" "dec p' = Inr y" by auto
  from x y assms(3) show ?thesis by simp
qed

lemma list_over_stream:
  assumes "list_all valid xs"
  shows "\<exists>ws ps. map enc xs = map Inr ws \<and> split_all (concat ws) = (map (Pair mty) ps, [], None)
           \<and> map dec ps = map Inr xs"
  using assms
proof (induction xs)
  case (Cons x xs)
  then obtain ws ps where
    IH: "map enc xs = map Inr ws" "split_all (concat ws) = (map (Pair mty) ps, [], None)"
      "map dec ps = map Inr xs" by auto
  from over_stream [of x "concat ws"] Cons.prems obtain w p where
    w: "enc x = Inr w" "split_frame (w @ concat ws) = Inr (Some (mty, p), concat ws)"
      "dec p = Inr x" by auto
  from IH w show ?case
    by (intro exI [of _ "w # ws"] exI [of _ "p # ps"]) (simp add: split_all_frame)
qed (auto intro: exI [of _ "[]"])

end

text \<open>The bytes \<open>w\<close>, whatever follows them on the stream, are read back as the message \<open>x\<close>.\<close>

definition survives :: "byte \<Rightarrow> (bytes \<Rightarrow> proto_error + 'a) \<Rightarrow> 'a \<Rightarrow> bytes \<Rightarrow> bool" where
  "survives mty dec x w \<longleftrightarrow>
     (\<forall>rest. \<exists>p. split_frame (w @ rest) = Inr (Some (mty, p), rest) \<and> dec p = Inr x)"

context wire_codec
begin

lemma enc_survives:
  "valid x \<Longrightarrow> enc x = Inr w \<Longrightarrow> survives mty dec x w"
  using over_stream by (fastforce simp: survives_def)

end

text \<open>A codec is given by the payload its encoder frames.\<close>

lemma wire_codecI:
  assumes "\<And>x. valid x \<Longrightarrow> enc x = Inr (encode_frame mty (pl x))"
    and "\<And>x. valid x \<Longrightarrow> length (pl x) < MAX_FRAME"
    and "\<And>x. valid x \<Longrightarrow> dec (pl x) = Inr x"
  shows "wire_codec mty enc dec valid"
  using assms by unfold_locales blast

text \<open>
  Most decoders also insist on the exact length: trailing bytes are a frame error.
\<close>

locale strict_codec = wire_codec +
  assumes dec_strict:
    "valid x \<Longrightarrow> enc x = Inr (encode_frame mty p) \<Longrightarrow> e \<noteq> [] \<Longrightarrow> dec (p @ e) = Inl Frame"
begin

lemma prefix_free:
  assumes "valid x" "valid y" "enc x = Inr (encode_frame mty p)"
    "enc y = Inr (encode_frame mty (p @ e))"
  shows "e = [] \<and> x = y"
proof -
  from enc_dec [OF assms(2)] assms(4) obtain q where
    "encode_frame mty q = encode_frame mty (p @ e)" "dec q = Inr y" by auto
  then have "dec (p @ e) = Inr y"
    by (auto simp: encode_frame_def Let_def dest!: append_eq_append_conv [THEN iffD1, rotated])
  then have "e = []" using dec_strict [OF assms(1,3), of e] by fastforce
  with enc_inj [OF assms(1,2)] assms(3,4) show ?thesis by simp
qed

end

lemma encode_frame_payload: "encode_frame t p = encode_frame t q \<longleftrightarrow> p = q"
  by (auto simp: encode_frame_def Let_def dest: append_eq_append_conv [THEN iffD1, rotated])

lemma strict_codecI:
  assumes "\<And>x. valid x \<Longrightarrow> enc x = Inr (encode_frame mty (pl x))"
    and "\<And>x. valid x \<Longrightarrow> length (pl x) < MAX_FRAME"
    and "\<And>x. valid x \<Longrightarrow> dec (pl x) = Inr x"
    and "\<And>x e. valid x \<Longrightarrow> e \<noteq> [] \<Longrightarrow> dec (pl x @ e) = Inl Frame"
  shows "strict_codec mty enc dec valid"
proof -
  have w: "wire_codec mty enc dec valid" using assms(1-3) by (rule wire_codecI)
  show ?thesis
    by (rule strict_codec.intro [OF w], unfold_locales) (use assms(1,4) in \<open>auto simp: encode_frame_payload\<close>)
qed

lemma small_payload: "n < 1000000 \<Longrightarrow> n < MAX_FRAME"
  by (simp add: MAX_FRAME_def)

section \<open>Hello and HelloOk\<close>

record hello =
  h_protocol :: u16
  h_session_id :: bytes
  h_token :: bytes
  h_cols :: u16
  h_rows :: u16

definition hello_wf :: "hello \<Rightarrow> bool" where
  "hello_wf h \<longleftrightarrow> length (h_session_id h) = 16 \<and> length (h_token h) = 32"

definition hello_encode :: "hello \<Rightarrow> bytes" where
  "hello_encode h = encode_frame MSG_HELLO
     (le16 (h_protocol h) @ h_session_id h @ h_token h @ le16 (h_cols h) @ le16 (h_rows h))"

definition hello_decode :: "bytes \<Rightarrow> proto_error + hello" where
  "hello_decode p =
     (if length p \<noteq> 54 then Inl Frame
      else Inr \<lparr>h_protocol = rd16 (slc 0 2 p), h_session_id = slc 2 18 p,
                h_token = slc 18 50 p, h_cols = rd16 (slc 50 52 p), h_rows = rd16 (slc 52 54 p)\<rparr>)"

record hello_ok =
  ho_protocol :: u16
  ho_session_id :: bytes
  ho_version :: u64
  ho_cols :: u16
  ho_rows :: u16

definition hello_ok_wf :: "hello_ok \<Rightarrow> bool" where
  "hello_ok_wf h \<longleftrightarrow> length (ho_session_id h) = 16"

definition hello_ok_encode :: "hello_ok \<Rightarrow> bytes" where
  "hello_ok_encode h = encode_frame MSG_HELLO_OK
     (le16 (ho_protocol h) @ ho_session_id h @ le64 (ho_version h) @ le16 (ho_cols h) @
      le16 (ho_rows h))"

definition hello_ok_decode :: "bytes \<Rightarrow> proto_error + hello_ok" where
  "hello_ok_decode p =
     (if length p \<noteq> 30 then Inl Frame
      else Inr \<lparr>ho_protocol = rd16 (slc 0 2 p), ho_session_id = slc 2 18 p,
                ho_version = rd64 (slc 18 26 p), ho_cols = rd16 (slc 26 28 p),
                ho_rows = rd16 (slc 28 30 p)\<rparr>)"

interpretation hello_wire: strict_codec MSG_HELLO "\<lambda>h. Inr (hello_encode h)" hello_decode hello_wf
  by (rule strict_codecI [where pl = "\<lambda>h. le16 (h_protocol h) @ h_session_id h @ h_token h @
        le16 (h_cols h) @ le16 (h_rows h)"])
    (auto simp: hello_encode_def hello_decode_def hello_wf_def byte_simps intro!: small_payload)

interpretation hello_ok_wire:
  strict_codec MSG_HELLO_OK "\<lambda>h. Inr (hello_ok_encode h)" hello_ok_decode hello_ok_wf
  by (rule strict_codecI [where pl = "\<lambda>h. le16 (ho_protocol h) @ ho_session_id h @
        le64 (ho_version h) @ le16 (ho_cols h) @ le16 (ho_rows h)"])
    (auto simp: hello_ok_encode_def hello_ok_decode_def hello_ok_wf_def byte_simps
      intro!: small_payload)

section \<open>Input, resize, acknowledgements\<close>

definition encode_input :: "u64 \<Rightarrow> bytes \<Rightarrow> bytes" where
  "encode_input seq data = encode_frame MSG_INPUT (le64 seq @ data)"

definition decode_input :: "bytes \<Rightarrow> proto_error + u64 \<times> bytes" where
  "decode_input p = (if length p < 8 then Inl Truncated else Inr (rd64 (slc 0 8 p), drop 8 p))"

definition encode_resize :: "u16 \<Rightarrow> u16 \<Rightarrow> bytes" where
  "encode_resize cols rows = encode_frame MSG_RESIZE (le16 cols @ le16 rows)"

definition decode_resize :: "bytes \<Rightarrow> proto_error + u16 \<times> u16" where
  "decode_resize p =
     (if length p \<noteq> 4 then Inl Frame else Inr (rd16 (slc 0 2 p), rd16 (slc 2 4 p)))"

definition encode_hangup :: bytes where "encode_hangup = encode_frame MSG_HANGUP []"
definition encode_ping :: bytes where "encode_ping = encode_frame MSG_PING []"
definition encode_pong :: bytes where "encode_pong = encode_frame MSG_PONG []"

definition encode_ack_state :: "u64 \<Rightarrow> bytes" where
  "encode_ack_state v = encode_frame MSG_ACK_STATE (le64 v)"

definition decode_u64 :: "bytes \<Rightarrow> proto_error + u64" where
  "decode_u64 p = (if length p \<noteq> 8 then Inl Frame else Inr (rd64 p))"

definition encode_input_ack :: "u64 \<Rightarrow> bytes" where
  "encode_input_ack seq = encode_frame MSG_INPUT_ACK (le64 seq)"

interpretation input_wire: wire_codec MSG_INPUT "\<lambda>(seq, data). Inr (encode_input seq data)"
  decode_input "\<lambda>(seq, data). length data < MAX_FRAME - 8"
  by (rule wire_codecI [where pl = "\<lambda>(seq, data). le64 seq @ data"])
    (auto simp: encode_input_def decode_input_def byte_simps)

interpretation resize_wire: strict_codec MSG_RESIZE "\<lambda>(c, r). Inr (encode_resize c r)"
  decode_resize "\<lambda>_. True"
  by (rule strict_codecI [where pl = "\<lambda>(c, r). le16 c @ le16 r"])
    (auto simp: encode_resize_def decode_resize_def byte_simps intro!: small_payload)

interpretation ack_wire: strict_codec MSG_ACK_STATE "\<lambda>v. Inr (encode_ack_state v)"
  decode_u64 "\<lambda>_. True"
  by (rule strict_codecI [where pl = le64])
    (auto simp: encode_ack_state_def decode_u64_def byte_simps intro!: small_payload)

interpretation input_ack_wire: strict_codec MSG_INPUT_ACK "\<lambda>v. Inr (encode_input_ack v)"
  decode_u64 "\<lambda>_. True"
  by (rule strict_codecI [where pl = le64])
    (auto simp: encode_input_ack_def decode_u64_def byte_simps intro!: small_payload)

section \<open>Exit and error\<close>

text \<open>The exit status is an \<open>i32\<close>, kept as its 32 bits (\<open>sint\<close> reads it).\<close>

definition encode_exit :: "u32 \<Rightarrow> bytes" where
  "encode_exit status = encode_frame MSG_EXIT (le32 status)"

definition decode_exit :: "bytes \<Rightarrow> proto_error + u32" where
  "decode_exit p = (if length p \<noteq> 4 then Inl Frame else Inr (rd32 p))"

definition encode_error :: "u16 \<Rightarrow> rstr \<Rightarrow> bytes" where
  "encode_error code msg =
     encode_frame MSG_ERROR (le16 code @ le16 (of_nat (length msg)) @ msg)"

definition decode_error :: "bytes \<Rightarrow> proto_error + u16 \<times> rstr" where
  "decode_error p =
     (if length p < 4 then Inl Truncated
      else let code = rd16 (slc 0 2 p); n = unat (rd16 (slc 2 4 p)) in
        if length p < 4 + n then Inl Truncated
        else Inr (code, utf8_lossy (slc 4 (4 + n) p)))"

interpretation exit_wire: strict_codec MSG_EXIT "\<lambda>s. Inr (encode_exit s)" decode_exit "\<lambda>_. True"
  by (rule strict_codecI [where pl = le32])
    (auto simp: encode_exit_def decode_exit_def byte_simps intro!: small_payload)

lemma unat_len_u16: "n < 65536 \<Longrightarrow> unat (of_nat n :: u16) = n"
  by (simp add: unat_of_nat_small)

interpretation error_wire: wire_codec MSG_ERROR "\<lambda>(c, m). Inr (encode_error c m)"
  decode_error "\<lambda>(c, m). length m < 65536 \<and> utf8_valid m"
  by (rule wire_codecI [where pl = "\<lambda>(c, m). le16 c @ le16 (of_nat (length m)) @ m"])
    (auto simp: encode_error_def decode_error_def byte_simps Let_def unat_len_u16 utf8_lossy_valid
      intro!: small_payload)

section \<open>Terminal dimensions\<close>

text \<open>
  \<open>MAX_CELL_COUNT\<close> is a constant of the \<open>blit_remote\<close> crate and a parameter here; the two
  error strings of the code are the constructors.
\<close>

datatype dims_error = TooSmall | DimsTooLarge

definition validate_dims :: "nat \<Rightarrow> u16 \<Rightarrow> u16 \<Rightarrow> dims_error + u16 \<times> u16" where
  "validate_dims max_cells cols rows =
     (if cols < MIN_COLS \<or> rows < MIN_ROWS then Inl TooSmall
      else if cols > MAX_COLS \<or> rows > MAX_ROWS then Inl DimsTooLarge
      else if unat cols * unat rows > max_cells then Inl DimsTooLarge
      else Inr (cols, rows))"

lemma validate_dims_Inr:
  assumes "validate_dims m c r = Inr d"
  shows "d = (c, r) \<and> 2 \<le> unat c \<and> unat c \<le> 512 \<and> 2 \<le> unat r \<and> unat r \<le> 512 \<and>
         unat c * unat r \<le> m"
  using assms
  by (auto simp: validate_dims_def MIN_COLS_def MIN_ROWS_def MAX_COLS_def MAX_ROWS_def
      word_less_nat_alt not_less split: if_splits)

section \<open>Properties\<close>

text \<open>A payload decodes to a hello (hello-ok) exactly when it is the payload that message is
  encoded to: decoding is total and strict, no two payloads decode to the same message, and the
  session id and token of a decoded hello have their 16 and 32 bytes.\<close>

theorem hello_canonical:
  "(hello_decode p = Inr h \<longleftrightarrow> hello_wf h \<and> hello_encode h = encode_frame MSG_HELLO p) \<and>
   (hello_ok_decode q = Inr k \<longleftrightarrow> hello_ok_wf k \<and> hello_ok_encode k = encode_frame MSG_HELLO_OK q)"
proof (intro conjI iffI; (elim conjE)?)
  assume "hello_decode p = Inr h"
  then have l: "length p = 54" and h: "h = \<lparr>h_protocol = rd16 (slc 0 2 p), h_session_id = slc 2 18 p,
      h_token = slc 18 50 p, h_cols = rd16 (slc 50 52 p), h_rows = rd16 (slc 52 54 p)\<rparr>"
    by (auto simp: hello_decode_def split: if_splits)
  show "hello_wf h" using l h by (simp add: hello_wf_def)
  show "hello_encode h = encode_frame MSG_HELLO p"
    using l h by (simp add: hello_encode_def encode_frame_payload le_rd_words byte_simps)
next
  assume "hello_ok_decode q = Inr k"
  then have l: "length q = 30" and k: "k = \<lparr>ho_protocol = rd16 (slc 0 2 q), ho_session_id = slc 2 18 q,
      ho_version = rd64 (slc 18 26 q), ho_cols = rd16 (slc 26 28 q), ho_rows = rd16 (slc 28 30 q)\<rparr>"
    by (auto simp: hello_ok_decode_def split: if_splits)
  show "hello_ok_wf k" using l k by (simp add: hello_ok_wf_def)
  show "hello_ok_encode k = encode_frame MSG_HELLO_OK q"
    using l k by (simp add: hello_ok_encode_def encode_frame_payload le_rd_words byte_simps)
next
  assume "hello_wf h" "hello_encode h = encode_frame MSG_HELLO p"
  with hello_wire.enc_dec [of h] show "hello_decode p = Inr h" by (auto simp: encode_frame_payload)
next
  assume "hello_ok_wf k" "hello_ok_encode k = encode_frame MSG_HELLO_OK q"
  with hello_ok_wire.enc_dec [of k] show "hello_ok_decode q = Inr k" by (auto simp: encode_frame_payload)
qed

end
