(* ===== verification/Screen_Codec.thy ===== *)
theory Screen_Codec
  imports Frame_Lib Messages
begin

text \<open>
  Versioned screens (\<open>crates/quosh-proto/src/lib.rs\<close>): the raw encoding of \<open>Screen\<close>, its
  compressed form, \<open>SharedScreen\<close> and \<open>apply_newer\<close>. Frames come from the library of
  \<open>Frame_Lib\<close>, compression from a record extension of it with the laws \<open>lz_laws\<close>. A reader is
  the bytes it has not consumed; \<open>app_stable\<close> says that what a reader returns does not depend
  on the bytes after those it takes, from which strictness on both sides follows.

  The lemmas show the round trip, the bounds every decoded screen obeys, that no proper prefix
  and no extension of an encoding decodes, that the two screen encodings exclude each other,
  and, through the locale \<open>newest_wins\<close>, that screens may be lost, repeated and reordered.
\<close>

section \<open>Compression\<close>

record 'f codec_lib = "'f frame_lib" +
  lz_compress :: "bytes \<Rightarrow> bytes"
  lz_decompress :: "bytes \<Rightarrow> bytes option"

text \<open>\<open>compress_prepend_size\<close> writes the length of the input as four little-endian bytes, and
  \<open>decompress_size_prepended\<close> inverts it.\<close>

definition lz_laws :: "('f, 'z) codec_lib_scheme \<Rightarrow> bool" where
  "lz_laws F \<longleftrightarrow> (\<forall>x. length x < 4294967296 \<longrightarrow>
     lz_decompress F (lz_compress F x) = Some x \<and> 4 \<le> length (lz_compress F x) \<and>
     slc 0 4 (lz_compress F x) = le32 (of_nat (length x)))"

section \<open>Readers\<close>

text \<open>\<open>Cursor::read_exact\<close>, every failure of which the code maps to \<open>Truncated\<close>.\<close>

definition rd_exact :: "nat \<Rightarrow> bytes \<Rightarrow> proto_error + bytes \<times> bytes" where
  "rd_exact n r = (if n \<le> length r then Inr (take n r, drop n r) else Inl Truncated)"

definition read_u16 :: "bytes \<Rightarrow> proto_error + u16 \<times> bytes" where
  "read_u16 r = res_bind (rd_exact 2 r) (\<lambda>(b, r). Inr (rd16 b, r))"

definition read_u32 :: "bytes \<Rightarrow> proto_error + u32 \<times> bytes" where
  "read_u32 r = res_bind (rd_exact 4 r) (\<lambda>(b, r). Inr (rd32 b, r))"

definition read_u64 :: "bytes \<Rightarrow> proto_error + u64 \<times> bytes" where
  "read_u64 r = res_bind (rd_exact 8 r) (\<lambda>(b, r). Inr (rd64 b, r))"

lemma rd_exact_append: "length x = n \<Longrightarrow> rd_exact n (x @ r) = Inr (x, r)"
  by (simp add: rd_exact_def)

lemma read_words [simp]:
  "read_u16 (le16 a @ r) = Inr (a, r)" "read_u32 (le32 b @ r) = Inr (b, r)"
  "read_u64 (le64 c @ r) = Inr (c, r)"
  by (simp_all add: read_u16_def read_u32_def read_u64_def rd_exact_append)

definition app_stable :: "(bytes \<Rightarrow> proto_error + 'a \<times> bytes) \<Rightarrow> bool" where
  "app_stable p \<longleftrightarrow> (\<forall>bs x r e. p bs = Inr (x, r) \<longrightarrow> p (bs @ e) = Inr (x, r @ e))"

lemma app_stable_exact: "app_stable (rd_exact n)"
  by (auto simp: app_stable_def rd_exact_def split: if_splits)

lemma app_stable_return: "app_stable (\<lambda>r. Inr (x, r))"
  by (simp add: app_stable_def)

lemma app_stable_fail: "app_stable (\<lambda>r. Inl e)"
  by (simp add: app_stable_def)

lemma app_stable_bind:
  assumes "app_stable p" "\<And>x. app_stable (k x)"
  shows "app_stable (\<lambda>r. res_bind (p r) (\<lambda>(x, r). k x r))"
  unfolding app_stable_def
proof (intro allI impI)
  fix bs x r e
  assume "res_bind (p bs) (\<lambda>(x, r). k x r) = Inr (x, r)"
  then obtain y r' where "p bs = Inr (y, r')" "k y r' = Inr (x, r)"
    by (auto simp: res_bind_eq_Inr_iff)
  with assms show "res_bind (p (bs @ e)) (\<lambda>(x, r). k x r) = Inr (x, r @ e)"
    unfolding app_stable_def by fastforce
qed

lemma app_stable_if:
  "app_stable p \<Longrightarrow> app_stable q \<Longrightarrow> app_stable (\<lambda>r. if b then p r else q r)"
  by (cases b) simp_all

lemma app_stable_words: "app_stable read_u16" "app_stable read_u32" "app_stable read_u64"
  unfolding read_u16_def [abs_def] read_u32_def [abs_def] read_u64_def [abs_def]
  by (intro app_stable_bind app_stable_exact app_stable_return)+

lemmas app_stable_rules =
  app_stable_bind app_stable_exact app_stable_words app_stable_return app_stable_fail app_stable_if

section \<open>The raw encoding\<close>

record 'f screen =
  sc_version :: u64
  sc_echo_ack :: u64
  sc_frame :: 'f

definition SCREEN_MAGIC :: bytes where "SCREEN_MAGIC = [0x51, 0x53, 0x32, 0x00]"

text \<open>A \<open>u16\<close> length prefix that truncates what does not fit.\<close>

definition put_str16 :: "rstr \<Rightarrow> bytes" where
  "put_str16 s = (let n = min (length s) 65535 in le16 (of_nat n) @ take n s)"

definition put_overflow :: "(nat \<times> rstr) list \<Rightarrow> bytes" where
  "put_overflow ov = concat (map (\<lambda>(idx, s). le32 (of_nat idx) @ put_str16 s) ov)"

definition screen_encode_raw :: "('f, 'z) frame_lib_scheme \<Rightarrow> 'f screen \<Rightarrow> bytes" where
  "screen_encode_raw F s =
     (let f = sc_frame s; cells = fs_cells F f; ovf = fs_overflow F f in
      SCREEN_MAGIC @ le64 (sc_version s) @ le64 (sc_echo_ack s) @
      le16 (fs_rows F f) @ le16 (fs_cols F f) @ le16 (fs_cursor_row F f) @
      le16 (fs_cursor_col F f) @ le16 (fs_mode F f) @ put_str16 (fs_title F f) @
      le32 (of_nat (length cells)) @ cells @
      le32 (of_nat (length ovf)) @ put_overflow ovf)"

text \<open>The loop over the overflow entries: each goes into the frame's table.\<close>

fun read_overflow ::
  "('f, 'z) frame_lib_scheme \<Rightarrow> nat \<Rightarrow> nat \<Rightarrow> 'f \<Rightarrow> bytes \<Rightarrow> proto_error + 'f \<times> bytes" where
  "read_overflow F cell_n 0 f r = Inr (f, r)"
| "read_overflow F cell_n (Suc k) f r =
     res_bind (read_u32 r) (\<lambda>(idx, r).
       if unat idx \<ge> cell_n then Inl Frame
       else res_bind (read_u16 r) (\<lambda>(n, r).
         res_bind (rd_exact (unat n) r) (\<lambda>(s, r).
           read_overflow F cell_n k
             (fs_set_overflow F (btree_insert (unat idx) (utf8_lossy s) (fs_overflow F f)) f) r)))"

definition screen_parse ::
  "('f, 'z) frame_lib_scheme \<Rightarrow> bytes \<Rightarrow> proto_error + 'f screen \<times> bytes" where
  "screen_parse F data =
     res_bind (rd_exact 4 data) (\<lambda>(magic, r).
     if magic \<noteq> SCREEN_MAGIC then Inl Magic else
     res_bind (read_u64 r) (\<lambda>(version, r).
     res_bind (read_u64 r) (\<lambda>(echo_ack, r).
     res_bind (read_u16 r) (\<lambda>(rows, r).
     res_bind (read_u16 r) (\<lambda>(cols, r).
     res_bind (read_u16 r) (\<lambda>(cursor_row, r).
     res_bind (read_u16 r) (\<lambda>(cursor_col, r).
     res_bind (read_u16 r) (\<lambda>(mode, r).
     if unat rows * unat cols > fs_max_cell_count F then Inl TooLarge
     else if rows > MAX_ROWS \<or> cols > MAX_COLS then Inl TooLarge
     else if cursor_row > rows \<or> cursor_col > cols then Inl Frame else
     res_bind (read_u16 r) (\<lambda>(tlen, r).
     res_bind (rd_exact (unat tlen) r) (\<lambda>(title, r).
     res_bind (read_u32 r) (\<lambda>(clen, r).
     if unat clen \<noteq> unat rows * unat cols * CELL_SIZE then Inl Frame else
     res_bind (rd_exact (unat clen) r) (\<lambda>(cells, r).
     res_bind (read_u32 r) (\<lambda>(ovf_count, r).
     if unat ovf_count > unat rows * unat cols then Inl TooLarge else
     res_bind (read_overflow F (unat rows * unat cols) (unat ovf_count)
         (fs_from_parts F rows cols cursor_row cursor_col mode (utf8_lossy title) cells) r)
       (\<lambda>(frame, r).
     Inr (\<lparr>sc_version = version, sc_echo_ack = echo_ack, sc_frame = frame\<rparr>, r)))))))))))))))"

definition screen_decode_raw ::
  "('f, 'z) frame_lib_scheme \<Rightarrow> bytes \<Rightarrow> proto_error + 'f screen" where
  "screen_decode_raw F data = res_bind (screen_parse F data) (\<lambda>(s, r).
     if r \<noteq> [] then Inl Frame else Inr s)"

section \<open>Compressed and shared screens\<close>

definition screen_encode :: "('f, 'z) codec_lib_scheme \<Rightarrow> 'f screen \<Rightarrow> bytes" where
  "screen_encode F s = lz_compress F (screen_encode_raw F s)"

definition screen_decode :: "('f, 'z) codec_lib_scheme \<Rightarrow> bytes \<Rightarrow> proto_error + 'f screen" where
  "screen_decode F data =
     (if length data < 4 then Inl Truncated
      else if unat (rd32 (slc 0 4 data)) > MAX_SCREEN_RAW then Inl TooLarge
      else case lz_decompress F data of None \<Rightarrow> Inl Lz4
        | Some raw \<Rightarrow> if length raw > MAX_SCREEN_RAW then Inl TooLarge
            else screen_decode_raw F raw)"

record 'f shared_screen =
  ss_prediction_epoch :: u64
  ss_prediction_allowed :: bool
  ss_screen :: "'f screen"

definition SHARED_SCREEN_MAGIC :: bytes where "SHARED_SCREEN_MAGIC = [0x51, 0x50, 0x31, 0x21]"

definition shared_encode ::
  "('f, 'z) codec_lib_scheme \<Rightarrow> 'f shared_screen \<Rightarrow> proto_error + bytes" where
  "shared_encode F s =
     (let bytes = SHARED_SCREEN_MAGIC @ le64 (ss_prediction_epoch s) @
        [if ss_prediction_allowed s then 1 else 0] @ screen_encode F (ss_screen s) in
      if length bytes + 1 > MAX_FRAME then Inl TooLarge else Inr bytes)"

definition shared_decode ::
  "('f, 'z) codec_lib_scheme \<Rightarrow> bytes \<Rightarrow> proto_error + 'f shared_screen" where
  "shared_decode F bs =
     (if length bs < 13 then Inl Truncated
      else if length bs + 1 > MAX_FRAME then Inl TooLarge
      else if slc 0 4 bs \<noteq> SHARED_SCREEN_MAGIC then Inl Magic
      else if bs ! 12 \<noteq> 0 \<and> bs ! 12 \<noteq> 1 then Inl Frame
      else res_bind (screen_decode F (drop 13 bs)) (\<lambda>s.
        Inr \<lparr>ss_prediction_epoch = rd64 (slc 4 12 bs), ss_prediction_allowed = (bs ! 12 = 1),
             ss_screen = s\<rparr>))"

definition apply_newer :: "'f screen option \<Rightarrow> 'f screen \<Rightarrow> 'f screen option" where
  "apply_newer current incoming = (case current of
      None \<Rightarrow> if sc_version incoming > 0 then Some incoming else None
    | Some c \<Rightarrow> if sc_version incoming > sc_version c then Some incoming else None)"

section \<open>Determinism of the reader\<close>

lemma app_stable_overflow: "app_stable (read_overflow F cell_n k f)"
proof (induction k arbitrary: f)
  case 0
  then show ?case by (simp add: app_stable_return)
next
  case (Suc k)
  show ?case unfolding read_overflow.simps
    by (intro app_stable_rules Suc)
qed

lemma app_stable_parse: "app_stable (screen_parse F)"
  unfolding screen_parse_def [abs_def]
  by (intro app_stable_rules app_stable_overflow)

lemma screen_decode_raw_extend:
  assumes "screen_decode_raw F bs = Inr s" "e \<noteq> []"
  shows "screen_decode_raw F (bs @ e) = Inl Frame"
proof -
  from assms(1) have "screen_parse F bs = Inr (s, [])"
    by (auto simp: screen_decode_raw_def res_bind_eq_Inr_iff split: if_splits)
  then have "screen_parse F (bs @ e) = Inr (s, [] @ e)"
    using app_stable_parse [of F] unfolding app_stable_def by blast
  with assms(2) show ?thesis by (simp add: screen_decode_raw_def)
qed

lemma screen_decode_raw_prefix:
  assumes "screen_decode_raw F (bs @ e) = Inr s" "e \<noteq> []"
  shows "\<not> is_ok (screen_decode_raw F bs)"
  using screen_decode_raw_extend [OF _ assms(2), of F bs] assms(1) by (auto simp: is_ok_iff)

section \<open>The round trip\<close>

text \<open>A screen whose parts fit the encoding.\<close>

definition str16_ok :: "rstr \<Rightarrow> bool" where
  "str16_ok s \<longleftrightarrow> length s \<le> 65535 \<and> utf8_valid s"

definition screen_fits :: "('f, 'z) frame_lib_scheme \<Rightarrow> 'f screen \<Rightarrow> bool" where
  "screen_fits F s \<longleftrightarrow> (let f = sc_frame s in
     cell_count F f \<le> fs_max_cell_count F \<and> fs_rows F f \<le> MAX_ROWS \<and> fs_cols F f \<le> MAX_COLS \<and>
     fs_cursor_row F f \<le> fs_rows F f \<and> fs_cursor_col F f \<le> fs_cols F f \<and>
     length (fs_cells F f) = cell_count F f * CELL_SIZE \<and> str16_ok (fs_title F f) \<and>
     btree_ok (fs_overflow F f) \<and>
     list_all (\<lambda>(i, t). i < cell_count F f \<and> str16_ok t) (fs_overflow F f))"

definition screen_same :: "('f, 'z) frame_lib_scheme \<Rightarrow> 'f screen \<Rightarrow> 'f screen \<Rightarrow> bool" where
  "screen_same F a b \<longleftrightarrow> sc_version a = sc_version b \<and> sc_echo_ack a = sc_echo_ack b \<and>
     frame_same F (sc_frame a) (sc_frame b)"

text \<open>A screen of permitted shape, whatever the lengths of its texts. A text of more than 65535 bytes is cut there;
  if that splits a character, the reader puts a replacement character in its place.\<close>

definition screen_shaped :: "('f, 'z) frame_lib_scheme \<Rightarrow> 'f screen \<Rightarrow> bool" where
  "screen_shaped F s \<longleftrightarrow> (let f = sc_frame s in
     cell_count F f \<le> fs_max_cell_count F \<and> fs_rows F f \<le> MAX_ROWS \<and> fs_cols F f \<le> MAX_COLS \<and>
     fs_cursor_row F f \<le> fs_rows F f \<and> fs_cursor_col F f \<le> fs_cols F f \<and>
     length (fs_cells F f) = cell_count F f * CELL_SIZE \<and>
     btree_ok (fs_overflow F f) \<and> list_all (\<lambda>(i, t). i < cell_count F f) (fs_overflow F f))"

definition clip16 :: "rstr \<Rightarrow> rstr" where
  "clip16 s = utf8_lossy (take 65535 s)"

definition screen_clipped :: "('f, 'z) frame_lib_scheme \<Rightarrow> 'f screen \<Rightarrow> 'f screen \<Rightarrow> bool" where
  "screen_clipped F a b \<longleftrightarrow> sc_version a = sc_version b \<and> sc_echo_ack a = sc_echo_ack b \<and>
     (let f = sc_frame a; g = sc_frame b in
      fs_rows F f = fs_rows F g \<and> fs_cols F f = fs_cols F g \<and>
      fs_cursor_row F f = fs_cursor_row F g \<and> fs_cursor_col F f = fs_cursor_col F g \<and>
      fs_mode F f = fs_mode F g \<and> fs_cells F f = fs_cells F g \<and>
      fs_title F f = clip16 (fs_title F g) \<and>
      fs_overflow F f = map (\<lambda>(i, t). (i, clip16 t)) (fs_overflow F g))"

lemma screen_fits_shaped:
  "screen_fits F s \<longleftrightarrow> screen_shaped F s \<and> str16_ok (fs_title F (sc_frame s)) \<and>
     list_all (\<lambda>(i, t). str16_ok t) (fs_overflow F (sc_frame s))"
  by (auto simp: screen_fits_def screen_shaped_def Let_def list_all_iff)

lemma clip16_fits: "str16_ok s \<Longrightarrow> clip16 s = s"
  by (simp add: clip16_def str16_ok_def utf8_lossy_valid)

lemma clipped_same: "screen_clipped F a b \<Longrightarrow> screen_fits F b \<Longrightarrow> screen_same F a b"
proof -
  assume c: "screen_clipped F a b" and f: "screen_fits F b"
  have "map (\<lambda>(i, t). (i, clip16 t)) (fs_overflow F (sc_frame b)) = fs_overflow F (sc_frame b)"
    using f by (intro map_idI) (auto simp: screen_fits_shaped list_all_iff clip16_fits)
  with c f show ?thesis
    by (simp add: screen_clipped_def screen_same_def frame_same_def Let_def screen_fits_shaped clip16_fits)
qed

lemma put_str16_cut: "put_str16 s = le16 (of_nat (length (take 65535 s))) @ take 65535 s"
  by (cases "length s \<le> 65535") (simp_all add: put_str16_def Let_def min_def)

lemma cut_length: "unat (of_nat (length (take 65535 (s :: rstr))) :: u16) = length (take 65535 s)"
  by (rule unat_of_nat_small) simp

lemma SCREEN_MAGIC_length: "length SCREEN_MAGIC = 4"
  by (simp add: SCREEN_MAGIC_def)

lemma cells_bound:
  assumes "r \<le> MAX_ROWS" "c \<le> MAX_COLS"
  shows "unat r * unat c \<le> 262144"
proof -
  have "unat r \<le> 512" "unat c \<le> 512"
    using assms by (simp_all add: MAX_ROWS_def MAX_COLS_def word_le_nat_alt)
  then have "unat r * unat c \<le> 512 * 512" by (rule mult_le_mono)
  then show ?thesis by simp
qed

lemma btree_ok_length:
  assumes "btree_ok m" "\<forall>i \<in> fst ` set m. i < n"
  shows "length m \<le> n"
proof -
  have "distinct (map fst m)"
    using assms(1) by (simp add: btree_ok_def strict_sorted_iff)
  moreover have "set (map fst m) \<subseteq> {..<n}" using assms(2) by auto
  ultimately show ?thesis
    by (metis card_lessThan card_mono distinct_card finite_lessThan length_map)
qed

lemma read_overflow_put:
  assumes "set_overflow_law F" "cell_n < 4294967296"
    and "btree_ok (fs_overflow F f @ ov)" "list_all (\<lambda>(i, t). i < cell_n) ov"
  shows "\<exists>g. read_overflow F cell_n (length ov) f (put_overflow ov @ r) = Inr (g, r) \<and>
     frame_same F g (fs_set_overflow F (fs_overflow F f @ map (\<lambda>(i, t). (i, clip16 t)) ov) f)"
  using assms(3,4)
proof (induction ov arbitrary: f)
  case Nil
  then show ?case
    by (simp add: put_overflow_def frame_same_def set_overflow_simps [OF assms(1)])
next
  case (Cons x ov)
  obtain i t where x: "x = (i, t)" by fastforce
  with Cons.prems have i: "i < cell_n" by auto
  let ?g = "fs_set_overflow F (btree_insert i (clip16 t) (fs_overflow F f)) f"
  have ins: "btree_insert i (clip16 t) (fs_overflow F f) = fs_overflow F f @ [(i, clip16 t)]"
    using Cons.prems(1) x
    by (subst btree_insert_append) (auto simp: btree_ok_def sorted_wrt_append)
  then have g: "fs_overflow F ?g = fs_overflow F f @ [(i, clip16 t)]"
    by (simp add: set_overflow_simps [OF assms(1)])
  have "btree_ok (fs_overflow F ?g @ ov)" using Cons.prems(1) x by (simp add: g btree_ok_def)
  from Cons.IH [OF this] Cons.prems(2) obtain h where
    h: "read_overflow F cell_n (length ov) ?g (put_overflow ov @ r) = Inr (h, r)"
      "frame_same F h (fs_set_overflow F (fs_overflow F ?g @ map (\<lambda>(i, t). (i, clip16 t)) ov) ?g)" by auto
  have u: "unat (of_nat i :: u32) = i" using i assms(2) by (simp add: unat_of_nat_small)
  have "read_overflow F cell_n (length (x # ov)) f (put_overflow (x # ov) @ r) = Inr (h, r)"
    using h(1) u i x cut_length [of t]
    by (simp add: put_overflow_def put_str16_cut rd_exact_append clip16_def [symmetric] del: length_take)
  moreover have "frame_same F h (fs_set_overflow F (fs_overflow F f @ map (\<lambda>(i, t). (i, clip16 t)) (x # ov)) f)"
    using h(2) g x by (simp add: frame_same_def set_overflow_simps [OF assms(1)])
  ultimately show ?case by blast
qed

lemma screen_raw_clipped:
  assumes laws: "frame_laws F" and shaped: "screen_shaped F s"
  shows "\<exists>s'. screen_decode_raw F (screen_encode_raw F s) = Inr s' \<and> screen_clipped F s' s"
proof -
  let ?f = "sc_frame s"
  let ?t = "take 65535 (fs_title F ?f)" and ?ov = "fs_overflow F ?f" and ?cells = "fs_cells F ?f"
  let ?n = "unat (fs_rows F ?f) * unat (fs_cols F ?f)"
  let ?g = "fs_from_parts F (fs_rows F ?f) (fs_cols F ?f) (fs_cursor_row F ?f)
    (fs_cursor_col F ?f) (fs_mode F ?f) (clip16 (fs_title F ?f)) ?cells"
  note fits = shaped [unfolded screen_shaped_def Let_def cell_count_def]
  have cl: "length ?cells = ?n * CELL_SIZE" using fits by simp
  note g = from_parts_simps [OF laws cl]
  have sl: "set_overflow_law F" using laws by (simp add: frame_laws_def)
  have n: "?n \<le> 262144" using fits by (intro cells_bound) simp_all
  have ovl: "length ?ov \<le> ?n" using fits by (intro btree_ok_length) (auto simp: list_all_iff)
  have cln: "length ?cells < 4294967296" using cl n unfolding CELL_SIZE_def by linarith
  have len: "unat (of_nat (length ?cells) :: u32) = length ?cells"
      "unat (of_nat (length ?ov) :: u32) = length ?ov"
    using cln ovl n by (simp_all add: unat_of_nat_small)
  obtain h where h: "read_overflow F ?n (length ?ov) ?g (put_overflow ?ov @ []) = Inr (h, [])"
      "frame_same F h (fs_set_overflow F (fs_overflow F ?g @ map (\<lambda>(i, t). (i, clip16 t)) ?ov) ?g)"
    using read_overflow_put [OF sl, of ?n ?g ?ov "[]"] n fits g(8) by auto
  have dims: "?n \<le> fs_max_cell_count F" "\<not> fs_rows F ?f > MAX_ROWS" "\<not> fs_cols F ?f > MAX_COLS"
      "\<not> fs_cursor_row F ?f > fs_rows F ?f" "\<not> fs_cursor_col F ?f > fs_cols F ?f"
    using fits by (simp_all add: not_less)
  have clen: "unat (of_nat (length ?cells) :: u32) = ?n * CELL_SIZE" using len(1) cl by simp
  have "screen_parse F (screen_encode_raw F s) =
      Inr (\<lparr>sc_version = sc_version s, sc_echo_ack = sc_echo_ack s, sc_frame = h\<rparr>, [])"
    using dims clen len(2) h(1) ovl cut_length [of "fs_title F ?f"]
    by (simp add: screen_parse_def screen_encode_raw_def Let_def rd_exact_append [OF cl] put_str16_cut
        rd_exact_append [OF SCREEN_MAGIC_length] rd_exact_append clip16_def [symmetric] del: length_take)
  moreover have "screen_clipped F \<lparr>sc_version = sc_version s, sc_echo_ack = sc_echo_ack s, sc_frame = h\<rparr> s"
    using h(2) by (simp add: screen_clipped_def frame_same_def set_overflow_simps [OF sl] g Let_def)
  ultimately show ?thesis by (auto simp: screen_decode_raw_def)
qed

lemma screen_raw_roundtrip:
  assumes "frame_laws F" and "screen_fits F s"
  shows "\<exists>s'. screen_decode_raw F (screen_encode_raw F s) = Inr s' \<and> screen_same F s' s"
proof -
  have "screen_shaped F s" using assms(2) by (simp add: screen_fits_shaped)
  from screen_raw_clipped [OF assms(1) this] clipped_same [OF _ assms(2)] show ?thesis by blast
qed

section \<open>What a decoded screen satisfies\<close>

text \<open>The bounds of every screen the decoder lets through.\<close>

definition screen_wf :: "('f, 'z) frame_lib_scheme \<Rightarrow> 'f screen \<Rightarrow> bool" where
  "screen_wf F s \<longleftrightarrow> (let f = sc_frame s in
     cell_count F f \<le> fs_max_cell_count F \<and> fs_rows F f \<le> MAX_ROWS \<and> fs_cols F f \<le> MAX_COLS \<and>
     fs_cursor_row F f \<le> fs_rows F f \<and> fs_cursor_col F f \<le> fs_cols F f \<and>
     length (fs_cells F f) = cell_count F f * CELL_SIZE \<and> utf8_valid (fs_title F f) \<and>
     btree_ok (fs_overflow F f) \<and>
     list_all (\<lambda>(i, t). i < cell_count F f \<and> utf8_valid t) (fs_overflow F f))"

lemma read_overflow_wf:
  assumes sl: "set_overflow_law F"
    and "btree_ok (fs_overflow F f)" "list_all (\<lambda>(i, t). i < cell_n \<and> utf8_valid t) (fs_overflow F f)"
    and "read_overflow F cell_n k f r = Inr (g, r')"
  shows "btree_ok (fs_overflow F g) \<and>
    list_all (\<lambda>(i, t). i < cell_n \<and> utf8_valid t) (fs_overflow F g) \<and>
    frame_same F g (fs_set_overflow F (fs_overflow F g) f)"
  using assms(2-4)
proof (induction k arbitrary: f r)
  case 0
  then show ?case by (simp add: frame_same_def set_overflow_simps [OF sl])
next
  case (Suc k)
  from Suc.prems(3) obtain idx :: u32 and s r1 where
    idx: "unat idx < cell_n" and
    rec: "read_overflow F cell_n k
      (fs_set_overflow F (btree_insert (unat idx) (utf8_lossy s) (fs_overflow F f)) f) r1 = Inr (g, r')"
    by (auto simp: res_bind_eq_Inr_iff not_le split: if_splits)
  let ?m = "btree_insert (unat idx) (utf8_lossy s) (fs_overflow F f)"
  have "list_all (\<lambda>(i, t). i < cell_n \<and> utf8_valid t) ?m"
    using Suc.prems(2) btree_insert_set [of "unat idx" "utf8_lossy s" "fs_overflow F f"] idx
    by (fastforce simp: list_all_iff)
  with Suc.IH [OF _ _ rec] Suc.prems(1) show ?case
    by (simp add: set_overflow_simps [OF sl] btree_insert_ok frame_same_def)
qed

lemma rd_exact_length: "rd_exact n r = Inr (x, r') \<Longrightarrow> length x = n"
  by (auto simp: rd_exact_def split: if_splits)

lemma screen_parse_wf:
  assumes laws: "frame_laws F" and parse: "screen_parse F bs = Inr (s, r)"
  shows "screen_wf F s"
proof -
  have sl: "set_overflow_law F" using laws by (simp add: frame_laws_def)
  from parse obtain rows cols cr cc m t cells k r0 r1 r2 frame where
    d: "unat rows * unat cols \<le> fs_max_cell_count F" "rows \<le> MAX_ROWS" "cols \<le> MAX_COLS"
      "cr \<le> rows" "cc \<le> cols" and
    len: "rd_exact (unat rows * unat cols * CELL_SIZE) r0 = Inr (cells, r2)" and
    rec: "read_overflow F (unat rows * unat cols) k
        (fs_from_parts F rows cols cr cc m (utf8_lossy t) cells) r1 = Inr (frame, r)" and
    s: "sc_frame s = frame"
    unfolding screen_parse_def
    by (auto simp: res_bind_eq_Inr_iff not_less split: if_splits)
  note len = rd_exact_length [OF len]
  note g = from_parts_simps [OF laws len]
  have w: "btree_ok (fs_overflow F frame)"
    "list_all (\<lambda>(i, t). i < unat rows * unat cols \<and> utf8_valid t) (fs_overflow F frame)"
    "frame_same F frame (fs_set_overflow F (fs_overflow F frame)
        (fs_from_parts F rows cols cr cc m (utf8_lossy t) cells))"
    using read_overflow_wf [OF sl _ _ rec] by (simp_all add: g btree_ok_def)
  with d len show ?thesis
    by (simp add: screen_wf_def s frame_same_def set_overflow_simps [OF sl] g cell_count_def)
qed

lemma screen_decode_raw_wf:
  "frame_laws F \<Longrightarrow> screen_decode_raw F bs = Inr s \<Longrightarrow> screen_wf F s"
  by (auto simp: screen_decode_raw_def res_bind_eq_Inr_iff split: if_splits dest: screen_parse_wf)

lemma screen_decode_wf: "frame_laws F \<Longrightarrow> screen_decode F bs = Inr s \<Longrightarrow> screen_wf F s"
  by (auto simp: screen_decode_def split: if_splits option.splits dest: screen_decode_raw_wf)

section \<open>The newest state wins\<close>

text \<open>
  The contract of a versioned register: a state is taken exactly when its version is above
  that of the state held, zero being the version of no state at all. A client that folds the
  states it happens to receive ends with the newest, whatever the order and repetitions.
\<close>

locale newest_wins =
  fixes ver :: "'s \<Rightarrow> nat"
    and keep :: "'s option \<Rightarrow> 's \<Rightarrow> 's option"
  assumes keep_None: "keep None x = (if 0 < ver x then Some x else None)"
    and keep_Some: "keep (Some c) x = (if ver c < ver x then Some x else None)"
begin

definition held :: "'s option \<Rightarrow> nat" where
  "held c = (case c of None \<Rightarrow> 0 | Some s \<Rightarrow> ver s)"

definition receive :: "'s \<Rightarrow> 's option \<Rightarrow> 's option" where
  "receive x c = (case keep c x of Some y \<Rightarrow> Some y | None \<Rightarrow> c)"

lemma receive_eq: "receive x c = (if held c < ver x then Some x else c)"
  by (simp add: receive_def held_def keep_None keep_Some split: option.split)

lemma held_receive: "held (receive x c) = max (held c) (ver x)"
  by (simp add: receive_eq) (simp add: held_def max_def)

lemma held_fold: "held (fold receive xs c) = fold max (map ver xs) (held c)"
  by (induction xs arbitrary: c) (simp_all add: held_receive max.commute)

lemma fold_mem: "fold receive xs None = Some s \<Longrightarrow> s \<in> set xs \<and> 0 < ver s"
proof (induction xs rule: rev_induct)
  case (snoc x xs)
  then show ?case by (auto simp: receive_eq split: if_splits)
qed simp

lemma fold_max_set: "fold max ns (m :: nat) = Max (insert m (set ns))"
proof (induction ns arbitrary: m)
  case (Cons n ns)
  then show ?case by (cases "ns = []") (simp_all add: ac_simps)
qed simp

lemma converge:
  assumes "set xs = set ys" "inj_on ver (set xs)"
  shows "fold receive xs None = fold receive ys None"
proof -
  let ?a = "fold receive xs None" and ?b = "fold receive ys None"
  have h: "held ?a = held ?b"
    using assms(1) by (simp add: held_fold fold_max_set)
  show ?thesis
  proof (cases ?a)
    case None
    with h have "held ?b = 0" by (simp add: held_def)
    then show ?thesis using fold_mem [of ys] None by (cases ?b) (auto simp: held_def)
  next
    case (Some s)
    with fold_mem [OF Some] h obtain t where t: "?b = Some t" "ver s = ver t"
      by (cases ?b) (auto simp: held_def)
    with fold_mem [OF Some] fold_mem [OF t(1)] assms show ?thesis
      by (metis Some inj_onD)
  qed
qed

lemma newest:
  assumes "fold receive xs None = Some s" "x \<in> set xs"
  shows "ver x \<le> ver s"
proof -
  have "held (fold receive xs None) = Max (insert 0 (set (map ver xs)))"
    by (simp add: held_fold fold_max_set) (simp add: held_def)
  with assms show ?thesis by (simp add: held_def)
qed

end

text \<open>The register of the code: a received screen replaces the one held if it is newer.\<close>

definition screen_receive :: "'f screen \<Rightarrow> 'f screen option \<Rightarrow> 'f screen option" where
  "screen_receive x c = (case apply_newer c x of Some y \<Rightarrow> Some y | None \<Rightarrow> c)"

interpretation scr: newest_wins "\<lambda>s. unat (sc_version s)" apply_newer
  by unfold_locales (simp_all add: apply_newer_def word_less_nat_alt)

lemma screen_receive_scr: "screen_receive = scr.receive"
  by (intro ext) (simp add: screen_receive_def scr.receive_def)

lemma screen_encode_lz:
  assumes "lz_laws F" "length (screen_encode_raw F s) < 4294967296"
  shows "screen_decode F (screen_encode F s) = (if length (screen_encode_raw F s) > MAX_SCREEN_RAW
      then Inl TooLarge else screen_decode_raw F (screen_encode_raw F s))" (is ?dec)
    and "4 \<le> length (screen_encode F s)" (is ?len)
    and "le_val (slc 0 4 (screen_encode F s)) = length (screen_encode_raw F s)" (is ?pre)
proof -
  let ?raw = "screen_encode_raw F s"
  have lz: "lz_decompress F (lz_compress F ?raw) = Some ?raw" "4 \<le> length (lz_compress F ?raw)"
      "slc 0 4 (lz_compress F ?raw) = le32 (of_nat (length ?raw))"
    using assms by (simp_all add: lz_laws_def)
  have "unat (of_nat (length ?raw) :: u32) = length ?raw"
    using assms(2) by (simp add: unat_of_nat_small)
  with lz show ?dec ?len ?pre by (auto simp: screen_decode_def screen_encode_def)
qed

section \<open>Properties\<close>

text \<open>C8: A screen that fits the encoding survives compression and the wire: version, echo
  acknowledgement, size, cursor, mode, title, every cell and every overflow string come back. If its
  raw form is over the limit the receiver refuses it as too large, and never misreads it.\<close>

theorem screen_roundtrip:
  assumes "frame_laws F" "lz_laws F" "screen_fits F s" "length (screen_encode_raw F s) < 4294967296"
  shows "if length (screen_encode_raw F s) \<le> MAX_SCREEN_RAW
    then \<exists>s'. screen_decode F (screen_encode F s) = Inr s' \<and> screen_same F s' s
    else screen_decode F (screen_encode F s) = Inl TooLarge"
  using screen_raw_roundtrip [OF assms(1,3)] screen_encode_lz(1) [OF assms(2,4)] by simp

text \<open>A library for the examples: frames are records of their parts and compression only adds the
  length prefix.\<close>

definition codec_ex :: "cframe codec_lib" where
  "codec_ex = frame_lib.extend cframe_lib
     \<lparr>lz_compress = (\<lambda>x. le32 (of_nat (length x)) @ x),
      lz_decompress = (\<lambda>x. if length x < 4 then None else Some (drop 4 x))\<rparr>"

lemma codec_ex_laws: "frame_laws codec_ex" "frame_edit_laws codec_ex" "lz_laws codec_ex"
  by (simp_all add: codec_ex_def lz_laws_def frame_laws_def frame_edit_laws_def from_parts_law_def
      set_overflow_law_def set_cells_law_def set_cursor_law_def cframe_lib_def frame_lib.defs slc_def)

definition screen_ex :: "cframe screen" where
  "screen_ex = \<lparr>sc_version = 3, sc_echo_ack = 7, sc_frame =
     \<lparr>cf_rows = 1, cf_cols = 2, cf_cursor_row = 0, cf_cursor_col = 1, cf_mode = 1,
      cf_title = lit ''sh'', cf_cells = [0, 8, 0, 0, 0, 0, 0, 0, 97, 0, 0, 0, 0, 56, 0, 0, 0, 0, 0, 0, 0, 0, 0, 0],
      cf_overflow = [(1, lit ''wide!'')]\<rparr>\<rparr>"

lemma screen_ex_fits: "screen_fits codec_ex screen_ex"
  by (simp add: screen_fits_def screen_ex_def codec_ex_def cframe_lib_def frame_lib.defs Let_def
      cell_count_def MAX_ROWS_def MAX_COLS_def CELL_SIZE_def str16_ok_def lit_def of_char_def btree_ok_def)

lemma screen_ex_raw: "length (screen_encode_raw codec_ex screen_ex) = 77"
  by (simp add: screen_encode_raw_def screen_ex_def codec_ex_def cframe_lib_def frame_lib.defs
      SCREEN_MAGIC_def put_str16_def put_overflow_def lit_def Let_def)

theorem screen_roundtrip_witness:
  "\<exists>s'. screen_decode codec_ex (screen_encode codec_ex screen_ex) = Inr s' \<and> screen_same codec_ex s' screen_ex"
  using screen_roundtrip [OF codec_ex_laws(1,3) screen_ex_fits]
  by (simp add: screen_ex_raw MAX_SCREEN_RAW_def)

text \<open>C20: Whatever bytes arrive, a screen the decoder accepts is within every limit: at most 512 rows
  and columns and the library's cell count, the cursor inside, twelve bytes for each cell, valid text
  in title and overflow, and overflow entries for existing cells only.\<close>

theorem screen_decode_safe:
  assumes "frame_laws F" "screen_decode F bs = Inr s"
  shows "screen_wf F s"
  using assms by (rule screen_decode_wf)

theorem screen_decode_safe_witness: "\<exists>s'. screen_wf codec_ex s'"
proof -
  have "\<exists>s'. screen_decode_raw codec_ex (screen_encode_raw codec_ex screen_ex) = Inr s'"
    using screen_raw_roundtrip [OF codec_ex_laws(1) screen_ex_fits] by blast
  then obtain s' where "screen_decode codec_ex (screen_encode codec_ex screen_ex) = Inr s'"
    using screen_encode_lz(1) [OF codec_ex_laws(3), of screen_ex]
    by (auto simp: screen_ex_raw MAX_SCREEN_RAW_def)
  from screen_decode_safe [OF codec_ex_laws(1) this] show ?thesis ..
qed

text \<open>The raw encoding is strict on both sides: bytes after a complete screen are a frame error, and
  no proper prefix of an accepted encoding is accepted, so a screen cut short is never taken for
  another one.\<close>

theorem screen_decode_strict:
  assumes "screen_decode_raw F bs = Inr s"
  shows "(\<forall>e. e \<noteq> [] \<longrightarrow> screen_decode_raw F (bs @ e) = Inl Frame) \<and>
    (\<forall>n < length bs. \<not> is_ok (screen_decode_raw F (take n bs)))"
proof (intro conjI allI impI)
  fix n assume "n < length bs"
  then have "bs = take n bs @ drop n bs" "drop n bs \<noteq> []" by simp_all
  with assms show "\<not> is_ok (screen_decode_raw F (take n bs))"
    using screen_decode_raw_prefix [of F "take n bs" "drop n bs"] by simp
qed (rule screen_decode_raw_extend [OF assms])

theorem screen_decode_strict_witness:
  "screen_decode_raw codec_ex (screen_encode_raw codec_ex screen_ex @ [0]) = Inl Frame"
proof -
  obtain s' where "screen_decode_raw codec_ex (screen_encode_raw codec_ex screen_ex) = Inr s'"
    using screen_raw_roundtrip [OF codec_ex_laws(1) screen_ex_fits] by blast
  from screen_decode_strict [OF this] show ?thesis by blast
qed

text \<open>C21: The two screen encodings exclude each other: bytes that begin like a shared screen are never
  accepted as an ordinary screen, and an ordinary screen within the size limit is never accepted as a
  shared one. A shared screen that encodes decodes to the same epoch, permission and screen.\<close>

theorem shared_screen_separate:
  assumes "frame_laws F" "lz_laws F" "screen_fits F s" "length (screen_encode_raw F s) \<le> MAX_SCREEN_RAW"
  shows "screen_decode F (SHARED_SCREEN_MAGIC @ e) = Inl TooLarge \<and>
    \<not> is_ok (shared_decode F (screen_encode F s)) \<and>
    (\<forall>w. shared_encode F \<lparr>ss_prediction_epoch = ep, ss_prediction_allowed = al, ss_screen = s\<rparr> = Inr w \<longrightarrow>
       (\<exists>s'. shared_decode F w = Inr \<lparr>ss_prediction_epoch = ep, ss_prediction_allowed = al, ss_screen = s'\<rparr>
          \<and> screen_same F s' s))"
proof (intro conjI allI impI)
  show "screen_decode F (SHARED_SCREEN_MAGIC @ e) = Inl TooLarge"
    by (simp add: screen_decode_def SHARED_SCREEN_MAGIC_def slc_def rd32_def MAX_SCREEN_RAW_def)
  let ?raw = "screen_encode_raw F s"
  have "length ?raw < 4294967296" using assms(4) by (simp add: MAX_SCREEN_RAW_def)
  note enc = screen_encode_lz [OF assms(2) this]
  have "le_val SHARED_SCREEN_MAGIC = 0x21315051" by (simp add: SHARED_SCREEN_MAGIC_def)
  with enc(3) assms(4) have "slc 0 4 (screen_encode F s) \<noteq> SHARED_SCREEN_MAGIC"
    by (auto simp: MAX_SCREEN_RAW_def)
  then show "\<not> is_ok (shared_decode F (screen_encode F s))"
    by (simp add: shared_decode_def)
  fix w assume w: "shared_encode F \<lparr>ss_prediction_epoch = ep, ss_prediction_allowed = al, ss_screen = s\<rparr> = Inr w"
  obtain s' where s': "screen_decode F (screen_encode F s) = Inr s'" "screen_same F s' s"
    using screen_raw_roundtrip [OF assms(1,3)] enc(1) assms(4) by auto
  with w enc(2) show "\<exists>s'. shared_decode F w = Inr \<lparr>ss_prediction_epoch = ep, ss_prediction_allowed = al, ss_screen = s'\<rparr>
      \<and> screen_same F s' s"
    by (auto simp: shared_encode_def shared_decode_def Let_def SHARED_SCREEN_MAGIC_def slc_def nth_append
        split: if_splits)
qed

theorem shared_screen_separate_witness:
  "screen_decode codec_ex (SHARED_SCREEN_MAGIC @ [1, 2, 3]) = Inl TooLarge \<and>
   \<not> is_ok (shared_decode codec_ex (screen_encode codec_ex screen_ex))"
  using shared_screen_separate [OF codec_ex_laws(1,3) screen_ex_fits, of "[1, 2, 3]"]
  by (simp add: screen_ex_raw MAX_SCREEN_RAW_def)

text \<open>C5: Screens travel over two unordered paths and may be lost, repeated and reordered: two receivers
  that got the same set of screens hold the same one, and it has the highest version of all.\<close>

theorem screens_converge:
  assumes "set xs = set ys" "inj_on sc_version (set xs)"
  shows "fold screen_receive xs None = fold screen_receive ys None \<and>
    (\<forall>s x. fold screen_receive xs None = Some s \<longrightarrow> x \<in> set xs \<longrightarrow> sc_version x \<le> sc_version s)"
proof -
  have "inj_on (\<lambda>s. unat (sc_version s)) (set xs)"
    using assms(2) by (auto simp: inj_on_def word_unat_eq_iff)
  from scr.converge [OF assms(1) this] scr.newest [of xs] show ?thesis
    by (simp add: screen_receive_scr word_le_nat_alt)
qed

theorem screens_converge_witness:
  "fold screen_receive [screen_ex, screen_ex\<lparr>sc_version := 5\<rparr>, screen_ex] None =
   fold screen_receive [screen_ex\<lparr>sc_version := 5\<rparr>, screen_ex] None"
  using screens_converge [of "[screen_ex, screen_ex\<lparr>sc_version := 5\<rparr>, screen_ex]" "[screen_ex\<lparr>sc_version := 5\<rparr>, screen_ex]"]
  by (auto simp: screen_ex_def)

end
