(* ===== verification/Predict_Model.thy ===== *)
theory Predict_Model
  imports Screen_Codec
begin

text \<open>
  The local echo predictor (\<open>crates/quosh-predict/src/lib.rs\<close>): overlays for cells and
  cursors, their validity against a confirmed frame, the keystroke handlers, the reconciliation
  \<open>cull\<close> and the display \<open>apply\<close>. Counters, epochs and times are 64-bit words as in the code, row
  and column numbers 16-bit words; indices into the cell vectors are natural numbers. The escape
  sequence parser (\<open>vte\<close>) and the width table (\<open>unicode_width\<close>) are parameters.
\<close>

datatype act = Print nat | Execute byte | Csi nat | Esc

record ('f, 'v) predict_lib = "'f codec_lib" +
  vte_new :: 'v
  vte_advance :: "'v \<Rightarrow> byte \<Rightarrow> 'v \<times> act list"
  char_width :: "nat \<Rightarrow> nat option"

section \<open>Overlays\<close>

definition NONE :: u64 where "NONE = - 1"
definition SRTT_TRIGGER_LOW :: u32 where "SRTT_TRIGGER_LOW = 20"
definition SRTT_TRIGGER_HIGH :: u32 where "SRTT_TRIGGER_HIGH = 30"
definition FLAG_TRIGGER_LOW :: u32 where "FLAG_TRIGGER_LOW = 50"
definition FLAG_TRIGGER_HIGH :: u32 where "FLAG_TRIGGER_HIGH = 80"
definition GLITCH_THRESHOLD :: u64 where "GLITCH_THRESHOLD = 250"
definition GLITCH_REPAIR_COUNT :: u32 where "GLITCH_REPAIR_COUNT = 10"
definition GLITCH_REPAIR_MININTERVAL :: u64 where "GLITCH_REPAIR_MININTERVAL = 150"
definition GLITCH_FLAG_THRESHOLD :: u64 where "GLITCH_FLAG_THRESHOLD = 5000"

datatype display_preference = Adaptive | Always | Never

datatype validity = Pending | Correct | CorrectNoCredit | IncorrectOrExpired | Inactive

record base =
  ba_expiration_frame :: u64
  ba_col :: u16
  ba_active :: bool
  ba_tentative_until_epoch :: u64
  ba_prediction_time :: u64

definition base_new :: "u16 \<Rightarrow> u64 \<Rightarrow> base" where
  "base_new col tent = \<lparr>ba_expiration_frame = 0, ba_col = col, ba_active = False,
     ba_tentative_until_epoch = tent, ba_prediction_time = NONE\<rparr>"

definition base_tentative :: "u64 \<Rightarrow> base \<Rightarrow> bool" where
  "base_tentative confirmed b \<longleftrightarrow> ba_tentative_until_epoch b > confirmed"

definition base_reset :: "base \<Rightarrow> base" where
  "base_reset b = b\<lparr>ba_expiration_frame := NONE, ba_tentative_until_epoch := NONE,
     ba_active := False, ba_prediction_time := NONE\<rparr>"

definition base_expire :: "u64 \<Rightarrow> u64 \<Rightarrow> base \<Rightarrow> base" where
  "base_expire ef now b = b\<lparr>ba_expiration_frame := ef, ba_prediction_time := now\<rparr>"

record cell_overlay =
  co_base :: base
  co_replacement :: bytes
  co_unknown :: bool
  co_original :: "rstr list"

definition cell_reset :: "cell_overlay \<Rightarrow> cell_overlay" where
  "cell_reset c = c\<lparr>co_unknown := False, co_original := [], co_base := base_reset (co_base c)\<rparr>"

definition cell_reset_with_orig :: "cell_overlay \<Rightarrow> cell_overlay" where
  "cell_reset_with_orig c =
     (if \<not> ba_active (co_base c) \<or> co_unknown c then cell_reset c
      else c\<lparr>co_original := co_original c @ [cell_text (co_replacement c)],
             co_base := base_reset (co_base c)\<rparr>)"

definition cell_validity ::
  "('f, 'z) frame_lib_scheme \<Rightarrow> 'f \<Rightarrow> u16 \<Rightarrow> u64 \<Rightarrow> cell_overlay \<Rightarrow> validity" where
  "cell_validity F fb row late_ack c =
     (let b = co_base c; replacement = cell_text (co_replacement c) in
      if \<not> ba_active b then Inactive
      else if row \<ge> fs_rows F fb \<or> ba_col b \<ge> fs_cols F fb then IncorrectOrExpired
      else if late_ack < ba_expiration_frame b then Pending
      else if co_unknown c then CorrectNoCredit
      else if is_blank replacement then CorrectNoCredit
      else if contents_match (fs_cell_content F fb row (ba_col b)) replacement
      then (if list_ex (\<lambda>o'. contents_match o' replacement) (co_original c)
            then CorrectNoCredit else Correct)
      else IncorrectOrExpired)"

definition cell_index :: "u16 \<Rightarrow> u16 \<Rightarrow> u16 \<Rightarrow> nat" where
  "cell_index cols row col = (unat row * unat cols + unat col) * CELL_SIZE"

definition cell_bytes :: "('f, 'z) frame_lib_scheme \<Rightarrow> 'f \<Rightarrow> u16 \<Rightarrow> u16 \<Rightarrow> bytes" where
  "cell_bytes F fb row col =
     (if row \<ge> fs_rows F fb \<or> col \<ge> fs_cols F fb then replicate CELL_SIZE 0
      else let i = cell_index (fs_cols F fb) row col in slc i (i + CELL_SIZE) (fs_cells F fb))"

definition set_cell ::
  "('f, 'z) frame_lib_scheme \<Rightarrow> u16 \<Rightarrow> u16 \<Rightarrow> bytes \<Rightarrow> 'f \<Rightarrow> 'f" where
  "set_cell F row col cell fb =
     (let i = cell_index (fs_cols F fb) row col; cs = fs_cells F fb;
          fb' = fs_set_cells F (take i cs @ cell @ drop (i + CELL_SIZE) cs) fb;
          flat = unat row * unat (fs_cols F fb) + unat col in
      fs_set_overflow F (btree_remove flat (fs_overflow F fb')) fb')"

definition set_underline :: "('f, 'z) frame_lib_scheme \<Rightarrow> u16 \<Rightarrow> u16 \<Rightarrow> 'f \<Rightarrow> 'f" where
  "set_underline F row col fb =
     (let i = cell_index (fs_cols F fb) row col; cs = fs_cells F fb in
      fs_set_cells F (cs[i := cs ! i OR 0x80]) fb)"

definition cell_apply ::
  "('f, 'z) frame_lib_scheme \<Rightarrow> u64 \<Rightarrow> u16 \<Rightarrow> bool \<Rightarrow> cell_overlay \<Rightarrow> 'f \<Rightarrow> 'f" where
  "cell_apply F confirmed_epoch row flag0 c fb =
     (let b = co_base c; replacement = cell_text (co_replacement c) in
      if \<not> ba_active b \<or> row \<ge> fs_rows F fb \<or> ba_col b \<ge> fs_cols F fb then fb
      else if base_tentative confirmed_epoch b then fb
      else let flag = (if is_blank replacement \<and> is_blank (fs_cell_content F fb row (ba_col b))
                       then False else flag0) in
        if co_unknown c then
          (if flag \<and> ba_col b \<noteq> fs_cols F fb - 1 then set_underline F row (ba_col b) fb else fb)
        else if cell_bytes F fb row (ba_col b) \<noteq> co_replacement c then
          (let fb' = set_cell F row (ba_col b) (co_replacement c) fb in
           if flag then set_underline F row (ba_col b) fb' else fb')
        else fb)"

record cursor_overlay =
  cu_base :: base
  cu_row :: u16
  cu_col :: u16

definition cursor_validity ::
  "('f, 'z) frame_lib_scheme \<Rightarrow> 'f \<Rightarrow> u64 \<Rightarrow> cursor_overlay \<Rightarrow> validity" where
  "cursor_validity F fb late_ack c =
     (if \<not> ba_active (cu_base c) then Inactive
      else if cu_row c \<ge> fs_rows F fb \<or> cu_col c \<ge> fs_cols F fb then IncorrectOrExpired
      else if late_ack \<ge> ba_expiration_frame (cu_base c) then
        (if fs_cursor_col F fb = cu_col c \<and> fs_cursor_row F fb = cu_row c
         then Correct else IncorrectOrExpired)
      else Pending)"

definition cursor_apply ::
  "('f, 'z) frame_lib_scheme \<Rightarrow> u64 \<Rightarrow> cursor_overlay \<Rightarrow> 'f \<Rightarrow> 'f" where
  "cursor_apply F confirmed_epoch c fb =
     (if \<not> ba_active (cu_base c) \<or> base_tentative confirmed_epoch (cu_base c) then fb
      else if cu_row c < fs_rows F fb \<and> cu_col c < fs_cols F fb
      then fs_set_cursor F (cu_row c) (cu_col c) fb else fb)"

record prow =
  pr_row_num :: u16
  pr_cells :: "cell_overlay list"

section \<open>The predictor\<close>

record 'v predictor =
  pd_last_byte :: byte
  pd_parser :: 'v
  pd_overlays :: "prow list"
  pd_cursors :: "cursor_overlay list"
  pd_local_frame_sent :: u64
  pd_local_frame_acked :: u64
  pd_local_frame_late_acked :: u64
  pd_prediction_epoch :: u64
  pd_confirmed_epoch :: u64
  pd_flagging :: bool
  pd_srtt_trigger :: bool
  pd_glitch_trigger :: u32
  pd_last_quick_confirmation :: u64
  pd_send_interval :: u32
  pd_last_height :: u16
  pd_last_width :: u16
  pd_display_preference :: display_preference
  pd_predict_overwrite :: bool

definition predictor_new :: "('f, 'v, 'z) predict_lib_scheme \<Rightarrow> 'v predictor" where
  "predictor_new F = \<lparr>pd_last_byte = 0, pd_parser = vte_new F, pd_overlays = [], pd_cursors = [],
     pd_local_frame_sent = 0, pd_local_frame_acked = 0, pd_local_frame_late_acked = 0,
     pd_prediction_epoch = 1, pd_confirmed_epoch = 0, pd_flagging = False,
     pd_srtt_trigger = False, pd_glitch_trigger = 0, pd_last_quick_confirmation = 0,
     pd_send_interval = 250, pd_last_height = 0, pd_last_width = 0,
     pd_display_preference = Adaptive, pd_predict_overwrite = False\<rparr>"

definition become_tentative :: "'v predictor \<Rightarrow> 'v predictor" where
  "become_tentative p = p\<lparr>pd_prediction_epoch := pd_prediction_epoch p + 1\<rparr>"

definition predictor_reset :: "'v predictor \<Rightarrow> 'v predictor" where
  "predictor_reset p = become_tentative (p\<lparr>pd_cursors := [], pd_overlays := []\<rparr>)"

definition predictor_active :: "'v predictor \<Rightarrow> bool" where
  "predictor_active p \<longleftrightarrow> pd_cursors p \<noteq> [] \<or>
     list_ex (\<lambda>r. list_ex (\<lambda>c. ba_active (co_base c)) (pr_cells r)) (pd_overlays p)"

text \<open>The cursor prediction in force is the last one; \<open>last_mut\<close> updates it.\<close>

definition pd_cursor :: "'v predictor \<Rightarrow> cursor_overlay" where
  "pd_cursor p = last (pd_cursors p)"

definition upd_cursor :: "(cursor_overlay \<Rightarrow> cursor_overlay) \<Rightarrow> 'v predictor \<Rightarrow> 'v predictor" where
  "upd_cursor f p = p\<lparr>pd_cursors := butlast (pd_cursors p) @ [f (last (pd_cursors p))]\<rparr>"

definition new_cursor :: "u64 \<Rightarrow> u64 \<Rightarrow> u16 \<Rightarrow> u16 \<Rightarrow> cursor_overlay" where
  "new_cursor ef epoch row col =
     \<lparr>cu_base = \<lparr>ba_expiration_frame = ef, ba_col = col, ba_active = True,
                 ba_tentative_until_epoch = epoch, ba_prediction_time = NONE\<rparr>,
      cu_row = row, cu_col = col\<rparr>"

definition init_cursor :: "('f, 'z) frame_lib_scheme \<Rightarrow> 'f \<Rightarrow> 'v predictor \<Rightarrow> 'v predictor" where
  "init_cursor F fb p =
     (let ef = pd_local_frame_sent p + 1; epoch = pd_prediction_epoch p in
      if pd_cursors p = [] then
        p\<lparr>pd_cursors := pd_cursors p @ [new_cursor ef epoch (fs_cursor_row F fb) (fs_cursor_col F fb)]\<rparr>
      else if ba_tentative_until_epoch (cu_base (pd_cursor p)) \<noteq> epoch then
        p\<lparr>pd_cursors := pd_cursors p @ [new_cursor ef epoch (cu_row (pd_cursor p)) (cu_col (pd_cursor p))]\<rparr>
      else p)"

text \<open>\<open>get_or_make_row\<close> returns a reference to a row: the model returns its position.\<close>

definition get_or_make_row :: "u16 \<Rightarrow> u16 \<Rightarrow> u64 \<Rightarrow> prow list \<Rightarrow> prow list \<times> nat" where
  "get_or_make_row row_num num_cols epoch overlays =
     (if list_ex (\<lambda>r. pr_row_num r = row_num) overlays
      then (overlays, length (takeWhile (\<lambda>r. pr_row_num r \<noteq> row_num) overlays))
      else (overlays @ [\<lparr>pr_row_num = row_num, pr_cells = map (\<lambda>i.
              \<lparr>co_base = base_new (of_nat i) epoch, co_replacement = replicate CELL_SIZE 0,
               co_unknown = False, co_original = []\<rparr>) [0..<unat num_cols]\<rparr>], length overlays))"

definition upd_row ::
  "nat \<Rightarrow> (cell_overlay list \<Rightarrow> cell_overlay list) \<Rightarrow> prow list \<Rightarrow> prow list" where
  "upd_row k f rows = rows[k := (rows ! k)\<lparr>pr_cells := f (pr_cells (rows ! k))\<rparr>]"

definition has_link :: "('f, 'z) frame_lib_scheme \<Rightarrow> 'f \<Rightarrow> u16 \<Rightarrow> u16 \<Rightarrow> bool" where
  "has_link F fb row col =
     (let links = fs_cell_links F fb; i = unat row * unat (fs_cols F fb) + unat col in
      if links = [] then False else i < length links \<and> links ! i \<noteq> 0)"

definition unsupported_range ::
  "('f, 'z) frame_lib_scheme \<Rightarrow> 'f \<Rightarrow> u16 \<Rightarrow> u16 \<Rightarrow> u16 \<Rightarrow> bool" where
  "unsupported_range F fb row from to0 =
     (if row \<ge> fs_rows F fb \<or> from > to0 then False
      else let to = min to0 (sat_sub (fs_cols F fb) 1) in
        list_ex (\<lambda>c. cell_is_overflow (cell_bytes F fb row (of_nat c)) \<or> has_link F fb row (of_nat c))
          [unat from..<Suc (unat to)])"

definition row_has_link :: "('f, 'z) frame_lib_scheme \<Rightarrow> 'f \<Rightarrow> u16 \<Rightarrow> bool" where
  "row_has_link F fb row \<longleftrightarrow> list_ex (\<lambda>c. has_link F fb row (of_nat c)) [0..<unat (fs_cols F fb)]"

section \<open>Keystrokes\<close>

text \<open>The steps common to every prediction made in a cell: what was predicted before is kept as
  original contents, the cell becomes active for the epoch and expires with the next input frame.\<close>

definition claim_cell :: "u64 \<Rightarrow> u64 \<Rightarrow> u64 \<Rightarrow> rstr \<Rightarrow> cell_overlay \<Rightarrow> cell_overlay" where
  "claim_cell ef epoch now actual c =
     (let c = cell_reset_with_orig c;
          b = (co_base c)\<lparr>ba_active := True, ba_tentative_until_epoch := epoch\<rparr> in
      c\<lparr>co_base := base_expire ef now b, co_original := co_original c @ [actual]\<rparr>)"

text \<open>A cell takes over what its neighbour shows: the neighbour's prediction, or its contents.\<close>

definition take_neighbour :: "cell_overlay \<Rightarrow> bytes \<Rightarrow> cell_overlay \<Rightarrow> cell_overlay" where
  "take_neighbour n actual c =
     (if ba_active (co_base n) then
        (if co_unknown n then c\<lparr>co_unknown := True\<rparr>
         else c\<lparr>co_unknown := False, co_replacement := co_replacement n\<rparr>)
      else c\<lparr>co_unknown := False, co_replacement := actual\<rparr>)"

definition backspace_cell ::
  "('f, 'z) frame_lib_scheme \<Rightarrow> 'f \<Rightarrow> u16 \<Rightarrow> nat \<Rightarrow> u64 \<Rightarrow> u64 \<Rightarrow> u64 \<Rightarrow> nat \<Rightarrow>
   cell_overlay list \<Rightarrow> cell_overlay list" where
  "backspace_cell F fb row width ef epoch now i cells =
     (let c = claim_cell ef epoch now (cell_text (cell_bytes F fb row (of_nat i))) (cells ! i) in
      cells[i := if i + 2 < width
        then take_neighbour (cells ! (i + 1)) (cell_bytes F fb row (of_nat (i + 1))) c
        else c\<lparr>co_unknown := True\<rparr>])"

definition backspace ::
  "('f, 'z) frame_lib_scheme \<Rightarrow> 'f \<Rightarrow> u64 \<Rightarrow> 'v predictor \<Rightarrow> 'v predictor" where
  "backspace F fb now p =
     (let row_num = cu_row (pd_cursor p); col0 = cu_col (pd_cursor p); width = fs_cols F fb;
          ef = pd_local_frame_sent p + 1; epoch = pd_prediction_epoch p;
          overwrite = pd_predict_overwrite p in
      if col0 = 0 then p
      else let col = col0 - 1; to = (if overwrite then col else width - 1) in
        if unsupported_range F fb row_num col to then become_tentative p
        else let (rows, k) = get_or_make_row row_num width epoch (pd_overlays p);
                 p = upd_cursor (\<lambda>c. c\<lparr>cu_col := col, cu_base := base_expire ef now (cu_base c)\<rparr>) p in
          if overwrite then
            let actual = cell_bytes F fb row_num col in
            p\<lparr>pd_overlays := upd_row k (\<lambda>cells. cells[unat col :=
               (claim_cell ef epoch now (cell_text actual) (cells ! unat col))
                 \<lparr>co_replacement := make_blank_cell actual\<rparr>]) rows\<rparr>
          else
            p\<lparr>pd_overlays := upd_row k
               (fold (backspace_cell F fb row_num (unat width) ef epoch now) [unat col..<unat width]) rows\<rparr>)"

definition newline_carriage_return ::
  "('f, 'z) frame_lib_scheme \<Rightarrow> 'f \<Rightarrow> u64 \<Rightarrow> 'v predictor \<Rightarrow> 'v predictor" where
  "newline_carriage_return F fb now p0 =
     (let p = init_cursor F fb p0; ef = pd_local_frame_sent p + 1; epoch = pd_prediction_epoch p;
          p = upd_cursor (\<lambda>c. c\<lparr>cu_col := 0\<rparr>) p; row_num = cu_row (pd_cursor p) in
      if row_num = fs_rows F fb - 1 then
        (if row_has_link F fb row_num then become_tentative p
         else let (rows, k) = get_or_make_row row_num (fs_cols F fb) epoch (pd_overlays p) in
           p\<lparr>pd_overlays := upd_row k (map (\<lambda>c. c\<lparr>co_base := base_expire ef now
                ((co_base c)\<lparr>ba_active := True, ba_tentative_until_epoch := epoch\<rparr>),
                co_replacement := make_blank_cell (co_replacement c)\<rparr>)) rows\<rparr>)
      else upd_cursor (\<lambda>c. c\<lparr>cu_row := cu_row c + 1\<rparr>) p)"

definition insert_cell ::
  "('f, 'z) frame_lib_scheme \<Rightarrow> 'f \<Rightarrow> u16 \<Rightarrow> nat \<Rightarrow> u64 \<Rightarrow> u64 \<Rightarrow> u64 \<Rightarrow> nat \<Rightarrow>
   cell_overlay list \<Rightarrow> cell_overlay list" where
  "insert_cell F fb row width ef epoch now i cells =
     (let c = claim_cell ef epoch now (cell_text (cell_bytes F fb row (of_nat i))) (cells ! i) in
      cells[i := if i + 1 = width then c\<lparr>co_unknown := True\<rparr>
        else take_neighbour (cells ! (i - 1)) (cell_bytes F fb row (of_nat (i - 1))) c])"

text \<open>The character itself: its rendition comes from the cell to the left, predicted or shown.\<close>

definition type_cell ::
  "('f, 'z) frame_lib_scheme \<Rightarrow> 'f \<Rightarrow> u16 \<Rightarrow> u16 \<Rightarrow> nat \<Rightarrow> u64 \<Rightarrow> u64 \<Rightarrow> u64 \<Rightarrow>
   cell_overlay list \<Rightarrow> cell_overlay list" where
  "type_cell F fb row col ch ef epoch now cells =
     (let prev = cells ! (unat col - 1);
          src = (if col > 0 then
                   (if ba_active (co_base prev) \<and> \<not> co_unknown prev then co_replacement prev
                    else cell_bytes F fb row (col - 1))
                 else cell_bytes F fb row col);
          c = claim_cell ef epoch now (cell_text (cell_bytes F fb row col)) (cells ! unat col) in
      cells[unat col := c\<lparr>co_replacement := make_char_cell src ch\<rparr>])"

definition predict_char ::
  "('f, 'z) frame_lib_scheme \<Rightarrow> nat \<Rightarrow> 'f \<Rightarrow> u64 \<Rightarrow> 'v predictor \<Rightarrow> 'v predictor" where
  "predict_char F ch fb now p0 =
     (let row_num = cu_row (pd_cursor p0); col = cu_col (pd_cursor p0) in
      if row_num \<ge> fs_rows F fb \<or> col \<ge> fs_cols F fb then p0
      else let width = fs_cols F fb; ef = pd_local_frame_sent p0 + 1;
               old_epoch = pd_prediction_epoch p0;
               rightmost = (if pd_predict_overwrite p0 then col else width - 1) in
        if unsupported_range F fb row_num col rightmost then become_tentative p0
        else let p = (if unat col + 1 \<ge> unat width then become_tentative p0 else p0);
                 epoch = pd_prediction_epoch p;
                 (rows, k) = get_or_make_row row_num width old_epoch (pd_overlays p);
                 rows = upd_row k (\<lambda>cells. type_cell F fb row_num col ch ef epoch now
                   (fold (insert_cell F fb row_num (unat width) ef epoch now)
                      (rev [unat col + 1..<unat rightmost + 1]) cells)) rows;
                 p = upd_cursor (\<lambda>c. c\<lparr>cu_base := base_expire ef now (cu_base c)\<rparr>)
                       (p\<lparr>pd_overlays := rows\<rparr>) in
          if col < width - 1 then upd_cursor (\<lambda>c. c\<lparr>cu_col := cu_col c + 1\<rparr>) p
          else newline_carriage_return F fb now (become_tentative p))"

definition handle_print ::
  "('f, 'v, 'z) predict_lib_scheme \<Rightarrow> nat \<Rightarrow> 'f \<Rightarrow> u64 \<Rightarrow> 'v predictor \<Rightarrow> 'v predictor" where
  "handle_print F ch fb now p0 =
     (let p = init_cursor F fb p0 in
      if ch = 0x7f then backspace F fb now p
      else if ch < 0x20 \<or> char_width F ch \<noteq> Some 1 then become_tentative p
      else predict_char F ch fb now p)"

definition cursor_right ::
  "('f, 'z) frame_lib_scheme \<Rightarrow> 'f \<Rightarrow> u64 \<Rightarrow> 'v predictor \<Rightarrow> 'v predictor" where
  "cursor_right F fb now p0 =
     (let p = init_cursor F fb p0 in
      if cu_col (pd_cursor p) < sat_sub (fs_cols F fb) 1
      then upd_cursor (\<lambda>c. c\<lparr>cu_col := cu_col c + 1,
             cu_base := base_expire (pd_local_frame_sent p + 1) now (cu_base c)\<rparr>) p
      else p)"

definition cursor_left ::
  "('f, 'z) frame_lib_scheme \<Rightarrow> 'f \<Rightarrow> u64 \<Rightarrow> 'v predictor \<Rightarrow> 'v predictor" where
  "cursor_left F fb now p0 =
     (let p = init_cursor F fb p0 in
      if cu_col (pd_cursor p) > 0
      then upd_cursor (\<lambda>c. c\<lparr>cu_col := cu_col c - 1,
             cu_base := base_expire (pd_local_frame_sent p + 1) now (cu_base c)\<rparr>) p
      else p)"

fun handle_act ::
  "('f, 'v, 'z) predict_lib_scheme \<Rightarrow> 'f \<Rightarrow> u64 \<Rightarrow> act \<Rightarrow> 'v predictor \<Rightarrow> 'v predictor" where
  "handle_act F fb now (Print ch) p = handle_print F ch fb now p"
| "handle_act F fb now (Execute b) p =
     (if b = 0x0d then newline_carriage_return F fb now (become_tentative p) else become_tentative p)"
| "handle_act F fb now (Csi c) p =
     (if c = 67 then cursor_right F fb now p
      else if c = 68 then cursor_left F fb now p else become_tentative p)"
| "handle_act F fb now Esc p = become_tentative p"

section \<open>Reconciliation\<close>

definition kill_epoch ::
  "('f, 'z) frame_lib_scheme \<Rightarrow> u64 \<Rightarrow> 'f \<Rightarrow> 'v predictor \<times> prow list \<Rightarrow> 'v predictor \<times> prow list" where
  "kill_epoch F epoch fb = (\<lambda>(p, rows).
     let old = sat_sub epoch 1;
         cs = filter (\<lambda>c. \<not> base_tentative old (cu_base c)) (pd_cursors p) @
              [new_cursor (pd_local_frame_sent p + 1) (pd_prediction_epoch p)
                 (fs_cursor_row F fb) (fs_cursor_col F fb)] in
     (become_tentative (p\<lparr>pd_cursors := cs\<rparr>),
      map (\<lambda>r. r\<lparr>pr_cells := map (\<lambda>c. if base_tentative old (co_base c) then cell_reset c else c)
             (pr_cells r)\<rparr>) rows))"

text \<open>The glitch bookkeeping of a confirmed and of an outstanding prediction.\<close>

definition quick_confirm :: "u64 \<Rightarrow> u64 \<Rightarrow> 'v predictor \<Rightarrow> 'v predictor" where
  "quick_confirm now pt p =
     (if sat_sub now pt < GLITCH_THRESHOLD \<and> pd_glitch_trigger p > 0 \<and>
         sat_sub now (pd_last_quick_confirmation p) \<ge> GLITCH_REPAIR_MININTERVAL
      then p\<lparr>pd_glitch_trigger := pd_glitch_trigger p - 1, pd_last_quick_confirmation := now\<rparr>
      else p)"

definition note_pending :: "u64 \<Rightarrow> u64 \<Rightarrow> 'v predictor \<Rightarrow> 'v predictor" where
  "note_pending now pt p =
     (let pending = sat_sub now pt in
      if pending \<ge> GLITCH_FLAG_THRESHOLD then p\<lparr>pd_glitch_trigger := GLITCH_REPAIR_COUNT * 2\<rparr>
      else if pending \<ge> GLITCH_THRESHOLD \<and> pd_glitch_trigger p < GLITCH_REPAIR_COUNT
      then p\<lparr>pd_glitch_trigger := GLITCH_REPAIR_COUNT\<rparr> else p)"

text \<open>One cell of the reconciliation; \<open>None\<close> is the early return after a \<open>reset\<close>.\<close>

definition cull_cell ::
  "('f, 'z) frame_lib_scheme \<Rightarrow> 'f \<Rightarrow> u64 \<Rightarrow> nat \<times> nat \<Rightarrow> 'v predictor \<times> prow list \<Rightarrow>
   ('v predictor \<times> prow list) option" where
  "cull_cell F fb now = (\<lambda>(ri, ci) (p, rows).
     let r = rows ! ri; c = pr_cells r ! ci; b = co_base c in
     case cell_validity F fb (pr_row_num r) (pd_local_frame_late_acked p) c of
       IncorrectOrExpired \<Rightarrow>
         if base_tentative (pd_confirmed_epoch p) b
         then Some (kill_epoch F (ba_tentative_until_epoch b) fb (p, rows)) else None
     | Correct \<Rightarrow>
         let te = ba_tentative_until_epoch b;
             p = (if te > pd_confirmed_epoch p then p\<lparr>pd_confirmed_epoch := te\<rparr> else p);
             p = quick_confirm now (ba_prediction_time b) p;
             actual = cell_bytes F fb (pr_row_num r) (ba_col b);
             cells = take ci (pr_cells r) @ map (\<lambda>c. c\<lparr>co_replacement :=
                       copy_renditions (co_replacement c) actual\<rparr>) (drop ci (pr_cells r)) in
         Some (p, rows[ri := r\<lparr>pr_cells := cells[ci := cell_reset (cells ! ci)]\<rparr>])
     | CorrectNoCredit \<Rightarrow> Some (p, rows[ri := r\<lparr>pr_cells := (pr_cells r)[ci := cell_reset c]\<rparr>])
     | Pending \<Rightarrow> Some (note_pending now (ba_prediction_time b) p, rows)
     | Inactive \<Rightarrow> Some (p, rows))"

fun cull_loop ::
  "('f, 'z) frame_lib_scheme \<Rightarrow> 'f \<Rightarrow> u64 \<Rightarrow> (nat \<times> nat) list \<Rightarrow> 'v predictor \<times> prow list \<Rightarrow>
   'v predictor + 'v predictor \<times> prow list" where
  "cull_loop F fb now [] s = Inr s"
| "cull_loop F fb now (ij # ijs) s = (case cull_cell F fb now ij s of
     None \<Rightarrow> Inl (predictor_reset (fst s)) | Some s' \<Rightarrow> cull_loop F fb now ijs s')"

definition cell_positions :: "prow list \<Rightarrow> (nat \<times> nat) list" where
  "cell_positions rows =
     concat (map (\<lambda>ri. map (Pair ri) [0..<length (pr_cells (rows ! ri))]) [0..<length rows])"

definition cull_geometry :: "('f, 'z) frame_lib_scheme \<Rightarrow> 'f \<Rightarrow> 'v predictor \<Rightarrow> 'v predictor" where
  "cull_geometry F fb p =
     (if pd_last_height p \<noteq> fs_rows F fb \<or> pd_last_width p \<noteq> fs_cols F fb
      then predictor_reset (p\<lparr>pd_last_height := fs_rows F fb, pd_last_width := fs_cols F fb\<rparr>) else p)"

definition cull_triggers :: "'v predictor \<Rightarrow> 'v predictor" where
  "cull_triggers p =
     (let p = (if pd_send_interval p > SRTT_TRIGGER_HIGH then p\<lparr>pd_srtt_trigger := True\<rparr>
               else if pd_srtt_trigger p \<and> pd_send_interval p \<le> SRTT_TRIGGER_LOW \<and> \<not> predictor_active p
               then p\<lparr>pd_srtt_trigger := False\<rparr> else p);
          p = (if pd_send_interval p > FLAG_TRIGGER_HIGH then p\<lparr>pd_flagging := True\<rparr>
               else if pd_send_interval p \<le> FLAG_TRIGGER_LOW then p\<lparr>pd_flagging := False\<rparr> else p) in
      if pd_glitch_trigger p > GLITCH_REPAIR_COUNT then p\<lparr>pd_flagging := True\<rparr> else p)"

definition cull_cursors :: "('f, 'z) frame_lib_scheme \<Rightarrow> 'f \<Rightarrow> 'v predictor \<Rightarrow> 'v predictor" where
  "cull_cursors F fb p =
     (let v = cursor_validity F fb (pd_local_frame_late_acked p) in
      if pd_cursors p \<noteq> [] \<and> v (last (pd_cursors p)) = IncorrectOrExpired then predictor_reset p
      else p\<lparr>pd_cursors := filter (\<lambda>c. ba_active (cu_base c) \<and> v c = Pending) (pd_cursors p)\<rparr>)"

definition cull ::
  "('f, 'z) frame_lib_scheme \<Rightarrow> 'f \<Rightarrow> u64 \<Rightarrow> 'v predictor \<Rightarrow> 'v predictor" where
  "cull F fb now p0 =
     (if pd_display_preference p0 = Never then p0
      else let p = cull_triggers (cull_geometry F fb p0);
               rows = filter (\<lambda>r. pr_row_num r < fs_rows F fb) (pd_overlays p) in
        case cull_loop F fb now (cell_positions rows) (p\<lparr>pd_overlays := []\<rparr>, rows) of
          Inl p \<Rightarrow> p
        | Inr (p, rows) \<Rightarrow> cull_cursors F fb (p\<lparr>pd_overlays := rows\<rparr>))"

section \<open>Input and display\<close>

definition new_user_byte ::
  "('f, 'v, 'z) predict_lib_scheme \<Rightarrow> byte \<Rightarrow> 'f \<Rightarrow> u64 \<Rightarrow> 'v predictor \<Rightarrow> 'v predictor" where
  "new_user_byte F byte fb now p0 =
     (if pd_display_preference p0 = Never then p0
      else let p = cull F fb now p0;
               b = (if pd_last_byte p = 0x1b \<and> byte = 0x4f then 0x5b else byte);
               p = p\<lparr>pd_last_byte := b\<rparr> in
        if b = 0x7f then handle_print F 0x7f fb now p
        else let (v, acts) = vte_advance F (pd_parser p) b in
          fold (handle_act F fb now) acts (p\<lparr>pd_parser := v\<rparr>))"

definition predictor_apply ::
  "('f, 'z) frame_lib_scheme \<Rightarrow> 'v predictor \<Rightarrow> 'f \<Rightarrow> 'f" where
  "predictor_apply F p fb =
     (if pd_display_preference p = Never then fb
      else if \<not> (pd_srtt_trigger p \<or> pd_glitch_trigger p > 0 \<or> pd_display_preference p = Always) then fb
      else fold (\<lambda>r. fold (cell_apply F (pd_confirmed_epoch p) (pr_row_num r) (pd_flagging p)) (pr_cells r))
             (pd_overlays p) (fold (cursor_apply F (pd_confirmed_epoch p)) (pd_cursors p) fb))"

end
