(* ===== verification/Predict_Cull.thy ===== *)
theory Predict_Cull
  imports Predict_Model
begin

text \<open>
  What reconciliation does (\<open>Predictor::cull\<close> of \<open>crates/quosh-predict/src/lib.rs\<close>). The
  relation \<open>below\<close> says that a cell overlay is inactive or still makes the prediction another
  one made; every step of the loop goes down in it. From it follow that after \<open>cull\<close> only
  predictions about unacknowledged input are left, and that the confirmed epoch moves only
  when the server's frame shows predicted text.
\<close>

unbundle bit_operations_syntax

section \<open>Renditions do not change text\<close>

lemma copy_renditions_bits:
  assumes "2 \<le> length d"
  shows "copy_renditions d s ! 1 = (d ! 1 AND 0xFE) OR (s ! 1 AND 1)"
  using assms by (simp add: copy_renditions_def)

lemma rendition_flag:
  fixes a b :: byte
  shows "((a AND 0xFE) OR (b AND 1)) AND 4 = a AND 4"
    and "drop_bit 3 ((a AND 0xFE) OR (b AND 1)) AND 7 = drop_bit 3 a AND 7"
  by (rule bit_eqI, simp add: bit_simps less_Suc_eq numeral_eq_Suc; fastforce)+

lemma cell_text_copy_renditions:
  assumes "length d = 12" "8 \<le> length s"
  shows "cell_text (copy_renditions d s) = cell_text d"
proof -
  let ?c = "copy_renditions d s"
  have one: "?c ! 1 = (d ! 1 AND 0xFE) OR (s ! 1 AND 1)"
    by (rule copy_renditions_bits) (use assms in simp)
  have "length (slc 2 8 s) = 6" using assms(2) by simp
  then have "slc 8 (8 + n) ?c = slc 8 (8 + n) d" for n
    by (simp add: copy_renditions_def slc_def)
  then show ?thesis
    unfolding cell_text_def content_len_def one rendition_flag by (simp add: Let_def)
qed

text \<open>The vector of cells has the size of the screen (an index into it would panic otherwise).\<close>

definition frame_shape :: "('f, 'z) frame_lib_scheme \<Rightarrow> 'f \<Rightarrow> bool" where
  "frame_shape F fb \<longleftrightarrow> length (fs_cells F fb) = cell_count F fb * CELL_SIZE"

lemma cell_index_bound:
  assumes "row < fs_rows F fb" "col < fs_cols F fb"
  shows "cell_index (fs_cols F fb) row col + CELL_SIZE \<le> cell_count F fb * CELL_SIZE"
proof -
  let ?r = "unat row" and ?c = "unat col" and ?R = "unat (fs_rows F fb)" and ?C = "unat (fs_cols F fb)"
  have "?r < ?R" "?c < ?C" using assms by (simp_all add: word_less_nat_alt)
  then have "Suc (?r * ?C + ?c) \<le> Suc ?r * ?C" by simp
  also have "\<dots> \<le> ?R * ?C" using \<open>?r < ?R\<close> by (intro mult_le_mono1) simp
  finally have "Suc (?r * ?C + ?c) * CELL_SIZE \<le> ?R * ?C * CELL_SIZE" by (rule mult_le_mono1)
  then show ?thesis by (simp add: cell_index_def cell_count_def)
qed

lemma length_cell_bytes [simp]:
  assumes "frame_shape F fb"
  shows "length (cell_bytes F fb row col) = 12"
proof (cases "row \<ge> fs_rows F fb \<or> col \<ge> fs_cols F fb")
  case True
  then show ?thesis by (simp add: cell_bytes_def CELL_SIZE_def)
next
  case False
  then have "cell_index (fs_cols F fb) row col + CELL_SIZE \<le> length (fs_cells F fb)"
    using cell_index_bound [of row F fb col] assms by (simp add: frame_shape_def not_le)
  with False show ?thesis by (simp add: cell_bytes_def Let_def) (simp add: CELL_SIZE_def)
qed

section \<open>Going down\<close>

definition below :: "cell_overlay \<Rightarrow> cell_overlay \<Rightarrow> bool" where
  "below c d \<longleftrightarrow> length (co_replacement c) = 12 \<and>
     (ba_active (co_base c) \<longrightarrow> co_base c = co_base d \<and> co_unknown c = co_unknown d \<and>
        co_original c = co_original d \<and> cell_text (co_replacement c) = cell_text (co_replacement d))"

definition row_below :: "prow \<Rightarrow> prow \<Rightarrow> bool" where
  "row_below r s \<longleftrightarrow> pr_row_num r = pr_row_num s \<and> list_all2 below (pr_cells r) (pr_cells s)"

definition rows_below :: "prow list \<Rightarrow> prow list \<Rightarrow> bool" where
  "rows_below = list_all2 row_below"

text \<open>Replacements are arrays of twelve bytes.\<close>

definition rows_typed :: "prow list \<Rightarrow> bool" where
  "rows_typed rows \<longleftrightarrow> (\<forall>r \<in> set rows. \<forall>c \<in> set (pr_cells r). length (co_replacement c) = 12)"

lemma below_refl: "length (co_replacement c) = 12 \<Longrightarrow> below c c"
  by (simp add: below_def)

lemma below_trans: "below c d \<Longrightarrow> below d e \<Longrightarrow> below c e"
  by (auto simp: below_def)

lemma row_below_trans: "row_below r s \<Longrightarrow> row_below s t \<Longrightarrow> row_below r t"
  unfolding row_below_def
  using list_all2_trans [of below below below "pr_cells r" "pr_cells s" "pr_cells t"] below_trans
  by metis

lemma rows_below_trans: "rows_below r s \<Longrightarrow> rows_below s t \<Longrightarrow> rows_below r t"
  unfolding rows_below_def by (rule list_all2_trans [OF row_below_trans])

lemma row_below_refl: "\<forall>c \<in> set (pr_cells r). length (co_replacement c) = 12 \<Longrightarrow> row_below r r"
  by (simp add: row_below_def list_all2_same below_refl)

lemma rows_below_refl: "rows_typed rows \<Longrightarrow> rows_below rows rows"
  by (simp add: rows_below_def list_all2_same rows_typed_def row_below_refl)

lemma rows_below_nth:
  assumes "rows_below rows rows'" "i < length rows" "j < length (pr_cells (rows ! i))"
  shows "below (pr_cells (rows ! i) ! j) (pr_cells (rows' ! i) ! j) \<and>
     pr_row_num (rows ! i) = pr_row_num (rows' ! i)"
  using assms by (auto simp: rows_below_def row_below_def list_all2_conv_all_nth)

lemma rows_below_typed:
  assumes "rows_below rows rows'"
  shows "rows_typed rows"
proof (unfold rows_typed_def, intro ballI)
  fix r c assume "r \<in> set rows" "c \<in> set (pr_cells r)"
  then obtain i j where "i < length rows" "r = rows ! i" "j < length (pr_cells r)" "c = pr_cells r ! j"
    by (metis in_set_conv_nth)
  with rows_below_nth [OF assms, of i j] show "length (co_replacement c) = 12"
    by (simp add: below_def)
qed

lemma below_reset: "length (co_replacement c) = 12 \<Longrightarrow> below (cell_reset c) c"
  by (simp add: below_def cell_reset_def base_reset_def)

text \<open>Replacing one row by a row below it.\<close>

lemma rows_below_update:
  assumes "rows_typed rows" "k < length rows" "row_below r (rows ! k)"
  shows "rows_below (rows[k := r]) rows"
  using rows_below_refl [OF assms(1)] assms(2,3)
  by (auto simp: rows_below_def list_all2_conv_all_nth nth_list_update)

lemma rows_typed_nth:
  "rows_typed rows \<Longrightarrow> k < length rows \<Longrightarrow> j < length (pr_cells (rows ! k)) \<Longrightarrow>
   length (co_replacement (pr_cells (rows ! k) ! j)) = 12"
  unfolding rows_typed_def using nth_mem by metis

lemma rows_below_length:
  assumes "rows_below rows rows'"
  shows "length rows = length rows'"
    "i < length rows \<Longrightarrow> length (pr_cells (rows ! i)) = length (pr_cells (rows' ! i))"
  using assms by (auto simp: rows_below_def row_below_def list_all2_conv_all_nth)

text \<open>A cell below another is inactive or as valid as the other.\<close>

lemma cell_validity_below:
  "below c d \<Longrightarrow> cell_validity F fb row ack c = Inactive \<or>
     cell_validity F fb row ack c = cell_validity F fb row ack d"
  by (auto simp: below_def cell_validity_def Let_def)

lemma cell_validity_Inactive: "cell_validity F fb row ack c = Inactive \<longleftrightarrow> \<not> ba_active (co_base c)"
  by (simp add: cell_validity_def Let_def)

section \<open>One step\<close>

text \<open>What a step may change of the predictor itself.\<close>

lemma quick_confirm_simps [simp]:
  "pd_local_frame_late_acked (quick_confirm now pt p) = pd_local_frame_late_acked p"
  "pd_confirmed_epoch (quick_confirm now pt p) = pd_confirmed_epoch p"
  "pd_prediction_epoch (quick_confirm now pt p) = pd_prediction_epoch p"
  "pd_cursors (quick_confirm now pt p) = pd_cursors p"
  "pd_overlays (quick_confirm now pt p) = pd_overlays p"
  "pd_last_width (quick_confirm now pt p) = pd_last_width p"
  "pd_last_height (quick_confirm now pt p) = pd_last_height p"
  "pd_display_preference (quick_confirm now pt p) = pd_display_preference p"
  by (simp_all add: quick_confirm_def)

lemma note_pending_simps [simp]:
  "pd_local_frame_late_acked (note_pending now pt p) = pd_local_frame_late_acked p"
  "pd_confirmed_epoch (note_pending now pt p) = pd_confirmed_epoch p"
  "pd_prediction_epoch (note_pending now pt p) = pd_prediction_epoch p"
  "pd_cursors (note_pending now pt p) = pd_cursors p"
  "pd_overlays (note_pending now pt p) = pd_overlays p"
  "pd_last_width (note_pending now pt p) = pd_last_width p"
  "pd_last_height (note_pending now pt p) = pd_last_height p"
  "pd_display_preference (note_pending now pt p) = pd_display_preference p"
  by (simp_all add: note_pending_def Let_def)

lemma kill_epoch_rows_below:
  "rows_typed rows \<Longrightarrow> rows_below (snd (kill_epoch F ep fb (p, rows))) rows"
  by (auto simp: kill_epoch_def Let_def rows_below_def row_below_def list_all2_conv_all_nth
      below_refl below_reset rows_typed_nth)

text \<open>The cells a confirmed prediction leaves behind in its row.\<close>

lemma confirm_row_below:
  assumes "\<forall>c \<in> set cs. length (co_replacement c) = 12" "8 \<le> length actual" "ci < length cs"
    and that: "length (co_replacement c) = 12"
  shows "list_all2 below
    ((take ci cs @ map (\<lambda>c. c\<lparr>co_replacement := copy_renditions (co_replacement c) actual\<rparr>) (drop ci cs))
       [ci := cell_reset (c\<lparr>co_replacement := copy_renditions (co_replacement c) actual\<rparr>)]) cs"
proof (rule list_all2_all_nthI)
  let ?g = "\<lambda>c. c\<lparr>co_replacement := copy_renditions (co_replacement c) actual\<rparr>"
  have len: "length (co_replacement (?g d)) = 12" if "length (co_replacement d) = 12" for d
    using that assms(2) by (simp add: copy_renditions_def slc_def)
  have keep: "below (?g d) d" if "length (co_replacement d) = 12" for d
    using that len [OF that] assms(2) by (simp add: below_def cell_text_copy_renditions)
  fix n assume "n < length ((take ci cs @ map ?g (drop ci cs))[ci := cell_reset (?g c)])"
  then have n: "n < length cs" using assms(3) by simp
  show "below ((take ci cs @ map ?g (drop ci cs))[ci := cell_reset (?g c)] ! n) (cs ! n)"
  proof (cases "n = ci")
    case True
    then show ?thesis using n len [OF that] assms(3)
      by (simp add: below_def cell_reset_def base_reset_def)
  next
    case False
    then show ?thesis using n assms(1,3) keep [of "cs ! n"]
      by (auto simp: nth_append below_refl)
  qed
qed (use assms(3) in simp)

text \<open>A step of the loop: rows go down, the settled cell is outstanding or gone, and the confirmed
  epoch is unchanged or is that of a prediction the frame confirms.\<close>

lemma cull_cell_step:
  assumes step: "cull_cell F fb now (ri, ci) (p, rows) = Some (p', rows')"
    and typed: "rows_typed rows" and shape: "frame_shape F fb"
    and ri: "ri < length rows" and ci: "ci < length (pr_cells (rows ! ri))"
  shows "rows_below rows' rows \<and>
    cell_validity F fb (pr_row_num (rows ! ri)) (pd_local_frame_late_acked p) (pr_cells (rows' ! ri) ! ci)
      \<in> {Pending, Inactive} \<and>
    pd_local_frame_late_acked p' = pd_local_frame_late_acked p \<and>
    (pd_confirmed_epoch p' = pd_confirmed_epoch p \<or>
     (pd_confirmed_epoch p' = ba_tentative_until_epoch (co_base (pr_cells (rows ! ri) ! ci)) \<and>
      pd_confirmed_epoch p < pd_confirmed_epoch p' \<and>
      cell_validity F fb (pr_row_num (rows ! ri)) (pd_local_frame_late_acked p) (pr_cells (rows ! ri) ! ci)
        = Correct))"
proof -
  let ?r = "rows ! ri"
  let ?c = "pr_cells ?r ! ci"
  let ?v = "cell_validity F fb (pr_row_num ?r) (pd_local_frame_late_acked p)"
  have len: "length (co_replacement ?c) = 12" using typed ri ci by (rule rows_typed_nth)
  have rowlen: "\<forall>c \<in> set (pr_cells ?r). length (co_replacement c) = 12"
    using typed nth_mem [OF ri] unfolding rows_typed_def by blast
  have inact: "?v (cell_reset c) = Inactive" for c
    by (simp add: cell_validity_def cell_reset_def base_reset_def Let_def)
  show ?thesis
  proof (cases "?v ?c")
    case Pending
    then show ?thesis using step rows_below_refl [OF typed] by (auto simp: cull_cell_def Let_def)
  next
    case Inactive
    then show ?thesis using step rows_below_refl [OF typed] by (auto simp: cull_cell_def Let_def)
  next
    case CorrectNoCredit
    have "row_below (?r\<lparr>pr_cells := (pr_cells ?r)[ci := cell_reset ?c]\<rparr>) ?r"
      using rowlen ci len
      by (auto simp: row_below_def list_all2_conv_all_nth nth_list_update below_refl below_reset)
    then show ?thesis using CorrectNoCredit step rows_below_update [OF typed ri] inact ri ci
      by (auto simp: cull_cell_def Let_def)
  next
    case IncorrectOrExpired
    then have t: "base_tentative (pd_confirmed_epoch p) (co_base ?c)"
      and k: "(p', rows') = kill_epoch F (ba_tentative_until_epoch (co_base ?c)) fb (p, rows)"
      using step by (auto simp: cull_cell_def Let_def split: if_splits)
    then have "base_tentative (sat_sub (ba_tentative_until_epoch (co_base ?c)) 1) (co_base ?c)"
      by (auto simp: base_tentative_def word_less_nat_alt unat_sat_sub)
    then have "pr_cells (rows' ! ri) ! ci = cell_reset ?c"
      using k ri ci by (simp add: kill_epoch_def Let_def)
    then show ?thesis
      using k kill_epoch_rows_below [OF typed, of F _ fb p] inact
      by (simp add: kill_epoch_def Let_def become_tentative_def)
  next
    case Correct
    let ?a = "cell_bytes F fb (pr_row_num ?r) (ba_col (co_base ?c))"
    let ?g = "\<lambda>c. c\<lparr>co_replacement := copy_renditions (co_replacement c) ?a\<rparr>"
    let ?cs = "(take ci (pr_cells ?r) @ map ?g (drop ci (pr_cells ?r)))[ci := cell_reset (?g ?c)]"
    have "rows' = rows[ri := ?r\<lparr>pr_cells := ?cs\<rparr>]"
      using Correct step ci by (auto simp: cull_cell_def Let_def nth_append)
    moreover have "row_below (?r\<lparr>pr_cells := ?cs\<rparr>) ?r"
      unfolding row_below_def using confirm_row_below [OF rowlen _ ci len] shape by simp
    ultimately show ?thesis using Correct step rows_below_update [OF typed ri] inact ri ci
      by (auto simp: cull_cell_def Let_def split: if_splits)
  qed
qed

section \<open>The loop\<close>

text \<open>A position is settled when its cell is inactive or still outstanding.\<close>

definition settled :: "('f, 'z) frame_lib_scheme \<Rightarrow> 'f \<Rightarrow> u64 \<Rightarrow> prow list \<Rightarrow> nat \<times> nat \<Rightarrow> bool" where
  "settled F fb ack rows = (\<lambda>(i, j).
     cell_validity F fb (pr_row_num (rows ! i)) ack (pr_cells (rows ! i) ! j) \<in> {Pending, Inactive})"

definition in_rows :: "prow list \<Rightarrow> nat \<times> nat \<Rightarrow> bool" where
  "in_rows rows = (\<lambda>(i, j). i < length rows \<and> j < length (pr_cells (rows ! i)))"

lemma settled_below:
  assumes "rows_below rows' rows" "in_rows rows ij" "settled F fb ack rows ij"
  shows "settled F fb ack rows' ij"
proof -
  obtain i j where ij: "ij = (i, j)" by fastforce
  have "i < length rows'" "j < length (pr_cells (rows' ! i))"
    using assms(2) rows_below_length [OF assms(1)] by (auto simp: in_rows_def ij)
  from rows_below_nth [OF assms(1) this] assms(3) show ?thesis
    using cell_validity_below [of "pr_cells (rows' ! i) ! j" "pr_cells (rows ! i) ! j" F fb
        "pr_row_num (rows ! i)" ack]
    by (auto simp: settled_def ij)
qed

lemma in_rows_below: "rows_below rows' rows \<Longrightarrow> in_rows rows' ij \<longleftrightarrow> in_rows rows ij"
  using rows_below_length [of rows' rows] by (auto simp: in_rows_def)

text \<open>A prediction the frame confirms, with the epoch it was made in.\<close>

definition confirmed_by ::
  "('f, 'z) frame_lib_scheme \<Rightarrow> 'f \<Rightarrow> u64 \<Rightarrow> prow list \<Rightarrow> u64 \<Rightarrow> bool" where
  "confirmed_by F fb ack rows ep \<longleftrightarrow> (\<exists>r \<in> set rows. \<exists>c \<in> set (pr_cells r).
     cell_validity F fb (pr_row_num r) ack c = Correct \<and> ba_tentative_until_epoch (co_base c) = ep)"

lemma confirmed_by_below:
  assumes "rows_below rows' rows" "confirmed_by F fb ack rows' ep"
  shows "confirmed_by F fb ack rows ep"
proof -
  from assms(2) obtain i j where ij: "i < length rows'" "j < length (pr_cells (rows' ! i))" and
    c: "cell_validity F fb (pr_row_num (rows' ! i)) ack (pr_cells (rows' ! i) ! j) = Correct"
       "ba_tentative_until_epoch (co_base (pr_cells (rows' ! i) ! j)) = ep"
    unfolding confirmed_by_def by (metis in_set_conv_nth)
  let ?c' = "pr_cells (rows' ! i) ! j" and ?c = "pr_cells (rows ! i) ! j"
  have b: "below ?c' ?c" "pr_row_num (rows' ! i) = pr_row_num (rows ! i)"
    using rows_below_nth [OF assms(1) ij] by auto
  moreover have "ba_active (co_base ?c')"
    using c(1) cell_validity_Inactive [of F fb "pr_row_num (rows' ! i)" ack ?c'] by auto
  ultimately have "cell_validity F fb (pr_row_num (rows ! i)) ack ?c = Correct"
    "ba_tentative_until_epoch (co_base ?c) = ep"
    using c cell_validity_below [OF b(1), of F fb "pr_row_num (rows ! i)" ack] by (auto simp: below_def)
  moreover have "rows ! i \<in> set rows" "?c \<in> set (pr_cells (rows ! i))"
    using ij rows_below_length [OF assms(1)] by auto
  ultimately show ?thesis unfolding confirmed_by_def by blast
qed

definition epoch_moves ::
  "('f, 'z) frame_lib_scheme \<Rightarrow> 'f \<Rightarrow> u64 \<Rightarrow> prow list \<Rightarrow> u64 \<Rightarrow> u64 \<Rightarrow> bool" where
  "epoch_moves F fb ack rows e e' \<longleftrightarrow> e' = e \<or> (e < e' \<and> confirmed_by F fb ack rows e')"

lemma epoch_moves_refl: "epoch_moves F fb ack rows e e"
  by (simp add: epoch_moves_def)

lemma epoch_moves_trans:
  assumes "epoch_moves F fb ack rows e e1" "epoch_moves F fb ack mid e1 e2" "rows_below mid rows"
  shows "epoch_moves F fb ack rows e e2"
  using assms confirmed_by_below [OF assms(3), of F fb ack e2]
  by (auto simp: epoch_moves_def)

lemma cull_cell_epoch:
  assumes "cull_cell F fb now (ri, ci) (p, rows) = Some (p', rows')"
    and "rows_typed rows" "frame_shape F fb" "ri < length rows" "ci < length (pr_cells (rows ! ri))"
  shows "epoch_moves F fb (pd_local_frame_late_acked p) rows (pd_confirmed_epoch p) (pd_confirmed_epoch p')"
proof -
  have "rows ! ri \<in> set rows" "pr_cells (rows ! ri) ! ci \<in> set (pr_cells (rows ! ri))"
    using assms(4,5) by simp_all
  with cull_cell_step [OF assms] show ?thesis
    by (auto simp: epoch_moves_def confirmed_by_def
        intro!: bexI [where x = "rows ! ri"] bexI [where x = "pr_cells (rows ! ri) ! ci"])
qed

lemma cull_loop_Inr:
  assumes "cull_loop F fb now ijs (p, rows) = Inr (p', rows')"
    and "rows_typed rows" "frame_shape F fb" "list_all (in_rows rows) ijs"
  shows "rows_below rows' rows \<and> list_all (settled F fb (pd_local_frame_late_acked p) rows') ijs \<and>
    pd_local_frame_late_acked p' = pd_local_frame_late_acked p \<and>
    epoch_moves F fb (pd_local_frame_late_acked p) rows (pd_confirmed_epoch p) (pd_confirmed_epoch p')"
  using assms
proof (induction ijs arbitrary: p rows)
  case Nil
  then show ?case by (simp add: rows_below_refl epoch_moves_refl)
next
  case (Cons ij ijs)
  obtain i j where ij: "ij = (i, j)" by fastforce
  from Cons.prems(1) obtain q mid where
    step: "cull_cell F fb now (i, j) (p, rows) = Some (q, mid)" and
    rest: "cull_loop F fb now ijs (q, mid) = Inr (p', rows')"
    by (auto simp: ij split: option.splits)
  have r: "i < length rows" "j < length (pr_cells (rows ! i))"
    using Cons.prems(4) by (auto simp: ij in_rows_def)
  from cull_cell_step [OF step Cons.prems(2,3) r]
  have b: "rows_below mid rows" and ack: "pd_local_frame_late_acked q = pd_local_frame_late_acked p"
    and v: "cell_validity F fb (pr_row_num (rows ! i)) (pd_local_frame_late_acked p) (pr_cells (mid ! i) ! j)
      \<in> {Pending, Inactive}" by simp_all
  have mid: "rows_typed mid" by (rule rows_below_typed [OF b])
  have same: "in_rows mid = in_rows rows" using in_rows_below [OF b] by blast
  with Cons.prems(4) have "list_all (in_rows mid) ijs" by simp
  note ih = Cons.IH [OF rest mid Cons.prems(3) this, unfolded ack]
  have "settled F fb (pd_local_frame_late_acked p) rows' ij"
  proof (rule settled_below)
    show "rows_below rows' mid" using ih by simp
    show "in_rows mid ij" using same Cons.prems(4) by simp
    have "pr_row_num (mid ! i) = pr_row_num (rows ! i)"
      using b r rows_below_nth [of mid rows i j] rows_below_length [of mid rows] by auto
    then show "settled F fb (pd_local_frame_late_acked p) mid ij"
      using v by (simp add: settled_def ij)
  qed
  moreover have "rows_below rows' rows" using b ih rows_below_trans by blast
  moreover have "epoch_moves F fb (pd_local_frame_late_acked p) rows (pd_confirmed_epoch p) (pd_confirmed_epoch p')"
    using epoch_moves_trans [OF cull_cell_epoch [OF step Cons.prems(2,3) r] _ b] ih by simp
  ultimately show ?case using ih by simp
qed

text \<open>An early return still tells which prediction moved the confirmed epoch.\<close>

lemma cull_loop_Inl:
  assumes "cull_loop F fb now ijs (p, rows) = Inl p'"
    and "rows_typed rows" "frame_shape F fb" "list_all (in_rows rows) ijs"
  shows "pd_overlays p' = [] \<and> pd_cursors p' = [] \<and>
    epoch_moves F fb (pd_local_frame_late_acked p) rows (pd_confirmed_epoch p) (pd_confirmed_epoch p')"
  using assms
proof (induction ijs arbitrary: p rows)
  case (Cons ij ijs)
  obtain i j where ij: "ij = (i, j)" by fastforce
  show ?case
  proof (cases "cull_cell F fb now ij (p, rows)")
    case None
    with Cons.prems(1) show ?thesis
      by (auto simp: predictor_reset_def become_tentative_def epoch_moves_refl)
  next
    case (Some m)
    obtain q mid where m: "m = (q, mid)" by fastforce
    have r: "i < length rows" "j < length (pr_cells (rows ! i))"
      using Cons.prems(4) by (auto simp: ij in_rows_def)
    note step = Some [unfolded m ij]
    from cull_cell_step [OF step Cons.prems(2,3) r]
    have b: "rows_below mid rows" and ack: "pd_local_frame_late_acked q = pd_local_frame_late_acked p"
      by simp_all
    have "in_rows mid = in_rows rows" using in_rows_below [OF b] by blast
    with Cons.prems(4) have inr: "list_all (in_rows mid) ijs" by simp
    have "cull_loop F fb now ijs (q, mid) = Inl p'" using Cons.prems(1) Some m by simp
    note ih = Cons.IH [OF this rows_below_typed [OF b] Cons.prems(3) inr, unfolded ack]
    have "epoch_moves F fb (pd_local_frame_late_acked p) rows (pd_confirmed_epoch p) (pd_confirmed_epoch p')"
      using epoch_moves_trans [OF cull_cell_epoch [OF step Cons.prems(2,3) r] _ b] ih by simp
    then show ?thesis using ih by simp
  qed
qed simp

section \<open>The whole reconciliation\<close>

lemma cell_positions_in_rows: "list_all (in_rows rows) (cell_positions rows)"
  by (auto simp: list_all_iff in_rows_def cell_positions_def)

lemma in_rows_cell_positions: "in_rows rows ij \<Longrightarrow> ij \<in> set (cell_positions rows)"
  by (cases ij) (auto simp: in_rows_def cell_positions_def image_iff)

lemma cull_triggers_simps [simp]:
  "pd_overlays (cull_triggers p) = pd_overlays p" "pd_cursors (cull_triggers p) = pd_cursors p"
  "pd_confirmed_epoch (cull_triggers p) = pd_confirmed_epoch p"
  "pd_prediction_epoch (cull_triggers p) = pd_prediction_epoch p"
  "pd_local_frame_late_acked (cull_triggers p) = pd_local_frame_late_acked p"
  "pd_local_frame_sent (cull_triggers p) = pd_local_frame_sent p"
  "pd_last_width (cull_triggers p) = pd_last_width p"
  "pd_last_height (cull_triggers p) = pd_last_height p"
  "pd_display_preference (cull_triggers p) = pd_display_preference p"
  by (simp_all add: cull_triggers_def Let_def)

lemma predictor_reset_simps [simp]:
  "pd_overlays (predictor_reset p) = []" "pd_cursors (predictor_reset p) = []"
  "pd_confirmed_epoch (predictor_reset p) = pd_confirmed_epoch p"
  "pd_prediction_epoch (predictor_reset p) = pd_prediction_epoch p + 1"
  "pd_local_frame_late_acked (predictor_reset p) = pd_local_frame_late_acked p"
  "pd_last_width (predictor_reset p) = pd_last_width p"
  "pd_last_height (predictor_reset p) = pd_last_height p"
  "pd_display_preference (predictor_reset p) = pd_display_preference p"
  by (simp_all add: predictor_reset_def become_tentative_def)

lemma cull_geometry_simps [simp]:
  "pd_confirmed_epoch (cull_geometry F fb p) = pd_confirmed_epoch p"
  "pd_local_frame_late_acked (cull_geometry F fb p) = pd_local_frame_late_acked p"
  "pd_last_width (cull_geometry F fb p) = fs_cols F fb"
  "pd_last_height (cull_geometry F fb p) = fs_rows F fb"
  by (auto simp: cull_geometry_def)

lemma cull_geometry_overlays: "set (pd_overlays (cull_geometry F fb p)) \<subseteq> set (pd_overlays p)"
  by (auto simp: cull_geometry_def)

lemma cull_cursors_simps [simp]:
  "pd_confirmed_epoch (cull_cursors F fb p) = pd_confirmed_epoch p"
  "pd_local_frame_late_acked (cull_cursors F fb p) = pd_local_frame_late_acked p"
  by (simp_all add: cull_cursors_def Let_def)

text \<open>Everything a predictor still predicts is about input the server has not reflected yet.\<close>

definition all_pending :: "('f, 'z) frame_lib_scheme \<Rightarrow> 'f \<Rightarrow> 'v predictor \<Rightarrow> bool" where
  "all_pending F fb p \<longleftrightarrow>
     (\<forall>r \<in> set (pd_overlays p). \<forall>c \<in> set (pr_cells r). ba_active (co_base c) \<longrightarrow>
        pd_local_frame_late_acked p < ba_expiration_frame (co_base c) \<and>
        pr_row_num r < fs_rows F fb \<and> ba_col (co_base c) < fs_cols F fb) \<and>
     (\<forall>c \<in> set (pd_cursors p). pd_local_frame_late_acked p < ba_expiration_frame (cu_base c) \<and>
        cu_row c < fs_rows F fb \<and> cu_col c < fs_cols F fb)"

lemma cell_validity_PendingD:
  "cell_validity F fb row ack c = Pending \<Longrightarrow>
   ack < ba_expiration_frame (co_base c) \<and> row < fs_rows F fb \<and> ba_col (co_base c) < fs_cols F fb"
  by (auto simp: cell_validity_def Let_def not_le split: if_splits)

lemma cursor_validity_PendingD:
  "cursor_validity F fb ack c = Pending \<Longrightarrow>
   ack < ba_expiration_frame (cu_base c) \<and> cu_row c < fs_rows F fb \<and> cu_col c < fs_cols F fb"
  by (auto simp: cursor_validity_def not_le split: if_splits)

lemma all_settled_pending:
  assumes "list_all (settled F fb ack rows) (cell_positions rows)"
    and "r \<in> set rows" "c \<in> set (pr_cells r)" "ba_active (co_base c)"
  shows "ack < ba_expiration_frame (co_base c) \<and> pr_row_num r < fs_rows F fb \<and>
    ba_col (co_base c) < fs_cols F fb"
proof -
  obtain i j where ij: "i < length rows" "r = rows ! i" "j < length (pr_cells r)" "c = pr_cells r ! j"
    using assms(2,3) by (metis in_set_conv_nth)
  then have "(i, j) \<in> set (cell_positions rows)"
    by (intro in_rows_cell_positions) (simp add: in_rows_def)
  with assms(1) ij have "cell_validity F fb (pr_row_num r) ack c \<in> {Pending, Inactive}"
    by (auto simp: list_all_iff settled_def)
  with assms(4) have "cell_validity F fb (pr_row_num r) ack c = Pending"
    using cell_validity_Inactive [of F fb "pr_row_num r" ack c] by simp
  then show ?thesis by (rule cell_validity_PendingD)
qed

lemma epoch_moves_mono:
  "epoch_moves F fb ack rows e e' \<Longrightarrow> set rows \<subseteq> set rows' \<Longrightarrow> epoch_moves F fb ack rows' e e'"
  by (auto simp: epoch_moves_def confirmed_by_def)

lemma cell_positions_below: "rows_below rows' rows \<Longrightarrow> cell_positions rows' = cell_positions rows"
  unfolding cell_positions_def
  using rows_below_length [of rows' rows] by (intro arg_cong [where f = concat] map_cong) auto

lemma cull_spec:
  assumes pref: "pd_display_preference p \<noteq> Never"
    and shape: "frame_shape F fb" and typed: "rows_typed (pd_overlays p)"
  shows "all_pending F fb (cull F fb now p) \<and> rows_typed (pd_overlays (cull F fb now p)) \<and>
    epoch_moves F fb (pd_local_frame_late_acked p) (pd_overlays p) (pd_confirmed_epoch p)
      (pd_confirmed_epoch (cull F fb now p))"
proof -
  let ?p = "cull_triggers (cull_geometry F fb p)"
  let ?rows = "filter (\<lambda>r. pr_row_num r < fs_rows F fb) (pd_overlays ?p)"
  have sub: "set ?rows \<subseteq> set (pd_overlays p)" using cull_geometry_overlays [of F fb p] by auto
  then have typed': "rows_typed ?rows" using typed by (auto simp: rows_typed_def)
  note pos = cell_positions_in_rows [of ?rows]
  show ?thesis
  proof (cases "cull_loop F fb now (cell_positions ?rows) (?p\<lparr>pd_overlays := []\<rparr>, ?rows)")
    case (Inl q)
    note l = cull_loop_Inl [OF Inl typed' shape pos]
    have "cull F fb now p = q" using pref Inl by (simp add: cull_def Let_def)
    with l epoch_moves_mono [OF conjunct2 [OF conjunct2 [OF l]] sub] show ?thesis
      by (simp add: all_pending_def rows_typed_def)
  next
    case (Inr res)
    obtain q rows' where res: "res = (q, rows')" by fastforce
    note l = cull_loop_Inr [OF Inr [unfolded res] typed' shape pos]
    have c: "cull F fb now p = cull_cursors F fb (q\<lparr>pd_overlays := rows'\<rparr>)"
      using pref Inr res by (simp add: cull_def Let_def)
    have ov: "pd_overlays (cull F fb now p) = rows' \<or> pd_overlays (cull F fb now p) = []"
      by (auto simp: c cull_cursors_def Let_def)
    have set': "list_all (settled F fb (pd_local_frame_late_acked p) rows') (cell_positions rows')"
      using l cell_positions_below by fastforce
    have "all_pending F fb (cull F fb now p)"
      unfolding all_pending_def
    proof (intro conjI ballI impI)
      fix cu assume "cu \<in> set (pd_cursors (cull F fb now p))"
      then have "cursor_validity F fb (pd_local_frame_late_acked (cull F fb now p)) cu = Pending"
        by (auto simp: c cull_cursors_def Let_def split: if_splits)
      then show "pd_local_frame_late_acked (cull F fb now p) < ba_expiration_frame (cu_base cu)"
        "cu_row cu < fs_rows F fb" "cu_col cu < fs_cols F fb"
        by (auto dest: cursor_validity_PendingD)
    next
      fix r ce assume rc: "r \<in> set (pd_overlays (cull F fb now p))" "ce \<in> set (pr_cells r)" "ba_active (co_base ce)"
      then have "r \<in> set rows'" using ov by auto
      from all_settled_pending [OF set' this rc(2,3)] l
      show "pd_local_frame_late_acked (cull F fb now p) < ba_expiration_frame (co_base ce)"
        "pr_row_num r < fs_rows F fb" "ba_col (co_base ce) < fs_cols F fb"
        by (auto simp: c)
    qed
    moreover have "rows_typed (pd_overlays (cull F fb now p))"
      using ov l rows_below_typed [of rows' ?rows] by (auto simp: rows_typed_def)
    ultimately show ?thesis
      using epoch_moves_mono [OF conjunct2 [OF conjunct2 [OF conjunct2 [OF l]]] sub] by (simp add: c)
  qed
qed

section \<open>Properties\<close>

text \<open>After reconciling with a confirmed frame nothing stale is left: every prediction that remains,
  of a cell or of the cursor, is about input the server has not reflected yet and lies inside the
  frame. Acknowledged predictions have been confirmed or dropped.\<close>

theorem cull_leaves_outstanding:
  assumes "pd_display_preference p \<noteq> Never" "frame_shape F fb" "rows_typed (pd_overlays p)"
  shows "all_pending F fb (cull F fb now p)"
  using cull_spec [OF assms] by blast

text \<open>C23: The confirmed epoch, which decides what may be displayed, never goes back, and it moves only
  on evidence: to the epoch of a cell prediction that is acknowledged, not blank, not a repetition
  of what was there before, and equal to what the server's frame shows in that cell.\<close>

theorem cull_confirms_on_evidence:
  assumes "pd_display_preference p \<noteq> Never" "frame_shape F fb" "rows_typed (pd_overlays p)"
  shows "pd_confirmed_epoch (cull F fb now p) = pd_confirmed_epoch p \<or>
    pd_confirmed_epoch p < pd_confirmed_epoch (cull F fb now p) \<and>
    (\<exists>r \<in> set (pd_overlays p). \<exists>c \<in> set (pr_cells r).
       let t = cell_text (co_replacement c) in
       ba_active (co_base c) \<and> \<not> co_unknown c \<and> \<not> is_blank t \<and>
       ba_expiration_frame (co_base c) \<le> pd_local_frame_late_acked p \<and>
       contents_match (fs_cell_content F fb (pr_row_num r) (ba_col (co_base c))) t \<and>
       (\<forall>old \<in> set (co_original c). \<not> contents_match old t) \<and>
       pd_confirmed_epoch (cull F fb now p) = ba_tentative_until_epoch (co_base c))"
proof -
  have correct: "let t = cell_text (co_replacement c) in
      ba_active (co_base c) \<and> \<not> co_unknown c \<and> \<not> is_blank t \<and>
      ba_expiration_frame (co_base c) \<le> ack \<and> contents_match (fs_cell_content F fb row (ba_col (co_base c))) t \<and>
      (\<forall>old \<in> set (co_original c). \<not> contents_match old t)"
    if "cell_validity F fb row ack c = Correct" for row ack c
    using that by (auto simp: cell_validity_def Let_def not_less list_ex_iff split: if_splits)
  have "epoch_moves F fb (pd_local_frame_late_acked p) (pd_overlays p) (pd_confirmed_epoch p)
      (pd_confirmed_epoch (cull F fb now p))"
    using cull_spec [OF assms] by blast
  then show ?thesis unfolding epoch_moves_def confirmed_by_def
    using correct by (fastforce simp: Let_def)
qed

end
