(* ===== verification/Predict_Gate.thy ===== *)
theory Predict_Gate
  imports Predict_Cull
begin

text \<open>
  Conservative display (\<open>crates/quosh-predict/src/lib.rs\<close>). A prediction made in an epoch is
  shown only once that epoch is confirmed. \<open>gate e n\<close> says that every active prediction belongs
  to an epoch above \<open>e\<close> and that the epoch counter stays above \<open>e\<close> for \<open>n\<close> more increments; all
  operations keep it, so while the confirmed epoch stays at \<open>e\<close> nothing is displayed. The second
  invariant, \<open>pred_wf\<close>, says that the vectors of cells have the width of the display and every cell
  knows its column, so no index of the handlers is out of range.
\<close>

section \<open>The gate\<close>

definition cells_above :: "u64 \<Rightarrow> cell_overlay list \<Rightarrow> bool" where
  "cells_above e cells \<longleftrightarrow> (\<forall>c \<in> set cells. ba_active (co_base c) \<longrightarrow> e < ba_tentative_until_epoch (co_base c))"

definition rows_above :: "u64 \<Rightarrow> prow list \<Rightarrow> bool" where
  "rows_above e rows \<longleftrightarrow> (\<forall>r \<in> set rows. cells_above e (pr_cells r))"

definition cursors_above :: "u64 \<Rightarrow> cursor_overlay list \<Rightarrow> bool" where
  "cursors_above e cs \<longleftrightarrow>
     (\<forall>c \<in> set cs. ba_active (cu_base c) \<longrightarrow> e < ba_tentative_until_epoch (cu_base c))"

definition room :: "u64 \<Rightarrow> nat \<Rightarrow> u64 \<Rightarrow> bool" where
  "room e n ep \<longleftrightarrow> e < ep \<and> unat ep + n < 18446744073709551616"

definition gate :: "u64 \<Rightarrow> nat \<Rightarrow> 'v predictor \<Rightarrow> bool" where
  "gate e n p \<longleftrightarrow> rows_above e (pd_overlays p) \<and> cursors_above e (pd_cursors p) \<and>
     room e n (pd_prediction_epoch p)"

lemma room_Suc: "room e (Suc n) ep \<Longrightarrow> room e n (ep + 1)"
proof -
  assume r: "room e (Suc n) ep"
  then have "unat (ep + 1) = Suc (unat ep)"
    by (intro unat_plus_one_no_wrap) (simp add: room_def)
  with r show ?thesis by (simp add: room_def word_less_nat_alt)
qed

lemma room_mono: "room e n ep \<Longrightarrow> m \<le> n \<Longrightarrow> room e m ep"
  by (simp add: room_def)

lemma gate_mono: "gate e n p \<Longrightarrow> m \<le> n \<Longrightarrow> gate e m p"
  by (auto simp: gate_def intro: room_mono)

lemma gate_tentative: "gate e (Suc n) p \<Longrightarrow> gate e n (become_tentative p)"
  by (simp add: gate_def become_tentative_def room_Suc)

lemma gate_reset: "gate e (Suc n) p \<Longrightarrow> gate e n (predictor_reset p)"
  by (simp add: gate_def rows_above_def cursors_above_def room_Suc)

lemma gate_init_cursor: "gate e n p \<Longrightarrow> gate e n (init_cursor F fb p)"
  by (auto simp: gate_def init_cursor_def cursors_above_def new_cursor_def room_def Let_def)

lemma init_cursor_nonempty [simp]: "pd_cursors (init_cursor F fb p) \<noteq> []"
  by (simp add: init_cursor_def Let_def)

lemma upd_cursor_simps [simp]:
  "pd_overlays (upd_cursor f p) = pd_overlays p" "pd_cursors (upd_cursor f p) \<noteq> []"
  "pd_prediction_epoch (upd_cursor f p) = pd_prediction_epoch p"
  "pd_confirmed_epoch (upd_cursor f p) = pd_confirmed_epoch p"
  "pd_last_width (upd_cursor f p) = pd_last_width p"
  "pd_last_height (upd_cursor f p) = pd_last_height p"
  "pd_display_preference (upd_cursor f p) = pd_display_preference p"
  by (simp_all add: upd_cursor_def)

lemma become_tentative_simps [simp]:
  "pd_overlays (become_tentative p) = pd_overlays p" "pd_cursors (become_tentative p) = pd_cursors p"
  "pd_prediction_epoch (become_tentative p) = pd_prediction_epoch p + 1"
  "pd_confirmed_epoch (become_tentative p) = pd_confirmed_epoch p"
  "pd_last_width (become_tentative p) = pd_last_width p"
  "pd_last_height (become_tentative p) = pd_last_height p"
  "pd_display_preference (become_tentative p) = pd_display_preference p"
  by (simp_all add: become_tentative_def)

lemma init_cursor_simps [simp]:
  "pd_overlays (init_cursor F fb p) = pd_overlays p"
  "pd_prediction_epoch (init_cursor F fb p) = pd_prediction_epoch p"
  "pd_confirmed_epoch (init_cursor F fb p) = pd_confirmed_epoch p"
  "pd_last_width (init_cursor F fb p) = pd_last_width p"
  "pd_last_height (init_cursor F fb p) = pd_last_height p"
  "pd_display_preference (init_cursor F fb p) = pd_display_preference p"
  by (simp_all add: init_cursor_def Let_def)

text \<open>Updates of a cursor that keep whether and in which epoch it is active.\<close>

definition keeps_epoch :: "(cursor_overlay \<Rightarrow> cursor_overlay) \<Rightarrow> bool" where
  "keeps_epoch f \<longleftrightarrow> (\<forall>c. ba_active (cu_base (f c)) = ba_active (cu_base c) \<and>
     ba_tentative_until_epoch (cu_base (f c)) = ba_tentative_until_epoch (cu_base c))"

lemma gate_upd_cursor:
  assumes "gate e n p" "pd_cursors p \<noteq> []" "keeps_epoch f"
  shows "gate e n (upd_cursor f p)"
proof -
  have "last (pd_cursors p) \<in> set (pd_cursors p)" using assms(2) by simp
  with assms show ?thesis
    by (auto simp: gate_def upd_cursor_def cursors_above_def keeps_epoch_def dest: in_set_butlastD)
qed

lemma keeps_epoch_updates [simp]:
  "keeps_epoch (\<lambda>c. c\<lparr>cu_col := a\<rparr>)" "keeps_epoch (\<lambda>c. c\<lparr>cu_row := g c\<rparr>)"
  "keeps_epoch (\<lambda>c. c\<lparr>cu_col := g c\<rparr>)"
  "keeps_epoch (\<lambda>c. c\<lparr>cu_base := base_expire ef now (cu_base c)\<rparr>)"
  "keeps_epoch (\<lambda>c. c\<lparr>cu_col := g c, cu_base := base_expire ef now (cu_base c)\<rparr>)"
  by (simp_all add: keeps_epoch_def base_expire_def)

section \<open>Cells and rows\<close>

lemma claim_cell_base:
  "ba_active (co_base (claim_cell ef epoch now t c))"
  "ba_tentative_until_epoch (co_base (claim_cell ef epoch now t c)) = epoch"
  "ba_col (co_base (claim_cell ef epoch now t c)) = ba_col (co_base c)"
  "co_replacement (claim_cell ef epoch now t c) = co_replacement c"
  by (simp_all add: claim_cell_def base_expire_def cell_reset_with_orig_def cell_reset_def
      base_reset_def Let_def)

lemma take_neighbour_base [simp]: "co_base (take_neighbour n actual c) = co_base c"
  by (simp add: take_neighbour_def)

lemma cells_above_update:
  assumes "cells_above e cells" "ba_tentative_until_epoch (co_base c) > e"
  shows "cells_above e (cells[i := c])"
  using assms set_update_subset_insert [of cells i c] by (auto simp: cells_above_def)

lemma backspace_cell_above:
  "e < epoch \<Longrightarrow> cells_above e cells \<Longrightarrow> cells_above e (backspace_cell F fb row w ef epoch now i cells)"
  by (simp add: backspace_cell_def Let_def cells_above_update claim_cell_base)

lemma insert_cell_above:
  "e < epoch \<Longrightarrow> cells_above e cells \<Longrightarrow> cells_above e (insert_cell F fb row w ef epoch now i cells)"
  by (simp add: insert_cell_def Let_def cells_above_update claim_cell_base)

lemma type_cell_above:
  "e < epoch \<Longrightarrow> cells_above e cells \<Longrightarrow> cells_above e (type_cell F fb row col ch ef epoch now cells)"
  by (simp add: type_cell_def Let_def cells_above_update claim_cell_base)

lemma fold_preserves:
  assumes "\<And>x s. P s \<Longrightarrow> P (f x s)" "P s"
  shows "P (fold f xs s)"
  using assms(2) by (induction xs arbitrary: s) (simp_all add: assms(1))

lemma takeWhile_stops: "list_ex (\<lambda>x. \<not> P x) xs \<Longrightarrow> length (takeWhile P xs) < length xs"
  by (induction xs) auto

lemma get_or_make_row_above:
  assumes "rows_above e rows" "get_or_make_row row_num cols epoch rows = (rows', k)"
  shows "rows_above e rows' \<and> k < length rows'"
proof (cases "list_ex (\<lambda>r. pr_row_num r = row_num) rows")
  case True
  then have "length (takeWhile (\<lambda>r. pr_row_num r \<noteq> row_num) rows) < length rows"
    by (intro takeWhile_stops) simp
  with True assms show ?thesis by (auto simp: get_or_make_row_def)
next
  case False
  with assms show ?thesis
    by (auto simp: get_or_make_row_def rows_above_def cells_above_def base_new_def)
qed

lemma rows_above_upd_row:
  assumes "rows_above e rows" "k < length rows" "\<And>cells. cells_above e cells \<Longrightarrow> cells_above e (f cells)"
  shows "rows_above e (upd_row k f rows)"
proof -
  have "cells_above e (f (pr_cells (rows ! k)))" using assms by (simp add: rows_above_def)
  with assms(1) set_update_subset_insert [of rows k] show ?thesis
    by (fastforce simp: rows_above_def upd_row_def)
qed

section \<open>Keystrokes keep the gate\<close>

lemma gate_overlays:
  "gate e n p \<Longrightarrow> rows_above e rows \<Longrightarrow> gate e n (p\<lparr>pd_overlays := rows\<rparr>)"
  by (simp add: gate_def)

lemma gate_epoch: "gate e n p \<Longrightarrow> e < pd_prediction_epoch p"
  by (simp add: gate_def room_def)

lemma gate_backspace:
  assumes g: "gate e (Suc n) p" and ne: "pd_cursors p \<noteq> []"
  shows "gate e n (backspace F fb now p)"
proof -
  have ep: "e < pd_prediction_epoch p" by (rule gate_epoch [OF g])
  have g0: "gate e n p" by (rule gate_mono [OF g]) simp
  obtain rows k where rk: "get_or_make_row (cu_row (pd_cursor p)) (fs_cols F fb) (pd_prediction_epoch p)
      (pd_overlays p) = (rows, k)" by fastforce
  have above: "rows_above e rows" "k < length rows"
    using get_or_make_row_above [OF _ rk] g by (auto simp: gate_def)
  have up: "gate e n (upd_cursor (\<lambda>c. c\<lparr>cu_col := x, cu_base := base_expire ef now (cu_base c)\<rparr>) p)" for x ef
    by (intro gate_upd_cursor g0 ne keeps_epoch_updates)
  show ?thesis
    using g0 gate_tentative [OF g] above ep
    by (auto simp: backspace_def Let_def rk claim_cell_base
        intro!: gate_overlays up rows_above_upd_row cells_above_update fold_preserves [where P = "cells_above e"]
          backspace_cell_above)
qed

lemma gate_newline:
  assumes g: "gate e (Suc n) p"
  shows "gate e n (newline_carriage_return F fb now p)"
proof -
  let ?q = "upd_cursor (\<lambda>c. c\<lparr>cu_col := 0\<rparr>) (init_cursor F fb p)"
  have gq: "gate e (Suc n) ?q" by (intro gate_upd_cursor gate_init_cursor g) simp_all
  have g0: "gate e n ?q" by (rule gate_mono [OF gq]) simp
  have ep: "e < pd_prediction_epoch p" by (rule gate_epoch [OF g])
  obtain rows k where rk: "get_or_make_row (cu_row (pd_cursor ?q)) (fs_cols F fb) (pd_prediction_epoch p)
      (pd_overlays p) = (rows, k)" by fastforce
  have above: "rows_above e rows" "k < length rows"
    using get_or_make_row_above [OF _ rk] g by (auto simp: gate_def)
  have "cells_above e (map (\<lambda>c. c\<lparr>co_base := base_expire ef now
      ((co_base c)\<lparr>ba_active := True, ba_tentative_until_epoch := pd_prediction_epoch p\<rparr>),
      co_replacement := make_blank_cell (co_replacement c)\<rparr>) cells)" for cells ef
    using ep by (simp add: cells_above_def base_expire_def)
  then show ?thesis
    using g0 gate_tentative [OF gq] above rk
    by (auto simp: newline_carriage_return_def Let_def
        intro!: gate_overlays rows_above_upd_row gate_upd_cursor)
qed

lemma gate_predict_char:
  assumes g: "gate e (Suc (Suc (Suc n))) p" and ne: "pd_cursors p \<noteq> []"
  shows "gate e n (predict_char F ch fb now p)"
proof -
  let ?p = "if unat (cu_col (pd_cursor p)) + 1 \<ge> unat (fs_cols F fb) then become_tentative p else p"
  have g2: "gate e (Suc (Suc n)) ?p"
    using gate_tentative [of e "Suc (Suc n)" p] g gate_mono [OF g, of "Suc (Suc n)"] by simp
  have ep: "e < pd_prediction_epoch ?p" by (rule gate_epoch [OF g2])
  obtain rows k where rk: "get_or_make_row (cu_row (pd_cursor p)) (fs_cols F fb) (pd_prediction_epoch p)
      (pd_overlays ?p) = (rows, k)" by fastforce
  have above: "rows_above e rows" "k < length rows"
    using get_or_make_row_above [OF _ rk] g by (auto simp: gate_def)
  let ?row = "cu_row (pd_cursor p)" and ?col = "cu_col (pd_cursor p)" and ?ef = "pd_local_frame_sent p + 1"
  let ?rm = "if pd_predict_overwrite p then ?col else fs_cols F fb - 1"
  let ?rows = "upd_row k (\<lambda>cells. type_cell F fb ?row ?col ch ?ef (pd_prediction_epoch ?p) now
      (fold (insert_cell F fb ?row (unat (fs_cols F fb)) ?ef (pd_prediction_epoch ?p) now)
        (rev [unat ?col + 1..<unat ?rm + 1]) cells)) rows"
  have "rows_above e ?rows"
    by (intro rows_above_upd_row above type_cell_above fold_preserves [where P = "cells_above e"]
        insert_cell_above ep)
  then have "gate e (Suc (Suc n)) (?p\<lparr>pd_overlays := ?rows\<rparr>)" by (rule gate_overlays [OF g2])
  then have gq: "gate e (Suc (Suc n)) (upd_cursor (\<lambda>c. c\<lparr>cu_base := base_expire ?ef now (cu_base c)\<rparr>)
      (?p\<lparr>pd_overlays := ?rows\<rparr>))" (is "gate _ _ ?q")
    by (rule gate_upd_cursor) (use ne in simp_all)
  have finish: "gate e n (if b then upd_cursor (\<lambda>c. c\<lparr>cu_col := cu_col c + 1\<rparr>) q
      else newline_carriage_return F fb now (become_tentative q))"
    if "gate e (Suc (Suc n)) q" "pd_cursors q \<noteq> []" for b and q :: "'a predictor"
    using gate_newline [OF gate_tentative [OF that(1)], of F fb now]
      gate_upd_cursor [OF gate_mono [OF that(1), of n] that(2)] by simp
  have fin: "gate e n (if ?col < fs_cols F fb - 1 then upd_cursor (\<lambda>c. c\<lparr>cu_col := cu_col c + 1\<rparr>) ?q
      else newline_carriage_return F fb now (become_tentative ?q))"
    by (rule finish [OF gq]) simp
  have "gate e n p" "gate e n (become_tentative p)"
    using gate_mono [OF g, of n] gate_tentative [of e n p] gate_mono [OF g, of "Suc n"] by simp_all
  with fin show ?thesis
    unfolding predict_char_def Let_def rk [unfolded become_tentative_simps]
    by (simp add: rk Let_def)
qed

lemma gate_handle_act:
  assumes g: "gate e (Suc (Suc (Suc n))) p"
  shows "gate e n (handle_act F fb now a p)"
proof -
  have i: "gate e (Suc (Suc (Suc n))) (init_cursor F fb p)" by (rule gate_init_cursor [OF g])
  have t: "gate e n (become_tentative p)" by (rule gate_tentative [OF gate_mono [OF g]]) simp
  have cur: "gate e n (cursor_right F fb now p)" "gate e n (cursor_left F fb now p)"
    using gate_mono [OF i, of n] by (auto simp: cursor_right_def cursor_left_def Let_def intro!: gate_upd_cursor)
  show ?thesis
  proof (cases a)
    case (Print ch)
    have "gate e n (backspace F fb now (init_cursor F fb p))"
      by (rule gate_backspace [OF gate_mono [OF i]]) simp_all
    moreover have "gate e n (predict_char F ch fb now (init_cursor F fb p))"
      by (rule gate_predict_char [OF i]) simp
    moreover have "gate e n (become_tentative (init_cursor F fb p))"
      by (rule gate_tentative [OF gate_mono [OF i]]) simp
    ultimately show ?thesis by (simp add: Print handle_print_def Let_def)
  next
    case (Execute b)
    have "gate e (Suc n) (become_tentative p)" by (rule gate_tentative [OF gate_mono [OF g]]) simp
    from gate_newline [OF this, of F fb now] t show ?thesis by (simp add: Execute)
  next
    case (Csi c)
    with cur t show ?thesis by simp
  next
    case Esc
    with t show ?thesis by simp
  qed
qed

lemma gate_acts:
  "gate e (n + 3 * length acts) p \<Longrightarrow> gate e n (fold (handle_act F fb now) acts p)"
proof (induction acts arbitrary: p)
  case (Cons a acts)
  have "gate e (n + 3 * length acts) (handle_act F fb now a p)"
    by (rule gate_handle_act) (use Cons.prems in \<open>simp add: algebra_simps numeral_3_eq_3\<close>)
  with Cons.IH show ?case by simp
qed simp

section \<open>Reconciliation keeps the gate\<close>

definition total_cells :: "prow list \<Rightarrow> nat" where
  "total_cells rows = sum_list (map (\<lambda>r. length (pr_cells r)) rows)"

lemma gate_kill_epoch:
  assumes "gate e (Suc n) p" "rows_above e rows" "kill_epoch F ep fb (p, rows) = (p', rows')"
  shows "gate e n p' \<and> rows_above e rows'"
proof -
  have "gate e (Suc n) (p\<lparr>pd_cursors := filter (\<lambda>c. \<not> base_tentative (sat_sub ep 1) (cu_base c)) (pd_cursors p) @
      [new_cursor (pd_local_frame_sent p + 1) (pd_prediction_epoch p) (fs_cursor_row F fb) (fs_cursor_col F fb)]\<rparr>)"
    using assms(1) by (auto simp: gate_def cursors_above_def new_cursor_def room_def)
  from gate_tentative [OF this] assms(2,3) show ?thesis
    by (auto simp: kill_epoch_def Let_def rows_above_def cells_above_def cell_reset_def base_reset_def)
qed

lemma rows_above_below: "rows_above e rows \<Longrightarrow> rows_below rows' rows \<Longrightarrow> rows_above e rows'"
proof (unfold rows_above_def cells_above_def, intro ballI impI)
  fix r c
  assume "\<forall>r \<in> set rows. \<forall>c \<in> set (pr_cells r). ba_active (co_base c) \<longrightarrow> e < ba_tentative_until_epoch (co_base c)"
    and b: "rows_below rows' rows" and "r \<in> set rows'" "c \<in> set (pr_cells r)" "ba_active (co_base c)"
  then obtain i j where ij: "i < length rows'" "r = rows' ! i" "j < length (pr_cells r)" "c = pr_cells r ! j"
    by (metis in_set_conv_nth)
  then have "pr_cells (rows ! i) ! j \<in> set (pr_cells (rows ! i))" "rows ! i \<in> set rows"
    using rows_below_length [OF b] by auto
  moreover have "below c (pr_cells (rows ! i) ! j)" using rows_below_nth [OF b, of i j] ij by simp
  moreover note \<open>ba_active (co_base c)\<close> \<open>\<forall>r \<in> set rows. _ r\<close>
  ultimately show "e < ba_tentative_until_epoch (co_base c)" by (auto simp: below_def)
qed

lemma gate_cull_cell:
  assumes step: "cull_cell F fb now (ri, ci) (p, rows) = Some (p', rows')"
    and g: "gate e (Suc n) p" "rows_above e rows" and typed: "rows_typed rows" "frame_shape F fb"
    and r: "ri < length rows" "ci < length (pr_cells (rows ! ri))"
  shows "gate e n p' \<and> rows_above e rows'"
proof -
  have ra: "rows_above e rows'"
    using cull_cell_step [OF step typed r] rows_above_below [OF g(2)] by blast
  have g0: "gate e n p" by (rule gate_mono [OF g(1)]) simp
  have q: "gate e n (quick_confirm now pt p)" "gate e n (note_pending now pt p)"
    "gate e n (quick_confirm now pt (p\<lparr>pd_confirmed_epoch := ep\<rparr>))" for pt ep
    using g0 by (simp_all add: gate_def)
  let ?c = "pr_cells (rows ! ri) ! ci"
  show ?thesis
  proof (cases "cell_validity F fb (pr_row_num (rows ! ri)) (pd_local_frame_late_acked p) ?c")
    case IncorrectOrExpired
    with step have "kill_epoch F (ba_tentative_until_epoch (co_base ?c)) fb (p, rows) = (p', rows')"
      by (auto simp: cull_cell_def Let_def split: if_splits)
    from gate_kill_epoch [OF g this] show ?thesis .
  qed (use step q g0 ra in \<open>auto simp: cull_cell_def Let_def split: if_splits\<close>)
qed

lemma gate_cull_loop:
  assumes "rows_typed rows" "frame_shape F fb" "list_all (in_rows rows) ijs"
    and "gate e (n + length ijs) p" "rows_above e rows"
  shows "case cull_loop F fb now ijs (p, rows) of
      Inl p' \<Rightarrow> \<exists>m. p' = predictor_reset m \<and> gate e n m
    | Inr (p', rows') \<Rightarrow> gate e n p' \<and> rows_above e rows'"
  using assms
proof (induction ijs arbitrary: p rows)
  case (Cons ij ijs)
  obtain i j where ij: "ij = (i, j)" by fastforce
  have r: "i < length rows" "j < length (pr_cells (rows ! i))"
    using Cons.prems(3) by (auto simp: ij in_rows_def)
  show ?case
  proof (cases "cull_cell F fb now ij (p, rows)")
    case None
    then show ?thesis using gate_mono [OF Cons.prems(4), of n] by auto
  next
    case (Some m)
    obtain q mid where m: "m = (q, mid)" by fastforce
    note step = Some [unfolded m ij]
    have g: "gate e (Suc (n + length ijs)) p" using Cons.prems(4) by simp
    have b: "rows_below mid rows" using cull_cell_step [OF step Cons.prems(1,2) r] by simp
    have "list_all (in_rows mid) ijs" using Cons.prems(3) in_rows_below [OF b] by (simp add: list_all_iff)
    with Cons.IH [OF rows_below_typed [OF b] Cons.prems(2)] gate_cull_cell [OF step g Cons.prems(5,1,2) r]
    show ?thesis using Some m by simp
  qed
qed (simp add: gate_mono)

lemma length_cell_positions: "length (cell_positions rows) = total_cells rows"
proof -
  have "map (\<lambda>i. length (pr_cells (rows ! i))) [0..<length rows] = map (\<lambda>r. length (pr_cells r)) rows"
    by (rule nth_equalityI) simp_all
  then show ?thesis
    by (simp only: cell_positions_def total_cells_def length_concat map_map comp_def length_map length_upt diff_zero)
qed

lemma total_cells_filter: "total_cells (filter P rows) \<le> total_cells rows"
  unfolding total_cells_def by (rule sum_list_map_filter_le)

lemma gate_cull:
  assumes g: "gate e (n + total_cells (pd_overlays p) + 2) p"
    and shape: "frame_shape F fb" and typed: "rows_typed (pd_overlays p)"
  shows "gate e n (cull F fb now p)"
proof (cases "pd_display_preference p = Never")
  case True
  then show ?thesis using gate_mono [OF g, of n] by (simp add: cull_def)
next
  case False
  let ?p = "cull_triggers (cull_geometry F fb p)"
  let ?rows = "filter (\<lambda>r. pr_row_num r < fs_rows F fb) (pd_overlays ?p)"
  have geo: "gate e (n + total_cells (pd_overlays (cull_geometry F fb p)) + 1) (cull_geometry F fb p)"
    using gate_mono [OF g, of "n + total_cells (pd_overlays p) + 1"]
      gate_reset [of e "n + 1" "p\<lparr>pd_last_height := fs_rows F fb, pd_last_width := fs_cols F fb\<rparr>"]
      gate_mono [OF g, of "Suc (n + 1)"]
    by (auto simp: cull_geometry_def gate_def total_cells_def)
  then have gp: "gate e (n + total_cells (pd_overlays ?p) + 1) ?p" by (simp add: gate_def)
  have typed': "rows_typed ?rows"
    using typed cull_geometry_overlays [of F fb p] by (auto simp: rows_typed_def)
  have ra: "rows_above e ?rows" using gp by (auto simp: gate_def rows_above_def)
  have gl: "gate e (Suc n + length (cell_positions ?rows)) (?p\<lparr>pd_overlays := []\<rparr>)"
    using gate_mono [OF gp, of "Suc n + length (cell_positions ?rows)"]
      total_cells_filter [of "\<lambda>r. pr_row_num r < fs_rows F fb" "pd_overlays ?p"]
    by (simp add: length_cell_positions gate_def rows_above_def)
  note l = gate_cull_loop [OF typed' shape cell_positions_in_rows gl ra, of now]
  show ?thesis
  proof (cases "cull_loop F fb now (cell_positions ?rows) (?p\<lparr>pd_overlays := []\<rparr>, ?rows)")
    case (Inl q)
    then show ?thesis using l False gate_reset by (auto simp: cull_def Let_def)
  next
    case (Inr res)
    obtain q rows' where res: "res = (q, rows')" by fastforce
    have gq: "gate e (Suc n) (q\<lparr>pd_overlays := rows'\<rparr>)" using l Inr res by (simp add: gate_def)
    have "gate e n (cull_cursors F fb (q\<lparr>pd_overlays := rows'\<rparr>))"
      using gate_reset [OF gq] gate_mono [OF gq, of n]
      by (auto simp: cull_cursors_def Let_def gate_def cursors_above_def)
    then show ?thesis using Inr res False by (simp add: cull_def Let_def)
  qed
qed

section \<open>Nothing unconfirmed is displayed\<close>

lemma gate_apply:
  assumes "gate e n p" "pd_confirmed_epoch p \<le> e"
  shows "predictor_apply F p fb = fb"
proof -
  let ?ce = "pd_confirmed_epoch p"
  have cell: "cell_apply F ?ce row fl c fb = fb"
    if "ba_active (co_base c) \<longrightarrow> e < ba_tentative_until_epoch (co_base c)" for row fl c
    using that assms(2) by (auto simp: cell_apply_def Let_def base_tentative_def)
  have cells: "fold (cell_apply F ?ce row fl) cs fb = fb" if "cells_above e cs" for row fl cs
    using that by (induction cs) (auto simp: cells_above_def cell)
  have rows: "fold (\<lambda>r. fold (cell_apply F ?ce (pr_row_num r) fl) (pr_cells r)) rs fb = fb"
    if "rows_above e rs" for fl rs
    using that by (induction rs) (auto simp: rows_above_def cells)
  have cursors: "fold (cursor_apply F ?ce) cs fb = fb" if "cursors_above e cs" for cs
    using that assms(2) by (induction cs) (auto simp: cursors_above_def cursor_apply_def base_tentative_def)
  show ?thesis using assms(1) rows cursors by (simp add: predictor_apply_def gate_def)
qed

section \<open>Well-formed vectors\<close>

definition cells_wf :: "u16 \<Rightarrow> cell_overlay list \<Rightarrow> bool" where
  "cells_wf w cells \<longleftrightarrow> length cells = unat w \<and>
     (\<forall>i < length cells. ba_col (co_base (cells ! i)) = of_nat i \<and> length (co_replacement (cells ! i)) = 12)"

definition rows_wf :: "u16 \<Rightarrow> prow list \<Rightarrow> bool" where
  "rows_wf w rows \<longleftrightarrow> (\<forall>r \<in> set rows. cells_wf w (pr_cells r))"

definition cursors_wf :: "u16 \<Rightarrow> cursor_overlay list \<Rightarrow> bool" where
  "cursors_wf w cs \<longleftrightarrow> (\<forall>c \<in> set cs. cu_col c \<le> w)"

definition pred_wf :: "'v predictor \<Rightarrow> bool" where
  "pred_wf p \<longleftrightarrow> rows_wf (pd_last_width p) (pd_overlays p) \<and> cursors_wf (pd_last_width p) (pd_cursors p)"

text \<open>A frame as the decoder lets it through.\<close>

definition frame_wf :: "('f, 'z) frame_lib_scheme \<Rightarrow> 'f \<Rightarrow> bool" where
  "frame_wf F fb \<longleftrightarrow> frame_shape F fb \<and> fs_cursor_col F fb \<le> fs_cols F fb"

lemma rows_wf_typed: "rows_wf w rows \<Longrightarrow> rows_typed rows"
  unfolding rows_wf_def cells_wf_def rows_typed_def by (metis in_set_conv_nth)

lemma cells_wf_update:
  assumes "cells_wf w cells"
    and "i < length cells \<Longrightarrow> ba_col (co_base c) = ba_col (co_base (cells ! i)) \<and> length (co_replacement c) = 12"
  shows "cells_wf w (cells[i := c])"
proof -
  have "ba_col (co_base (cells[i := c] ! j)) = of_nat j \<and> length (co_replacement (cells[i := c] ! j)) = 12"
    if "j < length cells" for j
    using assms that by (cases "j = i") (simp_all add: cells_wf_def)
  then show ?thesis using assms(1) by (simp add: cells_wf_def)
qed

lemma cells_wf_nth: "cells_wf w cells \<Longrightarrow> i < length cells \<Longrightarrow> length (co_replacement (cells ! i)) = 12"
  by (simp add: cells_wf_def)

lemma backspace_cell_wf:
  assumes "cells_wf w cells" "frame_shape F fb"
  shows "cells_wf w (backspace_cell F fb row (unat w) ef epoch now i cells)"
proof -
  have "unat w = length cells" using assms(1) by (simp add: cells_wf_def)
  with assms cells_wf_nth [OF assms(1)] show ?thesis
    by (auto simp: backspace_cell_def Let_def take_neighbour_def claim_cell_base intro!: cells_wf_update)
qed

lemma insert_cell_wf:
  assumes "cells_wf w cells" "frame_shape F fb"
  shows "cells_wf w (insert_cell F fb row (unat w) ef epoch now i cells)"
proof -
  have "i < length cells \<Longrightarrow> i - 1 < length cells" by simp
  with assms cells_wf_nth [OF assms(1)] show ?thesis
    by (auto simp: insert_cell_def Let_def take_neighbour_def claim_cell_base intro!: cells_wf_update)
qed

lemma type_cell_wf:
  assumes "cells_wf w cells" "frame_shape F fb"
  shows "cells_wf w (type_cell F fb row col ch ef epoch now cells)"
proof -
  have "unat col < length cells \<Longrightarrow> unat col - 1 < length cells" by simp
  with assms cells_wf_nth [OF assms(1)] show ?thesis
    by (auto simp: type_cell_def Let_def claim_cell_base intro!: cells_wf_update length_make_char_cell)
qed

lemma get_or_make_row_wf:
  assumes "rows_wf w rows" "get_or_make_row row_num w epoch rows = (rows', k)"
  shows "rows_wf w rows' \<and> k < length rows'"
proof (cases "list_ex (\<lambda>r. pr_row_num r = row_num) rows")
  case True
  then have "length (takeWhile (\<lambda>r. pr_row_num r \<noteq> row_num) rows) < length rows"
    by (intro takeWhile_stops) simp
  with True assms show ?thesis by (auto simp: get_or_make_row_def)
next
  case False
  with assms show ?thesis
    by (auto simp: get_or_make_row_def rows_wf_def cells_wf_def base_new_def CELL_SIZE_def)
qed

lemma rows_wf_upd_row:
  assumes "rows_wf w rows" "k < length rows" "\<And>cells. cells_wf w cells \<Longrightarrow> cells_wf w (f cells)"
  shows "rows_wf w (upd_row k f rows)"
proof -
  have "cells_wf w (f (pr_cells (rows ! k)))" using assms by (simp add: rows_wf_def)
  with assms(1) set_update_subset_insert [of rows k] show ?thesis
    by (fastforce simp: rows_wf_def upd_row_def)
qed

lemma cursors_wf_upd:
  assumes "cursors_wf w (pd_cursors p)" "cu_col (f (pd_cursor p)) \<le> w"
  shows "cursors_wf w (pd_cursors (upd_cursor f p))"
  using assms by (auto simp: cursors_wf_def upd_cursor_def pd_cursor_def dest: in_set_butlastD)

lemma cursors_wf_init:
  assumes "cursors_wf (fs_cols F fb) (pd_cursors p)" "frame_wf F fb"
  shows "cursors_wf (fs_cols F fb) (pd_cursors (init_cursor F fb p))"
proof -
  have "pd_cursors p \<noteq> [] \<Longrightarrow> pd_cursor p \<in> set (pd_cursors p)" by (simp add: pd_cursor_def)
  with assms show ?thesis by (auto simp: init_cursor_def Let_def cursors_wf_def new_cursor_def frame_wf_def)
qed

text \<open>The invariant at the width of the display.\<close>

definition wf_at :: "u16 \<Rightarrow> 'v predictor \<Rightarrow> bool" where
  "wf_at w p \<longleftrightarrow> pd_last_width p = w \<and> rows_wf w (pd_overlays p) \<and> cursors_wf w (pd_cursors p)"

lemma wf_at_pred_wf: "wf_at w p \<Longrightarrow> pred_wf p"
  by (simp add: wf_at_def pred_wf_def)

lemma wf_at_tentative: "wf_at w p \<Longrightarrow> wf_at w (become_tentative p)"
  by (simp add: wf_at_def)

lemma wf_at_init: "wf_at (fs_cols F fb) p \<Longrightarrow> frame_wf F fb \<Longrightarrow> wf_at (fs_cols F fb) (init_cursor F fb p)"
  by (simp add: wf_at_def cursors_wf_init)

lemma wf_at_upd: "wf_at w p \<Longrightarrow> cu_col (f (pd_cursor p)) \<le> w \<Longrightarrow> wf_at w (upd_cursor f p)"
  by (simp add: wf_at_def cursors_wf_upd)

lemma wf_at_cursor: "wf_at w p \<Longrightarrow> pd_cursors p \<noteq> [] \<Longrightarrow> cu_col (pd_cursor p) \<le> w"
  by (simp add: wf_at_def cursors_wf_def pd_cursor_def)

lemma wf_at_overlays: "wf_at w p \<Longrightarrow> rows_wf w rows \<Longrightarrow> wf_at w (p\<lparr>pd_overlays := rows\<rparr>)"
  by (simp add: wf_at_def)

lemma pd_cursor_upd [simp]: "pd_cursor (upd_cursor f p) = f (pd_cursor p)"
  by (simp add: pd_cursor_def upd_cursor_def)

lemma pd_cursor_overlays [simp]: "pd_cursor (p\<lparr>pd_overlays := r\<rparr>) = pd_cursor p"
  by (simp add: pd_cursor_def)

lemma pd_cursor_tentative [simp]: "pd_cursor (become_tentative p) = pd_cursor p"
  by (simp add: pd_cursor_def)

lemma word_pred_le: "(a :: u16) \<le> b \<Longrightarrow> a \<noteq> 0 \<Longrightarrow> a - 1 \<le> b"
  by (simp add: word_le_nat_alt unat_minus_one)

lemma wf_at_backspace:
  assumes w: "wf_at (fs_cols F fb) p" and ne: "pd_cursors p \<noteq> []" and shape: "frame_shape F fb"
  shows "wf_at (fs_cols F fb) (backspace F fb now p)"
proof -
  let ?w = "fs_cols F fb"
  obtain rows k where rk: "get_or_make_row (cu_row (pd_cursor p)) ?w (pd_prediction_epoch p)
      (pd_overlays p) = (rows, k)" by fastforce
  have rw: "rows_wf ?w rows" "k < length rows"
    using get_or_make_row_wf [OF _ rk] w by (auto simp: wf_at_def)
  have up: "wf_at ?w (upd_cursor (\<lambda>c. c\<lparr>cu_col := cu_col (pd_cursor p) - 1, cu_base := base_expire ef now (cu_base c)\<rparr>) p)"
    if "cu_col (pd_cursor p) \<noteq> 0" for ef
    by (rule wf_at_upd [OF w]) (use wf_at_cursor [OF w ne] that word_pred_le in simp)
  show ?thesis
    using w wf_at_tentative [OF w] up rw shape
    by (auto simp: backspace_def Let_def rk claim_cell_base
        intro!: wf_at_overlays rows_wf_upd_row cells_wf_update fold_preserves [where P = "cells_wf ?w"]
          backspace_cell_wf)
qed

lemma wf_at_newline:
  assumes w: "wf_at (fs_cols F fb) p" and fw: "frame_wf F fb"
  shows "wf_at (fs_cols F fb) (newline_carriage_return F fb now p)"
proof -
  let ?w = "fs_cols F fb" and ?q = "upd_cursor (\<lambda>c. c\<lparr>cu_col := 0\<rparr>) (init_cursor F fb p)"
  have q: "wf_at ?w ?q" by (intro wf_at_upd wf_at_init w fw) simp
  obtain rows k where rk: "get_or_make_row (cu_row (pd_cursor ?q)) ?w (pd_prediction_epoch p)
      (pd_overlays p) = (rows, k)" by fastforce
  have rw: "rows_wf ?w rows" "k < length rows"
    using get_or_make_row_wf [OF _ rk] w by (auto simp: wf_at_def)
  have "cells_wf ?w (map (\<lambda>c. c\<lparr>co_base := base_expire ef now
      ((co_base c)\<lparr>ba_active := True, ba_tentative_until_epoch := pd_prediction_epoch p\<rparr>),
      co_replacement := make_blank_cell (co_replacement c)\<rparr>) cells)" if "cells_wf ?w cells" for cells ef
    using that by (simp add: cells_wf_def base_expire_def)
  moreover have "wf_at ?w (upd_cursor (\<lambda>c. c\<lparr>cu_row := cu_row c + 1\<rparr>) ?q)"
    by (rule wf_at_upd [OF q]) simp
  ultimately show ?thesis
    using q wf_at_tentative [OF q] rw rk
    by (auto simp: newline_carriage_return_def Let_def intro!: wf_at_overlays rows_wf_upd_row)
qed

lemma wf_at_predict_char:
  assumes w: "wf_at (fs_cols F fb) p" and fw: "frame_wf F fb"
  shows "wf_at (fs_cols F fb) (predict_char F ch fb now p)"
proof (cases "cu_row (pd_cursor p) \<ge> fs_rows F fb \<or> cu_col (pd_cursor p) \<ge> fs_cols F fb")
  case True
  with w show ?thesis by (simp add: predict_char_def)
next
  case False
  let ?w = "fs_cols F fb"
  let ?p = "if unat (cu_col (pd_cursor p)) + 1 \<ge> unat ?w then become_tentative p else p"
  have w2: "wf_at ?w ?p" using w wf_at_tentative by auto
  have shape: "frame_shape F fb" using fw by (simp add: frame_wf_def)
  obtain rows k where rk: "get_or_make_row (cu_row (pd_cursor p)) ?w (pd_prediction_epoch p)
      (pd_overlays ?p) = (rows, k)" by fastforce
  have rw: "rows_wf ?w rows" "k < length rows"
    using get_or_make_row_wf [OF _ rk] w2 by (auto simp: wf_at_def)
  let ?row = "cu_row (pd_cursor p)" and ?col = "cu_col (pd_cursor p)" and ?ef = "pd_local_frame_sent p + 1"
  let ?rm = "if pd_predict_overwrite p then ?col else fs_cols F fb - 1"
  let ?rows = "upd_row k (\<lambda>cells. type_cell F fb ?row ?col ch ?ef (pd_prediction_epoch ?p) now
      (fold (insert_cell F fb ?row (unat (fs_cols F fb)) ?ef (pd_prediction_epoch ?p) now)
        (rev [unat ?col + 1..<unat ?rm + 1]) cells)) rows"
  let ?q = "upd_cursor (\<lambda>c. c\<lparr>cu_base := base_expire ?ef now (cu_base c)\<rparr>) (?p\<lparr>pd_overlays := ?rows\<rparr>)"
  have "rows_wf ?w ?rows"
    by (intro rows_wf_upd_row rw type_cell_wf fold_preserves [where P = "cells_wf ?w"] insert_cell_wf shape)
  moreover have "pd_cursor (?p\<lparr>pd_overlays := rs\<rparr>) = pd_cursor p" for rs by simp
  moreover have "cu_col ((pd_cursor p)\<lparr>cu_base := b\<rparr>) \<le> ?w" for b
    using False by (simp add: not_le less_imp_le)
  ultimately have q: "wf_at ?w ?q"
    by (intro wf_at_upd wf_at_overlays w2) (simp_all only:)
  have nl: "wf_at ?w (newline_carriage_return F fb now (become_tentative ?q))"
    by (intro wf_at_newline wf_at_tentative q fw)
  have cr: "wf_at ?w (upd_cursor (\<lambda>c. c\<lparr>cu_col := cu_col c + 1\<rparr>) ?q)" if "?col < ?w - 1"
    by (rule wf_at_upd [OF q]) (use False in \<open>simp add: not_le inc_le\<close>)
  show ?thesis
    using False wf_at_tentative [OF w] nl cr
    unfolding predict_char_def Let_def rk [unfolded become_tentative_simps]
    by (simp add: rk Let_def)
qed

lemma wf_at_handle_act:
  assumes w: "wf_at (fs_cols F fb) p" and fw: "frame_wf F fb"
  shows "wf_at (fs_cols F fb) (handle_act F fb now a p)"
proof -
  have i: "wf_at (fs_cols F fb) (init_cursor F fb p)" by (rule wf_at_init [OF w fw])
  note t = wf_at_tentative [OF w]
  have shape: "frame_shape F fb" using fw by (simp add: frame_wf_def)
  let ?c = "cu_col (pd_cursor (init_cursor F fb p))"
  have le: "?c \<le> fs_cols F fb" by (rule wf_at_cursor [OF i]) simp
  have "?c + 1 \<le> fs_cols F fb" if "?c < sat_sub (fs_cols F fb) 1"
  proof (rule inc_le)
    show "?c < fs_cols F fb" using that by (simp add: word_less_nat_alt unat_sat_sub)
  qed
  then have cur: "wf_at (fs_cols F fb) (cursor_right F fb now p)" "wf_at (fs_cols F fb) (cursor_left F fb now p)"
    using i le word_pred_le [OF le] by (auto simp: cursor_right_def cursor_left_def Let_def intro!: wf_at_upd)
  show ?thesis
    using cur t wf_at_newline [OF t fw] wf_at_tentative [OF i] wf_at_backspace [OF i _ shape]
      wf_at_predict_char [OF i fw]
    by (cases a) (auto simp: handle_print_def Let_def)
qed

section \<open>Reconciliation keeps the vectors\<close>

lemma rows_wf_below:
  assumes b: "rows_below rows' rows" and w: "rows_wf w rows"
    and col: "\<And>i j. i < length rows' \<Longrightarrow> j < length (pr_cells (rows' ! i)) \<Longrightarrow>
      ba_col (co_base (pr_cells (rows' ! i) ! j)) = ba_col (co_base (pr_cells (rows ! i) ! j))"
  shows "rows_wf w rows'"
  unfolding rows_wf_def
proof
  fix r assume "r \<in> set rows'"
  then obtain i where i: "i < length rows'" "r = rows' ! i" by (metis in_set_conv_nth)
  have "rows ! i \<in> set rows" using i rows_below_length [OF b] by simp
  then have "cells_wf w (pr_cells (rows ! i))" using w by (simp add: rows_wf_def)
  then show "cells_wf w (pr_cells r)"
    using i rows_below_length [OF b] rows_below_nth [OF b i(1)] col [OF i(1)]
    by (simp add: cells_wf_def below_def)
qed

lemma cell_reset_col [simp]: "ba_col (co_base (cell_reset c)) = ba_col (co_base c)"
  by (simp add: cell_reset_def base_reset_def)

lemma confirm_cells_col:
  assumes "ci < length cs" "ba_col (co_base c) = ba_col (co_base (cs ! ci))" "\<And>d. co_base (g d) = co_base d"
    and "j < length cs"
  shows "ba_col (co_base ((take ci cs @ map g (drop ci cs))[ci := cell_reset c] ! j)) = ba_col (co_base (cs ! j))"
  using assms by (cases "j = ci") (auto simp: nth_append)

lemma cull_cellE:
  assumes step: "cull_cell F fb now (ri, ci) (p, rows) = Some (p', rows')" and ci: "ci < length (pr_cells (rows ! ri))"
  obtains (same) "rows' = rows" "p' = p \<or> (\<exists>pt. p' = note_pending now pt p)"
  | (no_credit) "rows' = rows[ri := (rows ! ri)\<lparr>pr_cells :=
        (pr_cells (rows ! ri))[ci := cell_reset (pr_cells (rows ! ri) ! ci)]\<rparr>]" "p' = p"
  | (kill) ep where "(p', rows') = kill_epoch F ep fb (p, rows)"
  | (confirm) g pt ce where "\<And>d. co_base (g d) = co_base d"
      "rows' = rows[ri := (rows ! ri)\<lparr>pr_cells := (take ci (pr_cells (rows ! ri)) @
        map g (drop ci (pr_cells (rows ! ri))))[ci := cell_reset (g (pr_cells (rows ! ri) ! ci))]\<rparr>]"
      "p' = quick_confirm now pt (p\<lparr>pd_confirmed_epoch := ce\<rparr>)"
proof (cases "cell_validity F fb (pr_row_num (rows ! ri)) (pd_local_frame_late_acked p) (pr_cells (rows ! ri) ! ci)")
  case Correct
  let ?c = "pr_cells (rows ! ri) ! ci"
  let ?a = "cell_bytes F fb (pr_row_num (rows ! ri)) (ba_col (co_base ?c))"
  let ?g = "\<lambda>c. c\<lparr>co_replacement := copy_renditions (co_replacement c) ?a\<rparr>"
  show thesis
  proof (rule confirm)
    show "co_base (?g d) = co_base d" for d by simp
    show "rows' = rows[ri := (rows ! ri)\<lparr>pr_cells := (take ci (pr_cells (rows ! ri)) @
        map ?g (drop ci (pr_cells (rows ! ri))))[ci := cell_reset (?g ?c)]\<rparr>]"
      using Correct step ci by (auto simp: cull_cell_def Let_def nth_append)
    show "p' = quick_confirm now (ba_prediction_time (co_base ?c))
        (p\<lparr>pd_confirmed_epoch := max (ba_tentative_until_epoch (co_base ?c)) (pd_confirmed_epoch p)\<rparr>)"
      using Correct step by (auto simp: cull_cell_def Let_def max_def)
  qed
next
  case IncorrectOrExpired
  show thesis
    by (rule kill [of "ba_tentative_until_epoch (co_base (pr_cells (rows ! ri) ! ci))"])
      (use IncorrectOrExpired step in \<open>auto simp: cull_cell_def Let_def split: if_splits\<close>)
qed (use step same no_credit in \<open>auto simp: cull_cell_def Let_def split: if_splits\<close>)

lemma cull_cell_wf:
  assumes step: "cull_cell F fb now (ri, ci) (p, rows) = Some (p', rows')"
    and w: "rows_wf w rows" "cursors_wf (fs_cols F fb) (pd_cursors p)" and fw: "frame_wf F fb"
    and r: "ri < length rows" "ci < length (pr_cells (rows ! ri))"
  shows "rows_wf w rows' \<and> cursors_wf (fs_cols F fb) (pd_cursors p') \<and> pd_last_width p' = pd_last_width p"
proof -
  have shape: "frame_shape F fb" using fw by (simp add: frame_wf_def)
  have b: "rows_below rows' rows"
    using cull_cell_step [OF step rows_wf_typed [OF w(1)] shape r] by simp
  have len: "length rows' = length rows" by (rule rows_below_length [OF b])
  have col: "ba_col (co_base (pr_cells (rows' ! i) ! j)) = ba_col (co_base (pr_cells (rows ! i) ! j))"
    if i: "i < length rows'" and j: "j < length (pr_cells (rows' ! i))" for i j
    using step r(2)
  proof (cases rule: cull_cellE)
    case no_credit
    then show ?thesis using i j len by (cases "i = ri"; cases "j = ci") simp_all
  next
    case (kill ep)
    then show ?thesis using i j by (simp add: kill_epoch_def Let_def)
  next
    case (confirm g pt ce)
    then show ?thesis using i j len confirm_cells_col [OF r(2), of "g (pr_cells (rows ! ri) ! ci)" g j]
      by (cases "i = ri") simp_all
  qed simp
  have "cursors_wf (fs_cols F fb) (pd_cursors p') \<and> pd_last_width p' = pd_last_width p"
    using step r(2)
  proof (cases rule: cull_cellE)
    case (kill ep)
    then show ?thesis using w(2) fw
      by (auto simp: kill_epoch_def Let_def become_tentative_def cursors_wf_def new_cursor_def frame_wf_def)
  qed (use w(2) in auto)
  then show ?thesis using rows_wf_below [OF b w(1) col] by blast
qed

lemma cull_loop_wf:
  assumes "rows_wf w rows" "cursors_wf (fs_cols F fb) (pd_cursors p)" "frame_wf F fb" "list_all (in_rows rows) ijs"
  shows "case cull_loop F fb now ijs (p, rows) of
      Inl p' \<Rightarrow> pd_overlays p' = [] \<and> pd_cursors p' = [] \<and> pd_last_width p' = pd_last_width p
    | Inr (p', rows') \<Rightarrow> rows_wf w rows' \<and> cursors_wf (fs_cols F fb) (pd_cursors p') \<and>
        pd_last_width p' = pd_last_width p"
  using assms
proof (induction ijs arbitrary: p rows)
  case (Cons ij ijs)
  obtain i j where ij: "ij = (i, j)" by fastforce
  have r: "i < length rows" "j < length (pr_cells (rows ! i))"
    using Cons.prems(4) by (auto simp: ij in_rows_def)
  show ?case
  proof (cases "cull_cell F fb now ij (p, rows)")
    case (Some m)
    obtain q mid where m: "m = (q, mid)" by fastforce
    note step = Some [unfolded m ij]
    have "rows_below mid rows"
      using cull_cell_step [OF step rows_wf_typed [OF Cons.prems(1)] _ r] Cons.prems(3)
      by (simp add: frame_wf_def)
    then have "list_all (in_rows mid) ijs" using Cons.prems(4) in_rows_below by (fastforce simp: list_all_iff)
    with cull_cell_wf [OF step Cons.prems(1,2,3) r] Cons.IH [of mid q] Cons.prems(3) show ?thesis
      by (auto simp: Some m split: sum.splits)
  qed simp
qed simp

lemma cull_wf:
  assumes pref: "pd_display_preference p \<noteq> Never" and w: "pred_wf p" and fw: "frame_wf F fb"
  shows "wf_at (fs_cols F fb) (cull F fb now p)"
proof -
  let ?p = "cull_triggers (cull_geometry F fb p)" and ?w = "fs_cols F fb"
  let ?rows = "filter (\<lambda>r. pr_row_num r < fs_rows F fb) (pd_overlays ?p)"
  have rw: "rows_wf ?w ?rows" "cursors_wf ?w (pd_cursors ?p)"
    using w by (auto simp: pred_wf_def cull_geometry_def rows_wf_def cursors_wf_def)
  have rc: "cursors_wf ?w (pd_cursors (?p\<lparr>pd_overlays := []\<rparr>))" using rw(2) by simp
  from cull_loop_wf [OF rw(1) rc fw cell_positions_in_rows, of now]
  have l: "case cull_loop F fb now (cell_positions ?rows) (?p\<lparr>pd_overlays := []\<rparr>, ?rows) of
      Inl p' \<Rightarrow> pd_overlays p' = [] \<and> pd_cursors p' = [] \<and> pd_last_width p' = ?w
    | Inr (p', rows') \<Rightarrow> rows_wf ?w rows' \<and> cursors_wf ?w (pd_cursors p') \<and> pd_last_width p' = ?w"
    by (auto split: sum.splits)
  show ?thesis
  proof (cases "cull_loop F fb now (cell_positions ?rows) (?p\<lparr>pd_overlays := []\<rparr>, ?rows)")
    case (Inl q)
    with l pref show ?thesis by (simp add: cull_def Let_def wf_at_def rows_wf_def cursors_wf_def)
  next
    case (Inr res)
    with l pref show ?thesis
      by (cases res) (auto simp: cull_def Let_def wf_at_def cull_cursors_def rows_wf_def cursors_wf_def)
  qed
qed

lemma fold_acts_wf:
  "wf_at (fs_cols F fb) p \<Longrightarrow> frame_wf F fb \<Longrightarrow> wf_at (fs_cols F fb) (fold (handle_act F fb now) acts p)"
  by (rule fold_preserves) (simp_all add: wf_at_handle_act)

lemma new_user_byte_wf:
  assumes pref: "pd_display_preference p \<noteq> Never" and w: "pred_wf p" and fw: "frame_wf F fb"
  shows "wf_at (fs_cols F fb) (new_user_byte F b fb now p)"
proof -
  have c: "wf_at (fs_cols F fb) ((cull F fb now p)\<lparr>pd_last_byte := x\<rparr>)" for x
    using cull_wf [OF assms] by (simp add: wf_at_def)
  then have c2: "wf_at (fs_cols F fb) ((cull F fb now p)\<lparr>pd_last_byte := x, pd_parser := v\<rparr>)" for x v
    by (simp add: wf_at_def)
  have "wf_at (fs_cols F fb) (handle_print F ch fb now ((cull F fb now p)\<lparr>pd_last_byte := x\<rparr>))" for x ch
    using wf_at_handle_act [OF c fw, of now "Print ch"] by simp
  then show ?thesis
    using pref fold_acts_wf [OF c2 fw] by (simp add: new_user_byte_def Let_def split_def)
qed

section \<open>Runs\<close>

text \<open>What a client does with a predictor: it types, reconciles, records acknowledgements and
  changes settings.\<close>

datatype 'f pevent =
    Type_Byte byte 'f u64
  | Reconcile 'f u64
  | Frame_Sent u64
  | Frame_Acked u64
  | Frame_Late_Acked u64
  | Send_Interval u32
  | Overwrite bool
  | Preference display_preference

definition set_display_preference :: "display_preference \<Rightarrow> 'v predictor \<Rightarrow> 'v predictor" where
  "set_display_preference d p = p\<lparr>pd_display_preference := d\<rparr>"

definition set_local_frame_sent :: "u64 \<Rightarrow> 'v predictor \<Rightarrow> 'v predictor" where
  "set_local_frame_sent s p = p\<lparr>pd_local_frame_sent := s\<rparr>"

definition set_local_frame_acked :: "u64 \<Rightarrow> 'v predictor \<Rightarrow> 'v predictor" where
  "set_local_frame_acked s p = p\<lparr>pd_local_frame_acked := s\<rparr>"

definition set_local_frame_late_acked :: "u64 \<Rightarrow> 'v predictor \<Rightarrow> 'v predictor" where
  "set_local_frame_late_acked s p = p\<lparr>pd_local_frame_late_acked := s\<rparr>"

definition set_send_interval :: "u32 \<Rightarrow> 'v predictor \<Rightarrow> 'v predictor" where
  "set_send_interval ms p = p\<lparr>pd_send_interval := ms\<rparr>"

definition set_predict_overwrite :: "bool \<Rightarrow> 'v predictor \<Rightarrow> 'v predictor" where
  "set_predict_overwrite b p = p\<lparr>pd_predict_overwrite := b\<rparr>"

lemmas pd_set_defs = set_display_preference_def set_local_frame_sent_def set_local_frame_acked_def
  set_local_frame_late_acked_def set_send_interval_def set_predict_overwrite_def

fun pred_event ::
  "('f, 'v, 'z) predict_lib_scheme \<Rightarrow> 'f pevent \<Rightarrow> 'v predictor \<Rightarrow> 'v predictor" where
  "pred_event F (Type_Byte b fb now) p = new_user_byte F b fb now p"
| "pred_event F (Reconcile fb now) p = cull F fb now p"
| "pred_event F (Frame_Sent s) p = set_local_frame_sent s p"
| "pred_event F (Frame_Acked s) p = set_local_frame_acked s p"
| "pred_event F (Frame_Late_Acked s) p = set_local_frame_late_acked s p"
| "pred_event F (Send_Interval ms) p = set_send_interval ms p"
| "pred_event F (Overwrite b) p = set_predict_overwrite b p"
| "pred_event F (Preference d) p = set_display_preference d p"

fun event_wf :: "('f, 'z) frame_lib_scheme \<Rightarrow> 'f pevent \<Rightarrow> bool" where
  "event_wf F (Type_Byte b fb now) = frame_wf F fb"
| "event_wf F (Reconcile fb now) = frame_wf F fb"
| "event_wf F _ = True"

text \<open>How often an event may raise the epoch counter.\<close>

fun event_epochs :: "('f, 'v, 'z) predict_lib_scheme \<Rightarrow> 'f pevent \<Rightarrow> 'v predictor \<Rightarrow> nat" where
  "event_epochs F (Type_Byte b fb now) p =
     total_cells (pd_overlays p) + 5 +
     3 * length (snd (vte_advance F (pd_parser (cull F fb now p))
       (if pd_last_byte (cull F fb now p) = 0x1b \<and> b = 0x4f then 0x5b else b)))"
| "event_epochs F (Reconcile fb now) p = total_cells (pd_overlays p) + 2"
| "event_epochs F _ p = 0"

fun epochs_left :: "('f, 'v, 'z) predict_lib_scheme \<Rightarrow> 'f pevent list \<Rightarrow> 'v predictor \<Rightarrow> bool" where
  "epochs_left F [] p = True"
| "epochs_left F (ev # evs) p =
     (unat (pd_prediction_epoch p) + event_epochs F ev p < 18446744073709551616 \<and>
      epochs_left F evs (pred_event F ev p))"

lemma pred_event_wf:
  assumes "pred_wf p" "event_wf F ev"
  shows "pred_wf (pred_event F ev p)"
proof (cases ev)
  case (Type_Byte b fb now)
  with assms new_user_byte_wf [of p F fb b now] show ?thesis
    by (cases "pd_display_preference p = Never") (auto simp: new_user_byte_def intro: wf_at_pred_wf)
next
  case (Reconcile fb now)
  with assms cull_wf [of p F fb now] show ?thesis
    by (cases "pd_display_preference p = Never") (auto simp: cull_def intro: wf_at_pred_wf)
qed (use assms in \<open>simp_all add: pred_wf_def pd_set_defs\<close>)

lemma gate_new_user_byte:
  assumes g: "gate e (event_epochs F (Type_Byte b fb now) p) p"
    and w: "pred_wf p" and fw: "frame_wf F fb"
  shows "gate e 0 (new_user_byte F b fb now p)"
proof (cases "pd_display_preference p = Never")
  case True
  then show ?thesis using gate_mono [OF g, of 0] by (simp add: new_user_byte_def)
next
  case False
  let ?b = "if pd_last_byte (cull F fb now p) = 0x1b \<and> b = 0x4f then 0x5b else b"
  obtain v acts where va: "vte_advance F (pd_parser (cull F fb now p)) ?b = (v, acts)" by fastforce
  have typed: "rows_typed (pd_overlays p)" "frame_shape F fb"
    using w fw rows_wf_typed by (auto simp: pred_wf_def frame_wf_def)
  have "gate e (3 + 3 * length acts + total_cells (pd_overlays p) + 2) p"
    using g va by (simp add: algebra_simps)
  from gate_cull [OF this typed(2,1), of now] have c: "gate e (3 + 3 * length acts) (cull F fb now p)" .
  have c1: "gate e (3 + 3 * length acts) ((cull F fb now p)\<lparr>pd_last_byte := x\<rparr>)"
    "gate e (3 * length acts) ((cull F fb now p)\<lparr>pd_last_byte := x, pd_parser := v\<rparr>)" for x
    using c gate_mono [OF c, of "3 * length acts"] by (simp_all add: gate_def)
  have del: "gate e 0 (handle_print F 0x7f fb now ((cull F fb now p)\<lparr>pd_last_byte := x\<rparr>))" for x
    using gate_handle_act [of e 0 "(cull F fb now p)\<lparr>pd_last_byte := x\<rparr>" F fb now "Print 0x7f"]
      gate_mono [OF c1(1), of "Suc (Suc (Suc 0))"] by simp
  have ran: "gate e 0 (fold (handle_act F fb now) acts ((cull F fb now p)\<lparr>pd_last_byte := x, pd_parser := v\<rparr>))" for x
    by (rule gate_acts) (use c1(2) in simp)
  show ?thesis
    using False va del ran by (auto simp: new_user_byte_def Let_def)
qed

lemma gate_pred_event:
  assumes "gate e 0 p" "pred_wf p" "event_wf F ev"
    and "unat (pd_prediction_epoch p) + event_epochs F ev p < 18446744073709551616"
  shows "gate e 0 (pred_event F ev p)"
proof -
  have g: "gate e (event_epochs F ev p) p" using assms(1,4) by (simp add: gate_def room_def)
  show ?thesis
  proof (cases ev)
    case (Type_Byte b fb now)
    with gate_new_user_byte [of e F b fb now p] g assms show ?thesis by simp
  next
    case (Reconcile fb now)
    have "rows_typed (pd_overlays p)" using assms(2) rows_wf_typed by (auto simp: pred_wf_def)
    with gate_cull [of e 0 p F fb now] g assms Reconcile show ?thesis by (simp add: frame_wf_def)
  qed (use assms(1) in \<open>simp_all add: gate_def pd_set_defs\<close>)
qed

lemma gate_run:
  assumes "gate e 0 p" "pred_wf p" "list_all (event_wf F) evs" "epochs_left F evs p"
  shows "gate e 0 (fold (pred_event F) evs p) \<and> pred_wf (fold (pred_event F) evs p)"
  using assms
proof (induction evs arbitrary: p)
  case (Cons ev evs)
  then show ?case using gate_pred_event [of e p F ev] pred_event_wf [of p F ev] by simp
qed simp

section \<open>Properties\<close>

text \<open>C14: Unconfirmed input is never shown. Whatever the user types, on whatever frames, with whatever
  round-trip times and settings, as long as no prediction has been confirmed (passwords and other
  input that is not echoed never are) the displayed frame is the server's frame. The bound says that
  the 64-bit epoch counter has not run out.\<close>

theorem predictor_hides_unconfirmed:
  assumes "list_all (event_wf F) evs" "epochs_left F evs (predictor_new F)"
    and "pd_confirmed_epoch (fold (pred_event F) evs (predictor_new F)) = 0"
  shows "predictor_apply F (fold (pred_event F) evs (predictor_new F)) fb = fb"
proof -
  have "gate 0 0 (predictor_new F)" "pred_wf (predictor_new F)"
    by (simp_all add: gate_def rows_above_def cursors_above_def predictor_new_def room_def pred_wf_def
        rows_wf_def cursors_wf_def)
  from gate_run [OF this assms(1,2)] gate_apply assms(3) show ?thesis by (metis order.refl)
qed

text \<open>In every state a client can reach, every row of predictions has exactly the width of the
  display it was made for, its cells know their columns and hold twelve bytes, and the predicted
  cursor column is at most the width: no index the handlers compute is out of range.\<close>

theorem predictor_vectors_in_range:
  assumes "list_all (event_wf F) evs"
  shows "let p = fold (pred_event F) evs (predictor_new F) in
    (\<forall>r \<in> set (pd_overlays p). length (pr_cells r) = unat (pd_last_width p) \<and>
       (\<forall>i < length (pr_cells r). ba_col (co_base (pr_cells r ! i)) = of_nat i \<and>
          length (co_replacement (pr_cells r ! i)) = 12)) \<and>
    (\<forall>c \<in> set (pd_cursors p). cu_col c \<le> pd_last_width p)"
proof -
  have "pred_wf (fold (pred_event F) evs p)" if "pred_wf p" for p
    using that assms by (induction evs arbitrary: p) (simp_all add: pred_event_wf)
  moreover have "pred_wf (predictor_new F)"
    by (simp add: predictor_new_def pred_wf_def rows_wf_def cursors_wf_def)
  ultimately have "pred_wf (fold (pred_event F) evs (predictor_new F))" by blast
  then show ?thesis
    by (simp only: pred_wf_def rows_wf_def cells_wf_def cursors_wf_def Let_def)
qed

text \<open>No prediction survives a change of the terminal size: reconciling with a frame of another
  size drops every predicted cell and cursor, and the frame is then displayed as it is.\<close>

theorem predictor_resize_drops:
  assumes "pd_display_preference p \<noteq> Never"
    and "pd_last_height p \<noteq> fs_rows F fb \<or> pd_last_width p \<noteq> fs_cols F fb"
  shows "pd_overlays (cull F fb now p) = [] \<and> pd_cursors (cull F fb now p) = [] \<and>
    predictor_apply F (cull F fb now p) fb' = fb'"
proof -
  have geo: "cull_geometry F fb p =
      predictor_reset (p\<lparr>pd_last_height := fs_rows F fb, pd_last_width := fs_cols F fb\<rparr>)"
    using assms(2) by (auto simp: cull_geometry_def)
  have "pd_overlays (cull F fb now p) = [] \<and> pd_cursors (cull F fb now p) = []"
    using assms(1) by (simp add: cull_def Let_def geo cell_positions_def cull_cursors_def)
  then show ?thesis by (simp add: predictor_apply_def)
qed

section \<open>Examples\<close>

text \<open>A parser without escape sequences, and a display of two columns.\<close>

definition predict_ex :: "(cframe, unit) predict_lib" where
  "predict_ex = codec_lib.extend codec_ex
     \<lparr>vte_new = (), vte_advance = (\<lambda>_ b. ((), if b < 0x20 then [Execute b] else [Print (unat b)])),
      char_width = (\<lambda>_. Some 1)\<rparr>"

definition frame_ex :: cframe where
  "frame_ex = \<lparr>cf_rows = 1, cf_cols = 3, cf_cursor_row = 0, cf_cursor_col = 0, cf_mode = 1, cf_title = [],
     cf_cells = replicate 36 0, cf_overflow = []\<rparr>"

lemmas lib_ex_defs = predict_ex_def codec_ex_def cframe_lib_def frame_lib.defs codec_lib.defs

lemma frame_ex_accessors [simp]:
  "fs_rows predict_ex frame_ex = 1" "fs_cols predict_ex frame_ex = 3"
  "fs_cursor_row predict_ex frame_ex = 0" "fs_cursor_col predict_ex frame_ex = 0"
  "fs_cells predict_ex frame_ex = replicate 36 0" "fs_cell_links predict_ex frame_ex = []"
  "vte_advance predict_ex () b = ((), if b < 0x20 then [Execute b] else [Print (unat b)])"
  "char_width predict_ex ch = Some 1"
  by (simp_all add: lib_ex_defs frame_ex_def)

lemma frame_ex_wf: "frame_wf predict_ex frame_ex" "frame_shape predict_ex frame_ex"
  by (simp_all add: frame_wf_def frame_shape_def cell_count_def CELL_SIZE_def)

text \<open>Keystrokes never confirm anything by themselves.\<close>

lemma backspace_confirmed [simp]: "pd_confirmed_epoch (backspace F fb now p) = pd_confirmed_epoch p"
  by (simp add: backspace_def Let_def split_def)

lemma newline_confirmed [simp]:
  "pd_confirmed_epoch (newline_carriage_return F fb now p) = pd_confirmed_epoch p"
  by (simp add: newline_carriage_return_def Let_def split_def)

lemma predict_char_confirmed [simp]: "pd_confirmed_epoch (predict_char F ch fb now p) = pd_confirmed_epoch p"
  by (simp add: predict_char_def Let_def split_def)

lemma handle_print_confirmed [simp]: "pd_confirmed_epoch (handle_print F ch fb now p) = pd_confirmed_epoch p"
  by (simp add: handle_print_def Let_def)

lemma handle_act_confirmed [simp]: "pd_confirmed_epoch (handle_act F fb now a p) = pd_confirmed_epoch p"
  by (cases a) (simp_all add: cursor_right_def cursor_left_def Let_def)

lemma fold_acts_confirmed [simp]:
  "pd_confirmed_epoch (fold (handle_act F fb now) acts p) = pd_confirmed_epoch p"
  by (induction acts arbitrary: p) simp_all

lemma new_user_byte_confirmed:
  "pd_confirmed_epoch (new_user_byte F b fb now p) = pd_confirmed_epoch (cull F fb now p)"
  by (simp add: new_user_byte_def cull_def [of F fb now p] Let_def split_def)

lemma cull_new_confirmed:
  "frame_shape F fb \<Longrightarrow> pd_confirmed_epoch (cull F fb now (predictor_new L)) = 0"
  using cull_spec [of "predictor_new L" F fb now]
  by (simp add: predictor_new_def rows_typed_def epoch_moves_def confirmed_by_def)

theorem predictor_hides_unconfirmed_witness:
  "predictor_apply predict_ex (new_user_byte predict_ex 97 frame_ex 5
     (set_send_interval 200 (predictor_new predict_ex))) frame_ex = frame_ex"
proof -
  let ?evs = "[Send_Interval 200, Type_Byte 97 frame_ex 5]"
  let ?p = "set_send_interval 200 (predictor_new predict_ex)"
  have "pd_confirmed_epoch (cull predict_ex frame_ex 5 ?p) = 0"
    using cull_spec [of ?p predict_ex frame_ex 5] frame_ex_wf
    by (simp add: predictor_new_def rows_typed_def epoch_moves_def confirmed_by_def pd_set_defs)
  then have "pd_confirmed_epoch (fold (pred_event predict_ex) ?evs (predictor_new predict_ex)) = 0"
    by (simp add: new_user_byte_confirmed)
  moreover have "epochs_left predict_ex ?evs (predictor_new predict_ex)"
    by (simp add: total_cells_def predictor_new_def pd_set_defs)
  ultimately show ?thesis
    using predictor_hides_unconfirmed [of predict_ex ?evs frame_ex] frame_ex_wf by simp
qed

theorem predictor_vectors_in_range_witness:
  "list_all (\<lambda>c. cu_col c \<le> pd_last_width (new_user_byte predict_ex 97 frame_ex 5 (predictor_new predict_ex)))
     (pd_cursors (new_user_byte predict_ex 97 frame_ex 5 (predictor_new predict_ex)))"
  using predictor_vectors_in_range [of predict_ex "[Type_Byte 97 frame_ex 5]"] frame_ex_wf
  by (simp add: Let_def list_all_iff)

theorem predictor_resize_drops_witness:
  "pd_overlays (cull predict_ex frame_ex 5 (predictor_new predict_ex)) = []"
  using predictor_resize_drops [of "predictor_new predict_ex" predict_ex frame_ex]
  by (simp add: predictor_new_def)

text \<open>One prediction in the first column, made before frame 1 and awaiting its echo.\<close>

definition predicted_ex :: "unit predictor" where
  "predicted_ex = (predictor_new predict_ex)\<lparr>pd_last_height := 1, pd_last_width := 3,
     pd_local_frame_late_acked := 1,
     pd_overlays := [\<lparr>pr_row_num = 0, pr_cells = map (\<lambda>i.
       \<lparr>co_base = \<lparr>ba_expiration_frame = 2, ba_col = of_nat i, ba_active = (i = 0),
                    ba_tentative_until_epoch = 1, ba_prediction_time = 0\<rparr>,
        co_replacement = make_char_cell (replicate 12 0) 97, co_unknown = False,
        co_original = [lit '' '']\<rparr>) [0..<3]\<rparr>]\<rparr>"

lemma predicted_ex_typed: "rows_typed (pd_overlays predicted_ex)"
  "pd_display_preference predicted_ex \<noteq> Never"
  by (simp_all add: predicted_ex_def rows_typed_def predictor_new_def)

theorem cull_leaves_outstanding_witness:
  "all_pending predict_ex frame_ex (cull predict_ex frame_ex 7 predicted_ex)"
  by (rule cull_leaves_outstanding [OF predicted_ex_typed(2) frame_ex_wf(2) predicted_ex_typed(1)])

theorem cull_confirms_on_evidence_witness:
  "pd_confirmed_epoch (cull predict_ex frame_ex 7 predicted_ex) = 0"
  using cull_confirms_on_evidence [OF predicted_ex_typed(2) frame_ex_wf(2) predicted_ex_typed(1), of 7]
  by (auto simp: predicted_ex_def predictor_new_def Let_def word_le_nat_alt)

end
