(* ===== verification/Auth_Messages.thy ===== *)
theory Auth_Messages
  imports Messages
begin

text \<open>
  The payloads of the browser's authentication handshake
  (\<open>crates/quosh-proto/src/lib.rs\<close>): the cursor \<open>Reader\<close>, the length-prefixed fields, and
  the messages \<open>AuthHello\<close>, \<open>Challenge\<close>, \<open>Enroll\<close>, \<open>Assert\<close>, \<open>AuthOk\<close> and \<open>AuthFail\<close>. Every
  message is interpreted as a \<open>strict_codec\<close>: it survives the framed stream, and a payload
  with bytes left over is rejected. The encoders that can fail do so exactly on fields that
  do not fit their length prefix.
\<close>

definition MAX_CHAIN_HASHES :: nat where "MAX_CHAIN_HASHES = 64"

section \<open>AuthHello\<close>

record auth_hello =
  ah_auth_token :: bytes
  ah_session_id :: bytes
  ah_session_token :: bytes
  ah_cols :: u16
  ah_rows :: u16

definition auth_hello_wf :: "auth_hello \<Rightarrow> bool" where
  "auth_hello_wf h \<longleftrightarrow> length (ah_auth_token h) = 32 \<and> length (ah_session_id h) = 16 \<and>
     length (ah_session_token h) = 32"

definition auth_hello_encode :: "auth_hello \<Rightarrow> bytes" where
  "auth_hello_encode h = encode_frame MSG_AUTH_HELLO
     (ah_auth_token h @ ah_session_id h @ ah_session_token h @ le16 (ah_cols h) @ le16 (ah_rows h))"

definition auth_hello_decode :: "bytes \<Rightarrow> proto_error + auth_hello" where
  "auth_hello_decode p =
     (if length p \<noteq> 84 then Inl Frame
      else Inr \<lparr>ah_auth_token = slc 0 32 p, ah_session_id = slc 32 48 p,
                ah_session_token = slc 48 80 p, ah_cols = rd16 (slc 80 82 p),
                ah_rows = rd16 (slc 82 84 p)\<rparr>)"

interpretation auth_hello_wire:
  strict_codec MSG_AUTH_HELLO "\<lambda>h. Inr (auth_hello_encode h)" auth_hello_decode auth_hello_wf
  by (rule strict_codecI [where pl = "\<lambda>h. ah_auth_token h @ ah_session_id h @
        ah_session_token h @ le16 (ah_cols h) @ le16 (ah_rows h)"])
    (auto simp: auth_hello_encode_def auth_hello_decode_def auth_hello_wf_def byte_simps
      intro!: small_payload)

section \<open>Fields and the reader\<close>

definition put_n :: "bytes \<Rightarrow> proto_error + bytes" where
  "put_n b = (if length b > 65535 then Inl TooLarge else Inr (le16 (of_nat (length b)) @ b))"

record reader =
  rd_p :: bytes
  rd_i :: nat

definition reader_new :: "bytes \<Rightarrow> reader" where "reader_new p = \<lparr>rd_p = p, rd_i = 0\<rparr>"

definition reader_u8 :: "reader \<Rightarrow> proto_error + byte \<times> reader" where
  "reader_u8 r = (if rd_i r < length (rd_p r)
     then Inr (rd_p r ! rd_i r, r\<lparr>rd_i := rd_i r + 1\<rparr>) else Inl Truncated)"

definition reader_take :: "nat \<Rightarrow> reader \<Rightarrow> proto_error + bytes \<times> reader" where
  "reader_take n r = (if rd_i r + n \<le> length (rd_p r)
     then Inr (slc (rd_i r) (rd_i r + n) (rd_p r), r\<lparr>rd_i := rd_i r + n\<rparr>) else Inl Truncated)"

definition reader_n :: "reader \<Rightarrow> proto_error + bytes \<times> reader" where
  "reader_n r = res_bind (reader_take 2 r) (\<lambda>(b, r). reader_take (unat (rd16 b)) r)"

definition reader_done :: "reader \<Rightarrow> proto_error + unit" where
  "reader_done r = (if rd_i r = length (rd_p r) then Inr () else Inl Frame)"

definition put_hashes :: "bytes list \<Rightarrow> proto_error + bytes" where
  "put_hashes hs = (if length hs > MAX_CHAIN_HASHES then Inl TooLarge
     else Inr (of_nat (length hs) # concat hs))"

fun take_hashes_loop :: "nat \<Rightarrow> reader \<Rightarrow> proto_error + bytes list \<times> reader" where
  "take_hashes_loop 0 r = Inr ([], r)"
| "take_hashes_loop (Suc n) r = res_bind (reader_take 32 r) (\<lambda>(h, r).
     res_bind (take_hashes_loop n r) (\<lambda>(hs, r). Inr (h # hs, r)))"

definition take_hashes :: "reader \<Rightarrow> proto_error + bytes list \<times> reader" where
  "take_hashes r = res_bind (reader_u8 r) (\<lambda>(b, r).
     let n = unat b in if n > MAX_CHAIN_HASHES then Inl TooLarge else take_hashes_loop n r)"

text \<open>A reader that has consumed \<open>pre\<close> and has \<open>rest\<close> before it.\<close>

definition reader_at :: "bytes \<Rightarrow> bytes \<Rightarrow> reader" where
  "reader_at pre rest = \<lparr>rd_p = pre @ rest, rd_i = length pre\<rparr>"

lemma reader_new_at: "reader_new p = reader_at [] p"
  by (simp add: reader_new_def reader_at_def)

lemma reader_u8_at [simp]: "reader_u8 (reader_at pre (b # rest)) = Inr (b, reader_at (pre @ [b]) rest)"
  by (simp add: reader_u8_def reader_at_def)

lemma reader_take_at:
  "length x = n \<Longrightarrow> reader_take n (reader_at pre (x @ rest)) = Inr (x, reader_at (pre @ x) rest)"
  by (simp add: reader_take_def reader_at_def slc_def)

lemma reader_n_at:
  assumes "length b \<le> 65535"
  shows "reader_n (reader_at pre (le16 (of_nat (length b)) @ b @ rest))
       = Inr (b, reader_at (pre @ le16 (of_nat (length b)) @ b) rest)"
proof -
  have "unat (of_nat (length b) :: u16) = length b" using assms by (simp add: unat_len_u16)
  then show ?thesis by (simp add: reader_n_def reader_take_at)
qed

lemma reader_done_at: "reader_done (reader_at pre rest) = (if rest = [] then Inr () else Inl Frame)"
  by (simp add: reader_done_def reader_at_def)

lemma take_hashes_loop_at:
  assumes "list_all (\<lambda>h. length h = 32) hs"
  shows "take_hashes_loop (length hs) (reader_at pre (concat hs @ rest))
       = Inr (hs, reader_at (pre @ concat hs) rest)"
  using assms
proof (induction hs arbitrary: pre)
  case (Cons h hs)
  then show ?case by (simp add: reader_take_at)
qed simp

lemma take_hashes_at:
  assumes "list_all (\<lambda>h. length h = 32) hs" "length hs \<le> MAX_CHAIN_HASHES"
  shows "take_hashes (reader_at pre (of_nat (length hs) # concat hs @ rest))
       = Inr (hs, reader_at (pre @ of_nat (length hs) # concat hs) rest)"
proof -
  have "unat (of_nat (length hs) :: byte) = length hs"
    using assms(2) by (simp add: unat_of_nat_small MAX_CHAIN_HASHES_def)
  with assms show ?thesis by (simp add: take_hashes_def Let_def take_hashes_loop_at)
qed

lemmas reader_at_simps =
  reader_new_at reader_take_at reader_n_at reader_done_at take_hashes_at

lemma length_concat_32:
  "list_all (\<lambda>h. length h = 32) hs \<Longrightarrow> length (concat hs) = 32 * length hs"
  by (induction hs) auto

section \<open>Challenge\<close>

record challenge =
  ch_challenge :: bytes
  ch_rp_id :: rstr
  ch_hashes :: "bytes list"

definition challenge_wf :: "challenge \<Rightarrow> bool" where
  "challenge_wf c \<longleftrightarrow> length (ch_challenge c) = 32 \<and> utf8_valid (ch_rp_id c) \<and>
     list_all (\<lambda>h. length h = 32) (ch_hashes c)"

definition challenge_fits :: "challenge \<Rightarrow> bool" where
  "challenge_fits c \<longleftrightarrow> length (ch_rp_id c) \<le> 255 \<and> length (ch_hashes c) \<le> MAX_CHAIN_HASHES"

definition challenge_encode :: "challenge \<Rightarrow> proto_error + bytes" where
  "challenge_encode c =
     (if length (ch_rp_id c) > 255 then Inl TooLarge
      else res_bind (put_hashes (ch_hashes c)) (\<lambda>hs.
        Inr (encode_frame MSG_CHALLENGE
          (ch_challenge c @ [of_nat (length (ch_rp_id c))] @ ch_rp_id c @ hs))))"

definition challenge_decode :: "bytes \<Rightarrow> proto_error + challenge" where
  "challenge_decode p =
     res_bind (reader_take 32 (reader_new p)) (\<lambda>(ch, r).
     res_bind (reader_u8 r) (\<lambda>(n, r).
     res_bind (reader_take (unat n) r) (\<lambda>(b, r).
     res_bind (ok_or (from_utf8 b) Frame) (\<lambda>rp.
     res_bind (take_hashes r) (\<lambda>(hs, r).
     res_bind (reader_done r) (\<lambda>_.
       Inr \<lparr>ch_challenge = ch, ch_rp_id = rp, ch_hashes = hs\<rparr>))))))"

lemma unat_len_u8: "n \<le> 255 \<Longrightarrow> unat (of_nat n :: byte) = n"
  by (simp add: unat_of_nat_small)

lemma challenge_payload:
  assumes "challenge_wf c" "challenge_fits c"
  shows "challenge_decode (ch_challenge c @ of_nat (length (ch_rp_id c)) # ch_rp_id c @
           of_nat (length (ch_hashes c)) # concat (ch_hashes c) @ e)
       = (if e = [] then Inr c else Inl Frame)"
  using assms
  by (simp add: challenge_decode_def challenge_wf_def challenge_fits_def reader_at_simps
      unat_len_u8 from_utf8_def)

interpretation challenge_wire: strict_codec MSG_CHALLENGE challenge_encode challenge_decode
  "\<lambda>c. challenge_wf c \<and> challenge_fits c"
  by (rule strict_codecI [where pl = "\<lambda>c. ch_challenge c @ of_nat (length (ch_rp_id c)) #
        ch_rp_id c @ of_nat (length (ch_hashes c)) # concat (ch_hashes c)"])
    (use challenge_payload [where e = "[]"] in \<open>auto simp: challenge_payload challenge_encode_def
      put_hashes_def challenge_fits_def challenge_wf_def length_concat_32 MAX_CHAIN_HASHES_def
      intro!: small_payload\<close>)

section \<open>Enroll and Assert\<close>

record enroll =
  en_nonce :: bytes
  en_client_data_json :: bytes
  en_attestation_object :: bytes

definition enroll_fits :: "enroll \<Rightarrow> bool" where
  "enroll_fits e \<longleftrightarrow> length (en_client_data_json e) \<le> 65535 \<and>
     length (en_attestation_object e) \<le> 65535"

definition enroll_encode :: "enroll \<Rightarrow> proto_error + bytes" where
  "enroll_encode e =
     res_bind (put_n (en_client_data_json e)) (\<lambda>a.
     res_bind (put_n (en_attestation_object e)) (\<lambda>b.
       Inr (encode_frame MSG_ENROLL (en_nonce e @ a @ b))))"

definition enroll_decode :: "bytes \<Rightarrow> proto_error + enroll" where
  "enroll_decode p =
     res_bind (reader_take 16 (reader_new p)) (\<lambda>(nonce, r).
     res_bind (reader_n r) (\<lambda>(cdj, r).
     res_bind (reader_n r) (\<lambda>(att, r).
     res_bind (reader_done r) (\<lambda>_.
       Inr \<lparr>en_nonce = nonce, en_client_data_json = cdj, en_attestation_object = att\<rparr>))))"

lemma enroll_payload:
  assumes "length (en_nonce x) = 16" "enroll_fits x"
  shows "enroll_decode (en_nonce x @ le16 (of_nat (length (en_client_data_json x))) @
      en_client_data_json x @ le16 (of_nat (length (en_attestation_object x))) @
      en_attestation_object x @ e) = (if e = [] then Inr x else Inl Frame)"
  using assms by (simp add: enroll_decode_def enroll_fits_def reader_at_simps)

interpretation enroll_wire: strict_codec MSG_ENROLL enroll_encode enroll_decode
  "\<lambda>x. length (en_nonce x) = 16 \<and> enroll_fits x"
  by (rule strict_codecI [where pl = "\<lambda>x. en_nonce x @ le16 (of_nat (length (en_client_data_json x)))
        @ en_client_data_json x @ le16 (of_nat (length (en_attestation_object x))) @
        en_attestation_object x"])
    (use enroll_payload [where e = "[]"] in \<open>auto simp: enroll_payload enroll_encode_def put_n_def
      enroll_fits_def intro!: small_payload\<close>)

record assertion =
  as_credential_id :: bytes
  as_authenticator_data :: bytes
  as_client_data_json :: bytes
  as_signature :: bytes

definition assert_fits :: "assertion \<Rightarrow> bool" where
  "assert_fits a \<longleftrightarrow> length (as_credential_id a) \<le> 65535 \<and>
     length (as_authenticator_data a) \<le> 65535 \<and> length (as_client_data_json a) \<le> 65535 \<and>
     length (as_signature a) \<le> 65535"

definition assert_encode :: "assertion \<Rightarrow> proto_error + bytes" where
  "assert_encode a =
     res_bind (put_n (as_credential_id a)) (\<lambda>c.
     res_bind (put_n (as_authenticator_data a)) (\<lambda>d.
     res_bind (put_n (as_client_data_json a)) (\<lambda>j.
     res_bind (put_n (as_signature a)) (\<lambda>s.
       Inr (encode_frame MSG_ASSERT (c @ d @ j @ s))))))"

definition assert_decode :: "bytes \<Rightarrow> proto_error + assertion" where
  "assert_decode p =
     res_bind (reader_n (reader_new p)) (\<lambda>(c, r).
     res_bind (reader_n r) (\<lambda>(d, r).
     res_bind (reader_n r) (\<lambda>(j, r).
     res_bind (reader_n r) (\<lambda>(s, r).
     res_bind (reader_done r) (\<lambda>_.
       Inr \<lparr>as_credential_id = c, as_authenticator_data = d, as_client_data_json = j,
            as_signature = s\<rparr>)))))"

lemma assert_payload:
  assumes "assert_fits x"
  shows "assert_decode (le16 (of_nat (length (as_credential_id x))) @ as_credential_id x @
      le16 (of_nat (length (as_authenticator_data x))) @ as_authenticator_data x @
      le16 (of_nat (length (as_client_data_json x))) @ as_client_data_json x @
      le16 (of_nat (length (as_signature x))) @ as_signature x @ e)
     = (if e = [] then Inr x else Inl Frame)"
  using assms by (simp add: assert_decode_def assert_fits_def reader_at_simps)

interpretation assert_wire: strict_codec MSG_ASSERT assert_encode assert_decode assert_fits
  by (rule strict_codecI [where pl = "\<lambda>x. le16 (of_nat (length (as_credential_id x))) @
        as_credential_id x @ le16 (of_nat (length (as_authenticator_data x))) @
        as_authenticator_data x @ le16 (of_nat (length (as_client_data_json x))) @
        as_client_data_json x @ le16 (of_nat (length (as_signature x))) @ as_signature x"])
    (use assert_payload [where e = "[]"] in \<open>auto simp: assert_payload assert_encode_def put_n_def
      assert_fits_def intro!: small_payload\<close>)

section \<open>AuthOk and AuthFail\<close>

record auth_ok =
  ao_auth_token :: bytes
  ao_uid :: u32
  ao_session_id :: bytes
  ao_session_token :: bytes
  ao_hashes :: "bytes list"

definition auth_ok_wf :: "auth_ok \<Rightarrow> bool" where
  "auth_ok_wf a \<longleftrightarrow> length (ao_auth_token a) = 32 \<and> length (ao_session_id a) = 16 \<and>
     length (ao_session_token a) = 32 \<and> list_all (\<lambda>h. length h = 32) (ao_hashes a)"

definition auth_ok_encode :: "auth_ok \<Rightarrow> proto_error + bytes" where
  "auth_ok_encode a = res_bind (put_hashes (ao_hashes a)) (\<lambda>hs.
     Inr (encode_frame MSG_AUTH_OK
       (ao_auth_token a @ le32 (ao_uid a) @ ao_session_id a @ ao_session_token a @ hs)))"

definition auth_ok_decode :: "bytes \<Rightarrow> proto_error + auth_ok" where
  "auth_ok_decode p =
     res_bind (reader_take 32 (reader_new p)) (\<lambda>(tok, r).
     res_bind (reader_take 4 r) (\<lambda>(u, r).
     res_bind (reader_take 16 r) (\<lambda>(sid, r).
     res_bind (reader_take 32 r) (\<lambda>(stok, r).
     res_bind (take_hashes r) (\<lambda>(hs, r).
     res_bind (reader_done r) (\<lambda>_.
       Inr \<lparr>ao_auth_token = tok, ao_uid = rd32 u, ao_session_id = sid,
            ao_session_token = stok, ao_hashes = hs\<rparr>))))))"

lemma auth_ok_payload:
  assumes "auth_ok_wf a" "length (ao_hashes a) \<le> MAX_CHAIN_HASHES"
  shows "auth_ok_decode (ao_auth_token a @ le32 (ao_uid a) @ ao_session_id a @
      ao_session_token a @ of_nat (length (ao_hashes a)) # concat (ao_hashes a) @ e)
     = (if e = [] then Inr a else Inl Frame)"
  using assms by (simp add: auth_ok_decode_def auth_ok_wf_def reader_at_simps)

interpretation auth_ok_wire: strict_codec MSG_AUTH_OK auth_ok_encode auth_ok_decode
  "\<lambda>a. auth_ok_wf a \<and> length (ao_hashes a) \<le> MAX_CHAIN_HASHES"
  by (rule strict_codecI [where pl = "\<lambda>a. ao_auth_token a @ le32 (ao_uid a) @ ao_session_id a @
        ao_session_token a @ of_nat (length (ao_hashes a)) # concat (ao_hashes a)"])
    (use auth_ok_payload [where e = "[]"] in \<open>auto simp: auth_ok_payload auth_ok_encode_def
      put_hashes_def auth_ok_wf_def length_concat_32 MAX_CHAIN_HASHES_def intro!: small_payload\<close>)

text \<open>\<open>AuthFail\<close> has one field, its reason: the message is that string.\<close>

definition auth_fail_encode :: "rstr \<Rightarrow> proto_error + bytes" where
  "auth_fail_encode reason =
     res_bind (put_n reason) (\<lambda>b. Inr (encode_frame MSG_AUTH_FAIL b))"

definition auth_fail_decode :: "bytes \<Rightarrow> proto_error + rstr" where
  "auth_fail_decode p =
     res_bind (reader_n (reader_new p)) (\<lambda>(b, r).
     res_bind (ok_or (from_utf8 b) Frame) (\<lambda>reason.
     res_bind (reader_done r) (\<lambda>_. Inr reason)))"

lemma auth_fail_payload:
  assumes "utf8_valid m" "length m \<le> 65535"
  shows "auth_fail_decode (le16 (of_nat (length m)) @ m @ e) = (if e = [] then Inr m else Inl Frame)"
  using assms by (simp add: auth_fail_decode_def reader_at_simps from_utf8_def)

interpretation auth_fail_wire: strict_codec MSG_AUTH_FAIL auth_fail_encode auth_fail_decode
  "\<lambda>m. utf8_valid m \<and> length m \<le> 65535"
  by (rule strict_codecI [where pl = "\<lambda>m. le16 (of_nat (length m)) @ m"])
    (use auth_fail_payload [where e = "[]"] in \<open>auto simp: auth_fail_payload auth_fail_encode_def
      put_n_def intro!: small_payload\<close>)

section \<open>What the encoders refuse\<close>

lemma put_n_Inl_iff [simp]: "put_n b = Inl e \<longleftrightarrow> e = TooLarge \<and> length b > 65535"
  by (auto simp: put_n_def)

lemma put_hashes_Inl_iff [simp]: "put_hashes hs = Inl e \<longleftrightarrow> e = TooLarge \<and> length hs > MAX_CHAIN_HASHES"
  by (auto simp: put_hashes_def)

lemma challenge_encode_ok_iff: "is_ok (challenge_encode c) \<longleftrightarrow> challenge_fits c"
  by (auto simp: challenge_encode_def challenge_fits_def put_hashes_def)

lemma enroll_encode_ok_iff: "is_ok (enroll_encode x) \<longleftrightarrow> enroll_fits x"
  by (auto simp: enroll_encode_def enroll_fits_def put_n_def)

lemma assert_encode_ok_iff: "is_ok (assert_encode x) \<longleftrightarrow> assert_fits x"
  by (auto simp: assert_encode_def assert_fits_def put_n_def)

lemma auth_ok_encode_ok_iff:
  "is_ok (auth_ok_encode a) \<longleftrightarrow> length (ao_hashes a) \<le> MAX_CHAIN_HASHES"
  by (auto simp: auth_ok_encode_def put_hashes_def)

lemma auth_fail_encode_ok_iff: "is_ok (auth_fail_encode m) \<longleftrightarrow> length m \<le> 65535"
  by (auto simp: auth_fail_encode_def put_n_def)

lemmas auth_encode_ok_iff = challenge_encode_ok_iff enroll_encode_ok_iff assert_encode_ok_iff
  auth_ok_encode_ok_iff auth_fail_encode_ok_iff

section \<open>Properties\<close>

text \<open>C19: The authentication messages of variable length. Encoding succeeds exactly when every
  field fits its length prefix, and then the bytes are read back as the same message from the
  framed stream, whatever follows them.\<close>

theorem auth_messages_roundtrip:
  assumes "challenge_wf c" "length (en_nonce x) = 16" "auth_ok_wf k" "utf8_valid m"
  shows "(if challenge_fits c then \<exists>w. challenge_encode c = Inr w \<and> survives MSG_CHALLENGE challenge_decode c w
          else challenge_encode c = Inl TooLarge) \<and>
    (if enroll_fits x then \<exists>w. enroll_encode x = Inr w \<and> survives MSG_ENROLL enroll_decode x w
     else enroll_encode x = Inl TooLarge) \<and>
    (if assert_fits a then \<exists>w. assert_encode a = Inr w \<and> survives MSG_ASSERT assert_decode a w
     else assert_encode a = Inl TooLarge) \<and>
    (if length (ao_hashes k) \<le> MAX_CHAIN_HASHES
     then \<exists>w. auth_ok_encode k = Inr w \<and> survives MSG_AUTH_OK auth_ok_decode k w
     else auth_ok_encode k = Inl TooLarge) \<and>
    (if length m \<le> 65535 then \<exists>w. auth_fail_encode m = Inr w \<and> survives MSG_AUTH_FAIL auth_fail_decode m w
     else auth_fail_encode m = Inl TooLarge)"
proof (intro conjI)
  show "if challenge_fits c then \<exists>w. challenge_encode c = Inr w \<and> survives MSG_CHALLENGE challenge_decode c w
      else challenge_encode c = Inl TooLarge"
    using assms(1) auth_encode_ok_iff(1) [of c] challenge_wire.enc_survives [of c]
    by (auto simp: is_ok_iff challenge_encode_def challenge_fits_def put_hashes_def)
  show "if enroll_fits x then \<exists>w. enroll_encode x = Inr w \<and> survives MSG_ENROLL enroll_decode x w
      else enroll_encode x = Inl TooLarge"
    using assms(2) auth_encode_ok_iff(2) [of x] enroll_wire.enc_survives [of x]
    by (auto simp: is_ok_iff enroll_encode_def enroll_fits_def put_n_def)
  show "if assert_fits a then \<exists>w. assert_encode a = Inr w \<and> survives MSG_ASSERT assert_decode a w
      else assert_encode a = Inl TooLarge"
    using auth_encode_ok_iff(3) [of a] assert_wire.enc_survives [of a]
    by (auto simp: is_ok_iff assert_encode_def assert_fits_def put_n_def)
  show "if length (ao_hashes k) \<le> MAX_CHAIN_HASHES
      then \<exists>w. auth_ok_encode k = Inr w \<and> survives MSG_AUTH_OK auth_ok_decode k w
      else auth_ok_encode k = Inl TooLarge"
    using assms(3) auth_encode_ok_iff(4) [of k] auth_ok_wire.enc_survives [of k]
    by (auto simp: is_ok_iff auth_ok_encode_def put_hashes_def)
  show "if length m \<le> 65535 then \<exists>w. auth_fail_encode m = Inr w \<and> survives MSG_AUTH_FAIL auth_fail_decode m w
      else auth_fail_encode m = Inl TooLarge"
    using assms(4) auth_encode_ok_iff(5) [of m] auth_fail_wire.enc_survives [of m]
    by (auto simp: is_ok_iff auth_fail_encode_def put_n_def)
qed

theorem auth_messages_roundtrip_witness:
  "\<exists>w. challenge_encode \<lparr>ch_challenge = replicate 32 7, ch_rp_id = lit ''quosh'', ch_hashes = [replicate 32 1]\<rparr>
     = Inr w \<and> survives MSG_CHALLENGE challenge_decode
         \<lparr>ch_challenge = replicate 32 7, ch_rp_id = lit ''quosh'', ch_hashes = [replicate 32 1]\<rparr> w"
  using auth_messages_roundtrip
    [of "\<lparr>ch_challenge = replicate 32 7, ch_rp_id = lit ''quosh'', ch_hashes = [replicate 32 1]\<rparr>"
        "\<lparr>en_nonce = replicate 16 0, en_client_data_json = [1], en_attestation_object = [2]\<rparr>"
        "\<lparr>ao_auth_token = replicate 32 3, ao_uid = 5, ao_session_id = replicate 16 4,
          ao_session_token = replicate 32 6, ao_hashes = []\<rparr>" "lit ''no''"]
  by (simp add: challenge_wf_def challenge_fits_def auth_ok_wf_def lit_def MAX_CHAIN_HASHES_def of_char_def)

end
