(* ===== verification/Feed.thy ===== *)
theory Feed
  imports Framing "HOL-Library.Multiset"
begin

text \<open>
  The outgoing side of a framed stream (\<open>crates/quosh-proto/src/lib.rs\<close>): \<open>OutBuf\<close>, the
  bytes of the frame being written with the offset of the unsent suffix, and \<open>FrameFeed\<close>,
  which holds one frame in flight, a byte-capped queue of control frames, one coalesced
  screen and a final frame.

  The locale \<open>byte_sink\<close> is the contract \<open>FrameFeed\<close> relies on; \<open>OutBuf\<close> provides it.
  The lemmas show that the bytes handed to the transport are always whole frames followed
  by a prefix of the one in flight, that no frame is sent twice, that control frames leave
  in order without loss, that the control queue stays within its cap, and that flushing
  sends control frames, then the latest screen, then the final frame.
\<close>

section \<open>The contract of an output buffer\<close>

datatype sink_op = Queue bytes | Sent nat

fun sink_run ::
  "(bytes \<Rightarrow> 'q \<Rightarrow> 'q) \<Rightarrow> (nat \<Rightarrow> 'q \<Rightarrow> 'q) \<Rightarrow> ('q \<Rightarrow> bytes) \<Rightarrow> sink_op list \<Rightarrow> 'q \<Rightarrow> bytes \<times> 'q"
where
  "sink_run qu adv rst [] q = ([], q)"
| "sink_run qu adv rst (Queue b # ops) q = sink_run qu adv rst ops (qu b q)"
| "sink_run qu adv rst (Sent n # ops) q =
     (let (w, q') = sink_run qu adv rst ops (adv n q) in (take n (rst q) @ w, q'))"

fun sink_queued :: "sink_op list \<Rightarrow> bytes" where
  "sink_queued [] = []"
| "sink_queued (Queue b # ops) = b @ sink_queued ops"
| "sink_queued (Sent n # ops) = sink_queued ops"

locale byte_sink =
  fixes new :: "'q"
    and queue :: "bytes \<Rightarrow> 'q \<Rightarrow> 'q"
    and adv :: "nat \<Rightarrow> 'q \<Rightarrow> 'q"
    and rst :: "'q \<Rightarrow> bytes"
    and invar :: "'q \<Rightarrow> bool"
  assumes invar_new: "invar new"
    and invar_queue: "invar q \<Longrightarrow> invar (queue b q)"
    and invar_adv: "invar q \<Longrightarrow> invar (adv n q)"
    and rst_new: "rst new = []"
    and rst_queue: "invar q \<Longrightarrow> rst (queue b q) = rst q @ b"
    and rst_adv: "invar q \<Longrightarrow> rst (adv n q) = drop n (rst q)"
begin

lemma run_conserves:
  assumes "invar q" "sink_run queue adv rst ops q = (w, q')"
  shows "w @ rst q' = rst q @ sink_queued ops \<and> invar q'"
  using assms
proof (induction ops arbitrary: q w)
  case (Cons x ops)
  show ?case
  proof (cases x)
    case (Queue b)
    with Cons.prems(2) have "sink_run queue adv rst ops (queue b q) = (w, q')" by simp
    from Cons.IH [OF invar_queue [OF Cons.prems(1)] this] Queue Cons.prems(1)
    show ?thesis by (simp add: rst_queue)
  next
    case (Sent n)
    with Cons.prems(2) obtain w' where
      w': "sink_run queue adv rst ops (adv n q) = (w', q')" "w = take n (rst q) @ w'"
      by (auto split: prod.splits)
    from Cons.IH [OF invar_adv [OF Cons.prems(1)] w'(1)] Cons.prems(1)
    have "w' @ rst q' = drop n (rst q) @ sink_queued ops \<and> invar q'" by (simp add: rst_adv)
    with w'(2) Sent show ?thesis by (metis append_assoc append_take_drop_id sink_queued.simps(3))
  qed
qed simp

lemma run_from_new:
  "sink_run queue adv rst ops new = (w, q') \<Longrightarrow> w @ rst q' = sink_queued ops"
  using run_conserves [OF invar_new] by (fastforce simp: rst_new)

end

section \<open>OutBuf\<close>

record outbuf =
  ob_buf :: bytes
  ob_off :: nat

definition OUTBUF_MAX_UNREAD :: nat where "OUTBUF_MAX_UNREAD = 256 * 1024"

definition outbuf_new :: outbuf where "outbuf_new = \<lparr>ob_buf = [], ob_off = 0\<rparr>"

definition outbuf_queue :: "bytes \<Rightarrow> outbuf \<Rightarrow> outbuf" where
  "outbuf_queue bs q = q\<lparr>ob_buf := ob_buf q @ bs\<rparr>"

definition outbuf_unread :: "outbuf \<Rightarrow> nat" where
  "outbuf_unread q = length (ob_buf q) - ob_off q"

definition outbuf_try_queue :: "bytes \<Rightarrow> outbuf \<Rightarrow> bool \<times> outbuf" where
  "outbuf_try_queue bs q =
     (if outbuf_unread q + length bs > OUTBUF_MAX_UNREAD then (False, q)
      else (True, outbuf_queue bs q))"

definition outbuf_rest :: "outbuf \<Rightarrow> bytes" where
  "outbuf_rest q = (if ob_off q \<ge> length (ob_buf q) then [] else drop (ob_off q) (ob_buf q))"

definition outbuf_is_empty :: "outbuf \<Rightarrow> bool" where
  "outbuf_is_empty q \<longleftrightarrow> ob_off q \<ge> length (ob_buf q)"

definition outbuf_advance :: "nat \<Rightarrow> outbuf \<Rightarrow> outbuf" where
  "outbuf_advance n q =
     (let off = ob_off q + n in
      if off \<ge> length (ob_buf q) then \<lparr>ob_buf = [], ob_off = 0\<rparr>
      else \<lparr>ob_buf = drop off (ob_buf q), ob_off = 0\<rparr>)"

definition outbuf_ok :: "outbuf \<Rightarrow> bool" where
  "outbuf_ok q \<longleftrightarrow> ob_off q \<le> length (ob_buf q)"

lemma outbuf_rest_eq_drop: "outbuf_rest q = drop (ob_off q) (ob_buf q)"
  by (simp add: outbuf_rest_def)

lemma outbuf_is_empty_iff [simp]: "outbuf_is_empty q \<longleftrightarrow> outbuf_rest q = []"
  by (simp add: outbuf_is_empty_def outbuf_rest_def)

lemma outbuf_unread_rest: "outbuf_unread q = length (outbuf_rest q)"
  by (simp add: outbuf_unread_def outbuf_rest_def)

interpretation ob: byte_sink outbuf_new outbuf_queue outbuf_advance outbuf_rest outbuf_ok
  by unfold_locales
    (auto simp: outbuf_new_def outbuf_queue_def outbuf_advance_def outbuf_rest_eq_drop
      outbuf_ok_def Let_def add.commute)

lemma outbuf_rest_simps [simp]:
  "outbuf_rest outbuf_new = []"
  "outbuf_ok q \<Longrightarrow> outbuf_rest (outbuf_queue b q) = outbuf_rest q @ b"
  "outbuf_ok q \<Longrightarrow> outbuf_rest (outbuf_advance n q) = drop n (outbuf_rest q)"
  by (simp_all add: ob.rst_new ob.rst_queue ob.rst_adv)

lemma outbuf_ok_simps [simp]:
  "outbuf_ok outbuf_new" "outbuf_ok q \<Longrightarrow> outbuf_ok (outbuf_queue b q)"
  "outbuf_ok (outbuf_advance n q)"
  using ob.invar_new ob.invar_queue
  by (auto simp: outbuf_advance_def outbuf_ok_def Let_def)

section \<open>FrameFeed\<close>

record feed =
  fd_out :: outbuf
  fd_screen :: "bytes option"
  fd_ctrl :: "bytes list"
  fd_ctrl_bytes :: nat
  fd_fin :: "bytes option"

definition CTRL_CAP :: nat where "CTRL_CAP = 64 * 1024"

definition feed_new :: feed where
  "feed_new = \<lparr>fd_out = outbuf_new, fd_screen = None, fd_ctrl = [], fd_ctrl_bytes = 0,
               fd_fin = None\<rparr>"

definition feed_pump :: "feed \<Rightarrow> feed" where
  "feed_pump f =
     (if \<not> outbuf_is_empty (fd_out f) then f
      else case fd_ctrl f of
        c # cs \<Rightarrow> f\<lparr>fd_ctrl := cs, fd_ctrl_bytes := fd_ctrl_bytes f - length c,
                    fd_out := outbuf_queue c (fd_out f)\<rparr>
      | [] \<Rightarrow> (case fd_screen f of
          Some s \<Rightarrow> f\<lparr>fd_screen := None, fd_out := outbuf_queue s (fd_out f)\<rparr>
        | None \<Rightarrow> (case fd_fin f of
            Some z \<Rightarrow> f\<lparr>fd_fin := None, fd_out := outbuf_queue z (fd_out f)\<rparr>
          | None \<Rightarrow> f)))"

definition feed_push_screen :: "bytes \<Rightarrow> feed \<Rightarrow> feed" where
  "feed_push_screen frame f = feed_pump (f\<lparr>fd_screen := Some frame\<rparr>)"

definition feed_push_ctrl :: "bytes \<Rightarrow> feed \<Rightarrow> bool \<times> feed" where
  "feed_push_ctrl frame f0 =
     (let f = feed_pump f0 in
      if outbuf_is_empty (fd_out f) \<and> fd_ctrl f = []
      then (True, f\<lparr>fd_out := outbuf_queue frame (fd_out f)\<rparr>)
      else if fd_ctrl_bytes f + length frame > CTRL_CAP then (False, f)
      else (True, f\<lparr>fd_ctrl_bytes := fd_ctrl_bytes f + length frame,
                    fd_ctrl := fd_ctrl f @ [frame]\<rparr>))"

definition feed_push_fin :: "bytes \<Rightarrow> feed \<Rightarrow> feed" where
  "feed_push_fin frame f =
     feed_pump (f\<lparr>fd_fin := Some frame, fd_ctrl := [], fd_ctrl_bytes := 0\<rparr>)"

definition feed_rest :: "feed \<Rightarrow> bytes" where
  "feed_rest f = outbuf_rest (fd_out f)"

definition feed_is_empty :: "feed \<Rightarrow> bool" where
  "feed_is_empty f \<longleftrightarrow> outbuf_is_empty (fd_out f) \<and> fd_screen f = None \<and> fd_ctrl f = [] \<and>
     fd_fin f = None"

definition feed_writing :: "feed \<Rightarrow> bool" where
  "feed_writing f \<longleftrightarrow> \<not> outbuf_is_empty (fd_out f)"

definition feed_advance :: "nat \<Rightarrow> feed \<Rightarrow> feed" where
  "feed_advance n f = feed_pump (f\<lparr>fd_out := outbuf_advance n (fd_out f)\<rparr>)"

lemmas feed_op_defs =
  feed_push_screen_def feed_push_ctrl_def feed_push_fin_def feed_advance_def

section \<open>The invariant\<close>

text \<open>
  The byte count is the size of the queued control frames and within the cap; the buffer's
  offset is in range.
\<close>

definition feed_ok :: "feed \<Rightarrow> bool" where
  "feed_ok f \<longleftrightarrow> outbuf_ok (fd_out f) \<and> fd_ctrl_bytes f = sum_list (map length (fd_ctrl f)) \<and>
     fd_ctrl_bytes f \<le> CTRL_CAP"

lemma feed_ok_new [simp]: "feed_ok feed_new"
  by (simp add: feed_ok_def feed_new_def)

lemma feed_ok_pump [simp]: "feed_ok f \<Longrightarrow> feed_ok (feed_pump f)"
  by (auto simp: feed_ok_def feed_pump_def split: list.splits option.splits)

lemma feed_ok_push_screen [simp]: "feed_ok f \<Longrightarrow> feed_ok (feed_push_screen s f)"
  unfolding feed_push_screen_def by (rule feed_ok_pump) (simp add: feed_ok_def)

lemma feed_ok_push_fin [simp]: "feed_ok f \<Longrightarrow> feed_ok (feed_push_fin s f)"
  unfolding feed_push_fin_def by (rule feed_ok_pump) (simp add: feed_ok_def)

lemma feed_ok_advance [simp]: "feed_ok f \<Longrightarrow> feed_ok (feed_advance n f)"
  unfolding feed_advance_def by (rule feed_ok_pump) (simp add: feed_ok_def)

lemma feed_ok_push_ctrl [simp]:
  assumes "feed_ok f"
  shows "feed_ok (snd (feed_push_ctrl s f))"
proof -
  have "feed_ok (feed_pump f)" using assms by simp
  then show ?thesis by (auto simp: feed_push_ctrl_def Let_def feed_ok_def)
qed

section \<open>Runs\<close>

datatype feed_op = Pump | Push_Screen bytes | Push_Ctrl bytes | Push_Fin bytes | Advance nat

text \<open>One operation: the bytes that went out on the wire and the new feed.\<close>

fun feed_step :: "feed_op \<Rightarrow> feed \<Rightarrow> bytes \<times> feed" where
  "feed_step Pump f = ([], feed_pump f)"
| "feed_step (Push_Screen s) f = ([], feed_push_screen s f)"
| "feed_step (Push_Ctrl c) f = ([], snd (feed_push_ctrl c f))"
| "feed_step (Push_Fin z) f = ([], feed_push_fin z f)"
| "feed_step (Advance n) f = (take n (feed_rest f), feed_advance n f)"

fun feed_run :: "feed_op list \<Rightarrow> feed \<Rightarrow> bytes \<times> feed" where
  "feed_run [] f = ([], f)"
| "feed_run (x # xs) f =
     (let (w, f') = feed_step x f; (w', f'') = feed_run xs f' in (w @ w', f''))"

fun op_frames :: "feed_op \<Rightarrow> bytes list" where
  "op_frames (Push_Screen s) = [s]"
| "op_frames (Push_Ctrl c) = [c]"
| "op_frames (Push_Fin z) = [z]"
| "op_frames _ = []"

definition feed_pending :: "feed \<Rightarrow> bytes list" where
  "feed_pending f = fd_ctrl f @ (case fd_screen f of None \<Rightarrow> [] | Some s \<Rightarrow> [s]) @
     (case fd_fin f of None \<Rightarrow> [] | Some z \<Rightarrow> [z])"

lemma feed_ok_step [simp]: "feed_ok f \<Longrightarrow> feed_ok (snd (feed_step x f))"
  by (cases x) simp_all

lemma feed_ok_run: "feed_ok f \<Longrightarrow> feed_ok (snd (feed_run xs f))"
proof (induction xs arbitrary: f)
  case (Cons x xs)
  from Cons.IH [of "snd (feed_step x f)"] Cons.prems show ?case
    by (simp add: Let_def split_def)
qed simp

lemma feed_pump_frames:
  assumes "feed_ok f"
  shows "\<exists>fs. feed_rest (feed_pump f) = feed_rest f @ concat fs \<and>
              mset fs + mset (feed_pending (feed_pump f)) = mset (feed_pending f)"
proof (cases "outbuf_is_empty (fd_out f)")
  case False
  then show ?thesis by (intro exI [of _ "[]"]) (simp add: feed_pump_def)
next
  case True
  then show ?thesis using assms
    by (intro exI [of _ "take 1 (feed_pending f)"])
      (auto simp: feed_pump_def feed_rest_def feed_ok_def feed_pending_def
        split: list.split option.split)
qed

lemma feed_step_frames:
  assumes "feed_ok f"
  shows "\<exists>fs. fst (feed_step x f) @ feed_rest (snd (feed_step x f)) = feed_rest f @ concat fs \<and>
     mset fs + mset (feed_pending (snd (feed_step x f)))
       \<subseteq># mset (feed_pending f) + mset (op_frames x)"
proof (cases x)
  case Pump
  from feed_pump_frames [OF assms] show ?thesis by (auto simp: Pump)
next
  case (Push_Screen s)
  let ?f = "f\<lparr>fd_screen := Some s\<rparr>"
  from assms have "feed_ok ?f" by (simp add: feed_ok_def)
  from feed_pump_frames [OF this] obtain fs where
    fs: "feed_rest (feed_pump ?f) = feed_rest ?f @ concat fs"
      "mset fs + mset (feed_pending (feed_pump ?f)) = mset (feed_pending ?f)" by blast
  have "mset (feed_pending ?f) \<subseteq># mset (feed_pending f) + mset (op_frames x)"
    using Push_Screen by (auto simp: feed_pending_def split: option.split)
  with fs Push_Screen show ?thesis
    by (intro exI [of _ fs]) (simp add: feed_push_screen_def feed_rest_def)
next
  case (Push_Ctrl c)
  from feed_pump_frames [OF assms] obtain fs where
    fs: "feed_rest (feed_pump f) = feed_rest f @ concat fs"
      "mset fs + mset (feed_pending (feed_pump f)) = mset (feed_pending f)" by blast
  have ok: "feed_ok (feed_pump f)" using assms by simp
  show ?thesis
  proof (cases "outbuf_is_empty (fd_out (feed_pump f)) \<and> fd_ctrl (feed_pump f) = []")
    case True
    with fs ok Push_Ctrl show ?thesis
      by (intro exI [of _ "fs @ [c]"])
        (simp add: feed_push_ctrl_def feed_rest_def Let_def feed_pending_def feed_ok_def flip: append_assoc)
  next
    case False
    with fs Push_Ctrl show ?thesis
      by (intro exI [of _ fs]) (auto simp: feed_push_ctrl_def feed_rest_def Let_def feed_pending_def)
  qed
next
  case (Push_Fin z)
  let ?f = "f\<lparr>fd_fin := Some z, fd_ctrl := [], fd_ctrl_bytes := 0\<rparr>"
  from assms have "feed_ok ?f" by (simp add: feed_ok_def)
  from feed_pump_frames [OF this] obtain fs where
    fs: "feed_rest (feed_pump ?f) = feed_rest ?f @ concat fs"
      "mset fs + mset (feed_pending (feed_pump ?f)) = mset (feed_pending ?f)" by blast
  have "mset (feed_pending ?f) \<subseteq># mset (feed_pending f) + mset (op_frames x)"
    using Push_Fin by (auto simp: feed_pending_def split: option.split)
  with fs Push_Fin show ?thesis
    by (intro exI [of _ fs]) (simp add: feed_push_fin_def feed_rest_def)
next
  case (Advance n)
  let ?f = "f\<lparr>fd_out := outbuf_advance n (fd_out f)\<rparr>"
  from assms have "feed_ok ?f" by (simp add: feed_ok_def)
  from feed_pump_frames [OF this] obtain fs where
    fs: "feed_rest (feed_pump ?f) = feed_rest ?f @ concat fs"
      "mset fs + mset (feed_pending (feed_pump ?f)) = mset (feed_pending ?f)" by blast
  with Advance assms show ?thesis
    by (intro exI [of _ fs])
      (simp add: feed_advance_def feed_rest_def feed_pending_def feed_ok_def flip: append_assoc)
qed

lemma feed_run_frames:
  assumes "feed_ok f"
  shows "\<exists>fs. fst (feed_run xs f) @ feed_rest (snd (feed_run xs f)) = feed_rest f @ concat fs \<and>
     mset fs + mset (feed_pending (snd (feed_run xs f)))
       \<subseteq># mset (feed_pending f) + mset (concat (map op_frames xs))"
  using assms
proof (induction xs arbitrary: f)
  case (Cons x xs)
  obtain w f' where s: "feed_step x f = (w, f')" by fastforce
  obtain w' f'' where r: "feed_run xs f' = (w', f'')" by fastforce
  from feed_step_frames [OF Cons.prems, of x] s obtain fs where
    fs: "w @ feed_rest f' = feed_rest f @ concat fs"
      "mset fs + mset (feed_pending f') \<subseteq># mset (feed_pending f) + mset (op_frames x)"
    by auto
  have "feed_ok f'" using feed_ok_step [OF Cons.prems, of x] s by simp
  from Cons.IH [OF this] r obtain gs where
    gs: "w' @ feed_rest f'' = feed_rest f' @ concat gs"
      "mset gs + mset (feed_pending f'') \<subseteq>#
         mset (feed_pending f') + mset (concat (map op_frames xs))"
    by auto
  have "(w @ w') @ feed_rest f'' = feed_rest f @ concat (fs @ gs)"
    using fs(1) gs(1) by (metis append_assoc concat_append)
  moreover have "mset (fs @ gs) + mset (feed_pending f'')
      \<subseteq># mset (feed_pending f) + mset (concat (map op_frames (x # xs)))"
  proof (rule subset_mset.order_trans)
    show "mset (fs @ gs) + mset (feed_pending f'')
        \<subseteq># mset fs + (mset (feed_pending f') + mset (concat (map op_frames xs)))"
      using subset_mset.add_left_mono [OF gs(2), of "mset fs"] by (simp add: ac_simps)
    show "mset fs + (mset (feed_pending f') + mset (concat (map op_frames xs)))
        \<subseteq># mset (feed_pending f) + mset (concat (map op_frames (x # xs)))"
      using subset_mset.add_right_mono [OF fs(2)] by (simp add: ac_simps)
  qed
  ultimately show ?case
    using s r by (intro exI [of _ "fs @ gs"]) simp
qed (auto intro: exI [of _ "[]"])

section \<open>What a feed still has to send\<close>

text \<open>
  The abstraction of a feed: the bytes it will put on the wire if nothing more is pushed.
  Pumping does not change it, sending takes its prefix, pushing appends.
\<close>

definition feed_abs :: "feed \<Rightarrow> bytes" where
  "feed_abs f = feed_rest f @ concat (feed_pending f)"

lemma feed_abs_pump [simp]: "feed_ok f \<Longrightarrow> feed_abs (feed_pump f) = feed_abs f"
  by (auto simp: feed_abs_def feed_pump_def feed_rest_def feed_pending_def feed_ok_def
      split: list.split option.split)

lemma feed_abs_new [simp]: "feed_abs feed_new = []"
  by (simp add: feed_abs_def feed_new_def feed_rest_def feed_pending_def)

lemma feed_abs_advance:
  assumes "feed_ok f" "n \<le> length (feed_rest f)"
  shows "feed_abs (feed_advance n f) = drop n (feed_abs f)"
proof -
  let ?f = "f\<lparr>fd_out := outbuf_advance n (fd_out f)\<rparr>"
  have "feed_ok ?f" using assms(1) by (simp add: feed_ok_def)
  then have "feed_abs (feed_advance n f) = feed_abs ?f" by (simp add: feed_advance_def)
  also have "\<dots> = drop n (feed_abs f)"
    using assms by (simp add: feed_abs_def feed_rest_def feed_pending_def feed_ok_def)
  finally show ?thesis .
qed

lemma feed_abs_push_ctrl:
  assumes "feed_ok f" "fd_screen f = None" "fd_fin f = None"
  shows "feed_abs (snd (feed_push_ctrl c f)) =
           feed_abs f @ (if fst (feed_push_ctrl c f) then c else [])
         \<and> fd_screen (snd (feed_push_ctrl c f)) = None \<and> fd_fin (snd (feed_push_ctrl c f)) = None"
proof -
  let ?g = "feed_pump f"
  have p: "feed_abs f = feed_rest ?g @ concat (fd_ctrl ?g)" "outbuf_ok (fd_out ?g)"
      "fd_screen ?g = None" "fd_fin ?g = None"
  proof -
    show n: "fd_screen ?g = None" "fd_fin ?g = None"
      using assms(2,3) by (simp_all add: feed_pump_def split: list.split)
    have "feed_abs ?g = feed_abs f" using assms(1) by simp
    then show "feed_abs f = feed_rest ?g @ concat (fd_ctrl ?g)"
      by (simp add: feed_abs_def feed_pending_def n)
    show "outbuf_ok (fd_out ?g)" using feed_ok_pump [OF assms(1)] by (simp add: feed_ok_def)
  qed
  show ?thesis
    using p by (auto simp: feed_push_ctrl_def Let_def feed_abs_def
        feed_rest_def feed_pending_def)
qed

lemma feed_abs_push_screen:
  assumes "feed_ok f"
  shows "feed_abs (feed_push_screen s f) =
     feed_rest f @ concat (fd_ctrl f) @ s @ (case fd_fin f of None \<Rightarrow> [] | Some z \<Rightarrow> z)"
proof -
  have "feed_ok (f\<lparr>fd_screen := Some s\<rparr>)" using assms by (simp add: feed_ok_def)
  then show ?thesis
    by (simp add: feed_push_screen_def) (simp add: feed_abs_def feed_rest_def feed_pending_def split: option.split)
qed

lemma feed_abs_push_fin:
  assumes "feed_ok f"
  shows "feed_abs (feed_push_fin z f) =
     feed_rest f @ (case fd_screen f of None \<Rightarrow> [] | Some s \<Rightarrow> s) @ z"
proof -
  have "feed_ok (f\<lparr>fd_fin := Some z, fd_ctrl := [], fd_ctrl_bytes := 0\<rparr>)"
    using assms by (simp add: feed_ok_def)
  then show ?thesis
    by (simp add: feed_push_fin_def) (simp add: feed_abs_def feed_rest_def feed_pending_def split: option.split)
qed

text \<open>Sending everything there is, one in-flight frame after the other.\<close>

function feed_drain :: "feed \<Rightarrow> bytes" where
  "feed_drain f =
     (if feed_rest f = [] then []
      else feed_rest f @ feed_drain (feed_advance (length (feed_rest f)) f))"
  by pat_completeness auto
termination
proof (relation "measure (\<lambda>f. length (feed_pending f) + (if feed_rest f = [] then 0 else 1))")
  fix f :: feed
  assume "feed_rest f \<noteq> []"
  moreover have "outbuf_rest (outbuf_advance (length (feed_rest f)) (fd_out f)) = []"
    by (auto simp: outbuf_advance_def outbuf_rest_def feed_rest_def Let_def split: if_splits)
  ultimately show "(feed_advance (length (feed_rest f)) f, f)
      \<in> measure (\<lambda>f. length (feed_pending f) + (if feed_rest f = [] then 0 else 1))"
    by (auto simp: feed_advance_def feed_pump_def feed_pending_def feed_rest_def
        split: list.split option.split)
qed simp

declare feed_drain.simps [simp del]

text \<open>A feed is pumped when nothing waits behind an empty output buffer.\<close>

definition feed_pumped :: "feed \<Rightarrow> bool" where
  "feed_pumped f \<longleftrightarrow> list_all (\<lambda>x. x \<noteq> []) (feed_pending f) \<and>
     (feed_rest f = [] \<longrightarrow> feed_pending f = [])"

lemma feed_pumped_pump:
  assumes "feed_ok f" "list_all (\<lambda>x. x \<noteq> []) (feed_pending f)"
  shows "feed_pumped (feed_pump f)"
  using assms
  by (auto simp: feed_pumped_def feed_pump_def feed_pending_def feed_ok_def feed_rest_def
      split: list.splits option.splits)

lemma feed_drain_abs:
  assumes "feed_ok f" "feed_pumped f"
  shows "feed_drain f = feed_abs f"
  using assms
proof (induction f rule: feed_drain.induct)
  case (1 f)
  show ?case
  proof (cases "feed_rest f = []")
    case True
    with 1 show ?thesis by (simp add: feed_drain.simps [of f] feed_abs_def feed_pumped_def)
  next
    case False
    let ?n = "length (feed_rest f)"
    have "feed_pumped (feed_advance ?n f)"
      unfolding feed_advance_def
      by (rule feed_pumped_pump) (use "1.prems" in
        \<open>auto simp: feed_ok_def feed_pumped_def feed_pending_def\<close>)
    with "1.IH" [OF False] "1.prems" have "feed_drain (feed_advance ?n f) = feed_abs (feed_advance ?n f)"
      by simp
    also have "\<dots> = concat (feed_pending f)"
      using feed_abs_advance [OF "1.prems"(1), of ?n] by (simp add: feed_abs_def)
    finally show ?thesis using False by (simp add: feed_drain.simps [of f] feed_abs_def)
  qed
qed

text \<open>The control frames a run accepted, in the order they were pushed.\<close>

fun feed_accepted :: "feed_op list \<Rightarrow> feed \<Rightarrow> bytes list" where
  "feed_accepted [] f = []"
| "feed_accepted (x # xs) f =
     (case x of Push_Ctrl c \<Rightarrow> (if fst (feed_push_ctrl c f) then [c] else []) | _ \<Rightarrow> [])
       @ feed_accepted xs (snd (feed_step x f))"

text \<open>A transport only advances by what it was offered; only control frames are pushed.\<close>

fun ctrl_run :: "feed_op list \<Rightarrow> feed \<Rightarrow> bool" where
  "ctrl_run [] f = True"
| "ctrl_run (x # xs) f =
     ((case x of Pump \<Rightarrow> True | Push_Ctrl c \<Rightarrow> True | Advance n \<Rightarrow> n \<le> length (feed_rest f) | _ \<Rightarrow> False)
       \<and> ctrl_run xs (snd (feed_step x f)))"

lemma feed_pump_ctrl_only:
  "fd_screen f = None \<Longrightarrow> fd_fin f = None \<Longrightarrow>
   fd_screen (feed_pump f) = None \<and> fd_fin (feed_pump f) = None"
  by (simp add: feed_pump_def split: list.split)

lemma ctrl_run_conserves:
  assumes "feed_ok f" "fd_screen f = None" "fd_fin f = None" "ctrl_run xs f"
  shows "fst (feed_run xs f) @ feed_abs (snd (feed_run xs f)) =
         feed_abs f @ concat (feed_accepted xs f)"
  using assms
proof (induction xs arbitrary: f)
  case (Cons x xs)
  let ?g = "snd (feed_step x f)"
  have "feed_ok ?g" using Cons.prems(1) by simp
  moreover have "fd_screen ?g = None \<and> fd_fin ?g = None \<and>
      fst (feed_step x f) @ feed_abs ?g = feed_abs f @
        concat (case x of Push_Ctrl c \<Rightarrow> (if fst (feed_push_ctrl c f) then [c] else []) | _ \<Rightarrow> [])"
  proof (cases x)
    case (Push_Ctrl c)
    then show ?thesis using feed_abs_push_ctrl [OF Cons.prems(1-3), of c] by simp
  next
    case (Advance n)
    with Cons.prems have "n \<le> length (feed_rest f)" by simp
    moreover from this have "take n (feed_rest f) = take n (feed_abs f)"
      by (simp add: feed_abs_def)
    ultimately show ?thesis using Advance Cons.prems
      by (simp add: feed_abs_advance feed_advance_def feed_pump_ctrl_only
          feed_abs_advance [unfolded feed_advance_def])
  qed (use Cons.prems in \<open>auto simp: feed_pump_ctrl_only\<close>)
  ultimately show ?case using Cons.IH [of ?g] Cons.prems(4)
    by (simp add: Let_def split_def)
qed simp

section \<open>Properties\<close>

text \<open>C18: Whatever is pushed, advanced and coalesced, the bytes handed to the transport followed
  by the unsent part of the frame in flight are a concatenation of whole frames, each one pushed
  before and none used twice: a reader never sees a torn or duplicated frame.\<close>

theorem feed_whole_frames:
  "\<exists>fs. fst (feed_run xs feed_new) @ feed_rest (snd (feed_run xs feed_new)) = concat fs \<and>
     mset fs + mset (feed_pending (snd (feed_run xs feed_new)))
       \<subseteq># mset (concat (map op_frames xs))"
  using feed_run_frames [OF feed_ok_new, of xs]
  by (auto simp: feed_rest_def feed_pending_def feed_new_def)

text \<open>Control frames are not reordered, lost or duplicated: while only control frames are
  pushed, the bytes sent followed by those the feed still holds are the accepted frames in the
  order of their pushes.\<close>

theorem feed_ctrl_fifo:
  assumes "ctrl_run xs feed_new"
  shows "fst (feed_run xs feed_new) @ feed_abs (snd (feed_run xs feed_new)) =
         concat (feed_accepted xs feed_new)"
proof -
  have "fd_screen feed_new = None" "fd_fin feed_new = None" by (simp_all add: feed_new_def)
  from ctrl_run_conserves [OF feed_ok_new this assms] show ?thesis by simp
qed

theorem feed_ctrl_fifo_witness:
  "fst (feed_run [Push_Ctrl [1, 2], Push_Ctrl [3], Advance 2, Push_Ctrl [4], Advance 1] feed_new) @
   feed_abs (snd (feed_run [Push_Ctrl [1, 2], Push_Ctrl [3], Advance 2, Push_Ctrl [4], Advance 1]
     feed_new)) = [1, 2, 3, 4]"
  by (subst feed_ctrl_fifo)
    (simp_all add: feed_push_ctrl_def feed_pump_def feed_new_def outbuf_new_def feed_rest_def
      outbuf_rest_def outbuf_queue_def feed_advance_def outbuf_advance_def CTRL_CAP_def)

text \<open>In every reachable feed the queued control frames are within the byte budget and the
  byte counter is their exact size; a control frame is refused only when it would exceed that
  budget, and a refused push leaves what will be sent unchanged.\<close>

theorem feed_ctrl_bounded:
  "let f = snd (feed_run xs feed_new); (ok, g) = feed_push_ctrl c f in
     sum_list (map length (fd_ctrl f)) \<le> CTRL_CAP \<and>
     fd_ctrl_bytes f = sum_list (map length (fd_ctrl f)) \<and>
     (ok \<or> (feed_abs g = feed_abs f \<and> sum_list (map length (fd_ctrl g)) + length c > CTRL_CAP))"
proof -
  let ?f = "snd (feed_run xs feed_new)"
  have ok: "feed_ok ?f" by (rule feed_ok_run) simp
  then have "feed_ok (feed_pump ?f)" by simp
  then have "fd_ctrl_bytes (feed_pump ?f) = sum_list (map length (fd_ctrl (feed_pump ?f)))"
    by (simp add: feed_ok_def)
  with ok show ?thesis
    by (auto simp: feed_push_ctrl_def Let_def) (auto simp: feed_ok_def)
qed

text \<open>Once the final frame is queued the feed sends exactly: the rest of the frame in
  flight, the latest screen if there is one, and the final frame. Queued control frames are
  dropped and nothing follows.\<close>

theorem feed_fin_last:
  assumes "feed_ok f" "list_all (\<lambda>x. x \<noteq> []) (feed_pending f)" "z \<noteq> []"
  shows "feed_drain (feed_push_fin z f) =
         feed_rest f @ (case fd_screen f of None \<Rightarrow> [] | Some s \<Rightarrow> s) @ z"
proof -
  let ?f = "f\<lparr>fd_fin := Some z, fd_ctrl := [], fd_ctrl_bytes := 0\<rparr>"
  have "feed_pumped (feed_push_fin z f)"
    unfolding feed_push_fin_def using assms
    by (intro feed_pumped_pump) (auto simp: feed_ok_def feed_pending_def split: option.splits)
  then have "feed_drain (feed_push_fin z f) = feed_abs (feed_push_fin z f)"
    by (intro feed_drain_abs feed_ok_push_fin assms(1))
  then show ?thesis by (simp add: feed_abs_push_fin [OF assms(1)])
qed

theorem feed_fin_last_witness:
  "feed_drain (feed_push_fin [9] (snd (feed_run [Push_Ctrl [1, 2], Push_Ctrl [3], Advance 1,
     Push_Screen [7], Push_Screen [8]] feed_new))) = [2, 8, 9]"
  by (subst feed_fin_last)
    (simp_all add: feed_push_ctrl_def feed_push_screen_def feed_pump_def feed_new_def outbuf_new_def
      feed_rest_def outbuf_rest_def outbuf_queue_def feed_advance_def outbuf_advance_def
      CTRL_CAP_def feed_ok_def outbuf_ok_def feed_pending_def)

end
