(* ===== verification/Client.thy ===== *)
theory Client
  imports Predict_Gate Auth_Messages Feed
begin

text \<open>
  The client state machine (\<open>crates/quosh-client/src/lib.rs\<close>): connection, input sequencing,
  acknowledgements, liveness, prediction feed and display. The clock is the argument \<open>now_ms\<close>,
  output is the \<open>FrameFeed\<close> of \<open>Feed\<close>, frames and predictions come from the library record.
  A handler that fails leaves the state it had reached, so handlers return the new state with
  an optional error. The smoothed round-trip time is an \<open>f64\<close>: it is a rational, every
  arithmetic operation followed by the rounding function \<open>f64_rnd\<close> of the library record.
\<close>

section \<open>State\<close>

record ('f, 'v) client_lib = "('f, 'v) predict_lib" +
  f64_rnd :: "rat \<Rightarrow> rat"

definition PASTE_BYTES :: nat where "PASTE_BYTES = 100"
definition UNACKED_CAP :: nat where "UNACKED_CAP = 256 * 1024"
definition PING_INTERVAL_MS :: u64 where "PING_INTERVAL_MS = 1000"

definition scaled_ms :: "('f, 'v, 'z) client_lib_scheme \<Rightarrow> rat option \<Rightarrow> rat \<Rightarrow> u64" where
  "scaled_ms F srtt factor = (case srtt of None \<Rightarrow> 0
     | Some s \<Rightarrow> of_int \<lfloor>min 20000 (max 0 (f64_rnd F (factor * s)))\<rfloor>)"

definition ping_retry_ms :: "('f, 'v, 'z) client_lib_scheme \<Rightarrow> rat option \<Rightarrow> u64" where
  "ping_retry_ms F srtt = max 2000 (scaled_ms F srtt 2)"

definition link_dead_ms :: "('f, 'v, 'z) client_lib_scheme \<Rightarrow> rat option \<Rightarrow> u64" where
  "link_dead_ms F srtt = max 8000 (scaled_ms F srtt 4)"

text \<open>\<open>ClientError::Fatal\<close> with its message: one constructor for each message of the code.\<close>

datatype client_error =
    Protocol_Error proto_error
  | Invalid_Hello_Ok proto_error
  | Server_Protocol u16
  | Invalid_Shared_Screen proto_error
  | Shared_Metadata_Missing
  | Server_Error u16 rstr
  | Epoch_Regressed

datatype tick = Alive | LinkDead

record ('f, 'v) client =
  cl_session_id :: bytes
  cl_token :: bytes
  cl_cols :: u16
  cl_rows :: u16
  cl_never :: bool
  cl_shared_prediction :: "(u64 \<times> bool) option"
  cl_connected :: bool
  cl_hello_ok :: bool
  cl_feed :: feed
  cl_sent_seq :: u64
  cl_pending_ack :: "u64 option"
  cl_recv_buf :: bytes
  cl_seq :: u64
  cl_unacked :: "(u64 \<times> bytes) list"
  cl_last_rx_ms :: "u64 option"
  cl_last_ping_ms :: u64
  cl_ping_sent_ms :: "u64 option"
  cl_srtt_ms :: "rat option"
  cl_predictor :: "'v predictor"
  cl_confirmed :: "'f screen option"
  cl_display :: "'f option"
  cl_outage :: "u64 option"
  cl_hungup :: bool
  cl_exit_code :: u32

definition client_new ::
  "('f, 'v, 'z) client_lib_scheme \<Rightarrow> bytes \<Rightarrow> bytes \<Rightarrow> u16 \<Rightarrow> u16 \<Rightarrow> bool \<Rightarrow> ('f, 'v) client" where
  "client_new F session_id token cols rows predict_never =
     \<lparr>cl_session_id = session_id, cl_token = token, cl_cols = cols, cl_rows = rows,
      cl_never = predict_never, cl_shared_prediction = None, cl_connected = False,
      cl_hello_ok = False, cl_feed = feed_new, cl_sent_seq = 0, cl_pending_ack = None,
      cl_recv_buf = [], cl_seq = 0, cl_unacked = [], cl_last_rx_ms = None, cl_last_ping_ms = 0,
      cl_ping_sent_ms = None, cl_srtt_ms = None,
      cl_predictor = set_display_preference (if predict_never then Never else Adaptive) (predictor_new F),
      cl_confirmed = None, cl_display = None, cl_outage = None, cl_hungup = False, cl_exit_code = 0\<rparr>"

section \<open>Output\<close>

definition client_outbound :: "('f, 'v) client \<Rightarrow> bytes" where
  "client_outbound c = feed_rest (cl_feed c)"

definition client_writing :: "('f, 'v) client \<Rightarrow> bool" where
  "client_writing c = feed_writing (cl_feed c)"

definition client_advance_outbound :: "nat \<Rightarrow> ('f, 'v) client \<Rightarrow> ('f, 'v) client" where
  "client_advance_outbound n c = c\<lparr>cl_feed := feed_advance n (cl_feed c)\<rparr>"

text \<open>The two halves of \<open>pump\<close>: the pending acknowledgement, then the next unsent input.\<close>

definition pump_ack :: "('f, 'v) client \<Rightarrow> ('f, 'v) client" where
  "pump_ack c = (case cl_pending_ack c of None \<Rightarrow> c
     | Some v \<Rightarrow> (let (ok, fd) = feed_push_ctrl (encode_ack_state v) (cl_feed c) in
         if ok then c\<lparr>cl_feed := fd, cl_pending_ack := None\<rparr> else c\<lparr>cl_feed := fd\<rparr>))"

definition pump_input :: "('f, 'v) client \<Rightarrow> ('f, 'v) client" where
  "pump_input c = (case List.find (\<lambda>(s, _). s > cl_sent_seq c) (cl_unacked c) of None \<Rightarrow> c
     | Some (s, data) \<Rightarrow> (let (ok, fd) = feed_push_ctrl (encode_input s data) (cl_feed c) in
         if ok then c\<lparr>cl_feed := fd, cl_sent_seq := s\<rparr> else c\<lparr>cl_feed := fd\<rparr>))"

definition client_pump :: "('f, 'v) client \<Rightarrow> ('f, 'v) client" where
  "client_pump c0 =
     (if \<not> cl_connected c0 \<or> cl_hungup c0 then c0
      else let c = pump_ack c0 in
        if feed_writing (cl_feed c) then c else pump_input c)"

definition unacked_bytes :: "('f, 'v) client \<Rightarrow> nat" where
  "unacked_bytes c = sum_list (map (\<lambda>(_, d). length d) (cl_unacked c))"

definition can_accept_input :: "('f, 'v) client \<Rightarrow> bool" where
  "can_accept_input c \<longleftrightarrow> unacked_bytes c < UNACKED_CAP"

definition client_hello :: "('f, 'v) client \<Rightarrow> bytes" where
  "client_hello c = hello_encode \<lparr>h_protocol = PROTOCOL_VERSION, h_session_id = cl_session_id c,
     h_token = cl_token c, h_cols = cl_cols c, h_rows = cl_rows c\<rparr>"

definition begin_connection :: "u64 \<Rightarrow> ('f, 'v) client \<Rightarrow> ('f, 'v) client" where
  "begin_connection now_ms c =
     c\<lparr>cl_connected := True, cl_hello_ok := False, cl_recv_buf := [],
       cl_feed := snd (feed_push_ctrl (client_hello c) feed_new), cl_sent_seq := 0,
       cl_pending_ack := None, cl_ping_sent_ms := None, cl_last_ping_ms := now_ms,
       cl_last_rx_ms := Some now_ms, cl_outage := None\<rparr>"

definition end_connection :: "('f, 'v) client \<Rightarrow> ('f, 'v) client" where
  "end_connection c = c\<lparr>cl_connected := False\<rparr>"

definition client_reset :: "('f, 'v) client \<Rightarrow> ('f, 'v) client" where
  "client_reset c = c\<lparr>cl_predictor := predictor_reset (cl_predictor c), cl_display := None\<rparr>"

section \<open>Screens\<close>

definition refresh_display :: "('f, 'v, 'z) client_lib_scheme \<Rightarrow> ('f, 'v) client \<Rightarrow> ('f, 'v) client" where
  "refresh_display F c = (case cl_confirmed c of None \<Rightarrow> c\<lparr>cl_display := None\<rparr>
     | Some s \<Rightarrow> c\<lparr>cl_display := Some (predictor_apply F (cl_predictor c) (sc_frame s))\<rparr>)"

definition apply_screen ::
  "('f, 'v, 'z) client_lib_scheme \<Rightarrow> 'f screen \<Rightarrow> u64 \<Rightarrow> ('f, 'v) client \<Rightarrow> ('f, 'v) client" where
  "apply_screen F incoming now_ms c = (case apply_newer (cl_confirmed c) incoming of None \<Rightarrow> c
     | Some s \<Rightarrow> refresh_display F (c\<lparr>
         cl_predictor := cull F (sc_frame s) now_ms
           (set_local_frame_late_acked (sc_echo_ack s) (cl_predictor c)),
         cl_pending_ack := Some (sc_version s), cl_confirmed := Some s, cl_outage := None\<rparr>))"

definition shared_context ::
  "u64 \<times> bool \<Rightarrow> ('f, 'v) client \<Rightarrow> ('f, 'v) client" where
  "shared_context ctx c =
     (if cl_shared_prediction c \<noteq> Some ctx then
        c\<lparr>cl_predictor := set_display_preference (if cl_never c \<or> \<not> snd ctx then Never else Adaptive)
            (predictor_reset (cl_predictor c)), cl_shared_prediction := Some ctx\<rparr>
      else c)"

definition apply_shared_screen ::
  "('f, 'v, 'z) client_lib_scheme \<Rightarrow> 'f shared_screen \<Rightarrow> u64 \<Rightarrow> ('f, 'v) client \<Rightarrow>
   ('f, 'v) client \<times> client_error option" where
  "apply_shared_screen F incoming now_ms c =
     (case apply_newer (cl_confirmed c) (ss_screen incoming) of None \<Rightarrow> (c, None)
      | Some s \<Rightarrow>
         if (case cl_shared_prediction c of None \<Rightarrow> False
             | Some (epoch, _) \<Rightarrow> ss_prediction_epoch incoming < epoch)
         then (c, Some Epoch_Regressed)
         else (apply_screen F s now_ms
           (shared_context (ss_prediction_epoch incoming, ss_prediction_allowed incoming) c), None))"

section \<open>Received frames\<close>

text \<open>The smoothed round-trip time after a sample, and the predictor's send interval for it:
  \<open>ceil\<close>, the saturating cast to \<open>u32\<close> and the clamp.\<close>

definition srtt_update :: "('f, 'v, 'z) client_lib_scheme \<Rightarrow> rat option \<Rightarrow> rat \<Rightarrow> rat" where
  "srtt_update F srtt sample = (case srtt of None \<Rightarrow> sample
     | Some s \<Rightarrow> f64_rnd F (f64_rnd F (s * (3 / 4)) + f64_rnd F (sample * (1 / 4))))"

definition send_interval_of :: "('f, 'v, 'z) client_lib_scheme \<Rightarrow> rat \<Rightarrow> u32" where
  "send_interval_of F srtt =
     min 250 (max 20 (of_int (min 4294967295 (max 0 \<lceil>f64_rnd F (srtt / 2)\<rceil>))))"

definition pong_sample :: "('f, 'v, 'z) client_lib_scheme \<Rightarrow> u64 \<Rightarrow> ('f, 'v) client \<Rightarrow> ('f, 'v) client" where
  "pong_sample F now_ms c = (case cl_ping_sent_ms c of None \<Rightarrow> c
     | Some t \<Rightarrow>
        (let sample = f64_rnd F (of_nat (unat (sat_sub now_ms t)));
             srtt = srtt_update F (cl_srtt_ms c) sample in
         c\<lparr>cl_ping_sent_ms := None, cl_srtt_ms := Some srtt,
           cl_predictor := set_send_interval (send_interval_of F srtt) (cl_predictor c)\<rparr>))"

definition handle_frame ::
  "('f, 'v, 'z) client_lib_scheme \<Rightarrow> byte \<Rightarrow> bytes \<Rightarrow> u64 \<Rightarrow> ('f, 'v) client \<Rightarrow>
   ('f, 'v) client \<times> client_error option" where
  "handle_frame F mty payload now_ms c =
     (if mty = MSG_HELLO_OK then
        (case hello_ok_decode payload of Inl e \<Rightarrow> (c, Some (Invalid_Hello_Ok e))
         | Inr h \<Rightarrow> if ho_protocol h \<noteq> PROTOCOL_VERSION then (c, Some (Server_Protocol (ho_protocol h)))
             else (c\<lparr>cl_hello_ok := True\<rparr>, None))
      else if mty = MSG_SHARED_SCREEN then
        (case shared_decode F payload of Inl e \<Rightarrow> (c, Some (Invalid_Shared_Screen e))
         | Inr s \<Rightarrow> apply_shared_screen F s now_ms c)
      else if mty = MSG_SCREEN then
        (if cl_shared_prediction c \<noteq> None then (c, Some Shared_Metadata_Missing)
         else (case screen_decode F payload of Inl e \<Rightarrow> (c, None)
           | Inr s \<Rightarrow> (apply_screen F s now_ms c, None)))
      else if mty = MSG_INPUT_ACK then
        (case decode_u64 payload of Inl e \<Rightarrow> (c, Some (Protocol_Error e))
         | Inr ack \<Rightarrow> (c\<lparr>cl_unacked := filter (\<lambda>(s, _). s > ack) (cl_unacked c)\<rparr>, None))
      else if mty = MSG_PONG then
        ((pong_sample F now_ms c)\<lparr>cl_last_rx_ms := Some now_ms, cl_outage := None\<rparr>, None)
      else if mty = MSG_EXIT then
        (case decode_exit payload of Inl e \<Rightarrow> (c, Some (Protocol_Error e))
         | Inr st \<Rightarrow> (c\<lparr>cl_exit_code := st, cl_hungup := True\<rparr>, None))
      else if mty = MSG_ERROR then
        (case decode_error payload of Inl e \<Rightarrow> (c, Some (Protocol_Error e))
         | Inr (code, m) \<Rightarrow> (c, Some (Server_Error code m)))
      else (c, None))"

text \<open>The loop of \<open>recv_control\<close>; \<open>buf\<close> is the receive buffer, which no handler touches.\<close>

function recv_loop ::
  "('f, 'v, 'z) client_lib_scheme \<Rightarrow> u64 \<Rightarrow> bytes \<Rightarrow> ('f, 'v) client \<Rightarrow>
   ('f, 'v) client \<times> client_error option" where
  "recv_loop F now_ms buf c = (case split_frame buf of
      Inl e \<Rightarrow> (c\<lparr>cl_recv_buf := buf\<rparr>, Some (Protocol_Error e))
    | Inr (None, rest) \<Rightarrow> (c\<lparr>cl_recv_buf := rest\<rparr>, None)
    | Inr (Some (mty, payload), rest) \<Rightarrow>
        (case handle_frame F mty payload now_ms c of
           (c', Some e) \<Rightarrow> (c'\<lparr>cl_recv_buf := rest\<rparr>, Some e)
         | (c', None) \<Rightarrow> recv_loop F now_ms rest c'))"
  by pat_completeness auto
termination
  by (relation "measure (\<lambda>(F, now, buf, c). length buf)") (auto dest: split_frame_shrinks)

declare recv_loop.simps [simp del]

definition recv_control ::
  "('f, 'v, 'z) client_lib_scheme \<Rightarrow> bytes \<Rightarrow> u64 \<Rightarrow> ('f, 'v) client \<Rightarrow>
   ('f, 'v) client \<times> client_error option" where
  "recv_control F bs now_ms c0 =
     (let c = (if bs \<noteq> [] then c0\<lparr>cl_last_rx_ms := Some now_ms\<rparr> else c0) in
      recv_loop F now_ms (cl_recv_buf c @ bs) c)"

definition recv_datagram ::
  "('f, 'v, 'z) client_lib_scheme \<Rightarrow> bytes \<Rightarrow> u64 \<Rightarrow> ('f, 'v) client \<Rightarrow> ('f, 'v) client" where
  "recv_datagram F bs now_ms c0 =
     (let c = c0\<lparr>cl_last_rx_ms := Some now_ms\<rparr> in
      if take 4 bs = SHARED_SCREEN_MAGIC then
        (case shared_decode F bs of Inl e \<Rightarrow> c | Inr s \<Rightarrow> fst (apply_shared_screen F s now_ms c))
      else if cl_shared_prediction c = None then
        (case screen_decode F bs of Inl e \<Rightarrow> c | Inr s \<Rightarrow> apply_screen F s now_ms c)
      else c)"

section \<open>Input, size and time\<close>

definition feed_predict ::
  "('f, 'v, 'z) client_lib_scheme \<Rightarrow> u64 \<Rightarrow> bytes \<Rightarrow> u64 \<Rightarrow> ('f, 'v) client \<Rightarrow> ('f, 'v) client" where
  "feed_predict F seq bs now_ms c =
     (if (case cl_shared_prediction c of None \<Rightarrow> False | Some (_, allowed) \<Rightarrow> \<not> allowed) then c
      else if length bs > PASTE_BYTES then
        refresh_display F (c\<lparr>cl_predictor := predictor_reset (cl_predictor c)\<rparr>)
      else case cl_confirmed c of None \<Rightarrow> c
        | Some s \<Rightarrow>
          (let basis = (case cl_display c of None \<Rightarrow> sc_frame s | Some d \<Rightarrow> d);
               p = set_local_frame_sent (sat_sub seq 1) (cl_predictor c) in
           refresh_display F (c\<lparr>cl_predictor :=
             fold (\<lambda>b. new_user_byte F b basis now_ms) bs p\<rparr>)))"

definition queue_input ::
  "('f, 'v, 'z) client_lib_scheme \<Rightarrow> bytes \<Rightarrow> u64 \<Rightarrow> ('f, 'v) client \<Rightarrow> ('f, 'v) client" where
  "queue_input F bs now_ms c0 =
     (let c = c0\<lparr>cl_seq := cl_seq c0 + 1\<rparr>; c = feed_predict F (cl_seq c) bs now_ms c in
      c\<lparr>cl_unacked := cl_unacked c @ [(cl_seq c, bs)]\<rparr>)"

definition set_size :: "u16 \<Rightarrow> u16 \<Rightarrow> ('f, 'v) client \<Rightarrow> ('f, 'v) client" where
  "set_size cols rows c0 =
     (let c = c0\<lparr>cl_cols := cols, cl_rows := rows\<rparr> in
      if cl_connected c \<and> \<not> cl_hungup c
      then c\<lparr>cl_feed := snd (feed_push_ctrl (encode_resize cols rows) (cl_feed c))\<rparr> else c)"

definition request_hangup :: "('f, 'v) client \<Rightarrow> ('f, 'v) client" where
  "request_hangup c = c\<lparr>cl_feed := feed_push_fin encode_hangup (cl_feed c), cl_hungup := True\<rparr>"

definition maybe_ping :: "('f, 'v, 'z) client_lib_scheme \<Rightarrow> u64 \<Rightarrow> ('f, 'v) client \<Rightarrow> ('f, 'v) client" where
  "maybe_ping F now_ms c =
     (let due = sat_sub now_ms (cl_last_ping_ms c) \<ge> PING_INTERVAL_MS;
          retry = (case cl_ping_sent_ms c of None \<Rightarrow> True
            | Some t \<Rightarrow> sat_sub now_ms t \<ge> ping_retry_ms F (cl_srtt_ms c)) in
      if due \<and> retry then
        (let (ok, fd) = feed_push_ctrl encode_ping (cl_feed c) in
         if ok then c\<lparr>cl_feed := fd, cl_last_ping_ms := now_ms, cl_ping_sent_ms := Some now_ms\<rparr>
         else c\<lparr>cl_feed := fd\<rparr>)
      else c)"

definition tick_predictions ::
  "('f, 'v, 'z) client_lib_scheme \<Rightarrow> u64 \<Rightarrow> ('f, 'v) client \<Rightarrow> ('f, 'v) client" where
  "tick_predictions F now_ms c =
     (if predictor_active (cl_predictor c) then
        refresh_display F (case cl_confirmed c of None \<Rightarrow> c
          | Some s \<Rightarrow> c\<lparr>cl_predictor := cull F (sc_frame s) now_ms (cl_predictor c)\<rparr>)
      else c)"

definition tick_outage :: "u64 \<Rightarrow> ('f, 'v) client \<Rightarrow> ('f, 'v) client" where
  "tick_outage now_ms c = (case cl_last_rx_ms c of None \<Rightarrow> c
     | Some t0 \<Rightarrow> if sat_sub now_ms t0 > of_nat (OUTAGE_BANNER_SECS * 1000)
         then c\<lparr>cl_outage := Some (sat_sub now_ms t0)\<rparr> else c)"

definition client_tick ::
  "('f, 'v, 'z) client_lib_scheme \<Rightarrow> u64 \<Rightarrow> ('f, 'v) client \<Rightarrow> ('f, 'v) client \<times> tick" where
  "client_tick F now_ms c0 =
     (let c = client_pump (tick_predictions F now_ms c0) in
      if cl_connected c \<and> \<not> cl_hungup c then
        (let c = maybe_ping F now_ms c in
         if (case cl_last_rx_ms c of None \<Rightarrow> False
             | Some t0 \<Rightarrow> sat_sub now_ms t0 \<ge> link_dead_ms F (cl_srtt_ms c))
         then (c, LinkDead) else (tick_outage now_ms c, Alive))
      else (tick_outage now_ms c, Alive))"

section \<open>Accessors\<close>

definition client_confirmed :: "('f, 'v) client \<Rightarrow> 'f option" where
  "client_confirmed c = map_option sc_frame (cl_confirmed c)"

definition client_mode :: "('f, 'z) frame_lib_scheme \<Rightarrow> ('f, 'v) client \<Rightarrow> u16" where
  "client_mode F c = (case cl_confirmed c of None \<Rightarrow> 0 | Some s \<Rightarrow> fs_mode F (sc_frame s))"

definition tick_delay_ms :: "('f, 'v) client \<Rightarrow> u64 option" where
  "tick_delay_ms c = (if predictor_active (cl_predictor c) then Some 50 else None)"

end
