(* ===== verification/Feed_Reach.thy ===== *)
theory Feed_Reach
  imports Feed
begin

text \<open>
  What a component that owns a \<open>FrameFeed\<close> puts on the wire, for any predicate \<open>P\<close> on frames:
  \<open>feed_reach\<close> relates the feed before and after operations that only push such frames, and \<open>sends\<close>
  says that everything sent and still queued in the buffer is a sequence of whole such frames. Both
  ends of a connection use it, the client (\<open>crates/quosh-client/src/lib.rs\<close>) for its control frames and
  the server's transport (\<open>crates/quosh-server/src/transport.rs\<close>) for screens and acknowledgements.
\<close>

definition feed_reach :: "(bytes \<Rightarrow> bool) \<Rightarrow> bytes \<Rightarrow> feed \<Rightarrow> feed \<Rightarrow> bool" where
  "feed_reach P w f g \<longleftrightarrow> (\<exists>ops. feed_run ops f = (w, g) \<and> list_all P (concat (map op_frames ops)))"

lemma feed_run_append:
  "feed_run (xs @ ys) f = (let (w, g) = feed_run xs f; (w', h) = feed_run ys g in (w @ w', h))"
  by (induction xs arbitrary: f) (simp_all add: Let_def split_def)

lemma feed_reach_refl: "feed_reach P [] f f"
  unfolding feed_reach_def by (rule exI [of _ "[]"]) simp

lemma feed_reach_trans:
  assumes "feed_reach P w f g" "feed_reach P w' g h"
  shows "feed_reach P (w @ w') f h"
proof -
  from assms obtain xs ys where "feed_run xs f = (w, g)" "list_all P (concat (map op_frames xs))"
    "feed_run ys g = (w', h)" "list_all P (concat (map op_frames ys))" by (auto simp: feed_reach_def)
  then show ?thesis unfolding feed_reach_def by (intro exI [of _ "xs @ ys"]) (simp add: feed_run_append)
qed

lemma feed_reach_push: "P x \<Longrightarrow> feed_reach P [] f (snd (feed_push_ctrl x f))"
  unfolding feed_reach_def by (rule exI [of _ "[Push_Ctrl x]"]) simp

lemma feed_reach_screen: "P x \<Longrightarrow> feed_reach P [] f (feed_push_screen x f)"
  unfolding feed_reach_def by (rule exI [of _ "[Push_Screen x]"]) simp

lemma feed_reach_fin: "P x \<Longrightarrow> feed_reach P [] f (feed_push_fin x f)"
  unfolding feed_reach_def by (rule exI [of _ "[Push_Fin x]"]) simp

lemma feed_reach_pump: "feed_reach P [] f (feed_pump f)"
  unfolding feed_reach_def by (rule exI [of _ "[Pump]"]) simp

lemma feed_reach_advance: "feed_reach P (take n (feed_rest f)) f (feed_advance n f)"
  unfolding feed_reach_def by (rule exI [of _ "[Advance n]"]) simp

section \<open>Whole frames\<close>

definition sends :: "(bytes \<Rightarrow> bool) \<Rightarrow> bytes \<Rightarrow> feed \<Rightarrow> bool" where
  "sends P sent f \<longleftrightarrow> feed_ok f \<and> list_all P (feed_pending f) \<and>
     (\<exists>fs. list_all P fs \<and> sent @ feed_rest f = concat fs)"

lemma feed_reach_frames:
  assumes "feed_reach P w f g" "feed_ok f" "list_all P (feed_pending f)"
  shows "feed_ok g \<and> list_all P (feed_pending g) \<and> (\<exists>gs. list_all P gs \<and> w @ feed_rest g = feed_rest f @ concat gs)"
proof -
  obtain ops where ops: "feed_run ops f = (w, g)" "list_all P (concat (map op_frames ops))"
    using assms(1) by (auto simp: feed_reach_def)
  obtain gs where gs: "w @ feed_rest g = feed_rest f @ concat gs"
      "mset gs + mset (feed_pending g) \<subseteq># mset (feed_pending f) + mset (concat (map op_frames ops))"
    using feed_run_frames [OF assms(2), of ops] ops by auto
  have "set gs \<union> set (feed_pending g) \<subseteq> set (feed_pending f) \<union> set (concat (map op_frames ops))"
    using set_mset_mono [OF gs(2)] by simp
  with assms(3) ops(2) have "list_all P gs" "list_all P (feed_pending g)" unfolding list_all_iff by blast+
  with gs(1) feed_ok_run [OF assms(2), of ops] ops show ?thesis by auto
qed

lemma sends_reach:
  assumes "sends P sent f" "feed_reach P w f g"
  shows "sends P (sent @ w) g"
proof -
  obtain fs where fs: "list_all P fs" "sent @ feed_rest f = concat fs" using assms(1) by (auto simp: sends_def)
  obtain gs where gs: "list_all P gs" "w @ feed_rest g = feed_rest f @ concat gs" "feed_ok g" "list_all P (feed_pending g)"
    using feed_reach_frames [OF assms(2)] assms(1) by (auto simp: sends_def)
  have "(sent @ w) @ feed_rest g = concat (fs @ gs)" using gs(2) fs(2) by (metis append.assoc concat_append)
  with gs fs(1) show ?thesis unfolding sends_def by (intro conjI exI [of _ "fs @ gs"]) simp_all
qed

lemma sends_mono: "sends P sent f \<Longrightarrow> (\<And>x. P x \<Longrightarrow> Q x) \<Longrightarrow> sends Q sent f"
  unfolding sends_def list_all_iff by blast

lemma feed_push_first:
  "feed_ok (snd (feed_push_ctrl x feed_new))" "feed_rest (snd (feed_push_ctrl x feed_new)) = x"
  "feed_pending (snd (feed_push_ctrl x feed_new)) = []"
  by (simp_all add: feed_push_ctrl_def feed_pump_def feed_new_def feed_rest_def outbuf_new_def outbuf_queue_def
      outbuf_rest_def feed_ok_def outbuf_ok_def Let_def CTRL_CAP_def feed_pending_def)

lemma sends_first: "P x \<Longrightarrow> sends P [] (snd (feed_push_ctrl x feed_new))"
  unfolding sends_def by (intro conjI exI [of _ "[x]"]) (simp_all add: feed_push_first)

end
