(* ===== verification/Client_Props.thy ===== *)
theory Client_Props
  imports Client Feed_Reach
begin

text \<open>
  What the client state machine guarantees (\<open>crates/quosh-client/src/lib.rs\<close>): receiving is
  insensitive to chunk boundaries, the screen version never goes back, a server that forbids
  predictions gets none displayed, a connection begins with its hello, unacknowledged input is a
  contiguous run of sequence numbers up to the last one given out, and a silent link is reported.
\<close>

section \<open>Receiving in chunks\<close>

lemma apply_screen_recv_buf:
  "apply_screen F s now (c\<lparr>cl_recv_buf := b\<rparr>) = (apply_screen F s now c)\<lparr>cl_recv_buf := b\<rparr>"
  by (simp add: apply_screen_def refresh_display_def split: option.split)

lemma shared_context_recv_buf:
  "shared_context x (c\<lparr>cl_recv_buf := b\<rparr>) = (shared_context x c)\<lparr>cl_recv_buf := b\<rparr>"
  by (simp add: shared_context_def)

lemma apply_shared_recv_buf:
  "apply_shared_screen F s now (c\<lparr>cl_recv_buf := b\<rparr>) =
     map_prod (\<lambda>c. c\<lparr>cl_recv_buf := b\<rparr>) id (apply_shared_screen F s now c)"
  by (simp add: apply_shared_screen_def apply_screen_recv_buf shared_context_recv_buf split: option.split prod.split)

lemma pong_sample_recv_buf:
  "pong_sample F now (c\<lparr>cl_recv_buf := b\<rparr>) = (pong_sample F now c)\<lparr>cl_recv_buf := b\<rparr>"
  by (simp add: pong_sample_def Let_def split: option.split)

lemma map_prod_if: "map_prod f g (if b then x else y) = (if b then map_prod f g x else map_prod f g y)"
  by simp

lemma map_prod_sum: "map_prod f g (case s of Inl a \<Rightarrow> x a | Inr b \<Rightarrow> y b) =
    (case s of Inl a \<Rightarrow> map_prod f g (x a) | Inr b \<Rightarrow> map_prod f g (y b))"
  by (cases s) simp_all

lemma handle_frame_recv_buf:
  "handle_frame F mty payload now (c\<lparr>cl_recv_buf := b\<rparr>) =
     map_prod (\<lambda>c. c\<lparr>cl_recv_buf := b\<rparr>) id (handle_frame F mty payload now c)"
  unfolding handle_frame_def map_prod_if map_prod_sum
  by (intro if_cong sum.case_cong refl)
    (simp_all add: apply_screen_recv_buf apply_shared_recv_buf pong_sample_recv_buf split: prod.split)

lemma recv_loop_recv_buf: "recv_loop F now buf (c\<lparr>cl_recv_buf := x\<rparr>) = recv_loop F now buf c"
proof (induction F now buf c arbitrary: x rule: recv_loop.induct)
  case (1 F now buf c)
  show ?case
  proof (cases "split_frame buf")
    case (Inl e)
    then show ?thesis by (simp add: recv_loop.simps [of F now buf])
  next
    case (Inr res)
    obtain m rest where r: "split_frame buf = Inr (m, rest)" using Inr by (cases res) simp
    show ?thesis
    proof (cases m)
      case None
      with r show ?thesis by (simp add: recv_loop.simps [of F now buf])
    next
      case (Some f)
      obtain mty payload where f: "f = (mty, payload)" by fastforce
      obtain c' e where h: "handle_frame F mty payload now c = (c', e)" by fastforce
      show ?thesis
      proof (cases e)
        case None
        have "recv_loop F now rest (c'\<lparr>cl_recv_buf := x\<rparr>) = recv_loop F now rest c'"
          using "1.IH" r Some f h None by simp
        then show ?thesis using r Some f h None
          by (simp add: recv_loop.simps [of F now buf] handle_frame_recv_buf)
      next
        case (Some er)
        with r \<open>m = Some f\<close> f h show ?thesis
          by (simp add: recv_loop.simps [of F now buf] handle_frame_recv_buf)
      qed
    qed
  qed
qed

lemma recv_loop_append:
  "recv_loop F now (a @ b) c =
     (case recv_loop F now a c of
        (c', Some e) \<Rightarrow> (c'\<lparr>cl_recv_buf := cl_recv_buf c' @ b\<rparr>, Some e)
      | (c', None) \<Rightarrow> recv_loop F now (cl_recv_buf c' @ b) c')"
proof (induction F now a c rule: recv_loop.induct)
  case (1 F now a c)
  show ?case
  proof (cases "split_frame a")
    case (Inl e)
    then show ?thesis
      by (simp add: recv_loop.simps [of F now a] recv_loop.simps [of F now "a @ b"] split_frame_Inl_append)
  next
    case (Inr res)
    obtain m rest where r: "split_frame a = Inr (m, rest)" using Inr by (cases res) simp
    show ?thesis
    proof (cases m)
      case None
      with r have "rest = a" by (simp add: split_frame_None_rest)
      with r None show ?thesis by (simp add: recv_loop.simps [of F now a] recv_loop_recv_buf)
    next
      case (Some f)
      obtain mty payload where f: "f = (mty, payload)" by fastforce
      have sf: "split_frame (a @ b) = Inr (Some (mty, payload), rest @ b)"
        using split_frame_Some_append r Some f by blast
      obtain c' e where h: "handle_frame F mty payload now c = (c', e)" by fastforce
      show ?thesis
      proof (cases e)
        case None
        then show ?thesis using "1.IH" r Some f h sf
          by (simp add: recv_loop.simps [of F now a] recv_loop.simps [of F now "a @ b"])
      next
        case (Some er)
        then show ?thesis using r \<open>m = Some f\<close> f h sf
          by (simp add: recv_loop.simps [of F now a] recv_loop.simps [of F now "a @ b"])
      qed
    qed
  qed
qed

section \<open>What a received frame can do\<close>

lemma handle_frame_outcome:
  fixes F :: "('f, 'v, 'z) client_lib_scheme" and c :: "('f, 'v) client"
  assumes h: "handle_frame F mty payload now c = (c', e)"
  shows "c' = c \<or> c' = c\<lparr>cl_hello_ok := True\<rparr> \<or> (\<exists>s. apply_shared_screen F s now c = (c', e)) \<or>
    (\<exists>s. cl_shared_prediction c = None \<and> c' = apply_screen F s now c) \<or>
    (\<exists>a. mty = MSG_INPUT_ACK \<and> decode_u64 payload = Inr a \<and>
       c' = c\<lparr>cl_unacked := filter (\<lambda>(s, _). s > a) (cl_unacked c)\<rparr>) \<or>
    c' = (pong_sample F now c)\<lparr>cl_last_rx_ms := Some now, cl_outage := None\<rparr> \<or>
    (\<exists>st. c' = c\<lparr>cl_exit_code := st, cl_hungup := True\<rparr>)"
proof -
  note types = MSG_HELLO_OK_def MSG_SHARED_SCREEN_def MSG_SCREEN_def MSG_INPUT_ACK_def MSG_PONG_def
    MSG_EXIT_def MSG_ERROR_def
  consider "mty = MSG_HELLO_OK" | "mty = MSG_SHARED_SCREEN" | "mty = MSG_SCREEN" | "mty = MSG_INPUT_ACK"
    | "mty = MSG_PONG" | "mty = MSG_EXIT" | "mty = MSG_ERROR"
    | "mty \<noteq> MSG_HELLO_OK" "mty \<noteq> MSG_SHARED_SCREEN" "mty \<noteq> MSG_SCREEN" "mty \<noteq> MSG_INPUT_ACK"
      "mty \<noteq> MSG_PONG" "mty \<noteq> MSG_EXIT" "mty \<noteq> MSG_ERROR" by blast
  then show ?thesis
  proof cases
    case 1
    with h have "c' = c \<or> c' = c\<lparr>cl_hello_ok := True\<rparr>"
      by (simp add: handle_frame_def split: sum.splits if_splits)
    then show ?thesis by blast
  next
    case 2
    with h have "c' = c \<or> (\<exists>s. apply_shared_screen F s now c = (c', e))"
      by (auto simp: handle_frame_def types split: sum.splits)
    then show ?thesis by blast
  next
    case 3
    with h have "c' = c \<or> (\<exists>s. cl_shared_prediction c = None \<and> c' = apply_screen F s now c)"
      by (cases "cl_shared_prediction c") (auto simp: handle_frame_def types split: sum.splits if_splits)
    then show ?thesis by blast
  next
    case 4
    with h have "c' = c \<or> (\<exists>a. mty = MSG_INPUT_ACK \<and> decode_u64 payload = Inr a \<and>
        c' = c\<lparr>cl_unacked := filter (\<lambda>(s, _). s > a) (cl_unacked c)\<rparr>)"
      by (auto simp: handle_frame_def types split: sum.splits)
    then show ?thesis by blast
  next
    case 5
    with h show ?thesis by (simp add: handle_frame_def types)
  next
    case 6
    with h have "c' = c \<or> (\<exists>st. c' = c\<lparr>cl_exit_code := st, cl_hungup := True\<rparr>)"
      by (auto simp: handle_frame_def types split: sum.splits)
    then show ?thesis by blast
  next
    case 7
    with h have "c' = c" by (auto simp: handle_frame_def types split: sum.splits)
    then show ?thesis by blast
  next
    case 8
    with h show ?thesis by (simp add: handle_frame_def)
  qed
qed

lemma handle_frameE:
  assumes "handle_frame F mty payload now c = (c', e)"
  obtains (same) "c' = c"
  | (hello) "c' = c\<lparr>cl_hello_ok := True\<rparr>"
  | (shared) s where "apply_shared_screen F s now c = (c', e)"
  | (screen) s where "cl_shared_prediction c = None" "c' = apply_screen F s now c"
  | (ack) a where "mty = MSG_INPUT_ACK" "decode_u64 payload = Inr a"
      "c' = c\<lparr>cl_unacked := filter (\<lambda>(s, _). s > a) (cl_unacked c)\<rparr>"
  | (pong) "c' = (pong_sample F now c)\<lparr>cl_last_rx_ms := Some now, cl_outage := None\<rparr>"
  | (exit) st where "c' = c\<lparr>cl_exit_code := st, cl_hungup := True\<rparr>"
  using handle_frame_outcome [OF assms] by blast

lemma apply_shared_screen_outcome:
  assumes "apply_shared_screen F s now c = (c', e)"
  shows "c' = c \<or> (\<exists>x y. apply_newer (cl_confirmed c) (ss_screen s) = Some x \<and>
    c' = apply_screen F x now (shared_context y c))"
  using assms unfolding apply_shared_screen_def by (auto split: option.splits if_splits)

lemma apply_shared_screenE:
  assumes "apply_shared_screen F s now c = (c', e)"
  obtains (same) "c' = c"
  | (applied) x y where "apply_newer (cl_confirmed c) (ss_screen s) = Some x"
      "c' = apply_screen F x now (shared_context y c)"
  using apply_shared_screen_outcome [OF assms] by blast

text \<open>A screen is applied to the predictor, the acknowledgement and the display, or not at all.\<close>

lemma apply_screen_simps [simp]:
  "cl_last_rx_ms (apply_screen F s now c) = cl_last_rx_ms c"
  "cl_unacked (apply_screen F s now c) = cl_unacked c"
  "cl_seq (apply_screen F s now c) = cl_seq c"
  "cl_sent_seq (apply_screen F s now c) = cl_sent_seq c"
  "cl_feed (apply_screen F s now c) = cl_feed c"
  "cl_never (apply_screen F s now c) = cl_never c"
  "cl_shared_prediction (apply_screen F s now c) = cl_shared_prediction c"
  "cl_connected (apply_screen F s now c) = cl_connected c"
  "cl_hungup (apply_screen F s now c) = cl_hungup c"
  by (simp_all add: apply_screen_def refresh_display_def split: option.split)

lemma shared_context_simps [simp]:
  "cl_last_rx_ms (shared_context x c) = cl_last_rx_ms c"
  "cl_unacked (shared_context x c) = cl_unacked c"
  "cl_seq (shared_context x c) = cl_seq c"
  "cl_sent_seq (shared_context x c) = cl_sent_seq c"
  "cl_feed (shared_context x c) = cl_feed c"
  "cl_never (shared_context x c) = cl_never c"
  "cl_confirmed (shared_context x c) = cl_confirmed c"
  "cl_connected (shared_context x c) = cl_connected c"
  "cl_hungup (shared_context x c) = cl_hungup c"
  "cl_shared_prediction (shared_context x c) = Some x"
  by (simp_all add: shared_context_def)

lemma pong_sample_simps [simp]:
  "cl_last_rx_ms (pong_sample F now c) = cl_last_rx_ms c"
  "cl_unacked (pong_sample F now c) = cl_unacked c"
  "cl_seq (pong_sample F now c) = cl_seq c"
  "cl_sent_seq (pong_sample F now c) = cl_sent_seq c"
  "cl_feed (pong_sample F now c) = cl_feed c"
  "cl_never (pong_sample F now c) = cl_never c"
  "cl_confirmed (pong_sample F now c) = cl_confirmed c"
  "cl_display (pong_sample F now c) = cl_display c"
  "cl_shared_prediction (pong_sample F now c) = cl_shared_prediction c"
  "cl_connected (pong_sample F now c) = cl_connected c"
  "cl_hungup (pong_sample F now c) = cl_hungup c"
  by (simp_all add: pong_sample_def Let_def split: option.split)

text \<open>An invariant every received frame keeps is kept by the whole loop.\<close>

lemma recv_loop_invariant:
  assumes frame: "\<And>c mty payload. P c \<Longrightarrow> P (fst (handle_frame F mty payload now c))"
    and buf: "\<And>c b. P c \<Longrightarrow> P (c\<lparr>cl_recv_buf := b\<rparr>)"
    and "P c"
  shows "P (fst (recv_loop F now buf c))"
  using assms(3)
proof (induction "length buf" arbitrary: buf c rule: less_induct)
  case less
  show ?case
  proof (cases "split_frame buf")
    case (Inl e)
    with less.prems buf show ?thesis by (simp add: recv_loop.simps [of F now buf])
  next
    case (Inr res)
    obtain m rest where r: "split_frame buf = Inr (m, rest)" using Inr by (cases res) simp
    show ?thesis
    proof (cases m)
      case None
      with r less.prems buf show ?thesis by (simp add: recv_loop.simps [of F now buf])
    next
      case (Some f)
      obtain mty payload where f: "f = (mty, payload)" by fastforce
      obtain c' e where h: "handle_frame F mty payload now c = (c', e)" by fastforce
      have c': "P c'" using frame [OF less.prems, of mty payload] h by simp
      have "length rest < length buf" using split_frame_shrinks r Some f by fastforce
      from less.hyps [OF this c'] c' buf show ?thesis using r Some f h
        by (cases e) (simp_all add: recv_loop.simps [of F now buf])
    qed
  qed
qed

lemma recv_loop_keeps_rx:
  assumes "cl_last_rx_ms c = Some now"
  shows "cl_last_rx_ms (fst (recv_loop F now buf c)) = Some now"
proof (rule recv_loop_invariant [where P = "\<lambda>c. cl_last_rx_ms c = Some now"])
  fix c :: "('a, 'b) client" and mty payload
  assume c: "cl_last_rx_ms c = Some now"
  obtain c' e where h: "handle_frame F mty payload now c = (c', e)" by fastforce
  from h c have "cl_last_rx_ms c' = Some now"
    by (cases rule: handle_frameE) (auto elim: apply_shared_screenE)
  with h show "cl_last_rx_ms (fst (handle_frame F mty payload now c)) = Some now" by simp
qed (use assms in simp_all)

section \<open>Runs\<close>

text \<open>The calls an adapter makes.\<close>

datatype 'f cevent =
    Begin u64 | End | Forget | Receive bytes u64 | Datagram bytes u64 | Queue_Input bytes u64
  | Set_Size u16 u16 | Hang_Up | Tick u64 | Pump_Out | Sent_Out nat

fun client_step ::
  "('f, 'v, 'z) client_lib_scheme \<Rightarrow> 'f cevent \<Rightarrow> ('f, 'v) client \<Rightarrow> ('f, 'v) client" where
  "client_step F (Begin now) c = begin_connection now c"
| "client_step F End c = end_connection c"
| "client_step F Forget c = client_reset c"
| "client_step F (Receive bs now) c = fst (recv_control F bs now c)"
| "client_step F (Datagram bs now) c = recv_datagram F bs now c"
| "client_step F (Queue_Input bs now) c = queue_input F bs now c"
| "client_step F (Set_Size cols rows) c = set_size cols rows c"
| "client_step F Hang_Up c = request_hangup c"
| "client_step F (Tick now) c = fst (client_tick F now c)"
| "client_step F Pump_Out c = client_pump c"
| "client_step F (Sent_Out n) c = client_advance_outbound n c"

lemma recv_control_invariant:
  assumes "\<And>c mty payload. P c \<Longrightarrow> P (fst (handle_frame F mty payload now c))"
    and "\<And>c b. P c \<Longrightarrow> P (c\<lparr>cl_recv_buf := b\<rparr>)" "\<And>c t. P c \<Longrightarrow> P (c\<lparr>cl_last_rx_ms := t\<rparr>)" "P c"
  shows "P (fst (recv_control F bs now c))"
  unfolding recv_control_def Let_def by (rule recv_loop_invariant) (use assms in auto)

section \<open>The confirmed screen only gets newer\<close>

definition confirmed_version :: "('f, 'v) client \<Rightarrow> u64" where
  "confirmed_version c = (case cl_confirmed c of None \<Rightarrow> 0 | Some s \<Rightarrow> sc_version s)"

lemma confirmed_version_simps [simp]:
  "confirmed_version (c\<lparr>cl_recv_buf := b\<rparr>) = confirmed_version c"
  "confirmed_version (c\<lparr>cl_last_rx_ms := t\<rparr>) = confirmed_version c"
  by (simp_all add: confirmed_version_def)

lemma apply_newer_Some:
  "apply_newer cur s = Some x \<longleftrightarrow> x = s \<and> (case cur of None \<Rightarrow> 0 | Some c \<Rightarrow> sc_version c) < sc_version s"
  by (auto simp: apply_newer_def split: option.splits)

lemma apply_screen_confirmed:
  "cl_confirmed (apply_screen F s now c) =
     (if confirmed_version c < sc_version s then Some s else cl_confirmed c)"
  by (cases "apply_newer (cl_confirmed c) s")
    (auto simp: apply_screen_def refresh_display_def apply_newer_def confirmed_version_def split: option.splits if_splits)

lemma apply_screen_version: "confirmed_version c \<le> confirmed_version (apply_screen F s now c)"
  unfolding confirmed_version_def [of "apply_screen F s now c"] apply_screen_confirmed
  by (auto simp: confirmed_version_def)

lemma apply_shared_version:
  "confirmed_version c \<le> confirmed_version (fst (apply_shared_screen F s now c))"
proof -
  obtain c' e where r: "apply_shared_screen F s now c = (c', e)" by fastforce
  then show ?thesis
  proof (cases rule: apply_shared_screenE)
    case (applied x y)
    have "confirmed_version (shared_context y c) = confirmed_version c" by (simp add: confirmed_version_def)
    with apply_screen_version [of "shared_context y c" F x now] r applied show ?thesis by simp
  qed (use r in simp)
qed

lemma handle_frame_version:
  "confirmed_version c \<le> confirmed_version (fst (handle_frame F mty payload now c))"
proof -
  obtain c' e where h: "handle_frame F mty payload now c = (c', e)" by fastforce
  from h have "confirmed_version c \<le> confirmed_version c'"
  proof (cases rule: handle_frameE)
    case (shared s)
    with apply_shared_version [of c F s now] show ?thesis by simp
  qed (auto simp: apply_screen_version, auto simp: confirmed_version_def)
  with h show ?thesis by simp
qed

lemma refresh_display_simps [simp]:
  "cl_confirmed (refresh_display F c) = cl_confirmed c" "cl_unacked (refresh_display F c) = cl_unacked c"
  "cl_seq (refresh_display F c) = cl_seq c" "cl_sent_seq (refresh_display F c) = cl_sent_seq c"
  "cl_feed (refresh_display F c) = cl_feed c" "cl_never (refresh_display F c) = cl_never c"
  "cl_shared_prediction (refresh_display F c) = cl_shared_prediction c"
  "cl_predictor (refresh_display F c) = cl_predictor c"
  "cl_connected (refresh_display F c) = cl_connected c" "cl_hungup (refresh_display F c) = cl_hungup c"
  by (simp_all add: refresh_display_def split: option.split)

lemma feed_predict_simps [simp]:
  "cl_confirmed (feed_predict F s bs now c) = cl_confirmed c" "cl_unacked (feed_predict F s bs now c) = cl_unacked c"
  "cl_seq (feed_predict F s bs now c) = cl_seq c" "cl_sent_seq (feed_predict F s bs now c) = cl_sent_seq c"
  "cl_feed (feed_predict F s bs now c) = cl_feed c" "cl_never (feed_predict F s bs now c) = cl_never c"
  "cl_shared_prediction (feed_predict F s bs now c) = cl_shared_prediction c"
  "cl_connected (feed_predict F s bs now c) = cl_connected c" "cl_hungup (feed_predict F s bs now c) = cl_hungup c"
  by (simp_all add: feed_predict_def Let_def split: option.split)

lemma pump_simps [simp]:
  "cl_confirmed (client_pump c) = cl_confirmed c" "cl_unacked (client_pump c) = cl_unacked c"
  "cl_seq (client_pump c) = cl_seq c" "cl_never (client_pump c) = cl_never c"
  "cl_shared_prediction (client_pump c) = cl_shared_prediction c"
  "cl_predictor (client_pump c) = cl_predictor c" "cl_display (client_pump c) = cl_display c"
  "cl_connected (client_pump c) = cl_connected c" "cl_hungup (client_pump c) = cl_hungup c"
  "cl_last_rx_ms (client_pump c) = cl_last_rx_ms c" "cl_srtt_ms (client_pump c) = cl_srtt_ms c"
  by (simp_all add: client_pump_def pump_ack_def pump_input_def Let_def split_def split: option.split)

lemma maybe_ping_simps [simp]:
  "cl_confirmed (maybe_ping F now c) = cl_confirmed c" "cl_unacked (maybe_ping F now c) = cl_unacked c"
  "cl_seq (maybe_ping F now c) = cl_seq c" "cl_sent_seq (maybe_ping F now c) = cl_sent_seq c"
  "cl_never (maybe_ping F now c) = cl_never c"
  "cl_shared_prediction (maybe_ping F now c) = cl_shared_prediction c"
  "cl_predictor (maybe_ping F now c) = cl_predictor c" "cl_display (maybe_ping F now c) = cl_display c"
  "cl_connected (maybe_ping F now c) = cl_connected c" "cl_hungup (maybe_ping F now c) = cl_hungup c"
  "cl_last_rx_ms (maybe_ping F now c) = cl_last_rx_ms c" "cl_srtt_ms (maybe_ping F now c) = cl_srtt_ms c"
  by (simp_all add: maybe_ping_def Let_def split_def)

lemma tick_outage_simps [simp]:
  "cl_confirmed (tick_outage now c) = cl_confirmed c" "cl_unacked (tick_outage now c) = cl_unacked c"
  "cl_seq (tick_outage now c) = cl_seq c" "cl_sent_seq (tick_outage now c) = cl_sent_seq c"
  "cl_feed (tick_outage now c) = cl_feed c" "cl_never (tick_outage now c) = cl_never c"
  "cl_shared_prediction (tick_outage now c) = cl_shared_prediction c"
  "cl_predictor (tick_outage now c) = cl_predictor c" "cl_display (tick_outage now c) = cl_display c"
  "cl_connected (tick_outage now c) = cl_connected c" "cl_hungup (tick_outage now c) = cl_hungup c"
  by (simp_all add: tick_outage_def split: option.split)

lemma tick_predictions_simps [simp]:
  "cl_confirmed (tick_predictions F now c) = cl_confirmed c" "cl_unacked (tick_predictions F now c) = cl_unacked c"
  "cl_seq (tick_predictions F now c) = cl_seq c" "cl_sent_seq (tick_predictions F now c) = cl_sent_seq c"
  "cl_feed (tick_predictions F now c) = cl_feed c" "cl_never (tick_predictions F now c) = cl_never c"
  "cl_shared_prediction (tick_predictions F now c) = cl_shared_prediction c"
  "cl_connected (tick_predictions F now c) = cl_connected c" "cl_hungup (tick_predictions F now c) = cl_hungup c"
  "cl_last_rx_ms (tick_predictions F now c) = cl_last_rx_ms c" "cl_srtt_ms (tick_predictions F now c) = cl_srtt_ms c"
  by (simp_all add: tick_predictions_def refresh_display_def split: option.split)

text \<open>A tick: its state is that of its parts.\<close>

lemma client_tick_state:
  fixes F :: "('f, 'v, 'z) client_lib_scheme"
  shows "let c = client_pump (tick_predictions F now c0) in
    fst (client_tick F now c0) = (if cl_connected c \<and> \<not> cl_hungup c
      then (if snd (client_tick F now c0) = LinkDead then maybe_ping F now c else tick_outage now (maybe_ping F now c))
      else tick_outage now c)"
  by (simp add: client_tick_def Let_def)

lemma tick_simps [simp]:
  "cl_confirmed (fst (client_tick F now c)) = cl_confirmed c" "cl_unacked (fst (client_tick F now c)) = cl_unacked c"
  "cl_seq (fst (client_tick F now c)) = cl_seq c" "cl_never (fst (client_tick F now c)) = cl_never c"
  "cl_shared_prediction (fst (client_tick F now c)) = cl_shared_prediction c"
  using client_tick_state [of F now c] by (simp_all add: Let_def)

lemma client_step_version: "confirmed_version c \<le> confirmed_version (client_step F ev c)"
proof (cases ev)
  case (Receive bs now)
  have "confirmed_version c \<le> confirmed_version (fst (recv_control F bs now c))"
    by (rule recv_control_invariant [where P = "\<lambda>c'. confirmed_version c \<le> confirmed_version c'"])
      (auto intro: order.trans [OF _ handle_frame_version])
  then show ?thesis by (simp add: Receive)
next
  case (Datagram bs now)
  let ?c = "c\<lparr>cl_last_rx_ms := Some now\<rparr>"
  have "confirmed_version ?c = confirmed_version c" by (simp add: confirmed_version_def)
  with apply_shared_version [of ?c F _ now] apply_screen_version [of ?c F _ now] show ?thesis
    by (auto simp: Datagram recv_datagram_def Let_def split: sum.split)
qed (simp_all add: confirmed_version_def begin_connection_def end_connection_def client_reset_def
    queue_input_def Let_def set_size_def request_hangup_def client_advance_outbound_def)

section \<open>The display\<close>

lemma pref_simps [simp]:
  "pd_display_preference (set_local_frame_late_acked s p) = pd_display_preference p"
  "pd_display_preference (set_local_frame_sent s p) = pd_display_preference p"
  "pd_display_preference (set_send_interval ms p) = pd_display_preference p"
  "pd_display_preference (set_display_preference d p) = d"
  by (simp_all add: pd_set_defs)

lemma cull_cell_pref:
  assumes "cull_cell F fb now (ri, ci) (p, rows) = Some (p', rows')"
  shows "pd_display_preference p' = pd_display_preference p"
  using assms
  by (cases "cell_validity F fb (pr_row_num (rows ! ri)) (pd_local_frame_late_acked p) (pr_cells (rows ! ri) ! ci)")
    (auto simp: cull_cell_def Let_def kill_epoch_def split: if_splits)

lemma cull_loop_pref:
  "case cull_loop F fb now ijs (p, rows) of
     Inl p' \<Rightarrow> pd_display_preference p' = pd_display_preference p
   | Inr (p', rows') \<Rightarrow> pd_display_preference p' = pd_display_preference p"
proof (induction ijs arbitrary: p rows)
  case (Cons ij ijs)
  obtain i j where ij: "ij = (i, j)" by fastforce
  show ?case
  proof (cases "cull_cell F fb now (i, j) (p, rows)")
    case (Some m)
    obtain q mid where m: "m = (q, mid)" by fastforce
    from Cons.IH [where p = q and rows = mid] cull_cell_pref [OF Some [unfolded m]] show ?thesis
      by (auto simp: ij Some m split: sum.splits)
  qed (simp add: ij)
qed simp

lemma cull_pref [simp]: "pd_display_preference (cull F fb now p) = pd_display_preference p"
proof -
  let ?p = "cull_triggers (cull_geometry F fb p)"
  let ?rows = "filter (\<lambda>r. pr_row_num r < fs_rows F fb) (pd_overlays ?p)"
  have "pd_display_preference ?p = pd_display_preference p" by (auto simp: cull_geometry_def)
  with cull_loop_pref [where F = F and fb = fb and now = now and ijs = "cell_positions ?rows"
      and p = "?p\<lparr>pd_overlays := []\<rparr>" and rows = ?rows]
  show ?thesis
    by (auto simp: cull_def Let_def cull_cursors_def split: sum.splits)
qed

lemma newline_pref [simp]:
  "pd_display_preference (newline_carriage_return F fb now p) = pd_display_preference p"
  by (simp add: newline_carriage_return_def Let_def split_def)

lemma handle_act_pref [simp]: "pd_display_preference (handle_act F fb now a p) = pd_display_preference p"
  by (cases a) (simp_all add: cursor_right_def cursor_left_def handle_print_def backspace_def
      predict_char_def Let_def split_def)

lemma fold_acts_pref [simp]:
  "pd_display_preference (fold (handle_act F fb now) acts p) = pd_display_preference p"
  by (induction acts arbitrary: p) simp_all

lemma new_user_byte_pref [simp]: "pd_display_preference (new_user_byte F b fb now p) = pd_display_preference p"
proof -
  have "pd_display_preference (handle_print F ch fb now p) = pd_display_preference p" for ch p
    using handle_act_pref [of F fb now "Print ch" p] by simp
  then show ?thesis by (simp add: new_user_byte_def Let_def split_def)
qed

lemma fold_bytes_pref [simp]:
  "pd_display_preference (fold (\<lambda>b. new_user_byte F b fb now) bs p) = pd_display_preference p"
  by (induction bs arbitrary: p) simp_all

text \<open>Predictions are allowed unless the user or the server's shared session forbids them.\<close>

definition predictions_off :: "('f, 'v) client \<Rightarrow> bool" where
  "predictions_off c \<longleftrightarrow> cl_never c \<or> (\<exists>e. cl_shared_prediction c = Some (e, False))"

definition display_plain :: "('f, 'v) client \<Rightarrow> bool" where
  "display_plain c \<longleftrightarrow> cl_display c = None \<or> cl_display c = client_confirmed c"

definition display_ok :: "('f, 'v) client \<Rightarrow> bool" where
  "display_ok c \<longleftrightarrow>
     pd_display_preference (cl_predictor c) = (if predictions_off c then Never else Adaptive) \<and>
     (predictions_off c \<longrightarrow> display_plain c)"

lemma display_ok_update:
  assumes "display_ok c"
    and "cl_never c' = cl_never c" "cl_shared_prediction c' = cl_shared_prediction c"
    and "pd_display_preference (cl_predictor c') = pd_display_preference (cl_predictor c)"
    and "cl_confirmed c' = cl_confirmed c" "cl_display c' = cl_display c"
  shows "display_ok c'"
  using assms by (simp add: display_ok_def predictions_off_def display_plain_def client_confirmed_def)

lemma refresh_display_ok:
  assumes "pd_display_preference (cl_predictor c) = (if predictions_off c then Never else Adaptive)"
  shows "display_ok (refresh_display F c)"
proof -
  have "predictions_off (refresh_display F c) = predictions_off c" by (simp add: predictions_off_def)
  moreover have "predictions_off c \<Longrightarrow> display_plain (refresh_display F c)"
    using assms by (simp add: display_plain_def refresh_display_def client_confirmed_def predictor_apply_def
        split: option.split)
  ultimately show ?thesis using assms by (simp add: display_ok_def)
qed

lemma apply_screen_ok:
  assumes "pd_display_preference (cl_predictor c) = (if predictions_off c then Never else Adaptive)"
    and "apply_newer (cl_confirmed c) s = Some x"
  shows "display_ok (apply_screen F s now c)"
  unfolding apply_screen_def assms(2) option.case
  by (rule refresh_display_ok) (use assms(1) in \<open>simp add: predictions_off_def\<close>)

lemma apply_screen_display_ok:
  assumes "display_ok c"
  shows "display_ok (apply_screen F s now c)"
proof (cases "apply_newer (cl_confirmed c) s")
  case None
  with assms show ?thesis by (simp add: apply_screen_def)
next
  case (Some x)
  with assms show ?thesis by (intro apply_screen_ok) (simp_all add: display_ok_def)
qed

lemma apply_shared_display_ok:
  assumes "display_ok c"
  shows "display_ok (fst (apply_shared_screen F s now c))"
proof -
  obtain c' e where r: "apply_shared_screen F s now c = (c', e)" by fastforce
  then show ?thesis
  proof (cases rule: apply_shared_screenE)
    case (applied x y)
    have "pd_display_preference (cl_predictor (shared_context y c)) =
        (if predictions_off (shared_context y c) then Never else Adaptive)"
      using assms by (cases y) (auto simp: shared_context_def display_ok_def predictions_off_def)
    moreover have "apply_newer (cl_confirmed (shared_context y c)) x = Some x"
      using applied(1) by (simp add: apply_newer_Some)
    ultimately show ?thesis using r applied(2) by (simp add: apply_screen_ok)
  qed (use r assms in simp)
qed

lemma handle_frame_display_ok:
  assumes "display_ok c"
  shows "display_ok (fst (handle_frame F mty payload now c))"
proof -
  obtain c' e where h: "handle_frame F mty payload now c = (c', e)" by fastforce
  from h have "display_ok c'"
  proof (cases rule: handle_frameE)
    case (shared s)
    with apply_shared_display_ok [OF assms, of F s now] show ?thesis by simp
  next
    case pong
    have "pd_display_preference (cl_predictor (pong_sample F now c)) = pd_display_preference (cl_predictor c)"
      by (simp add: pong_sample_def Let_def split: option.split)
    with pong show ?thesis by (intro display_ok_update [OF assms]) simp_all
  qed (auto intro: apply_screen_display_ok assms display_ok_update [OF assms])
  with h show ?thesis by simp
qed

lemma client_step_display_ok:
  assumes "display_ok c"
  shows "display_ok (client_step F ev c)"
proof (cases ev)
  case (Receive bs now)
  have "display_ok (fst (recv_control F bs now c))"
    by (rule recv_control_invariant [where P = display_ok])
      (auto intro: handle_frame_display_ok assms display_ok_update)
  then show ?thesis by (simp add: Receive)
next
  case (Datagram bs now)
  have "display_ok (c\<lparr>cl_last_rx_ms := Some now\<rparr>)" by (rule display_ok_update [OF assms]) simp_all
  then show ?thesis
    by (auto simp: Datagram recv_datagram_def Let_def apply_shared_display_ok apply_screen_display_ok split: sum.split)
next
  case Forget
  with assms show ?thesis
    by (simp add: client_reset_def display_ok_def display_plain_def predictions_off_def)
next
  case (Queue_Input bs now)
  let ?c = "c\<lparr>cl_seq := cl_seq c + 1\<rparr>"
  have c: "display_ok ?c" by (rule display_ok_update [OF assms]) simp_all
  have "display_ok (feed_predict F (cl_seq ?c) bs now ?c)"
    unfolding feed_predict_def Let_def
    by (auto split: option.split intro!: refresh_display_ok c)
      (use c in \<open>simp_all add: display_ok_def predictions_off_def\<close>)
  then show ?thesis
    by (simp add: Queue_Input queue_input_def Let_def) (erule display_ok_update; simp)
next
  case (Tick now)
  have "display_ok (tick_predictions F now c)"
    unfolding tick_predictions_def
    by (auto split: option.split intro!: refresh_display_ok assms)
      (use assms in \<open>simp_all add: display_ok_def predictions_off_def\<close>)
  then have "display_ok (client_pump (tick_predictions F now c))" by (rule display_ok_update) simp_all
  then have "display_ok (fst (client_tick F now c))"
    using client_tick_state [of F now c] by (auto simp: Let_def elim!: display_ok_update)
  then show ?thesis by (simp add: Tick)
next
  case Pump_Out
  then show ?thesis by (simp add: display_ok_update [OF assms])
qed (auto intro!: display_ok_update [OF assms] simp: begin_connection_def end_connection_def set_size_def
    request_hangup_def client_advance_outbound_def Let_def)

section \<open>The outgoing stream\<close>

fun client_wire :: "'f cevent \<Rightarrow> ('f, 'v) client \<Rightarrow> bytes" where
  "client_wire (Sent_Out n) c = take n (client_outbound c)"
| "client_wire _ c = []"

fun wire_run ::
  "('f, 'v, 'z) client_lib_scheme \<Rightarrow> 'f cevent list \<Rightarrow> ('f, 'v) client \<Rightarrow> bytes \<times> ('f, 'v) client" where
  "wire_run F [] c = ([], c)"
| "wire_run F (ev # evs) c =
     (let (w, c') = wire_run F evs (client_step F ev c) in (client_wire ev c @ w, c'))"

text \<open>The frames a client sends after its hello.\<close>

definition client_frame :: "bytes \<Rightarrow> bool" where
  "client_frame x \<longleftrightarrow> (\<exists>v. x = encode_ack_state v) \<or> (\<exists>n d. x = encode_input n d) \<or>
     (\<exists>w h. x = encode_resize w h) \<or> x = encode_ping \<or> x = encode_hangup"

lemma client_frames [simp]:
  "client_frame (encode_ack_state v)" "client_frame (encode_input n d)" "client_frame (encode_resize w h)"
  "client_frame encode_ping" "client_frame encode_hangup"
  by (auto simp: client_frame_def)

text \<open>What the frames of a client depend on: its unacknowledged inputs.\<close>

definition frames_from :: "(bytes \<Rightarrow> bool) \<Rightarrow> ('f, 'v) client \<Rightarrow> bool" where
  "frames_from P c \<longleftrightarrow> (\<forall>v. P (encode_ack_state v)) \<and> list_all (\<lambda>(n, d). P (encode_input n d)) (cl_unacked c) \<and>
     (\<forall>w h. P (encode_resize w h)) \<and> P encode_ping \<and> P encode_hangup"

lemma frames_from_cong: "frames_from P c \<Longrightarrow> cl_unacked c' = cl_unacked c \<Longrightarrow> frames_from P c'"
  by (simp add: frames_from_def)

lemma pump_ack_feed: "frames_from P c \<Longrightarrow> feed_reach P [] (cl_feed c) (cl_feed (pump_ack c))"
  by (simp add: frames_from_def pump_ack_def Let_def split_def feed_reach_refl feed_reach_push split: option.split)

lemma pump_input_feed: "frames_from P c \<Longrightarrow> feed_reach P [] (cl_feed c) (cl_feed (pump_input c))"
  by (auto simp: frames_from_def pump_input_def Let_def split_def list_all_iff find_Some_iff feed_reach_refl
      intro!: feed_reach_push split: option.split) (metis case_prod_conv nth_mem prod.collapse)

lemma client_pump_feed: "frames_from P c \<Longrightarrow> feed_reach P [] (cl_feed c) (cl_feed (client_pump c))"
proof -
  assume f: "frames_from P c"
  have "cl_unacked (pump_ack c) = cl_unacked c"
    by (simp add: pump_ack_def Let_def split_def split: option.split)
  then have "frames_from P (pump_ack c)" by (rule frames_from_cong [OF f])
  from f feed_reach_trans [OF pump_ack_feed [OF f] pump_input_feed [OF this]] show ?thesis
    by (simp add: client_pump_def Let_def feed_reach_refl pump_ack_feed)
qed

lemma maybe_ping_feed: "frames_from P c \<Longrightarrow> feed_reach P [] (cl_feed c) (cl_feed (maybe_ping F now c))"
  by (simp add: frames_from_def maybe_ping_def Let_def split_def feed_reach_refl feed_reach_push)

lemma tick_feed:
  assumes "frames_from P c"
  shows "feed_reach P [] (cl_feed c) (cl_feed (fst (client_tick F now c)))"
proof -
  have f: "frames_from P (tick_predictions F now c)" "frames_from P (client_pump (tick_predictions F now c))"
    by (auto intro: frames_from_cong [OF assms])
  have p: "feed_reach P [] (cl_feed c) (cl_feed (client_pump (tick_predictions F now c)))"
    using client_pump_feed [OF f(1)] by simp
  from p feed_reach_trans [OF p maybe_ping_feed [OF f(2), of F now]] client_tick_state [of F now c] show ?thesis
    by (simp add: Let_def)
qed

lemma handle_frame_feed: "cl_feed (fst (handle_frame F mty payload now c)) = cl_feed c"
proof -
  obtain c' e where h: "handle_frame F mty payload now c = (c', e)" by fastforce
  from h have "cl_feed c' = cl_feed c" by (cases rule: handle_frameE) (auto elim: apply_shared_screenE)
  with h show ?thesis by simp
qed

lemma client_step_feed:
  assumes "\<And>now. ev \<noteq> Begin now" "frames_from P c"
  shows "feed_reach P (client_wire ev c) (cl_feed c) (cl_feed (client_step F ev c))"
proof (cases ev)
  case (Receive bs now)
  have "cl_feed (fst (recv_control F bs now c)) = cl_feed c"
    by (rule recv_control_invariant [where P = "\<lambda>c'. cl_feed c' = cl_feed c"]) (simp_all add: handle_frame_feed)
  then show ?thesis by (simp add: Receive feed_reach_refl)
next
  case (Datagram bs now)
  have "cl_feed (fst (apply_shared_screen F s now c')) = cl_feed c'" for s c'
    by (cases "apply_shared_screen F s now c'") (auto elim: apply_shared_screenE)
  then show ?thesis by (simp add: Datagram recv_datagram_def Let_def feed_reach_refl split: sum.split)
next
  case (Tick now)
  then show ?thesis by (simp add: tick_feed assms(2))
next
  case Pump_Out
  then show ?thesis by (simp add: client_pump_feed assms(2))
next
  case (Sent_Out n)
  then show ?thesis by (simp add: client_advance_outbound_def client_outbound_def feed_reach_advance)
qed (use assms in \<open>simp_all add: feed_reach_refl end_connection_def client_reset_def queue_input_def Let_def
      set_size_def request_hangup_def frames_from_def feed_reach_push feed_reach_fin\<close>)

lemma client_frames_from: "frames_from client_frame c"
  by (simp add: frames_from_def list_all_iff split_def)

lemma wire_run_frames:
  assumes "feed_ok (cl_feed c)" "list_all client_frame (feed_pending (cl_feed c))"
    and "list_all (\<lambda>ev. \<forall>now. ev \<noteq> Begin now) evs"
  shows "\<exists>fs. list_all client_frame fs \<and>
    fst (wire_run F evs c) @ client_outbound (snd (wire_run F evs c)) = client_outbound c @ concat fs"
proof -
  have "feed_reach client_frame (fst (wire_run F evs c)) (cl_feed c) (cl_feed (snd (wire_run F evs c)))"
    using assms(3)
  proof (induction evs arbitrary: c)
    case (Cons ev evs)
    then have "feed_reach client_frame (client_wire ev c) (cl_feed c) (cl_feed (client_step F ev c))"
      by (intro client_step_feed client_frames_from) simp
    from feed_reach_trans [OF this Cons.IH] Cons.prems show ?case by (simp add: Let_def split_def)
  qed (simp add: feed_reach_refl)
  from feed_reach_frames [OF this assms(1,2)] show ?thesis by (auto simp: client_outbound_def)
qed

lemma begin_connection_feed:
  "feed_ok (cl_feed (begin_connection now c))" "client_outbound (begin_connection now c) = client_hello c"
  "feed_pending (cl_feed (begin_connection now c)) = []"
  by (simp_all add: begin_connection_def client_outbound_def feed_push_first)

section \<open>Unacknowledged input\<close>

definition unacked_ok :: "('f, 'v) client \<Rightarrow> bool" where
  "unacked_ok c \<longleftrightarrow> (\<exists>k \<le> unat (cl_seq c).
     map (\<lambda>(s, _). unat s) (cl_unacked c) = [Suc k..<Suc (unat (cl_seq c))])"

lemma filter_upt_above: "filter (\<lambda>n. a < n) [Suc k..<Suc n] = [Suc (max k a)..<Suc n]"
proof (induction n)
  case (Suc n)
  then show ?case by (cases "a < Suc n"; cases "k \<le> n") (auto simp: max_def not_le le_Suc_eq)
qed (simp add: max_def)

lemma unacked_ok_ack:
  assumes "unacked_ok c"
  shows "unacked_ok (c\<lparr>cl_unacked := filter (\<lambda>(s, _). s > a) (cl_unacked c)\<rparr>)"
proof -
  from assms obtain k where k: "k \<le> unat (cl_seq c)"
    "map (\<lambda>(s, _). unat s) (cl_unacked c) = [Suc k..<Suc (unat (cl_seq c))]" by (auto simp: unacked_ok_def)
  have "map (\<lambda>(s, _). unat s) (filter (\<lambda>(s, _). s > a) (cl_unacked c)) =
      filter (\<lambda>n. unat a < n) (map (\<lambda>(s, _). unat s) (cl_unacked c))"
    by (induction "cl_unacked c") (auto simp: filter_map comp_def split_def word_less_nat_alt)
  also have "\<dots> = [Suc (max k (unat a))..<Suc (unat (cl_seq c))]" by (simp only: k(2) filter_upt_above)
  finally have m: "map (\<lambda>(s, _). unat s) (filter (\<lambda>(s, _). s > a) (cl_unacked c)) =
    [Suc (max k (unat a))..<Suc (unat (cl_seq c))]" .
  show ?thesis
  proof (cases "max k (unat a) \<le> unat (cl_seq c)")
    case True
    with m show ?thesis unfolding unacked_ok_def by (intro exI [of _ "max k (unat a)"]) simp
  next
    case False
    with m have "map (\<lambda>(s, _). unat s) (filter (\<lambda>(s, _). s > a) (cl_unacked c)) = [Suc (unat (cl_seq c))..<Suc (unat (cl_seq c))]"
      by simp
    then show ?thesis unfolding unacked_ok_def by (intro exI [of _ "unat (cl_seq c)"]) simp
  qed
qed

lemma unacked_ok_cong:
  "unacked_ok c \<Longrightarrow> cl_seq c' = cl_seq c \<Longrightarrow> cl_unacked c' = cl_unacked c \<Longrightarrow> unacked_ok c'"
  by (simp add: unacked_ok_def)

lemma handle_frame_unacked:
  assumes "unacked_ok c"
  shows "unacked_ok (fst (handle_frame F mty payload now c))"
proof -
  obtain c' e where h: "handle_frame F mty payload now c = (c', e)" by fastforce
  from h have "unacked_ok c'"
  proof (cases rule: handle_frameE)
    case (ack a)
    with unacked_ok_ack [OF assms] show ?thesis by simp
  next
    case (shared s)
    then show ?thesis using assms by (cases rule: apply_shared_screenE) (auto intro: unacked_ok_cong)
  qed (auto intro: unacked_ok_cong [OF assms])
  with h show ?thesis by simp
qed

lemma queue_input_unacked:
  assumes "unacked_ok c" "unat (cl_seq c) + 1 < 18446744073709551616"
  shows "unacked_ok (queue_input F bs now c)"
proof -
  from assms obtain k where k: "k \<le> unat (cl_seq c)"
    "map (\<lambda>(s, _). unat s) (cl_unacked c) = [Suc k..<Suc (unat (cl_seq c))]" by (auto simp: unacked_ok_def)
  have s: "unat (cl_seq c + 1) = Suc (unat (cl_seq c))"
    by (rule unat_plus_one_no_wrap) (use assms(2) in simp)
  show ?thesis unfolding unacked_ok_def
    by (rule exI [of _ k]) (use k s in \<open>simp add: queue_input_def Let_def\<close>)
qed

lemma client_step_unacked:
  assumes "unacked_ok c" "case ev of Queue_Input _ _ \<Rightarrow> unat (cl_seq c) + 1 < 18446744073709551616 | _ \<Rightarrow> True"
  shows "unacked_ok (client_step F ev c)"
proof (cases ev)
  case (Receive bs now)
  have "unacked_ok (fst (recv_control F bs now c))"
    by (rule recv_control_invariant [where P = unacked_ok])
      (auto intro: handle_frame_unacked assms(1) unacked_ok_cong)
  then show ?thesis by (simp add: Receive)
next
  case (Datagram bs now)
  have "unacked_ok (fst (apply_shared_screen F s now c'))" if "unacked_ok c'" for s c'
    using that by (cases "apply_shared_screen F s now c'") (auto elim!: apply_shared_screenE intro: unacked_ok_cong)
  moreover have "unacked_ok (c\<lparr>cl_last_rx_ms := Some now\<rparr>)" by (rule unacked_ok_cong [OF assms(1)]) simp_all
  ultimately show ?thesis
    by (auto simp: Datagram recv_datagram_def Let_def split: sum.split intro: unacked_ok_cong)
next
  case (Queue_Input bs now)
  with assms show ?thesis by (simp add: queue_input_unacked)
qed (auto intro!: unacked_ok_cong [OF assms(1)] simp: begin_connection_def end_connection_def set_size_def
    request_hangup_def client_advance_outbound_def client_reset_def Let_def)

section \<open>Silence\<close>

text \<open>The calls that are possible while nothing arrives and the user stays.\<close>

fun quiet :: "'f cevent \<Rightarrow> bool" where
  "quiet (Queue_Input _ _) = True"
| "quiet (Set_Size _ _) = True"
| "quiet (Tick _) = True"
| "quiet Pump_Out = True"
| "quiet (Sent_Out _) = True"
| "quiet Forget = True"
| "quiet _ = False"

lemma feed_predict_rx [simp]: "cl_last_rx_ms (feed_predict F s bs now c) = cl_last_rx_ms c"
  by (simp add: feed_predict_def refresh_display_def Let_def split: option.split)

lemma outage_ping_rx [simp]: "cl_last_rx_ms (tick_outage now c) = cl_last_rx_ms c"
  by (simp add: tick_outage_def split: option.split)

lemma quiet_run:
  assumes "list_all quiet evs"
  shows "cl_last_rx_ms (fold (client_step F) evs c) = cl_last_rx_ms c \<and>
    cl_connected (fold (client_step F) evs c) = cl_connected c \<and>
    cl_hungup (fold (client_step F) evs c) = cl_hungup c"
  using assms
proof (induction evs arbitrary: c)
  case (Cons ev evs)
  have "cl_last_rx_ms (client_step F ev c) = cl_last_rx_ms c \<and> cl_connected (client_step F ev c) = cl_connected c \<and>
      cl_hungup (client_step F ev c) = cl_hungup c"
    using Cons.prems client_tick_state [of F _ c]
    by (cases ev) (simp_all add: Let_def client_reset_def queue_input_def set_size_def client_advance_outbound_def)
  with Cons.IH [of "client_step F ev c"] Cons.prems show ?case by simp
qed simp

lemma scaled_ms_bound: "unat (scaled_ms F srtt k) \<le> 20000"
proof (cases srtt)
  case (Some s)
  define x where "x = \<lfloor>min 20000 (max 0 (f64_rnd F (k * s)))\<rfloor>"
  have x: "0 \<le> x" "x \<le> 20000" unfolding x_def by linarith+
  then have "uint (of_int x :: u64) = x" by (simp add: uint_word_of_int take_bit_int_eq_self)
  then have "unat (of_int x :: u64) = nat x" by (simp add: unat_eq_nat_uint)
  with x Some show ?thesis by (simp add: scaled_ms_def x_def [symmetric])
qed (simp add: scaled_ms_def)

lemma link_dead_bounds: "8000 \<le> unat (link_dead_ms F srtt) \<and> unat (link_dead_ms F srtt) \<le> 20000"
  using scaled_ms_bound [of F srtt 4] by (auto simp: link_dead_ms_def max_def word_le_nat_alt)

text \<open>C24: A connection over which nothing arrives, whatever the user types and however often the
  client is ticked and its output written, is reported dead by every tick 20 seconds or more after
  the connection began, and by no tick before 8 seconds: the threshold follows the measured
  round-trip time only between these bounds. After a hangup no tick reports it.\<close>

theorem silent_link_detected:
  assumes "list_all quiet evs"
  shows "let c = fold (client_step F) evs (begin_connection t0 c0) in
    (cl_hungup c0 \<longrightarrow> snd (client_tick F now c) = Alive) \<and>
    (\<not> cl_hungup c0 \<and> unat t0 + 20000 \<le> unat now \<longrightarrow> snd (client_tick F now c) = LinkDead) \<and>
    (unat now < unat t0 + 8000 \<longrightarrow> snd (client_tick F now c) = Alive)"
proof -
  let ?c = "fold (client_step F) evs (begin_connection t0 c0)"
  have c: "cl_last_rx_ms ?c = Some t0" "cl_connected ?c" "cl_hungup ?c = cl_hungup c0"
    using quiet_run [OF assms, of F "begin_connection t0 c0"] by (simp_all add: begin_connection_def)
  then have "snd (client_tick F now ?c) =
      (if \<not> cl_hungup c0 \<and> unat (link_dead_ms F (cl_srtt_ms ?c)) \<le> unat now - unat t0 then LinkDead else Alive)"
    by (simp add: client_tick_def Let_def word_le_nat_alt unat_sat_sub)
  with link_dead_bounds [of F "cl_srtt_ms ?c"] show ?thesis by (auto simp: Let_def)
qed

section \<open>An example client\<close>

definition client_lib_ex :: "(cframe, unit) client_lib" where
  "client_lib_ex = predict_lib.extend predict_ex \<lparr>f64_rnd = id\<rparr>"

definition client_ex :: "(cframe, unit) client" where
  "client_ex = client_new client_lib_ex (replicate 16 1) (replicate 32 2) 3 1 True"

theorem silent_link_detected_witness:
  "snd (client_tick client_lib_ex 20005 (fold (client_step client_lib_ex)
     [Queue_Input [97] 6, Tick 9000, Pump_Out] (begin_connection 5 client_ex))) = LinkDead"
  using silent_link_detected [of "[Queue_Input [97] 6, Tick 9000, Pump_Out]" client_lib_ex 5 client_ex 20005]
  by (simp add: Let_def client_ex_def client_new_def)

section \<open>Properties\<close>

lemma recv_control_append:
  assumes "a \<noteq> []"
  shows "recv_control F (a @ b) now c = (case recv_control F a now c of
      (c', None) \<Rightarrow> recv_control F b now c'
    | (c', Some e) \<Rightarrow> (c'\<lparr>cl_recv_buf := cl_recv_buf c' @ b\<rparr>, Some e))"
proof -
  let ?c = "c\<lparr>cl_last_rx_ms := Some now\<rparr>"
  obtain c' e where r: "recv_loop F now (cl_recv_buf c @ a) ?c = (c', e)" by fastforce
  have "cl_last_rx_ms c' = Some now"
    using recv_loop_keeps_rx [of ?c now F "cl_recv_buf c @ a"] r by simp
  then have "c'\<lparr>cl_last_rx_ms := Some now\<rparr> = c'" by simp
  with recv_loop_append [of F now "cl_recv_buf c @ a" b ?c] assms r show ?thesis
    by (simp add: recv_control_def Let_def split: option.split)
qed

text \<open>What a client makes of the control stream does not depend on how the transport cuts it
  into chunks: a stream received in two pieces leaves the same state, and fails with the same error,
  as received in one. After an error the rest of the stream stays unread.\<close>

theorem client_chunk_independent:
  assumes "a \<noteq> []"
  shows "recv_control F (a @ b) now c = (case recv_control F a now c of
      (c', None) \<Rightarrow> recv_control F b now c'
    | (c', Some e) \<Rightarrow> (c'\<lparr>cl_recv_buf := cl_recv_buf c' @ b\<rparr>, Some e))"
  using assms by (rule recv_control_append)

lemma recv_ex:
  "split_frame ([9, 0, 0] :: bytes) = Inr (None, [9, 0, 0])"
  "split_frame [9, 0, 0, 0, 7, 1, 0, 0, 0, 0, 0, 0, 0] = Inr (Some (7, [1, 0, 0, 0, 0, 0, 0, 0]), [])"
  "split_frame ([] :: bytes) = Inr (None, [])"
  "decode_u64 [1, 0, 0, 0, 0, 0, 0, 0] = Inr 1"
  by (simp_all add: split_frame_def peek_len_def MAX_FRAME_def decode_u64_def byte_eval slc_def Let_def)

theorem client_chunk_independent_witness:
  "cl_unacked (fst (recv_control client_lib_ex ([9, 0, 0] @ [0, 7, 1, 0, 0, 0, 0, 0, 0, 0]) 7
     (client_ex\<lparr>cl_unacked := [(1, [97]), (2, [98])]\<rparr>))) = [(2, [98])]"
proof -
  let ?c = "client_ex\<lparr>cl_unacked := [(1, [97]), (2, [98])]\<rparr>"
  have b: "cl_recv_buf client_ex = []" by (simp add: client_ex_def client_new_def)
  have "recv_control client_lib_ex [9, 0, 0] 7 ?c = (?c\<lparr>cl_last_rx_ms := Some 7, cl_recv_buf := [9, 0, 0]\<rparr>, None)"
    by (simp add: recv_control_def Let_def b recv_loop.simps [of _ _ "[9, 0, 0]"] recv_ex
        del: append.simps) (simp add: b recv_loop.simps [of _ _ "[9, 0, 0]"] recv_ex)
  moreover have "cl_unacked (fst (recv_control client_lib_ex [0, 7, 1, 0, 0, 0, 0, 0, 0, 0] 7
      (?c\<lparr>cl_last_rx_ms := Some 7, cl_recv_buf := [9, 0, 0]\<rparr>))) = [(2, [98])]"
    by (simp add: recv_control_def Let_def recv_loop.simps [of _ _ "_ # _"] recv_loop.simps [of _ _ "[]"] recv_ex
        handle_frame_def msg_defs)
  ultimately show ?thesis
    using client_chunk_independent [of "[9, 0, 0]" client_lib_ex "[0, 7, 1, 0, 0, 0, 0, 0, 0, 0]" 7 ?c] by simp
qed

definition ack_current :: "('f, 'v) client \<Rightarrow> bool" where
  "ack_current c \<longleftrightarrow> cl_pending_ack c = None \<or> cl_pending_ack c = Some (confirmed_version c)"

lemma ack_current_cong:
  assumes "ack_current c" "cl_pending_ack c' = cl_pending_ack c \<or> cl_pending_ack c' = None" "cl_confirmed c' = cl_confirmed c"
  shows "ack_current c'"
  using assms by (auto simp: ack_current_def confirmed_version_def)

lemma apply_screen_ack: "ack_current c \<Longrightarrow> ack_current (apply_screen F s now c)"
  by (auto simp: apply_screen_def refresh_display_def ack_current_def confirmed_version_def split: option.split)

lemma shared_context_ack: "ack_current c \<Longrightarrow> ack_current (shared_context x c)"
  by (erule ack_current_cong) (simp_all add: shared_context_def)

lemma apply_shared_ack:
  assumes "ack_current c"
  shows "ack_current (fst (apply_shared_screen F s now c))"
proof -
  obtain c' e where r: "apply_shared_screen F s now c = (c', e)" by fastforce
  then have "ack_current c'" using assms
    by (cases rule: apply_shared_screenE) (simp_all add: apply_screen_ack shared_context_ack)
  with r show ?thesis by simp
qed

lemma handle_frame_ack: "ack_current c \<Longrightarrow> ack_current (fst (handle_frame F mty payload now c))"
proof -
  assume c: "ack_current c"
  obtain c' e where h: "handle_frame F mty payload now c = (c', e)" by fastforce
  from h have "ack_current c'"
  proof (cases rule: handle_frameE)
    case (shared s)
    with apply_shared_ack [OF c, of F s now] show ?thesis by simp
  next
    case pong
    show ?thesis unfolding pong
      by (rule ack_current_cong [OF c]) (simp_all add: pong_sample_def Let_def split: option.split)
  qed (auto intro: ack_current_cong [OF c] apply_screen_ack c)
  with h show ?thesis by simp
qed

lemma keeps_pending_ack [simp]:
  "cl_pending_ack (maybe_ping F now c) = cl_pending_ack c" "cl_pending_ack (tick_outage now c) = cl_pending_ack c"
  "cl_pending_ack (tick_predictions F now c) = cl_pending_ack c"
  "cl_pending_ack (feed_predict F s bs now c) = cl_pending_ack c"
  by (simp_all add: maybe_ping_def tick_outage_def tick_predictions_def refresh_display_def feed_predict_def Let_def
      split_def split: option.split)

lemma pump_pending_ack: "cl_pending_ack (client_pump c) = cl_pending_ack c \<or> cl_pending_ack (client_pump c) = None"
  by (auto simp: client_pump_def pump_ack_def pump_input_def Let_def split_def split: option.split)

lemma client_step_ack:
  assumes "ack_current c"
  shows "ack_current (client_step F ev c)"
proof (cases ev)
  case (Receive bs now)
  have "ack_current (fst (recv_control F bs now c))"
    by (rule recv_control_invariant [where P = ack_current])
      (auto intro: handle_frame_ack assms ack_current_cong)
  then show ?thesis by (simp add: Receive)
next
  case (Datagram bs now)
  have "ack_current (c\<lparr>cl_last_rx_ms := Some now\<rparr>)" by (rule ack_current_cong [OF assms]) simp_all
  then show ?thesis
    by (auto simp: Datagram recv_datagram_def Let_def apply_shared_ack apply_screen_ack split: sum.split)
next
  case (Tick now)
  show ?thesis unfolding Tick client_step.simps
    by (rule ack_current_cong [OF assms])
      (use client_tick_state [of F now c] pump_pending_ack [of "tick_predictions F now c"] in \<open>auto simp: Let_def\<close>)
next
  case Pump_Out
  with pump_pending_ack [of c] show ?thesis by (auto intro: ack_current_cong [OF assms])
qed (auto intro!: ack_current_cong [OF assms] simp: begin_connection_def end_connection_def set_size_def
    request_hangup_def client_advance_outbound_def client_reset_def queue_input_def Let_def)

text \<open>Over any sequence of calls the version of the confirmed screen never goes back, whatever
  datagrams and frames arrive in whatever order, and the version waiting to be acknowledged is
  always the one that is confirmed.\<close>

theorem client_screen_monotone:
  "let c = fold (client_step F) evs (client_new F sid tok cols rows never); c' = fold (client_step F) evs' c in
     confirmed_version c \<le> confirmed_version c' \<and>
     cl_pending_ack c' \<in> {None, Some (confirmed_version c')}"
proof -
  have mono: "confirmed_version c \<le> confirmed_version (fold (client_step F) evs c)" for evs c
    by (induction evs arbitrary: c) (auto intro: order.trans [OF client_step_version])
  have ack: "ack_current c \<Longrightarrow> ack_current (fold (client_step F) evs c)" for evs c
    by (induction evs arbitrary: c) (simp_all add: client_step_ack)
  have "ack_current (client_new F sid tok cols rows never)" by (simp add: ack_current_def client_new_def)
  from ack [OF ack [OF this, of evs], of evs'] mono show ?thesis by (auto simp: Let_def ack_current_def)
qed

text \<open>When predictions are off, because the user asked for it or because the server's shared
  session forbids them, the display shows the confirmed screen and nothing else, over any sequence of
  calls.\<close>

theorem predictions_off_display:
  assumes "predictions_off (fold (client_step F) evs (client_new F sid tok cols rows never))"
  shows "let c = fold (client_step F) evs (client_new F sid tok cols rows never) in
    cl_display c = None \<or> cl_display c = client_confirmed c"
proof -
  have run: "display_ok c \<Longrightarrow> display_ok (fold (client_step F) evs c)" for c
    by (induction evs arbitrary: c) (simp_all add: client_step_display_ok)
  have "display_ok (client_new F sid tok cols rows never)"
    by (simp add: display_ok_def client_new_def predictions_off_def display_plain_def)
  from run [OF this] assms show ?thesis by (simp add: display_ok_def display_plain_def Let_def)
qed

theorem predictions_off_display_witness:
  "let c = fold (client_step client_lib_ex) [Begin 3, Queue_Input [97] 4, Tick 9] client_ex in
     cl_display c = None \<or> cl_display c = client_confirmed c"
  unfolding client_ex_def
  by (rule predictions_off_display)
    (simp add: predictions_off_def begin_connection_def queue_input_def Let_def client_new_def)

text \<open>C15: What a connection puts on the wire is the client's hello, then whole frames, each an
  acknowledgement, an input, a resize, a ping or the hangup: the bytes sent so far, followed by
  those about to be sent, are always such a sequence.\<close>

theorem connection_wire_format:
  assumes "list_all (\<lambda>ev. \<forall>t. ev \<noteq> Begin t) evs"
  shows "\<exists>fs. list_all client_frame fs \<and>
    (case wire_run F evs (begin_connection now c) of
      (sent, c') \<Rightarrow> sent @ client_outbound c' = client_hello c @ concat fs)"
  using wire_run_frames [of "begin_connection now c" evs F] assms
  by (simp add: begin_connection_feed split_def)

theorem connection_wire_format_witness:
  "\<exists>fs. list_all client_frame fs \<and>
    (case wire_run client_lib_ex [Queue_Input [97] 4, Sent_Out 3, Pump_Out, Sent_Out 100] (begin_connection 3 client_ex) of
      (sent, c') \<Rightarrow> sent @ client_outbound c' = client_hello client_ex @ concat fs)"
  by (rule connection_wire_format) simp

end
