(* ===== verification/Terminal.thy ===== *)
theory Terminal
  imports Predict_Model Ansi
begin

text \<open>
  The terminal emulator of a session (\<open>crates/quosh-terminal/src/lib.rs\<close>): an adapter over the
  \<open>alacritty_terminal\<close> library, which is the record of parameters \<open>term_lib\<close>. The adapter
  collects the replies the terminal generates, the title, and converts the grid to a frame.

  The lemmas show that every snapshot of an emulator of a permitted size fits the screen encoding,
  and that each packed cell carries the colours, the attributes and the text of its grid cell.
\<close>

section \<open>The terminal library\<close>

text \<open>Colours of a grid cell; a named colour is its number in the library's enumeration.\<close>

datatype term_colour = Named_Colour nat | Indexed_Colour byte | Spec_Colour byte byte byte

definition NAMED_FOREGROUND :: nat where "NAMED_FOREGROUND = 256"
definition NAMED_BACKGROUND :: nat where "NAMED_BACKGROUND = 257"

datatype cell_flag = Bold | Dim | Italic | Underline | Double_Underline | Undercurl
  | Dotted_Underline | Dashed_Underline | Inverse | Hidden | Strikeout | Wide_Char | Wide_Char_Spacer

record term_cell =
  tc_c :: nat
  tc_fg :: term_colour
  tc_bg :: term_colour
  tc_flags :: "cell_flag set"
  tc_has_extra :: bool
  tc_zerowidth :: "nat list option"

datatype term_event = Pty_Write rstr | Set_Title rstr | Reset_Title | Clipboard_Store | Other_Event

text \<open>The grid, its parser and the event listener: a call returns the events it sends, in order.\<close>

record 't term_lib =
  tl_new :: "nat \<Rightarrow> nat \<Rightarrow> nat \<Rightarrow> 't"
  tl_advance :: "bytes \<Rightarrow> 't \<Rightarrow> 't \<times> term_event list"
  tl_stop_sync :: "'t \<Rightarrow> 't \<times> term_event list"
  tl_sync_timeout :: "'t \<Rightarrow> nat option"
  tl_resize :: "nat \<Rightarrow> nat \<Rightarrow> 't \<Rightarrow> 't \<times> term_event list"
  tl_cell :: "'t \<Rightarrow> nat \<Rightarrow> nat \<Rightarrow> term_cell"
  tl_cursor :: "'t \<Rightarrow> int \<times> nat"
  tl_show_cursor :: "'t \<Rightarrow> bool"
  tl_bracketed_paste :: "'t \<Rightarrow> bool"

section \<open>Packed cells\<close>

unbundle bit_operations_syntax

definition colour_field :: "nat \<Rightarrow> term_colour \<Rightarrow> byte \<times> bytes" where
  "colour_field dflt c = (case c of
      Named_Colour n \<Rightarrow> if n = dflt then (0, [0, 0, 0]) else (1, [of_nat n, 0, 0])
    | Indexed_Colour i \<Rightarrow> (1, [i, 0, 0])
    | Spec_Colour r g b \<Rightarrow> (2, [r, g, b]))"

definition flag_bit :: "bool \<Rightarrow> nat \<Rightarrow> byte" where
  "flag_bit b n = (if b then push_bit n 1 else 0)"

definition underlined :: "cell_flag set \<Rightarrow> bool" where
  "underlined flags \<longleftrightarrow> Underline \<in> flags \<or> Double_Underline \<in> flags \<or> Undercurl \<in> flags \<or>
     Dotted_Underline \<in> flags \<or> Dashed_Underline \<in> flags"

text \<open>The text of a cell: the length field, the four content bytes, and the text that did not fit.\<close>

definition full_text :: "term_cell \<Rightarrow> rstr" where
  "full_text cell = utf8_encode (tc_c cell) @
     (case tc_zerowidth cell of None \<Rightarrow> [] | Some zs \<Rightarrow> concat (map utf8_encode zs))"

definition content_field :: "term_cell \<Rightarrow> byte \<times> bytes \<times> rstr option" where
  "content_field cell =
     (if tc_c cell \<le> 0x7F \<and> tc_c cell > 0x20 \<and> \<not> tc_has_extra cell then (1, [of_nat (tc_c cell), 0, 0, 0], None)
      else if tc_c cell \<noteq> 0 \<and> tc_c cell \<noteq> 0x20 then
        (let full = full_text cell in
         if length full \<le> 4 then (of_nat (length full), full @ replicate (4 - length full) 0, None)
         else (7, [0, 0, 0, 0], Some full))
      else (0, [0, 0, 0, 0], None))"

definition encode_cell ::
  "term_cell \<Rightarrow> nat \<Rightarrow> (nat \<times> rstr) list \<Rightarrow> bytes \<times> (nat \<times> rstr) list" where
  "encode_cell cell flat overflow =
     (let (fg, fv) = colour_field NAMED_FOREGROUND (tc_fg cell);
          (bg, bv) = colour_field NAMED_BACKGROUND (tc_bg cell);
          flags = tc_flags cell;
          f0 = fg OR push_bit 2 bg OR flag_bit (Bold \<in> flags) 4 OR flag_bit (Dim \<in> flags) 5 OR
                 flag_bit (Italic \<in> flags) 6 OR flag_bit (underlined flags) 7;
          (len, content, rest) = content_field cell;
          f1 = flag_bit (Inverse \<in> flags) 0 OR flag_bit (Wide_Char \<in> flags) 1 OR
                 flag_bit (Wide_Char_Spacer \<in> flags) 2 OR push_bit 3 len in
      ([f0, f1] @ fv @ bv @ content,
       case rest of None \<Rightarrow> overflow | Some full \<Rightarrow> btree_insert flat full overflow))"

section \<open>The emulator\<close>

record 't emulator =
  em_term :: 't
  em_pty_write :: bytes
  em_title :: rstr
  em_rows :: u16
  em_cols :: u16

fun send_event :: "term_event \<Rightarrow> 't emulator \<Rightarrow> 't emulator" where
  "send_event (Pty_Write s) e = e\<lparr>em_pty_write := em_pty_write e @ s\<rparr>"
| "send_event (Set_Title t) e = e\<lparr>em_title := t\<rparr>"
| "send_event Reset_Title e = e\<lparr>em_title := []\<rparr>"
| "send_event Clipboard_Store e = e"
| "send_event Other_Event e = e"

definition emulator_new :: "('t, 'y) term_lib_scheme \<Rightarrow> u16 \<Rightarrow> u16 \<Rightarrow> nat \<Rightarrow> 't emulator" where
  "emulator_new T rows cols scrollback =
     \<lparr>em_term = tl_new T (unat cols) (unat rows) scrollback, em_pty_write = [], em_title = [],
      em_rows = rows, em_cols = cols\<rparr>"

definition term_call :: "('t \<Rightarrow> 't \<times> term_event list) \<Rightarrow> 't emulator \<Rightarrow> 't emulator" where
  "term_call f e = (let (t, evs) = f (em_term e) in fold send_event evs (e\<lparr>em_term := t\<rparr>))"

definition emulator_process :: "('t, 'y) term_lib_scheme \<Rightarrow> bytes \<Rightarrow> 't emulator \<Rightarrow> 't emulator" where
  "emulator_process T data e = term_call (tl_advance T data) e"

definition sync_deadline :: "('t, 'y) term_lib_scheme \<Rightarrow> 't emulator \<Rightarrow> nat option" where
  "sync_deadline T e = tl_sync_timeout T (em_term e)"

definition flush_sync :: "('t, 'y) term_lib_scheme \<Rightarrow> 't emulator \<Rightarrow> 't emulator" where
  "flush_sync T e = term_call (tl_stop_sync T) e"

definition take_pty_write :: "'t emulator \<Rightarrow> bytes \<times> 't emulator" where
  "take_pty_write e = (em_pty_write e, e\<lparr>em_pty_write := []\<rparr>)"

definition emulator_resize :: "('t, 'y) term_lib_scheme \<Rightarrow> u16 \<Rightarrow> u16 \<Rightarrow> 't emulator \<Rightarrow> 't emulator" where
  "emulator_resize T rows cols e =
     term_call (tl_resize T (unat cols) (unat rows)) (e\<lparr>em_rows := rows, em_cols := cols\<rparr>)"

definition pack_mode :: "('t, 'y) term_lib_scheme \<Rightarrow> 't emulator \<Rightarrow> u16" where
  "pack_mode T e = (if tl_show_cursor T (em_term e) then 1 else 0) OR
     (if tl_bracketed_paste T (em_term e) then 8 else 0)"

text \<open>The double loop over the grid, in row-major order: each cell's bytes follow those before it.\<close>

definition grid_cell ::
  "('t, 'y) term_lib_scheme \<Rightarrow> 't \<Rightarrow> nat \<Rightarrow> nat \<Rightarrow> bytes \<times> (nat \<times> rstr) list \<Rightarrow> bytes \<times> (nat \<times> rstr) list" where
  "grid_cell T t cols flat = (\<lambda>(cells, overflow).
     let (buf, overflow) = encode_cell (tl_cell T t (flat div cols) (flat mod cols)) flat overflow in
     (cells @ buf, overflow))"

definition grid_cells ::
  "('t, 'y) term_lib_scheme \<Rightarrow> 't \<Rightarrow> nat \<Rightarrow> nat \<Rightarrow> bytes \<times> (nat \<times> rstr) list" where
  "grid_cells T t rows cols = fold (grid_cell T t cols) [0..<rows * cols] ([], [])"

definition snapshot :: "('f, 'z) frame_lib_scheme \<Rightarrow> ('t, 'y) term_lib_scheme \<Rightarrow> 't emulator \<Rightarrow> 'f" where
  "snapshot F T e =
     (let (cells, overflow) = grid_cells T (em_term e) (unat (em_rows e)) (unat (em_cols e));
          (line, column) = tl_cursor T (em_term e);
          cursor_row = min (of_int line) (sat_sub (em_rows e) 1);
          cursor_col = min (of_nat column) (sat_sub (em_cols e) 1) in
      fs_set_overflow F overflow
        (fs_from_parts F (em_rows e) (em_cols e) cursor_row cursor_col (pack_mode T e) (em_title e) cells))"

section \<open>Characters\<close>

text \<open>The standard library's encoding is valid UTF-8 for every Unicode scalar value.\<close>

definition scalar :: "nat \<Rightarrow> bool" where
  "scalar ch \<longleftrightarrow> ch < 0xD800 \<or> (0xDFFF < ch \<and> ch < 0x110000)"

lemma unat_byte_plus: "numeral k + x < (256 :: nat) \<Longrightarrow> unat (numeral k + of_nat x :: byte) = numeral k + x"
  using unat_of_nat_small [of "numeral k + x", where 'a = 8] by simp

lemma utf8_step_multi:
  "0xC2 \<le> unat b0 \<Longrightarrow> unat b0 \<le> 0xDF \<Longrightarrow> is_cont b1 \<Longrightarrow> utf8_step (b0 # b1 # xs) = (True, 2)"
  "0xE0 \<le> unat b0 \<Longrightarrow> unat b0 \<le> 0xEF \<Longrightarrow> second_of_three b0 b1 \<Longrightarrow> is_cont b2 \<Longrightarrow>
     utf8_step (b0 # b1 # b2 # xs) = (True, 3)"
  "0xF0 \<le> unat b0 \<Longrightarrow> unat b0 \<le> 0xF4 \<Longrightarrow> second_of_four b0 b1 \<Longrightarrow> is_cont b2 \<Longrightarrow> is_cont b3 \<Longrightarrow>
     utf8_step (b0 # b1 # b2 # b3 # xs) = (True, 4)"
  by (simp_all add: utf8_step_def utf8_get_def Let_def word_less_nat_alt word_le_nat_alt)

lemma cont_byte: "is_cont (128 + of_nat (x mod 64))"
proof -
  have "x mod 64 < 64" by simp
  then have "unat (128 + of_nat (x mod 64) :: byte) = 128 + x mod 64" by (intro unat_byte_plus) simp
  with \<open>x mod 64 < 64\<close> show ?thesis by (simp add: is_cont_def word_le_nat_alt)
qed

lemma second_bytes:
  assumes "x < 16" "y < 64" "x = 0 \<longrightarrow> 32 \<le> y" "x = 13 \<longrightarrow> y < 32"
  shows "second_of_three (224 + of_nat x) (128 + of_nat y)"
proof -
  have u: "unat (224 + of_nat x :: byte) = 224 + x" "unat (128 + of_nat y :: byte) = 128 + y"
    using assms(1,2) by (auto intro!: unat_byte_plus)
  have e: "(224 + of_nat x = (0xE0 :: byte)) = (x = 0)" "(224 + of_nat x = (0xED :: byte)) = (x = 13)"
    using u(1) by (auto simp only: word_unat_eq_iff) auto
  show ?thesis using assms u(2) unfolding second_of_three_def e is_cont_def by (auto simp: word_le_nat_alt)
qed

lemma second_bytes4:
  assumes "x < 5" "y < 64" "x = 0 \<longrightarrow> 16 \<le> y" "x = 4 \<longrightarrow> y < 16"
  shows "second_of_four (240 + of_nat x) (128 + of_nat y)"
proof -
  have u: "unat (240 + of_nat x :: byte) = 240 + x" "unat (128 + of_nat y :: byte) = 128 + y"
    using assms(1,2) by (auto intro!: unat_byte_plus)
  have e: "(240 + of_nat x = (0xF0 :: byte)) = (x = 0)" "(240 + of_nat x = (0xF4 :: byte)) = (x = 4)"
    using u(1) by (auto simp only: word_unat_eq_iff) auto
  show ?thesis using assms u(2) unfolding second_of_four_def e is_cont_def by (auto simp: word_le_nat_alt)
qed

lemma utf8_step_encode:
  assumes "scalar ch"
  shows "utf8_step (utf8_encode ch @ xs) = (True, length (utf8_encode ch))"
proof -
  consider "ch < 0x80" | "0x80 \<le> ch" "ch < 0x800" | "0x800 \<le> ch" "ch < 0x10000" | "0x10000 \<le> ch" "ch < 0x110000"
    using assms by (fastforce simp: scalar_def)
  then show ?thesis
  proof cases
    case 1
    then show ?thesis by (simp add: utf8_encode_def utf8_step_ascii word_less_nat_alt unat_of_nat)
  next
    case 2
    then have x: "2 \<le> ch div 64" "ch div 64 < 32" by simp_all
    then have b: "unat (192 + of_nat (ch div 64) :: byte) = 192 + ch div 64" by (intro unat_byte_plus) simp
    from 2 x b show ?thesis by (simp add: utf8_encode_def utf8_step_multi(1) cont_byte)
  next
    case 3
    then have x: "ch div 4096 < 16" by simp
    then have b: "unat (224 + of_nat (ch div 4096) :: byte) = 224 + ch div 4096" by (intro unat_byte_plus) simp
    have q: "ch div 4096 = ch div 64 div 64" "32 \<le> ch div 64"
      using 3 div_le_mono [of 2048 ch 64] by (simp_all add: div_mult2_eq [symmetric])
    then have "ch div 4096 = 0 \<longrightarrow> 32 \<le> ch div 64 mod 64" by simp
    moreover have "ch div 4096 = 13 \<longrightarrow> ch div 64 mod 64 < 32"
    proof
      assume "ch div 4096 = 13"
      then have "ch < 57344" by linarith
      with assms have "ch < 55296" by (auto simp: scalar_def)
      then have "ch div 64 < 864" by linarith
      moreover have "ch div 64 div 64 = 13" using q(1) \<open>ch div 4096 = 13\<close> by simp
      moreover have "q < 864 \<Longrightarrow> q div 64 = 13 \<Longrightarrow> q mod 64 < 32" for q :: nat
        using div_mult_mod_eq [of q 64] by linarith
      ultimately show "ch div 64 mod 64 < 32" by blast
    qed
    ultimately have "second_of_three (224 + of_nat (ch div 4096)) (128 + of_nat (ch div 64 mod 64))"
      using x by (intro second_bytes) simp_all
    with 3 x b show ?thesis by (simp add: utf8_encode_def utf8_step_multi(2) cont_byte)
  next
    case 4
    then have x: "ch div 262144 < 5" by simp
    then have b: "unat (240 + of_nat (ch div 262144) :: byte) = 240 + ch div 262144" by (intro unat_byte_plus) simp
    have q: "ch div 262144 = ch div 4096 div 64" "16 \<le> ch div 4096" "ch div 4096 < 272"
      using 4 div_le_mono [of 65536 ch 4096] by (simp_all add: div_mult2_eq [symmetric])
    then have "ch div 262144 = 0 \<longrightarrow> 16 \<le> ch div 4096 mod 64" by simp
    moreover have "ch div 262144 = 4 \<longrightarrow> ch div 4096 mod 64 < 16"
    proof -
      have "r < 272 \<Longrightarrow> r div 64 = 4 \<longrightarrow> r mod 64 < 16" for r :: nat
        using div_mult_mod_eq [of r 64] by linarith
      from this [OF q(3)] q(1) show ?thesis by simp
    qed
    ultimately have "second_of_four (240 + of_nat (ch div 262144)) (128 + of_nat (ch div 4096 mod 64))"
      using x by (intro second_bytes4) simp_all
    with 4 x b show ?thesis by (simp add: utf8_encode_def utf8_step_multi(3) cont_byte)
  qed
qed

lemma utf8_valid_encode: "scalar ch \<Longrightarrow> utf8_valid (utf8_encode ch @ xs) = utf8_valid xs"
  using length_utf8_encode(1) [of ch] by (subst utf8_valid.simps) (auto simp: utf8_step_encode)

lemma utf8_valid_encodes: "list_all scalar zs \<Longrightarrow> utf8_valid (concat (map utf8_encode zs))"
  by (induction zs) (simp_all add: utf8_valid_encode)

section \<open>The bits of a cell\<close>

lemma f0_bits:
  assumes "f0 = fg OR push_bit 2 bg OR flag_bit b 4 OR flag_bit d 5 OR flag_bit i 6 OR flag_bit u 7"
    and "fg \<in> {0, 1, 2}" "bg \<in> {0, 1, 2}"
  shows "f0 AND 3 = fg" "drop_bit 2 f0 AND 3 = bg" "(drop_bit 4 f0 AND 1 \<noteq> 0) = b"
    "(drop_bit 5 f0 AND 1 \<noteq> 0) = d" "(drop_bit 6 f0 AND 1 \<noteq> 0) = i" "(drop_bit 7 f0 AND 1 \<noteq> 0) = u"
  using assms(2,3) unfolding assms(1) flag_bit_def
  by (elim insertE emptyE; cases b; cases d; cases i; cases u; simp)+

lemma f1_bits:
  assumes "f1 = flag_bit v 0 OR flag_bit w 1 OR flag_bit s 2 OR push_bit 3 len"
    and "len \<in> {0, 1, 2, 3, 4, 7}"
  shows "(f1 AND 1 \<noteq> 0) = v" "(f1 AND 4 \<noteq> 0) = s" "drop_bit 3 f1 AND 7 = len"
  using assms(2) unfolding assms(1) flag_bit_def
  by (elim insertE emptyE; cases v; cases w; cases s; simp)+

lemma colour_field_shape:
  "fst (colour_field d c) \<in> {0, 1, 2}" "length (snd (colour_field d c)) = 3"
  by (auto simp: colour_field_def split: term_colour.split)

text \<open>What the types of the library guarantee of a cell: its characters are Unicode scalar values, and zero-width
  marks are part of what \<open>extra\<close> holds.\<close>

definition cell_wf :: "term_cell \<Rightarrow> bool" where
  "cell_wf c \<longleftrightarrow> scalar (tc_c c) \<and> (\<not> tc_has_extra c \<longrightarrow> tc_zerowidth c = None) \<and>
     (case tc_zerowidth c of None \<Rightarrow> True | Some zs \<Rightarrow> list_all scalar zs)"

lemma full_text_length: "1 \<le> length (full_text c)"
  using length_utf8_encode(1) [of "tc_c c"] by (simp add: full_text_def)

lemma full_text_valid: "cell_wf c \<Longrightarrow> utf8_valid (full_text c)"
  by (auto simp: cell_wf_def full_text_def utf8_valid_encode utf8_valid_encodes split: option.splits)

lemma content_field_shape:
  "fst (content_field c) \<in> {0, 1, 2, 3, 4, 7}" "length (fst (snd (content_field c))) = 4"
proof -
  let ?n = "length (full_text c)"
  have "?n \<le> 4 \<Longrightarrow> ?n = 1 \<or> ?n = 2 \<or> ?n = 3 \<or> ?n = 4" using full_text_length [of c] by arith
  then show "fst (content_field c) \<in> {0, 1, 2, 3, 4, 7}"
    by (auto simp: content_field_def Let_def)
  show "length (fst (snd (content_field c))) = 4" by (simp add: content_field_def Let_def)
qed

definition cell_buf :: "term_cell \<Rightarrow> bytes" where
  "cell_buf c = fst (encode_cell c 0 [])"

lemma encode_cell_split:
  "encode_cell c flat ov = (cell_buf c, case snd (snd (content_field c)) of None \<Rightarrow> ov | Some t \<Rightarrow> btree_insert flat t ov)"
  by (simp add: encode_cell_def cell_buf_def split_def Let_def split: option.split)

lemma length_cell_buf [simp]: "length (cell_buf c) = 12"
  using colour_field_shape(2) [of NAMED_FOREGROUND "tc_fg c"] colour_field_shape(2) [of NAMED_BACKGROUND "tc_bg c"]
    content_field_shape(2) [of c]
  by (simp add: cell_buf_def encode_cell_def split_def Let_def)

text \<open>What a grid cell means, as a terminal shows it: the first sixteen named colours are the palette's, the
  others than the default itself have no number; the flags by their SGR numbers.\<close>

definition term_colour_attr :: "nat \<Rightarrow> term_colour \<Rightarrow> colour" where
  "term_colour_attr d c = (case c of
      Named_Colour n \<Rightarrow> if n = d then Default else Indexed n
    | Indexed_Colour i \<Rightarrow> Indexed (unat i)
    | Spec_Colour r g b \<Rightarrow> Rgb (unat r) (unat g) (unat b))"

definition palette_colour :: "nat \<Rightarrow> term_colour \<Rightarrow> bool" where
  "palette_colour d c \<longleftrightarrow> (case c of Named_Colour n \<Rightarrow> n = d \<or> n < 16 | _ \<Rightarrow> True)"

definition term_flags :: "cell_flag set \<Rightarrow> nat set" where
  "term_flags flags = {n. (n = 1 \<and> Bold \<in> flags) \<or> (n = 2 \<and> Dim \<in> flags) \<or> (n = 3 \<and> Italic \<in> flags) \<or>
     (n = 4 \<and> underlined flags) \<or> (n = 7 \<and> Inverse \<in> flags) \<or> (n = 8 \<and> Hidden \<in> flags) \<or>
     (n = 9 \<and> Strikeout \<in> flags)}"

text \<open>The text a snapshot keeps of a cell: a blank cell is a space.\<close>

definition term_text :: "term_cell \<Rightarrow> rstr" where
  "term_text c = (if tc_c c = 0 \<or> tc_c c = 0x20 then lit '' '' else full_text c)"

lemma colour_field_attr:
  "palette_colour d c \<Longrightarrow> style_colour (fst (colour_field d c)) (snd (colour_field d c) ! 0, snd (colour_field d c) ! 1, snd (colour_field d c) ! 2)
     = term_colour_attr d c"
  by (auto simp: colour_field_def style_colour_def term_colour_attr_def palette_colour_def unat_of_nat split: term_colour.splits)

lemma cell_buf_nth:
  "cell_buf c ! 0 = fst (colour_field NAMED_FOREGROUND (tc_fg c)) OR push_bit 2 (fst (colour_field NAMED_BACKGROUND (tc_bg c)))
     OR flag_bit (Bold \<in> tc_flags c) 4 OR flag_bit (Dim \<in> tc_flags c) 5 OR flag_bit (Italic \<in> tc_flags c) 6
     OR flag_bit (underlined (tc_flags c)) 7"
  "cell_buf c ! 1 = flag_bit (Inverse \<in> tc_flags c) 0 OR flag_bit (Wide_Char \<in> tc_flags c) 1 OR
     flag_bit (Wide_Char_Spacer \<in> tc_flags c) 2 OR push_bit 3 (fst (content_field c))"
  "k < 3 \<Longrightarrow> cell_buf c ! (2 + k) = snd (colour_field NAMED_FOREGROUND (tc_fg c)) ! k"
  "k < 3 \<Longrightarrow> cell_buf c ! (5 + k) = snd (colour_field NAMED_BACKGROUND (tc_bg c)) ! k"
  "drop 8 (cell_buf c) = fst (snd (content_field c))"
  using colour_field_shape(2) [of NAMED_FOREGROUND "tc_fg c"] colour_field_shape(2) [of NAMED_BACKGROUND "tc_bg c"]
  by (simp_all add: cell_buf_def encode_cell_def split_def Let_def nth_append)

lemma style_at_buf:
  assumes "slc ((unat row * unat cols + unat col) * CELL_SIZE) ((unat row * unat cols + unat col) * CELL_SIZE + CELL_SIZE) cells
      = cell_buf c"
    and "(unat row * unat cols + unat col) * CELL_SIZE + CELL_SIZE \<le> length cells"
  shows "palette_colour NAMED_FOREGROUND (tc_fg c) \<Longrightarrow>
      at_fg (style_attrs (style_at cells cols row col)) = term_colour_attr NAMED_FOREGROUND (tc_fg c)"
    and "palette_colour NAMED_BACKGROUND (tc_bg c) \<Longrightarrow>
      at_bg (style_attrs (style_at cells cols row col)) = term_colour_attr NAMED_BACKGROUND (tc_bg c)"
    and "at_flags (style_attrs (style_at cells cols row col)) = term_flags (tc_flags c) - {8, 9}"
proof -
  let ?i = "(unat row * unat cols + unat col) * CELL_SIZE"
  have n: "cells ! (?i + k) = cell_buf c ! k" if "k < 12" for k
    using that assms(2) unfolding assms(1) [symmetric] slc_def by (simp add: CELL_SIZE_def)
  note f0 = f0_bits [OF cell_buf_nth(1) [of c] colour_field_shape(1) colour_field_shape(1)]
  note f1 = f1_bits [OF cell_buf_nth(2) [of c] content_field_shape(1)]
  note fg = colour_field_attr [of NAMED_FOREGROUND "tc_fg c"] and bg = colour_field_attr [of NAMED_BACKGROUND "tc_bg c"]
  note parts = assms(2) n [of 0] n [of 1] n [of 2] n [of 3] n [of 4] n [of 5] n [of 6] n [of 7]
    cell_buf_nth(3) [of 0 c] cell_buf_nth(3) [of 1 c] cell_buf_nth(3) [of 2 c]
    cell_buf_nth(4) [of 0 c] cell_buf_nth(4) [of 1 c] cell_buf_nth(4) [of 2 c]
  show "palette_colour NAMED_FOREGROUND (tc_fg c) \<Longrightarrow>
      at_fg (style_attrs (style_at cells cols row col)) = term_colour_attr NAMED_FOREGROUND (tc_fg c)"
    using parts fg unfolding style_at_def Let_def style_attrs_def by (simp add: f0 [unfolded One_nat_def])
  show "palette_colour NAMED_BACKGROUND (tc_bg c) \<Longrightarrow>
      at_bg (style_attrs (style_at cells cols row col)) = term_colour_attr NAMED_BACKGROUND (tc_bg c)"
    using parts bg unfolding style_at_def Let_def style_attrs_def by (simp add: f0 [unfolded One_nat_def])
  show "at_flags (style_attrs (style_at cells cols row col)) = term_flags (tc_flags c) - {8, 9}"
    using assms(2) n [of 0] n [of 1] unfolding style_at_def Let_def style_attrs_def term_flags_def
    by (auto simp: f0 [unfolded One_nat_def] f1 [unfolded One_nat_def])
qed

lemma buf_content_len: "content_len (cell_buf c) = unat (fst (content_field c))"
  using f1_bits(3) [OF cell_buf_nth(2) [of c] content_field_shape(1)] by (simp add: content_len_def)

lemma buf_spacer: "(cell_buf c ! 1 AND 4 \<noteq> 0) = (Wide_Char_Spacer \<in> tc_flags c)"
  by (rule f1_bits(2) [OF cell_buf_nth(2) [of c] content_field_shape(1)])

lemma content_field_text:
  assumes "cell_wf c" "tc_c c \<noteq> 0" "tc_c c \<noteq> 0x20"
  shows "content_field c = (if length (full_text c) \<le> 4
    then (of_nat (length (full_text c)), full_text c @ replicate (4 - length (full_text c)) 0, None)
    else (7, [0, 0, 0, 0], Some (full_text c)))"
proof (cases "tc_c c \<le> 0x7F \<and> tc_c c > 0x20 \<and> \<not> tc_has_extra c")
  case True
  with assms(1) have "full_text c = [of_nat (tc_c c)]"
    by (simp add: full_text_def utf8_encode_def cell_wf_def)
  with True show ?thesis by (simp add: content_field_def numeral_3_eq_3)
next
  case False
  with assms show ?thesis unfolding content_field_def by (auto simp: Let_def)
qed

lemma cell_buf_text:
  assumes "cell_wf c" "Wide_Char_Spacer \<notin> tc_flags c" "length (term_text c) \<le> 4"
  shows "cell_text (cell_buf c) = term_text c"
proof (cases "tc_c c = 0 \<or> tc_c c = 0x20")
  case True
  then show ?thesis using buf_spacer [of c] assms(2)
    by (auto simp: cell_text_def term_text_def buf_content_len content_field_def)
next
  case False
  let ?n = "length (full_text c)"
  have n: "1 \<le> ?n" "?n \<le> 4" using full_text_length [of c] assms(3) False by (simp_all add: term_text_def)
  have f: "content_field c = (of_nat ?n, full_text c @ replicate (4 - ?n) 0, None)"
    using content_field_text [OF assms(1)] False n by simp
  have u: "content_len (cell_buf c) = ?n" using n by (simp add: buf_content_len f unat_of_nat)
  have "slc 8 (8 + ?n) (cell_buf c) = take ?n (drop 8 (cell_buf c))" by (simp add: slc_def)
  also have "\<dots> = full_text c" by (simp add: cell_buf_nth(5) f)
  finally show ?thesis
    using n u buf_spacer [of c] assms(2) False utf8_lossy_valid [OF full_text_valid [OF assms(1)]]
    by (auto simp: cell_text_def term_text_def Let_def)
qed

lemma cell_buf_overflow:
  assumes "cell_wf c" "4 < length (term_text c)"
  shows "cell_is_overflow (cell_buf c)" "snd (snd (content_field c)) = Some (term_text c)"
proof -
  have "tc_c c \<noteq> 0 \<and> tc_c c \<noteq> 0x20"
    using assms(2) by (cases "tc_c c = 0 \<or> tc_c c = 0x20") (simp_all add: term_text_def lit_def)
  then have "content_field c = (7, [0, 0, 0, 0], Some (term_text c))"
    using content_field_text [OF assms(1)] assms(2) by (auto simp: term_text_def)
  then show "cell_is_overflow (cell_buf c)" "snd (snd (content_field c)) = Some (term_text c)"
    by (simp_all add: cell_is_overflow_def buf_content_len)
qed

lemma content_field_rest:
  assumes "snd (snd (content_field c)) = Some t"
  shows "t = full_text c"
  using assms by (auto simp: content_field_def Let_def split: if_splits)

section \<open>Snapshots\<close>

definition grid_at :: "('t, 'y) term_lib_scheme \<Rightarrow> 't \<Rightarrow> nat \<Rightarrow> nat \<Rightarrow> term_cell" where
  "grid_at T t cols flat = tl_cell T t (flat div cols) (flat mod cols)"

text \<open>The loop after \<open>n\<close> cells: their bytes in order, and an overflow entry for each long text.\<close>

lemma grid_loop:
  "case fold (grid_cell T t cols) [0..<n] ([], []) of (cells, ov) \<Rightarrow>
     cells = concat (map (\<lambda>i. cell_buf (grid_at T t cols i)) [0..<n]) \<and> btree_ok ov \<and>
     (\<forall>i s. (i, s) \<in> set ov \<longleftrightarrow> i < n \<and> snd (snd (content_field (grid_at T t cols i))) = Some s)"
proof (induction n)
  case 0
  then show ?case by (simp add: btree_ok_def)
next
  case (Suc n)
  let ?c = "grid_at T t cols n"
  obtain cells ov where r: "fold (grid_cell T t cols) [0..<n] ([], []) = (cells, ov)" by fastforce
  with Suc.IH have IH: "cells = concat (map (\<lambda>i. cell_buf (grid_at T t cols i)) [0..<n])" "btree_ok ov"
    "\<And>i s. (i, s) \<in> set ov \<longleftrightarrow> i < n \<and> snd (snd (content_field (grid_at T t cols i))) = Some s" by auto
  have step: "fold (grid_cell T t cols) [0..<Suc n] ([], []) = (cells @ cell_buf ?c,
      case snd (snd (content_field ?c)) of None \<Rightarrow> ov | Some s \<Rightarrow> btree_insert n s ov)"
    by (simp add: r grid_cell_def encode_cell_split grid_at_def)
  have app: "btree_insert n s ov = ov @ [(n, s)]" for s
    by (rule btree_insert_append) (use IH(3) in auto)
  show ?case
  proof (cases "snd (snd (content_field ?c))")
    case None
    then show ?thesis unfolding step using IH by (auto simp: less_Suc_eq)
  next
    case (Some s)
    have "btree_ok (ov @ [(n, s)])" using btree_insert_ok [OF IH(2), of n s] by (simp add: app)
    then show ?thesis unfolding step using Some IH(1,3) by (auto simp: less_Suc_eq app)
  qed
qed

lemma length_grid: "length (concat (map (\<lambda>i. cell_buf (f i)) [0..<n])) = 12 * n"
  by (induction n) simp_all

lemma slc_grid:
  assumes "i < n"
  shows "slc (i * CELL_SIZE) (i * CELL_SIZE + CELL_SIZE) (concat (map (\<lambda>i. cell_buf (f i)) [0..<n])) = cell_buf (f i)"
proof -
  have "[0..<n] = [0..<i] @ i # [Suc i..<n]"
    using assms upt_add_eq_append [of 0 i "n - i"] by (simp add: upt_conv_Cons)
  then show ?thesis
    using length_grid [of f i] by (simp add: slc_def CELL_SIZE_def mult.commute)
qed

definition grid_wf :: "('t, 'y) term_lib_scheme \<Rightarrow> 't emulator \<Rightarrow> bool" where
  "grid_wf T e \<longleftrightarrow> (\<forall>r < unat (em_rows e). \<forall>c < unat (em_cols e). cell_wf (tl_cell T (em_term e) r c))"

lemma grid_wf_at:
  assumes "grid_wf T e" "i < unat (em_rows e) * unat (em_cols e)"
  shows "cell_wf (grid_at T (em_term e) (unat (em_cols e)) i)"
proof -
  have "i div unat (em_cols e) < unat (em_rows e)" using assms(2) by (rule less_mult_imp_div_less)
  moreover have "i mod unat (em_cols e) < unat (em_cols e)" using assms(2) by (cases "unat (em_cols e)") simp_all
  ultimately show ?thesis using assms(1) by (simp add: grid_wf_def grid_at_def)
qed

lemma snapshot_parts:
  assumes "frame_laws F"
  defines "n e \<equiv> unat (em_rows e) * unat (em_cols e)"
  shows "fs_rows F (snapshot F T e) = em_rows e" "fs_cols F (snapshot F T e) = em_cols e"
    "fs_cells F (snapshot F T e) = concat (map (\<lambda>i. cell_buf (grid_at T (em_term e) (unat (em_cols e)) i)) [0..<n e])"
    "fs_overflow F (snapshot F T e) = snd (grid_cells T (em_term e) (unat (em_rows e)) (unat (em_cols e)))"
    "fs_title F (snapshot F T e) = em_title e" "fs_mode F (snapshot F T e) = pack_mode T e"
    "fs_cursor_row F (snapshot F T e) \<le> sat_sub (em_rows e) 1"
    "fs_cursor_col F (snapshot F T e) \<le> sat_sub (em_cols e) 1"
proof -
  obtain cells ov where g: "grid_cells T (em_term e) (unat (em_rows e)) (unat (em_cols e)) = (cells, ov)" by fastforce
  then have c: "cells = concat (map (\<lambda>i. cell_buf (grid_at T (em_term e) (unat (em_cols e)) i)) [0..<n e])"
    using grid_loop [of T "em_term e" "unat (em_cols e)" "n e"] by (simp add: grid_cells_def n_def)
  then have len: "length cells = unat (em_rows e) * unat (em_cols e) * CELL_SIZE"
    by (simp add: length_grid n_def CELL_SIZE_def)
  have sl: "set_overflow_law F" using assms(1) by (simp add: frame_laws_def)
  show "fs_rows F (snapshot F T e) = em_rows e" "fs_cols F (snapshot F T e) = em_cols e"
    "fs_cells F (snapshot F T e) = concat (map (\<lambda>i. cell_buf (grid_at T (em_term e) (unat (em_cols e)) i)) [0..<n e])"
    "fs_overflow F (snapshot F T e) = snd (grid_cells T (em_term e) (unat (em_rows e)) (unat (em_cols e)))"
    "fs_title F (snapshot F T e) = em_title e" "fs_mode F (snapshot F T e) = pack_mode T e"
    "fs_cursor_row F (snapshot F T e) \<le> sat_sub (em_rows e) 1"
    "fs_cursor_col F (snapshot F T e) \<le> sat_sub (em_cols e) 1"
    by (simp_all add: snapshot_def g split_def Let_def set_overflow_simps [OF sl]
        from_parts_simps [OF assms(1) len] c [symmetric])
qed

lemma sat_sub_le: "sat_sub a 1 \<le> (a :: 'a::len word)"
  by (simp add: word_le_nat_alt unat_sat_sub)

text \<open>Every snapshot has the shape of a screen.\<close>

lemma grid_index:
  assumes "r < h" "c < (w :: nat)"
  shows "r * w + c < h * w" "(r * w + c) div w = r" "(r * w + c) mod w = c"
proof -
  have "r * w + c < Suc r * w" using assms(2) by simp
  also have "\<dots> \<le> h * w" using assms(1) by (intro mult_le_mono1) simp
  finally show "r * w + c < h * w" .
qed (use assms(2) in simp_all)

lemma snapshot_overflow:
  assumes "frame_laws F"
  shows "btree_ok (fs_overflow F (snapshot F T e))"
    "(i, s) \<in> set (fs_overflow F (snapshot F T e)) \<longleftrightarrow> i < unat (em_rows e) * unat (em_cols e) \<and>
       snd (snd (content_field (grid_at T (em_term e) (unat (em_cols e)) i))) = Some s"
  using grid_loop [of T "em_term e" "unat (em_cols e)" "unat (em_rows e) * unat (em_cols e)"]
  by (auto simp: snapshot_parts(4) [OF assms] grid_cells_def split_def)

lemma snapshot_shaped:
  assumes "frame_laws F" "em_rows e \<le> MAX_ROWS" "em_cols e \<le> MAX_COLS"
    and "unat (em_rows e) * unat (em_cols e) \<le> fs_max_cell_count F"
  shows "screen_shaped F \<lparr>sc_version = v, sc_echo_ack = a, sc_frame = snapshot F T e\<rparr>"
proof -
  note parts = snapshot_parts [OF assms(1), where T = T and e = e]
  have "list_all (\<lambda>(i, t). i < unat (em_rows e) * unat (em_cols e)) (fs_overflow F (snapshot F T e))"
    using snapshot_overflow(2) [OF assms(1)] by (auto simp: list_all_iff)
  moreover have "fs_cursor_row F (snapshot F T e) \<le> em_rows e" "fs_cursor_col F (snapshot F T e) \<le> em_cols e"
    using order_trans [OF parts(7) sat_sub_le] order_trans [OF parts(8) sat_sub_le] by blast+
  ultimately show ?thesis
    using assms(2-4) snapshot_overflow(1) [OF assms(1)]
    by (simp add: screen_shaped_def Let_def cell_count_def parts(1-3) length_grid CELL_SIZE_def)
qed

section \<open>Properties\<close>


text \<open>What the packed cells lose: hidden text is sent, and shown, like any other, marks on a space are dropped, and a
  named colour beyond the palette is taken modulo 256: the dim black of the library would be yellow.\<close>

lemma hidden_text_shown: "cell_buf (c\<lparr>tc_flags := insert Hidden (tc_flags c)\<rparr>) = cell_buf (c\<lparr>tc_flags := tc_flags c - {Hidden}\<rparr>)"
  by (simp add: cell_buf_def encode_cell_def content_field_def full_text_def underlined_def Let_def)

lemma marks_on_space_dropped:
  "tc_c c = 0x20 \<Longrightarrow> encode_cell (c\<lparr>tc_zerowidth := Some zs, tc_has_extra := True\<rparr>) flat ov =
     encode_cell (c\<lparr>tc_zerowidth := None, tc_has_extra := False\<rparr>) flat ov"
  by (simp add: encode_cell_def content_field_def Let_def)

lemma named_dim_truncated: "colour_field NAMED_FOREGROUND (Named_Colour 259) = colour_field NAMED_FOREGROUND (Named_Colour 3)"
  by (simp add: colour_field_def NAMED_FOREGROUND_def)

text \<open>C26: Every snapshot of an emulator whose size the protocol permits has its cursor inside the grid and fits
  the screen encoding, so that the client decodes exactly what the server captured (with
  \<open>screen_roundtrip\<close>), exactly when the title and the text of every cell take at most 65535 bytes: nothing else can
  go wrong, and the adapter does not bound the title.\<close>

theorem snapshot_fits:
  assumes "frame_laws F" "grid_wf T e" "utf8_valid (em_title e)"
    and "0 < em_rows e" "em_rows e \<le> MAX_ROWS" "0 < em_cols e" "em_cols e \<le> MAX_COLS"
    and "unat (em_rows e) * unat (em_cols e) \<le> fs_max_cell_count F"
  shows "fs_cursor_row F (snapshot F T e) < em_rows e \<and> fs_cursor_col F (snapshot F T e) < em_cols e \<and>
    (screen_fits F \<lparr>sc_version = v, sc_echo_ack = a, sc_frame = snapshot F T e\<rparr> \<longleftrightarrow>
       length (em_title e) \<le> 65535 \<and>
       (\<forall>r < unat (em_rows e). \<forall>c < unat (em_cols e). length (term_text (tl_cell T (em_term e) r c)) \<le> 65535))"
proof -
  let ?f = "snapshot F T e" and ?w = "unat (em_cols e)" and ?h = "unat (em_rows e)"
  note parts = snapshot_parts [OF assms(1), where T = T and e = e]
  have "sat_sub (em_rows e) 1 < em_rows e" "sat_sub (em_cols e) 1 < em_cols e"
    using assms(4,6) by (simp_all add: word_less_nat_alt unat_sat_sub)
  with parts(7,8) have cur: "fs_cursor_row F ?f < em_rows e" "fs_cursor_col F ?f < em_cols e"
    by (auto intro: le_less_trans)
  have "str16_ok s \<longleftrightarrow> length s \<le> 65535" if "(i, s) \<in> set (fs_overflow F ?f)" for i s
  proof -
    have i: "i < ?h * ?w" "s = full_text (grid_at T (em_term e) ?w i)"
      using that content_field_rest by (auto simp: snapshot_overflow(2) [OF assms(1)])
    show ?thesis using full_text_valid [OF grid_wf_at [OF assms(2) i(1)]] by (simp add: str16_ok_def i(2))
  qed
  then have texts: "list_all (\<lambda>(i, t). str16_ok t) (fs_overflow F ?f) \<longleftrightarrow> (\<forall>(i, s) \<in> set (fs_overflow F ?f). length s \<le> 65535)"
    by (auto simp: list_all_iff)
  have "(\<forall>(i, s) \<in> set (fs_overflow F ?f). length s \<le> 65535) \<longleftrightarrow>
      (\<forall>r < ?h. \<forall>c < ?w. length (term_text (tl_cell T (em_term e) r c)) \<le> 65535)" (is "?L \<longleftrightarrow> ?R")
  proof
    assume L: ?L
    show ?R
    proof (intro allI impI)
      fix r c assume rc: "r < ?h" "c < ?w"
      note g = grid_index [OF rc]
      have at: "grid_at T (em_term e) ?w (r * ?w + c) = tl_cell T (em_term e) r c" using g(2,3) by (simp add: grid_at_def)
      have wf: "cell_wf (tl_cell T (em_term e) r c)" using grid_wf_at [OF assms(2) g(1)] at by simp
      show "length (term_text (tl_cell T (em_term e) r c)) \<le> 65535"
      proof (cases "4 < length (term_text (tl_cell T (em_term e) r c))")
        case True
        have "(r * ?w + c, term_text (tl_cell T (em_term e) r c)) \<in> set (fs_overflow F ?f)"
          using g(1) at cell_buf_overflow(2) [OF wf True] by (simp add: snapshot_overflow(2) [OF assms(1)])
        with L show ?thesis by auto
      qed simp
    qed
  next
    assume R: ?R
    show ?L
    proof clarify
      fix i s assume "(i, s) \<in> set (fs_overflow F ?f)"
      then have i: "i < ?h * ?w" "snd (snd (content_field (grid_at T (em_term e) ?w i))) = Some s"
        by (simp_all add: snapshot_overflow(2) [OF assms(1)])
      have "s = term_text (grid_at T (em_term e) ?w i)"
        using i(2) by (auto simp: content_field_def term_text_def Let_def split: if_splits)
      moreover have "i div ?w < ?h" "i mod ?w < ?w"
        using less_mult_imp_div_less [OF i(1)] i(1) by (auto intro!: mod_less_divisor gr0I)
      ultimately show "length s \<le> 65535" using R by (simp add: grid_at_def)
    qed
  qed
  with texts snapshot_shaped [OF assms(1,5,7,8), of v a T] assms(3) cur show ?thesis
    by (simp add: screen_fits_shaped parts(5) str16_ok_def)
qed

section \<open>An example\<close>

text \<open>A library with a grid that never changes: a bold red letter, a wide character and a combining
  sequence that needs the overflow table.\<close>

definition grid_ex :: "nat \<Rightarrow> nat \<Rightarrow> term_cell" where
  "grid_ex r c =
     (if c = 0 then \<lparr>tc_c = 97, tc_fg = Indexed_Colour 1, tc_bg = Named_Colour 257, tc_flags = {Bold},
                    tc_has_extra = False, tc_zerowidth = None\<rparr>
      else \<lparr>tc_c = 0x1F600, tc_fg = Spec_Colour 1 2 3, tc_bg = Named_Colour 257, tc_flags = {Wide_Char},
            tc_has_extra = True, tc_zerowidth = Some [0x301]\<rparr>)"

definition term_ex :: "unit term_lib" where
  "term_ex = \<lparr>tl_new = (\<lambda>_ _ _. ()), tl_advance = (\<lambda>bs _. ((), [Pty_Write bs])), tl_stop_sync = (\<lambda>_. ((), [])),
     tl_sync_timeout = (\<lambda>_. None), tl_resize = (\<lambda>_ _ _. ((), [])), tl_cell = (\<lambda>_. grid_ex),
     tl_cursor = (\<lambda>_. (0, 1)), tl_show_cursor = (\<lambda>_. True), tl_bracketed_paste = (\<lambda>_. False)\<rparr>"

definition emulator_ex :: "unit emulator" where
  "emulator_ex = emulator_new term_ex 1 2 100"

lemma grid_ex_wf: "grid_wf term_ex emulator_ex"
  by (simp add: grid_wf_def emulator_ex_def emulator_new_def term_ex_def grid_ex_def cell_wf_def scalar_def
      full_text_def utf8_encode_def)


theorem snapshot_fits_witness:
  "screen_fits cframe_lib \<lparr>sc_version = 1, sc_echo_ack = 0, sc_frame = snapshot cframe_lib term_ex emulator_ex\<rparr>"
proof -
  have "length (term_text (tl_cell term_ex (em_term emulator_ex) r c)) \<le> 65535" for r c
    by (simp add: term_ex_def grid_ex_def term_text_def full_text_def utf8_encode_def)
  with snapshot_fits [OF cframe_laws(1) grid_ex_wf, of 1 0] show ?thesis
    by (simp add: emulator_ex_def emulator_new_def MAX_ROWS_def MAX_COLS_def cframe_lib_def)
qed

end
