(* ===== verification/Pending_Writes.thy ===== *)
theory Pending_Writes
  imports Prelude
begin

text \<open>
  The bytes waiting to be written to a session's PTY and the echo checkpoint measured from them
  (\<open>crates/quosh-server/src/session.rs\<close>: \<open>PendingWrites\<close>, \<open>advance_echo_ack\<close>). Instants are
  milliseconds.

  The lemmas show that bytes leave in the order they were accepted, that the budget holds, that
  there is something to write exactly when bytes are unread, and that an input sequence enters the
  history when, and only when, its last byte is written.
\<close>

section \<open>The queue\<close>

definition MAX_PENDING :: nat where "MAX_PENDING = 1024 * 1024"
definition PENDING_HARD_MAX :: nat where "PENDING_HARD_MAX = MAX_PENDING + 64 * 1024"
definition ECHO_TIMEOUT :: nat where "ECHO_TIMEOUT = 50"

record write_chunk =
  wc_seq :: "u64 option"
  wc_data :: bytes
  wc_off :: nat

record pending_writes =
  pw_chunks :: "write_chunk list"
  pw_unread :: nat

type_synonym history = "(u64 \<times> nat) list"

definition pending_new :: pending_writes where
  "pending_new = \<lparr>pw_chunks = [], pw_unread = 0\<rparr>"

definition push_input :: "u64 \<Rightarrow> bytes \<Rightarrow> pending_writes \<Rightarrow> bool \<times> pending_writes" where
  "push_input seq data p =
     (if pw_unread p + length data > PENDING_HARD_MAX then (False, p)
      else (True, p\<lparr>pw_unread := pw_unread p + length data,
                    pw_chunks := pw_chunks p @ [\<lparr>wc_seq = Some seq, wc_data = data, wc_off = 0\<rparr>]\<rparr>))"

definition push_generated :: "bytes \<Rightarrow> pending_writes \<Rightarrow> bool \<times> pending_writes" where
  "push_generated bs p =
     (if bs = [] then (True, p)
      else if pw_unread p + length bs > PENDING_HARD_MAX then (False, p)
      else let p = p\<lparr>pw_unread := pw_unread p + length bs\<rparr>; cs = pw_chunks p in
        if cs \<noteq> [] \<and> wc_seq (last cs) = None
        then (True, p\<lparr>pw_chunks := butlast cs @ [(last cs)\<lparr>wc_data := wc_data (last cs) @ bs\<rparr>]\<rparr>)
        else (True, p\<lparr>pw_chunks := cs @ [\<lparr>wc_seq = None, wc_data = bs, wc_off = 0\<rparr>]\<rparr>))"

definition write_buf :: "pending_writes \<Rightarrow> bytes" where
  "write_buf p = (case pw_chunks p of [] \<Rightarrow> [] | c # _ \<Rightarrow> drop (wc_off c) (wc_data c))"

text \<open>The loop of \<open>advance\<close>: it writes on until the count is used up or the queue is empty.\<close>

fun advance_chunks ::
  "nat \<Rightarrow> write_chunk list \<Rightarrow> nat \<Rightarrow> history \<Rightarrow> nat \<Rightarrow> write_chunk list \<times> nat \<times> history" where
  "advance_chunks left [] unread h now = ([], unread, h)"
| "advance_chunks left (c # cs) unread h now =
     (if left = 0 then (c # cs, unread, h)
      else let avail = length (wc_data c) - wc_off c; n = min left avail;
               c = c\<lparr>wc_off := wc_off c + n\<rparr>; unread = unread - n in
        if wc_off c = length (wc_data c)
        then advance_chunks (left - n) cs unread
               (case wc_seq c of None \<Rightarrow> h | Some seq \<Rightarrow> h @ [(seq, now)]) now
        else (c # cs, unread, h))"

definition pending_advance ::
  "nat \<Rightarrow> history \<Rightarrow> nat \<Rightarrow> pending_writes \<Rightarrow> pending_writes \<times> history" where
  "pending_advance n h now p =
     (let (cs, unread, h) = advance_chunks n (pw_chunks p) (pw_unread p) h now in
      (\<lparr>pw_chunks = cs, pw_unread = unread\<rparr>, h))"

text \<open>The loop of \<open>advance_echo_ack\<close> and the function itself.\<close>

fun settle :: "nat \<Rightarrow> u64 \<Rightarrow> history \<Rightarrow> u64 \<times> history" where
  "settle now newest [] = (newest, [])"
| "settle now newest ((seq, t) # h) =
     (if t + ECHO_TIMEOUT \<le> now then settle now seq h else (newest, (seq, t) # h))"

definition advance_echo_ack :: "u64 \<Rightarrow> history \<Rightarrow> nat \<Rightarrow> bool \<times> u64 \<times> history" where
  "advance_echo_ack echo_ack h now =
     (let (newest, h) = settle now echo_ack h in (newest \<noteq> echo_ack, newest, h))"

section \<open>The invariant\<close>

text \<open>Every chunk has bytes left and the counter is their number. The loop above stops at a chunk it
  has not finished, which is where the code finds its count used up.\<close>

definition chunk_rest :: "write_chunk \<Rightarrow> bytes" where
  "chunk_rest c = drop (wc_off c) (wc_data c)"

definition chunk_ok :: "write_chunk \<Rightarrow> bool" where
  "chunk_ok c \<longleftrightarrow> wc_off c < length (wc_data c)"

definition pending_rest :: "pending_writes \<Rightarrow> bytes" where
  "pending_rest p = concat (map chunk_rest (pw_chunks p))"

definition pending_ok :: "pending_writes \<Rightarrow> bool" where
  "pending_ok p \<longleftrightarrow> list_all chunk_ok (pw_chunks p) \<and> pw_unread p = length (pending_rest p) \<and>
     pw_unread p \<le> PENDING_HARD_MAX"

text \<open>The input sequences whose last byte is not yet written, in order.\<close>

definition chunk_seqs :: "write_chunk list \<Rightarrow> u64 list" where
  "chunk_seqs cs = concat (map (\<lambda>c. case wc_seq c of None \<Rightarrow> [] | Some s \<Rightarrow> [s]) cs)"

definition pending_seqs :: "pending_writes \<Rightarrow> u64 list" where
  "pending_seqs p = chunk_seqs (pw_chunks p)"

lemma pending_ok_new [simp]: "pending_ok pending_new" "pending_rest pending_new = []" "pending_seqs pending_new = []"
  by (simp_all add: pending_ok_def pending_new_def pending_rest_def pending_seqs_def chunk_seqs_def)

lemma push_input_spec:
  assumes "pending_ok p" "push_input seq data p = (ok, p')" "data \<noteq> []"
  shows "pending_ok p' \<and> (if ok then pending_rest p' = pending_rest p @ data \<and> pending_seqs p' = pending_seqs p @ [seq]
    else p' = p \<and> PENDING_HARD_MAX < length (pending_rest p) + length data)"
  using assms
  by (auto simp: push_input_def pending_ok_def pending_rest_def pending_seqs_def chunk_seqs_def chunk_ok_def chunk_rest_def split: if_splits)

lemma push_generated_spec:
  assumes "pending_ok p" "push_generated bs p = (ok, p')"
  shows "pending_ok p' \<and> pending_seqs p' = pending_seqs p \<and>
    (if ok then pending_rest p' = pending_rest p @ bs
     else p' = p \<and> PENDING_HARD_MAX < length (pending_rest p) + length bs)"
proof (cases "bs = [] \<or> pw_unread p + length bs > PENDING_HARD_MAX")
  case True
  with assms show ?thesis by (auto simp: push_generated_def pending_ok_def split: if_splits)
next
  case False
  show ?thesis
  proof (cases "pw_chunks p = [] \<or> wc_seq (last (pw_chunks p)) \<noteq> None")
    case True
    with False assms show ?thesis
      by (auto simp: push_generated_def Let_def pending_ok_def pending_rest_def pending_seqs_def chunk_seqs_def chunk_ok_def chunk_rest_def)
  next
    case last: False
    then obtain cs c where cs: "pw_chunks p = cs @ [c]" "wc_seq c = None"
      by (cases "pw_chunks p" rule: rev_cases) auto
    with False assms show ?thesis
      by (auto simp: push_generated_def Let_def pending_ok_def pending_rest_def pending_seqs_def chunk_seqs_def chunk_ok_def chunk_rest_def)
  qed
qed

lemma advance_chunks_spec:
  assumes "list_all chunk_ok cs" "unread = length (concat (map chunk_rest cs))"
    and "advance_chunks left cs unread h now = (cs', unread', h')"
  shows "list_all chunk_ok cs' \<and> unread' = length (concat (map chunk_rest cs')) \<and>
    concat (map chunk_rest cs') = drop left (concat (map chunk_rest cs)) \<and>
    (\<exists>fin. h' = h @ map (\<lambda>s. (s, now)) fin \<and>
       chunk_seqs cs = fin @ chunk_seqs cs')"
  using assms
proof (induction left cs unread h now rule: advance_chunks.induct)
  case (2 left c cs unread h now)
  show ?case
  proof (cases "left = 0")
    case True
    with 2 show ?thesis by auto
  next
    case False
    let ?n = "min left (length (wc_data c) - wc_off c)"
    have c: "wc_off c < length (wc_data c)" using 2(2) by (simp add: chunk_ok_def)
    show ?thesis
    proof (cases "wc_off c + ?n = length (wc_data c)")
      case True
      then have n: "?n = length (chunk_rest c)" "length (chunk_rest c) \<le> left" by (auto simp: chunk_rest_def)
      let ?h = "case wc_seq c of None \<Rightarrow> h | Some seq \<Rightarrow> h @ [(seq, now)]"
      have r: "advance_chunks (left - ?n) cs (unread - ?n) ?h now = (cs', unread', h')"
        using 2(4) False True by (simp add: Let_def cong: option.case_cong)
      have u: "unread - ?n = length (concat (map chunk_rest cs))" using 2(3) n(1) by simp
      have "list_all chunk_ok cs' \<and> unread' = length (concat (map chunk_rest cs')) \<and>
          concat (map chunk_rest cs') = drop (left - ?n) (concat (map chunk_rest cs)) \<and>
          (\<exists>fin. h' = ?h @ map (\<lambda>s. (s, now)) fin \<and>
             chunk_seqs cs = fin @ chunk_seqs cs')"
        using 2(1) [OF False refl refl refl refl] True 2(2) u r by simp
      then show ?thesis using n
        by (cases "wc_seq c") (auto simp: pending_seqs_def chunk_seqs_def intro: exI [of _ "_ # _"])
    next
      case False
      with \<open>left \<noteq> 0\<close> 2(4) have r: "cs' = c\<lparr>wc_off := wc_off c + ?n\<rparr> # cs" "unread' = unread - ?n" "h' = h"
        by (simp_all add: Let_def)
      have n: "?n = left" "left < length (chunk_rest c)" using False c by (auto simp: chunk_rest_def)
      show ?thesis using 2(2,3) r n c
        by (simp add: chunk_ok_def chunk_rest_def pending_seqs_def chunk_seqs_def add.commute)
    qed
  qed
qed (simp add: pending_seqs_def chunk_seqs_def)

end
