(* ===== verification/Session.thy ===== *)
theory Session
  imports Terminal Pending_Writes Messages
begin

text \<open>
  A session and its owner task (\<open>crates/quosh-server/src/session.rs\<close>). \<open>session\<close> is the shared
  part that transports call: epochs, acknowledgements, the latest screen, the command queue.
  \<open>owner\<close> is the task that owns the shell's PTY: it writes input, feeds output to the emulator and
  publishes screens. Each arm of its \<open>select!\<close> is an event with the outcome of the system call it
  waits for; the interleaving of the arms with the calls of transports is a list of events.
  The clock is milliseconds; the emulator, frame and compression libraries are parameters.
\<close>

section \<open>The shared session\<close>

definition CMD_Q :: nat where "CMD_Q = 32"

datatype queue_result = Queued | Busy

datatype owner_msg = Input u64 bytes | Resize u16 u16 | Ack u64

datatype session_error = Empty_Input | Input_Too_Large | Session_Closed | Bad_Dims dims_error

record latest =
  la_version :: u64
  la_blob :: bytes

text \<open>\<open>se_cmds\<close> is the bounded channel to the owner, \<open>se_cmds_closed\<close> that its receiver is gone;
  \<open>se_hangup\<close> is the stored permit of the \<open>Notify\<close>; a watch channel is its current value.\<close>

record session =
  se_id :: bytes
  se_token :: bytes
  se_uid :: u32
  se_last_detach :: "nat option"
  se_hangup :: bool
  se_shutdown :: bool
  se_epoch :: u64
  se_epoch_watch :: u64
  se_last_acked :: u64
  se_latest :: "latest option"
  se_size :: "u16 \<times> u16"
  se_cmds :: "owner_msg list"
  se_cmds_closed :: bool
  se_exit :: "u32 option"
  se_accepted :: u64

definition session_new :: "bytes \<Rightarrow> bytes \<Rightarrow> u32 \<Rightarrow> u16 \<Rightarrow> u16 \<Rightarrow> nat \<Rightarrow> session" where
  "session_new sid token uid cols rows now =
     \<lparr>se_id = sid, se_token = token, se_uid = uid, se_last_detach = Some now, se_hangup = False,
      se_shutdown = False, se_epoch = 0, se_epoch_watch = 0, se_last_acked = 0, se_latest = None,
      se_size = (cols, rows), se_cmds = [], se_cmds_closed = False, se_exit = None, se_accepted = 0\<rparr>"

definition claim_transport :: "session \<Rightarrow> u64 \<times> session" where
  "claim_transport s =
     (let nxt = se_epoch s + 1 in
      (nxt, s\<lparr>se_epoch := nxt, se_epoch_watch := nxt, se_last_detach := None\<rparr>))"

definition detach_if_epoch :: "u64 \<Rightarrow> nat \<Rightarrow> session \<Rightarrow> session" where
  "detach_if_epoch epoch now s = (if se_epoch s = epoch then s\<lparr>se_last_detach := Some now\<rparr> else s)"

definition ack_state :: "u64 \<Rightarrow> session \<Rightarrow> session" where
  "ack_state version s = s\<lparr>se_last_acked := max (se_last_acked s) version\<rparr>"

text \<open>\<open>try_send\<close> on the bounded channel.\<close>

definition try_send :: "owner_msg \<Rightarrow> session \<Rightarrow> (session_error + queue_result) \<times> session" where
  "try_send m s =
     (if se_cmds_closed s then (Inl Session_Closed, s)
      else if length (se_cmds s) \<ge> CMD_Q then (Inr Busy, s)
      else (Inr Queued, s\<lparr>se_cmds := se_cmds s @ [m]\<rparr>))"

definition try_input :: "u64 \<Rightarrow> bytes \<Rightarrow> session \<Rightarrow> (session_error + queue_result) \<times> session" where
  "try_input seq data s =
     (if data = [] then (Inl Empty_Input, s)
      else if length data > MAX_INPUT_BYTES then (Inl Input_Too_Large, s)
      else try_send (Input seq data) s)"

definition try_resize ::
  "nat \<Rightarrow> u16 \<Rightarrow> u16 \<Rightarrow> session \<Rightarrow> (session_error + queue_result) \<times> session" where
  "try_resize max_cells cols rows s = (case validate_dims max_cells cols rows of
      Inl e \<Rightarrow> (Inl (Bad_Dims e), s)
    | Inr _ \<Rightarrow> try_send (Resize cols rows) s)"

definition try_ack :: "u64 \<Rightarrow> session \<Rightarrow> session" where
  "try_ack version s = ack_state version (snd (try_send (Ack version) s))"

definition session_request_hangup :: "session \<Rightarrow> session" where
  "session_request_hangup s = s\<lparr>se_shutdown := True, se_hangup := True\<rparr>"

definition session_version :: "session \<Rightarrow> u64" where
  "session_version s = (case se_latest s of None \<Rightarrow> 0 | Some l \<Rightarrow> la_version l)"

definition detached_secs :: "nat \<Rightarrow> session \<Rightarrow> nat option" where
  "detached_secs now s = map_option (\<lambda>t. (now - t) div 1000) (se_last_detach s)"

section \<open>The owner\<close>

record 't owner =
  ow_driver :: "'t emulator"
  ow_last_seq :: u64
  ow_version :: u64
  ow_pending :: pending_writes
  ow_history :: history
  ow_echo_ack :: u64
  ow_child_done :: "u32 option"
  ow_running :: bool

text \<open>The state \<open>spawn_pair\<close> and the first lines of \<open>run\<close> leave.\<close>

definition owner_new :: "('t, 'y) term_lib_scheme \<Rightarrow> u16 \<Rightarrow> u16 \<Rightarrow> 't owner" where
  "owner_new T cols rows =
     \<lparr>ow_driver = emulator_new T rows cols 2000, ow_last_seq = 0, ow_version = 0,
      ow_pending = pending_new, ow_history = [], ow_echo_ack = 0, ow_child_done = None, ow_running = True\<rparr>"

type_synonym 't sys = "session \<times> 't owner"

text \<open>\<open>spawn_pair\<close>, as far as it is not the spawning of the shell.\<close>

definition spawn_pair ::
  "nat \<Rightarrow> ('t, 'y) term_lib_scheme \<Rightarrow> bytes \<Rightarrow> bytes \<Rightarrow> u32 \<Rightarrow> u16 \<Rightarrow> u16 \<Rightarrow> nat \<Rightarrow> dims_error + 't sys" where
  "spawn_pair max_cells T sid token uid cols rows now =
     res_bind (validate_dims max_cells cols rows) (\<lambda>(cols, rows).
       Inr (session_new sid token uid cols rows now, owner_new T cols rows))"

definition publish :: "('f, 'z) codec_lib_scheme \<Rightarrow> ('t, 'y) term_lib_scheme \<Rightarrow> 't sys \<Rightarrow> 't sys" where
  "publish F T = (\<lambda>(s, w).
     let v = ow_version w + 1;
         scr = \<lparr>sc_version = v, sc_echo_ack = ow_echo_ack w, sc_frame = snapshot F T (ow_driver w)\<rparr> in
     (s\<lparr>se_latest := Some \<lparr>la_version = v, la_blob = screen_encode F scr\<rparr>\<rparr>, w\<lparr>ow_version := v\<rparr>))"

text \<open>Queue the replies the emulator generated; False when the budget is exceeded.\<close>

definition take_replies :: "'t owner \<Rightarrow> bool \<times> 't owner" where
  "take_replies w =
     (let (bs, d) = take_pty_write (ow_driver w); (ok, p) = push_generated bs (ow_pending w) in
      (ok, w\<lparr>ow_driver := d, ow_pending := p\<rparr>))"

text \<open>What the loop of the owner can wake up for, with what the call returned. \<open>Pty_Output []\<close> is the
  end of the file.\<close>

datatype owner_event =
    Hangup_Notified
  | Child_Exited "u32 option"
  | Pty_Failed
  | Pty_Output bytes
  | Pty_Wrote nat nat
  | Command
  | Commands_Gone
  | Sync_Timeout
  | Echo_Timeout nat

text \<open>The guards of the arms: their preconditions and what they wait for.\<close>

fun owner_enabled :: "('t, 'y) term_lib_scheme \<Rightarrow> owner_event \<Rightarrow> 't sys \<Rightarrow> bool" where
  "owner_enabled T Hangup_Notified (s, w) \<longleftrightarrow> se_hangup s"
| "owner_enabled T (Child_Exited _) (s, w) \<longleftrightarrow> True"
| "owner_enabled T Pty_Failed (s, w) \<longleftrightarrow> True"
| "owner_enabled T (Pty_Output bs) (s, w) \<longleftrightarrow> length bs \<le> 8192"
| "owner_enabled T (Pty_Wrote n now) (s, w) \<longleftrightarrow> pw_unread (ow_pending w) > 0 \<and> n \<le> length (write_buf (ow_pending w))"
| "owner_enabled T Command (s, w) \<longleftrightarrow> pw_unread (ow_pending w) < MAX_PENDING \<and> se_cmds s \<noteq> []"
| "owner_enabled T Commands_Gone (s, w) \<longleftrightarrow> pw_unread (ow_pending w) < MAX_PENDING \<and> se_cmds s = []"
| "owner_enabled T Sync_Timeout (s, w) \<longleftrightarrow> sync_deadline T (ow_driver w) \<noteq> None"
| "owner_enabled T (Echo_Timeout now) (s, w) \<longleftrightarrow> ow_history w \<noteq> [] \<and> snd (hd (ow_history w)) + ECHO_TIMEOUT \<le> now"

text \<open>One command.\<close>

definition next_seq :: "u64 \<Rightarrow> u64" where
  "next_seq last_seq = (if last_seq = 0 then 1 else last_seq + 1)"

fun run_command ::
  "('f, 'z) codec_lib_scheme \<Rightarrow> ('t, 'y) term_lib_scheme \<Rightarrow> owner_msg \<Rightarrow> 't sys \<Rightarrow> bool \<times> 't sys" where
  "run_command F T (Input seq data) (s, w) =
     (if seq = next_seq (ow_last_seq w) then
        (let (ok, p) = push_input seq data (ow_pending w) in
         if ok then (True, s\<lparr>se_accepted := seq\<rparr>, w\<lparr>ow_pending := p, ow_last_seq := seq\<rparr>)
         else (False, s, w))
      else (True, s, w))"
| "run_command F T (Resize c r) (s, w) =
     (if is_ok (validate_dims (fs_max_cell_count F) c r)
      then (True, publish F T (s\<lparr>se_size := (c, r)\<rparr>, w\<lparr>ow_driver := emulator_resize T r c (ow_driver w)\<rparr>))
      else (True, s, w))"
| "run_command F T (Ack v) (s, w) = (True, ack_state v s, w)"

text \<open>The body of an arm: does the loop go on, and the new state.\<close>

fun owner_arm ::
  "('f, 'z) codec_lib_scheme \<Rightarrow> ('t, 'y) term_lib_scheme \<Rightarrow> owner_event \<Rightarrow> 't sys \<Rightarrow> bool \<times> 't sys" where
  "owner_arm F T Hangup_Notified (s, w) = (False, s\<lparr>se_hangup := False\<rparr>, w)"
| "owner_arm F T (Child_Exited st) (s, w) =
     (False, s, w\<lparr>ow_child_done := Some (case st of None \<Rightarrow> 1 | Some c \<Rightarrow> c)\<rparr>)"
| "owner_arm F T Pty_Failed (s, w) = (False, s, w)"
| "owner_arm F T (Pty_Output bs) (s, w) =
     (if bs = [] then (False, s, w)
      else let (ok, w) = take_replies (w\<lparr>ow_driver := emulator_process T bs (ow_driver w)\<rparr>) in
        if ok then (True, publish F T (s, w)) else (False, s, w))"
| "owner_arm F T (Pty_Wrote n now) (s, w) =
     (if n = 0 then (False, s, w)
      else let (p, h) = pending_advance n (ow_history w) now (ow_pending w) in
        (True, s, w\<lparr>ow_pending := p, ow_history := h\<rparr>))"
| "owner_arm F T Command (s, w) = run_command F T (hd (se_cmds s)) (s\<lparr>se_cmds := tl (se_cmds s)\<rparr>, w)"
| "owner_arm F T Commands_Gone (s, w) = (False, s, w)"
| "owner_arm F T Sync_Timeout (s, w) =
     (let (ok, w) = take_replies (w\<lparr>ow_driver := flush_sync T (ow_driver w)\<rparr>) in
      if ok then (True, publish F T (s, w)) else (False, s, w))"
| "owner_arm F T (Echo_Timeout now) (s, w) =
     (let (moved, e, h) = advance_echo_ack (ow_echo_ack w) (ow_history w) now;
          w = w\<lparr>ow_echo_ack := e, ow_history := h\<rparr> in
      (True, if moved then publish F T (s, w) else (s, w)))"

text \<open>One turn of the loop, with the flag at its top.\<close>

definition owner_turn ::
  "('f, 'z) codec_lib_scheme \<Rightarrow> ('t, 'y) term_lib_scheme \<Rightarrow> owner_event \<Rightarrow> 't sys \<Rightarrow> 't sys" where
  "owner_turn F T ev = (\<lambda>(s, w).
     if \<not> ow_running w then (s, w)
     else if se_shutdown s then (s, w\<lparr>ow_running := False\<rparr>)
     else if \<not> owner_enabled T ev (s, w) then (s, w)
     else let (go, s', w') = owner_arm F T ev (s, w) in (s', w'\<lparr>ow_running := go\<rparr>))"

text \<open>\<open>drain_pty\<close>: at most eight more reads; a read that fails or finds nothing ends it.\<close>

fun drain_reads :: "('t, 'y) term_lib_scheme \<Rightarrow> nat \<Rightarrow> bytes list \<Rightarrow> 't owner \<Rightarrow> 't owner" where
  "drain_reads T 0 reads w = w"
| "drain_reads T (Suc n) [] w = w"
| "drain_reads T (Suc n) (bs # reads) w =
     (if bs = [] then w
      else let (ok, w) = take_replies (w\<lparr>ow_driver := emulator_process T bs (ow_driver w)\<rparr>) in
        if ok then drain_reads T n reads w else w)"

definition drain_pty :: "('t, 'y) term_lib_scheme \<Rightarrow> bytes list \<Rightarrow> 't owner \<Rightarrow> 't owner" where
  "drain_pty T reads w = drain_reads T 8 reads w"

text \<open>After the loop: \<open>reaped\<close> is what \<open>reap_child\<close> returns. The owner's receiver goes with it.\<close>

definition owner_finish ::
  "('f, 'z) codec_lib_scheme \<Rightarrow> ('t, 'y) term_lib_scheme \<Rightarrow> u32 \<Rightarrow> bytes list \<Rightarrow> 't sys \<Rightarrow> 't sys" where
  "owner_finish F T reaped reads = (\<lambda>(s, w).
     let w = (case ow_child_done w of None \<Rightarrow> w\<lparr>ow_child_done := Some reaped\<rparr> | Some _ \<Rightarrow> w);
         (s, w) = publish F T (s, drain_pty T reads w) in
     (s\<lparr>se_exit := Some (case ow_child_done w of None \<Rightarrow> 1 | Some st \<Rightarrow> st), se_cmds_closed := True\<rparr>, w))"

section \<open>The whole session\<close>

text \<open>The calls of transports and of the helper, interleaved with the turns of the owner.\<close>

datatype session_event =
    Owner_Turn owner_event
  | Owner_Exit u32 "bytes list"
  | Try_Input u64 bytes
  | Try_Resize u16 u16
  | Try_Ack u64
  | Claim
  | Detach u64 nat
  | Hangup_Request

fun session_step ::
  "('f, 'z) codec_lib_scheme \<Rightarrow> ('t, 'y) term_lib_scheme \<Rightarrow> session_event \<Rightarrow> 't sys \<Rightarrow> 't sys" where
  "session_step F T (Owner_Turn ev) x = owner_turn F T ev x"
| "session_step F T (Owner_Exit reaped reads) x =
     (if \<not> ow_running (snd x) \<and> \<not> se_cmds_closed (fst x) then owner_finish F T reaped reads x else x)"
| "session_step F T (Try_Input seq data) x = apfst (\<lambda>s. snd (try_input seq data s)) x"
| "session_step F T (Try_Resize c r) x = apfst (\<lambda>s. snd (try_resize (fs_max_cell_count F) c r s)) x"
| "session_step F T (Try_Ack v) x = apfst (try_ack v) x"
| "session_step F T Claim x = apfst (\<lambda>s. snd (claim_transport s)) x"
| "session_step F T (Detach e now) x = apfst (detach_if_epoch e now) x"
| "session_step F T Hangup_Request x = apfst session_request_hangup x"

end
