(* ===== verification/Session_Props.thy ===== *)
theory Session_Props
  imports Session "HOL-Library.Sublist"
begin

text \<open>
  What a session guarantees (\<open>crates/quosh-server/src/session.rs\<close>), over every interleaving of
  transport calls with turns of the owner: input is written to the PTY in order and exactly once,
  the echo checkpoint only covers input that has been fully written for the settling interval, the
  queues stay within their budgets, and every published screen has a version of its own.

  A ghost trace records what the owner accepted and what it wrote.
\<close>

section \<open>Where inputs end in the stream\<close>

text \<open>What the owner queues for the PTY: a user's input or a reply of the terminal.\<close>

datatype piece = Typed u64 bytes | Reply bytes

fun piece_data :: "piece \<Rightarrow> bytes" where
  "piece_data (Typed _ d) = d"
| "piece_data (Reply d) = d"

text \<open>Each input with the offset in the stream at which it ends.\<close>

fun piece_ends :: "nat \<Rightarrow> piece list \<Rightarrow> (u64 \<times> nat) list" where
  "piece_ends off [] = []"
| "piece_ends off (Typed s d # ps) = (s, off + length d) # piece_ends (off + length d) ps"
| "piece_ends off (Reply d # ps) = piece_ends (off + length d) ps"

fun chunk_ends :: "nat \<Rightarrow> write_chunk list \<Rightarrow> (u64 \<times> nat) list" where
  "chunk_ends off [] = []"
| "chunk_ends off (c # cs) =
     (case wc_seq c of None \<Rightarrow> [] | Some s \<Rightarrow> [(s, off + length (chunk_rest c))]) @
     chunk_ends (off + length (chunk_rest c)) cs"

lemma piece_ends_append:
  "piece_ends off (ps @ qs) = piece_ends off ps @ piece_ends (off + length (concat (map piece_data ps))) qs"
  by (induction off ps rule: piece_ends.induct) (simp_all add: add.assoc)

lemma chunk_ends_append:
  "chunk_ends off (cs @ ds) = chunk_ends off cs @ chunk_ends (off + length (concat (map chunk_rest cs))) ds"
  by (induction off cs rule: chunk_ends.induct) (simp_all add: add.assoc)

lemma push_input_ends:
  assumes "push_input seq data p = (True, p')"
  shows "chunk_ends off (pw_chunks p') = chunk_ends off (pw_chunks p) @
    [(seq, off + length (pending_rest p) + length data)]"
  using assms by (auto simp: push_input_def chunk_ends_append pending_rest_def chunk_rest_def split: if_splits)

lemma push_generated_ends:
  assumes "push_generated bs p = (ok, p')"
  shows "chunk_ends off (pw_chunks p') = chunk_ends off (pw_chunks p)"
proof (cases "bs = [] \<or> pw_unread p + length bs > PENDING_HARD_MAX")
  case True
  with assms show ?thesis by (auto simp: push_generated_def split: if_splits)
next
  case False
  show ?thesis
  proof (cases "pw_chunks p = [] \<or> wc_seq (last (pw_chunks p)) \<noteq> None")
    case True
    with False assms show ?thesis by (auto simp: push_generated_def Let_def chunk_ends_append)
  next
    case merged: False
    then obtain cs c where "pw_chunks p = cs @ [c]" "wc_seq c = None"
      by (cases "pw_chunks p" rule: rev_cases) auto
    with False assms show ?thesis by (auto simp: push_generated_def Let_def chunk_ends_append)
  qed
qed

lemma advance_chunks_ends:
  assumes "list_all chunk_ok cs" "left \<le> length (concat (map chunk_rest cs))"
    and "advance_chunks left cs unread h now = (cs', unread', h')"
  shows "\<exists>es. chunk_ends off cs = es @ chunk_ends (off + left) cs' \<and>
    h' = h @ map (\<lambda>(s, _). (s, now)) es \<and> (\<forall>(s, e) \<in> set es. e \<le> off + left)"
  using assms
proof (induction left cs unread h now arbitrary: off rule: advance_chunks.induct)
  case (2 left c cs unread h now)
  show ?case
  proof (cases "left = 0")
    case True
    with 2 show ?thesis by auto
  next
    case False
    let ?n = "min left (length (wc_data c) - wc_off c)"
    have c: "wc_off c < length (wc_data c)" using 2(2) by (simp add: chunk_ok_def)
    show ?thesis
    proof (cases "wc_off c + ?n = length (wc_data c)")
      case True
      then have n: "?n = length (chunk_rest c)" "length (chunk_rest c) \<le> left" by (auto simp: chunk_rest_def)
      let ?h = "case wc_seq c of None \<Rightarrow> h | Some seq \<Rightarrow> h @ [(seq, now)]"
      have r: "advance_chunks (left - ?n) cs (unread - ?n) ?h now = (cs', unread', h')"
        using 2(4) False True by (simp add: Let_def cong: option.case_cong)
      have l: "left - ?n \<le> length (concat (map chunk_rest cs))" using 2(3) n by simp
      obtain es where es: "chunk_ends (off + ?n) cs = es @ chunk_ends (off + ?n + (left - ?n)) cs'"
        "h' = ?h @ map (\<lambda>(s, _). (s, now)) es" "\<forall>(s, e) \<in> set es. e \<le> off + ?n + (left - ?n)"
        using 2(1) [OF False refl refl refl refl, where off = "off + ?n"] True 2(2) l r by auto
      have o: "off + ?n + (left - ?n) = off + left" by simp
      show ?thesis
      proof (cases "wc_seq c")
        case None
        with es n show ?thesis unfolding o by (intro exI [of _ es]) simp
      next
        case (Some s)
        with es n show ?thesis unfolding o by (intro exI [of _ "(s, off + ?n) # es"]) simp
      qed
    next
      case False
      with \<open>left \<noteq> 0\<close> 2(4) have r: "cs' = c\<lparr>wc_off := wc_off c + ?n\<rparr> # cs" "h' = h"
        by (simp_all add: Let_def)
      have n: "?n = left" "left < length (chunk_rest c)" using False c by (auto simp: chunk_rest_def)
      have "length (chunk_rest (c\<lparr>wc_off := wc_off c + ?n\<rparr>)) = length (chunk_rest c) - left"
        using n by (simp add: chunk_rest_def)
      with n(2) r show ?thesis by (intro exI [of _ "[]"]) (simp split: option.split)
    qed
  qed
qed simp

section \<open>The trace\<close>

record trace =
  tr_written :: bytes
  tr_pieces :: "piece list"
  tr_marks :: "(nat \<times> nat) list"
  tr_clock :: nat

definition trace_new :: trace where
  "trace_new = \<lparr>tr_written = [], tr_pieces = [], tr_marks = [], tr_clock = 0\<rparr>"

definition reply_piece :: "'t owner \<Rightarrow> piece list" where
  "reply_piece w = (if fst (take_replies w) then [Reply (fst (take_pty_write (ow_driver w)))] else [])"

fun turn_trace :: "('t, 'y) term_lib_scheme \<Rightarrow> owner_event \<Rightarrow> 't sys \<Rightarrow> trace \<Rightarrow> trace" where
  "turn_trace T (Pty_Output bs) (s, w) tr = (if bs = [] then tr else
     tr\<lparr>tr_pieces := tr_pieces tr @ reply_piece (w\<lparr>ow_driver := emulator_process T bs (ow_driver w)\<rparr>)\<rparr>)"
| "turn_trace T Sync_Timeout (s, w) tr =
     tr\<lparr>tr_pieces := tr_pieces tr @ reply_piece (w\<lparr>ow_driver := flush_sync T (ow_driver w)\<rparr>)\<rparr>"
| "turn_trace T (Pty_Wrote n now) (s, w) tr =
     (let out = tr_written tr @ take n (write_buf (ow_pending w)) in
      tr\<lparr>tr_written := out, tr_marks := tr_marks tr @ [(now, length out)], tr_clock := max (tr_clock tr) now\<rparr>)"
| "turn_trace T Command (s, w) tr = (case hd (se_cmds s) of
      Input seq data \<Rightarrow> if seq = next_seq (ow_last_seq w) \<and> fst (push_input seq data (ow_pending w))
        then tr\<lparr>tr_pieces := tr_pieces tr @ [Typed seq data]\<rparr> else tr
    | _ \<Rightarrow> tr)"
| "turn_trace T (Echo_Timeout now) (s, w) tr = tr\<lparr>tr_clock := max (tr_clock tr) now\<rparr>"
| "turn_trace T _ x tr = tr"

fun drain_pieces :: "('t, 'y) term_lib_scheme \<Rightarrow> nat \<Rightarrow> bytes list \<Rightarrow> 't owner \<Rightarrow> piece list" where
  "drain_pieces T 0 reads w = []"
| "drain_pieces T (Suc n) [] w = []"
| "drain_pieces T (Suc n) (bs # reads) w =
     (if bs = [] then []
      else let w1 = w\<lparr>ow_driver := emulator_process T bs (ow_driver w)\<rparr>; (ok, w2) = take_replies w1 in
        reply_piece w1 @ (if ok then drain_pieces T n reads w2 else []))"

fun session_trace :: "('t, 'y) term_lib_scheme \<Rightarrow> session_event \<Rightarrow> 't sys \<Rightarrow> trace \<Rightarrow> trace" where
  "session_trace T (Owner_Turn ev) (s, w) tr =
     (if ow_running w \<and> \<not> se_shutdown s \<and> owner_enabled T ev (s, w) then turn_trace T ev (s, w) tr else tr)"
| "session_trace T (Owner_Exit reaped reads) (s, w) tr =
     (if \<not> ow_running w \<and> \<not> se_cmds_closed s
      then tr\<lparr>tr_pieces := tr_pieces tr @ drain_pieces T 8 reads
        (case ow_child_done w of None \<Rightarrow> w\<lparr>ow_child_done := Some reaped\<rparr> | Some _ \<Rightarrow> w)\<rparr> else tr)"
| "session_trace T _ x tr = tr"

fun session_run ::
  "('f, 'z) codec_lib_scheme \<Rightarrow> ('t, 'y) term_lib_scheme \<Rightarrow> session_event list \<Rightarrow> trace \<times> 't sys \<Rightarrow> trace \<times> 't sys" where
  "session_run F T [] (tr, x) = (tr, x)"
| "session_run F T (ev # evs) (tr, x) = session_run F T evs (session_trace T ev x tr, session_step F T ev x)"

section \<open>The invariant\<close>

text \<open>Inputs are numbered from one.\<close>

definition numbered :: "(u64 \<times> 'a) list \<Rightarrow> bool" where
  "numbered xs \<longleftrightarrow> map fst xs = map of_nat [1..<Suc (length xs)]"

lemma numbered_snoc: "numbered xs \<Longrightarrow> numbered (xs @ [(of_nat (Suc (length xs)), y)])"
  by (simp add: numbered_def)

lemma numbered_nth:
  assumes "numbered xs" "i < length xs"
  shows "fst (xs ! i) = of_nat (Suc i)"
proof -
  have "fst (xs ! i) = map fst xs ! i" using assms(2) by simp
  also have "\<dots> = of_nat (Suc i)" using assms unfolding numbered_def by (simp del: upt_Suc)
  finally show ?thesis .
qed

text \<open>Of the inputs accepted, those in \<open>es\<close> are fully written, each at a moment that \<open>tr_marks\<close>
  records, and the others are chunks still pending. \<open>old\<close> are the completions the checkpoint has
  passed.\<close>

definition settled :: "trace \<Rightarrow> 't owner \<Rightarrow> (u64 \<times> nat) list \<Rightarrow> history \<Rightarrow> bool" where
  "settled tr w es old \<longleftrightarrow>
     piece_ends 0 (tr_pieces tr) = es @ chunk_ends (length (tr_written tr)) (pw_chunks (ow_pending w)) \<and>
     map fst es = map fst (old @ ow_history w) \<and>
     (\<forall>i < length es. \<exists>m. (snd ((old @ ow_history w) ! i), m) \<in> set (tr_marks tr) \<and> snd (es ! i) \<le> m) \<and>
     ow_echo_ack w = (if old = [] then 0 else fst (last old)) \<and>
     (\<forall>(q, t) \<in> set old. t + ECHO_TIMEOUT \<le> tr_clock tr)"

definition stream_ok :: "trace \<Rightarrow> 't owner \<Rightarrow> bool" where
  "stream_ok tr w \<longleftrightarrow> pending_ok (ow_pending w) \<and>
     tr_written tr @ pending_rest (ow_pending w) = concat (map piece_data (tr_pieces tr)) \<and>
     numbered (piece_ends 0 (tr_pieces tr)) \<and>
     ow_last_seq w = of_nat (length (piece_ends 0 (tr_pieces tr))) \<and> (\<exists>es old. settled tr w es old)"

lemma stream_ok_driver [simp]:
  "stream_ok tr (w\<lparr>ow_driver := d\<rparr>) = stream_ok tr w" "stream_ok tr (w\<lparr>ow_version := v\<rparr>) = stream_ok tr w"
  "stream_ok tr (w\<lparr>ow_running := r\<rparr>) = stream_ok tr w" "stream_ok tr (w\<lparr>ow_child_done := cd\<rparr>) = stream_ok tr w"
  by (simp_all add: stream_ok_def settled_def)

lemma stream_ok_replies:
  assumes "stream_ok tr w"
  shows "stream_ok (tr\<lparr>tr_pieces := tr_pieces tr @ reply_piece w\<rparr>) (snd (take_replies w))"
proof -
  obtain bs d where d: "take_pty_write (ow_driver w) = (bs, d)" by fastforce
  obtain ok p where p: "push_generated bs (ow_pending w) = (ok, p)" by fastforce
  have w': "take_replies w = (ok, w\<lparr>ow_driver := d, ow_pending := p\<rparr>)" by (simp add: take_replies_def d p)
  have spec: "pending_ok p" "if ok then pending_rest p = pending_rest (ow_pending w) @ bs else p = ow_pending w"
    "\<And>off. chunk_ends off (pw_chunks p) = chunk_ends off (pw_chunks (ow_pending w))"
    using assms push_generated_spec [OF _ p] push_generated_ends [OF p] by (auto simp: stream_ok_def)
  show ?thesis
  proof (cases ok)
    case True
    then have "reply_piece w = [Reply bs]" by (simp add: reply_piece_def w' d)
    with assms spec True show ?thesis by (simp add: stream_ok_def settled_def w' piece_ends_append flip: append_assoc)
  next
    case False
    then have "reply_piece w = []" by (simp add: reply_piece_def w')
    with assms spec False show ?thesis by (simp add: stream_ok_def settled_def w')
  qed
qed

lemma stream_ok_input:
  assumes "stream_ok tr w" "push_input seq data (ow_pending w) = (True, p)" "seq = next_seq (ow_last_seq w)" "data \<noteq> []"
  shows "stream_ok (tr\<lparr>tr_pieces := tr_pieces tr @ [Typed seq data]\<rparr>) (w\<lparr>ow_pending := p, ow_last_seq := seq\<rparr>)"
proof -
  let ?n = "length (piece_ends 0 (tr_pieces tr))"
  have spec: "pending_ok p" "pending_rest p = pending_rest (ow_pending w) @ data"
    "chunk_ends off (pw_chunks p) = chunk_ends off (pw_chunks (ow_pending w)) @
       [(seq, off + length (pending_rest (ow_pending w)) + length data)]" for off
    using assms push_input_spec [OF _ assms(2)] push_input_ends [OF assms(2)] by (auto simp: stream_ok_def)
  have seq: "seq = of_nat (Suc ?n)"
    using assms(1,3) by (auto simp: stream_ok_def next_seq_def)
  have len: "length (concat (map piece_data (tr_pieces tr))) = length (tr_written tr) + length (pending_rest (ow_pending w))"
    using assms(1) by (metis stream_ok_def length_append)
  have ends: "piece_ends 0 (tr_pieces tr @ [Typed seq data]) =
      piece_ends 0 (tr_pieces tr) @ [(seq, length (tr_written tr) + length (pending_rest (ow_pending w)) + length data)]"
    by (simp add: piece_ends_append len)
  obtain es old where e: "settled tr w es old" using assms(1) by (auto simp: stream_ok_def)
  have "piece_ends 0 (tr_pieces tr @ [Typed seq data]) = es @ chunk_ends (length (tr_written tr)) (pw_chunks p)"
    using e by (simp add: ends spec(3) settled_def)
  with e have "settled (tr\<lparr>tr_pieces := tr_pieces tr @ [Typed seq data]\<rparr>) (w\<lparr>ow_pending := p, ow_last_seq := seq\<rparr>) es old"
    by (simp add: settled_def)
  moreover have "tr_written tr @ pending_rest p = concat (map piece_data (tr_pieces tr @ [Typed seq data]))"
    using assms(1) by (simp add: spec(2) stream_ok_def flip: append_assoc)
  moreover have "numbered (piece_ends 0 (tr_pieces tr @ [Typed seq data]))"
    unfolding ends using assms(1) numbered_snoc [of "piece_ends 0 (tr_pieces tr)"] by (simp add: stream_ok_def seq)
  moreover have "of_nat (length (piece_ends 0 (tr_pieces tr @ [Typed seq data]))) = seq"
    unfolding ends using seq by simp
  ultimately show ?thesis using spec(1) by (auto simp: stream_ok_def)
qed

lemma stream_ok_write:
  assumes "stream_ok tr w" "n \<le> length (write_buf (ow_pending w))"
    and "pending_advance n (ow_history w) now (ow_pending w) = (p, h)"
  shows "stream_ok (turn_trace T (Pty_Wrote n now) (s, w) tr) (w\<lparr>ow_pending := p, ow_history := h\<rparr>)"
proof -
  let ?q = "ow_pending w" and ?out = "tr_written tr @ take n (write_buf (ow_pending w))"
  obtain cs u where r: "advance_chunks n (pw_chunks ?q) (pw_unread ?q) (ow_history w) now = (cs, u, h)"
    and p: "p = \<lparr>pw_chunks = cs, pw_unread = u\<rparr>"
    using assms(3) by (auto simp: pending_advance_def split_def Let_def prod_eq_iff)
  have ok: "list_all chunk_ok (pw_chunks ?q)" "pw_unread ?q = length (concat (map chunk_rest (pw_chunks ?q)))"
      "pw_unread ?q \<le> PENDING_HARD_MAX"
    using assms(1) by (simp_all add: stream_ok_def pending_ok_def pending_rest_def)
  have buf: "take n (write_buf ?q) = take n (pending_rest ?q)" "n \<le> length (pending_rest ?q)"
    using assms(2) by (cases "pw_chunks ?q"; simp add: write_buf_def pending_rest_def chunk_rest_def)+
  have spec: "list_all chunk_ok cs" "u = length (concat (map chunk_rest cs))"
    "concat (map chunk_rest cs) = drop n (pending_rest ?q)"
    using advance_chunks_spec [OF ok(1,2) r] by (simp_all add: pending_rest_def)
  obtain fs where fs: "chunk_ends (length (tr_written tr)) (pw_chunks ?q) = fs @ chunk_ends (length (tr_written tr) + n) cs"
    "h = ow_history w @ map (\<lambda>(s, _). (s, now)) fs" "\<forall>(s, e) \<in> set fs. e \<le> length (tr_written tr) + n"
    using advance_chunks_ends [OF ok(1) _ r] buf(2) by (auto simp: pending_rest_def)
  have out: "length ?out = length (tr_written tr) + n" using buf(2) by (simp add: buf(1))
  obtain es old where s: "settled tr w es old" using assms(1) by (auto simp: stream_ok_def)
  note e = s [unfolded settled_def]
  have len: "length es = length (old @ ow_history w)" using e by (metis length_map)
  have "\<exists>m. (snd ((old @ h) ! i), m) \<in> set (tr_marks tr @ [(now, length ?out)]) \<and> snd ((es @ fs) ! i) \<le> m"
    if i: "i < length (es @ fs)" for i
  proof (cases "i < length es")
    case True
    have "(old @ h) ! i = (old @ ow_history w) ! i" "(es @ fs) ! i = es ! i"
      using True len by (auto simp: fs(2) nth_append)
    with e True show ?thesis by auto
  next
    case False
    let ?j = "i - length es"
    have j: "?j < length fs" using i False by simp
    have "(old @ h) ! i = (fst (fs ! ?j), now)" "(es @ fs) ! i = fs ! ?j"
      using False len j by (auto simp: fs(2) nth_append split_def)
    moreover have "snd (fs ! ?j) \<le> length ?out" using fs(3) nth_mem [OF j] unfolding out by fastforce
    ultimately show ?thesis by auto
  qed
  moreover have "map fst (es @ fs) = map fst (old @ h)" using e by (simp add: fs(2) split_def)
  moreover have "piece_ends 0 (tr_pieces tr) = (es @ fs) @ chunk_ends (length ?out) cs"
    using e by (simp only: fs(1) out append_assoc)
  moreover have "\<forall>(q, t) \<in> set old. t + ECHO_TIMEOUT \<le> max (tr_clock tr) now" using e by fastforce
  ultimately have "settled (turn_trace T (Pty_Wrote n now) (s, w) tr) (w\<lparr>ow_pending := p, ow_history := h\<rparr>) (es @ fs) old"
    using e unfolding settled_def by (simp only: turn_trace.simps Let_def p) simp
  moreover have "pending_ok p" using spec ok(3) by (simp add: p pending_ok_def pending_rest_def ok(2))
  moreover have "?out @ pending_rest p = concat (map piece_data (tr_pieces tr))"
    using assms(1) by (simp add: p pending_rest_def [of "\<lparr>pw_chunks = cs, pw_unread = u\<rparr>"] spec(3) buf(1) stream_ok_def)
  ultimately show ?thesis using assms(1) by (auto simp: stream_ok_def Let_def)
qed

lemma settle_spec:
  assumes "settle now newest h = (newest', h')"
  shows "\<exists>fs. h = fs @ h' \<and> newest' = (if fs = [] then newest else fst (last fs)) \<and>
    (\<forall>(q, t) \<in> set fs. t + ECHO_TIMEOUT \<le> now)"
  using assms
proof (induction now newest h rule: settle.induct)
  case (2 now newest seq t h)
  show ?case
  proof (cases "t + ECHO_TIMEOUT \<le> now")
    case True
    with 2 obtain fs where "h = fs @ h'" "newest' = (if fs = [] then seq else fst (last fs))"
      "\<forall>(q, t) \<in> set fs. t + ECHO_TIMEOUT \<le> now" by auto
    with True show ?thesis by (intro exI [of _ "(seq, t) # fs"]) auto
  next
    case False
    with 2(2) show ?thesis by (intro exI [of _ "[]"]) auto
  qed
qed simp

lemma stream_ok_echo:
  assumes "stream_ok tr w" "advance_echo_ack (ow_echo_ack w) (ow_history w) now = (moved, e, h)"
  shows "stream_ok (tr\<lparr>tr_clock := max (tr_clock tr) now\<rparr>) (w\<lparr>ow_echo_ack := e, ow_history := h\<rparr>)"
proof -
  obtain es old where s: "settled tr w es old" using assms(1) by (auto simp: stream_ok_def)
  have "settle now (ow_echo_ack w) (ow_history w) = (e, h)"
    using assms(2) by (auto simp: advance_echo_ack_def split_def Let_def prod_eq_iff)
  from settle_spec [OF this] obtain fs where fs: "ow_history w = fs @ h"
    "e = (if fs = [] then ow_echo_ack w else fst (last fs))" "\<forall>(q, t) \<in> set fs. t + ECHO_TIMEOUT \<le> now" by blast
  have "settled (tr\<lparr>tr_clock := max (tr_clock tr) now\<rparr>) (w\<lparr>ow_echo_ack := e, ow_history := h\<rparr>) es (old @ fs)"
    using s fs by (fastforce simp: settled_def)
  then show ?thesis using assms(1) by (auto simp: stream_ok_def)
qed

lemma stream_ok_publish: "stream_ok tr w \<Longrightarrow> publish F T (s, w) = (s', w') \<Longrightarrow> stream_ok tr w'"
  by (auto simp: publish_def Let_def)

definition msgs_ok :: "owner_msg list \<Rightarrow> bool" where
  "msgs_ok ms \<longleftrightarrow> length ms \<le> CMD_Q \<and>
     (\<forall>seq data. Input seq data \<in> set ms \<longrightarrow> data \<noteq> [] \<and> length data \<le> MAX_INPUT_BYTES)"

definition sys_ok :: "trace \<Rightarrow> 't sys \<Rightarrow> bool" where
  "sys_ok tr x \<longleftrightarrow> stream_ok tr (snd x) \<and> msgs_ok (se_cmds (fst x)) \<and> se_accepted (fst x) = ow_last_seq (snd x)"

lemma publish_keeps [simp]:
  "se_cmds (fst (publish F T x)) = se_cmds (fst x)" "se_accepted (fst (publish F T x)) = se_accepted (fst x)"
  "ow_last_seq (snd (publish F T x)) = ow_last_seq (snd x)"
  "stream_ok tr (snd (publish F T x)) = stream_ok tr (snd x)"
  by (cases x; simp add: publish_def Let_def)+

lemma take_replies_keeps [simp]: "ow_last_seq (snd (take_replies w)) = ow_last_seq w"
  by (simp add: take_replies_def split_def Let_def)

lemma sys_ok_publish [simp]: "sys_ok tr (publish F T x) = sys_ok tr x"
  by (simp add: sys_ok_def)

lemma sys_ok_replies:
  assumes "sys_ok tr (s, w)" "take_replies (w\<lparr>ow_driver := d\<rparr>) = (ok, w')"
  shows "sys_ok (tr\<lparr>tr_pieces := tr_pieces tr @ reply_piece (w\<lparr>ow_driver := d\<rparr>)\<rparr>) (s, w')"
  using stream_ok_replies [of tr "w\<lparr>ow_driver := d\<rparr>"] take_replies_keeps [of "w\<lparr>ow_driver := d\<rparr>"] assms
  by (simp add: sys_ok_def)

lemma sys_ok_command:
  assumes "sys_ok tr (s, w)" "se_cmds s \<noteq> []" "owner_arm F T Command (s, w) = (go, x)"
  shows "sys_ok (turn_trace T Command (s, w) tr) x"
proof -
  obtain m ms where m: "se_cmds s = m # ms" using assms(2) by (cases "se_cmds s") auto
  have cmds: "msgs_ok ms" using assms(1) m by (auto simp: sys_ok_def msgs_ok_def)
  show ?thesis
  proof (cases m)
    case (Input seq data)
    have data: "data \<noteq> []" using assms(1) m Input by (auto simp: sys_ok_def msgs_ok_def)
    obtain ok p where p: "push_input seq data (ow_pending w) = (ok, p)" by fastforce
    show ?thesis
    proof (cases "seq = next_seq (ow_last_seq w) \<and> ok")
      case True
      with assms(3) m Input p have x: "x = (s\<lparr>se_cmds := ms, se_accepted := seq\<rparr>, w\<lparr>ow_pending := p, ow_last_seq := seq\<rparr>)"
        by simp
      have "stream_ok (tr\<lparr>tr_pieces := tr_pieces tr @ [Typed seq data]\<rparr>) (w\<lparr>ow_pending := p, ow_last_seq := seq\<rparr>)"
        using assms(1) p True data by (intro stream_ok_input) (auto simp: sys_ok_def)
      with True Input p m cmds x show ?thesis by (simp add: sys_ok_def)
    next
      case False
      with assms(3) m Input p have "x = (s\<lparr>se_cmds := ms\<rparr>, w)" by (auto split: if_splits)
      with False Input p m cmds assms(1) show ?thesis by (auto simp: sys_ok_def)
    qed
  next
    case (Resize c r)
    with assms m cmds show ?thesis by (auto simp: sys_ok_def split: if_splits)
  next
    case (Ack v)
    with assms m cmds show ?thesis by (auto simp: sys_ok_def ack_state_def)
  qed
qed

lemma sys_ok_arm:
  assumes "sys_ok tr (s, w)" "owner_enabled T ev (s, w)" "owner_arm F T ev (s, w) = (go, x)"
  shows "sys_ok (turn_trace T ev (s, w) tr) x"
proof (cases ev)
  case (Pty_Output bs)
  obtain ok w' where t: "take_replies (w\<lparr>ow_driver := emulator_process T bs (ow_driver w)\<rparr>) = (ok, w')" by fastforce
  from sys_ok_replies [OF assms(1) t] assms(1,3) t show ?thesis
    by (auto simp: Pty_Output split: if_splits)
next
  case Sync_Timeout
  obtain ok w' where t: "take_replies (w\<lparr>ow_driver := flush_sync T (ow_driver w)\<rparr>) = (ok, w')" by fastforce
  from sys_ok_replies [OF assms(1) t] assms(3) t show ?thesis
    by (auto simp: Sync_Timeout split: if_splits)
next
  case (Pty_Wrote n now)
  obtain p h where p: "pending_advance n (ow_history w) now (ow_pending w) = (p, h)" by fastforce
  show ?thesis
  proof (cases "n = 0")
    case True
    with assms(3) Pty_Wrote have x: "x = (s, w)" by simp
    have "pending_advance 0 (ow_history w) now (ow_pending w) = (ow_pending w, ow_history w)"
      by (cases "pw_chunks (ow_pending w)") (simp_all add: pending_advance_def)
    from stream_ok_write [OF _ _ this, of tr T s] assms(1) have "stream_ok (turn_trace T (Pty_Wrote 0 now) (s, w) tr) w"
      by (simp add: sys_ok_def)
    with assms(1) show ?thesis by (simp add: Pty_Wrote True x sys_ok_def)
  next
    case False
    with stream_ok_write [OF _ _ p, of tr T s] assms p show ?thesis
      by (auto simp: Pty_Wrote sys_ok_def)
  qed
next
  case (Echo_Timeout now)
  obtain moved e h where a: "advance_echo_ack (ow_echo_ack w) (ow_history w) now = (moved, e, h)"
    by (metis prod_cases3)
  from stream_ok_echo [OF _ a, of tr] assms(1,3) a show ?thesis
    by (auto simp: Echo_Timeout sys_ok_def Let_def split: if_splits)
next
  case Command
  with sys_ok_command assms show ?thesis by fastforce
qed (use assms in \<open>auto simp: sys_ok_def\<close>)

lemma sys_ok_drain:
  assumes "sys_ok tr (s, w)"
  shows "sys_ok (tr\<lparr>tr_pieces := tr_pieces tr @ drain_pieces T n reads w\<rparr>) (s, drain_reads T n reads w)"
  using assms
proof (induction T n reads w arbitrary: tr rule: drain_reads.induct)
  case (3 T n bs reads w)
  let ?d = "emulator_process T bs (ow_driver w)"
  obtain ok w' where t: "take_replies (w\<lparr>ow_driver := ?d\<rparr>) = (ok, w')" by fastforce
  note r = sys_ok_replies [OF 3(2) t]
  show ?case
  proof (cases "bs \<noteq> [] \<and> ok")
    case True
    with 3(1) [OF _ t [symmetric] refl _ r] t show ?thesis by (simp add: Let_def)
  next
    case False
    with r t 3(2) show ?thesis by (auto simp: Let_def)
  qed
qed simp_all

lemma sys_ok_sess:
  assumes "sys_ok tr (s, w)" "se_cmds s' = se_cmds s" "se_accepted s' = se_accepted s"
  shows "sys_ok tr (s', w)"
  using assms by (simp add: sys_ok_def)

lemma try_send_ok:
  assumes "sys_ok tr (s, w)" "\<And>seq data. m = Input seq data \<Longrightarrow> data \<noteq> [] \<and> length data \<le> MAX_INPUT_BYTES"
  shows "sys_ok tr (snd (try_send m s), w)"
  using assms by (auto simp: try_send_def sys_ok_def msgs_ok_def)

lemma session_step_ok:
  assumes "sys_ok tr x"
  shows "sys_ok (session_trace T ev x tr) (session_step F T ev x)"
proof -
  obtain s w where x: "x = (s, w)" by fastforce
  note ok = assms [unfolded x]
  show ?thesis
  proof (cases ev)
    case (Owner_Turn oe)
    obtain go s' w' where a: "owner_arm F T oe (s, w) = (go, s', w')" by (metis prod_cases3)
    show ?thesis
    proof (cases "ow_running w \<and> \<not> se_shutdown s \<and> owner_enabled T oe (s, w)")
      case True
      with sys_ok_arm [OF ok _ a] show ?thesis
        by (simp add: x Owner_Turn owner_turn_def a sys_ok_def)
    next
      case False
      with ok show ?thesis by (auto simp: x Owner_Turn owner_turn_def sys_ok_def)
    qed
  next
    case (Owner_Exit reaped reads)
    let ?w = "case ow_child_done w of None \<Rightarrow> w\<lparr>ow_child_done := Some reaped\<rparr> | Some _ \<Rightarrow> w"
    let ?tr = "tr\<lparr>tr_pieces := tr_pieces tr @ drain_pieces T 8 reads ?w\<rparr>"
    have "sys_ok tr (s, ?w)" using ok by (simp add: sys_ok_def split: option.split)
    from sys_ok_drain [OF this, where T = T and n = 8 and reads = reads]
    have p: "sys_ok ?tr (publish F T (s, drain_pty T reads ?w))"
      by (simp add: drain_pty_def)
    obtain s1 w1 where pub: "publish F T (s, drain_pty T reads ?w) = (s1, w1)" by fastforce
    have "sys_ok ?tr (s1\<lparr>se_exit := e, se_cmds_closed := True\<rparr>, w1)" for e
      using p by (simp add: pub sys_ok_def)
    with ok show ?thesis by (simp add: x Owner_Exit owner_finish_def Let_def pub)
  next
    case (Try_Input seq data)
    with ok try_send_ok [OF ok, of "Input seq data"] show ?thesis
      by (simp add: x try_input_def)
  next
    case (Try_Resize c r)
    with ok try_send_ok [OF ok, of "Resize c r"] show ?thesis
      by (simp add: x try_resize_def split: sum.split)
  next
    case (Try_Ack v)
    with try_send_ok [OF ok, of "Ack v"] show ?thesis
      by (auto simp: x try_ack_def ack_state_def intro: sys_ok_sess)
  qed (use ok in \<open>auto simp: x claim_transport_def detach_if_epoch_def session_request_hangup_def Let_def intro: sys_ok_sess\<close>)
qed

lemma session_run_ok:
  assumes "sys_ok tr x"
  shows "sys_ok (fst (session_run F T evs (tr, x))) (snd (session_run F T evs (tr, x)))"
  using assms
  by (induction evs arbitrary: tr x) (simp_all add: session_step_ok)

definition fresh :: "('t, 'y) term_lib_scheme \<Rightarrow> bytes \<Rightarrow> bytes \<Rightarrow> u32 \<Rightarrow> u16 \<Rightarrow> u16 \<Rightarrow> nat \<Rightarrow> trace \<times> 't sys" where
  "fresh T sid token uid cols rows now = (trace_new, session_new sid token uid cols rows now, owner_new T cols rows)"

lemma fresh_ok: "sys_ok (fst (fresh T sid token uid cols rows now)) (snd (fresh T sid token uid cols rows now))"
proof -
  have "settled trace_new (owner_new T cols rows) [] []"
    by (simp add: settled_def trace_new_def owner_new_def pending_new_def)
  then have "\<exists>es old. settled trace_new (owner_new T cols rows) es old" by blast
  then show ?thesis
    by (simp add: fresh_def sys_ok_def msgs_ok_def stream_ok_def session_new_def owner_new_def trace_new_def numbered_def)
qed

lemma fresh_run_ok:
  assumes "session_run F T evs (fresh T sid token uid cols rows now) = (tr, x)"
  shows "sys_ok tr x"
  using session_run_ok [OF fresh_ok, of F T evs T sid token uid cols rows now] assms by simp

section \<open>Properties\<close>

text \<open>C7: Whatever transports send, in whatever order, repeated or with gaps, the bytes a session
  writes to the PTY are, in order and once each, the inputs it accepted and the terminal's replies:
  the written stream followed by what is pending is their concatenation. The accepted inputs are
  numbered 1, 2, 3 and so on without a gap, and the number acknowledged to clients is theirs.\<close>

theorem session_input_stream:
  "case session_run F T evs (fresh T sid token uid cols rows now) of (tr, s, w) \<Rightarrow>
     tr_written tr @ pending_rest (ow_pending w) = concat (map piece_data (tr_pieces tr)) \<and>
     numbered (piece_ends 0 (tr_pieces tr)) \<and>
     se_accepted s = of_nat (length (piece_ends 0 (tr_pieces tr)))"
proof -
  obtain tr s w where r: "session_run F T evs (fresh T sid token uid cols rows now) = (tr, s, w)"
    by (metis prod_cases3)
  from fresh_run_ok [OF r] show ?thesis by (simp add: r sys_ok_def stream_ok_def)
qed

text \<open>C13: The echo checkpoint never covers input the application may not have had time to see: if it
  is \<open>n\<close>, the last byte of each of the first \<open>n\<close> inputs had been written to the PTY at a moment at
  least 50 ms before the latest clock reading.\<close>

theorem echo_checkpoint_settled:
  "case session_run F T evs (fresh T sid token uid cols rows now) of (tr, s, w) \<Rightarrow>
     \<exists>n \<le> length (piece_ends 0 (tr_pieces tr)). ow_echo_ack w = of_nat n \<and>
       list_all (\<lambda>(_, end). list_ex (\<lambda>(t, written). end \<le> written \<and> t + ECHO_TIMEOUT \<le> tr_clock tr) (tr_marks tr))
         (take n (piece_ends 0 (tr_pieces tr)))"
proof -
  obtain tr s w where r: "session_run F T evs (fresh T sid token uid cols rows now) = (tr, s, w)"
    by (metis prod_cases3)
  let ?pe = "piece_ends 0 (tr_pieces tr)"
  from fresh_run_ok [OF r] obtain es old where st: "settled tr w es old" and num: "numbered ?pe"
    by (auto simp: sys_ok_def stream_ok_def)
  have len: "length es = length (old @ ow_history w)" using st unfolding settled_def by (metis length_map)
  let ?n = "length old"
  have n: "?n \<le> length es" "?n \<le> length ?pe" using st len by (simp_all add: settled_def)
  have "ow_echo_ack w = of_nat ?n"
  proof (cases old rule: rev_cases)
    case (snoc xs y)
    have "fst (last old) = fst ((old @ ow_history w) ! length xs)" by (simp add: snoc nth_append)
    also have "\<dots> = map fst (old @ ow_history w) ! length xs" by (rule nth_map [symmetric]) (simp add: snoc)
    also have "\<dots> = map fst es ! length xs" using st by (simp add: settled_def)
    also have "\<dots> = fst (?pe ! length xs)"
    proof -
      have "length xs < length es" using n(1) snoc by simp
      moreover from this have "?pe ! length xs = es ! length xs" using st by (simp add: settled_def nth_append)
      ultimately show ?thesis by simp
    qed
    also have "\<dots> = of_nat ?n" using numbered_nth [OF num, of "length xs"] n(2) snoc by simp
    finally show ?thesis using st snoc by (simp add: settled_def)
  qed (use st in \<open>simp add: settled_def\<close>)
  moreover have "list_ex (\<lambda>(t, written). snd (take ?n ?pe ! i) \<le> written \<and> t + ECHO_TIMEOUT \<le> tr_clock tr) (tr_marks tr)"
    if i: "i < ?n" for i
  proof -
    obtain m where m: "(snd ((old @ ow_history w) ! i), m) \<in> set (tr_marks tr)" "snd (es ! i) \<le> m"
      using st less_le_trans [OF i n(1)] unfolding settled_def by blast
    have "snd (old ! i) + ECHO_TIMEOUT \<le> tr_clock tr"
      using st nth_mem [OF i] by (fastforce simp: settled_def)
    moreover have "take ?n ?pe ! i = es ! i" using st i n by (simp add: settled_def nth_append)
    ultimately show ?thesis using m i unfolding list_ex_iff
      by (intro bexI [where x = "(snd (old ! i), m)"]) (simp_all add: nth_append)
  qed
  ultimately show ?thesis using n(2)
    by (simp add: r) (rule exI [of _ ?n], simp add: list_all_length split_def)
qed

text \<open>C27: The queues of a session stay within their budgets over any run: at most \<open>CMD_Q\<close> commands
  wait, the unwritten bytes never exceed the hard limit and are counted exactly, and there is
  something to write whenever bytes are unwritten, so the writable arm never spins on nothing.\<close>

theorem session_queues_bounded:
  "case session_run F T evs (fresh T sid token uid cols rows now) of (tr, s, w) \<Rightarrow>
     length (se_cmds s) \<le> CMD_Q \<and>
     pw_unread (ow_pending w) = length (pending_rest (ow_pending w)) \<and>
     pw_unread (ow_pending w) \<le> PENDING_HARD_MAX \<and>
     (write_buf (ow_pending w) \<noteq> []) = (0 < pw_unread (ow_pending w))"
proof -
  obtain tr s w where r: "session_run F T evs (fresh T sid token uid cols rows now) = (tr, s, w)"
    by (metis prod_cases3)
  have p: "pending_ok (ow_pending w)" "msgs_ok (se_cmds s)"
    using fresh_run_ok [OF r] by (auto simp: sys_ok_def stream_ok_def)
  then have "(write_buf (ow_pending w) \<noteq> []) = (0 < pw_unread (ow_pending w))"
    by (cases "pw_chunks (ow_pending w)")
      (auto simp: write_buf_def pending_ok_def pending_rest_def chunk_ok_def chunk_rest_def)
  with p show ?thesis by (simp add: r pending_ok_def msgs_ok_def)
qed

section \<open>Published screens\<close>

text \<open>The owner's version counts the publications; the published screen carries it.\<close>

definition version_ok :: "nat \<Rightarrow> 't sys \<Rightarrow> bool" where
  "version_ok n x \<longleftrightarrow> unat (ow_version (snd x)) \<le> n \<and>
     (case se_latest (fst x) of None \<Rightarrow> ow_version (snd x) = 0 | Some l \<Rightarrow> la_version l = ow_version (snd x))"

lemma session_version_ok: "version_ok n x \<Longrightarrow> session_version (fst x) = ow_version (snd x)"
  by (auto simp: version_ok_def session_version_def split: option.splits)

lemma publish_version:
  assumes "version_ok n x" "Suc n < 18446744073709551616"
  shows "version_ok (Suc n) (publish F T x)" "ow_version (snd x) < ow_version (snd (publish F T x))"
proof -
  have "unat (ow_version (snd x) + 1) = Suc (unat (ow_version (snd x)))"
    by (rule unat_plus_one_no_wrap) (use assms in \<open>simp add: version_ok_def\<close>)
  with assms(1) show "version_ok (Suc n) (publish F T x)" "ow_version (snd x) < ow_version (snd (publish F T x))"
    by (cases x; simp add: publish_def version_ok_def Let_def word_less_nat_alt)+
qed

text \<open>A step either publishes one screen or leaves the published one alone.\<close>

definition same_screen :: "'t sys \<Rightarrow> 't sys \<Rightarrow> bool" where
  "same_screen x y \<longleftrightarrow> se_latest (fst y) = se_latest (fst x) \<and> ow_version (snd y) = ow_version (snd x)"

definition published :: "('f, 'z) codec_lib_scheme \<Rightarrow> ('t, 'y) term_lib_scheme \<Rightarrow> 't sys \<Rightarrow> 't sys \<Rightarrow> bool" where
  "published F T x y \<longleftrightarrow> same_screen x y \<or> (\<exists>z. same_screen x z \<and> same_screen (publish F T z) y)"

lemma same_screen_refl [simp]: "same_screen x x" by (simp add: same_screen_def)

lemma published_same: "same_screen x y \<Longrightarrow> published F T x y"
  by (simp add: published_def)

lemma published_publish: "same_screen x z \<Longrightarrow> published F T x (publish F T z)"
  unfolding published_def using same_screen_refl by blast

lemma take_replies_version [simp]: "ow_version (snd (take_replies w)) = ow_version w"
  by (simp add: take_replies_def split_def Let_def)

lemma drain_version [simp]: "ow_version (drain_reads T n reads w) = ow_version w"
proof (induction T n reads w rule: drain_reads.induct)
  case (3 T n bs reads w)
  let ?w = "w\<lparr>ow_driver := emulator_process T bs (ow_driver w)\<rparr>"
  obtain ok w' where t: "take_replies ?w = (ok, w')" by fastforce
  have "ow_version w' = ow_version w" using take_replies_version [of ?w] t by simp
  with 3 [OF _ t [symmetric] refl] t show ?case by (simp add: Let_def)
qed simp_all

lemma arm_published: "published F T x (snd (owner_arm F T ev x))"
proof -
  obtain s w where x: "x = (s, w)" by fastforce
  show ?thesis
  proof (cases ev)
    case (Pty_Output bs)
    let ?w = "w\<lparr>ow_driver := emulator_process T bs (ow_driver w)\<rparr>"
    obtain ok w' where t: "take_replies ?w = (ok, w')" by fastforce
    have "same_screen x (s, w')" using take_replies_version [of ?w] t by (simp add: same_screen_def x)
    then show ?thesis by (simp add: Pty_Output x t Let_def published_publish published_same)
  next
    case Sync_Timeout
    let ?w = "w\<lparr>ow_driver := flush_sync T (ow_driver w)\<rparr>"
    obtain ok w' where t: "take_replies ?w = (ok, w')" by fastforce
    have "same_screen x (s, w')" using take_replies_version [of ?w] t by (simp add: same_screen_def x)
    then show ?thesis by (simp add: Sync_Timeout x t Let_def published_publish published_same)
  next
    case Command
    have "published F T x (snd (run_command F T m (s\<lparr>se_cmds := ms\<rparr>, w)))" for m ms
      by (cases m) (auto simp: x split_def Let_def same_screen_def ack_state_def intro!: published_same published_publish)
    then show ?thesis by (simp add: Command x)
  next
    case (Echo_Timeout now)
    then show ?thesis
      by (auto simp: x split_def Let_def same_screen_def intro!: published_same published_publish)
  qed (auto simp: x split_def Let_def same_screen_def intro: published_same)
qed

lemma step_published: "published F T x (session_step F T ev x)"
proof -
  obtain s w where x: "x = (s, w)" by fastforce
  show ?thesis
  proof (cases ev)
    case (Owner_Turn oe)
    obtain go s' w' where a: "owner_arm F T oe (s, w) = (go, s', w')" by (metis prod_cases3)
    have "published F T x (s', w'\<lparr>ow_running := go\<rparr>)"
      using arm_published [of F T x oe] a by (auto simp: x published_def same_screen_def)
    then show ?thesis by (simp add: x Owner_Turn owner_turn_def a same_screen_def published_same)
  next
    case (Owner_Exit reaped reads)
    let ?w = "case ow_child_done w of None \<Rightarrow> w\<lparr>ow_child_done := Some reaped\<rparr> | Some _ \<Rightarrow> w"
    have z: "same_screen x (s, drain_pty T reads ?w)"
      by (simp add: x same_screen_def drain_pty_def split: option.split)
    obtain s1 w1 where pub: "publish F T (s, drain_pty T reads ?w) = (s1, w1)" by fastforce
    have "published F T x (s1\<lparr>se_exit := e, se_cmds_closed := True\<rparr>, w1)" for e
      unfolding published_def by (intro disjI2 exI [of _ "(s, drain_pty T reads ?w)"]) (use z in \<open>simp add: pub same_screen_def\<close>)
    then show ?thesis by (simp add: x Owner_Exit owner_finish_def Let_def pub published_same)
  qed (auto simp: x try_input_def try_resize_def try_send_def try_ack_def ack_state_def claim_transport_def
      detach_if_epoch_def session_request_hangup_def Let_def same_screen_def intro!: published_same split: sum.split)
qed

lemma version_ok_published:
  assumes "published F T x y" "version_ok n x" "Suc n < 18446744073709551616"
  shows "version_ok (Suc n) y" "se_latest (fst y) = se_latest (fst x) \<or> session_version (fst x) < session_version (fst y)"
proof -
  have step: "version_ok (Suc n) y \<and>
    (se_latest (fst y) = se_latest (fst x) \<or> ow_version (snd x) < ow_version (snd y))"
    using assms(1) unfolding published_def
  proof (elim disjE exE conjE)
    assume "same_screen x y"
    with assms(2) show ?thesis by (cases "se_latest (fst x)") (auto simp: same_screen_def version_ok_def)
  next
    fix z
    assume z: "same_screen x z" "same_screen (publish F T z) y"
    with assms(2) have "version_ok n z" by (cases "se_latest (fst x)") (auto simp: same_screen_def version_ok_def)
    from publish_version [OF this assms(3), where F = F and T = T] z show ?thesis
      by (cases "se_latest (fst (publish F T z))") (auto simp: same_screen_def version_ok_def)
  qed
  then show "version_ok (Suc n) y" by blast
  with step assms(2) show "se_latest (fst y) = se_latest (fst x) \<or> session_version (fst x) < session_version (fst y)"
    by (auto simp: session_version_ok)
qed

lemma newer_trans:
  assumes "se_latest c = se_latest b \<or> session_version b < session_version c"
    and "se_latest b = se_latest a \<or> session_version a < session_version b"
  shows "se_latest c = se_latest a \<or> session_version a < session_version c"
proof -
  have "se_latest p = se_latest q \<Longrightarrow> session_version p = session_version q" for p q
    by (simp add: session_version_def)
  with assms show ?thesis by (metis less_trans)
qed

lemma run_versions:
  assumes "version_ok n x" "n + length evs < 18446744073709551615"
  shows "version_ok (n + length evs) (snd (session_run F T evs (tr, x))) \<and>
    (se_latest (fst (snd (session_run F T evs (tr, x)))) = se_latest (fst x) \<or>
     session_version (fst x) < session_version (fst (snd (session_run F T evs (tr, x)))))"
  using assms
proof (induction evs arbitrary: n tr x)
  case (Cons ev evs)
  let ?y = "session_step F T ev x"
  note v = version_ok_published [OF step_published [of F T x ev] Cons.prems(1)]
  have "version_ok (Suc n) ?y" using v(1) Cons.prems(2) by simp
  note ih = Cons.IH [OF this, where tr = "session_trace T ev x tr"]
  let ?z = "snd (session_run F T evs (session_trace T ev x tr, ?y))"
  have "se_latest (fst ?z) = se_latest (fst ?y) \<or> session_version (fst ?y) < session_version (fst ?z)"
    and "version_ok (n + length (ev # evs)) ?z"
    using ih Cons.prems(2) by simp_all
  moreover have "se_latest (fst ?y) = se_latest (fst x) \<or> session_version (fst x) < session_version (fst ?y)"
    using v(2) Cons.prems(2) by simp
  ultimately show ?case using newer_trans by simp
qed simp

lemma session_run_append:
  "session_run F T (evs @ evs') y = session_run F T evs' (session_run F T evs y)"
proof (induction evs arbitrary: y)
  case Nil
  then show ?case by (cases y) simp
next
  case (Cons ev evs)
  then show ?case by (cases y) simp
qed

lemma fresh_version_ok: "version_ok 0 (snd (fresh T sid token uid cols rows now))"
  by (simp add: version_ok_def fresh_def session_new_def owner_new_def)

text \<open>C28: No two screens of a session share a version: between any two moments of a run either the
  published screen is the same, blob and all, or its version has grown. A client that keeps the
  newest version therefore keeps the latest screen, and never confuses two.\<close>

theorem screen_versions_fresh:
  assumes "length (evs @ evs') < 18446744073709551615"
  shows "let x = snd (session_run F T evs (fresh T sid token uid cols rows now));
             y = snd (session_run F T (evs @ evs') (fresh T sid token uid cols rows now)) in
    se_latest (fst y) = se_latest (fst x) \<or> session_version (fst x) < session_version (fst y)"
proof -
  obtain tr x where r: "session_run F T evs (fresh T sid token uid cols rows now) = (tr, x)" by (meson surj_pair)
  obtain tr0 x0 where f: "fresh T sid token uid cols rows now = (tr0, x0)" by (meson surj_pair)
  have "version_ok (length evs) x"
    using run_versions [where n = 0 and x = x0 and tr = tr0 and evs = evs and F = F and T = T] fresh_version_ok [of T sid token uid cols rows now] assms r f
    by simp
  from run_versions [OF this, where evs = evs' and F = F and T = T and tr = tr] assms
  show ?thesis by (auto simp: session_run_append r Let_def)
qed

section \<open>What a published screen contains\<close>

definition dims_ok :: "nat \<Rightarrow> u16 \<Rightarrow> u16 \<Rightarrow> bool" where
  "dims_ok m c r \<longleftrightarrow> is_ok (validate_dims m c r)"

definition driver_dims :: "('f, 'z) codec_lib_scheme \<Rightarrow> 't owner \<Rightarrow> bool" where
  "driver_dims F w \<longleftrightarrow> dims_ok (fs_max_cell_count F) (em_cols (ow_driver w)) (em_rows (ow_driver w))"

text \<open>The screen of a moment, and that what is published is the screen of this moment.\<close>

definition screen_now :: "('f, 'z) codec_lib_scheme \<Rightarrow> ('t, 'y) term_lib_scheme \<Rightarrow> 't owner \<Rightarrow> 'f screen" where
  "screen_now F T w = \<lparr>sc_version = ow_version w, sc_echo_ack = ow_echo_ack w, sc_frame = snapshot F T (ow_driver w)\<rparr>"

definition shows_now :: "('f, 'z) codec_lib_scheme \<Rightarrow> ('t, 'y) term_lib_scheme \<Rightarrow> 't sys \<Rightarrow> bool" where
  "shows_now F T x \<longleftrightarrow> (case se_latest (fst x) of None \<Rightarrow> True
     | Some l \<Rightarrow> la_version l = ow_version (snd x) \<and> la_blob l = screen_encode F (screen_now F T (snd x)))"

text \<open>Between the end of the loop and the last publication the emulator may be ahead of what is published.\<close>

definition screens_ok :: "('f, 'z) codec_lib_scheme \<Rightarrow> ('t, 'y) term_lib_scheme \<Rightarrow> 't sys \<Rightarrow> bool" where
  "screens_ok F T x \<longleftrightarrow> driver_dims F (snd x) \<and> (ow_running (snd x) \<longrightarrow> \<not> se_cmds_closed (fst x)) \<and>
     (ow_running (snd x) \<or> se_cmds_closed (fst x) \<longrightarrow> shows_now F T x)"

lemma shows_now_publish: "shows_now F T (publish F T x)"
  by (cases x) (simp add: publish_def shows_now_def screen_now_def Let_def)

lemma shows_now_cong:
  "shows_now F T x \<Longrightarrow> se_latest (fst y) = se_latest (fst x) \<Longrightarrow> ow_driver (snd y) = ow_driver (snd x) \<Longrightarrow>
   ow_version (snd y) = ow_version (snd x) \<Longrightarrow> ow_echo_ack (snd y) = ow_echo_ack (snd x) \<Longrightarrow> shows_now F T y"
  by (auto simp: shows_now_def screen_now_def split: option.splits)

lemma send_events_dims: "em_cols (fold send_event evs e) = em_cols e \<and> em_rows (fold send_event evs e) = em_rows e"
proof (induction evs arbitrary: e)
  case (Cons ev evs)
  then show ?case by (cases ev) simp_all
qed simp

lemma driver_ops_dims [simp]:
  "em_cols (emulator_process T bs e) = em_cols e" "em_rows (emulator_process T bs e) = em_rows e"
  "em_cols (flush_sync T e) = em_cols e" "em_rows (flush_sync T e) = em_rows e"
  "em_cols (emulator_resize T r c e) = c" "em_rows (emulator_resize T r c e) = r"
  by (simp_all add: emulator_process_def flush_sync_def emulator_resize_def term_call_def split_def Let_def send_events_dims)

lemma take_replies_driver:
  "driver_dims F (snd (take_replies w)) = driver_dims F w"
  by (simp add: take_replies_def take_pty_write_def driver_dims_def split_def Let_def)

lemma publish_screen [simp]:
  "driver_dims F (snd (publish F T x)) = driver_dims F (snd x)" "se_cmds_closed (fst (publish F T x)) = se_cmds_closed (fst x)"
  by (cases x; simp add: publish_def driver_dims_def Let_def)+

lemma drain_dims: "driver_dims F (drain_reads T n reads w) = driver_dims F w"
proof (induction n arbitrary: reads w)
  case (Suc n)
  show ?case
  proof (cases reads)
    case (Cons bs rs)
    let ?w = "w\<lparr>ow_driver := emulator_process T bs (ow_driver w)\<rparr>"
    obtain ok w' where t: "take_replies ?w = (ok, w')" by fastforce
    have "driver_dims F w' = driver_dims F ?w" using take_replies_driver [of F ?w] by (simp add: t)
    with Suc.IH show ?thesis by (simp add: Cons Let_def t driver_dims_def)
  qed simp
qed simp

lemma echo_unmoved: "advance_echo_ack e h now = (False, e', h') \<Longrightarrow> e' = e"
  by (auto simp: advance_echo_ack_def Let_def split: prod.splits)

text \<open>An arm after which the loop goes on has published what it changed.\<close>

lemma arm_shows:
  assumes "driver_dims F w" "shows_now F T (s, w)" "owner_arm F T ev (s, w) = (go, s', w')"
  shows "driver_dims F w' \<and> se_cmds_closed s' = se_cmds_closed s \<and> (go \<longrightarrow> shows_now F T (s', w'))"
proof -
  have replies: "driver_dims F w2 \<and> se_cmds_closed s2 = se_cmds_closed s \<and> (g \<longrightarrow> shows_now F T (s2, w2))"
    if "(let (ok, w1) = take_replies (w\<lparr>ow_driver := d\<rparr>) in if ok then (True, publish F T (s, w1)) else (False, s, w1)) = (g, s2, w2)"
      and "em_cols d = em_cols (ow_driver w)" "em_rows d = em_rows (ow_driver w)" for d g s2 w2
  proof -
    obtain ok w1 where t: "take_replies (w\<lparr>ow_driver := d\<rparr>) = (ok, w1)" by fastforce
    have "driver_dims F w1" using take_replies_driver [of F "w\<lparr>ow_driver := d\<rparr>"] that(2,3) assms(1) by (simp add: t driver_dims_def)
    with that(1) t publish_screen [where x = "(s, w1)" and F = F and T = T] shows_now_publish [of F T "(s, w1)"]
    show ?thesis by (cases ok) auto
  qed
  show ?thesis
  proof (cases ev)
    case (Pty_Output bs)
    with assms replies [of "emulator_process T bs (ow_driver w)"] show ?thesis by (auto split: if_splits)
  next
    case Sync_Timeout
    with assms(3) replies [of "flush_sync T (ow_driver w)"] show ?thesis by simp
  next
    case (Echo_Timeout now)
    obtain moved e h where a: "advance_echo_ack (ow_echo_ack w) (ow_history w) now = (moved, e, h)" by (metis prod_cases3)
    let ?w = "w\<lparr>ow_echo_ack := e, ow_history := h\<rparr>"
    show ?thesis
    proof (cases moved)
      case True
      with assms(1,3) a shows_now_publish [of F T "(s, ?w)"] publish_screen [where x = "(s, ?w)" and F = F and T = T]
      show ?thesis by (auto simp: Echo_Timeout driver_dims_def)
    next
      case False
      with a have "advance_echo_ack (ow_echo_ack w) (ow_history w) now = (False, e, h)" by simp
      then have "e = ow_echo_ack w" by (rule echo_unmoved)
      with False assms a show ?thesis by (auto simp: Echo_Timeout driver_dims_def intro: shows_now_cong)
    qed
  next
    case Command
    let ?s = "s\<lparr>se_cmds := tl (se_cmds s)\<rparr>"
    show ?thesis
    proof (cases "hd (se_cmds s)")
      case (Resize c r)
      let ?x = "(?s\<lparr>se_size := (c, r)\<rparr>, w\<lparr>ow_driver := emulator_resize T r c (ow_driver w)\<rparr>)"
      show ?thesis
      proof (cases "is_ok (validate_dims (fs_max_cell_count F) c r)")
        case True
        with assms(3) Resize have p: "publish F T ?x = (s', w')" by (simp add: Command)
        from shows_now_publish [of F T ?x] publish_screen [where x = ?x and F = F and T = T] True show ?thesis
          unfolding p by (simp add: driver_dims_def dims_ok_def)
      qed (use assms Resize in \<open>auto simp: Command driver_dims_def intro: shows_now_cong\<close>)
    qed (use assms in \<open>auto simp: Command driver_dims_def split_def Let_def ack_state_def split: if_splits intro: shows_now_cong\<close>)
  qed (use assms in \<open>auto simp: driver_dims_def split_def Let_def split: if_splits intro: shows_now_cong\<close>)
qed

lemma screens_ok_cong:
  "screens_ok F T x \<Longrightarrow> se_latest (fst y) = se_latest (fst x) \<Longrightarrow> se_cmds_closed (fst y) = se_cmds_closed (fst x) \<Longrightarrow>
   snd y = snd x \<Longrightarrow> screens_ok F T y"
  by (auto simp: screens_ok_def intro: shows_now_cong)

lemma screens_ok_step:
  assumes "screens_ok F T x"
  shows "screens_ok F T (session_step F T ev x)"
proof -
  obtain s w where x: "x = (s, w)" by fastforce
  note ok = assms [unfolded x]
  show ?thesis
  proof (cases ev)
    case (Owner_Turn oe)
    obtain go s' w' where a: "owner_arm F T oe (s, w) = (go, s', w')" by (metis prod_cases3)
    show ?thesis
    proof (cases "ow_running w")
      case True
      with ok have "driver_dims F w" "shows_now F T (s, w)" "\<not> se_cmds_closed s" by (simp_all add: screens_ok_def)
      with arm_shows [OF this(1,2) a] True ok show ?thesis
        by (auto simp: x Owner_Turn owner_turn_def a screens_ok_def driver_dims_def intro: shows_now_cong)
    qed (use ok in \<open>simp add: x Owner_Turn owner_turn_def\<close>)
  next
    case (Owner_Exit reaped reads)
    let ?w = "case ow_child_done w of None \<Rightarrow> w\<lparr>ow_child_done := Some reaped\<rparr> | Some _ \<Rightarrow> w"
    let ?w1 = "drain_pty T reads ?w"
    have "driver_dims F ?w" using ok by (simp add: screens_ok_def driver_dims_def split: option.split)
    then have d: "driver_dims F ?w1" by (simp add: drain_pty_def drain_dims)
    obtain s1 w1 where pub: "publish F T (s, ?w1) = (s1, w1)" by fastforce
    have "shows_now F T (s1, w1)" "driver_dims F w1" "ow_running w1 = ow_running ?w1"
      using shows_now_publish [of F T "(s, ?w1)"] d publish_screen [where x = "(s, ?w1)" and F = F and T = T] pub
      by (auto simp: publish_def Let_def)
    moreover have "ow_running (drain_reads T n reads w) = ow_running w" for n reads w
      by (induction T n reads w rule: drain_reads.induct) (auto simp: take_replies_def split_def Let_def)
    then have "ow_running ?w1 = ow_running w" by (simp add: drain_pty_def split: option.split)
    ultimately show ?thesis using ok
      by (auto simp: x Owner_Exit owner_finish_def Let_def pub screens_ok_def intro: shows_now_cong)
  qed (auto simp: x try_input_def try_resize_def try_send_def try_ack_def ack_state_def claim_transport_def
      detach_if_epoch_def session_request_hangup_def Let_def ok intro!: screens_ok_cong [OF ok] split: sum.split)
qed

lemma screens_ok_run:
  assumes "screens_ok F T x"
  shows "screens_ok F T (snd (session_run F T evs (tr, x)))"
  using assms by (induction evs arbitrary: tr x) (simp_all add: screens_ok_step)

text \<open>C9: What a session publishes is the screen of the moment: after any run, while the owner's loop runs and again
  after its end, the published blob carries the owner's version, and decodes, unless it is over the size limit, to
  that version, the current echo acknowledgement and a snapshot of the emulator as it is then, no older. Only texts of
  more than 65535 bytes are cut; a snapshot that fits the encoding comes back whole, and one over the size limit is refused by
  every client, as too large.\<close>

theorem published_screen_decodes:
  assumes "frame_laws F" "lz_laws F" "dims_ok (fs_max_cell_count F) cols rows"
    and "snd (session_run F T evs (fresh T sid token uid cols rows now)) = (s, w)"
    and "ow_running w \<or> se_cmds_closed s" "se_latest s = Some l"
  shows "let scr = \<lparr>sc_version = ow_version w, sc_echo_ack = ow_echo_ack w, sc_frame = snapshot F T (ow_driver w)\<rparr>;
      n = length (screen_encode_raw F scr) in
    la_version l = ow_version w \<and>
    (n \<le> MAX_SCREEN_RAW \<longrightarrow> (\<exists>got. screen_decode F (la_blob l) = Inr got \<and> screen_clipped F got scr \<and>
       (screen_fits F scr \<longrightarrow> screen_same F got scr))) \<and>
    (MAX_SCREEN_RAW < n \<and> n < 2 ^ 32 \<longrightarrow> screen_decode F (la_blob l) = Inl TooLarge)"
proof -
  have "screens_ok F T (snd (fresh T sid token uid cols rows now))"
    using assms(3) by (simp add: screens_ok_def driver_dims_def shows_now_def fresh_def session_new_def owner_new_def emulator_new_def)
  from screens_ok_run [OF this, where evs = evs and tr = "fst (fresh T sid token uid cols rows now)"] assms(4-6)
  have dims: "driver_dims F w" and l: "la_version l = ow_version w" "la_blob l = screen_encode F (screen_now F T w)"
    by (auto simp: screens_ok_def shows_now_def)
  obtain q where q: "validate_dims (fs_max_cell_count F) (em_cols (ow_driver w)) (em_rows (ow_driver w)) = Inr q"
    using dims by (auto simp: driver_dims_def dims_ok_def is_ok_iff)
  have "screen_shaped F (screen_now F T w)"
    unfolding screen_now_def using validate_dims_Inr [OF q]
    by (intro snapshot_shaped assms(1)) (simp_all add: MAX_ROWS_def MAX_COLS_def word_le_nat_alt mult.commute)
  from screen_raw_clipped [OF assms(1) this] obtain got where
    got: "screen_decode_raw F (screen_encode_raw F (screen_now F T w)) = Inr got" "screen_clipped F got (screen_now F T w)" by blast
  with screen_encode_lz(1) [OF assms(2), of "screen_now F T w"] clipped_same [OF got(2)] l show ?thesis
    unfolding screen_now_def [symmetric] by (simp add: Let_def MAX_SCREEN_RAW_def)
qed

section \<open>An example session\<close>

definition fresh_ex :: "trace \<times> unit sys" where
  "fresh_ex = fresh term_ex (replicate 16 1) (replicate 32 2) 1000 2 2 0"

lemma dims_ex: "dims_ok (fs_max_cell_count codec_ex) 2 2"
  by (simp add: dims_ok_def validate_dims_def codec_ex_def cframe_lib_def frame_lib.defs MIN_COLS_def MIN_ROWS_def
      MAX_COLS_def MAX_ROWS_def)

lemma output_ex:
  "session_version (fst (snd (session_run codec_ex term_ex [Owner_Turn (Pty_Output [104])] fresh_ex))) = 1"
  by (simp add: fresh_ex_def fresh_def session_new_def owner_new_def owner_turn_def take_replies_def
      take_pty_write_def emulator_process_def emulator_new_def term_call_def term_ex_def push_generated_def
      pending_new_def PENDING_HARD_MAX_def MAX_PENDING_def publish_def Let_def session_version_def)

theorem screen_versions_fresh_witness:
  "let x = snd (session_run codec_ex term_ex [] fresh_ex);
       y = snd (session_run codec_ex term_ex ([] @ [Owner_Turn (Pty_Output [104])]) fresh_ex) in
    se_latest (fst y) = se_latest (fst x) \<or> session_version (fst x) < session_version (fst y)"
  unfolding fresh_ex_def by (rule screen_versions_fresh) simp

theorem published_screen_decodes_witness:
  "\<exists>s w l got. snd (session_run codec_ex term_ex [Owner_Turn (Pty_Output [104])] fresh_ex) = (s, w) \<and>
     se_latest s = Some l \<and> screen_decode codec_ex (la_blob l) = Inr got \<and> sc_version got = 1 \<and>
     fs_cells codec_ex (sc_frame got) = fs_cells codec_ex (snapshot codec_ex term_ex (ow_driver w))"
proof -
  obtain s w where x: "snd (session_run codec_ex term_ex [Owner_Turn (Pty_Output [104])] fresh_ex) = (s, w)" by fastforce
  then obtain l where l: "se_latest s = Some l" "la_version l = 1"
    using output_ex by (cases "se_latest s") (simp_all add: session_version_def)
  have run: "ow_running w" "em_term (ow_driver w) = ()" "em_rows (ow_driver w) = 2" "em_cols (ow_driver w) = 2" "em_title (ow_driver w) = []"
    using x by (auto simp: fresh_ex_def fresh_def session_new_def owner_new_def owner_turn_def take_replies_def
      take_pty_write_def emulator_process_def emulator_new_def term_call_def term_ex_def push_generated_def
      pending_new_def PENDING_HARD_MAX_def MAX_PENDING_def publish_def Let_def)
  let ?scr = "\<lparr>sc_version = ow_version w, sc_echo_ack = ow_echo_ack w, sc_frame = snapshot codec_ex term_ex (ow_driver w)\<rparr>"
  note p = published_screen_decodes [OF codec_ex_laws(1,3) dims_ex x [unfolded fresh_ex_def] disjI1 [OF run(1)] l(1)]
  have cells: "length (fs_cells codec_ex (snapshot codec_ex term_ex (ow_driver w))) = 48"
    by (simp add: snapshot_parts(3) [OF codec_ex_laws(1)] length_grid run)
  have grid: "snd (grid_cells term_ex () 2 2) = [(1, full_text (grid_ex 0 1)), (3, full_text (grid_ex 0 1))]"
    by (simp add: grid_cells_def upt_rec grid_cell_def encode_cell_def content_field_def term_ex_def grid_ex_def Let_def
        split_def full_text_def utf8_encode_def)
  have "fs_overflow codec_ex (snapshot codec_ex term_ex (ow_driver w)) = [(1, full_text (grid_ex 0 1)), (3, full_text (grid_ex 0 1))]"
    using grid by (simp add: snapshot_parts(4) [OF codec_ex_laws(1)] run)
  then have "length (screen_encode_raw codec_ex ?scr) \<le> MAX_SCREEN_RAW"
    using cells by (simp add: screen_encode_raw_def Let_def snapshot_parts(5) [OF codec_ex_laws(1)] run put_overflow_def
        put_str16_def SCREEN_MAGIC_def MAX_SCREEN_RAW_def full_text_def grid_ex_def utf8_encode_def)
  with p l(2) x l(1) show ?thesis by (auto simp: Let_def screen_clipped_def)
qed

end
