(* ===== verification/Devices.thy ===== *)
theory Devices
  imports Connect_Line "HOL-Library.AList"
begin

text \<open>
  What the server remembers about browsers: one-time enrolment nonces
  (\<open>crates/quosh-server/src/enroll.rs\<close>) and registered passkeys with their session tokens
  (\<open>crates/quosh-server/src/devices.rs\<close>). Times are Unix seconds, integers (the \<open>i64\<close> sums
  stay far from its bounds). A random value is the argument \<open>fresh\<close>; the outcome of writing the
  file is the argument \<open>saved\<close>; the \<open>hex\<close> crate's encoder is a parameter.
\<close>

section \<open>Enrolment nonces\<close>

definition NONCE_TTL_SECS :: int where "NONCE_TTL_SECS = 10 * 60"

record nonce =
  nc_uid :: u32
  nc_expires :: int

type_synonym nonce_store = "(bytes \<times> nonce) list"

definition nonce_store_new :: nonce_store where "nonce_store_new = []"

definition nonce_issue :: "bytes \<Rightarrow> u32 \<Rightarrow> int \<Rightarrow> nonce_store \<Rightarrow> bytes \<times> nonce_store" where
  "nonce_issue fresh uid now m =
     (let m = filter (\<lambda>(_, n). nc_expires n > now) m in
      (fresh, AList.update fresh \<lparr>nc_uid = uid, nc_expires = now + NONCE_TTL_SECS\<rparr> m))"

definition nonce_consume :: "bytes \<Rightarrow> int \<Rightarrow> nonce_store \<Rightarrow> u32 option \<times> nonce_store" where
  "nonce_consume k now m = (case map_of m k of None \<Rightarrow> (None, m)
     | Some n \<Rightarrow> (if nc_expires n > now then Some (nc_uid n) else None, AList.delete k m))"

definition nonce_len :: "nonce_store \<Rightarrow> nat" where "nonce_len m = length m"
definition nonce_is_empty :: "nonce_store \<Rightarrow> bool" where "nonce_is_empty m \<longleftrightarrow> nonce_len m = 0"

section \<open>The device store\<close>

definition SESSION_IDLE_SECS :: int where "SESSION_IDLE_SECS = 60 * 60"

record registration =
  rg_uid :: u32
  rg_credential_id :: rstr
  rg_public_key :: rstr
  rg_rp_id :: rstr
  rg_origin :: rstr
  rg_user_name :: rstr
  rg_sign_count :: u32
  rg_created :: int
  rg_last_used :: "int option"

record session_token =
  sk_token :: rstr
  sk_uid :: u32
  sk_credential_id :: "rstr option"
  sk_last_seen :: int

record devices =
  dv_registrations :: "registration list"
  dv_tokens :: "session_token list"

datatype store_error = Parse_Failed | Read_Failed | Save_Failed

text \<open>What reading the file gives; \<open>parse\<close> is the JSON reader.\<close>

datatype file_read = Contents bytes | Not_Found | Unreadable

fun devices_load :: "(bytes \<Rightarrow> devices option) \<Rightarrow> file_read \<Rightarrow> store_error + devices" where
  "devices_load parse (Contents bs) = ok_or (parse bs) Parse_Failed"
| "devices_load parse Not_Found = Inr \<lparr>dv_registrations = [], dv_tokens = []\<rparr>"
| "devices_load parse Unreadable = Inl Read_Failed"

definition persist :: "bool \<Rightarrow> store_error + unit" where
  "persist saved = (if saved then Inr () else Inl Save_Failed)"

type_synonym 'a stored = "(store_error + 'a) \<times> devices"

definition register :: "bool \<Rightarrow> registration \<Rightarrow> devices \<Rightarrow> unit stored" where
  "register saved reg d =
     (persist saved, d\<lparr>dv_registrations :=
        filter (\<lambda>r. rg_credential_id r \<noteq> rg_credential_id reg) (dv_registrations d) @ [reg]\<rparr>)"

definition find_credential :: "rstr \<Rightarrow> devices \<Rightarrow> registration option" where
  "find_credential cid d = List.find (\<lambda>r. rg_credential_id r = cid) (dv_registrations d)"

definition registrations :: "u32 \<Rightarrow> devices \<Rightarrow> registration list" where
  "registrations uid d = filter (\<lambda>r. rg_uid r = uid) (dv_registrations d)"

text \<open>\<open>iter_mut().find\<close>: change the first element that satisfies the predicate.\<close>

fun update_first :: "('a \<Rightarrow> bool) \<Rightarrow> ('a \<Rightarrow> 'a) \<Rightarrow> 'a list \<Rightarrow> 'a list" where
  "update_first P f [] = []"
| "update_first P f (x # xs) = (if P x then f x # xs else x # update_first P f xs)"

definition touched :: "bool \<Rightarrow> rstr \<Rightarrow> u32 \<Rightarrow> int \<Rightarrow> devices \<Rightarrow> unit stored" where
  "touched saved cid sign_count now d =
     (persist saved, d\<lparr>dv_registrations := update_first (\<lambda>r. rg_credential_id r = cid)
        (\<lambda>r. r\<lparr>rg_sign_count := max (rg_sign_count r) sign_count, rg_last_used := Some now\<rparr>)
        (dv_registrations d)\<rparr>)"

definition issue_token ::
  "(bytes \<Rightarrow> rstr) \<Rightarrow> bool \<Rightarrow> bytes \<Rightarrow> u32 \<Rightarrow> rstr option \<Rightarrow> int \<Rightarrow> devices \<Rightarrow> bytes stored" where
  "issue_token hex saved fresh uid cid now d =
     (res_bind (persist saved) (\<lambda>_. Inr fresh),
      d\<lparr>dv_tokens := dv_tokens d @
        [\<lparr>sk_token = hex fresh, sk_uid = uid, sk_credential_id = cid, sk_last_seen = now\<rparr>]\<rparr>)"

definition validate_token :: "(bytes \<Rightarrow> rstr) \<Rightarrow> bytes \<Rightarrow> int \<Rightarrow> devices \<Rightarrow> u32 option" where
  "validate_token hex token now d = map_option sk_uid
     (List.find (\<lambda>t. sk_token t = hex token \<and> now - sk_last_seen t \<le> SESSION_IDLE_SECS) (dv_tokens d))"

definition touch_token :: "(bytes \<Rightarrow> rstr) \<Rightarrow> bool \<Rightarrow> bytes \<Rightarrow> int \<Rightarrow> devices \<Rightarrow> unit stored" where
  "touch_token hex saved token now d =
     (if list_ex (\<lambda>t. sk_token t = hex token) (dv_tokens d) then
        (persist saved, d\<lparr>dv_tokens := update_first (\<lambda>t. sk_token t = hex token)
           (\<lambda>t. t\<lparr>sk_last_seen := now\<rparr>) (dv_tokens d)\<rparr>)
      else (Inr (), d))"

text \<open>\<open>saved1\<close> and \<open>saved2\<close> are the outcomes of the two writes.\<close>

definition rotate_token ::
  "(bytes \<Rightarrow> rstr) \<Rightarrow> bool \<Rightarrow> bool \<Rightarrow> bytes \<Rightarrow> bytes option \<Rightarrow> u32 \<Rightarrow> rstr option \<Rightarrow> int \<Rightarrow> devices \<Rightarrow> bytes stored"
where
  "rotate_token hex saved1 saved2 fresh old uid cid now d = (case old of
      None \<Rightarrow> issue_token hex saved2 fresh uid cid now d
    | Some t0 \<Rightarrow>
        (let d = d\<lparr>dv_tokens := filter (\<lambda>t. sk_token t \<noteq> hex t0) (dv_tokens d)\<rparr> in
         case persist saved1 of Inl e \<Rightarrow> (Inl e, d)
         | Inr _ \<Rightarrow> issue_token hex saved2 fresh uid cid now d))"

definition revoke_credential :: "bool \<Rightarrow> u32 \<Rightarrow> rstr \<Rightarrow> devices \<Rightarrow> bool stored" where
  "revoke_credential saved uid cid d =
     (let regs = filter (\<lambda>r. \<not> (rg_uid r = uid \<and> rg_credential_id r = cid)) (dv_registrations d);
          existed = (length regs \<noteq> length (dv_registrations d));
          toks = filter (\<lambda>t. \<not> (sk_uid t = uid \<and> sk_credential_id t = Some cid)) (dv_tokens d) in
      (res_bind (persist saved) (\<lambda>_. Inr existed), \<lparr>dv_registrations = regs, dv_tokens = toks\<rparr>))"

definition revoke_all :: "bool \<Rightarrow> u32 \<Rightarrow> devices \<Rightarrow> nat stored" where
  "revoke_all saved uid d =
     (let before = length (filter (\<lambda>r. rg_uid r = uid) (dv_registrations d)) in
      (res_bind (persist saved) (\<lambda>_. Inr before),
       \<lparr>dv_registrations = filter (\<lambda>r. rg_uid r \<noteq> uid) (dv_registrations d),
        dv_tokens = filter (\<lambda>t. sk_uid t \<noteq> uid) (dv_tokens d)\<rparr>))"

definition revoke_sessions :: "bool \<Rightarrow> u32 \<Rightarrow> devices \<Rightarrow> nat stored" where
  "revoke_sessions saved uid d =
     (let before = length (filter (\<lambda>t. sk_uid t = uid) (dv_tokens d)) in
      (res_bind (persist saved) (\<lambda>_. Inr before),
       d\<lparr>dv_tokens := filter (\<lambda>t. sk_uid t \<noteq> uid) (dv_tokens d)\<rparr>))"

definition tokens :: "u32 \<Rightarrow> devices \<Rightarrow> (rstr \<times> int) list" where
  "tokens uid d = map (\<lambda>t. (sk_token t, sk_last_seen t)) (filter (\<lambda>t. sk_uid t = uid) (dv_tokens d))"

definition short_id :: "rstr \<Rightarrow> rstr" where
  "short_id s = concat (take 16 (utf8_chars s))"

text \<open>\<open>i64::to_string\<close> and the table for \<open>quosh devices\<close>.\<close>

definition int_digits :: "int \<Rightarrow> rstr" where
  "int_digits n = (if n < 0 then lit ''-'' @ dec_digits (nat (- n)) else dec_digits (nat n))"

definition summarize :: "registration list \<Rightarrow> (rstr \<times> rstr) list list" where
  "summarize regs = map (\<lambda>r.
     [(lit ''credential'', short_id (rg_credential_id r)), (lit ''user'', rg_user_name r),
      (lit ''created'', int_digits (rg_created r)),
      (lit ''last_used'', case rg_last_used r of None \<Rightarrow> [] | Some t \<Rightarrow> int_digits t)]) regs"

section \<open>Nonces are spent once\<close>

datatype nonce_op = Issue bytes u32 int | Consume bytes int

fun op_nonce :: "nonce_op \<Rightarrow> bytes" where
  "op_nonce (Issue k _ _) = k"
| "op_nonce (Consume k _) = k"

text \<open>The store after a history of calls, newest last, and the answer to a call after it.\<close>

fun nonce_step :: "nonce_op \<Rightarrow> nonce_store \<Rightarrow> nonce_store" where
  "nonce_step (Issue k uid now) m = snd (nonce_issue k uid now m)"
| "nonce_step (Consume k now) m = snd (nonce_consume k now m)"

definition nonce_run :: "nonce_op list \<Rightarrow> nonce_store" where
  "nonce_run ops = fold nonce_step ops nonce_store_new"

text \<open>The latest call about a nonce.\<close>

definition last_about :: "bytes \<Rightarrow> nonce_op list \<Rightarrow> nonce_op option" where
  "last_about k ops = List.find (\<lambda>x. op_nonce x = k) (rev ops)"

lemma last_about_snoc:
  "last_about k (ops @ [x]) = (if op_nonce x = k then Some x else last_about k ops)"
  by (simp add: last_about_def)

lemma map_of_filter_Some:
  "distinct (map fst m) \<Longrightarrow> map_of (filter (\<lambda>(_, n). P n) m) k = Some n \<longleftrightarrow> map_of m k = Some n \<and> P n"
  by (induction m) (auto split: if_splits simp: map_of_eq_None_iff rev_image_eqI dest!: map_of_SomeD)

lemma distinct_fst_filter: "distinct (map fst m) \<Longrightarrow> distinct (map fst (filter P m))"
  by (simp add: distinct_map_filter)

definition nonces_ok :: "nonce_op list \<Rightarrow> nonce_store \<Rightarrow> bool" where
  "nonces_ok ops m \<longleftrightarrow> distinct (map fst m) \<and> (\<forall>k n. map_of m k = Some n \<longrightarrow>
     (\<exists>t. last_about k ops = Some (Issue k (nc_uid n) t) \<and> nc_expires n = t + NONCE_TTL_SECS))"

lemma nonces_okI:
  assumes "distinct (map fst m)"
    and "\<And>k n. map_of m k = Some n \<Longrightarrow>
      \<exists>t. last_about k ops = Some (Issue k (nc_uid n) t) \<and> nc_expires n = t + NONCE_TTL_SECS"
  shows "nonces_ok ops m"
  using assms by (simp add: nonces_ok_def)

lemma nonces_okD:
  assumes "nonces_ok ops m"
  shows "distinct (map fst m)"
    and "map_of m k = Some n \<Longrightarrow>
      \<exists>t. last_about k ops = Some (Issue k (nc_uid n) t) \<and> nc_expires n = t + NONCE_TTL_SECS"
  using assms by (simp_all add: nonces_ok_def)

lemma nonces_ok_issue:
  assumes "nonces_ok ops m"
  shows "nonces_ok (ops @ [Issue k uid now]) (snd (nonce_issue k uid now m))"
proof -
  let ?f = "filter (\<lambda>(_, n). nc_expires n > now) m"
  let ?n = "\<lparr>nc_uid = uid, nc_expires = now + NONCE_TTL_SECS\<rparr>"
  have f: "distinct (map fst ?f)" by (rule distinct_fst_filter [OF nonces_okD(1) [OF assms]])
  have old: "map_of ?f j = Some n \<Longrightarrow> map_of m j = Some n" for j n
    using map_of_filter_Some [OF nonces_okD(1) [OF assms]] by blast
  have "nonces_ok (ops @ [Issue k uid now]) (AList.update k ?n ?f)"
  proof (rule nonces_okI)
    show "distinct (map fst (AList.update k ?n ?f))" by (rule distinct_update [OF f])
    fix j n assume j: "map_of (AList.update k ?n ?f) j = Some n"
    show "\<exists>t. last_about j (ops @ [Issue k uid now]) = Some (Issue j (nc_uid n) t) \<and> nc_expires n = t + NONCE_TTL_SECS"
    proof (cases "j = k")
      case True
      with j show ?thesis by (auto simp: update_conv' last_about_snoc)
    next
      case False
      with j have "map_of m j = Some n" by (intro old) (simp add: update_conv')
      from nonces_okD(2) [OF assms this] False show ?thesis by (simp add: last_about_snoc)
    qed
  qed
  then show ?thesis by (simp add: nonce_issue_def Let_def)
qed

lemma nonces_ok_consume:
  assumes "nonces_ok ops m"
  shows "nonces_ok (ops @ [Consume k now]) (snd (nonce_consume k now m))"
proof (rule nonces_okI)
  show "distinct (map fst (snd (nonce_consume k now m)))"
    using nonces_okD(1) [OF assms] by (simp add: nonce_consume_def distinct_delete split: option.split)
  fix j n assume j: "map_of (snd (nonce_consume k now m)) j = Some n"
  then have "j \<noteq> k" "map_of m j = Some n"
    by (auto simp: nonce_consume_def delete_conv' split: option.splits if_splits)
  with nonces_okD(2) [OF assms this(2)]
  show "\<exists>t. last_about j (ops @ [Consume k now]) = Some (Issue j (nc_uid n) t) \<and> nc_expires n = t + NONCE_TTL_SECS"
    by (simp add: last_about_snoc)
qed

lemma nonce_run_ok: "nonces_ok ops (nonce_run ops)"
proof (induction ops rule: rev_induct)
  case Nil
  then show ?case by (simp add: nonce_run_def nonce_store_new_def nonces_ok_def)
next
  case (snoc x ops)
  then show ?case
    using nonces_ok_issue nonces_ok_consume by (cases x) (simp_all add: nonce_run_def)
qed

text \<open>While the clock does not run back, nothing that is still valid is dropped.\<close>

fun op_time :: "nonce_op \<Rightarrow> int" where
  "op_time (Issue _ _ t) = t"
| "op_time (Consume _ t) = t"

lemma nonce_step_keeps:
  assumes "distinct (map fst m)" "map_of m k = Some n" "op_nonce x \<noteq> k" "op_time x < nc_expires n"
  shows "map_of (nonce_step x m) k = Some n"
proof (cases x)
  case (Issue j uid now)
  have "map_of (filter (\<lambda>(_, n). nc_expires n > now) m) k = Some n"
    using assms map_of_filter_Some [OF assms(1)] by (simp add: Issue)
  with assms show ?thesis by (simp add: Issue nonce_issue_def Let_def update_conv')
next
  case (Consume j now)
  with assms show ?thesis by (simp add: nonce_consume_def delete_conv' split: option.split)
qed

lemma nonce_run_complete:
  assumes "list_all (\<lambda>x. op_time x < t + NONCE_TTL_SECS) ops" "last_about k ops = Some (Issue k uid t)"
  shows "map_of (nonce_run ops) k = Some \<lparr>nc_uid = uid, nc_expires = t + NONCE_TTL_SECS\<rparr>"
  using assms
proof (induction ops rule: rev_induct)
  case Nil
  then show ?case by (simp add: last_about_def)
next
  case (snoc x ops)
  have run: "nonce_run (ops @ [x]) = nonce_step x (nonce_run ops)" by (simp add: nonce_run_def)
  show ?case
  proof (cases "op_nonce x = k")
    case True
    with snoc.prems(2) show ?thesis
      unfolding run by (simp add: last_about_snoc nonce_issue_def Let_def update_conv')
  next
    case False
    with snoc show ?thesis
      unfolding run by (intro nonce_step_keeps) (simp_all add: last_about_snoc nonces_okD(1) [OF nonce_run_ok])
  qed
qed

text \<open>C12: An enrolment nonce is worth its user exactly once, within its ten minutes: after any
  history of the store, spending a nonce yields a user exactly when the latest call about it was its
  issue, for that user and less than the lifetime ago; a spent, expired or unknown nonce yields
  nothing.\<close>

theorem enrol_nonce_once:
  assumes "list_all (\<lambda>x. op_time x \<le> now) ops"
  shows "fst (nonce_consume k now (nonce_run ops)) = (case last_about k ops of
      Some (Issue _ uid t) \<Rightarrow> if now < t + NONCE_TTL_SECS then Some uid else None
    | _ \<Rightarrow> None)"
proof (cases "map_of (nonce_run ops) k")
  case (Some n)
  from nonces_okD(2) [OF nonce_run_ok Some] show ?thesis by (auto simp: nonce_consume_def Some)
next
  case None
  have "\<not> now < t + NONCE_TTL_SECS" if "last_about k ops = Some (Issue k uid t)" for uid t
    using nonce_run_complete [OF _ that] assms None by (fastforce simp: list_all_iff)
  moreover have "op_nonce x = k" if "last_about k ops = Some x" for x
    using that by (auto simp: last_about_def find_Some_iff)
  ultimately show ?thesis
    by (auto simp: nonce_consume_def None split: option.split nonce_op.split)
qed

theorem enrol_nonce_once_witness:
  "fst (nonce_consume [1] 700 (nonce_run [Issue [1] 1000 50, Issue [2] 0 60, Consume [1] 100])) = None \<and>
   fst (nonce_consume [2] 650 (nonce_run [Issue [1] 1000 50, Issue [2] 0 60, Consume [1] 100])) = Some 0"
  using enrol_nonce_once [of 700 "[Issue [1] 1000 50, Issue [2] 0 60, Consume [1] 100]" "[1]"]
    enrol_nonce_once [of 650 "[Issue [1] 1000 50, Issue [2] 0 60, Consume [1] 100]" "[2]"]
  by (simp add: last_about_def NONCE_TTL_SECS_def)

section \<open>Session tokens\<close>

datatype device_op =
    Register bool registration
  | Touched bool rstr u32 int
  | Issue_Token bool bytes u32 "rstr option" int
  | Touch_Token bool bytes int
  | Rotate_Token bool bool bytes "bytes option" u32 "rstr option" int
  | Revoke_Credential bool u32 rstr
  | Revoke_All bool u32
  | Revoke_Sessions bool u32

fun device_step :: "(bytes \<Rightarrow> rstr) \<Rightarrow> device_op \<Rightarrow> devices \<Rightarrow> devices" where
  "device_step hex (Register saved reg) d = snd (register saved reg d)"
| "device_step hex (Touched saved cid n now) d = snd (touched saved cid n now d)"
| "device_step hex (Issue_Token saved fresh uid cid now) d = snd (issue_token hex saved fresh uid cid now d)"
| "device_step hex (Touch_Token saved tok now) d = snd (touch_token hex saved tok now d)"
| "device_step hex (Rotate_Token s1 s2 fresh old uid cid now) d =
     snd (rotate_token hex s1 s2 fresh old uid cid now d)"
| "device_step hex (Revoke_Credential saved uid cid) d = snd (revoke_credential saved uid cid d)"
| "device_step hex (Revoke_All saved uid) d = snd (revoke_all saved uid d)"
| "device_step hex (Revoke_Sessions saved uid) d = snd (revoke_sessions saved uid d)"

text \<open>What a token is worth: its user, the passkey behind it, the last activity. The specification
  of the operations is on maps from tokens.\<close>

type_synonym grants = "bytes \<Rightarrow> (u32 \<times> rstr option \<times> int) option"

definition drop_grants :: "(u32 \<Rightarrow> rstr option \<Rightarrow> bool) \<Rightarrow> grants \<Rightarrow> grants" where
  "drop_grants P m = (\<lambda>k. case m k of None \<Rightarrow> None
     | Some (uid, cid, t) \<Rightarrow> if P uid cid then None else Some (uid, cid, t))"

fun grants_step :: "device_op \<Rightarrow> grants \<Rightarrow> grants" where
  "grants_step (Register _ _) m = m"
| "grants_step (Touched _ _ _ _) m = m"
| "grants_step (Issue_Token _ fresh uid cid now) m = m(fresh \<mapsto> (uid, cid, now))"
| "grants_step (Touch_Token _ tok now) m =
     (case m tok of None \<Rightarrow> m | Some (uid, cid, _) \<Rightarrow> m(tok \<mapsto> (uid, cid, now)))"
| "grants_step (Rotate_Token s1 _ fresh old uid cid now) m = (case old of
      None \<Rightarrow> m(fresh \<mapsto> (uid, cid, now))
    | Some t0 \<Rightarrow> if s1 then m(t0 := None, fresh \<mapsto> (uid, cid, now)) else m(t0 := None))"
| "grants_step (Revoke_Credential _ uid cid) m = drop_grants (\<lambda>u c. u = uid \<and> c = Some cid) m"
| "grants_step (Revoke_All _ uid) m = drop_grants (\<lambda>u _. u = uid) m"
| "grants_step (Revoke_Sessions _ uid) m = drop_grants (\<lambda>u _. u = uid) m"

text \<open>A fresh token is not in use.\<close>

fun fresh_for :: "grants \<Rightarrow> device_op \<Rightarrow> bool" where
  "fresh_for m (Issue_Token _ fresh _ _ _) \<longleftrightarrow> m fresh = None"
| "fresh_for m (Rotate_Token _ _ fresh _ _ _ _) \<longleftrightarrow> m fresh = None"
| "fresh_for m _ \<longleftrightarrow> True"

definition grant :: "session_token \<Rightarrow> u32 \<times> rstr option \<times> int" where
  "grant t = (sk_uid t, sk_credential_id t, sk_last_seen t)"

definition lookup :: "session_token list \<Rightarrow> rstr \<Rightarrow> (u32 \<times> rstr option \<times> int) option" where
  "lookup ts = map_of (map (\<lambda>t. (sk_token t, grant t)) ts)"

lemma lookup_None: "lookup ts s = None \<longleftrightarrow> s \<notin> sk_token ` set ts"
  by (simp add: lookup_def map_of_eq_None_iff image_image)

lemma lookup_snoc:
  "lookup ts (sk_token t) = None \<Longrightarrow> lookup (ts @ [t]) = (lookup ts)(sk_token t \<mapsto> grant t)"
  by (auto simp: lookup_def fun_eq_iff map_add_def split: option.split)

lemma lookup_filter_token: "lookup (filter (\<lambda>t. sk_token t \<noteq> s) ts) = (lookup ts)(s := None)"
  by (induction ts) (auto simp: lookup_def fun_eq_iff)

lemma lookup_filter:
  assumes "distinct (map sk_token ts)"
  shows "lookup (filter (\<lambda>t. \<not> P (sk_uid t) (sk_credential_id t)) ts) s =
    (case lookup ts s of None \<Rightarrow> None | Some (u, c, n) \<Rightarrow> if P u c then None else Some (u, c, n))"
  using assms
proof (induction ts)
  case (Cons t ts)
  then have "lookup ts (sk_token t) = None" by (simp add: lookup_None)
  with Cons show ?case by (auto simp: lookup_def grant_def map_of_eq_None_iff)
qed (simp add: lookup_def)

lemma lookup_update_first:
  "lookup (update_first (\<lambda>t. sk_token t = s) (\<lambda>t. t\<lparr>sk_last_seen := now\<rparr>) ts) =
    (case lookup ts s of None \<Rightarrow> lookup ts | Some (u, c, _) \<Rightarrow> (lookup ts)(s \<mapsto> (u, c, now)))"
  by (induction ts) (auto simp: lookup_def grant_def fun_eq_iff split: option.splits)

lemma tokens_update_first:
  "map sk_token (update_first P (\<lambda>t. t\<lparr>sk_last_seen := now\<rparr>) ts) = map sk_token ts"
  by (induction ts) simp_all

lemma find_lookup:
  "distinct (map sk_token ts) \<Longrightarrow>
   map_option sk_uid (List.find (\<lambda>t. sk_token t = s \<and> Q (sk_last_seen t)) ts) =
     (case lookup ts s of None \<Rightarrow> None | Some (u, _, n) \<Rightarrow> if Q n then Some u else None)"
proof (induction ts)
  case (Cons t ts)
  show ?case
  proof (cases "sk_token t = s")
    case True
    with Cons.prems have "List.find (\<lambda>t. sk_token t = s \<and> Q (sk_last_seen t)) ts = None"
      by (auto simp: find_None_iff) (metis image_eqI)
    with True show ?thesis by (simp add: lookup_def grant_def)
  next
    case False
    with Cons show ?thesis by (simp add: lookup_def)
  qed
qed (simp add: lookup_def)

text \<open>The store represents a map of grants.\<close>

definition represents :: "(bytes \<Rightarrow> rstr) \<Rightarrow> devices \<Rightarrow> grants \<Rightarrow> bool" where
  "represents hex d m \<longleftrightarrow> distinct (map sk_token (dv_tokens d)) \<and>
     (\<forall>k. lookup (dv_tokens d) (hex k) = m k)"

lemma representsD:
  "represents hex d m \<Longrightarrow> distinct (map sk_token (dv_tokens d))"
  "represents hex d m \<Longrightarrow> lookup (dv_tokens d) (hex k) = m k"
  by (simp_all add: represents_def)

lemma representsI:
  assumes "distinct (map sk_token (dv_tokens d))" "\<And>k. lookup (dv_tokens d) (hex k) = m k"
  shows "represents hex d m"
  using assms by (simp add: represents_def)

lemma represents_cong: "represents hex d m \<Longrightarrow> dv_tokens d' = dv_tokens d \<Longrightarrow> represents hex d' m"
  by (simp add: represents_def)

lemma represents_issue:
  assumes "inj hex" "represents hex d m" "m fresh = None"
  shows "represents hex (snd (issue_token hex saved fresh uid cid now d)) (m(fresh \<mapsto> (uid, cid, now)))"
proof -
  let ?t = "\<lparr>sk_token = hex fresh, sk_uid = uid, sk_credential_id = cid, sk_last_seen = now\<rparr>"
  have n: "lookup (dv_tokens d) (sk_token ?t) = None" using assms by (simp add: representsD(2))
  then have "distinct (map sk_token (dv_tokens d @ [?t]))"
    using representsD(1) [OF assms(2)] lookup_None [of "dv_tokens d" "hex fresh"] by simp
  moreover have "lookup (dv_tokens d @ [?t]) (hex k) = (m(fresh \<mapsto> (uid, cid, now))) k" for k
    unfolding lookup_snoc [OF n]
    using assms(1) by (simp add: representsD(2) [OF assms(2)] inj_eq grant_def)
  ultimately show ?thesis by (intro representsI) (simp_all add: issue_token_def)
qed

lemma represents_drop:
  assumes "represents hex d m"
    and "dv_tokens d' = filter (\<lambda>t. \<not> P (sk_uid t) (sk_credential_id t)) (dv_tokens d)"
  shows "represents hex d' (drop_grants P m)"
  by (rule representsI)
    (simp_all add: assms(2) lookup_filter representsD [OF assms(1)] drop_grants_def distinct_map_filter)

lemma represents_forget:
  assumes "inj hex" "represents hex d m"
  shows "represents hex (d\<lparr>dv_tokens := filter (\<lambda>t. sk_token t \<noteq> hex t0) (dv_tokens d)\<rparr>) (m(t0 := None))"
  by (rule representsI)
    (auto simp: lookup_filter_token representsD [OF assms(2)] inj_eq [OF assms(1)] distinct_map_filter)

lemma represents_touch:
  assumes "inj hex" "represents hex d m"
  shows "represents hex (snd (touch_token hex saved tok now d)) (grants_step (Touch_Token saved tok now) m)"
proof (cases "m tok")
  case None
  then have "lookup (dv_tokens d) (hex tok) = None" by (simp add: representsD(2) [OF assms(2)])
  then have "\<not> list_ex (\<lambda>t. sk_token t = hex tok) (dv_tokens d)"
    by (auto simp: lookup_None list_ex_iff) (metis image_eqI)
  with None assms(2) show ?thesis by (simp add: touch_token_def)
next
  case (Some v)
  obtain u c n where v: "v = (u, c, n)" by (metis prod_cases3)
  have l: "lookup (dv_tokens d) (hex tok) = Some (u, c, n)" by (simp add: representsD(2) [OF assms(2)] Some v)
  then have "list_ex (\<lambda>t. sk_token t = hex tok) (dv_tokens d)"
    using lookup_None [of "dv_tokens d" "hex tok"] by (auto simp: list_ex_iff)
  then have "snd (touch_token hex saved tok now d) = d\<lparr>dv_tokens := update_first (\<lambda>t. sk_token t = hex tok)
      (\<lambda>t. t\<lparr>sk_last_seen := now\<rparr>) (dv_tokens d)\<rparr>" by (simp add: touch_token_def)
  then show ?thesis
    by (intro representsI) (simp_all add: tokens_update_first lookup_update_first l Some v
        representsD [OF assms(2)] inj_eq [OF assms(1)])
qed

lemma represents_step:
  assumes "inj hex" "represents hex d m" "fresh_for m op"
  shows "represents hex (device_step hex op d) (grants_step op m)"
proof (cases op)
  case (Rotate_Token s1 s2 fresh old uid cid now)
  show ?thesis
  proof (cases old)
    case None
    with Rotate_Token represents_issue [OF assms(1,2)] assms(3) show ?thesis by (simp add: rotate_token_def)
  next
    case (Some t0)
    have "represents hex (d\<lparr>dv_tokens := filter (\<lambda>t. sk_token t \<noteq> hex t0) (dv_tokens d)\<rparr>) (m(t0 := None))"
      by (rule represents_forget [OF assms(1,2)])
    with represents_issue [OF assms(1) this] assms(3) Rotate_Token Some show ?thesis
      by (simp add: rotate_token_def persist_def Let_def)
  qed
next
  case (Revoke_Credential saved uid cid)
  then show ?thesis
    by (simp add: represents_drop [OF assms(2)] revoke_credential_def Let_def)
next
  case (Revoke_All saved uid)
  then show ?thesis by (simp add: represents_drop [OF assms(2)] revoke_all_def Let_def)
next
  case (Revoke_Sessions saved uid)
  then show ?thesis by (simp add: represents_drop [OF assms(2)] revoke_sessions_def Let_def)
qed (use assms represents_issue represents_touch represents_cong in \<open>auto simp: register_def touched_def\<close>)

definition device_run :: "(bytes \<Rightarrow> rstr) \<Rightarrow> device_op list \<Rightarrow> devices" where
  "device_run hex ops = fold (device_step hex) ops \<lparr>dv_registrations = [], dv_tokens = []\<rparr>"

definition grants_run :: "device_op list \<Rightarrow> grants" where
  "grants_run ops = fold grants_step ops Map.empty"

fun fresh_ops :: "device_op list \<Rightarrow> grants \<Rightarrow> bool" where
  "fresh_ops [] m = True"
| "fresh_ops (x # xs) m = (fresh_for m x \<and> fresh_ops xs (grants_step x m))"

lemma represents_fold:
  assumes "inj hex" "represents hex d m" "fresh_ops ops m"
  shows "represents hex (fold (device_step hex) ops d) (fold grants_step ops m)"
  using assms(2,3)
  by (induction ops arbitrary: d m) (simp_all add: represents_step [OF assms(1)])

text \<open>C6: The token table implements its specification: after any history of registrations, issues,
  rotations, activity and revocations, with fresh tokens that are not in use, a presented token
  authenticates a user exactly when the map of grants has it, for that user, with activity at most
  an hour ago.\<close>

theorem device_tokens_refine:
  assumes "inj hex" "fresh_ops ops Map.empty"
  shows "validate_token hex token now (device_run hex ops) = (case grants_run ops token of
      Some (uid, _, seen) \<Rightarrow> if now - seen \<le> SESSION_IDLE_SECS then Some uid else None
    | None \<Rightarrow> None)"
proof -
  have "represents hex \<lparr>dv_registrations = [], dv_tokens = []\<rparr> Map.empty"
    by (simp add: represents_def lookup_def)
  from represents_fold [OF assms(1) this assms(2)]
  have "represents hex (device_run hex ops) (grants_run ops)" by (simp add: device_run_def grants_run_def)
  note r = representsD [OF this]
  show ?thesis
    using find_lookup [OF r(1), of "hex token" "\<lambda>s. now - s \<le> SESSION_IDLE_SECS"]
    by (auto simp: validate_token_def r(2) split: option.split)
qed

lemma hex_laws_inj: "hex_laws enc dec \<Longrightarrow> inj enc"
  by (rule inj_on_inverseI [where g = "the \<circ> dec"]) (simp add: hex_laws_def)

theorem device_tokens_refine_witness:
  "validate_token hex_enc_ex [2] 4000
     (device_run hex_enc_ex [Issue_Token True [1] 7 None 10, Rotate_Token True True [2] (Some [1]) 7 None 500]) = Some 7"
  using device_tokens_refine [OF hex_laws_inj [OF hex_ex_laws],
      of "[Issue_Token True [1] 7 None 10, Rotate_Token True True [2] (Some [1]) 7 None 500]" "[2]" 4000]
  by (simp add: grants_run_def SESSION_IDLE_SECS_def)

section \<open>Revocation\<close>

text \<open>The operations that give a user something.\<close>

fun gives :: "u32 \<Rightarrow> device_op \<Rightarrow> bool" where
  "gives uid (Register _ reg) \<longleftrightarrow> rg_uid reg = uid"
| "gives uid (Issue_Token _ _ u _ _) \<longleftrightarrow> u = uid"
| "gives uid (Rotate_Token _ _ _ _ u _ _) \<longleftrightarrow> u = uid"
| "gives uid _ \<longleftrightarrow> False"

definition nothing_for :: "u32 \<Rightarrow> devices \<Rightarrow> bool" where
  "nothing_for uid d \<longleftrightarrow> list_all (\<lambda>r. rg_uid r \<noteq> uid) (dv_registrations d) \<and>
     list_all (\<lambda>t. sk_uid t \<noteq> uid) (dv_tokens d)"

lemma update_first_all:
  "list_all P xs \<Longrightarrow> (\<And>x. P x \<Longrightarrow> P (f x)) \<Longrightarrow> list_all P (update_first Q f xs)"
  by (induction xs) auto

lemma list_all_filtered: "list_all P xs \<Longrightarrow> list_all P (filter Q xs)"
  by (simp add: list_all_iff)

lemma nothing_for_step:
  assumes "nothing_for uid d" "\<not> gives uid op"
  shows "nothing_for uid (device_step hex op d)"
  using assms
  by (cases op) (auto simp: nothing_for_def register_def touched_def issue_token_def touch_token_def
      rotate_token_def persist_def revoke_credential_def revoke_all_def revoke_sessions_def Let_def
      intro!: update_first_all list_all_filtered split: option.split)

lemma nothing_for_run:
  assumes "nothing_for uid d" "list_all (\<lambda>x. \<not> gives uid x) ops"
  shows "nothing_for uid (fold (device_step hex) ops d)"
  using assms by (induction ops arbitrary: d) (auto intro: nothing_for_step)

text \<open>Revoking everything of a user is final: whatever the store held, and whatever is done for
  other users or revoked afterwards, no token authenticates that user and none of their passkeys is
  found, until something is registered or issued for them again.\<close>

theorem revocation_final:
  assumes "list_all (\<lambda>x. \<not> gives uid x) ops"
  shows "validate_token hex token now (fold (device_step hex) (Revoke_All saved uid # ops) d) \<noteq> Some uid \<and>
    registrations uid (fold (device_step hex) (Revoke_All saved uid # ops) d) = [] \<and>
    map_option rg_uid (find_credential cid (fold (device_step hex) (Revoke_All saved uid # ops) d)) \<noteq> Some uid"
proof -
  have "nothing_for uid (device_step hex (Revoke_All saved uid) d)"
    by (simp add: nothing_for_def revoke_all_def Let_def list_all_iff)
  from nothing_for_run [OF this assms]
  have "nothing_for uid (fold (device_step hex) (Revoke_All saved uid # ops) d)" by simp
  then show ?thesis
    by (auto simp: nothing_for_def validate_token_def registrations_def find_credential_def list_all_iff
        filter_empty_conv find_Some_iff)
qed

theorem revocation_final_witness:
  "validate_token hex_enc_ex [1] 20 (fold (device_step hex_enc_ex)
     (Revoke_All True 7 # [Touch_Token True [1] 15, Issue_Token True [3] 8 None 16])
     (device_run hex_enc_ex [Issue_Token True [1] 7 None 10])) \<noteq> Some 7"
  using revocation_final [of 7 "[Touch_Token True [1] 15, Issue_Token True [3] 8 None 16]" hex_enc_ex "[1]" 20 True
      "device_run hex_enc_ex [Issue_Token True [1] 7 None 10]" "[]"] by simp

lemma find_snoc: "List.find P xs = None \<Longrightarrow> List.find P (xs @ [y]) = (if P y then Some y else None)"
  by (induction xs) (auto split: if_splits)

text \<open>Revoking one passkey drops the tokens that were issued for it, but not a token rotated without
  naming the passkey, as the reconnect path of the browser handshake does: it stays valid.\<close>

lemma rotated_token_outlives_credential:
  assumes "hex fresh \<notin> sk_token ` set (dv_tokens d)" "now' - now \<le> SESSION_IDLE_SECS"
  shows "validate_token hex fresh now' (snd (revoke_credential saved uid cid
    (snd (rotate_token hex True True fresh (Some old) uid None now d)))) = Some uid"
proof -
  let ?new = "\<lparr>sk_token = hex fresh, sk_uid = uid, sk_credential_id = None, sk_last_seen = now\<rparr>"
  let ?ts = "filter (\<lambda>t. \<not> (sk_uid t = uid \<and> sk_credential_id t = Some cid))
    (filter (\<lambda>t. sk_token t \<noteq> hex old) (dv_tokens d))"
  have "List.find (\<lambda>t. sk_token t = hex fresh \<and> now' - sk_last_seen t \<le> SESSION_IDLE_SECS) ?ts = None"
    using assms(1) by (auto simp: find_None_iff image_iff)
  then have "List.find (\<lambda>t. sk_token t = hex fresh \<and> now' - sk_last_seen t \<le> SESSION_IDLE_SECS) (?ts @ [?new])
      = Some ?new"
    using assms(2) by (simp add: find_snoc)
  then show ?thesis
    by (simp add: validate_token_def revoke_credential_def rotate_token_def persist_def issue_token_def Let_def)
qed

text \<open>\<open>register\<close> replaces by credential id alone: a registration of another user under the same id is lost.\<close>

lemma register_displaces:
  "find_credential (rg_credential_id reg) (snd (register saved reg d)) = Some reg"
proof -
  have "List.find (\<lambda>r. rg_credential_id r = rg_credential_id reg)
      (filter (\<lambda>r. rg_credential_id r \<noteq> rg_credential_id reg) (dv_registrations d)) = None"
    by (simp add: find_None_iff)
  from find_snoc [OF this] show ?thesis by (simp add: find_credential_def register_def)
qed

end
