(* ===== verification/Helper.thy ===== *)
theory Helper
  imports Session Devices
begin

text \<open>
  The daemon and the requests of its local helper socket (\<open>crates/quosh-server/src/helper.rs\<close>):
  the registry of sessions with its limits, the operations of \<open>dispatch\<close> and the reader of the
  request line. The registry is an association list; a \<open>HashMap\<close> has no order, the model's lists
  come in the order of insertion. Random values, the clock, the outcome of starting the shell, the
  password database and the certificate hash are arguments; JSON is not modelled.
\<close>

section \<open>The daemon\<close>

definition MAX_HELPER_BYTES :: nat where "MAX_HELPER_BYTES = 4096"
definition MAX_SESSIONS :: nat where "MAX_SESSIONS = 128"
definition MAX_PER_UID :: nat where "MAX_PER_UID = 32"

record daemon =
  dm_sessions :: "(bytes \<times> session) list"
  dm_devices :: devices
  dm_nonces :: nonce_store
  dm_port :: u16
  dm_rp_id :: rstr
  dm_origin :: rstr

text \<open>What the daemon's code gets from outside: the \<open>hex\<close> crate, the bound on cells, the password
  database.\<close>

record host =
  ho_hex :: "bytes \<Rightarrow> rstr"
  ho_max_cells :: nat
  ho_unix_name :: "u32 \<Rightarrow> rstr option"

section \<open>Requests and answers\<close>

record helper_request =
  hr_op :: rstr
  hr_cols :: u16
  hr_rows :: u16
  hr_kill_idle :: bool
  hr_credential :: "rstr option"
  hr_all :: bool
  hr_sessions :: bool

record idle_info =
  ii_id :: rstr
  ii_idle_secs :: nat

record device_info =
  di_credential :: rstr
  di_user :: rstr
  di_created :: int
  di_last_used :: "int option"

record session_info =
  si_token :: rstr
  si_last_seen :: int

record helper_response =
  hs_ok :: bool
  hs_error :: "rstr option"
  hs_session_id :: "rstr option"
  hs_token :: "rstr option"
  hs_port :: "u16 option"
  hs_cert_sha256 :: "rstr option"
  hs_idle :: "idle_info list"
  hs_nonce :: "rstr option"
  hs_user :: "rstr option"
  hs_devices :: "device_info list"
  hs_sessions :: "session_info list"
  hs_revoked :: "nat option"

definition response_default :: helper_response where
  "response_default = \<lparr>hs_ok = False, hs_error = None, hs_session_id = None, hs_token = None, hs_port = None,
     hs_cert_sha256 = None, hs_idle = [], hs_nonce = None, hs_user = None, hs_devices = [], hs_sessions = [],
     hs_revoked = None\<rparr>"

definition fail :: "rstr \<Rightarrow> helper_response" where
  "fail msg = response_default\<lparr>hs_error := Some msg\<rparr>"

section \<open>Sessions\<close>

text \<open>\<open>spawned\<close> is the error of starting the shell, if it fails.\<close>

definition dims_message :: "dims_error \<Rightarrow> rstr" where
  "dims_message e = (case e of TooSmall \<Rightarrow> lit ''terminal too small'' | DimsTooLarge \<Rightarrow> lit ''terminal too large'')"

definition spawn_session ::
  "host \<Rightarrow> bytes \<Rightarrow> bytes \<Rightarrow> rstr option \<Rightarrow> nat \<Rightarrow> u32 \<Rightarrow> u16 \<Rightarrow> u16 \<Rightarrow> daemon \<Rightarrow>
   (rstr + bytes \<times> bytes) \<times> daemon" where
  "spawn_session H sid token spawned now_ms uid cols rows d =
     (case validate_dims (ho_max_cells H) cols rows of Inl e \<Rightarrow> (Inl (dims_message e), d)
      | Inr (cols, rows) \<Rightarrow>
         if length (dm_sessions d) \<ge> MAX_SESSIONS then (Inl (lit ''too many sessions''), d)
         else if length (filter (\<lambda>(_, s). se_uid s = uid) (dm_sessions d)) \<ge> MAX_PER_UID
         then (Inl (lit ''too many sessions for user''), d)
         else (case spawned of Some e \<Rightarrow> (Inl e, d)
           | None \<Rightarrow> (Inr (sid, token), d\<lparr>dm_sessions :=
               AList.update sid (session_new sid token uid cols rows now_ms) (dm_sessions d)\<rparr>)))"

text \<open>The owner takes its session out of the registry when it ends.\<close>

definition registry_remove :: "bytes \<Rightarrow> daemon \<Rightarrow> daemon" where
  "registry_remove sid d = d\<lparr>dm_sessions := AList.delete sid (dm_sessions d)\<rparr>"

text \<open>\<open>destroy\<close>: the registry without the session, and the session after the hang-up request.\<close>

definition destroy :: "bytes \<Rightarrow> daemon \<Rightarrow> session option \<times> daemon" where
  "destroy sid d = (map_option session_request_hangup (map_of (dm_sessions d) sid), registry_remove sid d)"

definition is_idle :: "u32 \<Rightarrow> nat \<Rightarrow> session \<Rightarrow> bool" where
  "is_idle uid now_ms s \<longleftrightarrow> se_uid s = uid \<and>
     (case detached_secs now_ms s of None \<Rightarrow> False | Some secs \<Rightarrow> secs \<ge> IDLE_SECS)"

definition collect_idle :: "host \<Rightarrow> u32 \<Rightarrow> nat \<Rightarrow> daemon \<Rightarrow> idle_info list" where
  "collect_idle H uid now_ms d = map (\<lambda>(sid, s). \<lparr>ii_id = ho_hex H sid, ii_idle_secs = the (detached_secs now_ms s)\<rparr>)
     (filter (\<lambda>(_, s). is_idle uid now_ms s) (dm_sessions d))"

text \<open>The idle sessions of a user are dropped and asked to hang up: the registry that is left, and the
  dropped sessions after the request.\<close>

definition kill_idle :: "u32 \<Rightarrow> nat \<Rightarrow> daemon \<Rightarrow> (bytes \<times> session) list \<times> daemon" where
  "kill_idle uid now_ms d =
     (map (\<lambda>(sid, s). (sid, session_request_hangup s)) (filter (\<lambda>(_, s). is_idle uid now_ms s) (dm_sessions d)),
      d\<lparr>dm_sessions := filter (\<lambda>(_, s). \<not> is_idle uid now_ms s) (dm_sessions d)\<rparr>)"

definition create_session ::
  "host \<Rightarrow> bytes \<Rightarrow> bytes \<Rightarrow> rstr option \<Rightarrow> nat \<Rightarrow> u32 \<Rightarrow> helper_request \<Rightarrow> helper_response \<Rightarrow> daemon \<Rightarrow>
   helper_response \<times> daemon" where
  "create_session H sid token spawned now_ms uid req resp d =
     (let cols = (if hr_cols req = 0 then 80 else hr_cols req);
          rows = (if hr_rows req = 0 then 24 else hr_rows req);
          idle = collect_idle H uid now_ms d;
          d = (if hr_kill_idle req then snd (kill_idle uid now_ms d) else d) in
      case spawn_session H sid token spawned now_ms uid cols rows d of
        (Inr (sid, token), d) \<Rightarrow>
          (resp\<lparr>hs_session_id := Some (ho_hex H sid), hs_token := Some (ho_hex H token), hs_idle := idle\<rparr>, d)
      | (Inl e, d) \<Rightarrow> ((fail e)\<lparr>hs_idle := idle\<rparr>, d))"

section \<open>Devices\<close>

definition enroll_nonce :: "host \<Rightarrow> bytes \<Rightarrow> int \<Rightarrow> u32 \<Rightarrow> helper_response \<Rightarrow> daemon \<Rightarrow> helper_response \<times> daemon" where
  "enroll_nonce H fresh now uid resp d =
     (let (nonce, m) = nonce_issue fresh uid now (dm_nonces d) in
      (resp\<lparr>hs_nonce := Some (ho_hex H nonce), hs_user := ho_unix_name H uid\<rparr>, d\<lparr>dm_nonces := m\<rparr>))"

definition list_devices :: "u32 \<Rightarrow> helper_response \<Rightarrow> daemon \<Rightarrow> helper_response" where
  "list_devices uid resp d = resp\<lparr>
     hs_devices := map (\<lambda>r. \<lparr>di_credential = rg_credential_id r, di_user = rg_user_name r,
       di_created = rg_created r, di_last_used = rg_last_used r\<rparr>) (registrations uid (dm_devices d)),
     hs_sessions := map (\<lambda>(t, seen). \<lparr>si_token = t, si_last_seen = seen\<rparr>) (tokens uid (dm_devices d))\<rparr>"

definition starts_with :: "rstr \<Rightarrow> rstr \<Rightarrow> bool" where
  "starts_with s p \<longleftrightarrow> take (length p) s = p"

definition resolve_credential :: "u32 \<Rightarrow> rstr \<Rightarrow> devices \<Rightarrow> rstr + rstr" where
  "resolve_credential uid p d =
     (case filter (\<lambda>r. starts_with (rg_credential_id r) p) (registrations uid d) of
        [] \<Rightarrow> Inl (lit ''no credential matching '' @ p)
      | [r] \<Rightarrow> Inr (rg_credential_id r)
      | rs \<Rightarrow> Inl (dec_digits (length rs) @ lit '' credentials match '' @ p @ lit ''; be more specific''))"

text \<open>\<open>show\<close> is the display text of a storage error.\<close>

definition revoke ::
  "(store_error \<Rightarrow> rstr) \<Rightarrow> bool \<Rightarrow> u32 \<Rightarrow> helper_request \<Rightarrow> helper_response \<Rightarrow> daemon \<Rightarrow> helper_response \<times> daemon"
where
  "revoke show_error saved uid req resp d =
     (let answer = (\<lambda>(r, dv). (case r of Inr n \<Rightarrow> resp\<lparr>hs_revoked := Some n\<rparr>
            | Inl e \<Rightarrow> fail (lit ''revoke: '' @ show_error e), d\<lparr>dm_devices := dv\<rparr>)) in
      if hr_all req then answer (revoke_all saved uid (dm_devices d))
      else if hr_sessions req then answer (revoke_sessions saved uid (dm_devices d))
      else case hr_credential req of
        Some p \<Rightarrow> (case resolve_credential uid p (dm_devices d) of
            Inr cid \<Rightarrow> answer (apfst (\<lambda>r. res_bind r (\<lambda>ok. Inr (if ok then 1 else 0)))
              (revoke_credential saved uid cid (dm_devices d)))
          | Inl e \<Rightarrow> (fail e, d))
      | None \<Rightarrow> (fail (lit ''revoke needs a credential, --all, or --sessions''), d))"

section \<open>Dispatch\<close>

text \<open>What one request draws from outside: random values, clocks and outcomes.\<close>

record helper_draw =
  hd_cert :: "rstr + bytes"
  hd_sid :: bytes
  hd_token :: bytes
  hd_nonce :: bytes
  hd_spawned :: "rstr option"
  hd_saved :: bool
  hd_now :: int
  hd_now_ms :: nat

definition dispatch ::
  "host \<Rightarrow> (store_error \<Rightarrow> rstr) \<Rightarrow> helper_draw \<Rightarrow> u32 \<Rightarrow> helper_request \<Rightarrow> daemon \<Rightarrow> helper_response \<times> daemon" where
  "dispatch H show_error x uid req d = (case hd_cert x of
      Inl e \<Rightarrow> (fail (lit ''certificate: '' @ e), d)
    | Inr h \<Rightarrow>
       (let base = response_default\<lparr>hs_ok := True, hs_port := Some (dm_port d), hs_cert_sha256 := Some (ho_hex H h)\<rparr>;
            op = hr_op req in
        if op = lit ''idle'' then (base\<lparr>hs_idle := collect_idle H uid (hd_now_ms x) d\<rparr>, d)
        else if op = lit ''ping'' then (base, d)
        else if op = lit ''create'' then
          create_session H (hd_sid x) (hd_token x) (hd_spawned x) (hd_now_ms x) uid req base d
        else if op = lit ''enroll-nonce'' then enroll_nonce H (hd_nonce x) (hd_now x) uid base d
        else if op = lit ''devices'' then (list_devices uid base d, d)
        else if op = lit ''revoke'' then revoke show_error (hd_saved x) uid req base d
        else (fail (lit ''unknown op '' @ op), d)))"

section \<open>The request line\<close>

datatype line_error = Request_Too_Large | Request_Timeout | Read_Error

text \<open>What a read gives; the deadline is one of the outcomes. A read asks for at most 256 bytes.\<close>

datatype line_read = Read_Bytes bytes | Deadline | Read_Failure

fun read_request_line :: "nat \<Rightarrow> line_read list \<Rightarrow> bytes \<Rightarrow> line_error + bytes" where
  "read_request_line mx reads acc =
     (if 10 \<in> set acc then Inr (takeWhile (\<lambda>b. b \<noteq> 10) acc)
      else if length acc \<ge> mx then Inl Request_Too_Large
      else case reads of [] \<Rightarrow> Inl Request_Timeout
        | Deadline # _ \<Rightarrow> Inl Request_Timeout
        | Read_Failure # _ \<Rightarrow> Inl Read_Error
        | Read_Bytes bs # rs \<Rightarrow>
            if bs = [] then Inr acc
            else (let n = min (length bs) (mx - length acc); acc = acc @ take n bs in
              if n < length bs \<and> 10 \<notin> set acc then Inl Request_Too_Large
              else read_request_line mx rs acc))"

declare read_request_line.simps [simp del]

end
