(* ===== verification/Cbor.thy ===== *)
theory Cbor
  imports Utf8
begin

text \<open>
  The CBOR reader of \<open>crates/quosh-server/src/webauthn.rs\<close>. \<open>read_cbor\<close> and its two loops are
  mutually recursive, and the loops go on with what the recursive call left: that they terminate
  needs that an item takes at least one byte, which is proved on the domain of the definition first.
  An \<open>i64\<close> is a 64-bit word, read as signed.
\<close>

unbundle bit_operations_syntax

section \<open>The reader\<close>

datatype cbor_error = Cbor_Empty | Cbor_Short | Reserved_Info byte | Cbor_Utf8

datatype cbor =
    Uint u64
  | Nint u64
  | Bytes bytes
  | Text rstr
  | Array "cbor list"
  | Map "(cbor \<times> cbor) list"
  | Bool bool
  | Null
  | Other

definition read_len :: "byte \<Rightarrow> bytes \<Rightarrow> cbor_error + u64 \<times> bytes" where
  "read_len info buf =
     (let uint = (\<lambda>n. if length buf < n then Inl Cbor_Short
                      else Inr (of_nat (be_val (take n buf)), drop n buf)) in
      if info \<le> 23 then Inr (ucast info, buf)
      else if info = 24 then uint 1
      else if info = 25 then uint 2
      else if info = 26 then uint 4
      else if info = 27 then uint 8
      else Inl (Reserved_Info info))"

definition simple_value :: "byte \<Rightarrow> cbor" where
  "simple_value info = (if info = 20 then Bool False else if info = 21 then Bool True
     else if info = 22 \<or> info = 23 then Null else Other)"

text \<open>The initial byte with its argument, and the items that hold no others.\<close>

definition read_head :: "bytes \<Rightarrow> cbor_error + byte \<times> byte \<times> u64 \<times> bytes" where
  "read_head buf = (case buf of [] \<Rightarrow> Inl Cbor_Empty
     | first # rest \<Rightarrow> (case read_len (first AND 0x1F) rest of Inl e \<Rightarrow> Inl e
         | Inr (val, rest) \<Rightarrow> Inr (drop_bit 5 first, first AND 0x1F, val, rest)))"

definition read_atom :: "byte \<Rightarrow> byte \<Rightarrow> u64 \<Rightarrow> bytes \<Rightarrow> cbor_error + cbor \<times> bytes" where
  "read_atom major info val rest =
     (if major = 0 then Inr (Uint val, rest)
      else if major = 1 then Inr (Nint (- 1 - val), rest)
      else if major = 2 then
        (if length rest < unat val then Inl Cbor_Short
         else Inr (Bytes (take (unat val) rest), drop (unat val) rest))
      else if major = 3 then
        (if length rest < unat val then Inl Cbor_Short
         else if \<not> utf8_valid (take (unat val) rest) then Inl Cbor_Utf8
         else Inr (Text (take (unat val) rest), drop (unat val) rest))
      else Inr (simple_value info, rest))"

function read_cbor :: "bytes \<Rightarrow> cbor_error + cbor \<times> bytes"
  and read_items :: "nat \<Rightarrow> bytes \<Rightarrow> cbor_error + cbor list \<times> bytes"
  and read_pairs :: "nat \<Rightarrow> bytes \<Rightarrow> cbor_error + (cbor \<times> cbor) list \<times> bytes"
where
  "read_cbor buf = (case read_head buf of Inl e \<Rightarrow> Inl e
     | Inr (major, info, val, rest) \<Rightarrow>
         if major = 4 then
           (case read_items (unat val) rest of Inl e \<Rightarrow> Inl e | Inr (xs, r) \<Rightarrow> Inr (Array xs, r))
         else if major = 5 then
           (case read_pairs (unat val) rest of Inl e \<Rightarrow> Inl e | Inr (xs, r) \<Rightarrow> Inr (Map xs, r))
         else if major = 6 then
           (case read_cbor rest of Inl e \<Rightarrow> Inl e | Inr (_, r) \<Rightarrow> Inr (Other, r))
         else read_atom major info val rest)"
| "read_items n buf = (if n = 0 then Inr ([], buf)
     else case read_cbor buf of Inl e \<Rightarrow> Inl e
       | Inr (x, r) \<Rightarrow> (case read_items (n - 1) r of Inl e \<Rightarrow> Inl e | Inr (xs, r) \<Rightarrow> Inr (x # xs, r)))"
| "read_pairs n buf = (if n = 0 then Inr ([], buf)
     else case read_cbor buf of Inl e \<Rightarrow> Inl e
       | Inr (k, r) \<Rightarrow> (case read_cbor r of Inl e \<Rightarrow> Inl e
         | Inr (v, r) \<Rightarrow> (case read_pairs (n - 1) r of Inl e \<Rightarrow> Inl e
           | Inr (xs, r) \<Rightarrow> Inr ((k, v) # xs, r))))"
  by pat_completeness auto

lemma read_head_shrinks: "read_head buf = Inr (m, i, v, r) \<Longrightarrow> length r < length buf"
  by (auto simp: read_head_def read_len_def Let_def split: if_splits list.splits sum.splits)

lemma read_atom_shrinks: "read_atom m i v buf = Inr (x, r) \<Longrightarrow> length r \<le> length buf"
  by (auto simp: read_atom_def split: if_splits)

text \<open>Where it returns, an item is at least a byte, and the items of a loop are at least a byte each.\<close>

definition item_consumes :: "bytes \<Rightarrow> cbor_error + cbor \<times> bytes \<Rightarrow> bool" where
  "item_consumes buf res \<longleftrightarrow> (case res of Inl _ \<Rightarrow> True | Inr (_, r) \<Rightarrow> length r < length buf)"

definition items_consume :: "nat \<Rightarrow> nat \<Rightarrow> bytes \<Rightarrow> cbor_error + 'a list \<times> bytes \<Rightarrow> bool" where
  "items_consume k n buf res \<longleftrightarrow> (case res of Inl _ \<Rightarrow> True
     | Inr (xs, r) \<Rightarrow> length xs = n \<and> length r + k * n \<le> length buf)"

lemma read_consumes:
  "read_cbor_read_items_read_pairs_dom (Inl buf) \<Longrightarrow> item_consumes buf (read_cbor buf)"
  "read_cbor_read_items_read_pairs_dom (Inr (Inl (n, buf))) \<Longrightarrow> items_consume 1 n buf (read_items n buf)"
  "read_cbor_read_items_read_pairs_dom (Inr (Inr (n, buf))) \<Longrightarrow> items_consume 2 n buf (read_pairs n buf)"
proof (induction rule: read_cbor_read_items_read_pairs.pinduct)
  case (1 buf)
  show ?case
  proof (cases "read_head buf")
    case (Inl e)
    with 1(1) show ?thesis by (simp add: read_cbor.psimps item_consumes_def)
  next
    case (Inr h)
    obtain m i v r where h: "h = (m, i, v, r)" by (metis prod_cases4)
    have less: "length r < length buf" using Inr h read_head_shrinks by simp
    have "m = 4 \<Longrightarrow> items_consume 1 (unat v) r (read_items (unat v) r)"
      "m = 5 \<Longrightarrow> items_consume 2 (unat v) r (read_pairs (unat v) r)"
      "m = 6 \<Longrightarrow> item_consumes r (read_cbor r)"
      using 1(2-4) Inr h by auto
    with 1(1) less show ?thesis
      by (auto simp: read_cbor.psimps Inr h item_consumes_def items_consume_def split: sum.split
          dest!: read_atom_shrinks)
  qed
next
  case (2 n buf)
  show ?case
  proof (cases "n = 0 \<or> (\<exists>e. read_cbor buf = Inl e)")
    case True
    with 2(1) show ?thesis by (auto simp: read_items.psimps items_consume_def)
  next
    case False
    then obtain x r where r: "read_cbor buf = Inr (x, r)" "n \<noteq> 0" by (metis obj_sumE surj_pair)
    have "item_consumes buf (read_cbor buf)" "items_consume 1 (n - 1) r (read_items (n - 1) r)"
      using 2(2,3) r by auto
    with 2(1) r show ?thesis
      by (auto simp: read_items.psimps items_consume_def item_consumes_def split: sum.split)
  qed
next
  case (3 n buf)
  show ?case
  proof (cases "n = 0 \<or> (\<exists>e. read_cbor buf = Inl e) \<or> (\<exists>x r e. read_cbor buf = Inr (x, r) \<and> read_cbor r = Inl e)")
    case True
    with 3(1) show ?thesis by (auto simp: read_pairs.psimps items_consume_def)
  next
    case False
    then obtain x r y r' where r: "read_cbor buf = Inr (x, r)" "read_cbor r = Inr (y, r')" "n \<noteq> 0"
      by (metis obj_sumE surj_pair)
    have "item_consumes buf (read_cbor buf)" "item_consumes r (read_cbor r)"
      "items_consume 2 (n - 1) r' (read_pairs (n - 1) r')"
      using 3(2-4) r by auto
    with 3(1) r show ?thesis
      by (auto simp: read_pairs.psimps items_consume_def item_consumes_def split: sum.split)
  qed
qed

lemma read_shrinks:
  "read_cbor_read_items_read_pairs_dom (Inl buf) \<Longrightarrow> read_cbor buf = Inr (x, r) \<Longrightarrow> length r < length buf"
  using read_consumes(1) by (fastforce simp: item_consumes_def)

termination read_cbor
  by (relation "measure (\<lambda>x. case x of Inl buf \<Rightarrow> 2 * length buf | Inr (Inl (n, buf)) \<Rightarrow> 2 * length buf + 1
      | Inr (Inr (n, buf)) \<Rightarrow> 2 * length buf + 1)") (auto dest!: read_shrinks read_head_shrinks)

declare read_cbor.simps [simp del] read_items.simps [simp del] read_pairs.simps [simp del]

section \<open>Nesting\<close>

text \<open>The recursion of the reader is as deep as the document nests, and nothing bounds the nesting but
  the length of the document: every further byte \<open>0x81\<close> is one more level.\<close>

lemma read_nested_arrays:
  "read_cbor (replicate n 0x81 @ 0 # rest) = Inr (((\<lambda>c. Array [c]) ^^ n) (Uint 0), rest)"
proof (induction n)
  case 0
  show ?case
    by (subst read_cbor.simps) (simp add: read_head_def read_len_def Let_def read_atom_def)
next
  case (Suc n)
  have h: "read_head (0x81 # bs) = Inr (4, 1, 1, bs)" for bs
    by (simp add: read_head_def read_len_def Let_def drop_bit_eq_div)
  show ?case
    by (subst read_cbor.simps) (simp add: h Suc read_items.simps [of "Suc 0"] read_items.simps [of 0])
qed

section \<open>Canonical encodings\<close>

text \<open>The shortest form of an initial byte and its argument, and the encoding of a document (RFC
  8949). A document of the reader's subset has valid text and counts below \<open>2 ^ 64\<close>.\<close>

definition be_bytes :: "nat \<Rightarrow> nat \<Rightarrow> bytes" where
  "be_bytes k n = rev (le_bytes k n)"

definition cbor_head :: "nat \<Rightarrow> nat \<Rightarrow> bytes" where
  "cbor_head major n =
     (if n < 24 then [of_nat (32 * major + n)]
      else if n < 2 ^ 8 then of_nat (32 * major + 24) # be_bytes 1 n
      else if n < 2 ^ 16 then of_nat (32 * major + 25) # be_bytes 2 n
      else if n < 2 ^ 32 then of_nat (32 * major + 26) # be_bytes 4 n
      else of_nat (32 * major + 27) # be_bytes 8 n)"

fun cbor_encode :: "cbor \<Rightarrow> bytes" where
  "cbor_encode (Uint v) = cbor_head 0 (unat v)"
| "cbor_encode (Nint v) = cbor_head 1 (unat (- 1 - v))"
| "cbor_encode (Bytes b) = cbor_head 2 (length b) @ b"
| "cbor_encode (Text s) = cbor_head 3 (length s) @ s"
| "cbor_encode (Array xs) = cbor_head 4 (length xs) @ concat (map cbor_encode xs)"
| "cbor_encode (Map ps) = cbor_head 5 (length ps) @ concat (map (\<lambda>(k, v). cbor_encode k @ cbor_encode v) ps)"
| "cbor_encode (Bool b) = cbor_head 7 (if b then 21 else 20)"
| "cbor_encode Null = cbor_head 7 22"
| "cbor_encode Other = []"

fun cbor_wf :: "cbor \<Rightarrow> bool" where
  "cbor_wf (Uint v) \<longleftrightarrow> True"
| "cbor_wf (Nint v) \<longleftrightarrow> True"
| "cbor_wf (Bytes b) \<longleftrightarrow> length b < 2 ^ 64"
| "cbor_wf (Text s) \<longleftrightarrow> length s < 2 ^ 64 \<and> utf8_valid s"
| "cbor_wf (Array xs) \<longleftrightarrow> length xs < 2 ^ 64 \<and> list_all cbor_wf xs"
| "cbor_wf (Map ps) \<longleftrightarrow> length ps < 2 ^ 64 \<and> list_all (\<lambda>(k, v). cbor_wf k \<and> cbor_wf v) ps"
| "cbor_wf (Bool b) \<longleftrightarrow> True"
| "cbor_wf Null \<longleftrightarrow> True"
| "cbor_wf Other \<longleftrightarrow> False"

lemma be_val_be_bytes: "n < 256 ^ k \<Longrightarrow> be_val (be_bytes k n) = n"
  by (simp add: be_val_def be_bytes_def le_val_le_bytes_small)

lemma length_be_bytes [simp]: "length (be_bytes k n) = k"
  by (simp add: be_bytes_def)

lemma initial_byte:
  assumes "major < 8" "info < 32"
  shows "drop_bit 5 (of_nat (32 * major + info) :: byte) = of_nat major"
    and "(of_nat (32 * major + info) :: byte) AND 0x1F = of_nat info"
proof -
  have u: "unat (of_nat (32 * major + info) :: byte) = 32 * major + info"
    using assms by (intro unat_of_nat_small) simp
  have "unat (drop_bit 5 (of_nat (32 * major + info) :: byte)) = major"
    unfolding unat_drop_bit_eq u using assms(2) by (simp add: drop_bit_eq_div)
  moreover have "unat (of_nat major :: byte) = major" using assms by (intro unat_of_nat_small) simp
  ultimately show "drop_bit 5 (of_nat (32 * major + info) :: byte) = of_nat major"
    by (simp add: word_unat_eq_iff)
  have m: "(0x1F :: byte) = mask 5" by (simp add: mask_eq_decr_exp)
  have "unat ((of_nat (32 * major + info) :: byte) AND 0x1F) = info"
    unfolding m take_bit_eq_mask [symmetric] unsigned_take_bit_eq u using assms(2) by (simp add: take_bit_eq_mod)
  moreover have "unat (of_nat info :: byte) = info" using assms by (intro unat_of_nat_small) simp
  ultimately show "(of_nat (32 * major + info) :: byte) AND 0x1F = of_nat info"
    by (simp add: word_unat_eq_iff)
qed

lemma read_len_direct: "n < 24 \<Longrightarrow> read_len (of_nat n) buf = Inr (of_nat n, buf)"
proof -
  assume n: "n < 24"
  then have u: "unat (of_nat n :: byte) = n" by (intro unat_of_nat_small) simp
  then have "(of_nat n :: byte) \<le> 23" using n by (simp add: word_le_nat_alt)
  moreover have "ucast (of_nat n :: byte) = (of_nat n :: u64)"
    using n u by (simp add: unsigned_of_nat take_bit_nat_eq_self)
  ultimately show ?thesis by (simp add: read_len_def)
qed

lemma read_len_follow:
  "n < 2 ^ 8 \<Longrightarrow> read_len 24 (be_bytes 1 n @ buf) = Inr (of_nat n, buf)"
  "n < 2 ^ 16 \<Longrightarrow> read_len 25 (be_bytes 2 n @ buf) = Inr (of_nat n, buf)"
  "n < 2 ^ 32 \<Longrightarrow> read_len 26 (be_bytes 4 n @ buf) = Inr (of_nat n, buf)"
  "n < 2 ^ 64 \<Longrightarrow> read_len 27 (be_bytes 8 n @ buf) = Inr (of_nat n, buf)"
  by (simp_all add: read_len_def Let_def be_val_be_bytes)

lemma read_head_encode:
  assumes "major < 8" "n < 2 ^ 64"
  shows "\<exists>info. read_head (cbor_head major n @ buf) = Inr (of_nat major, info, of_nat n, buf) \<and>
    (n < 24 \<longrightarrow> info = of_nat n)"
proof -
  have h: "read_head (of_nat (32 * major + i) # r) =
      (case read_len (of_nat i) r of Inl e \<Rightarrow> Inl e | Inr (val, rest) \<Rightarrow> Inr (of_nat major, of_nat i, val, rest))"
    if "i < 32" for i r
    using initial_byte [OF assms(1) that] by (simp add: read_head_def del: of_nat_add of_nat_mult split: sum.split)
  consider "n < 24" | "24 \<le> n" "n < 2 ^ 8" | "2 ^ 8 \<le> n" "n < 2 ^ 16" | "2 ^ 16 \<le> n" "n < 2 ^ 32" | "2 ^ 32 \<le> n"
    by linarith
  then show ?thesis
  proof cases
    case 1
    with h [of n] show ?thesis by (simp add: cbor_head_def read_len_direct)
  next
    case 2
    with h [of 24] read_len_follow(1) show ?thesis by (simp add: cbor_head_def)
  next
    case 3
    with h [of 25] read_len_follow(2) show ?thesis by (simp add: cbor_head_def)
  next
    case 4
    with h [of 26] read_len_follow(3) show ?thesis by (simp add: cbor_head_def)
  next
    case 5
    with h [of 27] read_len_follow(4) assms(2) show ?thesis by (simp add: cbor_head_def)
  qed
qed

lemma read_items_encode:
  assumes "list_all (\<lambda>x. \<forall>rest. read_cbor (f x @ rest) = Inr (x, rest)) xs"
  shows "read_items (length xs) (concat (map f xs) @ rest) = Inr (xs, rest)"
  using assms by (induction xs) (simp_all add: read_items.simps [of 0] read_items.simps [of "Suc n" for n])

lemma read_pairs_encode:
  assumes "list_all (\<lambda>(k, v). (\<forall>rest. read_cbor (f k @ rest) = Inr (k, rest)) \<and>
      (\<forall>rest. read_cbor (f v @ rest) = Inr (v, rest))) ps"
  shows "read_pairs (length ps) (concat (map (\<lambda>(k, v). f k @ f v) ps) @ rest) = Inr (ps, rest)"
  using assms by (induction ps) (auto simp: read_pairs.simps [of 0] read_pairs.simps [of "Suc n" for n])

lemma read_cbor_head:
  assumes "major < 8" "n < 2 ^ 64"
  shows "\<exists>info. (n < 24 \<longrightarrow> info = of_nat n) \<and> read_cbor (cbor_head major n @ buf) =
    (if major = 4 then (case read_items n buf of Inl e \<Rightarrow> Inl e | Inr (xs, r) \<Rightarrow> Inr (Array xs, r))
     else if major = 5 then (case read_pairs n buf of Inl e \<Rightarrow> Inl e | Inr (xs, r) \<Rightarrow> Inr (Map xs, r))
     else if major = 6 then (case read_cbor buf of Inl e \<Rightarrow> Inl e | Inr (_, r) \<Rightarrow> Inr (Other, r))
     else read_atom (of_nat major) info (of_nat n) buf)"
proof -
  obtain info where info: "read_head (cbor_head major n @ buf) = Inr (of_nat major, info, of_nat n, buf)"
    "n < 24 \<longrightarrow> info = of_nat n" using read_head_encode [OF assms] by blast
  have u: "unat (of_nat n :: u64) = n" using assms(2) by (intro unat_of_nat_small) simp
  have m: "(of_nat major :: byte) = of_nat k \<longleftrightarrow> major = k" if "k < 8" for k
    using assms(1) that by (simp add: word_unat_eq_iff unat_of_nat_small)
  from m [of 4] m [of 5] m [of 6] show ?thesis
    by (intro exI [of _ info] conjI info(2), subst read_cbor.simps) (simp add: info(1) u)
qed

lemma read_canonical: "cbor_wf c \<Longrightarrow> read_cbor (cbor_encode c @ rest) = Inr (c, rest)"
proof (induction c arbitrary: rest)
  case (Uint v)
  have "unat v < 2 ^ 64" using unsigned_less [of v] by simp
  from read_cbor_head [OF _ this, of 0 rest] show ?case by (auto simp: read_atom_def)
next
  case (Nint v)
  have "unat (- 1 - v) < 2 ^ 64" using unsigned_less [of "- 1 - v"] by simp
  from read_cbor_head [OF _ this, of 1 rest] show ?case by (auto simp: read_atom_def)
next
  case (Bytes b)
  then have "length b < 2 ^ 64" "unat (of_nat (length b) :: u64) = length b" by (auto intro: unat_of_nat_small)
  with read_cbor_head [OF _ this(1), of 2 "b @ rest"] show ?case by (auto simp: read_atom_def)
next
  case (Text s)
  then have "length s < 2 ^ 64" "unat (of_nat (length s) :: u64) = length s" by (auto intro: unat_of_nat_small)
  with Text read_cbor_head [OF _ this(1), of 3 "s @ rest"] show ?case by (auto simp: read_atom_def)
next
  case (Array xs)
  then have "length xs < 2 ^ 64" "list_all (\<lambda>x. \<forall>rest. read_cbor (cbor_encode x @ rest) = Inr (x, rest)) xs"
    by (auto simp: list_all_iff)
  with read_cbor_head [OF _ this(1), of 4 "concat (map cbor_encode xs) @ rest"] read_items_encode [OF this(2)]
  show ?case by auto
next
  case (Map ps)
  have "length ps < 2 ^ 64" using Map.prems by simp
  moreover have "list_all (\<lambda>(k, v). (\<forall>rest. read_cbor (cbor_encode k @ rest) = Inr (k, rest)) \<and>
      (\<forall>rest. read_cbor (cbor_encode v @ rest) = Inr (v, rest))) ps"
    using Map by (fastforce simp: list_all_iff)
  ultimately show ?case
    using read_cbor_head [of 5 "length ps" "concat (map (\<lambda>(k, v). cbor_encode k @ cbor_encode v) ps) @ rest"]
      read_pairs_encode [of cbor_encode ps rest] by auto
next
  case (Bool b)
  show ?case
    using read_cbor_head [of 7 20 rest] read_cbor_head [of 7 21 rest]
    by (auto simp: read_atom_def simple_value_def)
next
  case Null
  show ?case using read_cbor_head [of 7 22 rest] by (auto simp: read_atom_def simple_value_def)
qed simp

section \<open>What a document costs\<close>

fun cbor_nodes :: "cbor \<Rightarrow> nat" where
  "cbor_nodes (Array xs) = Suc (sum_list (map cbor_nodes xs))"
| "cbor_nodes (Map ps) = Suc (sum_list (map (\<lambda>(k, v). cbor_nodes k + cbor_nodes v) ps))"
| "cbor_nodes _ = 1"

definition suffix_by :: "nat \<Rightarrow> bytes \<Rightarrow> bytes \<Rightarrow> bool" where
  "suffix_by n rest buf \<longleftrightarrow> (\<exists>k. n \<le> k \<and> k \<le> length buf \<and> rest = drop k buf)"

lemma suffix_by_refl: "suffix_by 0 buf buf"
  by (auto simp: suffix_by_def intro: exI [of _ 0])

lemma suffix_by_drop: "n \<le> length buf \<Longrightarrow> suffix_by n (drop n buf) buf"
  by (auto simp: suffix_by_def)

lemma suffix_by_trans:
  assumes "suffix_by m b a" "suffix_by n c b"
  shows "suffix_by (m + n) c a"
proof -
  from assms obtain k j where "m \<le> k" "k \<le> length a" "b = drop k a" "n \<le> j" "j \<le> length b" "c = drop j b"
    by (auto simp: suffix_by_def)
  then show ?thesis unfolding suffix_by_def by (intro exI [of _ "k + j"]) (auto simp: add.commute)
qed

lemma suffix_by_mono: "suffix_by m b a \<Longrightarrow> n \<le> m \<Longrightarrow> suffix_by n b a"
  by (auto simp: suffix_by_def) (metis order_trans)

lemma suffix_by_drop_any: "suffix_by 0 (drop n buf) buf"
  unfolding suffix_by_def by (intro exI [of _ "min n (length buf)"]) (auto simp: min_def)

lemma read_head_suffix: "read_head buf = Inr (m, i, v, r) \<Longrightarrow> suffix_by 1 r buf"
proof (cases buf)
  case (Cons x xs)
  assume "read_head buf = Inr (m, i, v, r)"
  then have "suffix_by 0 r xs"
    by (auto simp: Cons read_head_def read_len_def Let_def split: if_splits sum.splits
        intro: suffix_by_refl suffix_by_drop_any)
  with suffix_by_trans [of 1 xs buf 0 r] suffix_by_drop [of 1 buf] show ?thesis by (simp add: Cons)
qed (simp add: read_head_def)

lemma read_atom_suffix: "read_atom m i v buf = Inr (x, r) \<Longrightarrow> cbor_nodes x = 1 \<and> suffix_by 0 r buf"
  by (auto simp: read_atom_def simple_value_def split: if_splits
      intro: suffix_by_refl suffix_by_drop_any)

lemma read_bounded:
  "read_cbor buf = Inr (x, r) \<Longrightarrow> suffix_by (cbor_nodes x) r buf"
  "read_items n buf = Inr (xs, r) \<Longrightarrow> suffix_by (sum_list (map cbor_nodes xs)) r buf"
  "read_pairs n buf = Inr (ps, r) \<Longrightarrow> suffix_by (sum_list (map (\<lambda>(k, v). cbor_nodes k + cbor_nodes v) ps)) r buf"
proof (induction buf and n buf and n buf arbitrary: x r and xs r and ps r
    rule: read_cbor_read_items_read_pairs.induct)
  case (1 buf)
  from 1(4) obtain m i v b where h: "read_head buf = Inr (m, i, v, b)"
    by (subst (asm) read_cbor.simps) (auto split: sum.splits)
  note b = read_head_suffix [OF h]
  show ?case
  proof (cases "m = 4")
    case True
    with 1(4) h obtain xs where xs: "read_items (unat v) b = Inr (xs, r)" "x = Array xs"
      by (subst (asm) read_cbor.simps) (auto split: sum.splits)
    from suffix_by_trans [OF b 1(1) [OF h refl refl refl True xs(1)]] show ?thesis by (simp add: xs(2))
  next
    case n4: False
    show ?thesis
    proof (cases "m = 5")
      case True
      with 1(4) h obtain ps where ps: "read_pairs (unat v) b = Inr (ps, r)" "x = Map ps"
        by (subst (asm) read_cbor.simps) (auto split: sum.splits)
      from suffix_by_trans [OF b 1(2) [OF h refl refl refl n4 True ps(1)]] show ?thesis by (simp add: ps(2))
    next
      case n5: False
      show ?thesis
      proof (cases "m = 6")
        case True
        with 1(4) h obtain y where y: "read_cbor b = Inr (y, r)" "x = Other"
          by (subst (asm) read_cbor.simps) (auto split: sum.splits)
        from suffix_by_trans [OF b 1(3) [OF h refl refl refl n4 n5 True y(1)]] show ?thesis
          by (simp add: y(2) suffix_by_mono)
      next
        case False
        with 1(4) h n4 n5 have "read_atom m i v b = Inr (x, r)"
          by (subst (asm) read_cbor.simps) simp
        with read_atom_suffix suffix_by_trans [OF b] show ?thesis by fastforce
      qed
    qed
  qed
next
  case (2 n buf)
  show ?case
  proof (cases "n = 0")
    case True
    with 2(3) suffix_by_refl show ?thesis by (simp add: read_items.simps)
  next
    case False
    with 2(3) obtain y b ys where y: "read_cbor buf = Inr (y, b)" "read_items (n - 1) b = Inr (ys, r)" "xs = y # ys"
      by (subst (asm) read_items.simps) (auto split: sum.splits)
    from suffix_by_trans [OF 2(1) [OF False y(1)] 2(2) [OF False y(1) refl y(2)]] show ?thesis by (simp add: y(3))
  qed
next
  case (3 n buf)
  show ?case
  proof (cases "n = 0")
    case True
    with 3(4) suffix_by_refl show ?thesis by (simp add: read_pairs.simps)
  next
    case False
    with 3(4) obtain k b v c ys where y: "read_cbor buf = Inr (k, b)" "read_cbor b = Inr (v, c)"
      "read_pairs (n - 1) c = Inr (ys, r)" "ps = (k, v) # ys"
      by (subst (asm) read_pairs.simps) (auto split: sum.splits)
    from suffix_by_trans [OF suffix_by_trans [OF 3(1) [OF False y(1)] 3(2) [OF False y(1) refl y(2)]]
        3(3) [OF False y(1) refl y(2) refl y(3)]]
    show ?thesis by (simp add: y(4))
  qed
qed

section \<open>The call stack\<close>

text \<open>The recursion of the program runs on a stack that ends. The same reader with room for \<open>d\<close> nested
  calls of \<open>read_cbor\<close>, which yields \<open>None\<close> where the program would overflow its stack; the loops
  over the items of an array or a map are loops of the program and use no room.\<close>

function read_cbor_in :: "nat \<Rightarrow> bytes \<Rightarrow> (cbor_error + cbor \<times> bytes) option"
  and read_items_in :: "nat \<Rightarrow> nat \<Rightarrow> bytes \<Rightarrow> (cbor_error + cbor list \<times> bytes) option"
  and read_pairs_in :: "nat \<Rightarrow> nat \<Rightarrow> bytes \<Rightarrow> (cbor_error + (cbor \<times> cbor) list \<times> bytes) option"
where
  "read_cbor_in d buf = (if d = 0 then None else case read_head buf of Inl e \<Rightarrow> Some (Inl e)
     | Inr (major, info, val, rest) \<Rightarrow>
         if major = 4 then (case read_items_in (d - 1) (unat val) rest of None \<Rightarrow> None
           | Some (Inl e) \<Rightarrow> Some (Inl e) | Some (Inr (xs, r)) \<Rightarrow> Some (Inr (Array xs, r)))
         else if major = 5 then (case read_pairs_in (d - 1) (unat val) rest of None \<Rightarrow> None
           | Some (Inl e) \<Rightarrow> Some (Inl e) | Some (Inr (xs, r)) \<Rightarrow> Some (Inr (Map xs, r)))
         else if major = 6 then (case read_cbor_in (d - 1) rest of None \<Rightarrow> None
           | Some (Inl e) \<Rightarrow> Some (Inl e) | Some (Inr (_, r)) \<Rightarrow> Some (Inr (Other, r)))
         else Some (read_atom major info val rest))"
| "read_items_in d n buf = (if n = 0 then Some (Inr ([], buf))
     else case read_cbor_in d buf of None \<Rightarrow> None | Some (Inl e) \<Rightarrow> Some (Inl e)
       | Some (Inr (x, r)) \<Rightarrow> (case read_items_in d (n - 1) r of None \<Rightarrow> None | Some (Inl e) \<Rightarrow> Some (Inl e)
         | Some (Inr (xs, r)) \<Rightarrow> Some (Inr (x # xs, r))))"
| "read_pairs_in d n buf = (if n = 0 then Some (Inr ([], buf))
     else case read_cbor_in d buf of None \<Rightarrow> None | Some (Inl e) \<Rightarrow> Some (Inl e)
       | Some (Inr (k, r)) \<Rightarrow> (case read_cbor_in d r of None \<Rightarrow> None | Some (Inl e) \<Rightarrow> Some (Inl e)
         | Some (Inr (v, r)) \<Rightarrow> (case read_pairs_in d (n - 1) r of None \<Rightarrow> None | Some (Inl e) \<Rightarrow> Some (Inl e)
           | Some (Inr (xs, r)) \<Rightarrow> Some (Inr ((k, v) # xs, r)))))"
  by pat_completeness auto

termination
  by (relation "measures [\<lambda>x. case x of Inl (d, buf) \<Rightarrow> 2 * d | Inr (Inl (d, n, buf)) \<Rightarrow> 2 * d + 1
      | Inr (Inr (d, n, buf)) \<Rightarrow> 2 * d + 1, \<lambda>x. case x of Inl _ \<Rightarrow> 0 | Inr (Inl (d, n, buf)) \<Rightarrow> n
      | Inr (Inr (d, n, buf)) \<Rightarrow> n]") auto

declare read_cbor_in.simps [simp del] read_items_in.simps [simp del] read_pairs_in.simps [simp del]

lemma nodes_positive: "0 < cbor_nodes c"
  by (cases c) simp_all

lemma read_cbor_shorter: "read_cbor buf = Inr (x, r) \<Longrightarrow> length r < length buf"
  using read_bounded(1) [of buf x r] nodes_positive [of x] by (auto simp: suffix_by_def)

text \<open>Room for one call more than the document has bytes is enough.\<close>

lemma reader_has_room:
  "length buf < d \<Longrightarrow> read_cbor_in d buf = Some (read_cbor buf)"
  "length buf < d \<Longrightarrow> read_items_in d n buf = Some (read_items n buf)"
  "length buf < d \<Longrightarrow> read_pairs_in d n buf = Some (read_pairs n buf)"
proof (induction buf and n buf and n buf arbitrary: d and d and d rule: read_cbor_read_items_read_pairs.induct)
  case (1 buf)
  show ?case
  proof (cases "read_head buf")
    case (Inl e)
    with 1(4) show ?thesis by (simp add: read_cbor_in.simps read_cbor.simps)
  next
    case (Inr h)
    obtain m i v r where h: "h = (m, i, v, r)" by (metis prod_cases4)
    have less: "length r < d - 1" using read_head_shrinks Inr h 1(4) by fastforce
    have "m = 4 \<Longrightarrow> read_items_in (d - 1) (unat v) r = Some (read_items (unat v) r)"
      "m = 5 \<Longrightarrow> read_pairs_in (d - 1) (unat v) r = Some (read_pairs (unat v) r)"
      "m = 6 \<Longrightarrow> read_cbor_in (d - 1) r = Some (read_cbor r)"
      using 1(1-3) Inr h less by auto
    with 1(4) show ?thesis
      by (simp add: read_cbor_in.simps [of d] read_cbor.simps [of buf] Inr h split: sum.split)
  qed
next
  case (2 n buf)
  have less: "length r < d" if "read_cbor buf = Inr (x, r)" for x r
    using read_cbor_shorter [OF that] 2(3) by simp
  show ?case using 2 less
    by (subst read_items_in.simps, subst read_items.simps) (simp split: sum.split)
next
  case (3 n buf)
  note less = read_cbor_shorter
  have "n \<noteq> 0 \<Longrightarrow> read_cbor_in d buf = Some (read_cbor buf)" using 3(1,4) by simp
  moreover have "read_cbor_in d r = Some (read_cbor r)" if "n \<noteq> 0" "read_cbor buf = Inr (k, r)" for k r
    using 3(2) [OF that] less [OF that(2)] 3(4) by simp
  moreover have "read_pairs_in d (n - 1) r' = Some (read_pairs (n - 1) r')"
    if "n \<noteq> 0" "read_cbor buf = Inr (k, r)" "read_cbor r = Inr (v, r')" for k r v r'
    using 3(3) [OF that(1,2) refl that(3) refl] less [OF that(2)] less [OF that(3)] 3(4) by simp
  ultimately show ?case
    by (subst read_pairs_in.simps, subst read_pairs.simps) (simp split: sum.split)
qed

text \<open>And it is needed: a document that nests an array in each of its bytes overflows any smaller stack.\<close>

lemma nesting_overflows: "read_cbor_in n (replicate n 0x81 @ rest) = None"
proof (induction n)
  case (Suc n)
  have h: "read_head (0x81 # bs) = Inr (4, 1, 1, bs)" for bs
    by (simp add: read_head_def read_len_def Let_def drop_bit_eq_div)
  show ?case
    by (subst read_cbor_in.simps) (simp add: h Suc read_items_in.simps [of n "Suc 0"])
qed (simp add: read_cbor_in.simps)

text \<open>C17: The reader returns on every document for which the stack has room for one nested call more than the document
  has bytes, with the value that does not depend on the stack; no smaller bound will do, since the program does not limit
  the nesting: the document of \<open>n\<close> bytes \<open>0x81\<close> overflows a stack with room for \<open>n\<close> calls, whatever
  follows it. When an item is returned the rest is a suffix of the input, shorter by at least one byte for every
  item and every nested item of the document, whatever counts it claims.\<close>

theorem cbor_reader_bounded:
  "(length buf < d \<longrightarrow> (\<exists>res. read_cbor_in d buf = Some res \<and> res = read_cbor buf \<and>
      (case res of Inl e \<Rightarrow> True | Inr (c, rest) \<Rightarrow>
        \<exists>used. buf = used @ rest \<and> 0 < cbor_nodes c \<and> cbor_nodes c \<le> length used))) \<and>
   read_cbor_in n (replicate n 0x81 @ buf) = None"
proof -
  have "\<exists>used. buf = used @ rest \<and> 0 < cbor_nodes c \<and> cbor_nodes c \<le> length used" if "read_cbor buf = Inr (c, rest)" for c rest
  proof -
    from read_bounded(1) [OF that] obtain k where k: "cbor_nodes c \<le> k" "k \<le> length buf" "rest = drop k buf"
      by (auto simp: suffix_by_def)
    with nodes_positive [of c] show ?thesis by (intro exI [of _ "take k buf"]) simp
  qed
  then show ?thesis by (simp add: reader_has_room(1) nesting_overflows split: sum.split)
qed

theorem cbor_reader_bounded_witness:
  "\<exists>used. read_cbor_in 5 [0x81, 0x81, 0, 9] = Some (Inr (Array [Array [Uint 0]], [9])) \<and>
    [0x81, 0x81, 0, 9] = used @ [9 :: byte] \<and> cbor_nodes (Array [Array [Uint 0]]) \<le> length used"
  using cbor_reader_bounded [of "[0x81, 0x81, 0, 9]" 5 0] read_nested_arrays [of 2 "[9]"] by (simp add: numeral_2_eq_2)

end
