(* ===== verification/Webauthn.thy ===== *)
theory Webauthn
  imports Cbor
begin

text \<open>
  Verification of passkey ceremonies (\<open>crates/quosh-server/src/webauthn.rs\<close>): the client data, the
  authenticator data, the COSE key and the two checks \<open>verify_registration\<close> and
  \<open>verify_assertion\<close>. The JSON reader, SHA-256, base64url and the P-256 signature check are
  third-party code: the fields of a library record.
\<close>

unbundle bit_operations_syntax

section \<open>Libraries and errors\<close>

record client_data =
  cd_typ :: rstr
  cd_challenge :: rstr
  cd_origin :: rstr
  cd_cross_origin :: bool

text \<open>\<open>wl_ecdsa key message signature\<close> is \<open>ring\<close>'s verification.\<close>

record webauthn_lib =
  wl_client_data :: "bytes \<Rightarrow> client_data option"
  wl_sha256 :: "bytes \<Rightarrow> bytes"
  wl_base64url :: "bytes \<Rightarrow> rstr"
  wl_ecdsa :: "bytes \<Rightarrow> bytes \<Rightarrow> bytes \<Rightarrow> bool"

datatype webauthn_error =
    Client_Data_Json
  | Wrong_Type rstr
  | Wrong_Origin rstr
  | Cross_Origin
  | Challenge_Mismatch
  | Auth_Data_Short
  | Attested_Truncated
  | Credential_Truncated
  | Cose_Key cbor_error
  | Attestation_Object cbor_error
  | Not_A_Map
  | Attestation_Format "rstr option"
  | No_Auth_Data
  | No_User_Presence
  | No_User_Verification
  | Rp_Id_Mismatch
  | No_Credential
  | Cose_Not_Map
  | Cose_Kty "u64 option"
  | Cose_Alg "u64 option"
  | Cose_Crv "u64 option"
  | Cose_Point
  | Not_P256_Point
  | Bad_Signature

definition FLAG_UP :: byte where "FLAG_UP = 0x01"
definition FLAG_UV :: byte where "FLAG_UV = 0x04"
definition FLAG_AT :: byte where "FLAG_AT = 0x40"

definition COSE_KTY_EC2 :: u64 where "COSE_KTY_EC2 = 2"
definition COSE_ALG_ES256 :: u64 where "COSE_ALG_ES256 = - 7"
definition COSE_CRV_P256 :: u64 where "COSE_CRV_P256 = 1"

section \<open>Access to CBOR\<close>

fun as_uint :: "cbor \<Rightarrow> u64 option" where
  "as_uint (Uint v) = Some v"
| "as_uint _ = None"

text \<open>\<open>i64::try_from\<close> fails for an unsigned value with the top bit set.\<close>

fun as_i64 :: "cbor \<Rightarrow> u64 option" where
  "as_i64 (Uint v) = (if unat v < 2 ^ 63 then Some v else None)"
| "as_i64 (Nint v) = Some v"
| "as_i64 _ = None"

fun as_bytes :: "cbor \<Rightarrow> bytes option" where
  "as_bytes (Bytes b) = Some b"
| "as_bytes _ = None"

fun as_text :: "cbor \<Rightarrow> rstr option" where
  "as_text (Text s) = Some s"
| "as_text _ = None"

definition map_get :: "(cbor \<times> cbor) list \<Rightarrow> rstr \<Rightarrow> cbor option" where
  "map_get entries key = map_option snd (List.find (\<lambda>(k, _). as_text k = Some key) entries)"

definition map_get_int :: "(cbor \<times> cbor) list \<Rightarrow> u64 \<Rightarrow> cbor option" where
  "map_get_int entries key = map_option snd (List.find (\<lambda>(k, _). as_i64 k = Some key) entries)"

section \<open>The parts of a ceremony\<close>

definition check_client_data ::
  "webauthn_lib \<Rightarrow> bytes \<Rightarrow> rstr \<Rightarrow> rstr \<Rightarrow> bytes \<Rightarrow> webauthn_error + unit" where
  "check_client_data W raw expected_type origin challenge =
     res_bind (ok_or (wl_client_data W raw) Client_Data_Json) (\<lambda>data.
       if cd_typ data \<noteq> expected_type then Inl (Wrong_Type (cd_typ data))
       else if cd_origin data \<noteq> origin then Inl (Wrong_Origin (cd_origin data))
       else if cd_cross_origin data then Inl Cross_Origin
       else if cd_challenge data \<noteq> wl_base64url W challenge then Inl Challenge_Mismatch
       else Inr ())"

definition cose_p256 :: "cbor \<Rightarrow> webauthn_error + bytes" where
  "cose_p256 c = (case c of
      Map entries \<Rightarrow>
        (let get = (\<lambda>k f. Option.bind (map_get_int entries k) f) in
         if get 1 as_uint \<noteq> Some COSE_KTY_EC2 then Inl (Cose_Kty (get 1 as_uint))
         else if get 3 as_i64 \<noteq> Some COSE_ALG_ES256 then Inl (Cose_Alg (get 3 as_i64))
         else if get (- 1) as_i64 \<noteq> Some COSE_CRV_P256 then Inl (Cose_Crv (get (- 1) as_i64))
         else (case (Option.bind (map_get_int entries (- 2)) as_bytes, Option.bind (map_get_int entries (- 3)) as_bytes) of
             (Some x, Some y) \<Rightarrow> if length x = 32 \<and> length y = 32 then Inr (0x04 # x @ y) else Inl Cose_Point
           | _ \<Rightarrow> Inl Cose_Point))
    | _ \<Rightarrow> Inl Cose_Not_Map)"

record auth_data =
  ad_rp_id_hash :: bytes
  ad_flags :: byte
  ad_sign_count :: u32
  ad_credential :: "(bytes \<times> bytes) option"

text \<open>The attested credential after the first 37 bytes.\<close>

definition parse_attested :: "bytes \<Rightarrow> webauthn_error + bytes \<times> bytes" where
  "parse_attested p =
     (if length p < 18 then Inl Attested_Truncated
      else let n = be_val (slc 16 18 p); p = drop 18 p in
        if length p < n then Inl Credential_Truncated
        else (case read_cbor (drop n p) of Inl e \<Rightarrow> Inl (Cose_Key e)
          | Inr (cose, _) \<Rightarrow> res_bind (cose_p256 cose) (\<lambda>key. Inr (take n p, key))))"

definition parse_auth_data :: "bytes \<Rightarrow> webauthn_error + auth_data" where
  "parse_auth_data data =
     (if length data < 37 then Inl Auth_Data_Short
      else let flags = data ! 32;
               ad = \<lparr>ad_rp_id_hash = slc 0 32 data, ad_flags = flags,
                     ad_sign_count = of_nat (be_val (slc 33 37 data)), ad_credential = None\<rparr> in
        if flags AND FLAG_AT \<noteq> 0 then
          res_bind (parse_attested (drop 37 data)) (\<lambda>c. Inr (ad\<lparr>ad_credential := Some c\<rparr>))
        else Inr ad)"

definition check_auth_data_flags :: "byte \<Rightarrow> webauthn_error + unit" where
  "check_auth_data_flags flags =
     (if flags AND FLAG_UP = 0 then Inl No_User_Presence
      else if flags AND FLAG_UV = 0 then Inl No_User_Verification
      else Inr ())"

definition verify_p256_point :: "bytes \<Rightarrow> webauthn_error + unit" where
  "verify_p256_point point = (if length point \<noteq> 65 \<or> point ! 0 \<noteq> 0x04 then Inl Not_P256_Point else Inr ())"

section \<open>The two ceremonies\<close>

record registered =
  rd_credential_id :: bytes
  rd_public_key :: bytes
  rd_sign_count :: u32

definition verify_registration ::
  "webauthn_lib \<Rightarrow> rstr \<Rightarrow> rstr \<Rightarrow> bytes \<Rightarrow> bytes \<Rightarrow> bytes \<Rightarrow> webauthn_error + registered" where
  "verify_registration W rp_id origin challenge client_data_json attestation_object =
     res_bind (check_client_data W client_data_json (lit ''webauthn.create'') origin challenge) (\<lambda>_.
     case read_cbor attestation_object of
       Inl e \<Rightarrow> Inl (Attestation_Object e)
     | Inr (Map entries, _) \<Rightarrow>
         (let fmt = Option.bind (map_get entries (lit ''fmt'')) as_text in
          if fmt \<noteq> Some (lit ''none'') then Inl (Attestation_Format fmt)
          else res_bind (ok_or (Option.bind (map_get entries (lit ''authData'')) as_bytes) No_Auth_Data) (\<lambda>data.
            res_bind (parse_auth_data data) (\<lambda>ad.
            res_bind (check_auth_data_flags (ad_flags ad)) (\<lambda>_.
              if ad_rp_id_hash ad \<noteq> wl_sha256 W rp_id then Inl Rp_Id_Mismatch
              else res_bind (ok_or (ad_credential ad) No_Credential) (\<lambda>(cid, key).
                res_bind (verify_p256_point key) (\<lambda>_.
                  Inr \<lparr>rd_credential_id = cid, rd_public_key = key, rd_sign_count = ad_sign_count ad\<rparr>))))))
     | Inr _ \<Rightarrow> Inl Not_A_Map)"

definition verify_assertion ::
  "webauthn_lib \<Rightarrow> rstr \<Rightarrow> rstr \<Rightarrow> bytes \<Rightarrow> bytes \<Rightarrow> bytes \<Rightarrow> bytes \<Rightarrow> bytes \<Rightarrow> webauthn_error + u32" where
  "verify_assertion W rp_id origin challenge client_data_json authenticator_data signature public_key =
     res_bind (check_client_data W client_data_json (lit ''webauthn.get'') origin challenge) (\<lambda>_.
     res_bind (parse_auth_data authenticator_data) (\<lambda>ad.
     res_bind (check_auth_data_flags (ad_flags ad)) (\<lambda>_.
       if ad_rp_id_hash ad \<noteq> wl_sha256 W rp_id then Inl Rp_Id_Mismatch
       else if \<not> wl_ecdsa W public_key (authenticator_data @ wl_sha256 W client_data_json) signature
       then Inl Bad_Signature
       else Inr (ad_sign_count ad))))"

section \<open>An honest authenticator\<close>

text \<open>What a browser sends for a new passkey: the COSE key, the authenticator data with the attested
  credential and the attestation object.\<close>

definition cose_key :: "bytes \<Rightarrow> bytes \<Rightarrow> cbor" where
  "cose_key x y = Map [(Uint 1, Uint 2), (Uint 3, Nint (- 7)), (Nint (- 1), Uint 1),
     (Nint (- 2), Bytes x), (Nint (- 3), Bytes y)]"

definition attested_data :: "bytes \<Rightarrow> byte \<Rightarrow> u32 \<Rightarrow> bytes \<Rightarrow> bytes \<Rightarrow> cbor \<Rightarrow> bytes" where
  "attested_data rp_hash flags count aaguid cid key =
     rp_hash @ [flags] @ be_bytes 4 (unat count) @ aaguid @ be_bytes 2 (length cid) @ cid @ cbor_encode key"

definition attestation_object :: "bytes \<Rightarrow> bytes" where
  "attestation_object data = cbor_encode (Map [(Text (lit ''fmt''), Text (lit ''none'')),
     (Text (lit ''attStmt''), Map []), (Text (lit ''authData''), Bytes data)])"

lemma lit_eval: "lit [] = []" "lit (c # cs) = of_char c # lit cs"
  by (simp_all add: lit_def)

lemma cose_key_wf: "length x = 32 \<Longrightarrow> length y = 32 \<Longrightarrow> cbor_wf (cose_key x y)"
  by (simp add: cose_key_def)

lemma cose_key_point: "length x = 32 \<Longrightarrow> length y = 32 \<Longrightarrow> cose_p256 (cose_key x y) = Inr (0x04 # x @ y)"
  by (simp add: cose_key_def cose_p256_def map_get_int_def COSE_KTY_EC2_def COSE_ALG_ES256_def COSE_CRV_P256_def)

lemma parse_attested_honest:
  assumes "length aaguid = 16" "length cid < 65536" "cbor_wf key" "cose_p256 key = Inr point"
  shows "parse_attested (aaguid @ be_bytes 2 (length cid) @ cid @ cbor_encode key) = Inr (cid, point)"
proof -
  let ?p = "aaguid @ be_bytes 2 (length cid) @ cid @ cbor_encode key"
  have "slc 16 18 ?p = be_bytes 2 (length cid)" "drop 18 ?p = cid @ cbor_encode key"
    using assms(1) by (simp_all add: slc_def)
  moreover have "be_val (be_bytes 2 (length cid)) = length cid"
    using assms(2) by (intro be_val_be_bytes) simp
  moreover have "read_cbor (cbor_encode key) = Inr (key, [])" using read_canonical [OF assms(3), of "[]"] by simp
  ultimately show ?thesis using assms by (simp add: parse_attested_def Let_def)
qed

lemma parse_auth_data_honest:
  assumes "length rp_hash = 32" "length aaguid = 16" "length cid < 65536" "flags AND FLAG_AT \<noteq> 0"
    and "cbor_wf key" "cose_p256 key = Inr point"
  shows "parse_auth_data (attested_data rp_hash flags count aaguid cid key) =
    Inr \<lparr>ad_rp_id_hash = rp_hash, ad_flags = flags, ad_sign_count = count, ad_credential = Some (cid, point)\<rparr>"
proof -
  let ?d = "attested_data rp_hash flags count aaguid cid key"
  have parts: "slc 0 32 ?d = rp_hash" "?d ! 32 = flags" "slc 33 37 ?d = be_bytes 4 (unat count)"
    "drop 37 ?d = aaguid @ be_bytes 2 (length cid) @ cid @ cbor_encode key" "\<not> length ?d < 37"
    using assms(1) by (simp_all add: attested_data_def slc_def nth_append)
  have "be_val (be_bytes 4 (unat count)) = unat count"
    using unsigned_less [of count] by (intro be_val_be_bytes) simp
  with parts parse_attested_honest [OF assms(2,3,5,6)] assms(4) show ?thesis
    by (simp add: parse_auth_data_def Let_def)
qed

lemma attestation_object_wf:
  assumes "length data < 2 ^ 64"
  shows "read_cbor (attestation_object data) =
    Inr (Map [(Text (lit ''fmt''), Text (lit ''none'')), (Text (lit ''attStmt''), Map []), (Text (lit ''authData''), Bytes data)], [])"
proof -
  have "utf8_valid (lit s)" if "list_all (\<lambda>c. of_char c < (0x80 :: byte)) s" for s
    using that by (intro utf8_ascii) (simp add: lit_def list_all_iff)
  with assms have "cbor_wf (Map [(Text (lit ''fmt''), Text (lit ''none'')), (Text (lit ''attStmt''), Map []),
      (Text (lit ''authData''), Bytes data)])"
    by (simp add: lit_def)
  from read_canonical [OF this, of "[]"] show ?thesis by (simp add: attestation_object_def)
qed

text \<open>C16: A registration made as WebAuthn prescribes is accepted: client data for this ceremony, origin
  and challenge, and an attestation object without statement whose authenticator data hash this
  server's relying party, with presence, verification and the attested credential flagged, give back
  the credential id, the signature counter and the point \<open>0x04\<close>, x, y of the key.\<close>

theorem honest_registration_accepted:
  assumes "wl_client_data W json = Some \<lparr>cd_typ = lit ''webauthn.create'', cd_challenge = wl_base64url W challenge,
      cd_origin = origin, cd_cross_origin = False\<rparr>"
    and "length (wl_sha256 W rp_id) = 32" "length aaguid = 16" "length cid < 65536" "length x = 32" "length y = 32"
    and "flags AND FLAG_UP \<noteq> 0" "flags AND FLAG_UV \<noteq> 0" "flags AND FLAG_AT \<noteq> 0"
  shows "verify_registration W rp_id origin challenge json
      (attestation_object (attested_data (wl_sha256 W rp_id) flags count aaguid cid (cose_key x y))) =
    Inr \<lparr>rd_credential_id = cid, rd_public_key = 0x04 # x @ y, rd_sign_count = count\<rparr>"
proof -
  let ?d = "attested_data (wl_sha256 W rp_id) flags count aaguid cid (cose_key x y)"
  note ad = parse_auth_data_honest [OF assms(2,3,4,9) cose_key_wf [OF assms(5,6)] cose_key_point [OF assms(5,6)]]
  have "length (cbor_encode (cose_key x y)) < 1000"
    using assms(5,6) by (simp add: cose_key_def cbor_head_def)
  then have "length ?d < 2 ^ 64" using assms(2-4) by (simp add: attested_data_def)
  note obj = attestation_object_wf [OF this]
  show ?thesis
    using assms(5-8) unfolding verify_registration_def obj
    by (simp add: check_client_data_def assms(1) ok_or_def map_get_def lit_def ad check_auth_data_flags_def
        verify_p256_point_def)
qed

definition webauthn_ex :: webauthn_lib where
  "webauthn_ex = \<lparr>wl_client_data = (\<lambda>raw. Some \<lparr>cd_typ = take (length raw - 1) raw, cd_challenge = [last raw],
     cd_origin = lit ''https://q'', cd_cross_origin = False\<rparr>), wl_sha256 = (\<lambda>b. take 32 (b @ replicate 32 0)),
     wl_base64url = (\<lambda>b. take 1 b), wl_ecdsa = (\<lambda>key msg sig. sig = rev key)\<rparr>"

theorem honest_registration_accepted_witness:
  "verify_registration webauthn_ex (lit ''q'') (lit ''https://q'') [7] (lit ''webauthn.create'' @ [7])
      (attestation_object (attested_data (wl_sha256 webauthn_ex (lit ''q'')) 0x45 3 (replicate 16 0) [1, 2]
        (cose_key (replicate 32 5) (replicate 32 6)))) =
    Inr \<lparr>rd_credential_id = [1, 2], rd_public_key = 0x04 # replicate 32 5 @ replicate 32 6, rd_sign_count = 3\<rparr>"
  by (rule honest_registration_accepted)
    (simp_all add: webauthn_ex_def lit_def FLAG_UP_def FLAG_UV_def FLAG_AT_def)

end
