(* ===== verification/Transport.thy ===== *)
theory Transport
  imports Session Feed Connect_Line
begin

text \<open>
  The server's end of a connection (\<open>crates/quosh-server/src/transport.rs\<close>): the checks on the
  first frame of a client, and \<open>run_transport\<close>, which moves control frames into the session and
  screens and acknowledgements out of it. A turn of its loop is two events: \<open>Prepare\<close> is
  everything up to the \<open>select!\<close>, then comes the arm that fired, with the outcome of the call it
  waited for; between the two, and between turns, other tasks may change the session.
  \<open>tp_sent\<close> and \<open>tp_datagrams\<close> record what the connection has carried.
\<close>

section \<open>State\<close>

definition BUSY_CAP :: nat where "BUSY_CAP = 256 * 1024"
definition INPUT_RECORD_OVERHEAD :: nat where "INPUT_RECORD_OVERHEAD = 32"
definition READ_SIZE :: nat where "READ_SIZE = 4096"

datatype link_error = Bad_Frame proto_error | Empty_Input_Frame | Input_Frame_Too_Large

text \<open>Where \<open>run_transport\<close> is: before the \<open>select!\<close>, in it, in \<open>flush_bounded\<close>, on its way out with
  its result, or returned.\<close>

datatype transport_phase = Preparing | Selecting | Flushing | Leaving "link_error option" | Gone

record transport =
  tp_epoch :: u64
  tp_leftover :: bytes
  tp_feed :: feed
  tp_busy :: "(u64 \<times> bytes) list"
  tp_resize :: "(u16 \<times> u16) option"
  tp_input_ack :: "u64 option"
  tp_phase :: transport_phase
  tp_sent :: bytes
  tp_datagrams :: "bytes list"

type_synonym link = "session \<times> transport"

section \<open>Output\<close>

text \<open>\<open>max\<close> is the connection's largest datagram, if it has datagrams.\<close>

definition push_screen :: "nat option \<Rightarrow> bytes \<Rightarrow> bool \<Rightarrow> transport \<Rightarrow> transport" where
  "push_screen mx blob reliable t =
     (if \<not> reliable \<and> length blob + 1 < (case mx of None \<Rightarrow> 0 | Some n \<Rightarrow> n)
      then t\<lparr>tp_datagrams := tp_datagrams t @ [blob]\<rparr>
      else t\<lparr>tp_feed := feed_push_screen (encode_frame MSG_SCREEN blob) (tp_feed t)\<rparr>)"

definition queue_exit :: "session \<Rightarrow> u64 \<Rightarrow> u32 \<Rightarrow> feed \<Rightarrow> feed" where
  "queue_exit s epoch st f =
     (if se_epoch s \<noteq> epoch then f
      else feed_push_fin (encode_exit st)
        (case se_latest s of None \<Rightarrow> f
         | Some l \<Rightarrow> feed_push_screen (encode_frame MSG_SCREEN (la_blob l)) f))"

text \<open>The state at the top of the loop: the greeting, the latest screen and the input
  acknowledgement are queued. \<open>leftover\<close> is what came in with the handshake.\<close>

definition transport_open ::
  "nat option \<Rightarrow> session \<Rightarrow> u64 \<Rightarrow> bytes \<Rightarrow> (u16 \<times> u16) option \<Rightarrow> transport" where
  "transport_open mx s epoch leftover resize =
     (let ok = hello_ok_encode \<lparr>ho_protocol = PROTOCOL_VERSION, ho_session_id = se_id s,
            ho_version = session_version s, ho_cols = fst (se_size s), ho_rows = snd (se_size s)\<rparr>;
          t = \<lparr>tp_epoch = epoch, tp_leftover = leftover,
               tp_feed = snd (feed_push_ctrl ok feed_new), tp_busy = [], tp_resize = resize,
               tp_input_ack = (if se_accepted s > 0 then Some (se_accepted s) else None),
               tp_phase = Preparing, tp_sent = [], tp_datagrams = []\<rparr> in
      case se_latest s of None \<Rightarrow> t | Some l \<Rightarrow> push_screen mx (la_blob l) True t)"

section \<open>Control frames\<close>

definition peek_type :: "bytes \<Rightarrow> proto_error + byte option" where
  "peek_type buf = res_bind (peek_len buf) (\<lambda>m. case m of
       None \<Rightarrow> Inr None
     | Some n \<Rightarrow> if length buf < 4 + n then Inr None else Inr (Some (buf ! 4)))"

definition input_record_cost :: "bytes \<Rightarrow> nat" where
  "input_record_cost data = INPUT_RECORD_OVERHEAD + length data"

definition busy_bytes :: "(u64 \<times> bytes) list \<Rightarrow> nat" where
  "busy_bytes q = sum_list (map (\<lambda>(_, d). input_record_cost d) q)"

definition on_control ::
  "u64 \<Rightarrow> byte \<Rightarrow> bytes \<Rightarrow> link \<Rightarrow> link \<times> link_error option" where
  "on_control epoch mty payload = (\<lambda>(s, t).
     if se_epoch s \<noteq> epoch then ((s, t), None)
     else if mty = MSG_INPUT then
       (case decode_input payload of Inl _ \<Rightarrow> ((s, t), None)
        | Inr (seq, data) \<Rightarrow>
            if data = [] then ((s, t), Some Empty_Input_Frame)
            else if length data > MAX_INPUT_BYTES then ((s, t), Some Input_Frame_Too_Large)
            else ((s, t\<lparr>tp_busy := tp_busy t @ [(seq, data)]\<rparr>), None))
     else if mty = MSG_RESIZE then
       (case decode_resize payload of Inl _ \<Rightarrow> ((s, t), None)
        | Inr (cols, rows) \<Rightarrow> ((s, t\<lparr>tp_resize := Some (cols, rows)\<rparr>), None))
     else if mty = MSG_HANGUP then
       ((if se_epoch s = epoch then session_request_hangup s else s, t), None)
     else if mty = MSG_ACK_STATE then
       (case decode_u64 payload of Inl _ \<Rightarrow> ((s, t), None) | Inr v \<Rightarrow> ((try_ack v s, t), None))
     else if mty = MSG_PING then
       ((s, t\<lparr>tp_feed := snd (feed_push_ctrl encode_pong (tp_feed t))\<rparr>), None)
     else ((s, t), None))"

text \<open>\<open>buf\<close> is \<open>leftover\<close>, which \<open>on_control\<close> does not touch.\<close>

function drain_loop ::
  "u64 \<Rightarrow> nat \<Rightarrow> bytes \<Rightarrow> link \<Rightarrow> link \<times> link_error option" where
  "drain_loop epoch busy_cap buf (s, t) =
     (let stop = (\<lambda>b. (s, t\<lparr>tp_leftover := b\<rparr>)) in
      if se_epoch s \<noteq> epoch then (stop buf, None)
      else case peek_type buf of
        Inl e \<Rightarrow> (stop buf, Some (Bad_Frame e))
      | Inr None \<Rightarrow> (stop buf, None)
      | Inr (Some mty) \<Rightarrow>
          if mty = MSG_INPUT \<and> busy_bytes (tp_busy t) \<ge> busy_cap then (stop buf, None)
          else (case split_frame buf of
            Inl e \<Rightarrow> (stop buf, Some (Bad_Frame e))
          | Inr (None, rest) \<Rightarrow> (stop rest, None)
          | Inr (Some (mty, payload), rest) \<Rightarrow>
              (case on_control epoch mty payload (s, t) of
                 ((s', t'), Some e) \<Rightarrow> ((s', t'\<lparr>tp_leftover := rest\<rparr>), Some e)
               | ((s', t'), None) \<Rightarrow> drain_loop epoch busy_cap rest (s', t'))))"
  by pat_completeness auto
termination
  by (relation "measure (\<lambda>(epoch, cap, buf, x). length buf)") (auto dest: split_frame_shrinks)

declare drain_loop.simps [simp del]

definition drain_leftover :: "nat \<Rightarrow> link \<Rightarrow> link \<times> link_error option" where
  "drain_leftover busy_cap = (\<lambda>(s, t). drain_loop (tp_epoch t) busy_cap (tp_leftover t) (s, t))"

fun drain_busy :: "(u64 \<times> bytes) list \<Rightarrow> session \<Rightarrow> (u64 \<times> bytes) list \<times> session" where
  "drain_busy [] s = ([], s)"
| "drain_busy ((seq, data) # q) s = (case try_input seq data s of
      (Inr Queued, s') \<Rightarrow> drain_busy q s'
    | (Inr Busy, s') \<Rightarrow> ((seq, data) # q, s')
    | (Inl _, s') \<Rightarrow> (q, s'))"

section \<open>The loop\<close>

definition retry_resize :: "nat \<Rightarrow> link \<Rightarrow> link" where
  "retry_resize max_cells = (\<lambda>(s, t). case tp_resize t of None \<Rightarrow> (s, t)
     | Some (c, r) \<Rightarrow> (case try_resize max_cells c r s of
          (Inr Busy, s') \<Rightarrow> (s', t)
        | (_, s') \<Rightarrow> (s', t\<lparr>tp_resize := None\<rparr>)))"

definition retry_input_ack :: "transport \<Rightarrow> transport" where
  "retry_input_ack t = (case tp_input_ack t of None \<Rightarrow> t
     | Some n \<Rightarrow> (let (ok, f) = feed_push_ctrl (encode_input_ack n) (tp_feed t) in
         if ok then t\<lparr>tp_feed := f, tp_input_ack := None\<rparr> else t\<lparr>tp_feed := f\<rparr>))"

definition transport_prepare :: "nat \<Rightarrow> link \<Rightarrow> link" where
  "transport_prepare max_cells x = (case drain_leftover BUSY_CAP x of
       ((s, t), Some e) \<Rightarrow> (s, t\<lparr>tp_phase := Leaving (Some e)\<rparr>)
     | ((s, t), None) \<Rightarrow>
         (let (q, s) = drain_busy (tp_busy t) s;
              (s, t) = retry_resize max_cells (s, t\<lparr>tp_busy := q\<rparr>);
              t = retry_input_ack t in
          case se_exit s of
            Some st \<Rightarrow> (s, t\<lparr>tp_feed := feed_pump (queue_exit s (tp_epoch t) st (tp_feed t)), tp_phase := Flushing\<rparr>)
          | None \<Rightarrow> (s, t\<lparr>tp_phase := Selecting\<rparr>)))"

text \<open>The arms of the \<open>select!\<close>, the writes of \<open>flush_bounded\<close> and the end. \<open>None\<close> is a failed call,
  for \<open>Flushed\<close> also the deadline; \<open>Finished now\<close> is the detach in \<open>handle_incoming\<close>.\<close>

datatype transport_event =
    Prepare
  | Epoch_Changed
  | Exit_Changed
  | Latest_Changed
  | Accepted_Changed
  | Resync
  | Wrote "nat option"
  | Read_More "bytes option"
  | Flushed "nat option"
  | Finished nat

fun transport_enabled :: "transport_event \<Rightarrow> transport \<Rightarrow> bool" where
  "transport_enabled Prepare t \<longleftrightarrow> tp_phase t = Preparing"
| "transport_enabled (Wrote r) t \<longleftrightarrow> tp_phase t = Selecting \<and> feed_writing (tp_feed t) \<and>
     (case r of None \<Rightarrow> True | Some n \<Rightarrow> n \<le> length (feed_rest (tp_feed t)))"
| "transport_enabled (Read_More r) t \<longleftrightarrow> tp_phase t = Selecting \<and> busy_bytes (tp_busy t) < BUSY_CAP \<and>
     (case r of None \<Rightarrow> True | Some bs \<Rightarrow> length bs \<le> READ_SIZE)"
| "transport_enabled (Flushed r) t \<longleftrightarrow> tp_phase t = Flushing \<and>
     (case r of None \<Rightarrow> True | Some n \<Rightarrow> n \<le> length (feed_rest (tp_feed t)))"
| "transport_enabled (Finished now) t \<longleftrightarrow> (case tp_phase t of Leaving _ \<Rightarrow> True | _ \<Rightarrow> False)"
| "transport_enabled _ t \<longleftrightarrow> tp_phase t = Selecting"

definition transport_write :: "nat \<Rightarrow> transport \<Rightarrow> transport" where
  "transport_write n t = t\<lparr>tp_sent := tp_sent t @ take n (feed_rest (tp_feed t)),
     tp_feed := feed_advance n (tp_feed t)\<rparr>"

text \<open>The body of an arm of the \<open>select!\<close>: does the loop go on, and the new state.\<close>

fun transport_arm :: "nat option \<Rightarrow> transport_event \<Rightarrow> link \<Rightarrow> bool \<times> transport" where
  "transport_arm mx Epoch_Changed (s, t) = (se_epoch_watch s = tp_epoch t, t)"
| "transport_arm mx Latest_Changed (s, t) = (True, case se_latest s of None \<Rightarrow> t
     | Some l \<Rightarrow> push_screen mx (la_blob l) False t)"
| "transport_arm mx Accepted_Changed (s, t) =
     (True, if se_accepted s > 0 then t\<lparr>tp_input_ack := Some (se_accepted s)\<rparr> else t)"
| "transport_arm mx Resync (s, t) = (True, case se_latest s of None \<Rightarrow> t
     | Some l \<Rightarrow> if la_version l > se_last_acked s then push_screen mx (la_blob l) True t else t)"
| "transport_arm mx (Wrote r) (s, t) = (case r of None \<Rightarrow> (False, t)
     | Some n \<Rightarrow> if n = 0 then (False, t) else (True, transport_write n t))"
| "transport_arm mx (Read_More r) (s, t) =
     (if length (tp_leftover t) > 4 + MAX_FRAME then (False, t)
      else case r of None \<Rightarrow> (False, t)
        | Some bs \<Rightarrow> if bs = [] then (False, t) else (True, t\<lparr>tp_leftover := tp_leftover t @ bs\<rparr>))"
| "transport_arm mx _ (s, t) = (True, t)"

definition transport_select :: "nat option \<Rightarrow> transport_event \<Rightarrow> link \<Rightarrow> link" where
  "transport_select mx ev = (\<lambda>(s, t).
     let (go, t) = transport_arm mx ev (s, t) in
     (s, t\<lparr>tp_phase := (if go \<and> se_epoch s = tp_epoch t then Preparing else Leaving None)\<rparr>))"

definition flush_bounded :: "nat option \<Rightarrow> transport \<Rightarrow> transport" where
  "flush_bounded r t =
     (if \<not> feed_writing (tp_feed t) then t\<lparr>tp_phase := Leaving None\<rparr>
      else case r of None \<Rightarrow> t\<lparr>tp_phase := Leaving None\<rparr>
        | Some n \<Rightarrow> if n = 0 then t\<lparr>tp_phase := Leaving None\<rparr>
            else (let t = transport_write n t in t\<lparr>tp_feed := feed_pump (tp_feed t)\<rparr>))"

definition transport_step :: "nat \<Rightarrow> nat option \<Rightarrow> transport_event \<Rightarrow> link \<Rightarrow> link" where
  "transport_step max_cells mx ev = (\<lambda>(s, t).
     if \<not> transport_enabled ev t then (s, t)
     else case ev of
       Prepare \<Rightarrow> transport_prepare max_cells (s, t)
     | Flushed r \<Rightarrow> (s, flush_bounded r t)
     | Finished now \<Rightarrow> (detach_if_epoch (tp_epoch t) now s, t\<lparr>tp_phase := Gone\<rparr>)
     | _ \<Rightarrow> transport_select mx ev (s, t))"

section \<open>Admission\<close>

text \<open>\<open>next_frame\<close> on the chunks the stream delivers; the end of the list is the end of the stream.\<close>

datatype handshake_error = Bad_Handshake_Frame proto_error | Eof_Before_Hello | Rejected u16 rstr

fun next_frame ::
  "bytes list \<Rightarrow> bytes \<Rightarrow> handshake_error + (byte \<times> bytes) \<times> bytes \<times> bytes list" where
  "next_frame chunks buf = (case split_frame buf of
      Inl e \<Rightarrow> Inl (Bad_Handshake_Frame e)
    | Inr (Some f, rest) \<Rightarrow> Inr (f, rest, chunks)
    | Inr (None, rest) \<Rightarrow> (case chunks of [] \<Rightarrow> Inl Eof_Before_Hello
        | c # cs \<Rightarrow> if c = [] then Inl Eof_Before_Hello else next_frame cs (rest @ c)))"

declare next_frame.simps [simp del]

text \<open>The checks on the frame that must be the \<open>Hello\<close>. A rejection is the code and message of the
  \<open>Error\<close> frame; \<open>auth_uid\<close> is the user the authentication handshake proved, if there was one.\<close>

definition check_hello ::
  "(bytes \<Rightarrow> session option) \<Rightarrow> u32 option \<Rightarrow> byte \<Rightarrow> bytes \<Rightarrow> (u16 \<times> rstr) + hello \<times> session" where
  "check_hello sessions auth_uid mty payload =
     (if mty \<noteq> MSG_HELLO then Inl (1, lit ''expected hello'')
      else case hello_decode payload of
        Inl _ \<Rightarrow> Inl (4, lit ''protocol version mismatch; update quosh-server'')
      | Inr hello \<Rightarrow>
          if h_protocol hello \<noteq> PROTOCOL_VERSION then
            Inl (4, lit ''protocol version '' @ dec_digits (unat (h_protocol hello)) @ lit '' != '' @
                    dec_digits (unat PROTOCOL_VERSION) @ lit ''; update quosh-server'')
          else case sessions (h_session_id hello) of
            None \<Rightarrow> Inl (2, lit ''unknown session'')
          | Some sess \<Rightarrow>
              if se_token sess \<noteq> h_token hello then Inl (3, lit ''bad token'')
              else if (case auth_uid of None \<Rightarrow> False | Some uid \<Rightarrow> se_uid sess \<noteq> uid)
              then Inl (5, lit ''session does not belong to authenticated user'')
              else Inr (hello, sess))"

text \<open>What \<open>handle_incoming\<close> does with an admitted client: claim the session and open the transport.\<close>

definition attach_transport :: "nat option \<Rightarrow> hello \<Rightarrow> bytes \<Rightarrow> session \<Rightarrow> link" where
  "attach_transport mx hello leftover s0 =
     (let resize = (if h_cols hello > 0 \<and> h_rows hello > 0 then Some (h_cols hello, h_rows hello) else None);
          (epoch, s) = claim_transport s0 in
      (s, transport_open mx s epoch leftover resize))"

end
