(* ===== verification/Auth.thy ===== *)
theory Auth
  imports Helper Webauthn Auth_Messages Transport
begin

text \<open>
  The browser's authentication handshake (\<open>crates/quosh-server/src/auth.rs\<close>) and, with it, the
  whole of \<open>handle_incoming\<close> (\<open>crates/quosh-server/src/transport.rs\<close>). While the server waits for
  the browser's reply to a challenge, other connections may change the daemon, so a handshake is two
  functions: \<open>auth_begin\<close> up to that wait and \<open>auth_reply\<close> after it. Each gives its result, the
  frames it sent and the daemon it left. The user a handshake proves comes from the token table, the
  nonce store or a stored registration only.
\<close>

section \<open>Errors\<close>

datatype auth_error =
    Auth_Hello_Frame proto_error
  | Enroll_Frame proto_error
  | Assert_Frame proto_error
  | Bad_Nonce
  | Unknown_Credential
  | Stored_Key
  | Ceremony webauthn_error
  | Store store_error
  | Chain_Error
  | Spawn_Refused rstr
  | Foreign_Session
  | Unexpected_Reply
  | No_Reply handshake_error
  | Encoding proto_error
  | Write_Failed

text \<open>What the handshake gets from outside: the libraries with \<open>hex::decode\<close>, the text of an error;
  and for one handshake the clocks, random values and outcomes.\<close>

record auth_host = host +
  au_lib :: webauthn_lib
  au_unhex :: "rstr \<Rightarrow> bytes option"
  au_text :: "auth_error \<Rightarrow> rstr"

record auth_draw =
  ax_now :: int
  ax_now_ms :: nat
  ax_token :: bytes
  ax_challenge :: bytes
  ax_session :: "bytes \<times> bytes"
  ax_spawned :: "rstr option"
  ax_hashes :: "bytes list option"
  ax_saved1 :: bool
  ax_saved2 :: bool
  ax_written :: bool

section \<open>Answers\<close>

text \<open>\<open>send_fail\<close>: the \<open>AuthFail\<close> frame, if its reason fits one.\<close>

definition send_fail :: "('a auth_host_scheme) \<Rightarrow> auth_error \<Rightarrow> bytes list" where
  "send_fail H e = (case auth_fail_encode (au_text H e) of Inl _ \<Rightarrow> [] | Inr frame \<Rightarrow> [frame])"

definition send_ok :: "bool \<Rightarrow> auth_ok \<Rightarrow> (auth_error + unit) \<times> bytes list" where
  "send_ok written a = (case auth_ok_encode a of Inl e \<Rightarrow> (Inl (Encoding e), [])
     | Inr frame \<Rightarrow> if written then (Inr (), [frame]) else (Inl Write_Failed, []))"

definition resolve_session ::
  "('a auth_host_scheme) \<Rightarrow> auth_draw \<Rightarrow> u32 \<Rightarrow> auth_hello \<Rightarrow> u16 \<Rightarrow> u16 \<Rightarrow> daemon \<Rightarrow>
   (auth_error + bytes \<times> bytes) \<times> daemon" where
  "resolve_session H x uid hello cols rows d =
     (if ah_session_id hello = replicate 16 0 then
        (case spawn_session (host.truncate H) (fst (ax_session x)) (snd (ax_session x)) (ax_spawned x) (ax_now_ms x)
             uid cols rows d of
           (Inl e, d) \<Rightarrow> (Inl (Spawn_Refused e), d) | (Inr r, d) \<Rightarrow> (Inr r, d))
      else (case map_of (dm_sessions d) (ah_session_id hello) of
          Some s \<Rightarrow> if se_uid s = uid \<and> se_token s = ah_session_token hello
            then (Inr (ah_session_id hello, ah_session_token hello), d) else (Inl Foreign_Session, d)
        | None \<Rightarrow> (Inl Foreign_Session, d)))"

text \<open>The common end of both paths: the hashes, the session and the \<open>AuthOk\<close>.\<close>

definition finish_auth ::
  "('a auth_host_scheme) \<Rightarrow> auth_draw \<Rightarrow> u32 \<Rightarrow> bytes \<Rightarrow> auth_hello \<Rightarrow> u16 \<Rightarrow> u16 \<Rightarrow> daemon \<Rightarrow>
   (auth_error + u32) \<times> bytes list \<times> daemon" where
  "finish_auth H x uid token hello cols rows d =
     (case ax_hashes x of None \<Rightarrow> (Inl Chain_Error, [], d)
      | Some hashes \<Rightarrow> (case resolve_session H x uid hello cols rows d of
          (Inl e, d) \<Rightarrow> (Inl e, send_fail H e, d)
        | (Inr (sid, stok), d) \<Rightarrow>
           (let (r, out) = send_ok (ax_written x) \<lparr>ao_auth_token = token, ao_uid = uid, ao_session_id = sid,
                  ao_session_token = stok, ao_hashes = hashes\<rparr> in
            (res_bind r (\<lambda>_. Inr uid), out, d))))"

section \<open>The ceremonies\<close>

definition do_enroll ::
  "('a auth_host_scheme) \<Rightarrow> bool \<Rightarrow> bytes \<Rightarrow> bytes \<Rightarrow> int \<Rightarrow> daemon \<Rightarrow> (auth_error + u32 \<times> rstr) \<times> daemon" where
  "do_enroll H saved reply chal now d = (case enroll_decode reply of Inl e \<Rightarrow> (Inl (Enroll_Frame e), d)
    | Inr e \<Rightarrow> (case nonce_consume (en_nonce e) now (dm_nonces d) of
        (None, m) \<Rightarrow> (Inl Bad_Nonce, d\<lparr>dm_nonces := m\<rparr>)
      | (Some uid, m) \<Rightarrow> (let d = d\<lparr>dm_nonces := m\<rparr> in
          case verify_registration (au_lib H) (dm_rp_id d) (dm_origin d) chal
              (en_client_data_json e) (en_attestation_object e) of
            Inl err \<Rightarrow> (Inl (Ceremony err), d)
          | Inr reg \<Rightarrow>
             (let cid = ho_hex H (rd_credential_id reg);
                  name = (case ho_unix_name H uid of Some n \<Rightarrow> n @ lit ''@'' @ dm_origin d
                    | None \<Rightarrow> lit ''uid-'' @ dec_digits (unat uid) @ lit ''@'' @ dm_origin d);
                  (r, dv) = register saved \<lparr>rg_uid = uid, rg_credential_id = cid,
                    rg_public_key = ho_hex H (rd_public_key reg), rg_rp_id = dm_rp_id d, rg_origin = dm_origin d,
                    rg_user_name = name, rg_sign_count = rd_sign_count reg, rg_created = now,
                    rg_last_used = Some now\<rparr> (dm_devices d);
                  d = d\<lparr>dm_devices := dv\<rparr> in
              case r of Inl err \<Rightarrow> (Inl (Store err), d) | Inr _ \<Rightarrow> (Inr (uid, cid), d)))))"

definition do_assert ::
  "('a auth_host_scheme) \<Rightarrow> bool \<Rightarrow> bytes \<Rightarrow> bytes \<Rightarrow> int \<Rightarrow> daemon \<Rightarrow> (auth_error + u32 \<times> rstr) \<times> daemon" where
  "do_assert H saved reply chal now d = (case assert_decode reply of Inl e \<Rightarrow> (Inl (Assert_Frame e), d)
    | Inr a \<Rightarrow> (let cid = ho_hex H (as_credential_id a) in
        case find_credential cid (dm_devices d) of None \<Rightarrow> (Inl Unknown_Credential, d)
        | Some reg \<Rightarrow> (case au_unhex H (rg_public_key reg) of None \<Rightarrow> (Inl Stored_Key, d)
          | Some key \<Rightarrow> (case verify_assertion (au_lib H) (dm_rp_id d) (dm_origin d) chal
                (as_client_data_json a) (as_authenticator_data a) (as_signature a) key of
              Inl err \<Rightarrow> (Inl (Ceremony err), d)
            | Inr n \<Rightarrow> (let (r, dv) = touched saved cid n now (dm_devices d); d = d\<lparr>dm_devices := dv\<rparr> in
                case r of Inl err \<Rightarrow> (Inl (Store err), d) | Inr _ \<Rightarrow> (Inr (rg_uid reg, cid), d))))))"

section \<open>The handshake\<close>

text \<open>Either the handshake is over, or the challenge is out and the reply is awaited.\<close>

datatype auth_state = Over "auth_error + u32" | Awaiting auth_hello bytes

definition hello_cols :: "auth_hello \<Rightarrow> u16" where "hello_cols h = (if ah_cols h = 0 then 80 else ah_cols h)"
definition hello_rows :: "auth_hello \<Rightarrow> u16" where "hello_rows h = (if ah_rows h = 0 then 24 else ah_rows h)"

definition auth_begin ::
  "('a auth_host_scheme) \<Rightarrow> auth_draw \<Rightarrow> bytes \<Rightarrow> daemon \<Rightarrow> auth_state \<times> bytes list \<times> daemon" where
  "auth_begin H x payload d = (case auth_hello_decode payload of Inl e \<Rightarrow> (Over (Inl (Auth_Hello_Frame e)), [], d)
    | Inr hello \<Rightarrow>
       (case (if ah_auth_token hello \<noteq> replicate 32 0
              then validate_token (ho_hex H) (ah_auth_token hello) (ax_now x) (dm_devices d) else None) of
          Some uid \<Rightarrow>
            (let (r, dv) = rotate_token (ho_hex H) (ax_saved1 x) (ax_saved2 x) (ax_token x)
                   (Some (ah_auth_token hello)) uid None (ax_now x) (dm_devices d);
                 d = d\<lparr>dm_devices := dv\<rparr> in
             case r of Inl e \<Rightarrow> (Over (Inl (Store e)), [], d)
             | Inr token \<Rightarrow> apfst Over (finish_auth H x uid token hello (hello_cols hello) (hello_rows hello) d))
        | None \<Rightarrow> (case ax_hashes x of None \<Rightarrow> (Over (Inl Chain_Error), [], d)
          | Some hashes \<Rightarrow>
             (case challenge_encode \<lparr>ch_challenge = ax_challenge x, ch_rp_id = dm_rp_id d, ch_hashes = hashes\<rparr> of
                Inl e \<Rightarrow> (Over (Inl (Encoding e)), [], d)
              | Inr frame \<Rightarrow> if ax_written x then (Awaiting hello (ax_challenge x), [frame], d)
                  else (Over (Inl Write_Failed), [], d)))))"

text \<open>\<open>reply\<close> is what \<open>next_frame\<close> gave; \<open>now\<close> was read when the handshake began.\<close>

definition auth_reply ::
  "('a auth_host_scheme) \<Rightarrow> auth_draw \<Rightarrow> int \<Rightarrow> auth_hello \<Rightarrow> bytes \<Rightarrow> handshake_error + byte \<times> bytes \<Rightarrow> daemon \<Rightarrow>
   (auth_error + u32) \<times> bytes list \<times> daemon" where
  "auth_reply H x now hello chal reply d = (case reply of Inl e \<Rightarrow> (Inl (No_Reply e), send_fail H (No_Reply e), d)
    | Inr (mty, payload) \<Rightarrow>
       (case (if mty = MSG_ENROLL then do_enroll H (ax_saved1 x) payload chal now d
              else if mty = MSG_ASSERT then do_assert H (ax_saved1 x) payload chal now d
              else (Inl Unexpected_Reply, d)) of
          (Inl e, d) \<Rightarrow> (Inl e, send_fail H e, d)
        | (Inr (uid, cid), d) \<Rightarrow>
            (let (r, dv) = issue_token (ho_hex H) (ax_saved2 x) (ax_token x) uid (Some cid) now (dm_devices d);
                 d = d\<lparr>dm_devices := dv\<rparr> in
             case r of Inl e \<Rightarrow> (Inl (Store e), [], d)
             | Inr token \<Rightarrow> finish_auth H x uid token hello (hello_cols hello) (hello_rows hello) d)))"

text \<open>The handshake on the chunks of the stream; \<open>others\<close> is what other connections do to the daemon
  while the reply is awaited.\<close>

definition auth_run ::
  "('a auth_host_scheme) \<Rightarrow> auth_draw \<Rightarrow> auth_draw \<Rightarrow> (daemon \<Rightarrow> daemon) \<Rightarrow> bytes \<Rightarrow> bytes \<Rightarrow> bytes list \<Rightarrow> daemon \<Rightarrow>
   (auth_error + u32) \<times> bytes list \<times> bytes \<times> bytes list \<times> daemon" where
  "auth_run H x y others payload buf chunks d = (case auth_begin H x payload d of
      (Over r, out, d) \<Rightarrow> (r, out, buf, chunks, d)
    | (Awaiting hello chal, out, d) \<Rightarrow>
       (let (reply, buf, chunks) = (case next_frame chunks buf of
              Inl e \<Rightarrow> (Inl e, buf, []) | Inr (f, buf, chunks) \<Rightarrow> (Inr f, buf, chunks));
            (r, out', d) = auth_reply H y (ax_now x) hello chal reply (others d) in
        (r, out @ out', buf, chunks, d)))"

section \<open>A connection\<close>


datatype incoming_error =
    Rejected_Path rstr
  | Handshake handshake_error
  | Not_Authenticated auth_error
  | Refused u16 rstr

text \<open>\<open>handle_incoming\<close> up to the claim of the session: the bytes that came in behind the hello, the
  hello, and the session it is admitted to.\<close>

definition handle_incoming ::
  "('a auth_host_scheme) \<Rightarrow> auth_draw \<Rightarrow> auth_draw \<Rightarrow> (daemon \<Rightarrow> daemon) \<Rightarrow> rstr \<Rightarrow> bytes list \<Rightarrow> daemon \<Rightarrow>
   (incoming_error + bytes \<times> hello \<times> session) \<times> bytes list \<times> daemon" where
  "handle_incoming H x y others path chunks d =
     (let admit = (\<lambda>uid mty payload buf d out. (case check_hello (map_of (dm_sessions d)) uid mty payload of
            Inl (code, msg) \<Rightarrow> (Inl (Refused code msg), out @ [encode_error code msg], d)
          | Inr (hello, sess) \<Rightarrow> (Inr (buf, hello, sess), out, d))) in
      if path \<noteq> WT_PATH \<and> path \<noteq> lit ''/'' then (Inl (Rejected_Path path), [], d)
      else case next_frame chunks [] of Inl e \<Rightarrow> (Inl (Handshake e), [], d)
      | Inr ((mty, payload), buf, chunks) \<Rightarrow>
          if mty = MSG_AUTH_HELLO then
            (case auth_run H x y others payload buf chunks d of
               (Inl e, out, _, _, d) \<Rightarrow> (Inl (Not_Authenticated e), out, d)
             | (Inr uid, out, buf, chunks, d) \<Rightarrow>
                 (case next_frame chunks buf of Inl e \<Rightarrow> (Inl (Handshake e), out, d)
                  | Inr ((mty, payload), buf, chunks) \<Rightarrow> admit (Some uid) mty payload buf d out))
          else admit None mty payload buf d [])"

end
