(* ===== verification/Auth_Props.thy ===== *)
theory Auth_Props
  imports Auth
begin

text \<open>
  Who gets into a session: every path of the handshake to an authenticated user needs a live token, a
  live nonce or a verified assertion, and every path of \<open>handle_incoming\<close> to a session needs its id
  and token, and for a browser that the session belongs to the authenticated user.
\<close>

unbundle bit_operations_syntax

section \<open>Proofs of a user\<close>

text \<open>What a verified assertion establishes.\<close>

definition assertion_valid ::
  "webauthn_lib \<Rightarrow> rstr \<Rightarrow> rstr \<Rightarrow> bytes \<Rightarrow> bytes \<Rightarrow> assertion \<Rightarrow> bool" where
  "assertion_valid W rp_id origin chal key a \<longleftrightarrow>
     (\<exists>cd. wl_client_data W (as_client_data_json a) = Some cd \<and> cd_typ cd = lit ''webauthn.get'' \<and>
        cd_origin cd = origin \<and> \<not> cd_cross_origin cd \<and> cd_challenge cd = wl_base64url W chal) \<and>
     37 \<le> length (as_authenticator_data a) \<and>
     slc 0 32 (as_authenticator_data a) = wl_sha256 W rp_id \<and>
     as_authenticator_data a ! 32 AND FLAG_UP \<noteq> 0 \<and> as_authenticator_data a ! 32 AND FLAG_UV \<noteq> 0 \<and>
     wl_ecdsa W key (as_authenticator_data a @ wl_sha256 W (as_client_data_json a)) (as_signature a)"

definition token_proves :: "('a auth_host_scheme) \<Rightarrow> daemon \<Rightarrow> int \<Rightarrow> auth_hello \<Rightarrow> u32 \<Rightarrow> bool" where
  "token_proves H d now h uid \<longleftrightarrow> ah_auth_token h \<noteq> replicate 32 0 \<and>
     validate_token (ho_hex H) (ah_auth_token h) now (dm_devices d) = Some uid"

definition nonce_proves :: "daemon \<Rightarrow> int \<Rightarrow> bytes \<Rightarrow> u32 \<Rightarrow> bool" where
  "nonce_proves d now reply uid \<longleftrightarrow>
     (\<exists>e. enroll_decode reply = Inr e \<and> fst (nonce_consume (en_nonce e) now (dm_nonces d)) = Some uid)"

definition passkey_proves :: "('a auth_host_scheme) \<Rightarrow> daemon \<Rightarrow> bytes \<Rightarrow> bytes \<Rightarrow> u32 \<Rightarrow> bool" where
  "passkey_proves H d chal reply uid \<longleftrightarrow>
     (\<exists>a reg key. assert_decode reply = Inr a \<and>
        find_credential (ho_hex H (as_credential_id a)) (dm_devices d) = Some reg \<and> rg_uid reg = uid \<and>
        au_unhex H (rg_public_key reg) = Some key \<and>
        assertion_valid (au_lib H) (dm_rp_id d) (dm_origin d) chal key a)"

lemma check_client_data_Inr:
  "check_client_data W raw ty origin chal = Inr u \<longleftrightarrow>
    (\<exists>cd. wl_client_data W raw = Some cd \<and> cd_typ cd = ty \<and> cd_origin cd = origin \<and> \<not> cd_cross_origin cd \<and>
       cd_challenge cd = wl_base64url W chal)"
  by (cases "wl_client_data W raw") (auto simp: check_client_data_def ok_or_def)

lemma parse_auth_data_Inr:
  assumes "parse_auth_data data = Inr ad"
  shows "37 \<le> length data \<and> ad_rp_id_hash ad = slc 0 32 data \<and> ad_flags ad = data ! 32"
  using assms by (auto simp: parse_auth_data_def Let_def res_bind_eq_Inr_iff split: if_splits)

lemma check_flags_Inr: "check_auth_data_flags f = Inr u \<longleftrightarrow> f AND FLAG_UP \<noteq> 0 \<and> f AND FLAG_UV \<noteq> 0"
  by (auto simp: check_auth_data_flags_def)

lemma verify_assertion_sound:
  assumes "verify_assertion W rp_id origin chal (as_client_data_json a) (as_authenticator_data a) (as_signature a) key = Inr n"
  shows "assertion_valid W rp_id origin chal key a"
  using assms parse_auth_data_Inr [of "as_authenticator_data a"]
  by (auto simp: verify_assertion_def res_bind_eq_Inr_iff check_client_data_Inr check_flags_Inr assertion_valid_def
      split: if_splits)

lemma do_enroll_sound:
  assumes "do_enroll H saved reply chal now d = (Inr (uid, cid), d')"
  shows "nonce_proves d now reply uid"
proof -
  obtain e where e: "enroll_decode reply = Inr e" using assms by (cases "enroll_decode reply") (auto simp: do_enroll_def)
  obtain u m where "nonce_consume (en_nonce e) now (dm_nonces d) = (u, m)" by fastforce
  with assms e show ?thesis
    by (cases u) (auto simp: do_enroll_def nonce_proves_def Let_def split: sum.splits prod.splits)
qed

lemma do_assert_sound:
  assumes "do_assert H saved reply chal now d = (Inr (uid, cid), d')"
  shows "passkey_proves H d chal reply uid"
  using assms verify_assertion_sound
  by (fastforce simp: do_assert_def passkey_proves_def Let_def split: sum.splits option.splits prod.splits)

section \<open>The handshake\<close>

lemma finish_auth_uid: "finish_auth H x uid token h c r d = (Inr u, out, d') \<Longrightarrow> u = uid"
  by (auto simp: finish_auth_def res_bind_eq_Inr_iff split: option.splits sum.splits prod.splits)

lemma auth_begin_Over:
  assumes "auth_begin H x payload d = (Over (Inr uid), out, d')"
  shows "\<exists>h. auth_hello_decode payload = Inr h \<and> token_proves H d (ax_now x) h uid"
  using assms finish_auth_uid
  by (fastforce simp: auth_begin_def token_proves_def Let_def apfst_def map_prod_def
      split: sum.splits option.splits prod.splits if_splits)

lemma auth_begin_Awaiting:
  assumes "auth_begin H x payload d = (Awaiting h chal, out, d')"
  shows "auth_hello_decode payload = Inr h \<and> chal = ax_challenge x \<and> d' = d"
  using assms
  by (auto simp: auth_begin_def Let_def apfst_def map_prod_def
      split: sum.splits option.splits prod.splits if_splits)

lemma auth_reply_sound:
  assumes "auth_reply H y now h chal reply d = (Inr uid, out, d')"
  shows "\<exists>payload. (reply = Inr (MSG_ENROLL, payload) \<and> nonce_proves d now payload uid) \<or>
    (reply = Inr (MSG_ASSERT, payload) \<and> passkey_proves H d chal payload uid)"
proof -
  obtain mty payload where r: "reply = Inr (mty, payload)"
    using assms by (cases reply) (auto simp: auth_reply_def)
  let ?c = "if mty = MSG_ENROLL then do_enroll H (ax_saved1 y) payload chal now d
    else if mty = MSG_ASSERT then do_assert H (ax_saved1 y) payload chal now d else (Inl Unexpected_Reply, d)"
  obtain u cid e where c: "?c = (Inr (u, cid), e)"
    using assms by (cases ?c; cases "fst ?c") (auto simp: auth_reply_def r)
  have "u = uid"
    using assms unfolding auth_reply_def r
    by (auto simp: c Let_def split: sum.splits prod.splits dest: finish_auth_uid)
  with c show ?thesis by (auto simp: r dest: do_enroll_sound do_assert_sound split: if_splits)
qed

text \<open>All the ways a handshake ends with a user.\<close>

definition authenticates ::
  "('a auth_host_scheme) \<Rightarrow> auth_draw \<Rightarrow> (daemon \<Rightarrow> daemon) \<Rightarrow> bytes \<Rightarrow> bytes \<Rightarrow> bytes list \<Rightarrow> daemon \<Rightarrow> u32 \<Rightarrow> bool"
where
  "authenticates H x others payload buf chunks d uid \<longleftrightarrow>
     (\<exists>h. auth_hello_decode payload = Inr h \<and> (token_proves H d (ax_now x) h uid \<or>
        (\<exists>mty reply rest. next_frame chunks buf = Inr ((mty, reply), rest) \<and>
           (mty = MSG_ENROLL \<and> nonce_proves (others d) (ax_now x) reply uid \<or>
            mty = MSG_ASSERT \<and> passkey_proves H (others d) (ax_challenge x) reply uid))))"

lemma auth_run_sound:
  assumes "auth_run H x y others payload buf chunks d = (Inr uid, res)"
  shows "authenticates H x others payload buf chunks d uid"
proof (cases "auth_begin H x payload d")
  case (fields st out d1)
  show ?thesis
  proof (cases st)
    case (Over r)
    with assms fields auth_begin_Over [of H x payload d uid] show ?thesis
      by (auto simp: auth_run_def authenticates_def)
  next
    case (Awaiting h chal)
    note b = auth_begin_Awaiting [OF fields [unfolded Awaiting]]
    obtain out2 d2 where r: "auth_reply H y (ax_now x) h chal
        (case next_frame chunks buf of Inl e \<Rightarrow> Inl e | Inr (f, _) \<Rightarrow> Inr f) (others d) = (Inr uid, out2, d2)"
      using assms b unfolding auth_run_def fields Awaiting
      by (auto simp: Let_def split: prod.splits sum.splits)
    from auth_reply_sound [OF r] b show ?thesis
      by (auto simp: authenticates_def split: sum.splits prod.splits)
  qed
qed

section \<open>Admission\<close>

lemma check_hello_Inr:
  "check_hello sessions auth mty payload = Inr (hello, sess) \<longleftrightarrow>
    mty = MSG_HELLO \<and> hello_decode payload = Inr hello \<and> h_protocol hello = PROTOCOL_VERSION \<and>
    sessions (h_session_id hello) = Some sess \<and> se_token sess = h_token hello \<and>
    (case auth of None \<Rightarrow> True | Some uid \<Rightarrow> se_uid sess = uid)"
  by (auto simp: check_hello_def split: if_splits sum.splits option.splits)

text \<open>C2: Nobody gets into a session without its secrets, and no browser into another user's: a
  connection that is admitted named a registered session and its token in a hello of this protocol
  version; and if it opened with the authentication handshake, the session's user is one for whom
  the handshake had a live session token, a live enrolment nonce, or an assertion whose signature
  verifies with that user's registered key over this handshake's challenge, origin and relying
  party, with user presence and verification.\<close>

theorem admission_authenticated:
  assumes "handle_incoming H x y others path chunks d = (Inr (buf, hello, sess), out, d')"
  shows "map_of (dm_sessions d') (h_session_id hello) = Some sess \<and> se_token sess = h_token hello \<and>
    h_protocol hello = PROTOCOL_VERSION \<and>
    (\<exists>mty payload rest cs. next_frame chunks [] = Inr ((mty, payload), rest, cs) \<and>
       (mty = MSG_HELLO \<or> mty = MSG_AUTH_HELLO \<and> authenticates H x others payload rest cs d (se_uid sess)))"
proof -
  obtain mty payload rest cs where f: "next_frame chunks [] = Inr ((mty, payload), rest, cs)"
    using assms by (cases "next_frame chunks []") (auto simp: handle_incoming_def Let_def split: if_splits)
  show ?thesis
  proof (cases "mty = MSG_AUTH_HELLO")
    case True
    obtain r out1 b1 c1 d1 where run: "auth_run H x y others payload rest cs d = (r, out1, b1, c1, d1)"
      by (metis prod_cases5)
    obtain uid where uid: "r = Inr uid"
      using assms by (cases r) (auto simp: handle_incoming_def Let_def f True run split: if_splits)
    obtain m2 p2 b2 c2 where g: "next_frame c1 b1 = Inr ((m2, p2), b2, c2)"
      using assms by (cases "next_frame c1 b1") (auto simp: handle_incoming_def Let_def f True run uid split: if_splits)
    have "check_hello (map_of (dm_sessions d1)) (Some uid) m2 p2 = Inr (hello, sess) \<and> d1 = d'"
      using assms by (auto simp: handle_incoming_def Let_def f True run uid g split: if_splits sum.splits prod.splits)
    then show ?thesis using auth_run_sound [OF run [unfolded uid]] f True by (auto simp: check_hello_Inr)
  next
    case False
    then have "check_hello (map_of (dm_sessions d)) None mty payload = Inr (hello, sess) \<and> d = d'"
      using assms by (auto simp: handle_incoming_def Let_def f split: if_splits sum.splits prod.splits)
    then show ?thesis using f by (auto simp: check_hello_Inr)
  qed
qed

text \<open>A browser that comes back with a live token and asks for its session.\<close>

definition auth_host_ex :: auth_host where
  "auth_host_ex = \<lparr>ho_hex = hex_enc_ex, ho_max_cells = 1000, ho_unix_name = (\<lambda>_. None), au_lib = webauthn_ex,
     au_unhex = hex_dec_ex, au_text = (\<lambda>_. [])\<rparr>"

definition auth_draw_ex :: auth_draw where
  "auth_draw_ex = \<lparr>ax_now = 100, ax_now_ms = 0, ax_token = replicate 32 9, ax_challenge = replicate 32 8,
     ax_session = ([], []), ax_spawned = None, ax_hashes = Some [], ax_saved1 = True, ax_saved2 = True,
     ax_written = True\<rparr>"

definition session_ex :: session where
  "session_ex = session_new (replicate 16 1) (replicate 32 2) 7 80 24 0"

definition daemon_ex :: daemon where
  "daemon_ex = \<lparr>dm_sessions = [(replicate 16 1, session_ex)], dm_devices = \<lparr>dv_registrations = [],
     dv_tokens = [\<lparr>sk_token = hex_enc_ex (replicate 32 3), sk_uid = 7, sk_credential_id = None, sk_last_seen = 50\<rparr>]\<rparr>,
     dm_nonces = [], dm_port = 1, dm_rp_id = [], dm_origin = []\<rparr>"

definition auth_hello_ex :: auth_hello where
  "auth_hello_ex = \<lparr>ah_auth_token = replicate 32 3, ah_session_id = replicate 16 1,
     ah_session_token = replicate 32 2, ah_cols = 80, ah_rows = 24\<rparr>"

definition hello_ex :: hello where
  "hello_ex = \<lparr>h_protocol = PROTOCOL_VERSION, h_session_id = replicate 16 1, h_token = replicate 32 2,
     h_cols = 80, h_rows = 24\<rparr>"

lemma next_frame_whole:
  assumes "1 + length p \<le> MAX_FRAME"
  shows "next_frame (encode_frame t p # cs) [] = Inr ((t, p), [], cs)"
proof -
  have "split_frame [] = Inr (None, [])" by (simp add: split_frame_def peek_len_def)
  moreover have "encode_frame t p \<noteq> []" by (simp add: encode_frame_def)
  ultimately show ?thesis
    using split_frame_encode [OF assms, of t "[]"] by (simp add: next_frame.simps)
qed

lemma admission_ex:
  "\<exists>out d'. handle_incoming auth_host_ex auth_draw_ex auth_draw_ex id (lit ''/'')
      [auth_hello_encode auth_hello_ex, hello_encode hello_ex] daemon_ex = (Inr ([], hello_ex, session_ex), out, d')"
proof -
  let ?p = "ah_auth_token auth_hello_ex @ ah_session_id auth_hello_ex @ ah_session_token auth_hello_ex @
    le16 (ah_cols auth_hello_ex) @ le16 (ah_rows auth_hello_ex)"
  let ?q = "le16 (h_protocol hello_ex) @ h_session_id hello_ex @ h_token hello_ex @ le16 (h_cols hello_ex) @ le16 (h_rows hello_ex)"
  have frames: "next_frame [auth_hello_encode auth_hello_ex, hello_encode hello_ex] [] =
      Inr ((MSG_AUTH_HELLO, ?p), [], [hello_encode hello_ex])"
    "next_frame [hello_encode hello_ex] [] = Inr ((MSG_HELLO, ?q), [], [])"
    unfolding auth_hello_encode_def hello_encode_def
    by (rule next_frame_whole; simp add: auth_hello_ex_def hello_ex_def MAX_FRAME_def byte_simps)+
  have dec: "auth_hello_decode ?p = Inr auth_hello_ex" "hello_decode ?q = Inr hello_ex"
    by (simp_all add: auth_hello_decode_def hello_decode_def auth_hello_ex_def hello_ex_def byte_simps)
  have nz: "replicate 32 (3 :: byte) \<noteq> replicate 32 0" "replicate 16 (1 :: byte) \<noteq> replicate 16 0"
    by (simp_all add: replicate_eq_replicate)
  have tok: "validate_token hex_enc_ex (replicate 32 3) 100 (dm_devices daemon_ex) = Some 7"
    by (simp add: validate_token_def daemon_ex_def SESSION_IDLE_SECS_def)
  have f: "ah_auth_token auth_hello_ex = replicate 32 3" "ah_session_id auth_hello_ex = replicate 16 1"
    "ah_session_token auth_hello_ex = replicate 32 2" by (simp_all add: auth_hello_ex_def)
  have ds: "map_of (dm_sessions daemon_ex) (replicate 16 1) = Some session_ex" "se_uid session_ex = 7"
    "se_token session_ex = replicate 32 2" by (simp_all add: daemon_ex_def session_ex_def session_new_def)
  have h: "ho_hex auth_host_ex = hex_enc_ex" "ax_now auth_draw_ex = 100" "ax_hashes auth_draw_ex = Some []"
    "ax_saved1 auth_draw_ex" "ax_saved2 auth_draw_ex" "ax_written auth_draw_ex"
    by (simp_all add: auth_host_ex_def auth_draw_ex_def)
  have run_ex: "\<exists>out d'. auth_run auth_host_ex auth_draw_ex auth_draw_ex id p [] cs daemon_ex =
      (Inr 7, out, [], cs, d') \<and> dm_sessions d' = dm_sessions daemon_ex"
    if "auth_hello_decode p = Inr auth_hello_ex" for p cs
    by (simp add: auth_run_def auth_begin_def that f h nz tok ds rotate_token_def persist_def issue_token_def
        finish_auth_def resolve_session_def send_ok_def auth_ok_encode_def put_hashes_def apfst_def Let_def
        MAX_CHAIN_HASHES_def)
  obtain out d' where run: "auth_run auth_host_ex auth_draw_ex auth_draw_ex id ?p [] [hello_encode hello_ex] daemon_ex =
      (Inr 7, out, [], [hello_encode hello_ex], d')" "dm_sessions d' = dm_sessions daemon_ex" using run_ex [OF dec(1)] by blast
  have "check_hello (map_of (dm_sessions d')) (Some 7) MSG_HELLO ?q = Inr (hello_ex, session_ex)"
    unfolding check_hello_Inr run(2)
    by (simp only: dec) (simp add: hello_ex_def daemon_ex_def session_ex_def session_new_def)
  then show ?thesis
    by (simp add: handle_incoming_def Let_def frames run)
qed

theorem admission_authenticated_witness:
  "\<exists>mty payload rest cs. next_frame [auth_hello_encode auth_hello_ex, hello_encode hello_ex] [] = Inr ((mty, payload), rest, cs) \<and>
    (mty = MSG_HELLO \<or> mty = MSG_AUTH_HELLO \<and>
     authenticates auth_host_ex auth_draw_ex id payload rest cs daemon_ex (se_uid session_ex))"
proof -
  from admission_ex obtain out d' where "handle_incoming auth_host_ex auth_draw_ex auth_draw_ex id (lit ''/'')
      [auth_hello_encode auth_hello_ex, hello_encode hello_ex] daemon_ex = (Inr ([], hello_ex, session_ex), out, d')"
    by blast
  from admission_authenticated [OF this] show ?thesis by blast
qed

end
