(* ===== verification/Transport_Props.thy ===== *)
theory Transport_Props
  imports Transport
begin

text \<open>
  What a transport keeps whatever its peer sends and whatever other tasks do to its session: its
  buffers are bounded, and once another transport has claimed the session it neither takes control
  frames in nor survives its next wait.
\<close>

section \<open>Reachable transports\<close>

text \<open>The events of a transport, with any change of the session by other tasks between them.\<close>

inductive transport_reach :: "nat \<Rightarrow> nat option \<Rightarrow> link \<Rightarrow> bool" for max_cells mx where
  attached: "length leftover \<le> 4 + MAX_FRAME + READ_SIZE \<Longrightarrow>
     transport_reach max_cells mx (attach_transport mx hello leftover s)"
| stepped: "transport_reach max_cells mx x \<Longrightarrow> transport_reach max_cells mx (transport_step max_cells mx ev x)"
| others: "transport_reach max_cells mx (s, t) \<Longrightarrow> transport_reach max_cells mx (s', t)"

inductive_cases transport_reachE: "transport_reach max_cells mx x"

section \<open>Bounds\<close>

text \<open>An input record as \<open>on_control\<close> queues it.\<close>

definition record_ok :: "u64 \<times> bytes \<Rightarrow> bool" where
  "record_ok = (\<lambda>(_, d). d \<noteq> [] \<and> length d \<le> MAX_INPUT_BYTES)"

definition busy_ok :: "(u64 \<times> bytes) list \<Rightarrow> bool" where
  "busy_ok q \<longleftrightarrow> list_all record_ok q \<and> busy_bytes q < BUSY_CAP + INPUT_RECORD_OVERHEAD + MAX_INPUT_BYTES"

definition transport_ok :: "transport \<Rightarrow> bool" where
  "transport_ok t \<longleftrightarrow> feed_ok (tp_feed t) \<and> busy_ok (tp_busy t) \<and>
     length (tp_leftover t) \<le> 4 + MAX_FRAME + READ_SIZE"

lemma busy_bytes_snoc: "busy_bytes (q @ [(seq, d)]) = busy_bytes q + INPUT_RECORD_OVERHEAD + length d"
  by (simp add: busy_bytes_def input_record_cost_def)

lemma busy_ok_snoc:
  assumes "busy_ok q" "busy_bytes q < BUSY_CAP" "d \<noteq> []" "length d \<le> MAX_INPUT_BYTES"
  shows "busy_ok (q @ [(seq, d)])"
  using assms by (simp add: busy_ok_def record_ok_def busy_bytes_snoc)

lemma busy_ok_tl: "busy_ok (r # q) \<Longrightarrow> busy_ok q"
  by (simp add: busy_ok_def busy_bytes_def split_def)

lemma drain_busy_ok: "busy_ok q \<Longrightarrow> busy_ok (fst (drain_busy q s))"
proof (induction q s rule: drain_busy.induct)
  case (2 seq data q s)
  obtain r s' where r: "try_input seq data s = (r, s')" by fastforce
  have "busy_ok q" using 2(2) by (rule busy_ok_tl)
  moreover have "r = Inr Queued \<Longrightarrow> busy_ok (fst (drain_busy q s'))"
    using 2(1) [OF r [symmetric] _ refl] \<open>busy_ok q\<close> by simp
  ultimately show ?case
    using 2(2) by (auto simp: r split: sum.split queue_result.split)
qed simp

text \<open>A control frame changes the buffers as follows.\<close>

lemma on_control_ok:
  assumes "on_control epoch mty payload (s, t) = ((s', t'), e)" "feed_ok (tp_feed t)" "busy_ok (tp_busy t)"
    and "mty = MSG_INPUT \<Longrightarrow> busy_bytes (tp_busy t) < BUSY_CAP"
  shows "feed_ok (tp_feed t') \<and> busy_ok (tp_busy t')"
  using assms feed_ok_push_ctrl [of "tp_feed t"] busy_ok_snoc [of "tp_busy t"]
  by (auto simp: on_control_def split: if_splits sum.splits prod.splits)

lemma peek_type_split:
  assumes "peek_type buf = Inr (Some mty)" "split_frame buf = Inr (Some (ty, payload), rest)"
  shows "ty = mty"
proof -
  obtain n where n: "peek_len buf = Inr (Some n)" "4 + n \<le> length buf" "drop 4 (take (4 + n) buf) = ty # payload"
    using assms(2) by (auto simp: split_frame_Some_iff)
  have "0 < n" using n(1) peek_len_SomeD by blast
  with n(2) have "hd (drop 4 (take (4 + n) buf)) = buf ! 4" by (simp add: hd_drop_conv_nth)
  with n assms(1) show ?thesis by (simp add: peek_type_def)
qed

lemma drain_loop_ok:
  assumes "drain_loop epoch BUSY_CAP buf (s, t) = ((s', t'), e)" "feed_ok (tp_feed t)" "busy_ok (tp_busy t)"
  shows "feed_ok (tp_feed t') \<and> busy_ok (tp_busy t') \<and> length (tp_leftover t') \<le> length buf"
  using assms
proof (induction epoch BUSY_CAP buf "(s, t)" arbitrary: s t rule: drain_loop.induct)
  case (1 epoch buf s t)
  show ?case
  proof (cases "se_epoch s \<noteq> epoch \<or> peek_type buf = Inr None \<or> (\<exists>e. peek_type buf = Inl e) \<or>
      (peek_type buf = Inr (Some MSG_INPUT) \<and> BUSY_CAP \<le> busy_bytes (tp_busy t)) \<or> (\<exists>e. split_frame buf = Inl e)")
    case True
    with 1(2-4) show ?thesis
      by (subst (asm) drain_loop.simps) (auto split: if_splits sum.splits option.splits)
  next
    case False
    then obtain mty where p: "se_epoch s = epoch" "peek_type buf = Inr (Some mty)"
        "\<not> (mty = MSG_INPUT \<and> BUSY_CAP \<le> busy_bytes (tp_busy t))"
      by (metis not_None_eq obj_sumE)
    obtain f rest where f: "split_frame buf = Inr (f, rest)" using False by (metis obj_sumE surj_pair)
    show ?thesis
    proof (cases f)
      case None
      then have "length rest \<le> length buf" using f split_frame_None_rest by fastforce
      with 1(2-4) p f None show ?thesis by (subst (asm) drain_loop.simps) auto
    next
      case (Some g)
      obtain ty payload where g: "g = (ty, payload)" by fastforce
      have short: "length rest < length buf" using split_frame_shrinks [of buf ty payload rest] f Some g by simp
      have ty: "ty = mty" using peek_type_split [OF p(2)] f Some g by simp
      obtain s1 t1 e1 where c: "on_control epoch ty payload (s, t) = ((s1, t1), e1)" by (metis prod_cases3 surj_pair)
      have ok: "feed_ok (tp_feed t1) \<and> busy_ok (tp_busy t1)"
        using on_control_ok [OF c 1(3,4)] p(3) ty not_le by auto
      show ?thesis
      proof (cases e1)
        case None
        with 1(2) p f Some g c have r: "drain_loop epoch BUSY_CAP rest (s1, t1) = ((s', t'), e)"
          by (subst (asm) drain_loop.simps) (auto split: if_splits)
        have "feed_ok (tp_feed t') \<and> busy_ok (tp_busy t') \<and> length (tp_leftover t') \<le> length rest"
          using 1(1) p f Some g c None r ok by auto
        with short show ?thesis by linarith
      next
        case (Some err)
        with 1(2) p f \<open>f = Some g\<close> g c ok short show ?thesis
          by (subst (asm) drain_loop.simps) (auto split: if_splits)
      qed
    qed
  qed
qed

lemma transport_ok_cong:
  "tp_feed t' = tp_feed t \<Longrightarrow> tp_busy t' = tp_busy t \<Longrightarrow> tp_leftover t' = tp_leftover t \<Longrightarrow>
   transport_ok t \<Longrightarrow> transport_ok t'"
  by (simp add: transport_ok_def)

lemma push_screen_ok: "transport_ok t \<Longrightarrow> transport_ok (push_screen mx blob reliable t)"
  by (simp add: push_screen_def transport_ok_def feed_ok_push_screen)

lemma retry_input_ack_ok: "transport_ok t \<Longrightarrow> transport_ok (retry_input_ack t)"
  using feed_ok_push_ctrl [of "tp_feed t"]
  by (auto simp: retry_input_ack_def transport_ok_def Let_def split_def split: option.split)

lemma retry_resize_simps [simp]:
  "tp_feed (snd (retry_resize m (s, t))) = tp_feed t" "tp_busy (snd (retry_resize m (s, t))) = tp_busy t"
  "tp_leftover (snd (retry_resize m (s, t))) = tp_leftover t"
  by (auto simp: retry_resize_def split: option.split prod.split sum.split queue_result.split)

lemma queue_exit_ok: "feed_ok f \<Longrightarrow> feed_ok (queue_exit s epoch st f)"
  by (simp add: queue_exit_def feed_ok_push_fin feed_ok_push_screen split: option.split)

lemma transport_prepare_ok:
  assumes "transport_ok t"
  shows "transport_ok (snd (transport_prepare max_cells (s, t)))"
proof -
  obtain s1 t1 e where d: "drain_leftover BUSY_CAP (s, t) = ((s1, t1), e)" by (metis prod_cases3 surj_pair)
  have ok: "transport_ok t1"
    using drain_loop_ok [OF d [unfolded drain_leftover_def prod.case]] assms
    by (auto simp: transport_ok_def)
  obtain q s2 where q: "drain_busy (tp_busy t1) s1 = (q, s2)" by fastforce
  obtain s3 t3 where r: "retry_resize max_cells (s2, t1\<lparr>tp_busy := q\<rparr>) = (s3, t3)" by fastforce
  have "busy_ok q" using drain_busy_ok [of "tp_busy t1" s1] ok q by (simp add: transport_ok_def)
  then have "transport_ok t3"
    using ok retry_resize_simps [of max_cells s2 "t1\<lparr>tp_busy := q\<rparr>"] by (simp add: r transport_ok_def)
  then have "transport_ok (retry_input_ack t3)" by (rule retry_input_ack_ok)
  with ok show ?thesis
    by (cases e; cases "se_exit s3")
      (simp_all add: transport_prepare_def d q r Let_def transport_ok_def feed_ok_pump queue_exit_ok)
qed

lemma transport_write_ok: "n \<le> length (feed_rest (tp_feed t)) \<Longrightarrow> transport_ok t \<Longrightarrow> transport_ok (transport_write n t)"
  by (simp add: transport_write_def transport_ok_def feed_ok_advance)

lemma transport_step_ok:
  assumes "transport_ok t"
  shows "transport_ok (snd (transport_step max_cells mx ev (s, t)))"
proof (cases "transport_enabled ev t")
  case False
  with assms show ?thesis by (simp add: transport_step_def)
next
  case True
  have phase: "transport_ok (t'\<lparr>tp_phase := ph\<rparr>) = transport_ok t'" for t' ph by (simp add: transport_ok_def)
  have select: "transport_ok (snd (transport_arm mx ev (s, t))) \<Longrightarrow> transport_ok (snd (transport_select mx ev (s, t)))"
    by (auto simp: transport_select_def Let_def split_def phase)
  show ?thesis
  proof (cases ev)
    case Prepare
    with True assms show ?thesis by (simp add: transport_step_def transport_prepare_ok)
  next
    case (Flushed r)
    with True assms transport_write_ok [of _ t] show ?thesis
      by (auto simp: transport_step_def flush_bounded_def phase Let_def split: option.splits)
         (auto simp: transport_ok_def feed_ok_pump)
  next
    case (Finished now)
    with True assms show ?thesis by (simp add: transport_step_def phase)
  next
    case (Read_More r)
    have "transport_ok (snd (transport_arm mx ev (s, t)))"
      using True assms by (auto simp: Read_More transport_ok_def split: option.splits)
    with True select show ?thesis by (simp add: transport_step_def Read_More)
  next
    case (Wrote r)
    have "transport_ok (snd (transport_arm mx ev (s, t)))"
      using True assms by (auto simp: Wrote transport_write_ok split: option.splits)
    with True select show ?thesis by (simp add: transport_step_def Wrote)
  qed (use True assms select push_screen_ok in
      \<open>auto simp: transport_step_def transport_ok_def split: option.splits if_splits\<close>)
qed

lemma transport_open_ok:
  assumes "length leftover \<le> 4 + MAX_FRAME + READ_SIZE"
  shows "transport_ok (transport_open mx s epoch leftover resize)"
proof -
  have "busy_ok []" by (simp add: busy_ok_def busy_bytes_def BUSY_CAP_def)
  with assms have "transport_ok \<lparr>tp_epoch = epoch, tp_leftover = leftover, tp_feed = snd (feed_push_ctrl x feed_new),
      tp_busy = [], tp_resize = resize, tp_input_ack = a, tp_phase = Preparing, tp_sent = [], tp_datagrams = []\<rparr>" for x a
    by (simp add: transport_ok_def feed_ok_push_ctrl feed_ok_new)
  then show ?thesis
    unfolding transport_open_def Let_def by (auto intro: push_screen_ok split: option.split)
qed

lemma transport_reach_ok: "transport_reach max_cells mx x \<Longrightarrow> transport_ok (snd x)"
proof (induction rule: transport_reach.induct)
  case (attached leftover hello s)
  then show ?case by (simp add: attach_transport_def Let_def split_def transport_open_ok)
next
  case (stepped x ev)
  then show ?case using transport_step_ok by (cases x) simp
qed simp

text \<open>C10: No peer can make a transport hold more than its budgets: whatever control frames arrive and
  whatever happens to the session, the inputs waiting for the owner stay below 256 KiB plus one
  record, each of them non-empty and at most 32 KiB; the unparsed bytes below a frame plus a read;
  and the queued control frames below their cap, counted exactly.\<close>

theorem transport_buffers_bounded:
  assumes "transport_reach max_cells mx (s, t)"
  shows "busy_bytes (tp_busy t) < BUSY_CAP + INPUT_RECORD_OVERHEAD + MAX_INPUT_BYTES \<and>
    list_all (\<lambda>(_, d). d \<noteq> [] \<and> length d \<le> MAX_INPUT_BYTES) (tp_busy t) \<and>
    length (tp_leftover t) \<le> 4 + MAX_FRAME + READ_SIZE \<and>
    fd_ctrl_bytes (tp_feed t) = sum_list (map length (fd_ctrl (tp_feed t))) \<and> fd_ctrl_bytes (tp_feed t) \<le> CTRL_CAP"
  using transport_reach_ok [OF assms]
  by (simp add: transport_ok_def busy_ok_def record_ok_def feed_ok_def)

theorem transport_buffers_bounded_witness:
  "let x = transport_step 1000 None Prepare (attach_transport None
       \<lparr>h_protocol = PROTOCOL_VERSION, h_session_id = [], h_token = [], h_cols = 80, h_rows = 24\<rparr>
       (encode_input 1 [65]) (session_new [] [] 0 80 24 0)) in
   length (tp_leftover (snd x)) \<le> 4 + MAX_FRAME + READ_SIZE"
  unfolding Let_def
  by (rule transport_buffers_bounded [of 1000 None "fst x" "snd x" for x, unfolded prod.collapse, THEN conjunct2,
        THEN conjunct2, THEN conjunct1, OF stepped [OF attached]])
    (simp add: encode_input_def READ_SIZE_def)

section \<open>A superseded transport\<close>

text \<open>Once another transport has claimed the session, control frames of this one do nothing and its
  next wait ends it.\<close>

lemma superseded_drains_nothing:
  "se_epoch s \<noteq> tp_epoch t \<Longrightarrow> drain_leftover cap (s, t) = ((s, t), None)"
  by (simp add: drain_leftover_def drain_loop.simps)

lemma superseded_leaves:
  assumes "se_epoch s \<noteq> tp_epoch t" "tp_phase t = Selecting" "transport_enabled ev t"
  shows "tp_phase (snd (transport_step max_cells mx ev (s, t))) = Leaving None"
  using assms
  by (cases ev) (auto simp: transport_step_def transport_select_def Let_def transport_write_def push_screen_def split_def
      split: option.split if_split)

end
