(* ===== verification/Transport_Flow.thy ===== *)
theory Transport_Flow
  imports Transport_Props Feed_Reach
begin

text \<open>
  What passes through a transport (\<open>crates/quosh-server/src/transport.rs\<close>): the bytes it reads are a
  sequence of frames, and if every frame of the sequence is of some kind, then so are the calls it
  makes on its session and the frames it sends. The calls are an interface, the locale
  \<open>session_calls\<close>: a property of sessions that they keep is kept by every step of a transport.
\<close>

section \<open>Sequences of frames\<close>

definition frame_sat :: "(byte \<Rightarrow> bytes \<Rightarrow> bool) \<Rightarrow> bytes \<Rightarrow> bool" where
  "frame_sat R x \<longleftrightarrow> (\<exists>mty p. x = encode_frame mty p \<and> 1 + length p < 2 ^ 32 \<and> R mty p)"

lemma frame_satI: "x = encode_frame mty p \<Longrightarrow> 1 + length p < 2 ^ 32 \<Longrightarrow> R mty p \<Longrightarrow> frame_sat R x"
  by (auto simp: frame_sat_def)

lemma frame_sat_mono: "frame_sat R x \<Longrightarrow> (\<And>mty p. R mty p \<Longrightarrow> S mty p) \<Longrightarrow> frame_sat S x"
  by (auto simp: frame_sat_def)

text \<open>The bytes in \<open>buf\<close>, with those in \<open>tail\<close> still to come, are whole frames.\<close>

definition flows :: "(byte \<Rightarrow> bytes \<Rightarrow> bool) \<Rightarrow> bytes \<Rightarrow> bytes \<Rightarrow> bool" where
  "flows R buf tail \<longleftrightarrow> (\<exists>gs. list_all (frame_sat R) gs \<and> buf @ tail = concat gs)"

lemma flows_mono: "flows R buf tail \<Longrightarrow> (\<And>mty p. R mty p \<Longrightarrow> S mty p) \<Longrightarrow> flows S buf tail"
proof -
  assume "flows R buf tail" and m: "\<And>mty p. R mty p \<Longrightarrow> S mty p"
  then obtain gs where gs: "list_all (frame_sat R) gs" "buf @ tail = concat gs" by (auto simp: flows_def)
  have "list_all (frame_sat S) gs" by (rule list.pred_mono_strong [OF gs(1)]) (erule frame_sat_mono, rule m)
  with gs(2) show "flows S buf tail" by (auto simp: flows_def)
qed

lemma flows_shift: "flows R buf (bs @ tail) = flows R (buf @ bs) tail"
  by (simp add: flows_def)

lemma flows_append: "flows R buf tail \<Longrightarrow> list_all (frame_sat R) gs \<Longrightarrow> flows R buf (tail @ concat gs)"
  unfolding flows_def by (metis append.assoc concat_append list_all_append)

lemma peek_len_big:
  assumes "MAX_FRAME < 1 + length p" "1 + length p < 2 ^ 32"
  shows "peek_len (encode_frame mty p @ rest) = Inl TooLarge"
proof -
  have n: "unat (of_nat (1 + length p) :: u32) = 1 + length p"
    using assms(2) by (intro unat_of_nat_small) simp
  have "slc 0 4 (encode_frame mty p @ rest) = le32 (of_nat (1 + length p))"
    by (simp add: encode_frame_def slc_def Let_def)
  with assms(1) n show ?thesis by (simp add: peek_len_def Let_def del: of_nat_Suc)
qed

lemma flows_split:
  assumes "flows R buf tail" "split_frame buf = Inr (Some (mty, p), rest)"
  shows "R mty p \<and> flows R rest tail \<and> buf = encode_frame mty p @ rest \<and> frame_sat R (encode_frame mty p)"
proof -
  obtain gs where gs: "list_all (frame_sat R) gs" "buf @ tail = concat gs" using assms(1) by (auto simp: flows_def)
  have split: "split_frame (concat gs) = Inr (Some (mty, p), rest @ tail)"
    using split_frame_Some_append [OF assms(2), of tail] gs(2) by simp
  show ?thesis
  proof (cases gs)
    case Nil
    with split show ?thesis by (simp add: split_frame_def peek_len_def)
  next
    case (Cons g hs)
    obtain ty q where g: "g = encode_frame ty q" "1 + length q < 2 ^ 32" "R ty q"
      using gs(1) Cons by (auto simp: frame_sat_def)
    have "\<not> MAX_FRAME < 1 + length q"
      using split peek_len_big [OF _ g(2), of ty "concat hs"] by (auto simp: Cons g(1) split_frame_def)
    then have "split_frame (concat gs) = Inr (Some (ty, q), concat hs)"
      by (simp add: Cons g(1) split_frame_encode)
    with split have e: "mty = ty" "p = q" "rest @ tail = concat hs" by simp_all
    then have "buf @ tail = (encode_frame mty p @ rest) @ tail" using gs(2) by (simp add: Cons g(1))
    then have "buf = encode_frame mty p @ rest" by (rule append_same_eq [THEN iffD1])
    with e g gs(1) show ?thesis by (auto simp: Cons flows_def frame_sat_def)
  qed
qed

section \<open>The two directions\<close>

text \<open>Towards the server every input is genuine; towards the client no acknowledgement is ahead of what
  the session has accepted.\<close>

definition up_frame :: "(u64 \<times> bytes \<Rightarrow> bool) \<Rightarrow> byte \<Rightarrow> bytes \<Rightarrow> bool" where
  "up_frame G mty p \<longleftrightarrow> (mty = MSG_INPUT \<longrightarrow> (\<forall>seq d. decode_input p = Inr (seq, d) \<longrightarrow> G (seq, d)))"

definition down_frame :: "nat \<Rightarrow> byte \<Rightarrow> bytes \<Rightarrow> bool" where
  "down_frame acc mty p \<longleftrightarrow> (mty = MSG_INPUT_ACK \<longrightarrow> (\<forall>n. decode_u64 p = Inr n \<longrightarrow> unat n \<le> acc))"

lemma down_frame_mono: "down_frame m mty p \<Longrightarrow> m \<le> n \<Longrightarrow> down_frame n mty p"
  by (fastforce simp: down_frame_def)

lemma up_frame_mono: "up_frame G mty p \<Longrightarrow> (\<And>x. G x \<Longrightarrow> H x) \<Longrightarrow> up_frame H mty p"
  by (simp add: up_frame_def)

lemma down_frames:
  "frame_sat (down_frame acc) encode_pong" "frame_sat (down_frame acc) (encode_exit st)"
  "length (ho_session_id k) = 16 \<Longrightarrow> frame_sat (down_frame acc) (hello_ok_encode k)"
  "length blob + 1 < 2 ^ 32 \<Longrightarrow> frame_sat (down_frame acc) (encode_frame MSG_SCREEN blob)"
  "unat n \<le> acc \<Longrightarrow> frame_sat (down_frame acc) (encode_input_ack n)"
proof -
  show "frame_sat (down_frame acc) encode_pong"
    by (rule frame_satI [OF encode_pong_def]) (simp_all add: down_frame_def msg_defs)
  show "frame_sat (down_frame acc) (encode_exit st)"
    by (rule frame_satI [OF encode_exit_def]) (simp_all add: down_frame_def msg_defs)
  show "frame_sat (down_frame acc) (encode_frame MSG_SCREEN blob)" if "length blob + 1 < 2 ^ 32"
    by (rule frame_satI [OF refl]) (use that in \<open>simp_all add: down_frame_def msg_defs\<close>)
  show "frame_sat (down_frame acc) (encode_input_ack n)" if "unat n \<le> acc"
    by (rule frame_satI [OF encode_input_ack_def]) (use that in \<open>simp_all add: down_frame_def decode_u64_def rd_le_words\<close>)
  show "frame_sat (down_frame acc) (hello_ok_encode k)" if "length (ho_session_id k) = 16"
    by (rule frame_satI [OF hello_ok_encode_def]) (use that in \<open>simp_all add: down_frame_def msg_defs byte_simps\<close>)
qed

section \<open>The calls on a session\<close>

definition link_core :: "(session \<Rightarrow> bool) \<Rightarrow> (u64 \<times> bytes \<Rightarrow> bool) \<Rightarrow> nat \<Rightarrow> link \<Rightarrow> bool" where
  "link_core P G acc = (\<lambda>(s, t). P s \<and> list_all G (tp_busy t) \<and>
     (case tp_input_ack t of None \<Rightarrow> True | Some n \<Rightarrow> unat n \<le> acc) \<and>
     sends (frame_sat (down_frame acc)) (tp_sent t) (tp_feed t))"

definition link_flow :: "(session \<Rightarrow> bool) \<Rightarrow> (u64 \<times> bytes \<Rightarrow> bool) \<Rightarrow> nat \<Rightarrow> bytes \<Rightarrow> link \<Rightarrow> bool" where
  "link_flow P G acc tail x \<longleftrightarrow> link_core P G acc x \<and> flows (up_frame G) (tp_leftover (snd x)) tail"

lemma link_core_update:
  assumes "link_core P G acc (s, t)" "P s'" "list_all G (tp_busy t')" "tp_input_ack t' = tp_input_ack t"
    and "tp_sent t' = tp_sent t" "feed_reach (frame_sat (down_frame acc)) [] (tp_feed t) (tp_feed t')"
  shows "link_core P G acc (s', t')"
  using assms sends_reach [of _ "tp_sent t" "tp_feed t" "[]" "tp_feed t'"] by (simp add: link_core_def)

lemma link_core_cong:
  "link_core P G acc (s, t) \<Longrightarrow> P s' \<Longrightarrow> tp_busy t' = tp_busy t \<Longrightarrow> tp_input_ack t' = tp_input_ack t \<Longrightarrow>
   tp_sent t' = tp_sent t \<Longrightarrow> tp_feed t' = tp_feed t \<Longrightarrow> link_core P G acc (s', t')"
  by (simp add: link_core_def)

locale session_calls =
  fixes P :: "session \<Rightarrow> bool" and G :: "u64 \<times> bytes \<Rightarrow> bool" and acc :: nat
  assumes input: "P s \<Longrightarrow> G (seq, d) \<Longrightarrow> P (snd (try_input seq d s))"
    and resize: "P s \<Longrightarrow> P (snd (try_resize m c r s))"
    and ack: "P s \<Longrightarrow> P (try_ack v s)"
    and hangup: "P s \<Longrightarrow> P (session_request_hangup s)"
    and claim: "P s \<Longrightarrow> P (snd (claim_transport s))"
    and detach: "P s \<Longrightarrow> P (detach_if_epoch e now s)"
    and accepted: "P s \<Longrightarrow> unat (se_accepted s) \<le> acc"
    and latest: "P s \<Longrightarrow> se_latest s = Some l \<Longrightarrow> length (la_blob l) + 1 < 2 ^ 32"
    and session_id: "P s \<Longrightarrow> length (se_id s) = 16"
begin

lemma on_control_core:
  assumes "link_core P G acc (s, t)" "up_frame G mty p" "on_control epoch mty p (s, t) = ((s', t'), e)"
  shows "link_core P G acc (s', t')"
proof -
  have P: "P s" and b: "list_all G (tp_busy t)" using assms(1) by (simp_all add: link_core_def)
  show ?thesis
  proof (cases "se_epoch s = epoch \<and> mty = MSG_INPUT")
    case True
    with assms show ?thesis
      by (auto simp: on_control_def up_frame_def link_core_def split: sum.splits if_splits)
  next
    case False
    with assms(3) P ack hangup have "P s' \<and> (t' = t \<or> (\<exists>r. t' = t\<lparr>tp_resize := r\<rparr>) \<or>
        t' = t\<lparr>tp_feed := snd (feed_push_ctrl encode_pong (tp_feed t))\<rparr>)"
      by (auto simp: on_control_def split: sum.splits if_splits)
    moreover have "feed_reach (frame_sat (down_frame acc)) [] (tp_feed t) (snd (feed_push_ctrl encode_pong (tp_feed t)))"
      by (intro feed_reach_push down_frames)
    from sends_reach [OF _ this, of "tp_sent t"]
    have "sends (frame_sat (down_frame acc)) (tp_sent t) (snd (feed_push_ctrl encode_pong (tp_feed t)))"
      using assms(1) by (simp add: link_core_def)
    ultimately show ?thesis using assms(1) by (auto simp: link_core_def)
  qed
qed

lemma drain_loop_flow:
  assumes "link_core P G acc (s, t)" "flows (up_frame G) buf tail"
    and "drain_loop epoch cap buf (s, t) = ((s', t'), e)"
  shows "link_flow P G acc tail (s', t')"
  using assms
proof (induction epoch cap buf "(s, t)" arbitrary: s t rule: drain_loop.induct)
  case (1 epoch cap buf s t)
  have P: "P s" using 1(2) by (simp add: link_core_def)
  have stop: "link_flow P G acc tail (s, t\<lparr>tp_leftover := b\<rparr>)" if "flows (up_frame G) b tail" for b
    using that 1(2) by (auto simp: link_flow_def intro: link_core_cong P)
  show ?case
  proof (cases "se_epoch s \<noteq> epoch \<or> peek_type buf = Inr None \<or> (\<exists>e. peek_type buf = Inl e) \<or>
      (peek_type buf = Inr (Some MSG_INPUT) \<and> cap \<le> busy_bytes (tp_busy t)) \<or> (\<exists>e. split_frame buf = Inl e)")
    case True
    with 1(4) stop [OF 1(3)] show ?thesis
      by (subst (asm) drain_loop.simps) (auto split: if_splits sum.splits option.splits)
  next
    case False
    then obtain mty where p: "se_epoch s = epoch" "peek_type buf = Inr (Some mty)"
        "\<not> (mty = MSG_INPUT \<and> cap \<le> busy_bytes (tp_busy t))"
      by (metis not_None_eq obj_sumE)
    obtain f rest where f: "split_frame buf = Inr (f, rest)" using False by (metis obj_sumE surj_pair)
    show ?thesis
    proof (cases f)
      case None
      then have "rest = buf" using f split_frame_None_rest by fastforce
      with 1(4) p f None stop [OF 1(3)] show ?thesis by (subst (asm) drain_loop.simps) auto
    next
      case (Some g)
      obtain ty payload where g: "g = (ty, payload)" by fastforce
      have fl: "up_frame G ty payload" "flows (up_frame G) rest tail"
        using flows_split [OF 1(3)] f Some g by blast+
      obtain s1 t1 e1 where c: "on_control epoch ty payload (s, t) = ((s1, t1), e1)" by (metis prod_cases3 surj_pair)
      note core = on_control_core [OF 1(2) fl(1) c]
      show ?thesis
      proof (cases e1)
        case None
        with 1(4) p f Some g c have r: "drain_loop epoch cap rest (s1, t1) = ((s', t'), e)"
          by (subst (asm) drain_loop.simps) (auto split: if_splits)
        show ?thesis using 1(1) p f Some g c None core fl(2) r by auto
      next
        case (Some err)
        have "link_flow P G acc tail (s1, t1\<lparr>tp_leftover := rest\<rparr>)"
          using core fl(2) by (auto simp: link_flow_def link_core_def)
        with 1(4) p f \<open>f = Some g\<close> g c Some show ?thesis
          by (subst (asm) drain_loop.simps) (auto split: if_splits)
      qed
    qed
  qed
qed

lemma drain_busy_calls:
  assumes "P s" "list_all G q"
  shows "P (snd (drain_busy q s)) \<and> list_all G (fst (drain_busy q s))"
  using assms
proof (induction q s rule: drain_busy.induct)
  case (2 seq data q s)
  obtain r s' where r: "try_input seq data s = (r, s')" by fastforce
  have "P s'" using input [OF 2(2), of seq data] 2(3) r by simp
  then show ?case using 2 r by (auto split: sum.split queue_result.split)
qed simp

lemma retry_resize_calls: "P s \<Longrightarrow> retry_resize m (s, t) = (s', t') \<Longrightarrow>
  P s' \<and> tp_busy t' = tp_busy t \<and> tp_feed t' = tp_feed t \<and> tp_sent t' = tp_sent t \<and>
  tp_input_ack t' = tp_input_ack t \<and> tp_leftover t' = tp_leftover t"
  using resize [of s m]
  by (auto simp: retry_resize_def split: option.splits prod.splits sum.splits queue_result.splits) (metis snd_conv)+

lemma retry_input_ack_core:
  assumes "link_core P G acc (s, t)"
  shows "link_core P G acc (s, retry_input_ack t)"
proof (cases "tp_input_ack t")
  case (Some n)
  then have "unat n \<le> acc" using assms by (simp add: link_core_def)
  then have "feed_reach (frame_sat (down_frame acc)) [] (tp_feed t) (snd (feed_push_ctrl (encode_input_ack n) (tp_feed t)))"
    by (intro feed_reach_push down_frames)
  from sends_reach [OF _ this, of "tp_sent t"] assms Some show ?thesis
    by (auto simp: retry_input_ack_def link_core_def Let_def split_def)
qed (use assms in \<open>simp add: retry_input_ack_def\<close>)

lemma queue_exit_reach:
  assumes "P s"
  shows "feed_reach (frame_sat (down_frame acc)) [] f (queue_exit s epoch st f)"
proof -
  have fin: "feed_reach (frame_sat (down_frame acc)) [] g (feed_push_fin (encode_exit st) g)" for g
    by (intro feed_reach_fin down_frames)
  show ?thesis
  proof (cases "se_latest s")
    case None
    with fin show ?thesis by (simp add: queue_exit_def feed_reach_refl)
  next
    case (Some l)
    have "feed_reach (frame_sat (down_frame acc)) [] f (feed_push_screen (encode_frame MSG_SCREEN (la_blob l)) f)"
      by (intro feed_reach_screen down_frames latest [OF assms Some])
    from feed_reach_trans [OF this fin] show ?thesis by (simp add: queue_exit_def Some feed_reach_refl)
  qed
qed

lemma transport_prepare_flow:
  assumes "link_flow P G acc tail (s, t)"
  shows "link_flow P G acc tail (transport_prepare m (s, t))"
proof -
  obtain s1 t1 e where d: "drain_leftover BUSY_CAP (s, t) = ((s1, t1), e)" by (metis prod_cases3 surj_pair)
  have 1: "link_flow P G acc tail (s1, t1)"
    by (rule drain_loop_flow [OF _ _ d [unfolded drain_leftover_def prod.case]]) (use assms in \<open>simp_all add: link_flow_def\<close>)
  obtain q s2 where q: "drain_busy (tp_busy t1) s1 = (q, s2)" by fastforce
  have 2: "P s2" "list_all G q"
    using drain_busy_calls [of s1 "tp_busy t1"] 1 q by (auto simp: link_flow_def link_core_def)
  obtain s3 t3 where r: "retry_resize m (s2, t1\<lparr>tp_busy := q\<rparr>) = (s3, t3)" by fastforce
  note 3 = retry_resize_calls [OF 2(1) r]
  have "link_core P G acc (s3, t3)" using 1 2(2) 3 by (simp add: link_flow_def link_core_def)
  then have 4: "link_core P G acc (s3, retry_input_ack t3)" by (rule retry_input_ack_core)
  have l: "tp_leftover (retry_input_ack t3) = tp_leftover t1"
    using 3 by (simp add: retry_input_ack_def Let_def split_def split: option.split)
  show ?thesis
  proof (cases e)
    case (Some err)
    with 1 show ?thesis by (simp add: transport_prepare_def d link_flow_def link_core_def)
  next
    case None
    have "link_core P G acc (s3, (retry_input_ack t3)\<lparr>tp_feed := feed_pump (queue_exit s3 ep st (tp_feed (retry_input_ack t3))),
        tp_phase := ph\<rparr>)" for ep st ph
      using 3 feed_reach_trans [OF queue_exit_reach feed_reach_pump]
      by (intro link_core_update [OF 4]) (use 4 in \<open>simp_all add: link_core_def\<close>)
    moreover have "link_core P G acc (s3, (retry_input_ack t3)\<lparr>tp_phase := ph\<rparr>)" for ph
      using 4 by (simp add: link_core_def)
    ultimately show ?thesis
      using None 1 l by (simp add: transport_prepare_def d q r Let_def link_flow_def split: option.split)
  qed
qed

lemma push_screen_core:
  assumes "link_core P G acc (s, t)" "se_latest s = Some l"
  shows "link_core P G acc (s, push_screen mx (la_blob l) reliable t)"
proof -
  have "P s" using assms(1) by (simp add: link_core_def)
  then have "feed_reach (frame_sat (down_frame acc)) [] (tp_feed t)
      (feed_push_screen (encode_frame MSG_SCREEN (la_blob l)) (tp_feed t))"
    by (intro feed_reach_screen down_frames latest [OF _ assms(2)])
  from sends_reach [OF _ this, of "tp_sent t"] assms(1) show ?thesis
    by (simp add: push_screen_def link_core_def)
qed

lemma transport_write_core: "link_core P G acc (s, t) \<Longrightarrow> link_core P G acc (s, transport_write n t)"
  using sends_reach [OF _ feed_reach_advance [of "frame_sat (down_frame acc)" n "tp_feed t"], of "tp_sent t"]
  by (simp add: transport_write_def link_core_def)

lemma core_phase: "link_core P G acc (s, t\<lparr>tp_phase := ph\<rparr>) = link_core P G acc (s, t)"
  by (simp add: link_core_def)

lemma transport_arm_core:
  assumes "link_core P G acc (s, t)"
  shows "link_core P G acc (s, snd (transport_arm mx ev (s, t)))"
proof (cases ev)
  case Accepted_Changed
  have "P s" using assms by (simp add: link_core_def)
  from accepted [OF this] assms show ?thesis by (simp add: Accepted_Changed link_core_def)
next
  case (Wrote r)
  with assms transport_write_core show ?thesis by (auto split: option.split)
next
  case (Read_More r)
  with assms show ?thesis by (auto simp: link_core_def split: option.split)
qed (use assms push_screen_core in \<open>auto split: option.split\<close>)

lemma push_screen_leftover [simp]: "tp_leftover (push_screen mx b r t) = tp_leftover t"
  by (simp add: push_screen_def)

lemma arm_leftover:
  "tp_leftover (snd (transport_arm mx ev (s, t))) = tp_leftover t @ (case ev of
     Read_More (Some b) \<Rightarrow> if length (tp_leftover t) > 4 + MAX_FRAME then [] else b | _ \<Rightarrow> [])"
  by (cases ev) (auto simp: transport_write_def split: option.split)

text \<open>A step of a transport; \<open>bs\<close> are the bytes it reads, if it reads.\<close>

lemma transport_step_flow:
  assumes "link_flow P G acc (bs @ tail) (s, t)"
    and "bs = (case ev of Read_More (Some b) \<Rightarrow>
      if transport_enabled ev t \<and> length (tp_leftover t) \<le> 4 + MAX_FRAME then b else [] | _ \<Rightarrow> [])"
  shows "link_flow P G acc tail (transport_step m mx ev (s, t))"
proof (cases "transport_enabled ev t")
  case False
  with assms have "bs = []" by (auto split: transport_event.splits option.splits)
  with False assms show ?thesis by (simp add: transport_step_def)
next
  case True
  have core: "link_core P G acc (s, t)" and fl: "flows (up_frame G) (tp_leftover t) (bs @ tail)"
    using assms(1) by (simp_all add: link_flow_def)
  have "P s" using core by (simp add: link_core_def)
  have select: "link_flow P G acc tail (transport_select mx ev (s, t))"
    if "tp_leftover (snd (transport_arm mx ev (s, t))) = tp_leftover t @ bs"
    using transport_arm_core [OF core, of mx ev] fl that
    by (auto simp: transport_select_def Let_def split_def link_flow_def core_phase flows_shift)
  show ?thesis
  proof (cases ev)
    case Prepare
    with assms True transport_prepare_flow show ?thesis by (simp add: transport_step_def)
  next
    case (Flushed r)
    have "link_core P G acc (s, flush_bounded r t)"
    proof -
      have "link_core P G acc (s, (transport_write n t)\<lparr>tp_feed := feed_pump (tp_feed (transport_write n t))\<rparr>)" for n
        using transport_write_core [OF core, of n] feed_reach_pump
        by (intro link_core_update [OF transport_write_core [OF core, of n]]) (simp_all add: link_core_def)
      with core show ?thesis by (auto simp: flush_bounded_def core_phase Let_def split: option.split)
    qed
    moreover have "tp_leftover (flush_bounded r t) = tp_leftover t"
      by (simp add: flush_bounded_def transport_write_def Let_def split: option.split)
    ultimately show ?thesis using True assms(2) fl by (simp add: transport_step_def Flushed link_flow_def)
  next
    case (Finished now)
    with True assms detach [OF \<open>P s\<close>] show ?thesis
      by (simp add: transport_step_def link_flow_def link_core_def)
  qed (use True assms(2) select arm_leftover [of mx ev s t] in
      \<open>auto simp: transport_step_def simp del: transport_arm.simps split: option.splits if_splits\<close>)
qed

lemma attach_flow:
  assumes "P s" "flows (up_frame G) leftover tail"
  shows "link_flow P G acc tail (attach_transport mx hello leftover s)"
proof -
  let ?s = "snd (claim_transport s)" and ?ep = "fst (claim_transport s)"
  have P: "P ?s" by (rule claim [OF assms(1)])
  have "sends (frame_sat (down_frame acc)) [] (snd (feed_push_ctrl (hello_ok_encode k) feed_new))"
    if "length (ho_session_id k) = 16" for k
    by (intro sends_first down_frames that)
  note hello = this
  define k where "k = \<lparr>ho_protocol = PROTOCOL_VERSION, ho_session_id = se_id ?s, ho_version = session_version ?s,
    ho_cols = fst (se_size ?s), ho_rows = snd (se_size ?s)\<rparr>"
  define t0 where "t0 rs = \<lparr>tp_epoch = ?ep, tp_leftover = leftover, tp_feed = snd (feed_push_ctrl (hello_ok_encode k) feed_new),
    tp_busy = [], tp_resize = rs, tp_input_ack = (if se_accepted ?s > 0 then Some (se_accepted ?s) else None),
    tp_phase = Preparing, tp_sent = [], tp_datagrams = []\<rparr>" for rs
  have "length (ho_session_id k) = 16" using session_id [OF P] by (simp add: k_def)
  with hello P accepted [OF P] have core: "link_core P G acc (?s, t0 rs)" for rs
    by (simp add: link_core_def t0_def)
  have "transport_open mx ?s ?ep leftover rs = (case se_latest ?s of None \<Rightarrow> t0 rs
      | Some l \<Rightarrow> push_screen mx (la_blob l) True (t0 rs))" for rs
    by (simp only: transport_open_def Let_def t0_def k_def)
  then have "link_flow P G acc tail (?s, transport_open mx ?s ?ep leftover rs)" for rs
    using core push_screen_core [OF core] assms(2)
    by (auto simp: link_flow_def t0_def split: option.split)
  then show ?thesis by (simp add: attach_transport_def Let_def split_def)
qed

end

section \<open>What has been sent stays sent\<close>

lemma on_control_sent: "on_control epoch mty p (s, t) = ((s', t'), e) \<Longrightarrow> tp_sent t' = tp_sent t"
  by (auto simp: on_control_def split: sum.splits if_splits prod.splits)

lemma drain_loop_sent: "drain_loop epoch cap buf (s, t) = ((s', t'), e) \<Longrightarrow> tp_sent t' = tp_sent t"
proof (induction epoch cap buf "(s, t)" arbitrary: s t rule: drain_loop.induct)
  case (1 epoch cap buf s t)
  show ?case
  proof (rule ccontr)
    assume n: "tp_sent t' \<noteq> tp_sent t"
    with 1(2) obtain mty ty p rest where f: "se_epoch s = epoch" "peek_type buf = Inr (Some mty)"
      "\<not> (mty = MSG_INPUT \<and> cap \<le> busy_bytes (tp_busy t))" "split_frame buf = Inr (Some (ty, p), rest)"
      by (subst (asm) drain_loop.simps) (auto split: if_splits sum.splits option.splits)
    obtain s1 t1 e1 where c: "on_control epoch ty p (s, t) = ((s1, t1), e1)" by (metis prod_cases3 surj_pair)
    note t1 = on_control_sent [OF c]
    show False
    proof (cases e1)
      case None
      with 1(2) f c have r: "drain_loop epoch cap rest (s1, t1) = ((s', t'), e)"
        by (subst (asm) drain_loop.simps) (auto split: if_splits)
      show False using 1(1) f c None r n t1 by auto
    next
      case (Some err)
      with 1(2) f c n t1 show False by (subst (asm) drain_loop.simps) (auto split: if_splits)
    qed
  qed
qed

lemma prepare_sent: "tp_sent (snd (transport_prepare m (s, t))) = tp_sent t"
proof -
  obtain s1 t1 e where d: "drain_leftover BUSY_CAP (s, t) = ((s1, t1), e)" by (metis prod_cases3 surj_pair)
  have 1: "tp_sent t1 = tp_sent t" by (rule drain_loop_sent [OF d [unfolded drain_leftover_def prod.case]])
  obtain q s2 where q: "drain_busy (tp_busy t1) s1 = (q, s2)" by fastforce
  obtain s3 t3 where r: "retry_resize m (s2, t1\<lparr>tp_busy := q\<rparr>) = (s3, t3)" by fastforce
  have "tp_sent t3 = tp_sent t1"
    using r by (auto simp: retry_resize_def split: option.splits prod.splits sum.splits queue_result.splits)
  then show ?thesis
    by (simp add: transport_prepare_def d q r 1 Let_def retry_input_ack_def split_def split: option.split)
qed

lemma transport_step_sent: "\<exists>w. tp_sent (snd (transport_step m mx ev (s, t))) = tp_sent t @ w"
proof -
  have "\<exists>w. tp_sent (snd (transport_arm mx ev (s, t))) = tp_sent t @ w"
    by (cases ev) (auto simp: push_screen_def transport_write_def split: option.split)
  moreover have "\<exists>w. tp_sent (flush_bounded r t) = tp_sent t @ w" for r
    by (auto simp: flush_bounded_def transport_write_def Let_def split: option.split)
  ultimately show ?thesis
    using prepare_sent [of m s t]
    by (cases ev) (auto simp: transport_step_def transport_select_def Let_def split_def simp del: transport_arm.simps)
qed

text \<open>Frames delimit themselves.\<close>

lemma encode_frame_prefix:
  assumes "encode_frame t p @ x = encode_frame t' p' @ y" "1 + length p < 2 ^ 32" "1 + length p' < 2 ^ 32"
  shows "x = y"
proof -
  have "le32 (of_nat (1 + length p)) = le32 (of_nat (1 + length p'))"
    using arg_cong [OF assms(1), of "take 4"] by (simp add: encode_frame_def Let_def del: of_nat_Suc)
  from arg_cong [OF this, of rd32] have "(of_nat (1 + length p) :: u32) = of_nat (1 + length p')" by (simp only: rd_le_words)
  from arg_cong [OF this, of unat] have "1 + length p = 1 + length p'"
    using unat_of_nat_small [where 'a = 32, of "1 + length p"] unat_of_nat_small [where 'a = 32, of "1 + length p'"] assms(2,3)
    by (simp del: of_nat_add of_nat_Suc)
  then have "length p = length p'" by simp
  with assms(1) show ?thesis by (simp add: encode_frame_def Let_def)
qed

lemma frames_prefix:
  assumes "concat hs @ x = concat gs" "list_all (frame_sat Q) hs" "list_all (frame_sat R) gs"
  shows "\<exists>gs'. list_all (frame_sat R) gs' \<and> x = concat gs'"
  using assms
proof (induction hs arbitrary: gs)
  case (Cons h hs)
  obtain t p where h: "h = encode_frame t p" "1 + length p < 2 ^ 32" using Cons.prems(2) by (auto simp: frame_sat_def)
  then have "gs \<noteq> []" using Cons.prems(1) by (auto simp: encode_frame_def)
  then obtain g gs1 where gs: "gs = g # gs1" by (cases gs) auto
  obtain t' p' where g: "g = encode_frame t' p'" "1 + length p' < 2 ^ 32"
    using Cons.prems(3) gs by (auto simp: frame_sat_def)
  have "concat hs @ x = concat gs1"
    using Cons.prems(1) encode_frame_prefix [OF _ h(2) g(2), of t "concat hs @ x" t' "concat gs1"]
    by (simp add: gs h(1) g(1))
  from Cons.IH [OF this] Cons.prems gs show ?case by simp
qed auto

end
