(* ===== verification/Delivery.thy ===== *)
theory Delivery
  imports Client_Props Session_Props Transport_Flow
begin

text \<open>
  The client, the session and the connections between them, together
  (\<open>crates/quosh-client/src/lib.rs\<close>, \<open>crates/quosh-server/src/transport.rs\<close> and
  \<open>crates/quosh-server/src/session.rs\<close>). A client that gives up on a connection opens another and
  sends again what was not acknowledged; transports of earlier connections may still be alive on
  the server and still read what is in flight to them. A state has every connection there ever was,
  newest first, with the bytes under way in both directions; every interleaving of the client's calls,
  of the arms of every transport and of the owner, with any fragmentation of the streams, is a run.
  \<open>nt_typed\<close> and \<open>nt_trace\<close> record what the user typed and what the owner wrote.
\<close>

section \<open>The system\<close>

record connection =
  cn_up :: bytes
  cn_link :: "transport option"
  cn_received :: nat

record ('f, 'v, 't) net =
  nt_client :: "('f, 'v) client"
  nt_sys :: "'t sys"
  nt_conns :: "connection list"
  nt_trace :: trace
  nt_typed :: "bytes list"

definition conn_sent :: "connection \<Rightarrow> bytes" where
  "conn_sent cn = (case cn_link cn of None \<Rightarrow> [] | Some t \<Rightarrow> tp_sent t)"

datatype 'f net_event =
    Connect u64
  | Type_Input bytes u64
  | Client_Call "'f cevent"
  | Send_Up nat
  | Hear nat u64
  | Accept nat nat
  | Link nat transport_event
  | Read_Up nat nat
  | Owner session_event

text \<open>The calls of the client that neither read nor write the connection; the events of the session
  that no transport makes.\<close>

fun client_local :: "'f cevent \<Rightarrow> bool" where
  "client_local (Begin _) = False"
| "client_local (Receive _ _) = False"
| "client_local (Queue_Input _ _) = False"
| "client_local (Sent_Out _) = False"
| "client_local _ = True"

fun owner_side :: "session_event \<Rightarrow> bool" where
  "owner_side (Owner_Turn _) = True"
| "owner_side (Owner_Exit _ _) = True"
| "owner_side Hangup_Request = True"
| "owner_side _ = False"

text \<open>One event of a transport, with the session.\<close>

definition net_link ::
  "nat \<Rightarrow> nat option \<Rightarrow> transport_event \<Rightarrow> nat \<Rightarrow> connection \<Rightarrow> transport \<Rightarrow> ('f, 'v, 't) net \<Rightarrow> ('f, 'v, 't) net" where
  "net_link mc mx ev i cn t n =
     (let (s, w) = nt_sys n; (s', t') = transport_step mc mx ev (s, t) in
      n\<lparr>nt_sys := (s', w), nt_conns := (nt_conns n)[i := cn\<lparr>cn_link := Some t'\<rparr>]\<rparr>)"

text \<open>Input is chunks of 1 to 32768 bytes, fewer than \<open>2 ^ 64\<close> of them. A connection is accepted when its
  first bytes are the hello of this session; what is read beyond it is the transport's leftover.\<close>

fun net_step ::
  "('f, 'v, 'z) client_lib_scheme \<Rightarrow> ('t, 'y) term_lib_scheme \<Rightarrow> nat option \<Rightarrow> 'f net_event \<Rightarrow>
   ('f, 'v, 't) net \<Rightarrow> ('f, 'v, 't) net" where
  "net_step F T mx (Connect now) n =
     n\<lparr>nt_client := begin_connection now (nt_client n),
       nt_conns := \<lparr>cn_up = [], cn_link = None, cn_received = 0\<rparr> # nt_conns n\<rparr>"
| "net_step F T mx (Type_Input d now) n =
     (if d \<noteq> [] \<and> length d \<le> MAX_INPUT_BYTES \<and> length (nt_typed n) + 1 < 2 ^ 64
      then n\<lparr>nt_client := queue_input F d now (nt_client n), nt_typed := nt_typed n @ [d]\<rparr> else n)"
| "net_step F T mx (Client_Call ev) n =
     (if client_local ev then n\<lparr>nt_client := client_step F ev (nt_client n)\<rparr> else n)"
| "net_step F T mx (Send_Up k) n = (case nt_conns n of [] \<Rightarrow> n
     | cn # old \<Rightarrow> n\<lparr>nt_client := client_advance_outbound k (nt_client n),
         nt_conns := cn\<lparr>cn_up := cn_up cn @ take k (client_outbound (nt_client n))\<rparr> # old\<rparr>)"
| "net_step F T mx (Hear k now) n = (case nt_conns n of [] \<Rightarrow> n
     | cn # old \<Rightarrow> (let bs = take k (drop (cn_received cn) (conn_sent cn)) in
         if bs = [] then n
         else n\<lparr>nt_client := fst (recv_control F bs now (nt_client n)),
                nt_conns := cn\<lparr>cn_received := cn_received cn + length bs\<rparr> # old\<rparr>))"
| "net_step F T mx (Accept i k) n =
     (if i < length (nt_conns n) \<and> cn_link (nt_conns n ! i) = None then
        (let cn = nt_conns n ! i; (s, w) = nt_sys n in
         case split_frame (take k (cn_up cn)) of
           Inr (Some (mty, p), rest) \<Rightarrow> (case check_hello [se_id s \<mapsto> s] None mty p of
               Inr (hello, sess) \<Rightarrow> (let (s', t) = attach_transport mx hello rest sess in
                 n\<lparr>nt_sys := (s', w),
                   nt_conns := (nt_conns n)[i := cn\<lparr>cn_up := drop k (cn_up cn), cn_link := Some t\<rparr>]\<rparr>)
             | Inl _ \<Rightarrow> n)
         | _ \<Rightarrow> n)
      else n)"
| "net_step F T mx (Link i ev) n =
     (if i < length (nt_conns n) \<and> (case ev of Read_More (Some (b # bs)) \<Rightarrow> False | _ \<Rightarrow> True)
      then (case cn_link (nt_conns n ! i) of None \<Rightarrow> n
        | Some t \<Rightarrow> net_link (fs_max_cell_count F) mx ev i (nt_conns n ! i) t n)
      else n)"
| "net_step F T mx (Read_Up i k) n =
     (if i < length (nt_conns n) then (case cn_link (nt_conns n ! i) of None \<Rightarrow> n
        | Some t \<Rightarrow> (let cn = nt_conns n ! i; ev = Read_More (Some (take k (cn_up cn))) in
            if transport_enabled ev t \<and> length (tp_leftover t) \<le> 4 + MAX_FRAME
            then net_link (fs_max_cell_count F) mx ev i (cn\<lparr>cn_up := drop k (cn_up cn)\<rparr>) t n else n))
      else n)"
| "net_step F T mx (Owner ev) n =
     (if owner_side ev
      then n\<lparr>nt_sys := session_step F T ev (nt_sys n), nt_trace := session_trace T ev (nt_sys n) (nt_trace n)\<rparr>
      else n)"

text \<open>The runs in which no compressed screen reaches four gigabytes, the limit of a frame's length field.\<close>

definition screens_small :: "session \<Rightarrow> bool" where
  "screens_small s \<longleftrightarrow> (case se_latest s of None \<Rightarrow> True | Some l \<Rightarrow> length (la_blob l) + 1 < 2 ^ 32)"

definition net_start ::
  "('f, 'v, 'z) client_lib_scheme \<Rightarrow> ('t, 'y) term_lib_scheme \<Rightarrow> bytes \<Rightarrow> bytes \<Rightarrow> u32 \<Rightarrow> u16 \<Rightarrow> u16 \<Rightarrow> nat \<Rightarrow> bool \<Rightarrow>
   ('f, 'v, 't) net" where
  "net_start F T sid token uid cols rows now never =
     \<lparr>nt_client = client_new F sid token cols rows never,
      nt_sys = (session_new sid token uid cols rows now, owner_new T cols rows),
      nt_conns = [], nt_trace = trace_new, nt_typed = []\<rparr>"

inductive net_reach ::
  "('f, 'v, 'z) client_lib_scheme \<Rightarrow> ('t, 'y) term_lib_scheme \<Rightarrow> nat option \<Rightarrow> ('f, 'v, 't) net \<Rightarrow> bool"
  for F T mx where
  start: "length sid = 16 \<Longrightarrow> length token = 32 \<Longrightarrow>
     net_reach F T mx (net_start F T sid token uid cols rows now never)"
| step: "net_reach F T mx n \<Longrightarrow> screens_small (fst (nt_sys (net_step F T mx ev n))) \<Longrightarrow>
     net_reach F T mx (net_step F T mx ev n)"

section \<open>Genuine inputs\<close>

definition genuine :: "bytes list \<Rightarrow> u64 \<times> bytes \<Rightarrow> bool" where
  "genuine typed = (\<lambda>(seq, d). 0 < unat seq \<and> unat seq \<le> length typed \<and> d = typed ! (unat seq - 1))"

lemma genuine_snoc: "genuine typed x \<Longrightarrow> genuine (typed @ [d]) x"
  by (auto simp: genuine_def nth_append)

text \<open>The inputs the owner accepted.\<close>

fun typed_pieces :: "piece list \<Rightarrow> (u64 \<times> bytes) list" where
  "typed_pieces [] = []"
| "typed_pieces (Typed seq d # ps) = (seq, d) # typed_pieces ps"
| "typed_pieces (Reply d # ps) = typed_pieces ps"

lemma typed_pieces_append: "typed_pieces (ps @ qs) = typed_pieces ps @ typed_pieces qs"
  by (induction ps rule: typed_pieces.induct) simp_all

lemma length_typed_pieces: "length (piece_ends off ps) = length (typed_pieces ps)"
  by (induction off ps rule: piece_ends.induct) simp_all

definition numbered_from :: "bytes list \<Rightarrow> nat \<Rightarrow> nat \<Rightarrow> (u64 \<times> bytes) list" where
  "numbered_from typed a b = map (\<lambda>i. (of_nat (Suc i), typed ! i)) [a..<b]"

lemma numbered_from_snoc: "a \<le> b \<Longrightarrow> numbered_from typed a (Suc b) = numbered_from typed a b @ [(of_nat (Suc b), typed ! b)]"
  by (simp add: numbered_from_def)

lemma numbered_from_typed: "b \<le> length typed \<Longrightarrow> numbered_from (typed @ [d]) a b = numbered_from typed a b"
  by (auto simp: numbered_from_def nth_append)

lemma numbered_from_genuine:
  assumes "length typed < 2 ^ 64"
  shows "list_all (genuine typed) (numbered_from typed a (length typed))"
proof -
  have "unat (of_nat (Suc i) :: u64) = Suc i" if "i < length typed" for i
    using that assms by (intro unat_of_nat_small) simp
  then show ?thesis by (auto simp: numbered_from_def list_all_iff genuine_def simp del: of_nat_Suc)
qed

lemma numbered_from_filter:
  assumes "b < 2 ^ 64"
  shows "filter (\<lambda>(seq, _). a < seq) (numbered_from typed k b) = numbered_from typed (max k (unat a)) b"
proof -
  have "a < of_nat (Suc i) \<longleftrightarrow> unat a < Suc i" if "i < b" for i
    using that assms by (simp add: word_less_nat_alt unat_of_nat_small del: of_nat_Suc)
  then have "filter (\<lambda>i. a < of_nat (Suc i)) [k..<b] = filter (\<lambda>i. unat a < Suc i) [k..<b]"
    by (intro filter_cong) (simp_all del: of_nat_Suc)
  moreover have "filter (\<lambda>i. m < Suc i) [k..<b] = [max k m..<b]" for m
    by (induction b) (auto simp: max_def not_le le_Suc_eq)
  ultimately show ?thesis by (simp add: numbered_from_def filter_map comp_def del: of_nat_Suc)
qed

section \<open>The client's side\<close>

lemma screens_recv_buf [simp]:
  "cl_recv_buf (apply_screen F s now c) = cl_recv_buf c" "cl_recv_buf (shared_context ctx c) = cl_recv_buf c"
  "cl_recv_buf (client_pump c) = cl_recv_buf c" "cl_recv_buf (maybe_ping F now c) = cl_recv_buf c"
  "cl_recv_buf (tick_outage now c) = cl_recv_buf c" "cl_recv_buf (tick_predictions F now c) = cl_recv_buf c"
  by (simp_all add: apply_screen_def refresh_display_def shared_context_def client_pump_def pump_ack_def
      pump_input_def maybe_ping_def tick_outage_def tick_predictions_def Let_def split_def split: option.split)

lemma local_step_keeps:
  assumes "client_local ev"
  shows "cl_unacked (client_step F ev c) = cl_unacked c" "cl_seq (client_step F ev c) = cl_seq c"
    "cl_recv_buf (client_step F ev c) = cl_recv_buf c"
proof -
  have shared: "cl_unacked (fst (apply_shared_screen F s now c')) = cl_unacked c' \<and>
      cl_seq (fst (apply_shared_screen F s now c')) = cl_seq c' \<and>
      cl_recv_buf (fst (apply_shared_screen F s now c')) = cl_recv_buf c'" for s now c'
    by (cases "apply_shared_screen F s now c'") (auto elim!: apply_shared_screenE)
  have "cl_unacked (client_step F ev c) = cl_unacked c \<and> cl_seq (client_step F ev c) = cl_seq c \<and>
      cl_recv_buf (client_step F ev c) = cl_recv_buf c"
  proof (cases ev)
    case (Tick now)
    then show ?thesis using client_tick_state [of F now c] by (auto simp: Let_def)
  qed (use assms shared in \<open>auto simp: end_connection_def set_size_def request_hangup_def client_reset_def Let_def
      recv_datagram_def split: sum.split\<close>)
  then show "cl_unacked (client_step F ev c) = cl_unacked c" "cl_seq (client_step F ev c) = cl_seq c"
    "cl_recv_buf (client_step F ev c) = cl_recv_buf c" by simp_all
qed

text \<open>What the client knows: the inputs above some number, which the session has accepted, are kept.\<close>

definition client_ok :: "bytes list \<Rightarrow> nat \<Rightarrow> ('f, 'v) client \<Rightarrow> bool" where
  "client_ok typed acc c \<longleftrightarrow> cl_seq c = of_nat (length typed) \<and>
     (\<exists>k \<le> acc. cl_unacked c = numbered_from typed k (length typed))"

lemma client_ok_cong:
  "client_ok typed acc c \<Longrightarrow> cl_seq c' = cl_seq c \<Longrightarrow> cl_unacked c' = cl_unacked c \<Longrightarrow> client_ok typed acc c'"
  by (simp add: client_ok_def)

lemma client_ok_mono: "client_ok typed m c \<Longrightarrow> m \<le> n \<Longrightarrow> client_ok typed n c"
  unfolding client_ok_def by (meson order_trans)

lemma client_ok_ack:
  assumes "client_ok typed acc c" "unat a \<le> acc" "length typed < 2 ^ 64"
  shows "client_ok typed acc (c\<lparr>cl_unacked := filter (\<lambda>(s, _). s > a) (cl_unacked c)\<rparr>)"
proof -
  obtain k where k: "k \<le> acc" "cl_unacked c = numbered_from typed k (length typed)"
    using assms(1) by (auto simp: client_ok_def)
  have "filter (\<lambda>(s, _). a < s) (cl_unacked c) = numbered_from typed (max k (unat a)) (length typed)"
    unfolding k(2) by (rule numbered_from_filter [OF assms(3)])
  then show ?thesis
    using assms(1,2) k(1) unfolding client_ok_def by (auto intro: exI [of _ "max k (unat a)"])
qed

lemma handle_frame_ok:
  assumes "client_ok typed acc c" "down_frame acc mty p" "length typed < 2 ^ 64"
    and "handle_frame F mty p now c = (c', e)"
  shows "client_ok typed acc c'"
  using assms(4)
proof (cases rule: handle_frameE)
  case (ack a)
  with assms(2) client_ok_ack [OF assms(1) _ assms(3)] show ?thesis by (simp add: down_frame_def)
next
  case (shared s)
  then show ?thesis using assms(1) by (cases rule: apply_shared_screenE) (auto intro: client_ok_cong)
qed (auto intro: client_ok_cong [OF assms(1)])

definition any_frame :: "byte \<Rightarrow> bytes \<Rightarrow> bool" where
  "any_frame mty p \<longleftrightarrow> True"

lemma recv_loop_heard:
  assumes "client_ok typed acc c" "flows (down_frame acc) buf tail" "length typed < 2 ^ 64"
    and "recv_loop F now buf c = (c', e)"
  shows "client_ok typed acc c' \<and>
    (\<exists>hs. list_all (frame_sat any_frame) hs \<and> buf = concat hs @ cl_recv_buf c')"
  using assms
proof (induction F now buf c rule: recv_loop.induct)
  case (1 F now buf c)
  have stop: "client_ok typed acc (c\<lparr>cl_recv_buf := b\<rparr>)" for b by (rule client_ok_cong [OF 1(2)]) simp_all
  show ?case
  proof (cases "split_frame buf")
    case (Inl err)
    with 1(5) have "c' = c\<lparr>cl_recv_buf := buf\<rparr>" by (subst (asm) recv_loop.simps) simp
    with stop show ?thesis by (intro conjI exI [of _ "[]"]) simp_all
  next
    case (Inr r)
    obtain f rest where f: "r = (f, rest)" by fastforce
    show ?thesis
    proof (cases f)
      case None
      then have "rest = buf" using Inr f split_frame_None_rest by fastforce
      with 1(5) Inr f None have "c' = c\<lparr>cl_recv_buf := buf\<rparr>" by (subst (asm) recv_loop.simps) simp
      with stop show ?thesis by (intro conjI exI [of _ "[]"]) simp_all
    next
      case (Some g)
      obtain mty p where g: "g = (mty, p)" by fastforce
      have s: "split_frame buf = Inr (Some (mty, p), rest)" by (simp add: Inr f Some g)
      note fl = flows_split [OF 1(3) s]
      obtain c1 e1 where h: "handle_frame F mty p now c = (c1, e1)" by fastforce
      have c1: "client_ok typed acc c1" by (rule handle_frame_ok [OF 1(2) _ 1(4) h]) (use fl in simp)
      have any: "frame_sat any_frame (encode_frame mty p)"
        using fl by (auto simp: any_frame_def elim: frame_sat_mono)
      show ?thesis
      proof (cases e1)
        case (Some err)
        with 1(5) s h have "c' = c1\<lparr>cl_recv_buf := rest\<rparr>" by (subst (asm) recv_loop.simps) simp
        with c1 fl any show ?thesis
          by (intro conjI exI [of _ "[encode_frame mty p]"]) (auto intro: client_ok_cong)
      next
        case None
        with 1(5) s h have r: "recv_loop F now rest c1 = (c', e)" by (subst (asm) recv_loop.simps) simp
        obtain hs where "client_ok typed acc c'" "list_all (frame_sat any_frame) hs" "rest = concat hs @ cl_recv_buf c'"
          using 1(1) [OF s refl refl refl h [symmetric] None c1 _ 1(4) r] fl by auto
        with fl any show ?thesis by (intro conjI exI [of _ "encode_frame mty p # hs"]) simp_all
      qed
    qed
  qed
qed

lemma recv_control_heard:
  assumes "client_ok typed acc c" "flows (down_frame acc) (cl_recv_buf c @ bs) tail" "length typed < 2 ^ 64"
  shows "client_ok typed acc (fst (recv_control F bs now c)) \<and>
    (\<exists>hs. list_all (frame_sat any_frame) hs \<and> cl_recv_buf c @ bs = concat hs @ cl_recv_buf (fst (recv_control F bs now c)))"
proof -
  define c0 where "c0 = (if bs \<noteq> [] then c\<lparr>cl_last_rx_ms := Some now\<rparr> else c)"
  have b: "cl_recv_buf c0 = cl_recv_buf c" by (simp add: c0_def)
  obtain c' e where r: "recv_loop F now (cl_recv_buf c0 @ bs) c0 = (c', e)" by fastforce
  have "client_ok typed acc c0" using assms(1) by (auto simp: c0_def intro: client_ok_cong)
  from recv_loop_heard [OF this _ assms(3) r] assms(2) b show ?thesis
    using r by (simp add: recv_control_def Let_def flip: c0_def)
qed

lemma recv_control_feed: "cl_feed (fst (recv_control F bs now c)) = cl_feed c"
  by (rule recv_control_invariant [where P = "\<lambda>c'. cl_feed c' = cl_feed c"]) (simp_all add: handle_frame_feed)

text \<open>The frames of such a client are genuine.\<close>

lemma client_ok_frames:
  assumes "client_ok typed acc c" "length typed < 2 ^ 64" "list_all (\<lambda>d. length d \<le> MAX_INPUT_BYTES) typed"
  shows "frames_from (frame_sat (up_frame (genuine typed))) c"
proof -
  let ?P = "frame_sat (up_frame (genuine typed))"
  have "?P (encode_ack_state v)" "?P (encode_resize w h)" "?P encode_ping" "?P encode_hangup" for v w h
    by (rule frame_satI [OF encode_ack_state_def], simp_all add: up_frame_def msg_defs)
      (rule frame_satI [OF encode_resize_def], simp_all add: up_frame_def msg_defs,
       rule frame_satI [OF encode_ping_def], simp_all add: up_frame_def msg_defs,
       rule frame_satI [OF encode_hangup_def], simp_all add: up_frame_def msg_defs)
  moreover have "?P (encode_input n d)" if "genuine typed (n, d)" for n d
  proof (rule frame_satI [OF encode_input_def])
    have "d \<in> set typed" using that by (auto simp: genuine_def)
    with assms(3) show "1 + length (le64 n @ d) < 2 ^ 32" by (auto simp: list_all_iff MAX_INPUT_BYTES_def)
    show "up_frame (genuine typed) MSG_INPUT (le64 n @ d)"
      using that by (simp add: up_frame_def decode_input_def slc_def)
  qed
  moreover have "list_all (genuine typed) (cl_unacked c)"
  proof -
    obtain k where k: "cl_unacked c = numbered_from typed k (length typed)" using assms(1) by (auto simp: client_ok_def)
    show ?thesis unfolding k by (rule numbered_from_genuine [OF assms(2)])
  qed
  ultimately show ?thesis by (auto simp: frames_from_def list_all_iff)
qed

section \<open>The session's side\<close>

definition msg_genuine :: "bytes list \<Rightarrow> owner_msg \<Rightarrow> bool" where
  "msg_genuine typed m \<longleftrightarrow> (case m of Input seq d \<Rightarrow> genuine typed (seq, d) | _ \<Rightarrow> True)"

definition sess_ok :: "bytes list \<Rightarrow> trace \<Rightarrow> 't owner \<Rightarrow> nat \<Rightarrow> session \<Rightarrow> bool" where
  "sess_ok typed tr w acc s \<longleftrightarrow> sys_ok tr (s, w) \<and> list_all (msg_genuine typed) (se_cmds s) \<and>
     unat (se_accepted s) \<le> acc \<and> screens_small s \<and> length (se_id s) = 16"

lemma sess_ok_cong:
  "sess_ok typed tr w acc s \<Longrightarrow> se_cmds s' = se_cmds s \<Longrightarrow> se_accepted s' = se_accepted s \<Longrightarrow>
   se_latest s' = se_latest s \<Longrightarrow> se_id s' = se_id s \<Longrightarrow> sess_ok typed tr w acc s'"
  by (auto simp: sess_ok_def screens_small_def intro: sys_ok_sess)

lemma try_send_genuine:
  assumes "sess_ok typed tr w acc s" "msg_genuine typed m"
    and "\<And>seq data. m = Input seq data \<Longrightarrow> data \<noteq> [] \<and> length data \<le> MAX_INPUT_BYTES"
  shows "sess_ok typed tr w acc (snd (try_send m s))"
  using assms try_send_ok [of tr s w m]
  by (auto simp: sess_ok_def try_send_def screens_small_def split: if_splits)

interpretation sc: session_calls "sess_ok typed tr w acc" "genuine typed" acc for typed tr w acc
proof (unfold_locales, goal_cases)
  case (1 s seq d)
  then show ?case by (auto simp: try_input_def msg_genuine_def intro!: try_send_genuine)
next
  case (2 s m c r)
  then show ?case by (auto simp: try_resize_def msg_genuine_def intro!: try_send_genuine split: sum.split)
next
  case (3 s v)
  have "sess_ok typed tr w acc (snd (try_send (Ack v) s))"
    by (rule try_send_genuine [OF 3]) (simp_all add: msg_genuine_def)
  then show ?case unfolding try_ack_def ack_state_def by (rule sess_ok_cong) simp_all
next
  case (4 s)
  then show ?case by (rule sess_ok_cong) (simp_all add: session_request_hangup_def)
next
  case (5 s)
  then show ?case by (rule sess_ok_cong) (simp_all add: claim_transport_def Let_def)
next
  case (6 s e now)
  then show ?case by (rule sess_ok_cong) (simp_all add: detach_if_epoch_def)
next
  case (7 s)
  then show ?case by (simp add: sess_ok_def)
next
  case (8 s l)
  then show ?case by (simp add: sess_ok_def screens_small_def)
next
  case (9 s)
  then show ?case by (simp add: sess_ok_def)
qed

text \<open>What an owner's turn does to the inputs: it accepts at most one more, the next.\<close>

definition inputs_same :: "trace \<times> 't sys \<Rightarrow> trace \<times> 't sys \<Rightarrow> bool" where
  "inputs_same = (\<lambda>(tr, s, w) (tr', s', w'). typed_pieces (tr_pieces tr') = typed_pieces (tr_pieces tr) \<and>
     set (se_cmds s') \<subseteq> set (se_cmds s) \<and> se_accepted s' = se_accepted s \<and> se_id s' = se_id s)"

definition input_accepted :: "trace \<times> 't sys \<Rightarrow> trace \<times> 't sys \<Rightarrow> bool" where
  "input_accepted = (\<lambda>(tr, s, w) (tr', s', w'). \<exists>seq d. Input seq d \<in> set (se_cmds s) \<and>
     seq = next_seq (ow_last_seq w) \<and> typed_pieces (tr_pieces tr') = typed_pieces (tr_pieces tr) @ [(seq, d)] \<and>
     set (se_cmds s') \<subseteq> set (se_cmds s) \<and> se_accepted s' = seq \<and> se_id s' = se_id s)"

lemma reply_typed [simp]: "typed_pieces (ps @ reply_piece w) = typed_pieces ps"
  by (simp add: typed_pieces_append reply_piece_def)

lemma reply_piece_typed [simp]: "typed_pieces (reply_piece w) = []"
  by (simp add: reply_piece_def)

lemma drain_pieces_typed [simp]: "typed_pieces (drain_pieces T n reads w) = []"
proof (induction T n reads w rule: drain_pieces.induct)
  case (3 T n bs reads w)
  then show ?case
    by (cases "take_replies (w\<lparr>ow_driver := emulator_process T bs (ow_driver w)\<rparr>)") (auto simp: Let_def typed_pieces_append)
qed simp_all

lemma drain_typed [simp]: "typed_pieces (ps @ drain_pieces T n reads w) = typed_pieces ps"
  by (simp add: typed_pieces_append)

lemma typed_typed [simp]: "typed_pieces (ps @ [Typed seq d]) = typed_pieces ps @ [(seq, d)]"
  by (simp add: typed_pieces_append)

lemma publish_id [simp]: "se_id (fst (publish F T x)) = se_id (fst x)"
  by (cases x) (simp add: publish_def Let_def)

lemma publish_eq: "publish F T (s, w) = (s', w') \<Longrightarrow>
  se_cmds s' = se_cmds s \<and> se_accepted s' = se_accepted s \<and> se_id s' = se_id s"
  using publish_keeps(1,2) [of F T "(s, w)"] publish_id [of F T "(s, w)"] by simp

lemma owner_arm_inputs:
  assumes "owner_enabled T ev (s, w)" "owner_arm F T ev (s, w) = (go, x)"
  shows "inputs_same (tr, s, w) (turn_trace T ev (s, w) tr, x) \<or> input_accepted (tr, s, w) (turn_trace T ev (s, w) tr, x)"
proof -
  show ?thesis
  proof (cases ev)
    case Command
    then obtain m ms where m: "se_cmds s = m # ms" using assms(1) by (cases "se_cmds s") auto
    show ?thesis
    proof (cases m)
      case (Input seq d)
      obtain ok p where p: "push_input seq d (ow_pending w) = (ok, p)" by fastforce
      show ?thesis
      proof (cases "seq = next_seq (ow_last_seq w) \<and> ok")
        case True
        with assms(2) m Input p Command have "input_accepted (tr, s, w) (turn_trace T ev (s, w) tr, x)"
          by (auto simp: input_accepted_def)
        then show ?thesis ..
      next
        case False
        with assms(2) m Input p Command have "inputs_same (tr, s, w) (turn_trace T ev (s, w) tr, x)"
          by (auto simp: inputs_same_def split: if_splits)
        then show ?thesis ..
      qed
    next
      case (Resize c r)
      with assms(2) m Command show ?thesis
        by (auto simp: inputs_same_def dest: publish_eq split: if_splits)
    next
      case (Ack v)
      with assms(2) m Command show ?thesis by (auto simp: inputs_same_def ack_state_def)
    qed
  next
    case (Pty_Output bs)
    with assms(2) show ?thesis
      by (auto simp: inputs_same_def Let_def dest: publish_eq split: prod.splits if_splits)
  next
    case Sync_Timeout
    with assms(2) show ?thesis
      by (auto simp: inputs_same_def Let_def dest: publish_eq split: prod.splits if_splits)
  next
    case (Echo_Timeout now)
    with assms(2) show ?thesis
      by (auto simp: inputs_same_def Let_def dest: publish_eq split: prod.splits if_splits)
  qed (use assms(2) in \<open>auto simp: inputs_same_def Let_def dest: publish_eq split: prod.splits if_splits\<close>)
qed

lemma session_step_inputs:
  assumes "owner_side ev"
  shows "inputs_same (tr, x) (session_trace T ev x tr, session_step F T ev x) \<or>
    input_accepted (tr, x) (session_trace T ev x tr, session_step F T ev x)"
proof -
  obtain s w where x: "x = (s, w)" by fastforce
  have refl: "inputs_same (tr, s, w) (tr, s', w')" if "se_cmds s' = se_cmds s" "se_accepted s' = se_accepted s"
      "se_id s' = se_id s" for s' w'
    using that by (simp add: inputs_same_def)
  show ?thesis
  proof (cases ev)
    case (Owner_Turn oe)
    obtain go s' w' where a: "owner_arm F T oe (s, w) = (go, s', w')" by (metis prod_cases3)
    show ?thesis
    proof (cases "ow_running w \<and> \<not> se_shutdown s \<and> owner_enabled T oe (s, w)")
      case True
      with owner_arm_inputs [OF _ a, of tr] show ?thesis
        by (simp add: x Owner_Turn owner_turn_def a inputs_same_def input_accepted_def)
    next
      case False
      then show ?thesis by (auto simp: x Owner_Turn owner_turn_def intro: refl)
    qed
  next
    case (Owner_Exit reaped reads)
    show ?thesis
    proof (cases "\<not> ow_running w \<and> \<not> se_cmds_closed s")
      case True
      let ?w = "case ow_child_done w of None \<Rightarrow> w\<lparr>ow_child_done := Some reaped\<rparr> | Some _ \<Rightarrow> w"
      obtain s1 w1 where pub: "publish F T (s, drain_pty T reads ?w) = (s1, w1)" by fastforce
      have "se_cmds s1 = se_cmds s" "se_accepted s1 = se_accepted s" "se_id s1 = se_id s"
        using publish_keeps(1,2) [of F T "(s, drain_pty T reads ?w)"] publish_id [of F T "(s, drain_pty T reads ?w)"]
        by (simp_all add: pub)
      with True show ?thesis by (simp add: x Owner_Exit owner_finish_def Let_def pub inputs_same_def)
    next
      case False
      then show ?thesis by (auto simp: x Owner_Exit intro: refl)
    qed
  next
    case Hangup_Request
    then show ?thesis by (simp add: x session_request_hangup_def refl)
  qed (use assms in simp_all)
qed

section \<open>The connections\<close>

text \<open>The state of a connection, with the bytes of \<open>tail\<close> still to be sent on it by the client.\<close>

definition conn_flow :: "(session \<Rightarrow> bool) \<Rightarrow> bytes list \<Rightarrow> nat \<Rightarrow> session \<Rightarrow> bytes \<Rightarrow> connection \<Rightarrow> bool" where
  "conn_flow P typed acc s tail cn \<longleftrightarrow> (case cn_link cn of
       None \<Rightarrow> flows (up_frame (genuine typed)) (cn_up cn) tail
     | Some t \<Rightarrow> link_flow P (genuine typed) acc (cn_up cn @ tail) (s, t))"

text \<open>What the client has read is whole frames and its buffer.\<close>

definition heard :: "bytes \<Rightarrow> connection \<Rightarrow> bool" where
  "heard rb cn \<longleftrightarrow> cn_received cn \<le> length (conn_sent cn) \<and>
     (\<exists>hs. list_all (frame_sat any_frame) hs \<and> take (cn_received cn) (conn_sent cn) = concat hs @ rb)"

definition conns_ok :: "(session \<Rightarrow> bool) \<Rightarrow> bytes list \<Rightarrow> nat \<Rightarrow> session \<Rightarrow> ('f, 'v) client \<Rightarrow> connection list \<Rightarrow> bool" where
  "conns_ok P typed acc s c conns \<longleftrightarrow> conns = [] \<or>
     feed_ok (cl_feed c) \<and> list_all (frame_sat (up_frame (genuine typed))) (feed_pending (cl_feed c)) \<and>
     heard (cl_recv_buf c) (hd conns) \<and> (\<exists>ts. list_all2 (conn_flow P typed acc s) (client_outbound c # ts) conns)"

lemma link_flow_mono:
  assumes "link_flow P G acc tail (s, t)" "P' s'" "\<And>x. G x \<Longrightarrow> H x" "acc \<le> acc'"
  shows "link_flow P' H acc' tail (s', t)"
proof -
  have up: "up_frame H mty p" if "up_frame G mty p" for mty p using that assms(3) by (rule up_frame_mono)
  have down: "down_frame acc' mty p" if "down_frame acc mty p" for mty p using that assms(4) by (rule down_frame_mono)
  have "sends (frame_sat (down_frame acc')) (tp_sent t) (tp_feed t)"
    by (rule sends_mono [where P = "frame_sat (down_frame acc)"])
      (use assms(1) down in \<open>auto simp: link_flow_def link_core_def elim: frame_sat_mono\<close>)
  moreover have "flows (up_frame H) (tp_leftover t) tail"
    by (rule flows_mono [where R = "up_frame G"]) (use assms(1) up in \<open>auto simp: link_flow_def\<close>)
  moreover have "list_all H (tp_busy t)"
    using assms(1,3) by (auto simp: link_flow_def link_core_def list_all_iff)
  ultimately show ?thesis
    using assms(1,2,4) by (auto simp: link_flow_def link_core_def split: option.splits)
qed

lemma conn_flow_mono:
  assumes "conn_flow P typed acc s tail cn" "P' s'" "\<And>x. genuine typed x \<Longrightarrow> genuine typed' x" "acc \<le> acc'"
  shows "conn_flow P' typed' acc' s' tail cn"
proof (cases "cn_link cn")
  case None
  have "flows (up_frame (genuine typed')) (cn_up cn) tail"
    by (rule flows_mono [where R = "up_frame (genuine typed)"])
      (use assms(1,3) None in \<open>auto simp: conn_flow_def intro: up_frame_mono\<close>)
  then show ?thesis by (simp add: conn_flow_def None)
next
  case (Some t)
  then show ?thesis using assms(1) link_flow_mono [where P' = P' and H = "genuine typed'", OF _ assms(2) assms(3) assms(4)]
    by (simp add: conn_flow_def)
qed

lemma conn_flow_append:
  assumes "conn_flow P typed acc s tail cn" "list_all (frame_sat (up_frame (genuine typed))) gs"
  shows "conn_flow P typed acc s (tail @ concat gs) cn"
proof (cases "cn_link cn")
  case (Some t)
  then have f: "flows (up_frame (genuine typed)) (tp_leftover t) (cn_up cn @ tail)"
    using assms(1) by (simp add: conn_flow_def link_flow_def)
  from flows_append [OF f assms(2)] assms(1) Some show ?thesis by (simp add: conn_flow_def link_flow_def)
qed (use assms in \<open>simp add: conn_flow_def flows_append\<close>)

lemma heard_grows:
  assumes "heard rb cn" "conn_sent cn' = conn_sent cn @ w" "cn_received cn' = cn_received cn"
  shows "heard rb cn'"
  using assms by (simp add: heard_def)

lemma conns_ok_mono:
  assumes "conns_ok P typed acc s c conns" "P' s'" "\<And>x. genuine typed x \<Longrightarrow> genuine typed' x" "acc \<le> acc'"
    and "cl_feed c' = cl_feed c" "cl_recv_buf c' = cl_recv_buf c"
  shows "conns_ok P' typed' acc' s' c' conns"
proof -
  have "frame_sat (up_frame (genuine typed')) x" if "frame_sat (up_frame (genuine typed)) x" for x
    using that assms(3) by (auto elim!: frame_sat_mono up_frame_mono)
  moreover have "list_all2 (conn_flow P' typed' acc' s') ts conns" if "list_all2 (conn_flow P typed acc s) ts conns" for ts
    using that conn_flow_mono [where P' = P', OF _ assms(2) assms(3) assms(4)] by (auto elim: list_all2_mono)
  ultimately show ?thesis
    using assms(1,5,6) by (auto simp: conns_ok_def client_outbound_def list_all_iff)
qed

text \<open>A connection changes, and the session with it.\<close>

lemma conns_ok_update:
  assumes "conns_ok P typed acc s c conns" "i < length conns" "P s'"
    and "\<And>tail. conn_flow P typed acc s tail (conns ! i) \<Longrightarrow> conn_flow P typed acc s' tail cn'"
    and "conn_sent cn' = conn_sent (conns ! i) @ w" "cn_received cn' = cn_received (conns ! i)"
  shows "conns_ok P typed acc s' c (conns[i := cn'])"
proof -
  have c0: "conns \<noteq> []" using assms(2) by auto
  then obtain ts where ts: "list_all2 (conn_flow P typed acc s) (client_outbound c # ts) conns"
    using assms(1) by (auto simp: conns_ok_def)
  let ?ts = "client_outbound c # ts"
  have "list_all2 (conn_flow P typed acc s') ?ts conns"
    using ts conn_flow_mono [where P' = P, OF _ assms(3)] by (auto elim: list_all2_mono)
  moreover have "conn_flow P typed acc s' (?ts ! i) cn'"
    by (rule assms(4)) (rule list_all2_nthD2 [OF ts assms(2)])
  ultimately have "list_all2 (conn_flow P typed acc s') (?ts[i := ?ts ! i]) (conns[i := cn'])"
    by (rule list_all2_update_cong)
  then have "list_all2 (conn_flow P typed acc s') ?ts (conns[i := cn'])" by (simp only: list_update_id)
  moreover have "heard (cl_recv_buf c) (hd (conns[i := cn']))"
  proof (cases i)
    case 0
    with c0 assms(1) have "heard (cl_recv_buf c) (conns ! i)" by (simp add: conns_ok_def hd_conv_nth)
    from heard_grows [OF this assms(5,6)] 0 c0 show ?thesis by (simp add: hd_conv_nth)
  next
    case (Suc j)
    with c0 assms(1) show ?thesis by (cases conns) (auto simp: conns_ok_def)
  qed
  ultimately show ?thesis using assms(1) c0 by (auto simp: conns_ok_def)
qed

text \<open>The client queues frames, and \<open>w\<close> leaves for the connection.\<close>

lemma conns_ok_feed:
  assumes "conns_ok P typed acc s c (cn # old)" "feed_reach (frame_sat (up_frame (genuine typed))) w (cl_feed c) (cl_feed c')"
    and "cl_recv_buf c' = cl_recv_buf c"
  shows "conns_ok P typed acc s c' (cn\<lparr>cn_up := cn_up cn @ w\<rparr> # old)"
proof -
  obtain gs where g: "feed_ok (cl_feed c')" "list_all (frame_sat (up_frame (genuine typed))) (feed_pending (cl_feed c'))"
      "list_all (frame_sat (up_frame (genuine typed))) gs" "w @ client_outbound c' = client_outbound c @ concat gs"
    using feed_reach_frames [OF assms(2)] assms(1) by (auto simp: conns_ok_def client_outbound_def)
  from assms(1) obtain ts where ts: "conn_flow P typed acc s (client_outbound c) cn" "list_all2 (conn_flow P typed acc s) ts old"
    by (auto simp: conns_ok_def)
  have "conn_flow P typed acc s (w @ client_outbound c') cn" unfolding g(4) by (rule conn_flow_append [OF ts(1) g(3)])
  then have "conn_flow P typed acc s (client_outbound c') (cn\<lparr>cn_up := cn_up cn @ w\<rparr>)"
    by (simp add: conn_flow_def flows_def split: option.splits)
  moreover have "heard (cl_recv_buf c') (cn\<lparr>cn_up := cn_up cn @ w\<rparr>)"
    by (rule heard_grows [where w = "[]" and cn = cn]) (use assms in \<open>simp_all add: conns_ok_def conn_sent_def\<close>)
  ultimately show ?thesis using g(1,2) ts(2) by (auto simp: conns_ok_def)
qed

text \<open>The session's name and token, fixed arrays of 16 and 32 bytes.\<close>

definition ids_ok :: "('f, 'v) client \<Rightarrow> bool" where
  "ids_ok c \<longleftrightarrow> length (cl_session_id c) = 16 \<and> length (cl_token c) = 32"

lemma ids_ok_cong: "ids_ok c \<Longrightarrow> cl_session_id c' = cl_session_id c \<Longrightarrow> cl_token c' = cl_token c \<Longrightarrow> ids_ok c'"
  by (simp add: ids_ok_def)

lemma screens_ids [simp]:
  "cl_session_id (apply_screen F s now c) = cl_session_id c" "cl_token (apply_screen F s now c) = cl_token c"
  "cl_session_id (shared_context ctx c) = cl_session_id c" "cl_token (shared_context ctx c) = cl_token c"
  "cl_session_id (client_pump c) = cl_session_id c" "cl_token (client_pump c) = cl_token c"
  "cl_session_id (maybe_ping F now c) = cl_session_id c" "cl_token (maybe_ping F now c) = cl_token c"
  "cl_session_id (pong_sample F now c) = cl_session_id c" "cl_token (pong_sample F now c) = cl_token c"
  "cl_session_id (tick_outage now c) = cl_session_id c" "cl_token (tick_outage now c) = cl_token c"
  "cl_session_id (tick_predictions F now c) = cl_session_id c" "cl_token (tick_predictions F now c) = cl_token c"
  by (simp_all add: apply_screen_def refresh_display_def shared_context_def client_pump_def pump_ack_def pump_input_def
      maybe_ping_def pong_sample_def tick_outage_def tick_predictions_def Let_def split_def split: option.split)

lemma shared_ids:
  assumes "ids_ok c"
  shows "ids_ok (fst (apply_shared_screen F s now c))"
  by (cases "apply_shared_screen F s now c") (auto elim!: apply_shared_screenE intro: ids_ok_cong [OF assms])

lemma ids_ok_step:
  assumes "ids_ok c"
  shows "ids_ok (client_step F ev c)"
proof (cases ev)
  case (Receive bs now)
  have "ids_ok (fst (handle_frame F mty p now c'))" if "ids_ok c'" for c' mty p
  proof -
    obtain c2 e where h: "handle_frame F mty p now c' = (c2, e)" by fastforce
    from h have "ids_ok c2"
    proof (cases rule: handle_frameE)
      case (shared s)
      with shared_ids [OF that, of F s now] show ?thesis by simp
    qed (auto intro: ids_ok_cong [OF that])
    with h show ?thesis by simp
  qed
  then have "ids_ok (fst (recv_control F bs now c))"
    by (rule recv_control_invariant [where P = ids_ok]) (auto intro: ids_ok_cong assms)
  then show ?thesis by (simp add: Receive)
next
  case (Datagram bs now)
  have c: "ids_ok (c\<lparr>cl_last_rx_ms := Some now\<rparr>)" by (rule ids_ok_cong [OF assms]) simp_all
  from shared_ids [OF c] assms show ?thesis
    by (auto simp: Datagram recv_datagram_def Let_def intro: ids_ok_cong split: sum.split)
next
  case (Tick now)
  then show ?thesis using client_tick_state [of F now c] by (auto simp: Let_def intro: ids_ok_cong [OF assms])
qed (auto simp: begin_connection_def end_connection_def set_size_def request_hangup_def client_reset_def
    queue_input_def feed_predict_def refresh_display_def client_advance_outbound_def Let_def split: option.split
    intro!: ids_ok_cong [OF assms])

section \<open>The invariant\<close>

definition net_ok :: "('f, 'v, 't) net \<Rightarrow> bool" where
  "net_ok n \<longleftrightarrow> (\<exists>acc \<le> length (nt_typed n). length (nt_typed n) < 2 ^ 64 \<and>
     list_all (\<lambda>d. length d \<le> MAX_INPUT_BYTES) (nt_typed n) \<and>
     typed_pieces (tr_pieces (nt_trace n)) = numbered_from (nt_typed n) 0 acc \<and>
     sess_ok (nt_typed n) (nt_trace n) (snd (nt_sys n)) acc (fst (nt_sys n)) \<and>
     client_ok (nt_typed n) acc (nt_client n) \<and> ids_ok (nt_client n) \<and>
     conns_ok (sess_ok (nt_typed n) (nt_trace n) (snd (nt_sys n)) acc) (nt_typed n) acc (fst (nt_sys n))
       (nt_client n) (nt_conns n))"

lemma net_okI:
  assumes "acc \<le> length (nt_typed n)" "length (nt_typed n) < 2 ^ 64"
    "list_all (\<lambda>d. length d \<le> MAX_INPUT_BYTES) (nt_typed n)"
    "typed_pieces (tr_pieces (nt_trace n)) = numbered_from (nt_typed n) 0 acc" "nt_sys n = (s, w)"
    "sess_ok (nt_typed n) (nt_trace n) w acc s" "client_ok (nt_typed n) acc (nt_client n)" "ids_ok (nt_client n)"
    "conns_ok (sess_ok (nt_typed n) (nt_trace n) w acc) (nt_typed n) acc s (nt_client n) (nt_conns n)"
  shows "net_ok n"
  unfolding net_ok_def using assms by auto

lemma net_okD:
  assumes "net_ok n"
  obtains acc s w where "acc \<le> length (nt_typed n)" "length (nt_typed n) < 2 ^ 64"
    "list_all (\<lambda>d. length d \<le> MAX_INPUT_BYTES) (nt_typed n)"
    "typed_pieces (tr_pieces (nt_trace n)) = numbered_from (nt_typed n) 0 acc" "nt_sys n = (s, w)"
    "sess_ok (nt_typed n) (nt_trace n) w acc s" "client_ok (nt_typed n) acc (nt_client n)" "ids_ok (nt_client n)"
    "conns_ok (sess_ok (nt_typed n) (nt_trace n) w acc) (nt_typed n) acc s (nt_client n) (nt_conns n)"
  using assms by (cases "nt_sys n") (auto simp: net_ok_def)

lemma net_start_ok:
  assumes "length sid = 16" "length token = 32"
  shows "net_ok (net_start F T sid token uid cols rows now never)"
proof (rule net_okI [where acc = 0])
  let ?n = "net_start F T sid token uid cols rows now never"
  show "nt_sys ?n = (session_new sid token uid cols rows now, owner_new T cols rows)" by (simp add: net_start_def)
  show "sess_ok (nt_typed ?n) (nt_trace ?n) (owner_new T cols rows) 0 (session_new sid token uid cols rows now)"
    using fresh_ok [of T sid token uid cols rows now] assms
    by (simp add: sess_ok_def net_start_def fresh_def screens_small_def session_new_def)
  show "client_ok (nt_typed ?n) 0 (nt_client ?n)"
    by (simp add: client_ok_def net_start_def client_new_def numbered_from_def)
qed (use assms in \<open>simp_all add: net_start_def trace_new_def numbered_from_def conns_ok_def ids_ok_def client_new_def\<close>)

lemma sess_ok_typed: "sess_ok typed tr w acc s \<Longrightarrow> sess_ok (typed @ [d]) tr w acc s"
proof -
  have "msg_genuine typed m \<Longrightarrow> msg_genuine (typed @ [d]) m" for m
    by (auto simp: msg_genuine_def genuine_snoc split: owner_msg.splits)
  then show "sess_ok typed tr w acc s \<Longrightarrow> sess_ok (typed @ [d]) tr w acc s"
    by (auto simp: sess_ok_def list_all_iff)
qed

lemma queue_input_keeps [simp]:
  "cl_seq (queue_input F d now c) = cl_seq c + 1" "cl_feed (queue_input F d now c) = cl_feed c"
  "cl_unacked (queue_input F d now c) = cl_unacked c @ [(cl_seq c + 1, d)]"
  "cl_recv_buf (queue_input F d now c) = cl_recv_buf c"
  by (simp_all add: queue_input_def Let_def feed_predict_def refresh_display_def split: option.split)

lemma type_input_ok:
  assumes "client_ok typed acc c" "acc \<le> length typed"
  shows "client_ok (typed @ [d]) acc (queue_input F d now c)"
proof -
  obtain k where k: "k \<le> acc" "cl_unacked c = numbered_from typed k (length typed)" "cl_seq c = of_nat (length typed)"
    using assms(1) by (auto simp: client_ok_def)
  with assms(2) have "cl_unacked (queue_input F d now c) = numbered_from (typed @ [d]) k (Suc (length typed))"
    by (simp add: numbered_from_snoc numbered_from_typed)
  with k show ?thesis unfolding client_ok_def by (intro conjI exI [of _ k]) simp_all
qed

section \<open>The client's events\<close>

lemma net_type_ok:
  assumes "net_ok n"
  shows "net_ok (net_step F T mx (Type_Input d now) n)"
proof (cases "d \<noteq> [] \<and> length d \<le> MAX_INPUT_BYTES \<and> length (nt_typed n) + 1 < 2 ^ 64")
  case True
  from assms show ?thesis
  proof (rule net_okD)
    fix acc s w
    assume n: "acc \<le> length (nt_typed n)" "list_all (\<lambda>d. length d \<le> MAX_INPUT_BYTES) (nt_typed n)"
      "typed_pieces (tr_pieces (nt_trace n)) = numbered_from (nt_typed n) 0 acc" "nt_sys n = (s, w)"
      "sess_ok (nt_typed n) (nt_trace n) w acc s" "client_ok (nt_typed n) acc (nt_client n)" "ids_ok (nt_client n)"
      "conns_ok (sess_ok (nt_typed n) (nt_trace n) w acc) (nt_typed n) acc s (nt_client n) (nt_conns n)"
    let ?n = "net_step F T mx (Type_Input d now) n"
    have f: "nt_typed ?n = nt_typed n @ [d]" "nt_client ?n = queue_input F d now (nt_client n)" "nt_trace ?n = nt_trace n"
      "nt_sys ?n = nt_sys n" "nt_conns ?n = nt_conns n" using True by simp_all
    note sess = sess_ok_typed [OF n(5), of d]
    have "conns_ok (sess_ok (nt_typed n @ [d]) (nt_trace n) w acc) (nt_typed n @ [d]) acc s
        (queue_input F d now (nt_client n)) (nt_conns n)"
      by (rule conns_ok_mono [OF n(8), where P' = "sess_ok (nt_typed n @ [d]) (nt_trace n) w acc", OF sess])
        (simp_all add: genuine_snoc)
    with sess n ids_ok_step [OF n(7), of F "Queue_Input d now"] type_input_ok [OF n(6,1)] True show ?thesis
      by (intro net_okI [where acc = acc and s = s and w = w]; simp only: f) (simp_all add: numbered_from_typed)
  qed
qed (use assms in auto)

lemma net_client_ok:
  assumes "net_ok n" "client_local ev"
  shows "net_ok (n\<lparr>nt_client := client_step F ev (nt_client n)\<rparr>)"
  using assms(1)
proof (rule net_okD)
  fix acc s w
  let ?G = "frame_sat (up_frame (genuine (nt_typed n)))" and ?c = "client_step F ev (nt_client n)"
  assume n: "acc \<le> length (nt_typed n)" "length (nt_typed n) < 2 ^ 64"
    "list_all (\<lambda>d. length d \<le> MAX_INPUT_BYTES) (nt_typed n)"
    "typed_pieces (tr_pieces (nt_trace n)) = numbered_from (nt_typed n) 0 acc" "nt_sys n = (s, w)"
    "sess_ok (nt_typed n) (nt_trace n) w acc s" "client_ok (nt_typed n) acc (nt_client n)" "ids_ok (nt_client n)"
    "conns_ok (sess_ok (nt_typed n) (nt_trace n) w acc) (nt_typed n) acc s (nt_client n) (nt_conns n)"
  note k = local_step_keeps [OF assms(2), of F "nt_client n"]
  have "client_wire ev (nt_client n) = []" "\<And>now. ev \<noteq> Begin now" using assms(2) by (cases ev; simp)+
  with client_step_feed [OF _ client_ok_frames [OF n(7) n(2,3)], of ev F]
  have feed: "feed_reach ?G [] (cl_feed (nt_client n)) (cl_feed ?c)" by simp
  have "conns_ok (sess_ok (nt_typed n) (nt_trace n) w acc) (nt_typed n) acc s ?c (nt_conns n)"
  proof (cases "nt_conns n")
    case (Cons cn old)
    with conns_ok_feed [OF n(9) [unfolded Cons] feed k(3)] show ?thesis by simp
  qed (simp add: conns_ok_def)
  with n k ids_ok_step [OF n(8), of F ev] show ?thesis
    by (intro net_okI [where acc = acc and s = s and w = w]) (auto intro: client_ok_cong)
qed

lemma net_connect_ok:
  assumes "net_ok n"
  shows "net_ok (net_step F T mx (Connect now) n)"
  using assms
proof (rule net_okD)
  fix acc s w
  let ?c = "begin_connection now (nt_client n)" and ?new = "\<lparr>cn_up = [], cn_link = None, cn_received = 0\<rparr>"
  assume n: "acc \<le> length (nt_typed n)" "length (nt_typed n) < 2 ^ 64"
    "list_all (\<lambda>d. length d \<le> MAX_INPUT_BYTES) (nt_typed n)"
    "typed_pieces (tr_pieces (nt_trace n)) = numbered_from (nt_typed n) 0 acc" "nt_sys n = (s, w)"
    "sess_ok (nt_typed n) (nt_trace n) w acc s" "client_ok (nt_typed n) acc (nt_client n)" "ids_ok (nt_client n)"
    "conns_ok (sess_ok (nt_typed n) (nt_trace n) w acc) (nt_typed n) acc s (nt_client n) (nt_conns n)"
  let ?P = "sess_ok (nt_typed n) (nt_trace n) w acc"
  have "frame_sat (up_frame (genuine (nt_typed n))) (client_hello (nt_client n))"
    using n(8) by (intro frame_satI [OF client_hello_def [unfolded hello_encode_def]])
      (simp_all add: ids_ok_def up_frame_def msg_defs)
  then have "conn_flow ?P (nt_typed n) acc s (client_hello (nt_client n)) ?new"
    by (simp add: conn_flow_def flows_def) (rule exI [of _ "[client_hello (nt_client n)]"], simp)
  moreover have "heard [] ?new" by (simp add: heard_def conn_sent_def) (rule exI [of _ "[]"], simp)
  moreover have "cl_recv_buf ?c = []" by (simp add: begin_connection_def)
  moreover obtain ts where "list_all2 (conn_flow ?P (nt_typed n) acc s) ts (nt_conns n)"
    using n(9) by (cases "nt_conns n = []") (auto simp: conns_ok_def)
  ultimately have "conns_ok ?P (nt_typed n) acc s ?c (?new # nt_conns n)"
    unfolding conns_ok_def by (auto simp: begin_connection_feed)
  moreover have "client_ok (nt_typed n) acc ?c"
    by (rule client_ok_cong [OF n(7)]) (simp_all add: begin_connection_def)
  ultimately show ?thesis using n ids_ok_step [OF n(8), of F "Begin now"]
    by (intro net_okI [where acc = acc and s = s and w = w]) auto
qed

lemma net_hear_ok:
  assumes "net_ok n"
  shows "net_ok (net_step F T mx (Hear k now) n)"
proof (cases "nt_conns n")
  case (Cons cn old)
  let ?bs = "take k (drop (cn_received cn) (conn_sent cn))"
  show ?thesis
  proof (cases "?bs = []")
    case False
    from assms show ?thesis
    proof (rule net_okD)
      fix acc s w
      assume n: "acc \<le> length (nt_typed n)" "length (nt_typed n) < 2 ^ 64"
        "list_all (\<lambda>d. length d \<le> MAX_INPUT_BYTES) (nt_typed n)"
        "typed_pieces (tr_pieces (nt_trace n)) = numbered_from (nt_typed n) 0 acc" "nt_sys n = (s, w)"
        "sess_ok (nt_typed n) (nt_trace n) w acc s" "client_ok (nt_typed n) acc (nt_client n)" "ids_ok (nt_client n)"
        "conns_ok (sess_ok (nt_typed n) (nt_trace n) w acc) (nt_typed n) acc s (nt_client n) (nt_conns n)"
      let ?P = "sess_ok (nt_typed n) (nt_trace n) w acc" and ?c = "nt_client n"
      let ?c' = "fst (recv_control F ?bs now (nt_client n))"
      note ok = n(9) [unfolded Cons conns_ok_def]
      obtain hs where h: "cn_received cn \<le> length (conn_sent cn)" "list_all (frame_sat any_frame) hs"
        "take (cn_received cn) (conn_sent cn) = concat hs @ cl_recv_buf ?c"
        using ok by (auto simp: heard_def)
      obtain t where t: "cn_link cn = Some t" using False by (cases "cn_link cn") (auto simp: conn_sent_def)
      then have sent: "conn_sent cn = tp_sent t" by (simp add: conn_sent_def)
      have "conn_flow ?P (nt_typed n) acc s (client_outbound ?c) cn" using ok by auto
      then have "sends (frame_sat (down_frame acc)) (tp_sent t) (tp_feed t)"
        by (simp add: conn_flow_def t link_flow_def link_core_def)
      then obtain fs where fs: "list_all (frame_sat (down_frame acc)) fs" "conn_sent cn @ feed_rest (tp_feed t) = concat fs"
        by (auto simp: sends_def sent)
      let ?tail = "drop k (drop (cn_received cn) (conn_sent cn)) @ feed_rest (tp_feed t)"
      have "conn_sent cn = take (cn_received cn) (conn_sent cn) @ ?bs @ drop k (drop (cn_received cn) (conn_sent cn))"
        by (metis append_take_drop_id)
      then have "concat hs @ (cl_recv_buf ?c @ ?bs @ ?tail) = concat fs"
        using fs(2) h(3) by (metis append.assoc)
      from frames_prefix [OF this h(2) fs(1)] have fl: "flows (down_frame acc) (cl_recv_buf ?c @ ?bs) ?tail"
        by (simp add: flows_def)
      obtain hs' where r: "client_ok (nt_typed n) acc ?c'" "list_all (frame_sat any_frame) hs'"
          "cl_recv_buf ?c @ ?bs = concat hs' @ cl_recv_buf ?c'"
        using recv_control_heard [OF n(7) fl n(2)] by blast
      have len: "length ?bs \<le> length (conn_sent cn) - cn_received cn" by simp
      have "take (cn_received cn + length ?bs) (conn_sent cn) = take (cn_received cn) (conn_sent cn) @ ?bs"
        unfolding take_add by (metis append_eq_conv_conj append_take_drop_id)
      also have "\<dots> = concat (hs @ hs') @ cl_recv_buf ?c'" by (simp add: h(3) flip: r(3))
      finally have "heard (cl_recv_buf ?c') (cn\<lparr>cn_received := cn_received cn + length ?bs\<rparr>)"
        using h(1,2) r(2) len unfolding heard_def by (intro conjI exI [of _ "hs @ hs'"]) (simp_all add: conn_sent_def)
      moreover have "cl_feed ?c' = cl_feed ?c" by (rule recv_control_feed)
      moreover have "conn_flow ?P (nt_typed n) acc s tail (cn\<lparr>cn_received := m\<rparr>) = conn_flow ?P (nt_typed n) acc s tail cn" for m tail
        by (simp add: conn_flow_def split: option.split)
      ultimately have "conns_ok ?P (nt_typed n) acc s ?c' (cn\<lparr>cn_received := cn_received cn + length ?bs\<rparr> # old)"
        using ok unfolding conns_ok_def by (auto simp: client_outbound_def)
      with n r(1) False ids_ok_step [OF n(8), of F "Receive ?bs now"] show ?thesis
        by (intro net_okI [where acc = acc and s = s and w = w]) (auto simp: Cons Let_def)
    qed
  qed (use assms Cons in simp)
qed (use assms in simp)

lemma net_send_ok:
  assumes "net_ok n"
  shows "net_ok (net_step F T mx (Send_Up k) n)"
proof (cases "nt_conns n")
  case (Cons cn old)
  from assms show ?thesis
  proof (rule net_okD)
    fix acc s w
    assume n: "acc \<le> length (nt_typed n)" "length (nt_typed n) < 2 ^ 64"
      "list_all (\<lambda>d. length d \<le> MAX_INPUT_BYTES) (nt_typed n)"
      "typed_pieces (tr_pieces (nt_trace n)) = numbered_from (nt_typed n) 0 acc" "nt_sys n = (s, w)"
      "sess_ok (nt_typed n) (nt_trace n) w acc s" "client_ok (nt_typed n) acc (nt_client n)" "ids_ok (nt_client n)"
      "conns_ok (sess_ok (nt_typed n) (nt_trace n) w acc) (nt_typed n) acc s (nt_client n) (nt_conns n)"
    let ?c = "client_advance_outbound k (nt_client n)"
    have c: "cl_recv_buf ?c = cl_recv_buf (nt_client n)" "client_ok (nt_typed n) acc ?c" "ids_ok ?c"
      using n(7,8) by (auto simp: client_advance_outbound_def intro: client_ok_cong ids_ok_cong)
    have "feed_reach (frame_sat (up_frame (genuine (nt_typed n)))) (take k (client_outbound (nt_client n)))
        (cl_feed (nt_client n)) (cl_feed ?c)"
      by (simp add: client_advance_outbound_def client_outbound_def feed_reach_advance)
    from conns_ok_feed [OF n(9) [unfolded Cons] this c(1)] n c show ?thesis
      by (intro net_okI [where acc = acc and s = s and w = w]) (auto simp: Cons)
  qed
qed (use assms in simp)

section \<open>The server's events\<close>

text \<open>A connection and the session change together.\<close>

lemma net_update_ok:
  assumes "net_ok n" "nt_sys n = (s, w)" "i < length (nt_conns n)"
    and flow: "\<And>P acc tail. conn_flow P (nt_typed n) acc s tail (nt_conns n ! i) \<Longrightarrow>
      P = sess_ok (nt_typed n) (nt_trace n) w acc \<Longrightarrow> P s \<Longrightarrow> P s' \<and> conn_flow P (nt_typed n) acc s' tail cn'"
    and sent: "\<exists>x. conn_sent cn' = conn_sent (nt_conns n ! i) @ x" "cn_received cn' = cn_received (nt_conns n ! i)"
  shows "net_ok (n\<lparr>nt_sys := (s', w), nt_conns := (nt_conns n)[i := cn']\<rparr>)"
  using assms(1)
proof (rule net_okD)
  fix acc s0 w0
  assume n: "acc \<le> length (nt_typed n)" "length (nt_typed n) < 2 ^ 64"
    "list_all (\<lambda>d. length d \<le> MAX_INPUT_BYTES) (nt_typed n)"
    "typed_pieces (tr_pieces (nt_trace n)) = numbered_from (nt_typed n) 0 acc" "nt_sys n = (s0, w0)"
    "sess_ok (nt_typed n) (nt_trace n) w0 acc s0" "client_ok (nt_typed n) acc (nt_client n)" "ids_ok (nt_client n)"
    "conns_ok (sess_ok (nt_typed n) (nt_trace n) w0 acc) (nt_typed n) acc s0 (nt_client n) (nt_conns n)"
  have e: "s0 = s" "w0 = w" using n(5) assms(2) by simp_all
  let ?P = "sess_ok (nt_typed n) (nt_trace n) w acc"
  note flow = flow [of ?P acc, OF _ refl n(6) [unfolded e]]
  obtain ts where ts: "list_all2 (conn_flow ?P (nt_typed n) acc s) ts (nt_conns n)"
    using n(9) assms(3) by (auto simp: conns_ok_def e)
  have s': "?P s'" using flow [OF list_all2_nthD2 [OF ts assms(3)]] ..
  obtain x where x: "conn_sent cn' = conn_sent (nt_conns n ! i) @ x" using sent(1) ..
  have "conns_ok ?P (nt_typed n) acc s' (nt_client n) ((nt_conns n)[i := cn'])"
    by (rule conns_ok_update [OF n(9) [unfolded e] assms(3) s' _ x sent(2)]) (rule flow [THEN conjunct2])
  with n s' show ?thesis by (intro net_okI [where acc = acc and s = s' and w = w]) auto
qed

lemma link_flow_sess: "link_flow P G acc tail (s, t) \<Longrightarrow> P s"
  by (simp add: link_flow_def link_core_def)

lemma net_link_ok:
  assumes "net_ok n" "i < length (nt_conns n)" "cn_link (nt_conns n ! i) = Some t" "cn_up (nt_conns n ! i) = bs @ cn_up cn"
    and "bs = (case ev of Read_More (Some b) \<Rightarrow>
      if transport_enabled ev t \<and> length (tp_leftover t) \<le> 4 + MAX_FRAME then b else [] | _ \<Rightarrow> [])"
    and "cn_received cn = cn_received (nt_conns n ! i)"
  shows "net_ok (net_link m mx ev i cn t n)"
proof -
  obtain s w where sw: "nt_sys n = (s, w)" by fastforce
  obtain s' t' where st: "transport_step m mx ev (s, t) = (s', t')" by fastforce
  have "net_ok (n\<lparr>nt_sys := (s', w), nt_conns := (nt_conns n)[i := cn\<lparr>cn_link := Some t'\<rparr>]\<rparr>)"
  proof (rule net_update_ok [OF assms(1) sw assms(2)])
    fix P acc tail
    assume f: "conn_flow P (nt_typed n) acc s tail (nt_conns n ! i)" and P: "P = sess_ok (nt_typed n) (nt_trace n) w acc"
    have "link_flow P (genuine (nt_typed n)) acc (bs @ (cn_up cn @ tail)) (s, t)"
      using f by (simp add: conn_flow_def assms(3,4))
    from sc.transport_step_flow [OF this [unfolded P] assms(5), of m mx]
    have "link_flow P (genuine (nt_typed n)) acc (cn_up cn @ tail) (s', t')" unfolding P st .
    then show "P s' \<and> conn_flow P (nt_typed n) acc s' tail (cn\<lparr>cn_link := Some t'\<rparr>)"
      by (simp add: conn_flow_def link_flow_sess)
  next
    show "\<exists>x. conn_sent (cn\<lparr>cn_link := Some t'\<rparr>) = conn_sent (nt_conns n ! i) @ x"
      using transport_step_sent [of m mx ev s t] by (simp add: conn_sent_def st assms(3))
  qed (simp add: assms(6))
  then show ?thesis by (simp add: net_link_def sw st)
qed

lemma check_hello_sess: "check_hello [sid \<mapsto> s] u mty p = Inr (h, s') \<Longrightarrow> s' = s"
  by (auto simp: check_hello_def split: sum.splits if_splits option.splits)

lemma net_accept_ok:
  assumes "net_ok n"
  shows "net_ok (net_step F T mx (Accept i k) n)"
proof -
  obtain s w where sw: "nt_sys n = (s, w)" by fastforce
  let ?cn = "nt_conns n ! i"
  consider (dropped) "net_step F T mx (Accept i k) n = n"
    | (admitted) mty p rest hello sess s' t where "i < length (nt_conns n)" "cn_link ?cn = None"
      "split_frame (take k (cn_up ?cn)) = Inr (Some (mty, p), rest)"
      "check_hello [se_id s \<mapsto> s] None mty p = Inr (hello, sess)" "attach_transport mx hello rest sess = (s', t)"
  proof (cases "i < length (nt_conns n) \<and> cn_link ?cn = None")
    case i: True
    show ?thesis
    proof (cases "\<exists>mty p rest hello sess. split_frame (take k (cn_up ?cn)) = Inr (Some (mty, p), rest) \<and>
        check_hello [se_id s \<mapsto> s] None mty p = Inr (hello, sess)")
      case True
      then obtain mty p rest hello sess where "split_frame (take k (cn_up ?cn)) = Inr (Some (mty, p), rest)"
        "check_hello [se_id s \<mapsto> s] None mty p = Inr (hello, sess)" by blast
      with i admitted show ?thesis by (cases "attach_transport mx hello rest sess") blast
    next
      case False
      then have "net_step F T mx (Accept i k) n = n"
        by (auto simp: sw Let_def split: sum.split prod.split option.split)
      then show ?thesis by (rule dropped)
    qed
  next
    case False
    then have "net_step F T mx (Accept i k) n = n" by auto
    then show ?thesis by (rule dropped)
  qed
  then show ?thesis
  proof cases
    case (admitted mty p rest hello sess s' t)
    note 2 = this
    have sess: "sess = s" by (rule check_hello_sess [OF 2(4)])
    have "net_step F T mx (Accept i k) n = n\<lparr>nt_sys := (s', w),
         nt_conns := (nt_conns n)[i := ?cn\<lparr>cn_up := drop k (cn_up ?cn), cn_link := Some t\<rparr>]\<rparr>"
      using 2 by (simp add: sw Let_def)
    also have "net_ok \<dots>"
    proof (rule net_update_ok [OF assms sw 2(1)])
      fix P acc tail
      assume f: "conn_flow P (nt_typed n) acc s tail ?cn" and P: "P = sess_ok (nt_typed n) (nt_trace n) w acc" and ok: "P s"
      have "flows (up_frame (genuine (nt_typed n))) (take k (cn_up ?cn)) (drop k (cn_up ?cn) @ tail)"
        using f 2(2) by (simp add: conn_flow_def flows_shift)
      from flows_split [OF this 2(3)] have "flows (up_frame (genuine (nt_typed n))) rest (drop k (cn_up ?cn) @ tail)" by simp
      from sc.attach_flow [OF ok [unfolded P] this, of mx hello]
      have "link_flow P (genuine (nt_typed n)) acc (drop k (cn_up ?cn) @ tail) (s', t)"
        using 2(5) by (simp add: P sess)
      then show "P s' \<and> conn_flow P (nt_typed n) acc s' tail (?cn\<lparr>cn_up := drop k (cn_up ?cn), cn_link := Some t\<rparr>)"
        by (simp add: conn_flow_def link_flow_sess)
    qed (simp_all add: conn_sent_def 2(2))
    finally show ?thesis .
  qed (use assms in simp)
qed

section \<open>The owner's events\<close>

lemma genuine_next:
  assumes "genuine typed (seq, d)" "seq = next_seq (of_nat acc)" "acc \<le> length typed" "length typed < 2 ^ 64"
  shows "acc < length typed \<and> seq = of_nat (Suc acc) \<and> unat seq = Suc acc \<and> d = typed ! acc"
proof -
  have seq: "seq = of_nat (Suc acc)" by (simp add: assms(2) next_seq_def)
  have "acc < length typed"
  proof (rule ccontr)
    assume "\<not> acc < length typed"
    with assms(3) have a: "acc = length typed" by simp
    show False
    proof (cases "Suc acc < 2 ^ 64")
      case True
      then have "unat seq = Suc acc" unfolding seq by (intro unat_of_nat_small) simp
      with assms(1) a show False by (simp add: genuine_def)
    next
      case False
      with assms(4) a have "Suc acc = 2 ^ 64" by simp
      then have "unat seq = 0" unfolding seq by (simp add: unat_of_nat del: of_nat_Suc)
      with assms(1) show False by (simp add: genuine_def)
    qed
  qed
  moreover from this assms(4) have "unat seq = Suc acc" unfolding seq by (intro unat_of_nat_small) simp
  ultimately show ?thesis using assms(1) seq by (simp add: genuine_def)
qed

lemma sess_ok_last:
  assumes "sess_ok typed tr w acc s" "typed_pieces (tr_pieces tr) = numbered_from typed 0 acc"
  shows "ow_last_seq w = of_nat acc"
proof -
  have "ow_last_seq w = of_nat (length (typed_pieces (tr_pieces tr)))"
    using assms(1) by (simp add: sess_ok_def sys_ok_def stream_ok_def length_typed_pieces)
  also have "\<dots> = of_nat acc" by (simp add: assms(2) numbered_from_def)
  finally show ?thesis .
qed

lemma net_owner_ok:
  assumes "net_ok n" "owner_side ev" "screens_small (fst (session_step F T ev (nt_sys n)))"
  shows "net_ok (n\<lparr>nt_sys := session_step F T ev (nt_sys n), nt_trace := session_trace T ev (nt_sys n) (nt_trace n)\<rparr>)"
    (is "net_ok ?n")
  using assms(1)
proof (rule net_okD)
  fix acc s w
  let ?tr = "nt_trace n" and ?typed = "nt_typed n"
  assume n: "acc \<le> length ?typed" "length ?typed < 2 ^ 64" "list_all (\<lambda>d. length d \<le> MAX_INPUT_BYTES) ?typed"
    "typed_pieces (tr_pieces ?tr) = numbered_from ?typed 0 acc" "nt_sys n = (s, w)"
    "sess_ok ?typed ?tr w acc s" "client_ok ?typed acc (nt_client n)" "ids_ok (nt_client n)"
    "conns_ok (sess_ok ?typed ?tr w acc) ?typed acc s (nt_client n) (nt_conns n)"
  obtain s' w' where st: "session_step F T ev (s, w) = (s', w')" by fastforce
  define tr' where "tr' = session_trace T ev (s, w) ?tr"
  have sys: "sys_ok tr' (s', w')"
    using session_step_ok [of ?tr "(s, w)" T ev F] n(6) by (simp add: st tr'_def sess_ok_def)
  have small: "screens_small s'" using assms(3) by (simp add: n(5) st)
  have gen: "list_all (msg_genuine ?typed) (se_cmds s)" using n(6) by (simp add: sess_ok_def)
  have "\<exists>acc' \<ge> acc. acc' \<le> length ?typed \<and> typed_pieces (tr_pieces tr') = numbered_from ?typed 0 acc' \<and>
      set (se_cmds s') \<subseteq> set (se_cmds s) \<and> unat (se_accepted s') \<le> acc' \<and> se_id s' = se_id s"
    using session_step_inputs [OF assms(2), of ?tr "(s, w)" T F]
  proof
    assume "inputs_same (?tr, s, w) (session_trace T ev (s, w) ?tr, session_step F T ev (s, w))"
    with n show ?thesis
      by (intro exI [of _ acc]) (simp add: inputs_same_def st tr'_def sess_ok_def)
  next
    assume "input_accepted (?tr, s, w) (session_trace T ev (s, w) ?tr, session_step F T ev (s, w))"
    then obtain seq d where a: "Input seq d \<in> set (se_cmds s)" "seq = next_seq (ow_last_seq w)"
      "typed_pieces (tr_pieces tr') = typed_pieces (tr_pieces ?tr) @ [(seq, d)]"
      "set (se_cmds s') \<subseteq> set (se_cmds s)" "se_accepted s' = seq" "se_id s' = se_id s"
      by (auto simp: input_accepted_def st simp flip: tr'_def)
    have "genuine ?typed (seq, d)" using gen a(1) by (auto simp: list_all_iff msg_genuine_def)
    from genuine_next [OF this a(2) [unfolded sess_ok_last [OF n(6,4)]] n(1,2)] a n(4) show ?thesis
      by (intro exI [of _ "Suc acc"]) (auto simp: numbered_from_snoc simp del: of_nat_Suc)
  qed
  then obtain acc' where acc: "acc \<le> acc'" "acc' \<le> length ?typed" "typed_pieces (tr_pieces tr') = numbered_from ?typed 0 acc'"
    "set (se_cmds s') \<subseteq> set (se_cmds s)" "unat (se_accepted s') \<le> acc'" "se_id s' = se_id s" by blast
  have sess: "sess_ok ?typed tr' w' acc' s'"
    using sys small gen acc(4-6) n(6) by (auto simp: sess_ok_def list_all_iff)
  have "conns_ok (sess_ok ?typed tr' w' acc') ?typed acc' s' (nt_client n) (nt_conns n)"
    by (rule conns_ok_mono [OF n(9), where P' = "sess_ok ?typed tr' w' acc'", OF sess _ acc(1)]) simp_all
  moreover have "nt_sys ?n = (s', w')" "nt_trace ?n = tr'" by (simp_all add: n(5) st tr'_def)
  ultimately show ?thesis using n(2,3,8) sess acc(2,3) client_ok_mono [OF n(7) acc(1)]
    by (intro net_okI [where acc = acc' and s = s' and w = w'] ; simp)
qed

section \<open>Every run\<close>

lemma net_step_ok:
  assumes "net_ok n" "screens_small (fst (nt_sys (net_step F T mx ev n)))"
  shows "net_ok (net_step F T mx ev n)"
proof (cases ev)
  case (Connect now) then show ?thesis by (simp only: net_connect_ok [OF assms(1)])
next
  case (Type_Input d now) then show ?thesis by (simp only: net_type_ok [OF assms(1)])
next
  case (Client_Call cev) then show ?thesis using net_client_ok [OF assms(1), of cev F] assms(1) by simp
next
  case (Send_Up k) then show ?thesis by (simp only: net_send_ok [OF assms(1)])
next
  case (Hear k now) then show ?thesis by (simp only: net_hear_ok [OF assms(1)])
next
  case (Accept i k) then show ?thesis by (simp only: net_accept_ok [OF assms(1)])
next
  case (Link i tev)
  show ?thesis
  proof (cases "i < length (nt_conns n) \<and> (case tev of Read_More (Some (b # bs)) \<Rightarrow> False | _ \<Rightarrow> True)")
    case True
    then have "[] = (case tev of Read_More (Some b) \<Rightarrow>
        if transport_enabled tev t \<and> length (tp_leftover t) \<le> 4 + MAX_FRAME then b else [] | _ \<Rightarrow> [])" for t
      by (auto split: transport_event.splits option.splits list.splits)
    with True assms(1) net_link_ok [OF assms(1), of i _ "[]" "nt_conns n ! i"] show ?thesis
      by (auto simp: Link simp del: transport_enabled.simps split: option.split)
  qed (use assms(1) in \<open>auto simp: Link\<close>)
next
  case (Read_Up i k)
  let ?cn = "nt_conns n ! i"
  let ?ev = "Read_More (Some (take k (cn_up ?cn)))"
  have "net_ok (net_link m mx ?ev i (?cn\<lparr>cn_up := drop k (cn_up ?cn)\<rparr>) t n)"
    if "i < length (nt_conns n)" "cn_link ?cn = Some t" "transport_enabled ?ev t" "length (tp_leftover t) \<le> 4 + MAX_FRAME" for t m
    by (rule net_link_ok [OF assms(1) that(1,2), where bs = "take k (cn_up ?cn)"]) (use that(3,4) in \<open>simp_all del: transport_enabled.simps\<close>)
  with assms(1) show ?thesis by (auto simp: Read_Up Let_def simp del: transport_enabled.simps split: option.split)
next
  case (Owner oe)
  with assms net_owner_ok [OF assms(1), of oe F T] show ?thesis by (cases "owner_side oe") simp_all
qed

lemma net_reach_ok: "net_reach F T mx n \<Longrightarrow> net_ok n"
  by (induction rule: net_reach.induct) (auto intro: net_start_ok net_step_ok)

section \<open>Properties\<close>

text \<open>C1: Whatever the user types is delivered exactly once and in order: in every reachable state of a
  client, its session and all the connections there have been, whatever was lost with earlier
  connections and whatever superseded transports still read, the inputs accepted are the first
  \<open>acc\<close> of those typed, numbered from 1; what has been written to the PTY and what is pending are
  these inputs and the terminal's replies, in the order accepted; and every input not accepted is
  still held by the client for sending again.\<close>

theorem input_delivery:
  assumes "net_reach F T mx n"
  shows "case nt_sys n of (s, w) \<Rightarrow> \<exists>acc k. k \<le> acc \<and> acc \<le> length (nt_typed n) \<and>
     typed_pieces (tr_pieces (nt_trace n)) = numbered_from (nt_typed n) 0 acc \<and>
     tr_written (nt_trace n) @ pending_rest (ow_pending w) = concat (map piece_data (tr_pieces (nt_trace n))) \<and>
     se_accepted s = of_nat acc \<and>
     cl_unacked (nt_client n) = numbered_from (nt_typed n) k (length (nt_typed n))"
  using net_reach_ok [OF assms]
proof (rule net_okD)
  fix acc s w
  assume n: "acc \<le> length (nt_typed n)" "typed_pieces (tr_pieces (nt_trace n)) = numbered_from (nt_typed n) 0 acc"
    "nt_sys n = (s, w)" "sess_ok (nt_typed n) (nt_trace n) w acc s" "client_ok (nt_typed n) acc (nt_client n)"
  obtain k where "k \<le> acc" "cl_unacked (nt_client n) = numbered_from (nt_typed n) k (length (nt_typed n))"
    using n(5) by (auto simp: client_ok_def)
  moreover have "se_accepted s = of_nat acc"
    using n(4) sess_ok_last [OF n(4,2)] by (simp add: sess_ok_def sys_ok_def)
  moreover have "tr_written (nt_trace n) @ pending_rest (ow_pending w) = concat (map piece_data (tr_pieces (nt_trace n)))"
    using n(4) by (simp add: sess_ok_def sys_ok_def stream_ok_def)
  ultimately show ?thesis using n(1,2) by (simp add: n(3)) blast
qed

definition net_ex :: "(cframe, unit, unit) net" where
  "net_ex = net_step client_lib_ex term_ex None (Send_Up 100) (net_step client_lib_ex term_ex None (Connect 6)
     (net_step client_lib_ex term_ex None (Type_Input [97] 5)
       (net_start client_lib_ex term_ex (replicate 16 1) (replicate 32 2) 1000 2 2 0 True)))"

lemma net_ex_reach: "net_reach client_lib_ex term_ex None net_ex"
  unfolding net_ex_def
  by (intro net_reach.step net_reach.start)
    (simp_all add: net_start_def session_new_def screens_small_def MAX_INPUT_BYTES_def)

theorem input_delivery_witness:
  "cl_unacked (nt_client net_ex) = [(1, [97])] \<and> length (cn_up (hd (nt_conns net_ex))) = 59"
proof -
  have n: "nt_typed net_ex = [[97]]" "nt_trace net_ex = trace_new" "length (cn_up (hd (nt_conns net_ex))) = 59"
    by (simp_all add: net_ex_def net_start_def MAX_INPUT_BYTES_def begin_connection_feed client_hello_def hello_encode_def
        encode_frame_def client_new_def queue_input_def feed_predict_def refresh_display_def Let_def le16_def le32_def
        split: option.split)
  obtain s w where sw: "nt_sys net_ex = (s, w)" by fastforce
  show ?thesis using input_delivery [OF net_ex_reach] n by (auto simp: sw trace_new_def numbered_from_def)
qed

end
