(* ===== verification/Cli_Input.thy ===== *)
theory Cli_Input
  imports Utf8 "HOL-Library.Sublist"
begin

text \<open>
  What the command line client does with the keyboard (\<open>crates/quosh-cli/src/main.rs\<close>):
  \<open>filter_input\<close>, the buffer \<open>TtyWriter\<close> between the reading thread and the main loop, and the loop
  of that thread, \<open>spawn_tty_reader\<close>. The main loop is the other end of two channels; it may take
  chunks from the input channel between any two calls of \<open>try_send\<close>, which the lists \<open>ds\<close> say.
\<close>

section \<open>The escape key\<close>

definition ESCAPE_KEY :: byte where "ESCAPE_KEY = 0x1e"
definition QUIT_KEY :: byte where "QUIT_KEY = 46"

text \<open>The loop of \<open>filter_input\<close>: what is forwarded, whether to quit, and \<open>escape\<close> afterwards.\<close>

fun filter_input :: "bytes \<Rightarrow> bool \<Rightarrow> bytes \<times> bool \<times> bool" where
  "filter_input [] escape = ([], False, escape)"
| "filter_input (b # bs) escape =
     (if \<not> escape then
        if b = ESCAPE_KEY then filter_input bs True
        else (let (out, r) = filter_input bs False in (b # out, r))
      else if b = QUIT_KEY then ([], True, False)
      else (let (out, r) = filter_input bs False in
        ((if b \<noteq> ESCAPE_KEY then [ESCAPE_KEY, b] else [ESCAPE_KEY]) @ out, r)))"

section \<open>The writer\<close>

definition TTY_PENDING_CAP :: nat where "TTY_PENDING_CAP = 64 * 1024"
definition INPUT_Q :: nat where "INPUT_Q = 8"

datatype ctrl_event = Eof | Winch | Interrupt | Hangup | Overflow | Failed rstr

text \<open>\<open>tw_chan\<close> is the channel to the main loop, \<open>tw_open\<close> whether the main loop still holds its end,
  \<open>tw_ctrl\<close> what was sent on the control channel; \<open>tw_taken\<close> records what the main loop received.\<close>

record tty_writer =
  tw_chan :: "bytes list"
  tw_open :: bool
  tw_ctrl :: "ctrl_event list"
  tw_pending :: "bytes list"
  tw_pending_bytes :: nat
  tw_taken :: "bytes list"

definition tty_writer_new :: tty_writer where
  "tty_writer_new = \<lparr>tw_chan = [], tw_open = True, tw_ctrl = [], tw_pending = [], tw_pending_bytes = 0, tw_taken = []\<rparr>"

definition has_pending :: "tty_writer \<Rightarrow> bool" where
  "has_pending w \<longleftrightarrow> tw_pending w \<noteq> []"

text \<open>The main loop receives \<open>d\<close> chunks, or drops its end of the channel.\<close>

definition main_takes :: "nat \<Rightarrow> tty_writer \<Rightarrow> tty_writer" where
  "main_takes d w =
     (if tw_open w then w\<lparr>tw_chan := drop d (tw_chan w), tw_taken := tw_taken w @ take d (tw_chan w)\<rparr> else w)"

definition main_drops :: "tty_writer \<Rightarrow> tty_writer" where
  "main_drops w = w\<lparr>tw_open := False\<rparr>"

datatype send_result = Sent | Full | Closed

definition try_send_bytes :: "bytes \<Rightarrow> tty_writer \<Rightarrow> send_result \<times> tty_writer" where
  "try_send_bytes bs w =
     (if \<not> tw_open w then (Closed, w)
      else if length (tw_chan w) < INPUT_Q then (Sent, w\<lparr>tw_chan := tw_chan w @ [bs]\<rparr>)
      else (Full, w))"

text \<open>\<open>flush\<close>, the loop over \<open>pending\<close>; before the i-th \<open>try_send\<close> the main loop takes the i-th number of
  \<open>ds\<close> of chunks (none when the list has ended).\<close>

fun flush_loop :: "nat list \<Rightarrow> bytes list \<Rightarrow> tty_writer \<Rightarrow> tty_writer" where
  "flush_loop ds [] w = w\<lparr>tw_pending := []\<rparr>"
| "flush_loop ds (front # ps) w =
     (let w1 = main_takes (case ds of [] \<Rightarrow> 0 | d # _ \<Rightarrow> d) w in
      case try_send_bytes front w1 of
        (Sent, w2) \<Rightarrow> flush_loop (tl ds) ps (w2\<lparr>tw_pending_bytes := tw_pending_bytes w2 - length front\<rparr>)
      | (Full, w2) \<Rightarrow> w2\<lparr>tw_pending := front # ps\<rparr>
      | (Closed, w2) \<Rightarrow> w2\<lparr>tw_pending := [], tw_pending_bytes := 0\<rparr>)"

definition tty_flush :: "nat list \<Rightarrow> tty_writer \<Rightarrow> tty_writer" where
  "tty_flush ds w = flush_loop ds (tw_pending w) w"

definition tty_send :: "nat list \<Rightarrow> nat list \<Rightarrow> bytes \<Rightarrow> tty_writer \<Rightarrow> bool \<times> tty_writer" where
  "tty_send ds es out w0 =
     (let w = tty_flush ds w0 in
      if out = [] then (True, w)
      else if tw_pending_bytes w + length out > TTY_PENDING_CAP then (False, w)
      else (True, tty_flush es (w\<lparr>tw_pending_bytes := tw_pending_bytes w + length out, tw_pending := tw_pending w @ [out]\<rparr>)))"

definition tty_quit :: "nat \<Rightarrow> bytes \<Rightarrow> tty_writer \<Rightarrow> tty_writer" where
  "tty_quit d out w0 =
     (let w = main_takes d (w0\<lparr>tw_ctrl := tw_ctrl w0 @ [Hangup]\<rparr>) in
      if out \<noteq> [] then snd (try_send_bytes out w) else w)"

section \<open>The thread\<close>

text \<open>What \<open>poll\<close> and \<open>read\<close> return. A read gives at most 4096 bytes.\<close>

datatype poll_result =
    Poll_Intr
  | Poll_Err rstr
  | Poll_Timeout
  | Poll_Hup
  | Poll_Nothing
  | Read_Intr
  | Read_Err rstr
  | Read_Eof
  | Read_Some bytes

record tty_reader =
  rd_writer :: tty_writer
  rd_escape :: bool
  rd_running :: bool

definition tty_reader_new :: tty_reader where
  "tty_reader_new = \<lparr>rd_writer = tty_writer_new, rd_escape = False, rd_running = True\<rparr>"

text \<open>The thread ends: what the writer still holds is gone. Except after \<open>quit\<close> a message says why.\<close>

definition reader_stops :: "tty_writer \<Rightarrow> tty_reader \<Rightarrow> tty_reader" where
  "reader_stops w r = r\<lparr>rd_writer := w\<lparr>tw_pending := [], tw_pending_bytes := 0\<rparr>, rd_running := False\<rparr>"

definition reader_ends :: "ctrl_event \<Rightarrow> tty_writer \<Rightarrow> tty_reader \<Rightarrow> tty_reader" where
  "reader_ends ev w r = reader_stops (w\<lparr>tw_ctrl := tw_ctrl w @ [ev]\<rparr>) r"

text \<open>A round of the loop. \<open>cs\<close>, \<open>ds\<close> and \<open>es\<close> are what the main loop takes during its flushes.\<close>

definition tty_round :: "nat list \<Rightarrow> nat list \<Rightarrow> nat list \<Rightarrow> poll_result \<Rightarrow> tty_reader \<Rightarrow> tty_reader" where
  "tty_round cs ds es res r =
     (if \<not> rd_running r then r
      else case res of
        Poll_Intr \<Rightarrow> r
      | Poll_Err e \<Rightarrow> reader_ends (Failed (lit ''tty poll: '' @ e)) (rd_writer r) r
      | _ \<Rightarrow> (let w = tty_flush cs (rd_writer r) in
          case res of
            Poll_Hup \<Rightarrow> reader_ends Eof w r
          | Read_Err e \<Rightarrow> reader_ends (Failed (lit ''tty read: '' @ e)) w r
          | Read_Eof \<Rightarrow> reader_ends Eof w r
          | Read_Some bs \<Rightarrow>
              (let (out, quit, escape) = filter_input bs (rd_escape r); r1 = r\<lparr>rd_escape := escape\<rparr> in
               if quit then reader_stops (tty_quit (case ds of [] \<Rightarrow> 0 | d # _ \<Rightarrow> d) out w) r1
               else case tty_send ds es out w of
                   (True, w2) \<Rightarrow> r1\<lparr>rd_writer := w2\<rparr>
                 | (False, w2) \<Rightarrow> reader_ends Overflow w2 r1)
          | _ \<Rightarrow> r\<lparr>rd_writer := w\<rparr>))"

text \<open>The waits of the main loop run beside the thread.\<close>

datatype tty_event =
    Round "nat list" "nat list" "nat list" poll_result
  | Main_Takes nat
  | Main_Drops

fun tty_step :: "tty_event \<Rightarrow> tty_reader \<Rightarrow> tty_reader" where
  "tty_step (Round cs ds es res) r = tty_round cs ds es res r"
| "tty_step (Main_Takes d) r = r\<lparr>rd_writer := main_takes d (rd_writer r)\<rparr>"
| "tty_step Main_Drops r = r\<lparr>rd_writer := main_drops (rd_writer r)\<rparr>"

section \<open>The filter\<close>

lemma filter_input_append:
  "filter_input (a @ b) e = (case filter_input a e of (out, quit, e') \<Rightarrow>
     if quit then (out, True, e') else (case filter_input b e' of (out', r) \<Rightarrow> (out @ out', r)))"
  by (induction a e rule: filter_input.induct) (auto simp: Let_def split_def)

lemma filter_input_length:
  "filter_input bs e = (out, quit, e') \<Longrightarrow> length out + of_bool e' \<le> length bs + of_bool e"
proof (induction bs e arbitrary: out quit e' rule: filter_input.induct)
  case (2 b bs e)
  show ?case
  proof (cases "(\<not> e \<and> b = ESCAPE_KEY) \<or> (e \<and> b = QUIT_KEY)")
    case True
    with 2 show ?thesis by (fastforce simp: split_def)
  next
    case False
    obtain o1 q1 e1 where r: "filter_input bs False = (o1, q1, e1)" by (metis prod_cases3)
    with 2 False have "length o1 + of_bool e1 \<le> length bs" by (cases e) fastforce+
    with 2(4) False r show ?thesis by (auto split: if_splits)
  qed
qed simp

text \<open>Every sequence of bytes can be typed through the escape filter, by typing the escape key twice
  where it is meant, whatever was typed before; and nothing but the escape key followed by \<open>.\<close> quits.\<close>

definition typed_through :: "bytes \<Rightarrow> bytes" where
  "typed_through bs = concat (map (\<lambda>b. if b = ESCAPE_KEY then [ESCAPE_KEY, ESCAPE_KEY] else [b]) bs)"

lemma filter_typed_through: "filter_input (typed_through bs) False = (bs, False, False)"
  by (induction bs) (auto simp: typed_through_def ESCAPE_KEY_def QUIT_KEY_def)

lemma filter_quits: "fst (snd (filter_input bs e)) \<Longrightarrow> sublist [ESCAPE_KEY, QUIT_KEY] ((if e then [ESCAPE_KEY] else []) @ bs)"
proof (induction bs e rule: filter_input.induct)
  case (2 b bs e)
  have lift: "sublist ys xs \<Longrightarrow> sublist ys (as @ xs)" for ys xs as :: bytes by (meson sublist_append_leftI sublist_order.order_trans)
  show ?case
  proof (cases "e \<and> b = QUIT_KEY")
    case True
    then have "(if e then [ESCAPE_KEY] else []) @ b # bs = [] @ [ESCAPE_KEY, QUIT_KEY] @ bs" by simp
    then show ?thesis unfolding sublist_def by blast
  next
    case False
    show ?thesis
    proof (cases "\<not> e \<and> b = ESCAPE_KEY")
      case True
      with 2 show ?thesis by simp
    next
      case esc: False
      with False 2 have "sublist [ESCAPE_KEY, QUIT_KEY] bs" by (cases e) (auto simp: split_def Let_def)
      from lift [OF this, of "(if e then [ESCAPE_KEY] else []) @ [b]"] show ?thesis by simp
    qed
  qed
qed simp

section \<open>The writer keeps the order\<close>

text \<open>What has been handed over or still waits, in order.\<close>

definition tty_stream :: "tty_writer \<Rightarrow> bytes list" where
  "tty_stream w = tw_taken w @ tw_chan w @ tw_pending w"

definition writer_ok :: "tty_writer \<Rightarrow> bool" where
  "writer_ok w \<longleftrightarrow> tw_pending_bytes w = sum_list (map length (tw_pending w)) \<and>
     tw_pending_bytes w \<le> TTY_PENDING_CAP \<and> length (tw_chan w) \<le> INPUT_Q"

text \<open>\<open>w'\<close> comes from \<open>w\<close> without anything lost, unless the main loop has gone; nothing is reordered.\<close>

definition hands_over :: "tty_writer \<Rightarrow> tty_writer \<Rightarrow> bool" where
  "hands_over w w' \<longleftrightarrow> tw_open w' = tw_open w \<and> tw_ctrl w' = tw_ctrl w \<and>
     (if tw_open w then tty_stream w' = tty_stream w else tw_taken w' = tw_taken w)"

lemma main_takes_keeps:
  "hands_over w (main_takes d w)" "writer_ok w \<Longrightarrow> writer_ok (main_takes d w)"
  "tw_pending (main_takes d w) = tw_pending w" "tw_pending_bytes (main_takes d w) = tw_pending_bytes w"
  by (auto simp: hands_over_def main_takes_def writer_ok_def tty_stream_def)

lemma flush_loop_keeps:
  assumes "writer_ok (w\<lparr>tw_pending := ps\<rparr>)"
  shows "writer_ok (flush_loop ds ps w) \<and> hands_over (w\<lparr>tw_pending := ps\<rparr>) (flush_loop ds ps w) \<and>
    tw_pending_bytes (flush_loop ds ps w) \<le> tw_pending_bytes w"
  using assms
proof (induction ds ps w rule: flush_loop.induct)
  case (2 ds front ps w)
  define w1 where "w1 = main_takes (case ds of [] \<Rightarrow> 0 | d # _ \<Rightarrow> d) w"
  have w1: "tw_open w1 = tw_open w" "tw_ctrl w1 = tw_ctrl w" "tw_pending_bytes w1 = tw_pending_bytes w"
      "tw_open w \<Longrightarrow> tw_taken w1 @ tw_chan w1 = tw_taken w @ tw_chan w" "\<not> tw_open w \<Longrightarrow> tw_taken w1 = tw_taken w"
      "length (tw_chan w1) \<le> length (tw_chan w)"
    by (simp_all add: w1_def main_takes_def)
  show ?case
  proof (cases "tw_open w \<and> length (tw_chan w1) < INPUT_Q")
    case True
    let ?w2 = "w1\<lparr>tw_chan := tw_chan w1 @ [front]\<rparr>"
    let ?w3 = "?w2\<lparr>tw_pending_bytes := tw_pending_bytes w1 - length front\<rparr>"
    have s: "try_send_bytes front w1 = (Sent, ?w2)" using True w1 by (simp add: try_send_bytes_def)
    have "writer_ok (?w3\<lparr>tw_pending := ps\<rparr>)" using 2(2) w1 True by (simp add: writer_ok_def)
    with 2(1) [OF w1_def s [symmetric] refl]
    have ih: "writer_ok (flush_loop (tl ds) ps ?w3)" "hands_over (?w3\<lparr>tw_pending := ps\<rparr>) (flush_loop (tl ds) ps ?w3)"
      "tw_pending_bytes (flush_loop (tl ds) ps ?w3) \<le> tw_pending_bytes w1 - length front" by simp_all
    have f: "flush_loop ds (front # ps) w = flush_loop (tl ds) ps ?w3" by (simp add: s flip: w1_def)
    have "tty_stream (?w3\<lparr>tw_pending := ps\<rparr>) = tty_stream (w\<lparr>tw_pending := front # ps\<rparr>)"
      using w1(4) True by (simp add: tty_stream_def)
    with ih w1 True show ?thesis unfolding f by (simp add: hands_over_def)
  next
    case False
    with 2(2) w1 show ?thesis
      by (cases "tw_open w") (auto simp: try_send_bytes_def hands_over_def writer_ok_def tty_stream_def simp flip: w1_def)
  qed
qed (auto simp: hands_over_def writer_ok_def)

lemma tty_flush_keeps:
  assumes "writer_ok w"
  shows "writer_ok (tty_flush ds w)" "hands_over w (tty_flush ds w)"
  using flush_loop_keeps [where w = w and ps = "tw_pending w" and ds = ds] assms by (simp_all add: tty_flush_def)

lemma hands_over_trans: "hands_over w w1 \<Longrightarrow> hands_over w1 w2 \<Longrightarrow> hands_over w w2"
  by (auto simp: hands_over_def)

lemma hands_over_stream: "hands_over w w' \<Longrightarrow> tw_open w \<Longrightarrow> tty_stream w' = tty_stream w"
  by (simp add: hands_over_def)

lemma tty_send_keeps:
  assumes "writer_ok w" "tty_send ds es out w = (ok, w')"
  shows "writer_ok w' \<and> tw_ctrl w' = tw_ctrl w \<and> tw_open w' = tw_open w \<and>
    (if tw_open w then concat (tty_stream w') = concat (tty_stream w) @ (if ok then out else []) else tw_taken w' = tw_taken w)"
proof -
  define w1 where "w1 = tty_flush ds w"
  note k1 = tty_flush_keeps [OF assms(1), of ds, folded w1_def]
  let ?w2 = "w1\<lparr>tw_pending_bytes := tw_pending_bytes w1 + length out, tw_pending := tw_pending w1 @ [out]\<rparr>"
  consider "out = []" | "out \<noteq> []" "tw_pending_bytes w1 + length out > TTY_PENDING_CAP"
    | "out \<noteq> []" "tw_pending_bytes w1 + length out \<le> TTY_PENDING_CAP" by linarith
  then show ?thesis
  proof cases
    case 3
    then have ok: "writer_ok ?w2" using k1 by (simp add: writer_ok_def)
    note k2 = tty_flush_keeps [OF this, of es]
    have "w' = tty_flush es ?w2" "ok" using assms(2) 3 by (simp_all add: tty_send_def flip: w1_def)
    moreover have "tty_stream ?w2 = tty_stream w1 @ [out]" by (simp add: tty_stream_def)
    ultimately show ?thesis using k1 k2 by (auto simp: hands_over_def)
  qed (use assms(2) k1 in \<open>auto simp: tty_send_def hands_over_def simp flip: w1_def\<close>)
qed

section \<open>Runs of the thread\<close>

text \<open>The bytes the thread has read.\<close>

fun event_reads :: "tty_event \<Rightarrow> tty_reader \<Rightarrow> bytes" where
  "event_reads (Round _ _ _ (Read_Some bs)) r = (if rd_running r then bs else [])"
| "event_reads _ r = []"

fun tty_run :: "tty_event list \<Rightarrow> bytes \<times> tty_reader \<Rightarrow> bytes \<times> tty_reader" where
  "tty_run [] x = x"
| "tty_run (ev # evs) (rd, r) = tty_run evs (rd @ event_reads ev r, tty_step ev r)"

text \<open>What the main loop received, and while it holds its end what it can still receive, is a beginning of
  \<open>out\<close>; while the thread runs, all of it.\<close>

definition delivered :: "bytes \<Rightarrow> bool \<Rightarrow> tty_writer \<Rightarrow> bool" where
  "delivered out running w \<longleftrightarrow>
     (if tw_open w then prefix (concat (tty_stream w)) out \<and> (running \<longrightarrow> concat (tty_stream w) = out)
      else prefix (concat (tw_taken w)) out)"

lemma delivered_taken: "delivered out running w \<Longrightarrow> prefix (concat (tw_taken w)) out"
  by (auto simp: delivered_def tty_stream_def split: if_splits dest: append_prefixD)

text \<open>\<open>sent\<close> is \<open>out\<close> but for one gap, no longer than what the writer may hold.\<close>

definition one_gap :: "bytes \<Rightarrow> bytes \<Rightarrow> bool" where
  "one_gap out sent \<longleftrightarrow> (\<exists>a b c. out = a @ b @ c \<and> sent = a @ c \<and> length b \<le> TTY_PENDING_CAP)"

text \<open>Until the quit sequence has been read nothing of the stream is left out. The quit itself goes to the
  control channel, and only there; the bytes read with it may overtake what the writer held.\<close>

definition reader_ok :: "bytes \<Rightarrow> tty_reader \<Rightarrow> bool" where
  "reader_ok rd r \<longleftrightarrow> writer_ok (rd_writer r) \<and> (case filter_input rd False of (out, quit, e) \<Rightarrow>
     (quit \<longleftrightarrow> Hangup \<in> set (tw_ctrl (rd_writer r))) \<and>
     (if quit then \<not> rd_running r \<and> (\<exists>sent. one_gap out sent \<and> delivered sent False (rd_writer r))
      else (rd_running r \<longrightarrow> rd_escape r = e) \<and> delivered out (rd_running r) (rd_writer r)))"

lemma hands_over_ctrl: "hands_over w w' \<Longrightarrow> tw_ctrl w' = tw_ctrl w"
  by (simp add: hands_over_def)

lemma delivered_hands_over: "delivered out running w \<Longrightarrow> hands_over w w' \<Longrightarrow> delivered out running w'"
  by (simp add: delivered_def hands_over_def split: if_splits)

lemma delivered_stops:
  assumes "delivered out running w" "tw_open w' = tw_open w" "tw_taken w' = tw_taken w" "tw_chan w' = tw_chan w" "tw_pending w' = []"
  shows "delivered out False w'"
proof (cases "tw_open w")
  case True
  then have "prefix ((concat (tw_taken w) @ concat (tw_chan w)) @ concat (tw_pending w)) out"
    using assms(1) by (simp add: delivered_def tty_stream_def)
  then have "prefix (concat (tw_taken w) @ concat (tw_chan w)) out" by (rule append_prefixD)
  with assms True show ?thesis by (simp add: delivered_def tty_stream_def)
qed (use assms in \<open>simp add: delivered_def\<close>)

lemma tty_stream_pending: "tty_stream (w\<lparr>tw_ctrl := c\<rparr>) = tty_stream w" "tty_stream (w\<lparr>tw_pending_bytes := n\<rparr>) = tty_stream w"
  by (simp_all add: tty_stream_def)

lemma main_takes_ok: "reader_ok rd r \<Longrightarrow> reader_ok rd (r\<lparr>rd_writer := main_takes d (rd_writer r)\<rparr>)"
  using main_takes_keeps(1,2) [of "rd_writer r" d] hands_over_ctrl [OF main_takes_keeps(1) [of "rd_writer r" d]]
    delivered_hands_over [OF _ main_takes_keeps(1) [of "rd_writer r" d]]
  by (fastforce simp: reader_ok_def)

lemma reader_ends_ok:
  assumes "writer_ok w" "filter_input rd False = (out, False, e)" "delivered out running w" "Hangup \<notin> set (tw_ctrl w)"
    and "ev \<noteq> Hangup"
  shows "reader_ok rd (reader_ends ev w r)"
proof -
  have "delivered out running (w\<lparr>tw_ctrl := c\<rparr>)" for c
    using assms(3) by (simp add: delivered_def tty_stream_pending)
  from delivered_stops [OF this [of "tw_ctrl w @ [ev]"], of "w\<lparr>tw_ctrl := tw_ctrl w @ [ev], tw_pending := [], tw_pending_bytes := 0\<rparr>"]
  have "delivered out False (w\<lparr>tw_ctrl := tw_ctrl w @ [ev], tw_pending := [], tw_pending_bytes := 0\<rparr>)" by simp
  with assms show ?thesis by (simp add: reader_ends_def reader_stops_def reader_ok_def writer_ok_def)
qed

text \<open>The quit: of what is not handed over only the pending bytes may be overtaken.\<close>

lemma tty_quit_ok:
  assumes "writer_ok w" "filter_input rd False = (out @ x, True, e)" "delivered out True w"
  shows "reader_ok rd (reader_stops (tty_quit d x w) r)"
proof -
  define w1 where "w1 = main_takes d (w\<lparr>tw_ctrl := tw_ctrl w @ [Hangup]\<rparr>)"
  have w1: "writer_ok w1" unfolding w1_def by (rule main_takes_keeps) (use assms(1) in \<open>simp add: writer_ok_def\<close>)
  have c: "tw_ctrl w1 = tw_ctrl w @ [Hangup]" "tw_open w1 = tw_open w" "tw_pending w1 = tw_pending w"
    "tw_open w \<Longrightarrow> tw_taken w1 @ tw_chan w1 = tw_taken w @ tw_chan w" "\<not> tw_open w \<Longrightarrow> tw_taken w1 = tw_taken w"
    by (simp_all add: w1_def main_takes_def)
  define w2 where "w2 = (if x \<noteq> [] then snd (try_send_bytes x w1) else w1)"
  have q: "tty_quit d x w = w2" by (simp add: tty_quit_def w1_def w2_def Let_def)
  let ?w3 = "w2\<lparr>tw_pending := [], tw_pending_bytes := 0\<rparr>"
  have ok: "writer_ok ?w3" "Hangup \<in> set (tw_ctrl w2)"
    using w1 c(1) by (auto simp: w2_def try_send_bytes_def writer_ok_def)
  have "\<exists>sent. one_gap (out @ x) sent \<and> delivered sent False ?w3"
  proof (cases "tw_open w")
    case True
    let ?a = "concat (tw_taken w @ tw_chan w)"
    from True assms(3) have out: "out = ?a @ concat (tw_pending w)" by (simp add: delivered_def tty_stream_def)
    have "length (concat (tw_pending w)) \<le> TTY_PENDING_CAP"
      using assms(1) by (simp add: writer_ok_def length_concat)
    then have "one_gap (out @ x) (?a @ x)" unfolding one_gap_def out
      by (intro exI [of _ ?a] exI [of _ "concat (tw_pending w)"] exI [of _ x]) simp
    moreover have "tw_open ?w3" "tw_taken ?w3 @ tw_chan ?w3 = tw_taken w @ tw_chan w \<or>
        tw_taken ?w3 @ tw_chan ?w3 = tw_taken w @ tw_chan w @ [x]"
      using True c(2,4) by (auto simp: w2_def try_send_bytes_def)
    then have "tw_open ?w3 \<and> prefix (concat (tw_taken ?w3 @ tw_chan ?w3)) (?a @ x)"
      by (elim conjE disjE) (simp_all only: append_Nil2 concat_append concat.simps, simp_all)
    then have "delivered (?a @ x) False ?w3"
      unfolding delivered_def tty_stream_def by simp
    ultimately show ?thesis by blast
  next
    case False
    have "one_gap (out @ x) (out @ x)" unfolding one_gap_def
      by (intro exI [of _ out] exI [of _ "[]"] exI [of _ x]) simp
    moreover have "\<not> tw_open ?w3" "tw_taken ?w3 = tw_taken w" using False c by (auto simp: w2_def try_send_bytes_def)
    then have "delivered (out @ x) False ?w3" using False assms(3) by (simp add: delivered_def)
    ultimately show ?thesis by blast
  qed
  with ok assms(2) show ?thesis by (simp add: q reader_stops_def reader_ok_def)
qed

lemma delivered_sends:
  assumes "delivered out True w" "tw_open w' = tw_open w"
    "if tw_open w then concat (tty_stream w') = concat (tty_stream w) @ x else tw_taken w' = tw_taken w"
  shows "delivered (out @ x) True w'"
  using assms by (cases "tw_open w") (auto simp: delivered_def)

lemma delivered_refused:
  assumes "delivered out True w" "tw_open w' = tw_open w"
    "if tw_open w then concat (tty_stream w') = concat (tty_stream w) else tw_taken w' = tw_taken w"
  shows "delivered (out @ x) False w'"
  using assms by (cases "tw_open w") (auto simp: delivered_def)

lemma reader_running:
  assumes "reader_ok rd r" "rd_running r"
  obtains out e where "filter_input rd False = (out, False, e)" "rd_escape r = e" "delivered out True (rd_writer r)"
    "writer_ok (rd_writer r)" "Hangup \<notin> set (tw_ctrl (rd_writer r))"
  using assms by (cases "filter_input rd False") (auto simp: reader_ok_def split: if_splits)

lemma read_some_ok:
  assumes "reader_ok rd r" "rd_running r"
  shows "reader_ok (rd @ bs) (tty_round cs ds es (Read_Some bs) r)"
proof -
  define w where "w = tty_flush cs (rd_writer r)"
  obtain out e where f: "filter_input rd False = (out, False, e)" "rd_escape r = e" "delivered out True (rd_writer r)"
      "writer_ok (rd_writer r)" "Hangup \<notin> set (tw_ctrl (rd_writer r))" by (rule reader_running [OF assms])
  note k = tty_flush_keeps [OF f(4), of cs, folded w_def]
  have d: "delivered out True w" using f(3) k(2) by (rule delivered_hands_over)
  have h: "Hangup \<notin> set (tw_ctrl w)" using f(5) hands_over_ctrl [OF k(2)] by simp
  obtain o1 q1 e1 where g: "filter_input bs e = (o1, q1, e1)" by (metis prod_cases3)
  then have fa: "filter_input (rd @ bs) False = (out @ o1, q1, e1)" by (simp add: filter_input_append f(1))
  show ?thesis
  proof (cases q1)
    case True
    from tty_quit_ok [OF k(1) fa [unfolded eq_True [THEN iffD2, OF True]] d] True assms(2) show ?thesis
      by (simp add: tty_round_def f(2) g Let_def flip: w_def)
  next
    case False
    obtain ok w2 where t: "tty_send ds es o1 w = (ok, w2)" by fastforce
    note s = tty_send_keeps [OF k(1) t]
    show ?thesis
    proof (cases ok)
      case True
      from delivered_sends [OF d, of w2 o1] s True have "delivered (out @ o1) True w2" by simp
      with s h True False assms(2) show ?thesis
        by (simp add: tty_round_def f(2) g Let_def t reader_ok_def fa flip: w_def)
    next
      case no: False
      from delivered_refused [OF d, of w2 o1] s no have "delivered (out @ o1) False w2" by simp
      with reader_ends_ok [OF _ fa [unfolded eq_False [THEN iffD2, OF False]]] s h no False assms(2) show ?thesis
        by (simp add: tty_round_def f(2) g Let_def t flip: w_def)
    qed
  qed
qed

lemma tty_step_ok:
  assumes "reader_ok rd r"
  shows "reader_ok (rd @ event_reads ev r) (tty_step ev r)"
proof (cases ev)
  case (Main_Takes d)
  with main_takes_ok [OF assms] show ?thesis by simp
next
  case Main_Drops
  have "delivered out running (main_drops w)" if "delivered out running w" for out running w
    using delivered_taken [OF that] by (simp add: delivered_def main_drops_def)
  with assms show ?thesis by (fastforce simp: Main_Drops main_drops_def reader_ok_def writer_ok_def)
next
  case (Round cs ds es res)
  show ?thesis
  proof (cases "rd_running r")
    case True
    define w where "w = tty_flush cs (rd_writer r)"
    obtain out e where f: "filter_input rd False = (out, False, e)" "rd_escape r = e" "delivered out True (rd_writer r)"
        "writer_ok (rd_writer r)" "Hangup \<notin> set (tw_ctrl (rd_writer r))" by (rule reader_running [OF assms True])
    note k = tty_flush_keeps [OF f(4), of cs, folded w_def]
    have d: "delivered out True w" using f(3) k(2) by (rule delivered_hands_over)
    have h: "Hangup \<notin> set (tw_ctrl w)" using f(5) hands_over_ctrl [OF k(2)] by simp
    have go: "reader_ok rd (r\<lparr>rd_writer := w\<rparr>)" using f d h k True by (simp add: reader_ok_def)
    note stop = reader_ends_ok [OF f(4,1,3,5)] reader_ends_ok [OF k(1) f(1) d h]
    show ?thesis
    proof (cases res)
      case (Read_Some bs)
      with Round True read_some_ok [OF assms True] show ?thesis by simp
    qed (use assms True go stop in \<open>simp_all add: Round tty_round_def Let_def flip: w_def\<close>)
  next
    case False
    with assms have "event_reads ev r = []" by (cases res) (simp_all add: Round)
    with False assms show ?thesis by (simp add: Round tty_round_def)
  qed
qed

lemma tty_run_ok: "reader_ok rd r \<Longrightarrow> reader_ok (fst (tty_run evs (rd, r))) (snd (tty_run evs (rd, r)))"
proof (induction evs arbitrary: rd r)
  case (Cons ev evs)
  from Cons.IH [OF tty_step_ok [OF Cons.prems, of ev]] show ?case by simp
qed simp

lemma tty_new_ok: "reader_ok [] tty_reader_new"
  by (simp add: reader_ok_def tty_reader_new_def tty_writer_new_def writer_ok_def delivered_def tty_stream_def)

text \<open>C29: The command stream has no hole. However the main loop stalls, resumes or goes away, and whatever
  \<open>poll\<close> and \<open>read\<close> return: as long as the quit sequence is not among the bytes read, the chunks handed
  to the main loop are a beginning of what the filter forwards, and while the thread runs and the
  main loop holds its end nothing is lost. The quit sequence is what puts \<open>Hangup\<close> on the control
  channel, however full the queues are; it ends the thread, and then what the main loop has received
  is a beginning of the stream with at most one gap, of no more than the 64 KiB that waited in the
  process. What waits there stays within 64 KiB and the channel's eight chunks at all times.\<close>

theorem keyboard_stream_whole:
  assumes "tty_run evs ([], tty_reader_new) = (rd, r)" "filter_input rd False = (out, quit, e)"
  shows "(quit \<longleftrightarrow> Hangup \<in> set (tw_ctrl (rd_writer r))) \<and>
    (if quit then \<not> rd_running r \<and> (\<exists>a b c. out = a @ b @ c \<and> length b \<le> TTY_PENDING_CAP \<and>
         prefix (concat (tw_taken (rd_writer r))) (a @ c))
     else prefix (concat (tw_taken (rd_writer r))) out \<and>
       (rd_running r \<and> tw_open (rd_writer r) \<longrightarrow>
          concat (tw_taken (rd_writer r) @ tw_chan (rd_writer r) @ tw_pending (rd_writer r)) = out)) \<and>
    sum_list (map length (tw_pending (rd_writer r))) \<le> TTY_PENDING_CAP \<and> length (tw_chan (rd_writer r)) \<le> INPUT_Q"
proof -
  have "reader_ok rd r" using tty_run_ok [OF tty_new_ok, of evs] assms(1) by simp
  then have ok: "writer_ok (rd_writer r)" "quit \<longleftrightarrow> Hangup \<in> set (tw_ctrl (rd_writer r))"
    "if quit then \<not> rd_running r \<and> (\<exists>sent. one_gap out sent \<and> delivered sent False (rd_writer r))
     else delivered out (rd_running r) (rd_writer r)"
    by (auto simp: reader_ok_def assms(2))
  have "\<exists>a b c. out = a @ b @ c \<and> length b \<le> TTY_PENDING_CAP \<and> prefix (concat (tw_taken (rd_writer r))) (a @ c)" if "quit"
    using ok(3) that delivered_taken unfolding one_gap_def by (metis (full_types))
  moreover have "rd_running r \<Longrightarrow> tw_open (rd_writer r) \<Longrightarrow> concat (tty_stream (rd_writer r)) = out" if "\<not> quit"
    using ok(3) that by (simp add: delivered_def)
  ultimately show ?thesis using ok by (auto simp: writer_ok_def tty_stream_def delivered_taken)
qed

lemmas tty_eval = tty_reader_new_def tty_writer_new_def tty_round_def tty_send_def tty_flush_def try_send_bytes_def
  main_takes_def INPUT_Q_def TTY_PENDING_CAP_def tty_quit_def reader_stops_def Let_def ESCAPE_KEY_def QUIT_KEY_def

theorem keyboard_stream_whole_witness:
  "prefix (concat (tw_taken (rd_writer (snd (tty_run
     [Round [] [] [] (Read_Some [97, 0x1e]), Main_Takes 1, Round [] [] [] (Read_Some [98])] ([], tty_reader_new))))))
   [97, 0x1e, 98]"
  using keyboard_stream_whole [of "[Round [] [] [] (Read_Some [97, 0x1e]), Main_Takes 1, Round [] [] [] (Read_Some [98])]"
      "[97, 0x1e, 98]" "snd (tty_run [Round [] [] [] (Read_Some [97, 0x1e]), Main_Takes 1, Round [] [] [] (Read_Some [98])] ([], tty_reader_new))"
      "[97, 0x1e, 98]" False False]
  by (simp add: prod_eq_iff tty_eval)

section \<open>The chunks\<close>

text \<open>Every chunk that reaches the main loop is one the session accepts: not empty, and far below the
  limit of an input message.\<close>

definition all_chunks :: "tty_writer \<Rightarrow> bytes set" where
  "all_chunks w = set (tw_taken w) \<union> set (tw_chan w) \<union> set (tw_pending w)"

definition chunk_sized :: "bytes \<Rightarrow> bool" where
  "chunk_sized bs \<longleftrightarrow> bs \<noteq> [] \<and> length bs \<le> 4097"

lemma main_takes_chunks: "all_chunks (main_takes d w) \<subseteq> all_chunks w"
  by (auto simp: main_takes_def all_chunks_def dest: in_set_takeD in_set_dropD)

lemma flush_loop_chunks: "all_chunks (flush_loop ds ps w) \<subseteq> all_chunks (w\<lparr>tw_pending := ps\<rparr>)"
proof (induction ds ps w rule: flush_loop.induct)
  case (2 ds front ps w)
  define w1 where "w1 = main_takes (case ds of [] \<Rightarrow> 0 | d # _ \<Rightarrow> d) w"
  have w1: "set (tw_taken w1) \<union> set (tw_chan w1) \<subseteq> set (tw_taken w) \<union> set (tw_chan w)"
    by (auto simp: w1_def main_takes_def dest: in_set_takeD in_set_dropD)
  show ?case
  proof (cases "fst (try_send_bytes front w1)")
    case Sent
    then obtain w2 where s: "try_send_bytes front w1 = (Sent, w2)" by (cases "try_send_bytes front w1") auto
    then have w2: "w2 = w1\<lparr>tw_chan := tw_chan w1 @ [front]\<rparr>" by (auto simp: try_send_bytes_def split: if_splits)
    from 2 [OF w1_def s [symmetric] refl] w1 show ?thesis
      by (simp add: s all_chunks_def w2 flip: w1_def) blast
  qed (use w1 in \<open>auto simp: all_chunks_def try_send_bytes_def simp flip: w1_def split: if_splits\<close>)
qed simp

lemma tty_flush_chunks: "all_chunks (tty_flush ds w) \<subseteq> all_chunks w"
  using flush_loop_chunks [of ds "tw_pending w" w] by (simp add: tty_flush_def)

lemma tty_send_chunks: "all_chunks (snd (tty_send ds es out w)) \<subseteq> all_chunks w \<union> ({out} - {[]})"
proof -
  have "all_chunks (w\<lparr>tw_pending_bytes := n, tw_pending := tw_pending w @ [out]\<rparr>) = all_chunks w \<union> {out}" for w n
    by (simp add: all_chunks_def insert_commute)
  then show ?thesis
    using tty_flush_chunks [of ds w] tty_flush_chunks [of es "_\<lparr>tw_pending_bytes := _, tw_pending := _ @ [out]\<rparr>"]
    unfolding tty_send_def Let_def by (simp split: if_split) blast
qed

lemma tty_quit_chunks: "all_chunks (tty_quit d out w) \<subseteq> all_chunks w \<union> ({out} - {[]})"
  using main_takes_chunks [of d "w\<lparr>tw_ctrl := tw_ctrl w @ [Hangup]\<rparr>"]
  by (auto simp: tty_quit_def Let_def try_send_bytes_def all_chunks_def split: if_splits)

lemma reader_stops_chunks: "all_chunks (rd_writer (reader_stops w r)) \<subseteq> all_chunks w"
  "all_chunks (rd_writer (reader_ends ev w r)) \<subseteq> all_chunks w"
  by (auto simp: reader_stops_def reader_ends_def all_chunks_def)

lemma tty_round_chunks:
  assumes "case res of Read_Some bs \<Rightarrow> length bs \<le> 4096 | _ \<Rightarrow> True"
  shows "all_chunks (rd_writer (tty_round cs ds es res r)) \<subseteq> all_chunks (rd_writer r) \<union> Collect chunk_sized"
proof (cases "rd_running r")
  case True
  define w where "w = tty_flush cs (rd_writer r)"
  have w: "all_chunks w \<subseteq> all_chunks (rd_writer r)" by (simp add: w_def tty_flush_chunks)
  show ?thesis
  proof (cases res)
    case (Read_Some bs)
    obtain out quit e where f: "filter_input bs (rd_escape r) = (out, quit, e)" by (metis prod_cases3)
    have "length out \<le> 4097" using filter_input_length [OF f] assms by (simp add: Read_Some of_bool_def split: if_splits)
    then have out: "{out} - {[]} \<subseteq> Collect chunk_sized" by (auto simp: chunk_sized_def)
    obtain ok w2 where t: "tty_send ds es out w = (ok, w2)" by fastforce
    have "all_chunks w2 \<subseteq> all_chunks w \<union> Collect chunk_sized"
      using tty_send_chunks [of ds es out w] out by (auto simp: t)
    moreover have "all_chunks (tty_quit d out w) \<subseteq> all_chunks w \<union> Collect chunk_sized" for d
      using tty_quit_chunks [of d out w] out by blast
    ultimately show ?thesis using w True reader_stops_chunks
      by (simp add: Read_Some tty_round_def f Let_def t split: bool.split flip: w_def) blast
  qed (use w True in \<open>auto simp: tty_round_def Let_def simp flip: w_def dest!: subsetD [OF reader_stops_chunks(2)]\<close>)
qed (simp add: tty_round_def)

fun reads_4k :: "tty_event \<Rightarrow> bool" where
  "reads_4k (Round _ _ _ (Read_Some bs)) = (length bs \<le> 4096)"
| "reads_4k _ = True"

lemma tty_step_chunks:
  assumes "reads_4k ev"
  shows "all_chunks (rd_writer (tty_step ev r)) \<subseteq> all_chunks (rd_writer r) \<union> Collect chunk_sized"
proof (cases ev)
  case (Round cs ds es res)
  with assms have "case res of Read_Some bs \<Rightarrow> length bs \<le> 4096 | _ \<Rightarrow> True" by (cases res) simp_all
  from tty_round_chunks [OF this] show ?thesis by (simp add: Round)
next
  case (Main_Takes d)
  with main_takes_chunks [of d "rd_writer r"] show ?thesis by auto
qed (auto simp: main_drops_def all_chunks_def)

lemma tty_run_chunks:
  assumes "list_all reads_4k evs" "all_chunks (rd_writer r) \<subseteq> Collect chunk_sized"
  shows "all_chunks (rd_writer (snd (tty_run evs (rd, r)))) \<subseteq> Collect chunk_sized"
  using assms
proof (induction evs arbitrary: rd r)
  case (Cons ev evs)
  then have "all_chunks (rd_writer (tty_step ev r)) \<subseteq> Collect chunk_sized" using tty_step_chunks [of ev r] by auto
  with Cons show ?case by simp
qed simp

lemma keyboard_chunks_fit:
  assumes "list_all reads_4k evs"
  shows "list_all chunk_sized (tw_taken (rd_writer (snd (tty_run evs ([], tty_reader_new)))))"
  using tty_run_chunks [OF assms, of tty_reader_new "[]"]
  by (auto simp: list_all_iff all_chunks_def tty_reader_new_def tty_writer_new_def)

text \<open>The quit sequence may let a later chunk overtake buffered ones: the bytes before it are tried on the
  channel although earlier ones still wait in the writer, and if the main loop takes a chunk
  meanwhile it receives \<open>out\<close> right after what the channel held, without what was pending.\<close>

lemma quit_overtakes_pending:
  assumes "tw_open w" "length (tw_chan w) = INPUT_Q" "tw_pending w \<noteq> []" "out \<noteq> []"
  shows "tw_taken (tty_quit 1 out w) @ tw_chan (tty_quit 1 out w) = tw_taken w @ tw_chan w @ [out]"
  using assms by (cases "tw_chan w") (simp_all add: tty_eval)

end
