(* ===== verification/Cli_Loop.thy ===== *)
theory Cli_Loop
  imports Client_Props Cli_Input Ansi
begin

text \<open>
  The command line client (\<open>crates/quosh-cli/src/main.rs\<close>): what it draws (\<open>Painter\<close> and the functions
  it writes with), the loop of one connection (\<open>session_loop\<close>) and the loop around it that connects
  again (\<open>run_session\<close>). Both loops are one state machine with a phase; an event of it is what a
  \<open>select!\<close> waits for, with the readings of the clock. What standard output answers is a list of
  results, consumed write by write; when the list has ended writes succeed.
\<close>

section \<open>Standard output\<close>

text \<open>A write that fails may have written some bytes, and says whether the error was \<open>WouldBlock\<close>;
  \<open>Write_Zero n\<close> is a writer that takes \<open>n\<close> bytes and then none.\<close>

datatype write_result = All_Written | Write_Error nat bool | Write_Zero nat

record term_out =
  to_terminal :: bool
  to_written :: bytes
  to_results :: "write_result list"

datatype cli_error =
    Fatal_Server rstr
  | Fatal_Client client_error
  | Io_Error bool
  | Other_Error rstr

definition put_bytes :: "bytes \<Rightarrow> term_out \<Rightarrow> (cli_error + unit) \<times> term_out" where
  "put_bytes bs o1 = (case to_results o1 of
       Write_Error n blocked # rs \<Rightarrow>
         (Inl (Io_Error blocked), o1\<lparr>to_written := to_written o1 @ take n bs, to_results := rs\<rparr>)
     | Write_Zero n # rs \<Rightarrow> (Inl (Io_Error False), o1\<lparr>to_written := to_written o1 @ take n bs, to_results := rs\<rparr>)
     | rs \<Rightarrow> (Inr (), o1\<lparr>to_written := to_written o1 @ bs, to_results := tl rs\<rparr>))"

definition esc :: "string \<Rightarrow> bytes" where
  "esc s = 27 # lit s"

definition emit_title :: "rstr \<Rightarrow> term_out \<Rightarrow> (cli_error + unit) \<times> term_out" where
  "emit_title title o1 = (if \<not> to_terminal o1 then (Inr (), o1) else put_bytes (esc '']2;'' @ title @ [7]) o1)"

definition push_title :: "term_out \<Rightarrow> (cli_error + unit) \<times> term_out" where
  "push_title o1 = (if \<not> to_terminal o1 then (Inr (), o1) else put_bytes (esc ''[22;0t'') o1)"

definition pop_title :: "term_out \<Rightarrow> (cli_error + unit) \<times> term_out" where
  "pop_title o1 = (if \<not> to_terminal o1 then (Inr (), o1) else put_bytes (esc ''[23;0t'') o1)"

definition title_for :: "rstr \<Rightarrow> u64 option \<Rightarrow> rstr" where
  "title_for base outage = (if outage \<noteq> None then base @ lit '' (offline)'' else base)"

definition banner_line :: "u64 \<Rightarrow> rstr" where
  "banner_line elapsed_ms = lit '' quosh: '' @ dec_digits (unat elapsed_ms div 1000) @
     lit '' seconds without network  [Ctrl-^ . to quit] ''"

definition banner_bytes :: "u16 \<Rightarrow> rstr \<Rightarrow> bytes" where
  "banner_bytes rows line = esc ''[s'' @ esc ''['' @ dec_digits (unat rows) @ lit '';1H'' @ esc ''[7m'' @ line @
     esc ''[0m'' @ esc ''[K'' @ esc ''[u''"

definition write_banner :: "u16 \<Rightarrow> rstr \<Rightarrow> term_out \<Rightarrow> (cli_error + unit) \<times> term_out" where
  "write_banner rows line o1 = put_bytes (banner_bytes rows line) o1"

definition frame_bytes :: "('f, 'z) frame_lib_scheme \<Rightarrow> 'f \<Rightarrow> bool \<Rightarrow> bytes" where
  "frame_bytes F frame show_cursor =
     esc ''[?25l'' @ esc ''[H'' @ esc ''[2J'' @ frame_ansi F frame @
     esc ''['' @ dec_digits (unat (fs_cursor_row F frame + 1)) @ lit '';'' @
       dec_digits (unat (fs_cursor_col F frame + 1)) @ lit ''H'' @
     (if show_cursor \<and> fs_mode F frame AND MODE_CURSOR_VISIBLE \<noteq> 0 then esc ''[?25h'' else [])"

text \<open>The loop of \<open>paint_frame\<close> stops without an error when the writer takes nothing.\<close>

definition paint_frame :: "('f, 'z) frame_lib_scheme \<Rightarrow> 'f \<Rightarrow> bool \<Rightarrow> term_out \<Rightarrow> (cli_error + unit) \<times> term_out" where
  "paint_frame F frame show_cursor o1 =
     (let buf = frame_bytes F frame show_cursor in
      case to_results o1 of
        Write_Zero n # rs \<Rightarrow> (Inr (), o1\<lparr>to_written := to_written o1 @ take n buf, to_results := rs\<rparr>)
      | _ \<Rightarrow> put_bytes buf o1)"

text \<open>The result of the write is ignored.\<close>

definition apply_modes :: "u16 \<Rightarrow> u16 \<Rightarrow> term_out \<Rightarrow> u16 \<times> term_out" where
  "apply_modes mode prev o1 =
     (let was_paste = (prev AND MODE_BRACKETED_PASTE \<noteq> 0); now_paste = (mode AND MODE_BRACKETED_PASTE \<noteq> 0) in
      (mode, if was_paste \<noteq> now_paste
             then snd (put_bytes (if now_paste then esc ''[?2004h'' else esc ''[?2004l'') o1) else o1))"

section \<open>The painter\<close>

record 'f painter =
  pt_title :: rstr
  pt_shown_frame :: "'f option"
  pt_shown_banner :: "rstr option"
  pt_shown_title :: "rstr option"

definition painter_new :: "rstr \<Rightarrow> 'f painter" where
  "painter_new title = \<lparr>pt_title = title, pt_shown_frame = None, pt_shown_banner = None, pt_shown_title = None\<rparr>"

definition force_repaint :: "'f painter \<Rightarrow> 'f painter" where
  "force_repaint p = p\<lparr>pt_shown_frame := None, pt_shown_banner := None\<rparr>"

definition paint_title :: "u64 option \<Rightarrow> 'f painter \<Rightarrow> term_out \<Rightarrow> (cli_error + unit) \<times> 'f painter \<times> term_out" where
  "paint_title outage p o1 =
     (let desired = title_for (pt_title p) outage in
      if pt_shown_title p = Some desired then (Inr (), p, o1)
      else case emit_title desired o1 of
          (Inl e, o2) \<Rightarrow> (Inl e, p, o2)
        | (Inr _, o2) \<Rightarrow> (Inr (), p\<lparr>pt_shown_title := Some desired\<rparr>, o2))"

definition paint ::
  "('f, 'z) frame_lib_scheme \<Rightarrow> ('f, 'v) client \<Rightarrow> 'f painter \<Rightarrow> term_out \<Rightarrow> (cli_error + unit) \<times> 'f painter \<times> term_out" where
  "paint F c p0 o0 =
     (let banner = map_option banner_line (cl_outage c) in
      case paint_title (cl_outage c) p0 o0 of
        (Inl e, p, o1) \<Rightarrow> (Inl e, p, o1)
      | (Inr _, p, o1) \<Rightarrow> (case cl_display c of
          None \<Rightarrow> (Inr (), p, o1)
        | Some frame \<Rightarrow>
            if pt_shown_frame p = Some frame \<and> pt_shown_banner p = banner then (Inr (), p, o1)
            else (case paint_frame F frame (banner = None) o1 of
                (Inl e, o2) \<Rightarrow> (Inl e, p, o2)
              | (Inr _, o2) \<Rightarrow>
                  (case (case banner of None \<Rightarrow> (Inr (), o2) | Some line \<Rightarrow> write_banner (fs_rows F frame) line o2) of
                      (Inl e, o3) \<Rightarrow> (Inl e, p, o3)
                    | (Inr _, o3) \<Rightarrow> (Inr (), p\<lparr>pt_shown_frame := Some frame, pt_shown_banner := banner\<rparr>, o3)))))"

section \<open>One connection\<close>

definition MAX_HANDSHAKE_FAILURES :: nat where "MAX_HANDSHAKE_FAILURES = 5"

datatype link_end = Ended | Lost | HandshakeFailed

definition fatal :: "rstr \<Rightarrow> cli_error" where
  "fatal m = Fatal_Server m"

definition handshake_failed :: "rstr \<Rightarrow> cli_error" where
  "handshake_failed reason = fatal (lit ''handshake with quosh-server failed: '' @ reason @
     lit '' (is quosh-server up to date with this client?)'')"

definition handshake_closed :: cli_error where
  "handshake_closed = handshake_failed (lit ''connection closed before HelloOk'')"

definition input_overflowed :: cli_error where
  "input_overflowed = fatal (lit ''local input buffer overflowed while the connection was stalled; refusing to forward a partial command stream (reconnect and retry)'')"

definition stream_end :: "('f, 'v) client \<Rightarrow> cli_error + link_end" where
  "stream_end c = (if cl_hello_ok c then Inr Lost else Inl handshake_closed)"

definition transport_error :: "('f, 'v) client \<Rightarrow> cli_error + link_end" where
  "transport_error c = (if cl_hello_ok c then Inr Lost else Inr HandshakeFailed)"

definition client_fatal :: "client_error \<Rightarrow> cli_error" where
  "client_fatal e = Fatal_Client e"

text \<open>The loop of \<open>flush_bounded\<close>: \<open>ws\<close> is what its writes return, ended by an error or the deadline.\<close>

fun cli_flush :: "nat list \<Rightarrow> ('f, 'v) client \<Rightarrow> ('f, 'v) client" where
  "cli_flush [] c = client_pump c"
| "cli_flush (n # ws) c0 =
     (let c = client_pump c0 in
      if \<not> client_writing c \<or> n = 0 then c else cli_flush ws (client_advance_outbound n c))"

text \<open>What the \<open>select!\<close> of \<open>session_loop\<close> waits for. A window change comes with the new size, a hangup with
  the results of the writes that follow it.\<close>

datatype link_event =
    Recv_Data bytes u64
  | Recv_End
  | Recv_Error
  | Datagram_Data bytes u64
  | Datagram_Error
  | Sent_Data nat
  | Send_Error
  | Ctrl "ctrl_event option" "u16 \<times> u16" "nat list"
  | Keys "bytes option" u64
  | Elapsed

fun link_enabled :: "link_event \<Rightarrow> ('f, 'v) client \<Rightarrow> bool" where
  "link_enabled (Sent_Data n) c = (client_writing c \<and> n \<le> length (client_outbound c))"
| "link_enabled Send_Error c = client_writing c"
| "link_enabled (Keys b now) c = can_accept_input c"
| "link_enabled (Recv_Data bs now) c = (bs \<noteq> [])"
| "link_enabled _ c = True"

text \<open>An arm of the \<open>select!\<close>: the loop goes on (\<open>None\<close>), or ends.\<close>

fun link_arm ::
  "('f, 'v, 'z) client_lib_scheme \<Rightarrow> link_event \<Rightarrow> ('f, 'v) client \<Rightarrow> (cli_error + link_end) option \<times> ('f, 'v) client" where
  "link_arm F (Recv_Data bs now) c = (case recv_control F bs now c of
       (c', Some e) \<Rightarrow> (Some (Inl (client_fatal e)), c') | (c', None) \<Rightarrow> (None, c'))"
| "link_arm F Recv_End c = (Some (stream_end c), c)"
| "link_arm F Recv_Error c = (Some (transport_error c), c)"
| "link_arm F (Datagram_Data bs now) c = (None, recv_datagram F bs now c)"
| "link_arm F Datagram_Error c = (Some (transport_error c), c)"
| "link_arm F (Sent_Data n) c =
     (if n = 0 then (Some (stream_end c), c) else (None, client_advance_outbound n c))"
| "link_arm F Send_Error c = (Some (transport_error c), c)"
| "link_arm F (Ctrl (Some (Failed m)) sz ws) c = (Some (Inl (Other_Error (lit ''input: '' @ m))), c)"
| "link_arm F (Ctrl (Some Overflow) sz ws) c = (Some (Inl input_overflowed), c)"
| "link_arm F (Ctrl (Some Winch) sz ws) c = (None, set_size (fst sz) (snd sz) c)"
| "link_arm F (Ctrl ev sz ws) c = (Some (Inr Ended), cli_flush ws (request_hangup c))"
| "link_arm F (Keys b now) c = (None, case b of None \<Rightarrow> c | Some bs \<Rightarrow> queue_input F bs now c)"
| "link_arm F Elapsed c = (None, c)"

section \<open>The machine\<close>

datatype phase =
    Connecting bool
  | Attached u16
  | Exited "cli_error option"

record ('f, 'v) cli =
  cs_client :: "('f, 'v) client"
  cs_painter :: "'f painter"
  cs_out :: term_out
  cs_raw :: bool
  cs_failures :: nat
  cs_phase :: phase

text \<open>\<open>run_session\<close> up to its loop. The first two writes may fail, and so may \<open>dup_stdin\<close>, whose error is
  \<open>tty\<close>: then the function returns before raw mode was entered.\<close>

definition cli_start ::
  "('f, 'v, 'z) client_lib_scheme \<Rightarrow> bytes \<Rightarrow> bytes \<Rightarrow> u16 \<Rightarrow> u16 \<Rightarrow> bool \<Rightarrow> rstr \<Rightarrow> rstr option \<Rightarrow>
   term_out \<Rightarrow> ('f, 'v) cli" where
  "cli_start F session_id token cols rows never title tty o0 =
     (let x = \<lparr>cs_client = client_new F session_id token cols rows never, cs_painter = painter_new title,
               cs_out = o0, cs_raw = False, cs_failures = 0, cs_phase = Connecting False\<rparr> in
      case push_title o0 of
        (Inl e, o1) \<Rightarrow> x\<lparr>cs_out := o1, cs_phase := Exited (Some e)\<rparr>
      | (Inr _, o1) \<Rightarrow> (case paint_title None (cs_painter x) o1 of
          (Inl e, p, o2) \<Rightarrow> x\<lparr>cs_painter := p, cs_out := o2, cs_phase := Exited (Some e)\<rparr>
        | (Inr _, p, o2) \<Rightarrow> x\<lparr>cs_painter := p, cs_out := o2, cs_phase := (case tty of None \<Rightarrow> Connecting False
            | Some e \<Rightarrow> Exited (Some (Other_Error (lit ''dup stdin for input: '' @ e))))\<rparr>))"

text \<open>The end of the loop of \<open>run_session\<close>: leaving raw mode writes the reset of the modes and the title
  is popped, then the result is returned.\<close>

definition cli_break :: "cli_error option \<Rightarrow> ('f, 'v) cli \<Rightarrow> ('f, 'v) cli" where
  "cli_break r x =
     (let o1 = (if cs_raw x then snd (put_bytes (esc ''[?2004l'' @ esc ''[?25h'' @ [13, 10]) (cs_out x)) else cs_out x) in
      x\<lparr>cs_out := snd (pop_title o1), cs_raw := False, cs_phase := Exited r\<rparr>)"

text \<open>An error returned with \<open>?\<close> from inside the loop leaves raw mode, but not through its end.\<close>

definition cli_return :: "cli_error \<Rightarrow> ('f, 'v) cli \<Rightarrow> ('f, 'v) cli" where
  "cli_return e x =
     x\<lparr>cs_out := (if cs_raw x then snd (put_bytes (esc ''[?2004l'' @ esc ''[?25h'' @ [13, 10]) (cs_out x)) else cs_out x),
       cs_raw := False, cs_phase := Exited (Some e)\<rparr>"

text \<open>What \<open>run_session\<close> does when \<open>session_loop\<close> has returned.\<close>

definition is_fatal :: "cli_error \<Rightarrow> bool" where
  "is_fatal e = (case e of Fatal_Server _ \<Rightarrow> True | Fatal_Client _ \<Rightarrow> True | _ \<Rightarrow> False)"

definition reconnect :: "('f, 'v) cli \<Rightarrow> ('f, 'v) cli" where
  "reconnect x = x\<lparr>cs_client := client_reset (cs_client x), cs_painter := force_repaint (cs_painter x),
     cs_phase := Connecting False\<rparr>"

definition session_ended :: "cli_error + link_end \<Rightarrow> ('f, 'v) cli \<Rightarrow> ('f, 'v) cli" where
  "session_ended r x = (case r of
       Inr Ended \<Rightarrow> cli_break None x
     | Inr Lost \<Rightarrow> reconnect (x\<lparr>cs_failures := 0\<rparr>)
     | Inr HandshakeFailed \<Rightarrow>
         (let n = cs_failures x + 1; x = x\<lparr>cs_failures := n\<rparr> in
          if n \<ge> MAX_HANDSHAKE_FAILURES
          then cli_break (Some (handshake_failed (lit ''gave up after '' @ dec_digits n @
                 lit '' transport failures during attach''))) x
          else reconnect x)
     | Inl e \<Rightarrow> if is_fatal e then cli_break (Some e) x else reconnect x)"

text \<open>The head of \<open>session_loop\<close>, up to the \<open>select!\<close>.\<close>

definition session_head ::
  "('f, 'v, 'z) client_lib_scheme \<Rightarrow> u64 \<Rightarrow> u16 \<Rightarrow> ('f, 'v) cli \<Rightarrow> (cli_error + link_end) option \<times> ('f, 'v) cli" where
  "session_head F now prev x0 =
     (let (c, t) = client_tick F now (cs_client x0); x = x0\<lparr>cs_client := c\<rparr> in
      if t = LinkDead then (Some (transport_error c), x)
      else case paint F c (cs_painter x) (cs_out x) of
          (Inl e, p, o1) \<Rightarrow> (Some (Inl e), x\<lparr>cs_painter := p, cs_out := o1\<rparr>)
        | (Inr _, p, o1) \<Rightarrow>
            (let (m, o2) = (if client_mode F c \<noteq> prev then apply_modes (client_mode F c) prev o1 else (prev, o1));
                 x = x\<lparr>cs_painter := p, cs_out := o2, cs_phase := Attached m\<rparr> in
             if cl_hungup c then (Some (Inr Ended), x) else (None, x)))"

text \<open>The tick and the paint of \<open>run_session\<close> while it connects.\<close>

definition tick_and_paint :: "('f, 'v, 'z) client_lib_scheme \<Rightarrow> u64 \<Rightarrow> ('f, 'v) cli \<Rightarrow> ('f, 'v) cli" where
  "tick_and_paint F now x =
     (let c = fst (client_tick F now (cs_client x)) in
      case paint F c (cs_painter x) (cs_out x) of
        (Inl e, p, o1) \<Rightarrow> cli_return e (x\<lparr>cs_client := c, cs_painter := p, cs_out := o1\<rparr>)
      | (Inr _, p, o1) \<Rightarrow> x\<lparr>cs_client := c, cs_painter := p, cs_out := o1\<rparr>)"

text \<open>The events of the machine. While connecting: the connection is there (entering raw mode and opening the
  control stream may fail), it failed, a message, a chunk of keys or a timer. Attached: the head of
  the loop at \<open>now\<close> and then what the \<open>select!\<close> found.\<close>

datatype cli_event =
    Connected bool bool u64
  | Connect_Error u64
  | Run_Ctrl "ctrl_event option" "u16 \<times> u16"
  | Run_Keys "bytes option" u64
  | Run_Timer u64
  | Iterate u64 link_event

fun connecting_step :: "('f, 'v, 'z) client_lib_scheme \<Rightarrow> cli_event \<Rightarrow> ('f, 'v) cli \<Rightarrow> ('f, 'v) cli" where
  "connecting_step F (Connected raw_ok open_ok now) x =
     (if \<not> cs_raw x \<and> \<not> raw_ok then cli_return (Other_Error (lit ''tcsetattr'')) x
      else (let x = x\<lparr>cs_raw := True\<rparr> in
        if \<not> open_ok then session_ended (Inl (Other_Error (lit ''open control''))) x
        else x\<lparr>cs_client := begin_connection now (cs_client x), cs_painter := force_repaint (cs_painter x),
               cs_phase := Attached 0\<rparr>))"
| "connecting_step F (Connect_Error now) x =
     (let x = (if cs_raw x then tick_and_paint F now x else x) in
      case cs_phase x of Exited r \<Rightarrow> x | _ \<Rightarrow> x\<lparr>cs_phase := Connecting True\<rparr>)"
| "connecting_step F (Run_Ctrl ev sz) x = (case ev of
       None \<Rightarrow> cli_break (Some (Other_Error (lit ''input task exited''))) x
     | Some (Failed m) \<Rightarrow> cli_break (Some (Other_Error (lit ''input: '' @ m))) x
     | Some Interrupt \<Rightarrow> x\<lparr>cs_client := request_hangup (cs_client x)\<rparr>
     | Some Hangup \<Rightarrow> x\<lparr>cs_client := request_hangup (cs_client x)\<rparr>
     | Some Overflow \<Rightarrow> cli_break (Some input_overflowed) x
     | Some Eof \<Rightarrow> if cs_raw x then x\<lparr>cs_client := request_hangup (cs_client x)\<rparr> else x
     | Some Winch \<Rightarrow> x\<lparr>cs_client := set_size (fst sz) (snd sz) (cs_client x)\<rparr>)"
| "connecting_step F (Run_Keys b now) x =
     (if can_accept_input (cs_client x)
      then (case b of None \<Rightarrow> x | Some bs \<Rightarrow> x\<lparr>cs_client := queue_input F bs now (cs_client x)\<rparr>) else x)"
| "connecting_step F (Run_Timer now) x = tick_and_paint F now x"
| "connecting_step F (Iterate now ev) x = x"

definition attached_step ::
  "('f, 'v, 'z) client_lib_scheme \<Rightarrow> u16 \<Rightarrow> cli_event \<Rightarrow> ('f, 'v) cli \<Rightarrow> ('f, 'v) cli" where
  "attached_step F prev ev x = (case ev of
       Iterate now lev \<Rightarrow> (case session_head F now prev x of
           (Some r, x1) \<Rightarrow> session_ended r x1
         | (None, x1) \<Rightarrow>
             if link_enabled lev (cs_client x1) then
               (case link_arm F lev (cs_client x1) of
                  (Some r, c) \<Rightarrow> session_ended r (x1\<lparr>cs_client := c\<rparr>)
                | (None, c) \<Rightarrow> x1\<lparr>cs_client := c\<rparr>)
             else x1)
     | _ \<Rightarrow> x)"

text \<open>The loop of \<open>run_session\<close> asks first whether the session is over.\<close>

definition cli_step :: "('f, 'v, 'z) client_lib_scheme \<Rightarrow> cli_event \<Rightarrow> ('f, 'v) cli \<Rightarrow> ('f, 'v) cli" where
  "cli_step F ev x = (case cs_phase x of
       Exited r \<Rightarrow> x
     | Connecting d \<Rightarrow> if cl_hungup (cs_client x) then cli_break None x else connecting_step F ev x
     | Attached prev \<Rightarrow> attached_step F prev ev x)"

text \<open>The exit status.\<close>

definition exit_status :: "('f, 'v) cli \<Rightarrow> u32 option" where
  "exit_status x = (case cs_phase x of Exited None \<Rightarrow> Some (cl_exit_code (cs_client x)) | Exited (Some e) \<Rightarrow> Some 1 | _ \<Rightarrow> None)"

end
