(* ===== verification/Cli_Props.thy ===== *)
theory Cli_Props
  imports Cli_Loop
begin

text \<open>
  What the command line client guarantees (\<open>crates/quosh-cli/src/main.rs\<close>), over every run of the
  machine of \<open>Cli_Loop\<close>: it stops attaching after five failed handshakes, counted from the events; a lost
  connection is replaced, with the unacknowledged input kept and everything painted anew; and the
  terminal shows what the painter remembers. Its \<open>Client\<close> changes only through the calls the client's
  own theorems are about.
\<close>

section \<open>Runs\<close>

definition cli_run :: "('f, 'v, 'z) client_lib_scheme \<Rightarrow> cli_event list \<Rightarrow> ('f, 'v) cli \<Rightarrow> ('f, 'v) cli" where
  "cli_run F evs x = fold (cli_step F) evs x"

text \<open>An invariant of every step is one of every run.\<close>

lemma cli_run_invariant:
  assumes "\<And>ev x. P x \<Longrightarrow> P (cli_step F ev x)" "P x"
  shows "P (cli_run F evs x)"
  using assms(2) unfolding cli_run_def by (induction evs arbitrary: x) (simp_all add: assms(1))

section \<open>The calls on the client\<close>

definition client_calls :: "('f, 'v, 'z) client_lib_scheme \<Rightarrow> ('f, 'v) client \<Rightarrow> ('f, 'v) client \<Rightarrow> bool" where
  "client_calls F c c' \<longleftrightarrow> (\<exists>evs. c' = fold (client_step F) evs c)"

lemma calls_refl [simp]: "client_calls F c c"
  unfolding client_calls_def by (rule exI [of _ "[]"]) simp

lemma calls_trans: "client_calls F c c1 \<Longrightarrow> client_calls F c1 c2 \<Longrightarrow> client_calls F c c2"
proof -
  assume "client_calls F c c1" "client_calls F c1 c2"
  then obtain es fs where "c1 = fold (client_step F) es c" "c2 = fold (client_step F) fs c1"
    by (auto simp: client_calls_def)
  then show "client_calls F c c2" unfolding client_calls_def by (intro exI [of _ "es @ fs"]) simp
qed

lemma calls_step: "client_calls F c (client_step F ev c)"
  unfolding client_calls_def by (rule exI [of _ "[ev]"]) simp

lemma calls_simps [simp]:
  "client_calls F c (begin_connection now c)" "client_calls F c (client_reset c)"
  "client_calls F c (fst (recv_control F bs now c))" "client_calls F c (recv_datagram F bs now c)"
  "client_calls F c (queue_input F bs now c)" "client_calls F c (set_size cols rows c)"
  "client_calls F c (request_hangup c)" "client_calls F c (fst (client_tick F now c))"
  "client_calls F c (client_pump c)" "client_calls F c (client_advance_outbound n c)"
  using calls_step [of F c "Begin now"] calls_step [of F c Forget] calls_step [of F c "Receive bs now"]
    calls_step [of F c "Datagram bs now"] calls_step [of F c "Queue_Input bs now"] calls_step [of F c "Set_Size cols rows"]
    calls_step [of F c Hang_Up] calls_step [of F c "Tick now"] calls_step [of F c Pump_Out] calls_step [of F c "Sent_Out n"]
  by simp_all

lemma cli_flush_calls: "client_calls F c (cli_flush ws c)"
proof (induction ws c rule: cli_flush.induct)
  case (2 n ws c)
  have "client_calls F c (cli_flush ws (client_advance_outbound n (client_pump c)))"
    if "client_writing (client_pump c)" "n \<noteq> 0"
    by (rule calls_trans [OF _ 2]) (use that in \<open>auto intro: calls_trans [OF calls_simps(9) calls_simps(10)]\<close>)
  then show ?case by (simp add: Let_def)
qed simp

lemma recv_control_calls: "recv_control F bs now c = (c', e) \<Longrightarrow> client_calls F c c'"
  by (metis calls_simps(3) fst_conv)

lemma link_arm_calls: "client_calls F c (snd (link_arm F ev c))"
  by (induction F ev c rule: link_arm.induct)
    (auto intro: calls_trans [OF calls_simps(7) cli_flush_calls] recv_control_calls split: prod.split option.split)

lemma paint_client: "client_calls F c (cs_client (cli_break r x)) = client_calls F c (cs_client x)"
  "client_calls F c (cs_client (cli_return e x)) = client_calls F c (cs_client x)"
  by (simp_all add: cli_break_def cli_return_def Let_def)

lemma session_ended_calls: "client_calls F c (cs_client x) \<Longrightarrow> client_calls F c (cs_client (session_ended r x))"
  by (auto simp: session_ended_def reconnect_def paint_client Let_def intro: calls_trans
      split: sum.split link_end.split)

lemma session_head_client: "cs_client (snd (session_head F now prev x)) = fst (client_tick F now (cs_client x))"
  by (simp add: session_head_def Let_def split_def split: sum.split prod.split)

lemma tick_and_paint_client: "cs_client (tick_and_paint F now x) = fst (client_tick F now (cs_client x))"
  by (simp add: tick_and_paint_def cli_return_def Let_def split: sum.split prod.split)

lemma attached_calls: "client_calls F (cs_client x) (cs_client (attached_step F prev ev x))"
proof (cases ev)
  case (Iterate now lev)
  obtain r x1 where h: "session_head F now prev x = (r, x1)" by fastforce
  have c1: "client_calls F (cs_client x) (cs_client x1)" using session_head_client [of F now prev x] by (simp add: h)
  obtain r2 c2 where a: "link_arm F lev (cs_client x1) = (r2, c2)" by fastforce
  have c2: "client_calls F (cs_client x) c2" using calls_trans [OF c1 link_arm_calls [of F "cs_client x1" lev]] by (simp add: a)
  then show ?thesis using session_ended_calls c1
    by (auto simp: attached_step_def Iterate h a split: option.split)
qed (simp_all add: attached_step_def)

lemma connecting_calls: "client_calls F (cs_client x) (cs_client (connecting_step F ev x))"
  by (cases ev) (auto simp: paint_client session_ended_calls tick_and_paint_client Let_def
      split: option.split ctrl_event.split phase.split)

lemma cli_step_calls: "client_calls F (cs_client x) (cs_client (cli_step F ev x))"
  by (simp add: cli_step_def attached_calls connecting_calls paint_client split: phase.split)

lemma cli_run_calls: "client_calls F (cs_client x) (cs_client (cli_run F evs x))"
  by (rule cli_run_invariant [where P = "\<lambda>y. client_calls F (cs_client x) (cs_client y)"])
    (auto intro: calls_trans cli_step_calls)

lemma parts_hello [simp]:
  "cl_hello_ok (client_pump c) = cl_hello_ok c" "cl_hello_ok (tick_predictions F now c) = cl_hello_ok c"
  "cl_hello_ok (maybe_ping F now c) = cl_hello_ok c" "cl_hello_ok (tick_outage now c) = cl_hello_ok c"
  "cl_session_id (client_pump c) = cl_session_id c" "cl_session_id (tick_predictions F now c) = cl_session_id c"
  "cl_session_id (maybe_ping F now c) = cl_session_id c" "cl_session_id (tick_outage now c) = cl_session_id c"
  "cl_token (client_pump c) = cl_token c" "cl_token (tick_predictions F now c) = cl_token c"
  "cl_token (maybe_ping F now c) = cl_token c" "cl_token (tick_outage now c) = cl_token c"
  "cl_hungup (tick_outage now c) = cl_hungup c" "cl_unacked (tick_outage now c) = cl_unacked c"
  by (simp_all add: tick_outage_def maybe_ping_def client_pump_def pump_ack_def pump_input_def
      tick_predictions_def refresh_display_def Let_def split_def split: option.split)

lemma tick_hello [simp]:
  "cl_hello_ok (fst (client_tick F now c)) = cl_hello_ok c" "cl_hungup (fst (client_tick F now c)) = cl_hungup c"
  "cl_unacked (fst (client_tick F now c)) = cl_unacked c" "cl_session_id (fst (client_tick F now c)) = cl_session_id c"
  "cl_token (fst (client_tick F now c)) = cl_token c"
  using client_tick_state [of F now c] by (simp_all add: Let_def split: if_splits)

section \<open>Attaching\<close>

text \<open>The failures of the transport are read off the events, not off what the program makes of them: the
  client's clock says that the link is dead, or the wait returns an error of the stream or of the
  datagrams. A failure counts while the server has not answered the hello; once it has, a failure or
  the end of the stream starts the count again.\<close>

definition transport_fails :: "('f, 'v, 'z) client_lib_scheme \<Rightarrow> cli_event \<Rightarrow> ('f, 'v) cli \<Rightarrow> bool" where
  "transport_fails F ev x \<longleftrightarrow> (case (cs_phase x, ev) of
       (Attached prev, Iterate now lev) \<Rightarrow> snd (client_tick F now (cs_client x)) = LinkDead \<or>
         (case session_head F now prev x of (r, x1) \<Rightarrow>
            r = None \<and> link_enabled lev (cs_client x1) \<and> lev \<in> {Recv_Error, Datagram_Error, Send_Error})
     | _ \<Rightarrow> False)"

definition stream_closes :: "('f, 'v, 'z) client_lib_scheme \<Rightarrow> cli_event \<Rightarrow> ('f, 'v) cli \<Rightarrow> bool" where
  "stream_closes F ev x \<longleftrightarrow> (case (cs_phase x, ev) of
       (Attached prev, Iterate now lev) \<Rightarrow> (case session_head F now prev x of (r, x1) \<Rightarrow>
            r = None \<and> link_enabled lev (cs_client x1) \<and> lev \<in> {Recv_End, Sent_Data 0})
     | _ \<Rightarrow> False)"

definition failures_after :: "('f, 'v, 'z) client_lib_scheme \<Rightarrow> cli_event \<Rightarrow> ('f, 'v) cli \<Rightarrow> nat \<Rightarrow> nat" where
  "failures_after F ev x n =
     (if cl_hello_ok (cs_client x) then if transport_fails F ev x \<or> stream_closes F ev x then 0 else n
      else if transport_fails F ev x then Suc n else n)"

fun attach_failures :: "('f, 'v, 'z) client_lib_scheme \<Rightarrow> cli_event list \<Rightarrow> ('f, 'v) cli \<Rightarrow> nat \<Rightarrow> nat" where
  "attach_failures F [] x n = n"
| "attach_failures F (ev # evs) x n = attach_failures F evs (cli_step F ev x) (failures_after F ev x n)"

definition gave_up_error :: cli_error where
  "gave_up_error = handshake_failed (lit ''gave up after '' @ dec_digits MAX_HANDSHAKE_FAILURES @
     lit '' transport failures during attach'')"

lemma gave_up_error_neq [simp]:
  "gave_up_error \<noteq> Io_Error b" "gave_up_error \<noteq> Fatal_Client ce" "gave_up_error \<noteq> Other_Error m"
  "gave_up_error \<noteq> handshake_closed" "gave_up_error \<noteq> input_overflowed"
  by (simp_all add: gave_up_error_def handshake_closed_def input_overflowed_def handshake_failed_def fatal_def lit_def of_char_def)

lemmas gave_up_error_sym [simp] = gave_up_error_neq [symmetric]

definition attach_ok :: "nat \<Rightarrow> ('f, 'v) cli \<Rightarrow> bool" where
  "attach_ok n x \<longleftrightarrow> cs_failures x = n \<and> n \<le> MAX_HANDSHAKE_FAILURES \<and>
     (n = MAX_HANDSHAKE_FAILURES \<longleftrightarrow> cs_phase x = Exited (Some gave_up_error))"

lemma put_bytes_error: "put_bytes bs o1 = (Inl e, o2) \<Longrightarrow> e \<noteq> gave_up_error"
  by (auto simp: put_bytes_def split: list.splits write_result.splits)

lemma paint_title_error: "paint_title outage p o1 = (Inl e, p', o2) \<Longrightarrow> e \<noteq> gave_up_error"
  by (auto simp: paint_title_def emit_title_def Let_def split: if_splits sum.splits prod.splits dest: put_bytes_error)

lemma paint_frame_error: "paint_frame F frame b o1 = (Inl e, o2) \<Longrightarrow> e \<noteq> gave_up_error"
  by (auto simp: paint_frame_def Let_def dest: put_bytes_error split: list.splits write_result.splits)

lemma paint_error:
  assumes "paint F c p o1 = (Inl e, p', o2)"
  shows "e \<noteq> gave_up_error"
proof -
  obtain r p1 o3 where t: "paint_title (cl_outage c) p o1 = (r, p1, o3)" by (metis prod_cases3)
  show ?thesis
  proof (cases r)
    case (Inl e1)
    with assms t show ?thesis by (auto simp: paint_def dest: paint_title_error)
  next
    case (Inr u)
    then obtain frame where d: "cl_display c = Some frame"
      using assms t by (cases "cl_display c") (auto simp: paint_def)
    obtain r2 o4 where f: "cl_display c = Some frame" "paint_frame F frame (cl_outage c = None) o3 = (r2, o4)"
      using d by fastforce
    with assms t Inr show ?thesis
      by (auto simp: paint_def Let_def write_banner_def split: if_splits sum.splits option.splits prod.splits
          dest: paint_frame_error put_bytes_error)
  qed
qed

lemma breaks_attach [simp]:
  "cs_failures (cli_break r x) = cs_failures x" "cs_phase (cli_break r x) = Exited r"
  "cs_failures (cli_return e x) = cs_failures x" "cs_phase (cli_return e x) = Exited (Some e)"
  "cs_failures (reconnect x) = cs_failures x" "cs_phase (reconnect x) = Connecting False"
  by (simp_all add: cli_break_def cli_return_def reconnect_def Let_def)

lemma tick_and_paint_attach:
  "cs_failures (tick_and_paint F now x) = cs_failures x"
  "cs_phase (tick_and_paint F now x) = cs_phase x \<or> (\<exists>e. e \<noteq> gave_up_error \<and> cs_phase (tick_and_paint F now x) = Exited (Some e))"
  by (auto simp: tick_and_paint_def Let_def dest: paint_error split: sum.split prod.split)

lemma session_ended_attach:
  assumes "cs_failures x = n" "n < MAX_HANDSHAKE_FAILURES" "r \<noteq> Inl gave_up_error"
  shows "attach_ok (case r of Inr Lost \<Rightarrow> 0 | Inr HandshakeFailed \<Rightarrow> Suc n | _ \<Rightarrow> n) (session_ended r x)"
proof (cases r)
  case (Inr e)
  show ?thesis
  proof (cases e)
    case HandshakeFailed
    show ?thesis
    proof (cases "Suc n = MAX_HANDSHAKE_FAILURES")
      case True
      with HandshakeFailed Inr assms(1) show ?thesis
        by (simp add: session_ended_def attach_ok_def gave_up_error_def Let_def flip: True)
    next
      case False
      with HandshakeFailed Inr assms show ?thesis by (simp add: session_ended_def attach_ok_def Let_def)
    qed
  qed (use Inr assms in \<open>simp_all add: session_ended_def attach_ok_def MAX_HANDSHAKE_FAILURES_def\<close>)
qed (use assms in \<open>auto simp: session_ended_def attach_ok_def\<close>)

lemma session_head_attach:
  assumes "session_head F now prev x = (r, x1)"
  shows "cs_failures x1 = cs_failures x" "cl_hello_ok (cs_client x1) = cl_hello_ok (cs_client x)" "r \<noteq> Some (Inl gave_up_error)"
    "r = Some (Inr Lost) \<longleftrightarrow> snd (client_tick F now (cs_client x)) = LinkDead \<and> cl_hello_ok (cs_client x)"
    "r = Some (Inr HandshakeFailed) \<longleftrightarrow> snd (client_tick F now (cs_client x)) = LinkDead \<and> \<not> cl_hello_ok (cs_client x)"
    "r = None \<Longrightarrow> \<exists>m. cs_phase x1 = Attached m"
    "r = None \<Longrightarrow> snd (client_tick F now (cs_client x)) \<noteq> LinkDead"
proof -
  have h: "cl_hello_ok (fst (client_tick F now (cs_client x))) = cl_hello_ok (cs_client x)" by simp
  obtain c t where c: "client_tick F now (cs_client x) = (c, t)" by fastforce
  obtain q p o1 where p: "paint F c (cs_painter x) (cs_out x) = (q, p, o1)" by (metis prod_cases3)
  note e = paint_error [of F c "cs_painter x" "cs_out x"]
  show "cs_failures x1 = cs_failures x" "cl_hello_ok (cs_client x1) = cl_hello_ok (cs_client x)" "r \<noteq> Some (Inl gave_up_error)"
    "r = Some (Inr Lost) \<longleftrightarrow> snd (client_tick F now (cs_client x)) = LinkDead \<and> cl_hello_ok (cs_client x)"
    "r = Some (Inr HandshakeFailed) \<longleftrightarrow> snd (client_tick F now (cs_client x)) = LinkDead \<and> \<not> cl_hello_ok (cs_client x)"
    "r = None \<Longrightarrow> \<exists>m. cs_phase x1 = Attached m"
    "r = None \<Longrightarrow> snd (client_tick F now (cs_client x)) \<noteq> LinkDead"
    using assms h e p c unfolding session_head_def transport_error_def
    by (cases q; auto simp: Let_def split: if_splits prod.splits)+
qed

lemma link_arm_attach:
  assumes "link_arm F lev c = (r, c')"
  shows "r \<noteq> Some (Inl gave_up_error)"
    "r = Some (Inr Lost) \<longleftrightarrow> cl_hello_ok c \<and> lev \<in> {Recv_Error, Datagram_Error, Send_Error, Recv_End, Sent_Data 0}"
    "r = Some (Inr HandshakeFailed) \<longleftrightarrow> \<not> cl_hello_ok c \<and> lev \<in> {Recv_Error, Datagram_Error, Send_Error}"
  using assms
  by (induction F lev c rule: link_arm.induct)
    (auto simp: stream_end_def transport_error_def client_fatal_def split: if_splits prod.splits option.splits)

lemma attached_attach:
  assumes "cs_failures x = n" "n < MAX_HANDSHAKE_FAILURES" "cs_phase x = Attached prev"
  shows "attach_ok (failures_after F ev x n) (attached_step F prev ev x)"
proof (cases ev)
  case (Iterate now lev)
  obtain r x1 where h: "session_head F now prev x = (r, x1)" by fastforce
  note head = session_head_attach [OF h]
  show ?thesis
  proof (cases r)
    case (Some e)
    have "attach_ok (case e of Inr Lost \<Rightarrow> 0 | Inr HandshakeFailed \<Rightarrow> Suc n | _ \<Rightarrow> n) (session_ended e x1)"
      by (rule session_ended_attach) (use head(1,3) Some assms in auto)
    moreover have "failures_after F ev x n = (case e of Inr Lost \<Rightarrow> 0 | Inr HandshakeFailed \<Rightarrow> Suc n | _ \<Rightarrow> n)"
      using head(4,5) Some
      by (auto simp: failures_after_def transport_fails_def stream_closes_def Iterate h assms(3) split: sum.split link_end.split)
    ultimately show ?thesis by (simp add: attached_step_def Iterate h Some)
  next
    case None
    obtain m where m: "cs_phase x1 = Attached m" using head(6) [OF None] by blast
    have stay: "attach_ok n (x1\<lparr>cs_client := c\<rparr>)" for c
      using head(1) m assms by (simp add: attach_ok_def)
    show ?thesis
    proof (cases "link_enabled lev (cs_client x1)")
      case True
      obtain r2 c2 where a: "link_arm F lev (cs_client x1) = (r2, c2)" by fastforce
      note arm = link_arm_attach [OF a]
      have n: "failures_after F ev x n = (case r2 of Some (Inr Lost) \<Rightarrow> 0 | Some (Inr HandshakeFailed) \<Rightarrow> Suc n | _ \<Rightarrow> n)"
        using arm(2,3) head(2) head(7) [OF None] True
        by (auto simp: failures_after_def transport_fails_def stream_closes_def Iterate h None assms(3)
            split: option.split sum.split link_end.split)
      show ?thesis
      proof (cases r2)
        case (Some e)
        have "attach_ok (case e of Inr Lost \<Rightarrow> 0 | Inr HandshakeFailed \<Rightarrow> Suc n | _ \<Rightarrow> n) (session_ended e (x1\<lparr>cs_client := c2\<rparr>))"
          by (rule session_ended_attach) (use head(1) arm(1) Some assms in auto)
        with n show ?thesis by (simp add: attached_step_def Iterate h None True a Some)
      qed (use n stay in \<open>simp add: attached_step_def Iterate h None True a\<close>)
    next
      case False
      with head(7) [OF None] have "failures_after F ev x n = n"
        by (simp add: failures_after_def transport_fails_def stream_closes_def Iterate h assms(3))
      with False stay [of "cs_client x1"] show ?thesis by (simp add: attached_step_def Iterate h None)
    qed
  qed
qed (use assms in \<open>simp_all add: attached_step_def attach_ok_def failures_after_def transport_fails_def stream_closes_def\<close>)

lemma connecting_attach:
  assumes "cs_failures x = n" "n < MAX_HANDSHAKE_FAILURES" "cs_phase x = Connecting d"
  shows "attach_ok n (connecting_step F ev x)"
proof (cases ev)
  case (Connect_Error now)
  from tick_and_paint_attach [of F now x] assms show ?thesis
    by (auto simp: Connect_Error attach_ok_def Let_def split: phase.split)
next
  case (Run_Timer now)
  from tick_and_paint_attach [of F now x] assms show ?thesis by (auto simp: Run_Timer attach_ok_def)
qed (use assms in \<open>auto simp: attach_ok_def session_ended_def is_fatal_def Let_def
    split: option.split ctrl_event.split\<close>)

lemma cli_step_attach:
  assumes "attach_ok n x"
  shows "attach_ok (failures_after F ev x n) (cli_step F ev x)"
proof (cases "cs_phase x")
  case (Exited r)
  with assms show ?thesis by (simp add: cli_step_def failures_after_def transport_fails_def stream_closes_def)
next
  case (Attached prev)
  with assms attached_attach [of x n prev F ev] show ?thesis by (auto simp: cli_step_def attach_ok_def le_less)
next
  case (Connecting d)
  then have n: "failures_after F ev x n = n" by (simp add: failures_after_def transport_fails_def stream_closes_def)
  have lt: "cs_failures x = n" "n < MAX_HANDSHAKE_FAILURES" using assms Connecting by (auto simp: attach_ok_def le_less)
  with connecting_attach [OF lt Connecting, of F ev] Connecting show ?thesis
    by (auto simp: n cli_step_def) (simp add: attach_ok_def)
qed

lemma cli_run_attach: "attach_ok n x \<Longrightarrow> attach_ok (attach_failures F evs x n) (cli_run F evs x)"
  unfolding cli_run_def by (induction evs arbitrary: x n) (simp_all add: cli_step_attach)

lemma push_title_error: "push_title o1 = (Inl e, o2) \<Longrightarrow> e \<noteq> gave_up_error"
  by (auto simp: push_title_def split: if_splits dest: put_bytes_error)

lemma cli_start_attach: "attach_ok 0 (cli_start F sid token cols rows never title tty o0)"
  by (auto simp: cli_start_def attach_ok_def MAX_HANDSHAKE_FAILURES_def Let_def dest: push_title_error paint_title_error
      split: sum.split prod.split option.split)

section \<open>Painting\<close>

text \<open>What a full paint writes, and what may follow it without changing what is drawn: the window title
  with or without its mark of an outage, and the switching of bracketed paste, whose failure is ignored.\<close>

definition drawn :: "('f, 'z) frame_lib_scheme \<Rightarrow> 'f \<Rightarrow> rstr option \<Rightarrow> bytes" where
  "drawn F frame banner = frame_bytes F frame (banner = None) @
     (case banner of None \<Rightarrow> [] | Some line \<Rightarrow> banner_bytes (fs_rows F frame) line)"

definition quiet_piece :: "rstr \<Rightarrow> bytes \<Rightarrow> bool" where
  "quiet_piece title bs \<longleftrightarrow> (\<exists>outage. bs = esc '']2;'' @ title_for title outage @ [7]) \<or>
     (\<exists>n. bs = take n (esc ''[?2004h'') \<or> bs = take n (esc ''[?2004l''))"

definition quiet_out :: "rstr \<Rightarrow> bytes \<Rightarrow> bool" where
  "quiet_out title bs \<longleftrightarrow> (\<exists>ps. list_all (quiet_piece title) ps \<and> bs = concat ps)"

text \<open>What was written last, apart from quiet bytes, is the paint of \<open>frame\<close> and \<open>banner\<close>; and it was written
  after \<open>base\<close>, which is what standard output had got at some earlier moment.\<close>

definition on_screen :: "rstr \<Rightarrow> bytes \<Rightarrow> ('f, 'z) frame_lib_scheme \<Rightarrow> 'f \<Rightarrow> rstr option \<Rightarrow> term_out \<Rightarrow> bool" where
  "on_screen title base F frame banner o1 \<longleftrightarrow>
     (\<exists>pre suf. to_written o1 = base @ pre @ drawn F frame banner @ suf \<and> quiet_out title suf)"

definition painter_ok :: "rstr \<Rightarrow> bytes \<Rightarrow> ('f, 'z) frame_lib_scheme \<Rightarrow> 'f painter \<Rightarrow> term_out \<Rightarrow> bool" where
  "painter_ok title base F p o1 \<longleftrightarrow>
     (case pt_shown_frame p of None \<Rightarrow> True | Some frame \<Rightarrow> on_screen title base F frame (pt_shown_banner p) o1)"

definition no_zero :: "term_out \<Rightarrow> bool" where
  "no_zero o1 \<longleftrightarrow> list_all (\<lambda>r. case r of Write_Zero n \<Rightarrow> False | _ \<Rightarrow> True) (to_results o1)"

definition out_ok :: "bytes \<Rightarrow> term_out \<Rightarrow> bool" where
  "out_ok base o1 \<longleftrightarrow> no_zero o1 \<and> prefix base (to_written o1)"

lemma quiet_out_Nil [simp]: "quiet_out title []"
  unfolding quiet_out_def by (rule exI [of _ "[]"]) simp

lemma quiet_out_snoc: "quiet_out title bs \<Longrightarrow> quiet_piece title b \<Longrightarrow> quiet_out title (bs @ b)"
proof -
  assume "quiet_out title bs" "quiet_piece title b"
  then obtain ps where "list_all (quiet_piece title) ps" "bs = concat ps" by (auto simp: quiet_out_def)
  with \<open>quiet_piece title b\<close> show "quiet_out title (bs @ b)" unfolding quiet_out_def by (intro exI [of _ "ps @ [b]"]) simp
qed

lemma on_screen_quiet:
  assumes "on_screen title base F frame banner o1" "to_written o2 = to_written o1 @ b" "quiet_piece title b"
  shows "on_screen title base F frame banner o2"
proof -
  obtain pre suf where "to_written o1 = base @ pre @ drawn F frame banner @ suf" "quiet_out title suf"
    using assms(1) by (auto simp: on_screen_def)
  with assms(2,3) show ?thesis unfolding on_screen_def
    by (intro exI [of _ pre] exI [of _ "suf @ b"]) (simp add: quiet_out_snoc)
qed

lemma painter_ok_quiet:
  "painter_ok title base F p o1 \<Longrightarrow> to_written o2 = to_written o1 @ b \<Longrightarrow> quiet_piece title b \<Longrightarrow>
   pt_shown_frame p' = pt_shown_frame p \<Longrightarrow> pt_shown_banner p' = pt_shown_banner p \<Longrightarrow> painter_ok title base F p' o2"
  by (auto simp: painter_ok_def intro: on_screen_quiet split: option.splits)

lemma put_bytes_ok: "put_bytes bs o1 = (Inr u, o2) \<Longrightarrow> to_written o2 = to_written o1 @ bs"
  by (auto simp: put_bytes_def split: list.splits write_result.splits)

lemma put_bytes_writes: "\<exists>n. to_written (snd (put_bytes bs o1)) = to_written o1 @ take n bs"
proof -
  have "\<exists>n. bs = take n bs" by (rule exI [of _ "length bs"]) simp
  then show ?thesis by (auto simp: put_bytes_def split: list.split write_result.split)
qed

lemma put_bytes_results: "out_ok base o1 \<Longrightarrow> out_ok base (snd (put_bytes bs o1))"
  by (auto simp: put_bytes_def out_ok_def no_zero_def split: list.split write_result.split)

lemma paint_title_ok:
  assumes "painter_ok title base F p o1" "paint_title outage p o1 = (Inr u, p', o2)" "pt_title p = title"
  shows "painter_ok title base F p' o2"
proof (cases "p' = p \<and> o2 = o1")
  case False
  obtain u2 o3 where e: "emit_title (title_for (pt_title p) outage) o1 = (u2, o3)" by fastforce
  show ?thesis
  proof (cases "to_terminal o1")
    case True
    with assms(2) False e have "put_bytes (esc '']2;'' @ title_for (pt_title p) outage @ [7]) o1 = (Inr (), o2)"
      "p' = p\<lparr>pt_shown_title := Some (title_for (pt_title p) outage)\<rparr>"
      by (auto simp: paint_title_def Let_def emit_title_def split: if_splits sum.splits)
    then show ?thesis
      by (intro painter_ok_quiet [OF assms(1) put_bytes_ok]) (auto simp: quiet_piece_def assms(3))
  next
    case nt: False
    with assms(2) show ?thesis
      using assms(1) by (auto simp: paint_title_def Let_def emit_title_def painter_ok_def split: if_splits option.splits)
  qed
qed (use assms in simp)

lemma paint_title_results: "out_ok base o1 \<Longrightarrow> out_ok base (snd (snd (paint_title outage p o1)))"
proof -
  assume z: "out_ok base o1"
  obtain r o2 where e: "emit_title (title_for (pt_title p) outage) o1 = (r, o2)" by fastforce
  have "out_ok base (snd (emit_title t o1))" for t using z by (simp add: emit_title_def put_bytes_results)
  from this [of "title_for (pt_title p) outage"] z show ?thesis
    by (cases r) (simp_all add: paint_title_def Let_def e)
qed

lemma paint_frame_results: "out_ok base o1 \<Longrightarrow> out_ok base (snd (paint_frame F frame b o1))"
  using put_bytes_results [of base o1] by (auto simp: paint_frame_def Let_def out_ok_def no_zero_def split: list.split write_result.split)

lemma paint_frame_ok:
  "out_ok base o1 \<Longrightarrow> paint_frame F frame b o1 = (Inr u, o2) \<Longrightarrow> to_written o2 = to_written o1 @ frame_bytes F frame b"
  by (auto simp: paint_frame_def Let_def out_ok_def no_zero_def dest: put_bytes_ok split: list.splits write_result.splits)

lemma paint_results: "out_ok base o1 \<Longrightarrow> out_ok base (snd (snd (paint F c p o1)))"
proof -
  assume z: "out_ok base o1"
  obtain r p1 o2 where t: "paint_title (cl_outage c) p o1 = (r, p1, o2)" by (metis prod_cases3)
  have z2: "out_ok base o2" using paint_title_results [OF z, of "cl_outage c" p] by (simp add: t)
  show ?thesis
  proof (cases r)
    case (Inr u)
    show ?thesis
    proof (cases "cl_display c")
      case (Some f)
      obtain r3 o3 where f: "paint_frame F f (cl_outage c = None) o2 = (r3, o3)" by fastforce
      have z3: "out_ok base o3" using paint_frame_results [OF z2, of F f "cl_outage c = None"] by (simp add: f)
      obtain r4 o4 where w: "write_banner (fs_rows F f) (banner_line (the (cl_outage c))) o3 = (r4, o4)" by fastforce
      have z4: "out_ok base o4" using put_bytes_results [OF z3] w by (metis snd_conv write_banner_def)
      show ?thesis
      proof (cases "cl_outage c")
        case None
        with t f z2 z3 Some Inr show ?thesis by (cases r3) (simp_all add: paint_def)
      next
        case (Some ms)
        with t f w z2 z3 z4 \<open>cl_display c = Some f\<close> Inr show ?thesis
          by (cases r3; cases r4) (simp_all add: paint_def Let_def)
      qed
    qed (use t z2 Inr in \<open>simp add: paint_def\<close>)
  qed (use t z2 in \<open>simp add: paint_def\<close>)
qed

lemma paint_title_title: "paint_title outage p o1 = (r, p', o2) \<Longrightarrow> pt_title p' = pt_title p"
  by (auto simp: paint_title_def Let_def split: if_splits sum.splits prod.splits)

lemma paint_pt_title: "paint F c p o1 = (r, p', o2) \<Longrightarrow> pt_title p' = pt_title p"
  by (auto simp: paint_def Let_def dest!: paint_title_title split: if_splits sum.splits prod.splits option.splits)

text \<open>After a paint the client's display is on the screen.\<close>

lemma paint_ok:
  assumes "painter_ok title base F p0 o0" "out_ok base o0" "paint F c p0 o0 = (Inr u, p, o1)" "pt_title p0 = title"
  shows "painter_ok title base F p o1" "cl_display c = Some frame \<Longrightarrow> on_screen title base F frame (map_option banner_line (cl_outage c)) o1"
proof -
  let ?banner = "map_option banner_line (cl_outage c)"
  obtain p1 o2 where t: "paint_title (cl_outage c) p0 o0 = (Inr (), p1, o2)"
  proof -
    obtain r p1 o2 where t: "paint_title (cl_outage c) p0 o0 = (r, p1, o2)" by (metis prod_cases3)
    from assms(3) t have "r = Inr ()" by (cases r) (simp_all add: paint_def)
    with t that show thesis by simp
  qed
  have 1: "painter_ok title base F p1 o2" by (rule paint_title_ok [OF assms(1) t assms(4)])
  have z: "out_ok base o2" using paint_title_results [OF assms(2), of "cl_outage c" p0] by (simp add: t)
  have "painter_ok title base F p o1 \<and> (\<forall>frame. cl_display c = Some frame \<longrightarrow> on_screen title base F frame ?banner o1)"
  proof (cases "cl_display c")
    case None
    with assms(3) t 1 show ?thesis by (simp add: paint_def)
  next
    case (Some f)
    show ?thesis
    proof (cases "pt_shown_frame p1 = Some f \<and> pt_shown_banner p1 = ?banner")
      case True
      with assms(3) t 1 Some show ?thesis by (simp add: paint_def painter_ok_def)
    next
      case False
      then obtain o3 where o3: "paint_frame F f (?banner = None) o2 = (Inr (), o3)"
        "(case ?banner of None \<Rightarrow> (Inr (), o3) | Some line \<Rightarrow> write_banner (fs_rows F f) line o3) = (Inr (), o1)"
        and p: "p = p1\<lparr>pt_shown_frame := Some f, pt_shown_banner := ?banner\<rparr>"
        using assms(3) t Some by (auto simp: paint_def Let_def split: sum.splits prod.splits if_splits)
      have "to_written o1 = to_written o2 @ drawn F f ?banner"
        using paint_frame_ok [OF z o3(1)] o3(2)
        by (cases ?banner) (auto simp: drawn_def write_banner_def dest: put_bytes_ok)
      moreover obtain pre where "to_written o2 = base @ pre" using z by (auto simp: out_ok_def prefix_def)
      ultimately have "on_screen title base F f ?banner o1" unfolding on_screen_def
        by (intro exI [of _ pre] exI [of _ "[]"]) simp
      with p Some show ?thesis by (simp add: painter_ok_def)
    qed
  qed
  then show "painter_ok title base F p o1" "cl_display c = Some frame \<Longrightarrow> on_screen title base F frame ?banner o1" by auto
qed

text \<open>The states of a run: standard output has \<open>base\<close> and more, the painter its title, and until the program
  ends what the painter remembers is on the screen.\<close>

definition canvas_ok :: "rstr \<Rightarrow> bytes \<Rightarrow> ('f, 'v) cli \<Rightarrow> bool" where
  "canvas_ok title base x \<longleftrightarrow> out_ok base (cs_out x) \<and> pt_title (cs_painter x) = title"

definition screen_live :: "rstr \<Rightarrow> bytes \<Rightarrow> ('f, 'z) frame_lib_scheme \<Rightarrow> ('f, 'v) cli \<Rightarrow> bool" where
  "screen_live title base F x \<longleftrightarrow> canvas_ok title base x \<and> painter_ok title base F (cs_painter x) (cs_out x)"

definition screen_ok :: "rstr \<Rightarrow> bytes \<Rightarrow> ('f, 'z) frame_lib_scheme \<Rightarrow> ('f, 'v) cli \<Rightarrow> bool" where
  "screen_ok title base F x \<longleftrightarrow> canvas_ok title base x \<and>
     (case cs_phase x of Exited r \<Rightarrow> True | _ \<Rightarrow> painter_ok title base F (cs_painter x) (cs_out x))"

lemma screen_live_ok: "screen_live title base F x \<Longrightarrow> screen_ok title base F x"
  by (simp add: screen_live_def screen_ok_def split: phase.split)

lemma screen_ok_live: "screen_ok title base F x \<Longrightarrow> (\<And>r. cs_phase x \<noteq> Exited r) \<Longrightarrow> screen_live title base F x"
  by (auto simp: screen_live_def screen_ok_def split: phase.splits)

lemma canvas_ok_updates [simp]:
  "canvas_ok title base (x\<lparr>cs_client := c\<rparr>) = canvas_ok title base x"
  "canvas_ok title base (x\<lparr>cs_raw := b\<rparr>) = canvas_ok title base x"
  "canvas_ok title base (x\<lparr>cs_phase := ph\<rparr>) = canvas_ok title base x"
  "canvas_ok title base (x\<lparr>cs_failures := n\<rparr>) = canvas_ok title base x"
  "canvas_ok title base (x\<lparr>cs_painter := force_repaint p\<rparr>) = (out_ok base (cs_out x) \<and> pt_title p = title)"
  by (simp_all add: canvas_ok_def force_repaint_def)

lemma screen_live_updates [simp]:
  "screen_live title base F (x\<lparr>cs_client := c\<rparr>) = screen_live title base F x"
  "screen_live title base F (x\<lparr>cs_raw := b\<rparr>) = screen_live title base F x"
  "screen_live title base F (x\<lparr>cs_phase := ph\<rparr>) = screen_live title base F x"
  "screen_live title base F (x\<lparr>cs_failures := n\<rparr>) = screen_live title base F x"
  by (simp_all add: screen_live_def)

lemma painter_ok_repaint [simp]: "painter_ok title base F (force_repaint p) o1"
  by (simp add: painter_ok_def force_repaint_def)

lemma cli_break_screen: "canvas_ok title base x \<Longrightarrow> screen_ok title base F (cli_break r x)"
  by (simp add: cli_break_def screen_ok_def canvas_ok_def Let_def pop_title_def put_bytes_results)

lemma cli_return_screen: "canvas_ok title base x \<Longrightarrow> screen_ok title base F (cli_return e x)"
  by (simp add: cli_return_def screen_ok_def canvas_ok_def put_bytes_results)

lemma reconnect_screen: "canvas_ok title base x \<Longrightarrow> screen_ok title base F (reconnect x)"
  by (simp add: reconnect_def screen_ok_def canvas_ok_def) (simp add: force_repaint_def)

lemma session_ended_screen: "canvas_ok title base x \<Longrightarrow> screen_ok title base F (session_ended r x)"
  by (auto simp: session_ended_def Let_def intro!: cli_break_screen reconnect_screen split: sum.split link_end.split)

lemma tick_and_paint_screen:
  fixes F :: "('f, 'v, 'z) client_lib_scheme" and x :: "('f, 'v) cli"
  assumes "screen_live title base F x"
  shows "screen_ok title base F (tick_and_paint F now x)" and "(\<And>r. cs_phase (tick_and_paint F now x) \<noteq> Exited r) \<Longrightarrow> screen_live title base F (tick_and_paint F now x)"
proof -
  let ?c = "fst (client_tick F now (cs_client x))"
  obtain r p o1 where p: "paint F ?c (cs_painter x) (cs_out x) = (r, p, o1)" by (metis prod_cases3)
  have z: "out_ok base o1" using paint_results [of base "cs_out x" F ?c "cs_painter x"] assms
    by (simp add: p screen_live_def canvas_ok_def)
  have title: "pt_title p = title" using paint_pt_title [OF p] assms by (simp add: screen_live_def canvas_ok_def)
  have "screen_ok title base F (tick_and_paint F now x)"
  proof (cases r)
    case (Inl e)
    with p z title show ?thesis by (simp add: tick_and_paint_def Let_def cli_return_screen canvas_ok_def)
  next
    case (Inr u)
    have "painter_ok title base F p o1"
      by (rule paint_ok(1) [OF _ _ p [unfolded Inr]]) (use assms in \<open>simp_all add: screen_live_def canvas_ok_def\<close>)
    with p z title Inr show ?thesis by (simp add: tick_and_paint_def Let_def screen_ok_def canvas_ok_def split: phase.split)
  qed
  then show "screen_ok title base F (tick_and_paint F now x)"
    "(\<And>r. cs_phase (tick_and_paint F now x) \<noteq> Exited r) \<Longrightarrow> screen_live title base F (tick_and_paint F now x)"
    by (auto intro: screen_ok_live)
qed

lemma quiet_mode: "quiet_piece title (take n (if b then esc ''[?2004h'' else esc ''[?2004l''))"
  by (auto simp: quiet_piece_def)

lemma apply_modes_writes: "\<exists>b. to_written (snd (apply_modes m prev o1)) = to_written o1 @ b \<and> quiet_piece title b"
proof -
  let ?now = "m AND MODE_BRACKETED_PASTE \<noteq> 0" and ?was = "prev AND MODE_BRACKETED_PASTE \<noteq> 0"
  let ?s = "if ?now then esc ''[?2004h'' else esc ''[?2004l''"
  obtain n where n: "to_written (snd (put_bytes ?s o1)) = to_written o1 @ take n ?s"
    using put_bytes_writes [of ?s o1] by blast
  show ?thesis
  proof (cases "?was = ?now")
    case True
    then have "to_written (snd (apply_modes m prev o1)) = to_written o1 @ take 0 ?s" by (simp add: apply_modes_def Let_def)
    then show ?thesis using quiet_mode by blast
  next
    case False
    then have "snd (apply_modes m prev o1) = snd (put_bytes ?s o1)" by (simp add: apply_modes_def Let_def)
    with n show ?thesis using quiet_mode [of title n ?now] by auto
  qed
qed

lemma session_head_screen:
  fixes F :: "('f, 'v, 'z) client_lib_scheme" and x :: "('f, 'v) cli"
  assumes "screen_live title base F x" "session_head F now prev x = (r, x1)"
  shows "canvas_ok title base x1" "r = None \<Longrightarrow> screen_live title base F x1"
    "r = None \<Longrightarrow> cl_display (cs_client x1) = Some frame \<Longrightarrow>
       on_screen title base F frame (map_option banner_line (cl_outage (cs_client x1))) (cs_out x1)"
proof -
  obtain c t where c: "client_tick F now (cs_client x) = (c, t)" by fastforce
  obtain q p o1 where p: "paint F c (cs_painter x) (cs_out x) = (q, p, o1)" by (metis prod_cases3)
  have z: "out_ok base o1" using paint_results [of base "cs_out x" F c "cs_painter x"] assms
    by (simp add: p screen_live_def canvas_ok_def)
  have title: "pt_title p = title" using paint_pt_title [OF p] assms by (simp add: screen_live_def canvas_ok_def)
  obtain m o2 where m: "(if client_mode F c \<noteq> prev then apply_modes (client_mode F c) prev o1 else (prev, o1)) = (m, o2)"
    by fastforce
  have o2: "\<exists>b. to_written o2 = to_written o1 @ b \<and> quiet_piece title b"
  proof (cases "client_mode F c = prev")
    case True
    have "quiet_piece title []" unfolding quiet_piece_def by (intro disjI2 exI [of _ 0]) simp
    with True m show ?thesis by (intro exI [of _ "[]"]) simp
  next
    case False
    with m apply_modes_writes [of "client_mode F c" prev o1] show ?thesis by simp
  qed
  have z2: "out_ok base o2" using m z by (auto simp: apply_modes_def Let_def put_bytes_results split: if_splits)
  have head: "session_head F now prev x =
      (if t = LinkDead then (Some (transport_error c), x\<lparr>cs_client := c\<rparr>)
       else case q of Inl e \<Rightarrow> (Some (Inl e), x\<lparr>cs_client := c, cs_painter := p, cs_out := o1\<rparr>)
        | Inr _ \<Rightarrow> (if cl_hungup c then Some (Inr Ended) else None,
            x\<lparr>cs_client := c, cs_painter := p, cs_out := o2, cs_phase := Attached m\<rparr>))"
    using m by (simp add: session_head_def c p Let_def split: sum.split)
  show "canvas_ok title base x1"
    using assms z z2 title by (cases q) (auto simp: head screen_live_def canvas_ok_def split: if_splits)
  assume r: "r = None"
  then have q: "q = Inr ()" and x1: "x1 = x\<lparr>cs_client := c, cs_painter := p, cs_out := o2, cs_phase := Attached m\<rparr>"
    using assms(2) by (cases q; auto simp: head split: if_splits)+
  have live: "painter_ok title base F (cs_painter x) (cs_out x)" "out_ok base (cs_out x)" and was: "pt_title (cs_painter x) = title"
    using assms(1) by (simp_all add: screen_live_def canvas_ok_def)
  obtain b where b: "to_written o2 = to_written o1 @ b" "quiet_piece title b" using o2 by blast
  show "screen_live title base F x1"
    using painter_ok_quiet [OF paint_ok(1) [OF live p [unfolded q] was] b refl refl] z2 title
    by (simp add: x1 screen_live_def canvas_ok_def)
  show "on_screen title base F frame (map_option banner_line (cl_outage (cs_client x1))) (cs_out x1)"
    if "cl_display (cs_client x1) = Some frame"
    using on_screen_quiet [OF paint_ok(2) [OF live p [unfolded q] was] b] that by (simp add: x1)
qed

lemma attached_screen:
  fixes F :: "('f, 'v, 'z) client_lib_scheme" and x :: "('f, 'v) cli"
  assumes "screen_live title base F x"
  shows "screen_ok title base F (attached_step F prev ev x)"
proof (cases ev)
  case (Iterate now lev)
  obtain r x1 where h: "session_head F now prev x = (r, x1)" by fastforce
  note head = session_head_screen [OF assms h]
  obtain r2 c2 where a: "link_arm F lev (cs_client x1) = (r2, c2)" by fastforce
  show ?thesis
  proof (cases r)
    case None
    with head have "screen_live title base F x1" "screen_live title base F (x1\<lparr>cs_client := c2\<rparr>)" by simp_all
    with head(1) None session_ended_screen [of title base "x1\<lparr>cs_client := c2\<rparr>" F] show ?thesis
      by (auto simp: attached_step_def Iterate h a intro: screen_live_ok split: option.split)
  qed (use session_ended_screen [OF head(1)] in \<open>simp add: attached_step_def Iterate h\<close>)
qed (use assms in \<open>simp_all add: attached_step_def screen_live_ok\<close>)

lemma connecting_screen:
  fixes F :: "('f, 'v, 'z) client_lib_scheme" and x :: "('f, 'v) cli"
  assumes "screen_live title base F x"
  shows "screen_ok title base F (connecting_step F ev x)"
proof -
  have z: "canvas_ok title base x" using assms by (simp add: screen_live_def)
  show ?thesis
  proof (cases ev)
    case (Connect_Error now)
    note t = tick_and_paint_screen [OF assms, of now]
    show ?thesis
    proof (cases "cs_raw x")
      case True
      then show ?thesis
        by (cases "cs_phase (tick_and_paint F now x)")
          (use t in \<open>auto simp: Connect_Error Let_def screen_ok_def split: phase.splits\<close>)
    next
      case False
      with assms show ?thesis by (auto simp: Connect_Error Let_def screen_live_ok split: phase.split)
    qed
  next
    case (Connected raw_ok open_ok now)
    have "screen_ok title base F (session_ended r (x\<lparr>cs_raw := True\<rparr>))" for r by (rule session_ended_screen) (simp add: z)
    moreover have "screen_ok title base F (x\<lparr>cs_raw := True, cs_client := c, cs_painter := force_repaint p, cs_phase := Attached 0\<rparr>)"
      if "pt_title p = title" for c p
      using z that by (simp add: screen_ok_def canvas_ok_def) (simp add: force_repaint_def)
    moreover have "pt_title (cs_painter x) = title" using z by (simp add: canvas_ok_def)
    ultimately show ?thesis using z by (auto simp: Connected Let_def intro: cli_return_screen)
  next
    case (Run_Timer now)
    with tick_and_paint_screen [OF assms] show ?thesis by simp
  qed (use assms z in \<open>auto simp: intro!: screen_live_ok cli_break_screen split: option.split ctrl_event.split\<close>)
qed

lemma cli_step_screen:
  fixes F :: "('f, 'v, 'z) client_lib_scheme" and x :: "('f, 'v) cli"
  assumes "screen_ok title base F x"
  shows "screen_ok title base F (cli_step F ev x)"
proof (cases "cs_phase x")
  case (Exited r)
  with assms show ?thesis by (simp add: cli_step_def)
next
  case (Attached prev)
  with assms have "screen_live title base F x" by (simp add: screen_ok_live)
  with Attached attached_screen [OF this] show ?thesis by (simp add: cli_step_def)
next
  case (Connecting d)
  with assms have "screen_live title base F x" by (simp add: screen_ok_live)
  with Connecting connecting_screen [OF this] show ?thesis
    by (auto simp: cli_step_def screen_live_def intro!: cli_break_screen)
qed

lemma cli_run_screen: "screen_ok title base F x \<Longrightarrow> screen_ok title base F (cli_run F evs x)"
  by (rule cli_run_invariant) (simp_all add: cli_step_screen)

lemma cli_start_screen:
  assumes "no_zero o0"
  shows "screen_ok title [] F (cli_start F2 sid token cols rows never title tty o0)"
proof -
  have o0: "out_ok [] o0" using assms by (simp add: out_ok_def)
  obtain r o1 where p: "push_title o0 = (r, o1)" by fastforce
  have z: "out_ok [] o1" using p put_bytes_results [OF o0] o0 by (auto simp: push_title_def split: if_splits) (metis snd_conv)
  obtain q p2 o2 where t: "paint_title None (painter_new title :: 'a painter) o1 = (q, p2, o2)" by (metis prod_cases3)
  have z2: "out_ok [] o2" using paint_title_results [OF z, of None "painter_new title :: 'a painter"] by (simp add: t)
  have n: "painter_ok title [] F (painter_new title) o1" "pt_title (painter_new title) = title"
    by (simp_all add: painter_ok_def painter_new_def)
  have "q = Inr u \<Longrightarrow> painter_ok title [] F p2 o2" for u using paint_title_ok [OF n(1) _ n(2)] t by auto
  moreover have "pt_title p2 = title" using paint_title_title [OF t] n(2) by simp
  ultimately show ?thesis using p t z z2 n(2)
    by (cases r; cases q; cases tty) (auto simp: cli_start_def screen_ok_def canvas_ok_def Let_def)
qed

section \<open>Properties\<close>

text \<open>The program changes its \<open>Client\<close> only by the calls that the client's theorems are about, so that the
  confirmed screen, for one, never goes back.\<close>

lemma cli_refines_client:
  "(\<exists>calls. cs_client (cli_run F evs x) = fold (client_step F) calls (cs_client x)) \<and>
   confirmed_version (cs_client x) \<le> confirmed_version (cs_client (cli_run F evs x))"
proof -
  obtain calls where c: "cs_client (cli_run F evs x) = fold (client_step F) calls (cs_client x)"
    using cli_run_calls [of F x evs] by (auto simp: client_calls_def)
  have "confirmed_version c \<le> confirmed_version (fold (client_step F) calls c)" for c
    by (induction calls arbitrary: c) (auto intro: order_trans client_step_version)
  with c show ?thesis by auto
qed

text \<open>C31: A server that never completes the handshake does not make the client spin. In every run the program
  counts the attachments that the transport failed since the server last answered a hello and the
  connection then ended: the count is read off the events, the clock and whether the hello was
  answered. It never exceeds five, and it is five exactly when the program has ended with the error that says so.\<close>

theorem attach_gives_up:
  "let x0 = cli_start F sid token cols rows never title tty o0; x = cli_run F evs x0; n = attach_failures F evs x0 0 in
   cs_failures x = n \<and> n \<le> MAX_HANDSHAKE_FAILURES \<and>
   (n = MAX_HANDSHAKE_FAILURES \<longleftrightarrow> cs_phase x = Exited (Some gave_up_error))"
  using cli_run_attach [OF cli_start_attach] by (simp add: attach_ok_def Let_def)

text \<open>C32: The terminal shows the client's display: whenever \<open>session_loop\<close> waits, what was written last, but
  for the window title and mode switches, is the full paint of the frame the client displays, with the
  banner of the current outage.\<close>

theorem terminal_shows_display:
  assumes "no_zero o0" "cs_phase (cli_run F evs (cli_start F sid token cols rows never title tty o0)) = Attached prev"
    and "session_head F now prev (cli_run F evs (cli_start F sid token cols rows never title tty o0)) = (None, x1)"
    and "cl_display (cs_client x1) = Some frame"
  shows "\<exists>pre suf. to_written (cs_out x1) =
      pre @ drawn F frame (map_option banner_line (cl_outage (cs_client x1))) @ suf \<and> quiet_out title suf"
proof -
  have "screen_ok title [] F (cli_run F evs (cli_start F sid token cols rows never title tty o0))"
    by (rule cli_run_screen [OF cli_start_screen [OF assms(1)]])
  then have "screen_live title [] F (cli_run F evs (cli_start F sid token cols rows never title tty o0))"
    by (rule screen_ok_live) (simp add: assms(2))
  from session_head_screen(3) [OF this assms(3) refl assms(4)] show ?thesis by (simp add: on_screen_def)
qed

section \<open>A lost connection\<close>

text \<open>The connection is lost at an iteration: the link is silent, or the wait finds an error or the end.\<close>

definition connection_lost :: "('f, 'v, 'z) client_lib_scheme \<Rightarrow> cli_event \<Rightarrow> ('f, 'v) cli \<Rightarrow> bool" where
  "connection_lost F ev x \<longleftrightarrow> transport_fails F ev x \<or> stream_closes F ev x"

lemma connection_lost_step:
  assumes "cs_phase x = Attached prev" "cl_hello_ok (cs_client x)" "connection_lost F ev x"
  shows "\<exists>x1. cli_step F ev x = reconnect (x1\<lparr>cs_failures := 0\<rparr>) \<and> cs_client x1 = fst (client_tick F (case ev of Iterate now lev \<Rightarrow> now) (cs_client x))"
proof -
  from assms(1,3) obtain now lev where ev: "ev = Iterate now lev"
    by (auto simp: connection_lost_def transport_fails_def stream_closes_def split: cli_event.splits)
  obtain r x1 where h: "session_head F now prev x = (r, x1)" by fastforce
  note head = session_head_attach [OF h]
  have c1: "cs_client x1 = fst (client_tick F now (cs_client x))" using session_head_client [of F now prev x] by (simp add: h)
  show ?thesis
  proof (cases r)
    case (Some e)
    with assms(2,3) head(4) have "e = Inr Lost"
      by (auto simp: ev connection_lost_def transport_fails_def stream_closes_def assms(1) h)
    with c1 show ?thesis
      by (intro exI [of _ x1]) (simp add: ev cli_step_def assms(1) attached_step_def h Some session_ended_def)
  next
    case None
    with assms(3) head(7) have l: "link_enabled lev (cs_client x1)"
        "lev \<in> {Recv_Error, Datagram_Error, Send_Error, Recv_End, Sent_Data 0}"
      by (auto simp: ev connection_lost_def transport_fails_def stream_closes_def assms(1) h)
    obtain r2 c2 where a: "link_arm F lev (cs_client x1) = (r2, c2)" by fastforce
    with l link_arm_attach(2) [OF a] assms(2) head(2) have "r2 = Some (Inr Lost)" "c2 = cs_client x1" by auto
    with l c1 a None show ?thesis
      by (intro exI [of _ "x1\<lparr>cs_client := c2\<rparr>"]) (simp add: ev cli_step_def assms(1) attached_step_def h session_ended_def)
  qed
qed

text \<open>While there is no connection.\<close>

definition no_link :: "cli_event \<Rightarrow> bool" where
  "no_link ev \<longleftrightarrow> (\<forall>r t. ev \<noteq> Connected r True t)"

definition offline_ok :: "('f, 'v) client \<Rightarrow> ('f, 'v) cli \<Rightarrow> bool" where
  "offline_ok c x \<longleftrightarrow> cs_failures x = 0 \<and> (\<forall>m. cs_phase x \<noteq> Attached m) \<and> cl_session_id (cs_client x) = cl_session_id c \<and>
     cl_token (cs_client x) = cl_token c \<and> prefix (cl_unacked c) (cl_unacked (cs_client x))"

lemma offline_client:
  "cl_session_id (queue_input F bs now c) = cl_session_id c" "cl_token (queue_input F bs now c) = cl_token c"
  "cl_unacked (queue_input F bs now c) = cl_unacked c @ [(cl_seq c + 1, bs)]"
  "cl_session_id (set_size w h c) = cl_session_id c" "cl_token (set_size w h c) = cl_token c"
  "cl_unacked (set_size w h c) = cl_unacked c"
  "cl_session_id (request_hangup c) = cl_session_id c" "cl_token (request_hangup c) = cl_token c"
  "cl_unacked (request_hangup c) = cl_unacked c"
  "cl_session_id (client_reset c) = cl_session_id c" "cl_token (client_reset c) = cl_token c"
  "cl_unacked (client_reset c) = cl_unacked c"
  by (simp_all add: queue_input_def feed_predict_def refresh_display_def set_size_def request_hangup_def client_reset_def
      Let_def split: option.split)

lemma offline_step:
  assumes "offline_ok c x" "no_link ev"
  shows "offline_ok c (cli_step F ev x)"
proof (cases "cs_phase x")
  case (Connecting d)
  have u: "offline_ok c y" if "cs_failures y = 0" "\<forall>m. cs_phase y \<noteq> Attached m"
    "cl_session_id (cs_client y) = cl_session_id (cs_client x)" "cl_token (cs_client y) = cl_token (cs_client x)"
    "prefix (cl_unacked (cs_client x)) (cl_unacked (cs_client y))" for y
    using assms(1) that by (auto simp: offline_ok_def intro: prefix_order.trans)
  have brk: "cs_client (cli_break r y) = cs_client y" "cs_client (cli_return e y) = cs_client y"
    "cs_client (reconnect y) = client_reset (cs_client y)" for r e and y :: "('a, 'b) cli"
    by (simp_all add: cli_break_def cli_return_def reconnect_def Let_def)
  have f: "cs_failures x = 0" using assms(1) by (simp add: offline_ok_def)
  note s = offline_client brk f Connecting
  show ?thesis
  proof (cases "cl_hungup (cs_client x)")
    case False
    have "offline_ok c (connecting_step F ev x)"
    proof (cases ev)
      case (Connected raw_ok open_ok now)
      then have "\<not> open_ok" using assms(2) by (auto simp: no_link_def)
      with Connected show ?thesis by (intro u) (simp_all add: s session_ended_def is_fatal_def Let_def)
    next
      case (Connect_Error now)
      with tick_and_paint_attach [of F now x] show ?thesis
        by (intro u) (auto simp: s tick_and_paint_client Let_def split: phase.split)
    next
      case (Run_Timer now)
      with tick_and_paint_attach [of F now x] show ?thesis by (intro u) (auto simp: s tick_and_paint_client)
    qed (rule u; simp add: s split: option.split ctrl_event.split)+
    with False Connecting show ?thesis by (simp add: cli_step_def)
  qed (rule u; simp add: s cli_step_def)
qed (use assms(1) in \<open>auto simp: cli_step_def offline_ok_def\<close>)

lemma offline_run: "offline_ok c x \<Longrightarrow> list_all no_link evs \<Longrightarrow> offline_ok c (cli_run F evs x)"
  unfolding cli_run_def by (induction evs arbitrary: x) (simp_all add: offline_step)


text \<open>Before \<open>HelloOk\<close> a closed stream is a rejection, and ends the program.\<close>

lemma rejection_ends:
  assumes "cs_phase x = Attached prev" "\<not> cl_hello_ok (cs_client x)" "fst (session_head F now prev x) = None"
  shows "cs_phase (cli_step F (Iterate now Recv_End) x) = Exited (Some handshake_closed)"
proof -
  obtain r x1 where h: "session_head F now prev x = (r, x1)" by fastforce
  have "cs_client x1 = fst (client_tick F now (cs_client x))" using session_head_client [of F now prev x] by (simp add: h)
  with assms h show ?thesis
    by (simp add: cli_step_def attached_step_def stream_end_def session_ended_def handshake_closed_def
        handshake_failed_def fatal_def is_fatal_def cli_break_def Let_def)
qed

text \<open>A failure of the keyboard thread ends the program while it connects, but while it is attached the
  program only connects again, and the thread that read the keys is gone.\<close>

lemma keyboard_failure:
  assumes "\<not> cl_hungup (cs_client x)"
  shows "cs_phase x = Connecting d \<Longrightarrow>
      cs_phase (cli_step F (Run_Ctrl (Some (Failed m)) sz) x) = Exited (Some (Other_Error (lit ''input: '' @ m)))"
    and "cs_phase x = Attached prev \<Longrightarrow> fst (session_head F now prev x) = None \<Longrightarrow>
      cs_phase (cli_step F (Iterate now (Ctrl (Some (Failed m)) sz ws)) x) = Connecting False"
  using assms by (auto simp: cli_step_def attached_step_def session_ended_def is_fatal_def reconnect_def cli_break_def Let_def
      split: prod.split option.split)

section \<open>Examples\<close>

text \<open>While standard output takes what it is given and the link is alive, the head of the loop gets to its wait.\<close>

lemma put_bytes_free: "to_results o1 = [] \<Longrightarrow> put_bytes bs o1 = (Inr (), o1\<lparr>to_written := to_written o1 @ bs\<rparr>)"
  by (simp add: put_bytes_def)

lemma paint_title_free:
  assumes "to_results o1 = []"
  shows "\<exists>p' o2. paint_title outage p o1 = (Inr (), p', o2) \<and> to_results o2 = []"
  using assms by (auto simp: paint_title_def emit_title_def Let_def put_bytes_free)

lemma paint_free:
  assumes "to_results o1 = []"
  shows "\<exists>p' o2. paint F c p o1 = (Inr (), p', o2) \<and> to_results o2 = []"
proof -
  obtain p' o2 where t: "paint_title (cl_outage c) p o1 = (Inr (), p', o2)" "to_results o2 = []"
    using paint_title_free [OF assms] by metis
  show ?thesis
    by (cases "cl_display c") (auto simp: paint_def t paint_frame_def write_banner_def put_bytes_free Let_def split: option.split)
qed

lemma head_waits:
  assumes "to_results (cs_out x) = []" "snd (client_tick F now (cs_client x)) = Alive" "\<not> cl_hungup (cs_client x)"
  shows "\<exists>x1 m. session_head F now prev x = (None, x1) \<and> cs_client x1 = fst (client_tick F now (cs_client x)) \<and>
    cs_phase x1 = Attached m \<and> to_results (cs_out x1) = []"
proof -
  obtain c t where c: "client_tick F now (cs_client x) = (c, t)" by fastforce
  obtain p o1 where p: "paint F c (cs_painter x) (cs_out x) = (Inr (), p, o1)" "to_results o1 = []"
    using paint_free [OF assms(1), of F c "cs_painter x"] by metis
  obtain m o2 where m: "(if client_mode F c \<noteq> prev then apply_modes (client_mode F c) prev o1 else (prev, o1)) = (m, o2)"
    by fastforce
  have "to_results o2 = []" using m p(2) by (auto simp: apply_modes_def Let_def put_bytes_free split: if_splits)
  moreover have "\<not> cl_hungup c" using assms(3) tick_hello(2) [of F now "cs_client x"] by (simp add: c)
  ultimately show ?thesis using assms(2) m by (simp add: session_head_def c p Let_def)
qed

lemma tick_alive:
  assumes "cl_last_rx_ms c = Some t0" "unat now < unat t0 + 8000"
  shows "snd (client_tick F now c) = Alive"
proof -
  have "cl_last_rx_ms (client_pump (tick_predictions F now c)) = Some t0"
    "cl_last_rx_ms (maybe_ping F now (client_pump (tick_predictions F now c))) = Some t0" by (simp_all add: assms(1))
  moreover have "\<not> unat (link_dead_ms F srtt) \<le> unat now - unat t0" for srtt
    using link_dead_bounds [of F srtt] assms(2) by linarith
  ultimately show ?thesis
    by (simp add: client_tick_def Let_def word_le_nat_alt unat_sat_sub)
qed

definition out_ex :: term_out where
  "out_ex = \<lparr>to_terminal = True, to_written = [], to_results = []\<rparr>"

definition cli_ex :: "(cframe, unit) cli" where
  "cli_ex = cli_step client_lib_ex (Connected True True 5)
     (cli_start client_lib_ex (replicate 16 1) (replicate 32 2) 3 1 True (lit ''quosh: a@b'') None out_ex)"

lemma cli_ex_state:
  "cs_phase cli_ex = Attached 0" "cs_client cli_ex = begin_connection 5 client_ex" "to_results (cs_out cli_ex) = []"
  by (simp_all add: cli_ex_def cli_start_def push_title_def paint_title_def emit_title_def put_bytes_def out_ex_def
      painter_new_def cli_step_def client_ex_def client_new_def Let_def)

lemma client_ex_hungup: "\<not> cl_hungup (begin_connection 5 client_ex)" "cl_last_rx_ms (begin_connection 5 client_ex) = Some 5"
  "cl_unacked (begin_connection 5 client_ex) = []" "\<not> cl_hello_ok (begin_connection 5 client_ex)"
  by (simp_all add: begin_connection_def client_ex_def client_new_def)

abbreviation lost_ex :: "(cframe, unit) cli" where
  "lost_ex \<equiv> cli_ex\<lparr>cs_client := (cs_client cli_ex)\<lparr>cl_hello_ok := True, cl_unacked := [(1, [97])]\<rparr>\<rparr>"

abbreviation offline_ex :: "(cframe, unit) cli" where
  "offline_ex \<equiv> cli_run client_lib_ex [Run_Keys (Some [98]) 7] (cli_step client_lib_ex (Iterate 6 Recv_Error) lost_ex)"


text \<open>A screen that arrives is displayed.\<close>

lemmas client_lib_defs = client_lib_ex_def predict_lib.defs lib_ex_defs

lemma client_lib_ex_laws: "frame_laws client_lib_ex" "lz_laws client_lib_ex"
  by (simp_all add: client_lib_defs lz_laws_def frame_laws_def from_parts_law_def set_overflow_law_def slc_def)

definition screen_bytes_ex :: bytes where
  "screen_bytes_ex = screen_encode client_lib_ex screen_ex"

lemma screen_bytes_ex:
  "\<exists>s. screen_decode client_lib_ex screen_bytes_ex = Inr s \<and> 0 < sc_version s" "take 4 screen_bytes_ex \<noteq> SHARED_SCREEN_MAGIC"
proof -
  have fits: "screen_fits client_lib_ex screen_ex"
    by (simp add: screen_fits_def screen_ex_def client_lib_defs Let_def cell_count_def MAX_ROWS_def MAX_COLS_def
        CELL_SIZE_def str16_ok_def lit_def of_char_def btree_ok_def)
  have len: "length (screen_encode_raw client_lib_ex screen_ex) = 77"
    by (simp add: screen_encode_raw_def screen_ex_def client_lib_defs SCREEN_MAGIC_def put_str16_def put_overflow_def
        lit_def Let_def)
  obtain s where s: "screen_decode_raw client_lib_ex (screen_encode_raw client_lib_ex screen_ex) = Inr s"
      "screen_same client_lib_ex s screen_ex"
    using screen_raw_roundtrip [OF client_lib_ex_laws(1) fits] by blast
  then have "sc_version s = 3" by (simp add: screen_same_def screen_ex_def)
  with s(1) show "\<exists>s. screen_decode client_lib_ex screen_bytes_ex = Inr s \<and> 0 < sc_version s"
    using screen_encode_lz(1) [OF client_lib_ex_laws(2), of screen_ex] by (simp add: len MAX_SCREEN_RAW_def screen_bytes_ex_def)
  have "lz_compress client_lib_ex x = le32 (of_nat (length x)) @ x" for x by (simp add: client_lib_defs)
  then have "screen_bytes_ex = le32 77 @ screen_encode_raw client_lib_ex screen_ex"
    by (simp add: screen_bytes_ex_def screen_encode_def len)
  then have "take 4 screen_bytes_ex = take 4 (le32 77 @ screen_encode_raw client_lib_ex screen_ex)" by (rule arg_cong)
  also have "\<dots> = le32 77" by simp
  finally have "take 4 screen_bytes_ex = le32 77" .
  then show "take 4 screen_bytes_ex \<noteq> SHARED_SCREEN_MAGIC"
    by (simp add: SHARED_SCREEN_MAGIC_def le32_def le_bytes_numeral)
qed

lemma datagram_displays:
  assumes "cl_confirmed c = None" "cl_shared_prediction c = None"
  shows "cl_display (recv_datagram client_lib_ex screen_bytes_ex now c) \<noteq> None"
    "cl_last_rx_ms (recv_datagram client_lib_ex screen_bytes_ex now c) = Some now"
    "cl_hungup (recv_datagram client_lib_ex screen_bytes_ex now c) = cl_hungup c"
    "cl_confirmed (recv_datagram client_lib_ex screen_bytes_ex now c) \<noteq> None"
proof -
  obtain s where s: "screen_decode client_lib_ex screen_bytes_ex = Inr s" "0 < sc_version s"
    using screen_bytes_ex(1) by blast
  with assms screen_bytes_ex(2) show "cl_display (recv_datagram client_lib_ex screen_bytes_ex now c) \<noteq> None"
    "cl_last_rx_ms (recv_datagram client_lib_ex screen_bytes_ex now c) = Some now"
    "cl_hungup (recv_datagram client_lib_ex screen_bytes_ex now c) = cl_hungup c"
    "cl_confirmed (recv_datagram client_lib_ex screen_bytes_ex now c) \<noteq> None"
    by (simp_all add: recv_datagram_def apply_screen_def apply_newer_def refresh_display_def Let_def)
qed

abbreviation start_ex :: "(cframe, unit) cli" where
  "start_ex \<equiv> cli_start client_lib_ex (replicate 16 1) (replicate 32 2) 3 1 True (lit ''quosh: a@b'') None out_ex"

definition shown_evs :: "cli_event list" where
  "shown_evs = [Connected True True 5, Iterate 6 (Datagram_Data screen_bytes_ex 6)]"

lemma parts_confirmed [simp]:
  "cl_confirmed (fst (client_tick F now c)) = cl_confirmed c"
  "cl_shared_prediction (fst (client_tick F now c)) = cl_shared_prediction c"
proof -
  have "cl_confirmed (client_pump c) = cl_confirmed c" "cl_confirmed (maybe_ping F now c) = cl_confirmed c"
    "cl_confirmed (tick_outage now c) = cl_confirmed c" "cl_confirmed (tick_predictions F now c) = cl_confirmed c"
    "cl_shared_prediction (client_pump c) = cl_shared_prediction c"
    "cl_shared_prediction (maybe_ping F now c) = cl_shared_prediction c"
    "cl_shared_prediction (tick_outage now c) = cl_shared_prediction c"
    "cl_shared_prediction (tick_predictions F now c) = cl_shared_prediction c" for c :: "('a, 'b) client"
    by (simp_all add: tick_outage_def maybe_ping_def client_pump_def pump_ack_def pump_input_def
      tick_predictions_def refresh_display_def Let_def split_def split: option.split)
  then show "cl_confirmed (fst (client_tick F now c)) = cl_confirmed c"
    "cl_shared_prediction (fst (client_tick F now c)) = cl_shared_prediction c"
    using client_tick_state [of F now c] by (simp_all add: Let_def split: if_splits)
qed

text \<open>A tick keeps a display where there is a confirmed screen.\<close>

lemma tick_displays: "cl_display c \<noteq> None \<Longrightarrow> cl_confirmed c \<noteq> None \<Longrightarrow> cl_display (fst (client_tick F now c)) \<noteq> None"
proof -
  assume c: "cl_display c \<noteq> None" "cl_confirmed c \<noteq> None"
  have "cl_display (client_pump d) = cl_display d" "cl_display (maybe_ping F now d) = cl_display d"
    "cl_display (tick_outage now d) = cl_display d" for d
    by (simp_all add: tick_outage_def maybe_ping_def client_pump_def pump_ack_def pump_input_def Let_def split_def
        split: option.split)
  moreover have "cl_display (tick_predictions F now c) \<noteq> None"
    using c by (auto simp: tick_predictions_def refresh_display_def split: option.split)
  ultimately show ?thesis using client_tick_state [of F now c] by (auto simp: Let_def split: if_splits)
qed

lemma shown_ex:
  "\<exists>m x1. cs_phase (cli_run client_lib_ex shown_evs start_ex) = Attached m \<and>
     session_head client_lib_ex 7 m (cli_run client_lib_ex shown_evs start_ex) = (None, x1) \<and> cl_display (cs_client x1) \<noteq> None"
proof -
  have a: "snd (client_tick client_lib_ex 6 (cs_client cli_ex)) = Alive"
    by (rule tick_alive [where ?t0.0 = 5]) (simp_all add: cli_ex_state client_ex_hungup)
  obtain x1 m where h: "session_head client_lib_ex 6 0 cli_ex = (None, x1)"
      "cs_client x1 = fst (client_tick client_lib_ex 6 (cs_client cli_ex))" "cs_phase x1 = Attached m" "to_results (cs_out x1) = []"
    using head_waits [OF cli_ex_state(3) a, of 0] client_ex_hungup(1) unfolding cli_ex_state(2) by metis
  have ex: "cl_confirmed (begin_connection 5 client_ex) = None" "cl_shared_prediction (begin_connection 5 client_ex) = None"
    by (simp_all add: begin_connection_def client_ex_def client_new_def)
  let ?c = "recv_datagram client_lib_ex screen_bytes_ex 6 (cs_client x1)"
  have c: "cl_display ?c \<noteq> None" "cl_last_rx_ms ?c = Some 6" "cl_hungup ?c = cl_hungup (cs_client x1)" "cl_confirmed ?c \<noteq> None"
    by (rule datagram_displays; simp add: h(2) cli_ex_state ex)+
  let ?x = "x1\<lparr>cs_client := ?c\<rparr>"
  have run: "cli_run client_lib_ex shown_evs start_ex = ?x"
    by (simp add: cli_run_def shown_evs_def cli_step_def [of _ "Iterate _ _"] cli_ex_state attached_step_def h flip: cli_ex_def)
  have alive: "snd (client_tick client_lib_ex 7 (cs_client ?x)) = Alive"
    by (rule tick_alive [where ?t0.0 = 6]) (simp_all add: c)
  obtain x2 where "session_head client_lib_ex 7 m ?x = (None, x2)" "cs_client x2 = fst (client_tick client_lib_ex 7 ?c)"
    using head_waits [OF _ alive] h c(3) client_ex_hungup by (auto simp: cli_ex_state)
  then show ?thesis using h(3) tick_displays [OF c(1,4)] by (auto simp: run)
qed

theorem terminal_shows_display_witness:
  "\<exists>m x1 frame pre suf. session_head client_lib_ex 7 m (cli_run client_lib_ex shown_evs start_ex) = (None, x1) \<and>
     cl_display (cs_client x1) = Some frame \<and>
     to_written (cs_out x1) = pre @ drawn client_lib_ex frame (map_option banner_line (cl_outage (cs_client x1))) @ suf"
proof -
  obtain m x1 where x: "cs_phase (cli_run client_lib_ex shown_evs start_ex) = Attached m"
      "session_head client_lib_ex 7 m (cli_run client_lib_ex shown_evs start_ex) = (None, x1)" "cl_display (cs_client x1) \<noteq> None"
    using shown_ex by blast
  then obtain frame where f: "cl_display (cs_client x1) = Some frame" by auto
  have "no_zero out_ex" by (simp add: no_zero_def out_ex_def)
  from terminal_shows_display [OF this x(1,2) f] x(2) f show ?thesis by blast
qed

end
