(* ===== verification/Cli_Wire.thy ===== *)
theory Cli_Wire
  imports Cli_Props Delivery
begin

text \<open>
  The command line client between the keyboard and the connection (\<open>crates/quosh-cli/src/main.rs\<close>): over
  every run of the machine of \<open>Cli_Loop\<close>, what it took from the keyboard channel, what it wrote to the
  connection it has, and what its \<open>Client\<close> still holds. What it took and what it wrote are read off
  the events, as the channel and the transport see them.
\<close>

section \<open>What the outside sees\<close>

text \<open>An arm of the \<open>select!\<close> takes a chunk of keys, or has bytes accepted by the transport.\<close>

fun arm_keys :: "link_event \<Rightarrow> bytes list" where
  "arm_keys (Keys (Some bs) now) = [bs]"
| "arm_keys _ = []"

fun flush_writes :: "nat list \<Rightarrow> ('f, 'v) client \<Rightarrow> bytes" where
  "flush_writes [] c = []"
| "flush_writes (n # ws) c0 =
     (let c = client_pump c0 in
      if \<not> client_writing c \<or> n = 0 then []
      else take n (client_outbound c) @ flush_writes ws (client_advance_outbound n c))"

fun arm_bytes :: "link_event \<Rightarrow> ('f, 'v) client \<Rightarrow> bytes" where
  "arm_bytes (Sent_Data n) c = take n (client_outbound c)"
| "arm_bytes (Ctrl ev sz ws) c =
     (if ev \<in> {None, Some Eof, Some Interrupt, Some Hangup} then flush_writes ws (request_hangup c) else [])"
| "arm_bytes _ c = []"

text \<open>An event of the program. Keys are taken while it connects, and while it is attached once the loop waits.\<close>

definition keys_taken :: "('f, 'v, 'z) client_lib_scheme \<Rightarrow> cli_event \<Rightarrow> ('f, 'v) cli \<Rightarrow> bytes list" where
  "keys_taken F ev x = (case (cs_phase x, ev) of
       (Connecting d, Run_Keys (Some bs) now) \<Rightarrow>
         if \<not> cl_hungup (cs_client x) \<and> can_accept_input (cs_client x) then [bs] else []
     | (Attached prev, Iterate now lev) \<Rightarrow> (case session_head F now prev x of (r, x1) \<Rightarrow>
         if r = None \<and> link_enabled lev (cs_client x1) then arm_keys lev else [])
     | _ \<Rightarrow> [])"

definition bytes_written :: "('f, 'v, 'z) client_lib_scheme \<Rightarrow> cli_event \<Rightarrow> ('f, 'v) cli \<Rightarrow> bytes" where
  "bytes_written F ev x = (case (cs_phase x, ev) of
       (Attached prev, Iterate now lev) \<Rightarrow> (case session_head F now prev x of (r, x1) \<Rightarrow>
         if r = None \<and> link_enabled lev (cs_client x1) then arm_bytes lev (cs_client x1) else [])
     | _ \<Rightarrow> [])"

definition link_opens :: "cli_event \<Rightarrow> ('f, 'v) cli \<Rightarrow> bool" where
  "link_opens ev x \<longleftrightarrow> (case (cs_phase x, ev) of
       (Connecting d, Connected raw_ok True now) \<Rightarrow> \<not> cl_hungup (cs_client x) \<and> (cs_raw x \<or> raw_ok)
     | _ \<Rightarrow> False)"

text \<open>The chunks taken in a run, and what the last connection got, if there was one.\<close>

fun cli_log ::
  "('f, 'v, 'z) client_lib_scheme \<Rightarrow> cli_event list \<Rightarrow> ('f, 'v) cli \<Rightarrow> bytes list \<times> bytes option \<Rightarrow> bytes list \<times> bytes option" where
  "cli_log F [] x lg = lg"
| "cli_log F (ev # evs) x (typed, sent) = cli_log F evs (cli_step F ev x)
     (typed @ keys_taken F ev x, if link_opens ev x then Some [] else map_option (\<lambda>w. w @ bytes_written F ev x) sent)"

section \<open>The invariant\<close>

text \<open>The frames that carry these chunks, each under its number, and nothing else that was typed.\<close>

definition typed_frame :: "bytes list \<Rightarrow> bytes \<Rightarrow> bool" where
  "typed_frame typed f \<longleftrightarrow> (\<exists>v. f = encode_ack_state v) \<or> (\<exists>seq d. genuine typed (seq, d) \<and> f = encode_input seq d) \<or>
     (\<exists>w h. f = encode_resize w h) \<or> f = encode_ping \<or> f = encode_hangup"

definition hello_of :: "bytes \<Rightarrow> bytes \<Rightarrow> u16 \<Rightarrow> u16 \<Rightarrow> bytes" where
  "hello_of sid token cols rows = hello_encode \<lparr>h_protocol = PROTOCOL_VERSION, h_session_id = sid, h_token = token,
     h_cols = cols, h_rows = rows\<rparr>"

definition named :: "bytes \<Rightarrow> bytes \<Rightarrow> ('f, 'v) client \<Rightarrow> bool" where
  "named sid token c \<longleftrightarrow> cl_session_id c = sid \<and> cl_token c = token"

definition link_ok :: "bytes \<Rightarrow> bytes \<Rightarrow> bytes list \<Rightarrow> bytes option \<Rightarrow> ('f, 'v) client \<Rightarrow> bool" where
  "link_ok sid token typed sent c \<longleftrightarrow> (case sent of None \<Rightarrow> True | Some w \<Rightarrow>
     feed_ok (cl_feed c) \<and> list_all (typed_frame typed) (feed_pending (cl_feed c)) \<and>
     (\<exists>cols rows fs. list_all (typed_frame typed) fs \<and> w @ client_outbound c = hello_of sid token cols rows @ concat fs))"

definition wire_ok :: "bytes \<Rightarrow> bytes \<Rightarrow> bytes list \<Rightarrow> bytes option \<Rightarrow> ('f, 'v) client \<Rightarrow> bool" where
  "wire_ok sid token typed sent c \<longleftrightarrow>
     named sid token c \<and> client_ok typed (length typed) c \<and> link_ok sid token typed sent c"

lemma typed_frame_snoc: "typed_frame typed f \<Longrightarrow> typed_frame (typed @ [d]) f"
  unfolding typed_frame_def using genuine_snoc by blast

lemma client_ok_typed_frames:
  assumes "client_ok typed acc c" "length typed < 2 ^ 64"
  shows "frames_from (typed_frame typed) c"
proof -
  obtain k where "cl_unacked c = numbered_from typed k (length typed)" using assms(1) by (auto simp: client_ok_def)
  then have "list_all (genuine typed) (cl_unacked c)" by (simp add: numbered_from_genuine [OF assms(2)])
  then show ?thesis by (auto simp: frames_from_def typed_frame_def list_all_iff)
qed

lemma named_cong: "named sid token c \<Longrightarrow> cl_session_id c' = cl_session_id c \<Longrightarrow> cl_token c' = cl_token c \<Longrightarrow> named sid token c'"
  by (simp add: named_def)

lemma shared_named:
  assumes "named sid token c"
  shows "named sid token (fst (apply_shared_screen F s now c))"
  by (cases "apply_shared_screen F s now c") (auto elim!: apply_shared_screenE intro: named_cong [OF assms])

lemma named_step:
  assumes "named sid token c"
  shows "named sid token (client_step F ev c)"
proof (cases ev)
  case (Receive bs now)
  have "named sid token (fst (handle_frame F mty p now c'))" if "named sid token c'" for c' mty p
  proof -
    obtain c2 e where h: "handle_frame F mty p now c' = (c2, e)" by fastforce
    from h have "named sid token c2"
    proof (cases rule: handle_frameE)
      case (shared s)
      with shared_named [OF that, of F s now] show ?thesis by simp
    qed (auto intro: named_cong [OF that])
    with h show ?thesis by simp
  qed
  then have "named sid token (fst (recv_control F bs now c))"
    by (rule recv_control_invariant [where P = "named sid token"]) (auto intro: named_cong assms)
  then show ?thesis by (simp add: Receive)
next
  case (Datagram bs now)
  have c: "named sid token (c\<lparr>cl_last_rx_ms := Some now\<rparr>)" by (rule named_cong [OF assms]) simp_all
  from shared_named [OF c] assms show ?thesis
    by (auto simp: Datagram recv_datagram_def Let_def intro: named_cong split: sum.split)
next
  case (Tick now)
  then show ?thesis using client_tick_state [of F now c] by (auto simp: Let_def intro: named_cong [OF assms])
qed (auto simp: begin_connection_def end_connection_def offline_client client_advance_outbound_def intro!: named_cong [OF assms])

text \<open>Whatever number a server acknowledges, what is left is the end of what was typed.\<close>

lemma client_ok_any_ack:
  assumes "client_ok typed (length typed) c" "length typed < 2 ^ 64"
  shows "client_ok typed (length typed) (c\<lparr>cl_unacked := filter (\<lambda>(s, _). s > a) (cl_unacked c)\<rparr>)"
proof (cases "unat a \<le> length typed")
  case True
  then show ?thesis by (rule client_ok_ack [OF assms(1) _ assms(2)])
next
  case False
  obtain k where "cl_unacked c = numbered_from typed k (length typed)" using assms(1) by (auto simp: client_ok_def)
  then have "filter (\<lambda>(s, _). s > a) (cl_unacked c) = numbered_from typed (max k (unat a)) (length typed)"
    by (simp add: numbered_from_filter [OF assms(2)])
  also have "\<dots> = numbered_from typed (length typed) (length typed)" using False by (simp add: numbered_from_def)
  finally show ?thesis using assms(1) unfolding client_ok_def by auto
qed

lemma client_ok_any_frame:
  assumes "client_ok typed (length typed) c" "length typed < 2 ^ 64"
  shows "client_ok typed (length typed) (fst (handle_frame F mty p now c))"
proof -
  obtain c2 e where h: "handle_frame F mty p now c = (c2, e)" by fastforce
  from h have "client_ok typed (length typed) c2"
  proof (cases rule: handle_frameE)
    case (ack a)
    with client_ok_any_ack [OF assms] show ?thesis by simp
  next
    case (shared s)
    then show ?thesis using assms(1) by (cases rule: apply_shared_screenE) (auto intro: client_ok_cong)
  qed (auto intro: client_ok_cong [OF assms(1)])
  with h show ?thesis by simp
qed

lemma client_ok_step:
  assumes "client_ok typed (length typed) c" "length typed < 2 ^ 64" "\<forall>bs now. ev \<noteq> Queue_Input bs now"
  shows "client_ok typed (length typed) (client_step F ev c)"
proof (cases "client_local ev")
  case True
  with local_step_keeps(1,2) [of ev F c] show ?thesis by (auto intro: client_ok_cong [OF assms(1)])
next
  case False
  show ?thesis
  proof (cases ev)
    case (Receive bs now)
    have "client_ok typed (length typed) (fst (recv_control F bs now c))"
      by (rule recv_control_invariant [where P = "client_ok typed (length typed)"])
        (auto intro: client_ok_any_frame client_ok_cong assms(1,2))
    then show ?thesis by (simp add: Receive)
  qed (use False assms in \<open>auto simp: begin_connection_def client_advance_outbound_def intro: client_ok_cong\<close>)
qed

lemma wire_step:
  assumes "wire_ok sid token typed sent c" "length typed < 2 ^ 64"
    and "\<forall>bs now. ev \<noteq> Queue_Input bs now" "\<forall>now. ev \<noteq> Begin now"
  shows "wire_ok sid token typed (map_option (\<lambda>w. w @ client_wire ev c) sent) (client_step F ev c)"
proof -
  have c: "named sid token c" "client_ok typed (length typed) c" "link_ok sid token typed sent c"
    using assms(1) by (simp_all add: wire_ok_def)
  note step = named_step [OF c(1), of F ev] client_ok_step [OF c(2) assms(2,3), of F]
  have "link_ok sid token typed (map_option (\<lambda>w. w @ client_wire ev c) sent) (client_step F ev c)"
  proof (cases sent)
    case (Some w)
    then obtain cols rows fs where f: "feed_ok (cl_feed c)" "list_all (typed_frame typed) (feed_pending (cl_feed c))"
        "list_all (typed_frame typed) fs" "w @ client_outbound c = hello_of sid token cols rows @ concat fs"
      using c(3) by (auto simp: link_ok_def)
    have "feed_reach (typed_frame typed) (client_wire ev c) (cl_feed c) (cl_feed (client_step F ev c))"
      by (rule client_step_feed [OF _ client_ok_typed_frames [OF c(2) assms(2)]]) (use assms(4) in simp)
    from feed_reach_frames [OF this f(1,2)] obtain gs where g: "feed_ok (cl_feed (client_step F ev c))"
        "list_all (typed_frame typed) (feed_pending (cl_feed (client_step F ev c)))" "list_all (typed_frame typed) gs"
        "client_wire ev c @ client_outbound (client_step F ev c) = client_outbound c @ concat gs"
      by (auto simp: client_outbound_def)
    have "(w @ client_wire ev c) @ client_outbound (client_step F ev c) = hello_of sid token cols rows @ concat (fs @ gs)"
      using f(4) g(4) by (metis append.assoc concat_append)
    with f(3) g show ?thesis unfolding link_ok_def Some
      by (simp, intro exI [of _ cols] exI [of _ rows] exI [of _ "fs @ gs"]) simp
  qed (simp add: link_ok_def)
  with step show ?thesis by (simp add: wire_ok_def)
qed

lemma wire_begin:
  assumes "wire_ok sid token typed sent c"
  shows "wire_ok sid token typed (Some []) (begin_connection now c)"
proof -
  have c: "named sid token c" "client_ok typed (length typed) c" using assms by (simp_all add: wire_ok_def)
  have "client_ok typed (length typed) (begin_connection now c)"
    by (rule client_ok_cong [OF c(2)]) (simp_all add: begin_connection_def)
  moreover have "client_outbound (begin_connection now c) = hello_of sid token (cl_cols c) (cl_rows c)"
    using c(1) by (simp add: begin_connection_feed client_hello_def hello_of_def named_def)
  then have "link_ok sid token typed (Some []) (begin_connection now c)"
    unfolding link_ok_def by (simp add: begin_connection_feed) (metis append_Nil2 concat.simps(1) list.pred_inject(1))
  ultimately show ?thesis using named_step [OF c(1), of undefined "Begin now"] by (simp add: wire_ok_def)
qed

lemma wire_queue:
  assumes "wire_ok sid token typed sent c"
  shows "wire_ok sid token (typed @ [bs]) sent (queue_input F bs now c)"
proof -
  have c: "named sid token c" "client_ok typed (length typed) c" "link_ok sid token typed sent c"
    using assms by (simp_all add: wire_ok_def)
  have "client_ok (typed @ [bs]) (length (typed @ [bs])) (queue_input F bs now c)"
    by (rule client_ok_mono [OF type_input_ok [OF c(2) order_refl]]) simp
  moreover have feed: "cl_feed (queue_input F bs now c) = cl_feed c" by (simp add: queue_input_def Let_def)
  have mono: "list_all (typed_frame (typed @ [bs])) fs" if "list_all (typed_frame typed) fs" for fs
    using that by (auto simp: list_all_iff typed_frame_snoc)
  then have "link_ok sid token (typed @ [bs]) sent (queue_input F bs now c)"
    using c(3) unfolding link_ok_def client_outbound_def feed by (auto split: option.splits intro: mono)
  moreover have "named sid token (queue_input F bs now c)" using named_step [OF c(1), of F "Queue_Input bs now"] by simp
  ultimately show ?thesis by (simp add: wire_ok_def)
qed

section \<open>The program's steps\<close>

lemma wire_silent:
  assumes "wire_ok sid token typed sent c" "length typed < 2 ^ 64"
  shows "wire_ok sid token typed sent (fst (client_tick F now c))" "wire_ok sid token typed sent (request_hangup c)"
    "wire_ok sid token typed sent (set_size w h c)" "wire_ok sid token typed sent (client_reset c)"
    "wire_ok sid token typed sent (client_pump c)" "wire_ok sid token typed sent (fst (recv_control F bs now c))"
    "wire_ok sid token typed sent (recv_datagram F bs now c)"
proof -
  have id: "map_option (\<lambda>w. w) sent = sent" by (cases sent) simp_all
  note s = wire_step [OF assms]
  from s [where ev = "Tick now" and F = F] s [where ev = Hang_Up and F = F] s [where ev = "Set_Size w h" and F = F]
    s [where ev = Forget and F = F] s [where ev = Pump_Out and F = F] s [where ev = "Receive bs now" and F = F]
    s [where ev = "Datagram bs now" and F = F]
  show "wire_ok sid token typed sent (fst (client_tick F now c))" "wire_ok sid token typed sent (request_hangup c)"
    "wire_ok sid token typed sent (set_size w h c)" "wire_ok sid token typed sent (client_reset c)"
    "wire_ok sid token typed sent (client_pump c)" "wire_ok sid token typed sent (fst (recv_control F bs now c))"
    "wire_ok sid token typed sent (recv_datagram F bs now c)"
    by (simp_all add: id)
qed

lemma wire_sent:
  assumes "wire_ok sid token typed sent c" "length typed < 2 ^ 64"
  shows "wire_ok sid token typed (map_option (\<lambda>w. w @ take n (client_outbound c)) sent) (client_advance_outbound n c)"
  using wire_step [OF assms, where ev = "Sent_Out n" and F = undefined] by simp

lemma wire_flush:
  assumes "wire_ok sid token typed sent c" "length typed < 2 ^ 64"
  shows "wire_ok sid token typed (map_option (\<lambda>w. w @ flush_writes ws c) sent) (cli_flush ws c)"
  using assms(1)
proof (induction ws c arbitrary: sent rule: cli_flush.induct)
  case (1 c)
  have "map_option (\<lambda>w. w @ []) sent = sent" by (cases sent) simp_all
  with wire_silent(5) [OF 1 assms(2)] show ?case by simp
next
  case (2 n ws c)
  note p = wire_silent(5) [OF 2(2) assms(2)]
  have nil: "map_option (\<lambda>w. w @ []) sent = sent" by (cases sent) simp_all
  have comp: "map_option (\<lambda>w. w @ b) (map_option (\<lambda>w. w @ a) sent) = map_option (\<lambda>w. w @ a @ b) sent" for a b :: bytes
    by (cases sent) simp_all
  show ?case
  proof (cases "\<not> client_writing (client_pump c) \<or> n = 0")
    case True
    with p nil show ?thesis by (auto simp: Let_def)
  next
    case False
    from 2(1) [OF refl False wire_sent [OF p assms(2), of n]] False show ?thesis by (simp add: Let_def comp)
  qed
qed

lemma wire_arm:
  assumes "wire_ok sid token typed sent c" "length typed < 2 ^ 64"
  shows "wire_ok sid token (typed @ arm_keys lev) (map_option (\<lambda>w. w @ arm_bytes lev c) sent) (snd (link_arm F lev c))"
proof -
  have nil: "map_option (\<lambda>w. w) sent = sent" "map_option (\<lambda>w. w @ []) sent = sent" by (cases sent; simp)+
  note silent = wire_silent [OF assms]
  show ?thesis
  proof (cases lev)
    case (Recv_Data bs now)
    then show ?thesis using silent(6) [of F bs now] by (simp add: nil split: prod.split option.split) (metis fst_conv)
  next
    case (Sent_Data n)
    then show ?thesis using wire_sent [OF assms, of n] assms(1) by (simp add: nil)
  next
    case (Ctrl ev sz ws)
    then show ?thesis using wire_flush [OF silent(2) assms(2), of ws] silent(3) assms(1)
      by (cases "(F, Ctrl ev sz ws, c)" rule: link_arm.cases) (auto simp: nil)
  next
    case (Keys b now)
    then show ?thesis using wire_queue [OF assms(1)] assms(1) by (cases b) (simp_all add: nil)
  qed (use assms(1) silent in \<open>simp_all add: nil\<close>)
qed

lemma wire_session_ended:
  assumes "wire_ok sid token typed sent (cs_client x)" "length typed < 2 ^ 64"
  shows "wire_ok sid token typed sent (cs_client (session_ended r x))"
proof -
  have "cs_client (session_ended r x) = cs_client x \<or> cs_client (session_ended r x) = client_reset (cs_client x)"
    by (auto simp: session_ended_def reconnect_def cli_break_def Let_def split: sum.split link_end.split)
  with wire_silent(4) [OF assms] assms(1) show ?thesis by auto
qed

lemma wire_attached:
  assumes "wire_ok sid token typed sent (cs_client x)" "length typed < 2 ^ 64" "cs_phase x = Attached prev"
  shows "wire_ok sid token (typed @ keys_taken F ev x) (map_option (\<lambda>w. w @ bytes_written F ev x) sent)
    (cs_client (attached_step F prev ev x))"
proof -
  have nil: "map_option (\<lambda>w. w) sent = sent" "map_option (\<lambda>w. w @ []) sent = sent" by (cases sent; simp)+
  show ?thesis
  proof (cases ev)
    case (Iterate now lev)
    obtain r x1 where h: "session_head F now prev x = (r, x1)" by fastforce
    have "cs_client x1 = fst (client_tick F now (cs_client x))" using session_head_client [of F now prev x] by (simp add: h)
    then have 1: "wire_ok sid token typed sent (cs_client x1)" by (simp add: wire_silent(1) [OF assms(1,2)])
    show ?thesis
    proof (cases "r = None \<and> link_enabled lev (cs_client x1)")
      case True
      obtain r2 c2 where a: "link_arm F lev (cs_client x1) = (r2, c2)" by fastforce
      have 2: "wire_ok sid token (typed @ arm_keys lev) (map_option (\<lambda>w. w @ arm_bytes lev (cs_client x1)) sent) c2"
        using wire_arm [OF 1 assms(2), of lev F] by (simp add: a)
      have "length (typed @ arm_keys lev) < 2 ^ 64 \<or> r2 = None"
        using a assms(2) by (cases "(F, lev, cs_client x1)" rule: link_arm.cases) auto
      then have "wire_ok sid token (typed @ arm_keys lev) (map_option (\<lambda>w. w @ arm_bytes lev (cs_client x1)) sent)
          (cs_client (case r2 of None \<Rightarrow> x1\<lparr>cs_client := c2\<rparr> | Some r \<Rightarrow> session_ended r (x1\<lparr>cs_client := c2\<rparr>)))"
        using 2 wire_session_ended [of sid token "typed @ arm_keys lev" _ "x1\<lparr>cs_client := c2\<rparr>"]
        by (auto split: option.split)
      with True a h show ?thesis
        by (simp add: keys_taken_def bytes_written_def attached_step_def Iterate assms(3) split: option.splits)
    next
      case False
      have "cs_client (attached_step F prev ev x) = cs_client (case r of None \<Rightarrow> x1 | Some e \<Rightarrow> session_ended e x1)"
        using False by (auto simp: attached_step_def Iterate h split: option.split)
      moreover have "wire_ok sid token typed sent (cs_client (case r of None \<Rightarrow> x1 | Some e \<Rightarrow> session_ended e x1))"
        using 1 wire_session_ended [OF 1 assms(2)] by (auto split: option.split)
      moreover have "keys_taken F ev x = []" "bytes_written F ev x = []"
        using False by (auto simp: keys_taken_def bytes_written_def Iterate assms(3) h)
      ultimately show ?thesis by (simp add: nil)
    qed
  qed (use assms in \<open>simp_all add: keys_taken_def bytes_written_def attached_step_def nil\<close>)
qed

lemma wire_connecting:
  assumes "wire_ok sid token typed sent (cs_client x)" "length typed < 2 ^ 64" "cs_phase x = Connecting d"
    and "\<not> cl_hungup (cs_client x)"
  shows "wire_ok sid token (typed @ keys_taken F ev x)
    (if link_opens ev x then Some [] else map_option (\<lambda>w. w @ bytes_written F ev x) sent) (cs_client (connecting_step F ev x))"
proof -
  have nil: "map_option (\<lambda>w. w) sent = sent" "map_option (\<lambda>w. w @ []) sent = sent" by (cases sent; simp)+
  have brk: "cs_client (cli_break r y) = cs_client y" "cs_client (cli_return e y) = cs_client y" for r e and y :: "('a, 'b) cli"
    by (simp_all add: cli_break_def cli_return_def Let_def)
  note d = keys_taken_def bytes_written_def link_opens_def assms(3,4) nil brk
  note silent = wire_silent [OF assms(1,2)]
  show ?thesis
  proof (cases ev)
    case (Connected raw_ok open_ok now)
    have "wire_ok sid token typed sent (cs_client (session_ended r (x\<lparr>cs_raw := True\<rparr>)))" for r
      by (rule wire_session_ended) (use assms in simp_all)
    with assms(1) wire_begin [OF assms(1)] show ?thesis
      by (cases open_ok) (auto simp: Connected d Let_def)
  next
    case (Connect_Error now)
    with assms(1) silent(1) show ?thesis by (auto simp: d tick_and_paint_client Let_def split: phase.split)
  next
    case (Run_Ctrl ev sz)
    with assms(1) silent show ?thesis by (auto simp: d split: option.split ctrl_event.split)
  next
    case (Run_Keys b now)
    show ?thesis
    proof (cases b)
      case (Some bs)
      with Run_Keys assms(1) wire_queue [OF assms(1), of bs F now] show ?thesis by (simp add: d)
    qed (use Run_Keys assms(1) in \<open>simp add: d\<close>)
  next
    case (Run_Timer now)
    with silent(1) show ?thesis by (simp add: d tick_and_paint_client)
  qed (use assms(1) in \<open>simp add: d\<close>)
qed

lemma wire_cli_step:
  assumes "wire_ok sid token typed sent (cs_client x)" "length typed < 2 ^ 64"
  shows "wire_ok sid token (typed @ keys_taken F ev x)
    (if link_opens ev x then Some [] else map_option (\<lambda>w. w @ bytes_written F ev x) sent) (cs_client (cli_step F ev x))"
proof -
  have nil: "map_option (\<lambda>w. w) sent = sent" by (cases sent) simp_all
  show ?thesis
  proof (cases "cs_phase x")
    case (Connecting d)
    show ?thesis
    proof (cases "cl_hungup (cs_client x)")
      case True
      then have "keys_taken F ev x = []" "bytes_written F ev x = []" "\<not> link_opens ev x"
        by (auto simp: keys_taken_def bytes_written_def link_opens_def Connecting split: cli_event.split option.split bool.split)
      with True assms(1) Connecting show ?thesis by (simp add: cli_step_def cli_break_def Let_def nil)
    next
      case False
      with wire_connecting [OF assms Connecting False, of F ev] Connecting show ?thesis by (simp add: cli_step_def)
    qed
  next
    case (Attached prev)
    then have "\<not> link_opens ev x" by (simp add: link_opens_def)
    with wire_attached [OF assms Attached, of F ev] Attached show ?thesis by (simp add: cli_step_def)
  next
    case (Exited r)
    with assms(1) show ?thesis by (simp add: cli_step_def keys_taken_def bytes_written_def link_opens_def nil)
  qed
qed

lemma cli_log_grows: "\<exists>more. fst (cli_log F evs x (typed, sent)) = typed @ more"
proof (induction evs arbitrary: x typed sent)
  case (Cons ev evs)
  from Cons [of "cli_step F ev x" "typed @ keys_taken F ev x"] show ?case by auto
qed simp

lemma wire_run:
  assumes "wire_ok sid token typed sent (cs_client x)" "cli_log F evs x (typed, sent) = (typed', sent')" "length typed' < 2 ^ 64"
  shows "wire_ok sid token typed' sent' (cs_client (cli_run F evs x))"
  using assms(1,2)
proof (induction evs arbitrary: x typed sent)
  case (Cons ev evs)
  have "length typed < 2 ^ 64" using cli_log_grows [of F "ev # evs" x typed sent] Cons.prems(2) assms(3) by auto
  from Cons.IH [OF wire_cli_step [OF Cons.prems(1) this]] Cons.prems(2) show ?case by (simp add: cli_run_def)
qed (simp add: cli_run_def)

section \<open>Property\<close>

text \<open>C30: What is typed gets into the connection, in one piece and once. In every run of the program, over any number
  of connections, failures and partial writes: the chunks it took from the keyboard are numbered in
  order from 1, and what its client holds for sending is an end of that list. And what the current
  connection has been given, followed by what is about to be written, is the hello of the session
  and then whole frames, of which an input carries a chunk that was taken under the number of its place.\<close>

theorem keys_reach_connection:
  assumes "cli_log F evs (cli_start F sid token cols rows never title tty o0) ([], None) = (typed, sent)" "length typed < 2 ^ 64"
  shows "let c = cs_client (cli_run F evs (cli_start F sid token cols rows never title tty o0)) in
    cl_seq c = of_nat (length typed) \<and>
    (\<exists>k \<le> length typed. cl_unacked c = numbered_from typed k (length typed)) \<and>
    (\<forall>w. sent = Some w \<longrightarrow> (\<exists>cols rows fs. list_all (typed_frame typed) fs \<and>
       w @ client_outbound c = hello_of sid token cols rows @ concat fs))"
proof -
  have "cs_client (cli_start F sid token cols rows never title tty o0) = client_new F sid token cols rows never"
    by (simp add: cli_start_def Let_def split: sum.split prod.split)
  then have "wire_ok sid token [] None (cs_client (cli_start F sid token cols rows never title tty o0))"
    by (simp add: wire_ok_def named_def client_ok_def link_ok_def client_new_def numbered_from_def)
  from wire_run [OF this assms] show ?thesis by (auto simp: wire_ok_def client_ok_def link_ok_def Let_def)
qed

text \<open>A chunk typed before there is a connection, and the first bytes of its hello.\<close>

definition keys_evs :: "cli_event list" where
  "keys_evs = [Run_Keys (Some [97]) 4, Connected True True 5, Iterate 6 (Sent_Data 3)]"

theorem keys_reach_connection_witness:
  "cl_seq (cs_client (cli_run client_lib_ex keys_evs start_ex)) = 1"
proof -
  have s: "cs_phase start_ex = Connecting False" "\<not> cl_hungup (cs_client start_ex)" "can_accept_input (cs_client start_ex)"
    by (simp_all add: cli_start_def push_title_def paint_title_def emit_title_def put_bytes_def out_ex_def
        painter_new_def client_new_def can_accept_input_def unacked_bytes_def UNACKED_CAP_def Let_def)
  have "keys_taken client_lib_ex (Run_Keys (Some [97]) 4) start_ex = [[97]]" using s by (simp add: keys_taken_def)
  moreover have "keys_taken client_lib_ex (Connected True True 5) x = []"
    "keys_taken client_lib_ex (Iterate 6 (Sent_Data 3)) x = []" for x :: "(cframe, unit) cli"
    by (auto simp: keys_taken_def split: phase.split prod.split)
  ultimately obtain sent where "cli_log client_lib_ex keys_evs start_ex ([], None) = ([[97]], sent)"
    by (simp add: keys_evs_def)
  from keys_reach_connection [OF this] show ?thesis by (simp add: Let_def)
qed

end
