(* ===== verification/Cert_Files.thy ===== *)
theory Cert_Files
  imports Connect_Line "HOL-Library.Signed_Division"
begin

text \<open>
  The directory of the server's identity (\<open>crates/quosh-trust/src/lib.rs\<close>): the names of its files,
  \<open>write_atomic\<close>, the numbers written in them, and the system calls. A directory maps names to
  contents. What a call answers is a parameter, indexed by the number of the call.
\<close>

section \<open>Signed integers\<close>

text \<open>An \<open>i64\<close> is an integer in its range; arithmetic wraps.\<close>

type_synonym i64 = int

definition wrap64 :: "int \<Rightarrow> i64" where
  "wrap64 x = (x + 2 ^ 63) mod 2 ^ 64 - 2 ^ 63"

definition in_i64 :: "int \<Rightarrow> bool" where
  "in_i64 x \<longleftrightarrow> - (2 ^ 63) \<le> x \<and> x < 2 ^ 63"

lemma wrap64_id: "in_i64 x \<Longrightarrow> wrap64 x = x"
  by (simp add: wrap64_def in_i64_def)

lemma wrap64_range: "in_i64 (wrap64 x)"
proof -
  have "0 \<le> (x + 2 ^ 63) mod 2 ^ 64" "(x + 2 ^ 63) mod 2 ^ 64 < 2 ^ 64" by simp_all
  then show ?thesis unfolding wrap64_def in_i64_def by simp
qed

text \<open>\<open>to_string\<close> and \<open>parse\<close>.\<close>

definition int_digits :: "int \<Rightarrow> rstr" where
  "int_digits x = (if x < 0 then 45 # dec_digits (nat (- x)) else dec_digits (nat x))"

definition parse_i64 :: "rstr \<Rightarrow> int option" where
  "parse_i64 s = (case s of
       [] \<Rightarrow> None
     | b # ds \<Rightarrow>
         if b = 45 then
           (if ds = [] \<or> \<not> list_all is_digit ds \<or> digits_val ds > 2 ^ 63 then None else Some (- int (digits_val ds)))
         else map_option int (parse_uint (2 ^ 63) s))"

lemma dec_digits_hd: "hd (dec_digits n) \<noteq> 45" "hd (dec_digits n) \<noteq> 43"
  using dec_digits_digits [of n] by (cases "dec_digits n"; auto simp: is_digit_def word_le_nat_alt)+

lemma parse_i64_digits: "in_i64 x \<Longrightarrow> parse_i64 (int_digits x) = Some x"
proof (cases "x < 0")
  case True
  moreover assume "in_i64 x"
  ultimately show ?thesis
    using dec_digits_digits [of "nat (- x)"] dec_digits_val [of "nat (- x)"]
    by (simp add: parse_i64_def int_digits_def in_i64_def)
next
  case False
  moreover assume "in_i64 x"
  ultimately have "nat x < 2 ^ 63" by (simp add: in_i64_def)
  with parse_uint_dec_digits [OF this] False dec_digits_hd(1) [of "nat x"] show ?thesis
    by (cases "dec_digits (nat x)") (simp_all add: parse_i64_def int_digits_def)
qed

lemma int_digits_trim: "str_trim (int_digits x) = int_digits x"
proof -
  have d: "list_all graph_byte (dec_digits n)" for n
    using dec_digits_digits [of n] by (auto simp: list_all_iff intro: is_digit_graph)
  then have "list_all graph_byte (int_digits x)" by (simp add: int_digits_def graph_byte_def)
  moreover have "int_digits x \<noteq> []" by (simp add: int_digits_def)
  ultimately show ?thesis using trim_graph [of "int_digits x" "[]" "[]"]
    by (auto simp: list_all_iff graph_byte_ascii(1))
qed

section \<open>Names\<close>

definition strip_suffix :: "rstr \<Rightarrow> rstr \<Rightarrow> rstr option" where
  "strip_suffix p s =
     (if length p \<le> length s \<and> drop (length s - length p) s = p then Some (take (length s - length p) s) else None)"

definition IDENTITY :: rstr where "IDENTITY = lit ''identity.pem''"
definition LEGACY_KEY :: rstr where "LEGACY_KEY = lit ''key.pem''"
definition ANCHOR :: rstr where "ANCHOR = lit ''chain-anchor''"

definition pad8 :: "nat \<Rightarrow> rstr" where
  "pad8 n = (let d = dec_digits n in replicate (8 - length d) 48 @ d)"

definition cert_name :: "nat \<Rightarrow> rstr" where
  "cert_name epoch = lit ''cert-'' @ pad8 epoch @ lit ''.der''"

text \<open>The number in the name of a directory entry, which need not be valid UTF-8.\<close>

definition cert_number :: "bytes \<Rightarrow> nat option" where
  "cert_number name = (case strip_prefix (lit ''cert-'') (utf8_lossy name) of
       None \<Rightarrow> None
     | Some r \<Rightarrow> (case strip_suffix (lit ''.der'') r of
         None \<Rightarrow> None
       | Some n \<Rightarrow> parse_uint (2 ^ 64) n))"

text \<open>\<open>Path::with_extension\<close> on a file name: what follows the last dot is replaced, unless the only dot
  is the first character.\<close>

definition file_stem :: "bytes \<Rightarrow> bytes" where
  "file_stem name = (let rest = dropWhile (\<lambda>b. b \<noteq> 46) (rev name) in
     if rest = [] \<or> tl rest = [] then name else rev (tl rest))"

definition tmp_name :: "bytes \<Rightarrow> bytes" where
  "tmp_name name = file_stem name @ lit ''.tmp''"

section \<open>Files\<close>

type_synonym files = "bytes \<Rightarrow> bytes option"

text \<open>How a write ends: whole, or with an error when the temporary file is created, after some of the
  data, or when it is renamed. A crash leaves the directory as the error at the same place does.\<close>

datatype write_end = Whole | Fails_Create bool | Fails_Data nat | Fails_Rename

datatype trust_error =
    Dir_Failed
  | Key_Rejected
  | Key_Failed
  | Write_Failed bytes
  | Time_Rejected
  | Sign_Failed

definition write_atomic :: "write_end \<Rightarrow> bytes \<Rightarrow> bytes \<Rightarrow> files \<Rightarrow> (trust_error + unit) \<times> files" where
  "write_atomic e path data d = (let tmp = tmp_name path in
     case e of
       Fails_Create removed \<Rightarrow> (Inl (Write_Failed path), if removed then d(tmp := None) else d)
     | Fails_Data n \<Rightarrow> (Inl (Write_Failed path), d(tmp := Some (take n data)))
     | Fails_Rename \<Rightarrow> (Inl (Write_Failed path), d(tmp := Some data))
     | Whole \<Rightarrow> (Inr (), d(tmp := None, path := Some data)))"

text \<open>Whatever happens, the file holds what it held or all of the new data, and no other file but the
  temporary one changes.\<close>

lemma write_atomic_whole:
  assumes "write_atomic e path data d = (r, d')"
  shows "r = Inr () \<Longrightarrow> d' path = Some data"
    and "path \<noteq> tmp_name path \<Longrightarrow> d' path = d path \<or> d' path = Some data"
    and "name \<noteq> path \<Longrightarrow> name \<noteq> tmp_name path \<Longrightarrow> d' name = d name"
    and "r = Inl err \<Longrightarrow> path \<noteq> tmp_name path \<Longrightarrow> d' path = d path"
  using assms by (auto simp: write_atomic_def Let_def split: write_end.splits if_splits)

section \<open>The names are apart\<close>

lemma digits_val_pad: "digits_val (replicate n 48 @ d) = digits_val d"
  by (induction n) (simp_all add: digits_val_def)

lemma pad8_val [simp]: "digits_val (pad8 k) = k"
  by (simp add: pad8_def Let_def digits_val_pad dec_digits_val)

lemma pad8_digits: "list_all is_digit (pad8 k)"
  using dec_digits_digits [of k] by (auto simp: pad8_def Let_def list_all_iff is_digit_def)

lemma pad8_not_Nil [simp]: "pad8 k \<noteq> []"
  by (simp add: pad8_def Let_def)

lemma cert_name_inj [simp]: "cert_name k = cert_name j \<longleftrightarrow> k = j"
proof
  assume "cert_name k = cert_name j"
  then have "pad8 k = pad8 j" by (simp add: cert_name_def)
  then have "digits_val (pad8 k) = digits_val (pad8 j)" by simp
  then show "k = j" by simp
qed simp

lemma lits: "lit ''cert-'' = [99, 101, 114, 116, 45]" "lit ''.der'' = [46, 100, 101, 114]" "lit ''.tmp'' = [46, 116, 109, 112]"
  "IDENTITY = [105, 100, 101, 110, 116, 105, 116, 121, 46, 112, 101, 109]" "LEGACY_KEY = [107, 101, 121, 46, 112, 101, 109]"
  "ANCHOR = [99, 104, 97, 105, 110, 45, 97, 110, 99, 104, 111, 114]"
  by (simp_all add: lit_def of_char_def IDENTITY_def LEGACY_KEY_def ANCHOR_def)

lemma file_stem_dot:
  assumes "46 \<notin> set ext" "b \<noteq> []"
  shows "file_stem (b @ 46 # ext) = b"
proof -
  have "dropWhile (\<lambda>b. b \<noteq> 46) (rev ext @ 46 # rev b) = 46 # rev b"
    using assms(1) by (subst dropWhile_append2) auto
  then show ?thesis using assms(2) by (simp add: file_stem_def Let_def)
qed

lemma tmp_names:
  "tmp_name (cert_name k) = lit ''cert-'' @ pad8 k @ lit ''.tmp''"
  "tmp_name IDENTITY = lit ''identity.tmp''" "tmp_name ANCHOR = lit ''chain-anchor.tmp''"
proof -
  have "file_stem (cert_name k) = lit ''cert-'' @ pad8 k"
    using file_stem_dot [of "[100, 101, 114]" "lit ''cert-'' @ pad8 k"] by (simp add: cert_name_def lits)
  then show "tmp_name (cert_name k) = lit ''cert-'' @ pad8 k @ lit ''.tmp''" by (simp add: tmp_name_def)
  show "tmp_name IDENTITY = lit ''identity.tmp''"
    by (simp add: tmp_name_def file_stem_def Let_def IDENTITY_def lit_def of_char_def)
  show "tmp_name ANCHOR = lit ''chain-anchor.tmp''"
    by (simp add: tmp_name_def file_stem_def Let_def ANCHOR_def lit_def of_char_def)
qed

lemma names_apart [simp]:
  "tmp_name (cert_name k) \<noteq> cert_name j" "cert_name j \<noteq> tmp_name (cert_name k)"
  "cert_name k \<noteq> IDENTITY" "cert_name k \<noteq> LEGACY_KEY" "cert_name k \<noteq> ANCHOR"
  "tmp_name (cert_name k) \<noteq> IDENTITY" "tmp_name (cert_name k) \<noteq> ANCHOR"
  "tmp_name IDENTITY \<noteq> cert_name k" "tmp_name ANCHOR \<noteq> cert_name k"
  "tmp_name IDENTITY \<noteq> ANCHOR" "tmp_name ANCHOR \<noteq> IDENTITY" "tmp_name ANCHOR \<noteq> ANCHOR" "tmp_name IDENTITY \<noteq> IDENTITY"
  "IDENTITY \<noteq> ANCHOR" "LEGACY_KEY \<noteq> ANCHOR" "LEGACY_KEY \<noteq> IDENTITY"
proof -
  have "last (tmp_name (cert_name k)) \<noteq> last (cert_name j)"
    by (simp add: tmp_names) (simp add: cert_name_def lits)
  then show "tmp_name (cert_name k) \<noteq> cert_name j" "cert_name j \<noteq> tmp_name (cert_name k)" by metis+
  show "cert_name k \<noteq> IDENTITY" "cert_name k \<noteq> LEGACY_KEY" "cert_name k \<noteq> ANCHOR"
    "tmp_name (cert_name k) \<noteq> IDENTITY" "tmp_name (cert_name k) \<noteq> ANCHOR"
    by (simp_all add: tmp_names) (simp_all add: cert_name_def lits)
  show "tmp_name IDENTITY \<noteq> cert_name k" "tmp_name ANCHOR \<noteq> cert_name k"
    by (simp_all add: tmp_names) (simp_all add: cert_name_def lits lit_def of_char_def)
  show "tmp_name IDENTITY \<noteq> ANCHOR" "tmp_name ANCHOR \<noteq> IDENTITY" "tmp_name ANCHOR \<noteq> ANCHOR" "tmp_name IDENTITY \<noteq> IDENTITY"
    "IDENTITY \<noteq> ANCHOR" "LEGACY_KEY \<noteq> ANCHOR" "LEGACY_KEY \<noteq> IDENTITY"
    by (simp_all add: tmp_names) (simp_all add: lits lit_def of_char_def)
qed

lemmas names_apart_sym [simp] = names_apart(3-) [symmetric]

lemma cert_number_name:
  assumes "k < 2 ^ 64"
  shows "cert_number (cert_name k) = Some k"
proof -
  have "list_all (\<lambda>b. b < 0x80) (cert_name k)"
    using pad8_digits [of k] graph_byte_ascii(1) [OF is_digit_graph]
    by (auto simp: cert_name_def lits list_all_iff)
  then have "utf8_lossy (cert_name k) = cert_name k" by (simp add: utf8_lossy_valid utf8_ascii(1))
  moreover have "parse_uint (2 ^ 64) (pad8 k) = Some k"
  proof (cases "pad8 k")
    case (Cons b r)
    then have "b \<noteq> 43" using pad8_digits [of k] by (auto simp: is_digit_def word_le_nat_alt)
    with Cons assms pad8_digits [of k] pad8_val [of k] show ?thesis by (simp add: parse_uint_def Let_def)
  qed simp
  ultimately show ?thesis
    by (simp add: cert_number_def strip_prefix_def strip_suffix_def cert_name_def lits)
qed

end
