(* ===== verification/Cert_Chain.thy ===== *)
theory Cert_Chain
  imports Cert_Files
begin

text \<open>
  The server's identity and its rotating certificates (\<open>crates/quosh-trust/src/lib.rs\<close>): one key, and
  for each epoch of 13 days a certificate signed by it that is valid for 14. Certificates are kept in
  files and in a cache; the record \<open>chain\<close> is what a running server holds, \<open>world\<close> the directory and
  the number of system calls so far. Keys, signing, hashing and the answers of the system are
  parameters. Integer overflow wraps, as it does in a release build.
\<close>

definition STRIDE :: i64 where "STRIDE = 13 * 86400"
definition VALIDITY :: i64 where "VALIDITY = 14 * 86400"
definition SLACK :: i64 where "SLACK = 5 * 60"

section \<open>The system and the libraries\<close>

record 'k trust_lib =
  tl_clock :: "nat \<Rightarrow> i64"
  tl_mkdir :: "nat \<Rightarrow> bool"
  tl_reads :: "nat \<Rightarrow> bool"
  tl_write :: "nat \<Rightarrow> write_end"
  tl_renames :: "nat \<Rightarrow> bool"
  tl_removes :: "nat \<Rightarrow> bytes \<Rightarrow> bool"
  tl_from_pem :: "rstr \<Rightarrow> 'k option"
  tl_generate :: "nat \<Rightarrow> 'k option"
  tl_pem :: "'k \<Rightarrow> rstr"
  tl_loads :: "'k \<Rightarrow> bool"
  tl_timestamp :: "i64 \<Rightarrow> bool"
  tl_sign :: "'k \<Rightarrow> i64 \<Rightarrow> i64 \<Rightarrow> nat \<Rightarrow> bytes option"
  tl_sha256 :: "bytes \<Rightarrow> bytes"

record world =
  wd_files :: files
  wd_calls :: nat

definition called :: "world \<Rightarrow> world" where
  "called w = w\<lparr>wd_calls := Suc (wd_calls w)\<rparr>"

definition now_unix :: "('k, 'z) trust_lib_scheme \<Rightarrow> world \<Rightarrow> i64 \<times> world" where
  "now_unix F w = (tl_clock F (wd_calls w), called w)"

definition fs_read :: "('k, 'z) trust_lib_scheme \<Rightarrow> bytes \<Rightarrow> world \<Rightarrow> bytes option \<times> world" where
  "fs_read F path w = (if tl_reads F (wd_calls w) then wd_files w path else None, called w)"

definition fs_read_string :: "('k, 'z) trust_lib_scheme \<Rightarrow> bytes \<Rightarrow> world \<Rightarrow> rstr option \<times> world" where
  "fs_read_string F path w = (case fs_read F path w of (r, w1) \<Rightarrow> (Option.bind r from_utf8, w1))"

definition fs_write :: "('k, 'z) trust_lib_scheme \<Rightarrow> bytes \<Rightarrow> bytes \<Rightarrow> world \<Rightarrow> (trust_error + unit) \<times> world" where
  "fs_write F path data w = (case write_atomic (tl_write F (wd_calls w)) path data (wd_files w) of
     (r, d) \<Rightarrow> (r, called (w\<lparr>wd_files := d\<rparr>)))"

section \<open>The identity\<close>

definition migrate_legacy_key :: "('k, 'z) trust_lib_scheme \<Rightarrow> world \<Rightarrow> world" where
  "migrate_legacy_key F w =
     (if wd_files w IDENTITY = None \<and> wd_files w LEGACY_KEY \<noteq> None \<and> tl_renames F (wd_calls w)
      then called (w\<lparr>wd_files := (wd_files w)(IDENTITY := wd_files w LEGACY_KEY, LEGACY_KEY := None)\<rparr>)
      else called w)"

definition load_or_generate_key :: "('k, 'z) trust_lib_scheme \<Rightarrow> world \<Rightarrow> (trust_error + 'k) \<times> world" where
  "load_or_generate_key F w = (case fs_read_string F IDENTITY w of
       (Some pem, w1) \<Rightarrow> (ok_or (tl_from_pem F pem) Key_Rejected, w1)
     | (None, w1) \<Rightarrow> (case tl_generate F (wd_calls w1) of
           None \<Rightarrow> (Inl Key_Failed, called w1)
         | Some key \<Rightarrow> (case fs_write F IDENTITY (tl_pem F key) (called w1) of
               (Inl e, w2) \<Rightarrow> (Inl e, w2)
             | (Inr _, w2) \<Rightarrow> (Inr key, w2))))"

definition load_or_create_anchor :: "('k, 'z) trust_lib_scheme \<Rightarrow> world \<Rightarrow> (trust_error + i64) \<times> world" where
  "load_or_create_anchor F w = (case fs_read_string F ANCHOR w of (s, w1) \<Rightarrow>
     (case Option.bind s (\<lambda>s. parse_i64 (str_trim s)) of
        Some v \<Rightarrow> (Inr v, w1)
      | None \<Rightarrow> (case now_unix F w1 of (now, w2) \<Rightarrow>
          (case fs_write F ANCHOR (int_digits now) w2 of
             (Inl e, w3) \<Rightarrow> (Inl e, w3)
           | (Inr _, w3) \<Rightarrow> (Inr now, w3)))))"

section \<open>The chain\<close>

record entry =
  en_cert :: bytes
  en_hash :: bytes

record 'k chain =
  ch_key :: 'k
  ch_anchor :: i64
  ch_len :: nat
  ch_entries :: "nat \<Rightarrow> entry option"

text \<open>\<open>epoch_at\<close> and \<open>window\<close>; the argument \<open>a\<close> is \<open>self.anchor\<close>.\<close>

definition epoch_at :: "i64 \<Rightarrow> i64 \<Rightarrow> nat" where
  "epoch_at a now = (if now \<le> a then 0 else nat ((wrap64 (now - a) sdiv STRIDE) mod 2 ^ 64))"

definition cert_window :: "i64 \<Rightarrow> nat \<Rightarrow> i64 \<times> i64" where
  "cert_window a epoch =
     (let start = wrap64 (wrap64 (a + wrap64 (wrap64 (int epoch) * STRIDE)) - SLACK) in (start, wrap64 (start + VALIDITY)))"

definition prune :: "('k, 'z) trust_lib_scheme \<Rightarrow> nat \<Rightarrow> world \<Rightarrow> world" where
  "prune F keep_from w = called (w\<lparr>wd_files := (\<lambda>name.
     if (case cert_number name of None \<Rightarrow> False | Some k \<Rightarrow> (k + 1) mod 2 ^ 64 < keep_from) \<and> tl_removes F (wd_calls w) name
     then None else wd_files w name)\<rparr>)"

definition load_or_generate_cert ::
  "('k, 'z) trust_lib_scheme \<Rightarrow> 'k chain \<Rightarrow> nat \<Rightarrow> i64 \<Rightarrow> i64 \<Rightarrow> world \<Rightarrow> (trust_error + bytes) \<times> world" where
  "load_or_generate_cert F c epoch not_before not_after w = (case fs_read F (cert_name epoch) w of
       (Some bs, w1) \<Rightarrow> (Inr bs, w1)
     | (None, w1) \<Rightarrow>
         if \<not> tl_timestamp F not_before \<or> \<not> tl_timestamp F not_after then (Inl Time_Rejected, w1)
         else (case tl_sign F (ch_key c) not_before not_after (wd_calls w1) of
             None \<Rightarrow> (Inl Sign_Failed, called w1)
           | Some der \<Rightarrow> (case fs_write F (cert_name epoch) der (called w1) of
                 (Inl e, w2) \<Rightarrow> (Inl e, w2)
               | (Inr _, w2) \<Rightarrow> (case now_unix F w2 of (now, w3) \<Rightarrow> (Inr der, prune F (epoch_at (ch_anchor c) now) w3)))))"

definition entry_of ::
  "('k, 'z) trust_lib_scheme \<Rightarrow> nat \<Rightarrow> 'k chain \<Rightarrow> world \<Rightarrow> (trust_error + entry) \<times> 'k chain \<times> world" where
  "entry_of F epoch c w = (case ch_entries c epoch of
       Some e \<Rightarrow> (Inr e, c, w)
     | None \<Rightarrow> (case cert_window (ch_anchor c) epoch of (not_before, not_after) \<Rightarrow>
         (case load_or_generate_cert F c epoch not_before not_after w of
            (Inl er, w1) \<Rightarrow> (Inl er, c, w1)
          | (Inr der, w1) \<Rightarrow> (let e = \<lparr>en_cert = der, en_hash = tl_sha256 F der\<rparr> in
              (Inr e, c\<lparr>ch_entries := (ch_entries c)(epoch := Some e)\<rparr>, w1)))))"

text \<open>A loop over epochs that stops at the first error.\<close>

fun entries_of ::
  "('k, 'z) trust_lib_scheme \<Rightarrow> nat list \<Rightarrow> 'k chain \<Rightarrow> world \<Rightarrow> (trust_error + entry list) \<times> 'k chain \<times> world" where
  "entries_of F [] c w = (Inr [], c, w)"
| "entries_of F (k # ks) c w = (case entry_of F k c w of
       (Inl er, c1, w1) \<Rightarrow> (Inl er, c1, w1)
     | (Inr e, c1, w1) \<Rightarrow> (case entries_of F ks c1 w1 of
           (Inl er, c2, w2) \<Rightarrow> (Inl er, c2, w2)
         | (Inr es, c2, w2) \<Rightarrow> (Inr (e # es), c2, w2)))"

definition epochs :: "nat \<Rightarrow> nat \<Rightarrow> nat list" where
  "epochs base n = [base ..< (base + n) mod 2 ^ 64]"

definition chain_load :: "('k, 'z) trust_lib_scheme \<Rightarrow> nat \<Rightarrow> world \<Rightarrow> (trust_error + 'k chain) \<times> world" where
  "chain_load F n w =
     (if \<not> tl_mkdir F (wd_calls w) then (Inl Dir_Failed, called w)
      else let len = max 1 (min 64 n) in
        case load_or_generate_key F (migrate_legacy_key F (called w)) of
          (Inl e, w1) \<Rightarrow> (Inl e, w1)
        | (Inr key, w1) \<Rightarrow>
            if \<not> tl_loads F key then (Inl Key_Failed, w1)
            else (case load_or_create_anchor F w1 of
                (Inl e, w2) \<Rightarrow> (Inl e, w2)
              | (Inr anchor, w2) \<Rightarrow> (case now_unix F w2 of (now, w3) \<Rightarrow>
                  (case entries_of F (epochs (epoch_at anchor now) len)
                      \<lparr>ch_key = key, ch_anchor = anchor, ch_len = len, ch_entries = (\<lambda>_. None)\<rparr> w3 of
                     (Inl e, c, w4) \<Rightarrow> (Inl e, w4)
                   | (Inr _, c, w4) \<Rightarrow> (Inr c, w4)))))"

definition chain_entry_now :: "('k, 'z) trust_lib_scheme \<Rightarrow> 'k chain \<Rightarrow> world \<Rightarrow> (trust_error + entry) \<times> 'k chain \<times> world" where
  "chain_entry_now F c w = (case now_unix F w of (now, w1) \<Rightarrow> entry_of F (epoch_at (ch_anchor c) now) c w1)"

definition chain_current :: "('k, 'z) trust_lib_scheme \<Rightarrow> 'k chain \<Rightarrow> world \<Rightarrow> (trust_error + bytes) \<times> 'k chain \<times> world" where
  "chain_current F c w = (case chain_entry_now F c w of (r, x) \<Rightarrow> (map_sum id en_cert r, x))"

definition current_hash :: "('k, 'z) trust_lib_scheme \<Rightarrow> 'k chain \<Rightarrow> world \<Rightarrow> (trust_error + bytes) \<times> 'k chain \<times> world" where
  "current_hash F c w = (case chain_entry_now F c w of (r, x) \<Rightarrow> (map_sum id en_hash r, x))"

definition forward_hashes ::
  "('k, 'z) trust_lib_scheme \<Rightarrow> 'k chain \<Rightarrow> world \<Rightarrow> (trust_error + bytes list) \<times> 'k chain \<times> world" where
  "forward_hashes F c w = (case now_unix F w of (now, w1) \<Rightarrow>
     (case entries_of F (epochs (epoch_at (ch_anchor c) now) (ch_len c)) c w1 of (r, x) \<Rightarrow> (map_sum id (map en_hash) r, x)))"

text \<open>\<open>resolve\<close>: the certificate of a handshake, none after an error.\<close>

definition resolve :: "('k, 'z) trust_lib_scheme \<Rightarrow> 'k chain \<Rightarrow> world \<Rightarrow> bytes option \<times> 'k chain \<times> world" where
  "resolve F c w = (case chain_current F c w of (r, x) \<Rightarrow> ((case r of Inl _ \<Rightarrow> None | Inr der \<Rightarrow> Some der), x))"

section \<open>The life of a server\<close>

text \<open>A server starts (\<open>Load\<close>), stops, at any moment, and answers in between. An answer is recorded with the
  time at which its operation began.\<close>

record 'k trust =
  tr_chain :: "'k chain option"
  tr_world :: world

datatype trust_op = Load nat | Stop | Handshake | Ask_Hash | Ask_Forward

datatype trust_out = Served bytes | Hash bytes | Pins "bytes list" | Silent

definition trust_step :: "('k, 'z) trust_lib_scheme \<Rightarrow> trust_op \<Rightarrow> 'k trust \<Rightarrow> trust_out \<times> 'k trust" where
  "trust_step F op s = (case op of
       Load n \<Rightarrow> (case chain_load F n (tr_world s) of
           (Inl e, w) \<Rightarrow> (Silent, \<lparr>tr_chain = None, tr_world = w\<rparr>)
         | (Inr c, w) \<Rightarrow> (Silent, \<lparr>tr_chain = Some c, tr_world = w\<rparr>))
     | Stop \<Rightarrow> (Silent, s\<lparr>tr_chain := None\<rparr>)
     | _ \<Rightarrow> (case tr_chain s of
           None \<Rightarrow> (Silent, s)
         | Some c \<Rightarrow> (case op of
               Handshake \<Rightarrow> (case resolve F c (tr_world s) of (r, c1, w) \<Rightarrow>
                 ((case r of None \<Rightarrow> Silent | Some der \<Rightarrow> Served der), \<lparr>tr_chain = Some c1, tr_world = w\<rparr>))
             | Ask_Hash \<Rightarrow> (case current_hash F c (tr_world s) of (r, c1, w) \<Rightarrow>
                 ((case r of Inl _ \<Rightarrow> Silent | Inr h \<Rightarrow> Hash h), \<lparr>tr_chain = Some c1, tr_world = w\<rparr>))
             | _ \<Rightarrow> (case forward_hashes F c (tr_world s) of (r, c1, w) \<Rightarrow>
                 ((case r of Inl _ \<Rightarrow> Silent | Inr hs \<Rightarrow> Pins hs), \<lparr>tr_chain = Some c1, tr_world = w\<rparr>)))))"

definition trust_now :: "('k, 'z) trust_lib_scheme \<Rightarrow> 'k trust \<Rightarrow> i64" where
  "trust_now F s = tl_clock F (wd_calls (tr_world s))"

fun trust_run :: "('k, 'z) trust_lib_scheme \<Rightarrow> trust_op list \<Rightarrow> 'k trust \<Rightarrow> (i64 \<times> trust_out) list \<times> 'k trust" where
  "trust_run F [] s = ([], s)"
| "trust_run F (op # ops) s = (case trust_step F op s of (out, s1) \<Rightarrow>
     (case trust_run F ops s1 of (outs, s2) \<Rightarrow> ((trust_now F s, out) # outs, s2)))"

end
