(* ===== verification/Cert_Props.thy ===== *)
theory Cert_Props
  imports Cert_Chain
begin

text \<open>
  What the certificate chain guarantees (\<open>crates/quosh-trust/src/lib.rs\<close>), over every life of a server:
  restarts, changes of the length of the window, failing writes and crashes. The clock does not run
  backwards and files that are there can be read; without the second the chain starts again beside
  the old certificates, which the last section shows.
\<close>

section \<open>A steady system\<close>

definition cert_laws :: "('k, 'z) trust_lib_scheme \<Rightarrow> (bytes \<Rightarrow> i64 \<times> i64) \<Rightarrow> bool" where
  "cert_laws F validity_of \<longleftrightarrow> (\<forall>key nb na n der. tl_sign F key nb na n = Some der \<longrightarrow> validity_of der = (nb, na))"

definition steady :: "('k, 'z) trust_lib_scheme \<Rightarrow> bool" where
  "steady F \<longleftrightarrow> mono (tl_clock F) \<and> (\<forall>n. 0 \<le> tl_clock F n \<and> tl_clock F n < 2 ^ 40) \<and> (\<forall>n. tl_reads F n)"

lemma steadyD:
  assumes "steady F"
  shows "m \<le> n \<Longrightarrow> tl_clock F m \<le> tl_clock F n" "0 \<le> tl_clock F n" "tl_clock F n < 2 ^ 40" "tl_reads F n"
  using assms by (auto simp: steady_def mono_def)

section \<open>Epochs\<close>

lemma epoch_at_small:
  assumes "0 \<le> a" "a \<le> t" "t < 2 ^ 40"
  shows "epoch_at a t = nat ((t - a) div STRIDE)"
proof (cases "t = a")
  case False
  have "0 \<le> (t - a) div STRIDE" using assms by (simp add: STRIDE_def pos_imp_zdiv_nonneg_iff)
  moreover have "(t - a) div STRIDE \<le> t - a" using zdiv_mono2 [of "t - a" 1 STRIDE] assms by (simp add: STRIDE_def)
  ultimately have "(t - a) div STRIDE mod 2 ^ 64 = (t - a) div STRIDE" using assms by simp
  moreover have "(t - a) sdiv STRIDE = (t - a) div STRIDE"
    using assms by (simp add: signed_divide_int_def STRIDE_def sgn_if)
  ultimately show ?thesis using assms False by (simp add: epoch_at_def wrap64_id in_i64_def)
qed (simp add: epoch_at_def)

lemma epoch_at_bounds:
  assumes "0 \<le> a" "a \<le> t" "t < 2 ^ 40"
  shows "int (epoch_at a t) * STRIDE \<le> t - a" "t - a < (int (epoch_at a t) + 1) * STRIDE" "epoch_at a t < 2 ^ 40"
proof -
  define q where "q = (t - a) div STRIDE"
  have S: "STRIDE = 1123200" by (simp add: STRIDE_def)
  have q: "0 \<le> q" "q * STRIDE \<le> t - a" "t - a < (q + 1) * STRIDE"
    using assms unfolding q_def S by (simp_all add: pos_imp_zdiv_nonneg_iff)
  note e = epoch_at_small [OF assms, folded q_def]
  show "int (epoch_at a t) * STRIDE \<le> t - a" "t - a < (int (epoch_at a t) + 1) * STRIDE"
    using q by (simp_all add: e)
  have "q < 2 ^ 40" using q(1,2) assms by (simp add: S)
  then show "epoch_at a t < 2 ^ 40" using q(1) by (simp add: e nat_less_iff)
qed

lemma epoch_at_mono: "0 \<le> a \<Longrightarrow> a \<le> t \<Longrightarrow> t \<le> u \<Longrightarrow> u < 2 ^ 40 \<Longrightarrow> epoch_at a t \<le> epoch_at a u"
  by (simp add: epoch_at_small STRIDE_def nat_mono zdiv_mono1)

text \<open>The window of the current epoch is around the current time.\<close>

lemma cert_window_now:
  assumes "0 \<le> a" "a \<le> t" "t < 2 ^ 40" "cert_window a (epoch_at a t) = (nb, na)"
  shows "nb \<le> t \<and> t < na \<and> na - nb = VALIDITY"
proof -
  define k where "k = int (epoch_at a t)"
  note b = epoch_at_bounds [OF assms(1-3), folded k_def]
  have k: "0 \<le> k" "k < 2 ^ 40" using b(3) by (simp_all add: k_def)
  have S: "STRIDE = 1123200" "SLACK = 300" "VALIDITY = 1209600" by (simp_all add: STRIDE_def SLACK_def VALIDITY_def)
  have "cert_window a (epoch_at a t) = (a + k * STRIDE - SLACK, a + k * STRIDE - SLACK + VALIDITY)"
    unfolding cert_window_def k_def [symmetric] using k assms(1-3) b
    by (simp add: S wrap64_id in_i64_def)
  with assms(4) b show ?thesis by (auto simp: S)
qed

section \<open>What stays on disk\<close>

text \<open>An epoch that is not served any more and may be pruned. The last number is left out, where the code's
  \<open>k + 1\<close> wraps.\<close>

definition obsolete :: "('k, 'z) trust_lib_scheme \<Rightarrow> i64 \<Rightarrow> nat \<Rightarrow> world \<Rightarrow> bool" where
  "obsolete F a k w \<longleftrightarrow> 2 ^ 64 \<le> k + 1 \<or> k + 1 < epoch_at a (tl_clock F (wd_calls w))"

definition on_disk :: "('k, 'z) trust_lib_scheme \<Rightarrow> i64 \<Rightarrow> nat \<Rightarrow> bytes \<Rightarrow> world \<Rightarrow> bool" where
  "on_disk F a k h w \<longleftrightarrow> obsolete F a k w \<or> (\<exists>der. wd_files w (cert_name k) = Some der \<and> tl_sha256 F der = h)"

definition disk_ok :: "('k, 'z) trust_lib_scheme \<Rightarrow> (bytes \<Rightarrow> i64 \<times> i64) \<Rightarrow> i64 \<Rightarrow> world \<Rightarrow> bool" where
  "disk_ok F validity_of a w \<longleftrightarrow> wd_files w ANCHOR = Some (int_digits a) \<and> 0 \<le> a \<and> a \<le> tl_clock F (wd_calls w) \<and>
     (\<forall>k der. wd_files w (cert_name k) = Some der \<longrightarrow> validity_of der = cert_window a k)"

text \<open>\<open>w'\<close> is later than \<open>w\<close>, with the anchor of \<open>w\<close>, certificates that fit it, and nothing needed lost.\<close>

definition later :: "('k, 'z) trust_lib_scheme \<Rightarrow> (bytes \<Rightarrow> i64 \<times> i64) \<Rightarrow> i64 \<Rightarrow> world \<Rightarrow> world \<Rightarrow> bool" where
  "later F validity_of a w w' \<longleftrightarrow> wd_calls w \<le> wd_calls w' \<and> wd_files w' ANCHOR = wd_files w ANCHOR \<and>
     (\<forall>k der. wd_files w' (cert_name k) = Some der \<longrightarrow> wd_files w (cert_name k) = Some der \<or> validity_of der = cert_window a k) \<and>
     (\<forall>k der. wd_files w (cert_name k) = Some der \<longrightarrow> obsolete F a k w' \<or> wd_files w' (cert_name k) = Some der)"

lemma obsolete_mono:
  assumes "steady F" "0 \<le> a" "a \<le> tl_clock F (wd_calls w)" "wd_calls w \<le> wd_calls w'" "obsolete F a k w"
  shows "obsolete F a k w'"
  using assms(5) epoch_at_mono [OF assms(2,3) steadyD(1) [OF assms(1,4)] steadyD(3) [OF assms(1)]]
  by (auto simp: obsolete_def)

lemma later_refl [simp]: "later F validity_of a w w"
  by (simp add: later_def)

lemma later_disk:
  assumes "steady F" "disk_ok F validity_of a w" "later F validity_of a w w'"
  shows "disk_ok F validity_of a w'" "on_disk F a k h w \<Longrightarrow> on_disk F a k h w'" "obsolete F a k w \<Longrightarrow> obsolete F a k w'"
proof -
  have c: "0 \<le> a" "a \<le> tl_clock F (wd_calls w)" "wd_calls w \<le> wd_calls w'" using assms by (simp_all add: disk_ok_def later_def)
  show "disk_ok F validity_of a w'"
    using assms(2,3) order_trans [OF c(2) steadyD(1) [OF assms(1) c(3)]] by (auto simp: disk_ok_def later_def)
  show o: "obsolete F a k w \<Longrightarrow> obsolete F a k w'" by (rule obsolete_mono [OF assms(1) c])
  show "on_disk F a k h w \<Longrightarrow> on_disk F a k h w'"
    using assms(3) o by (auto simp: on_disk_def later_def) blast
qed

lemma later_trans:
  assumes "steady F" "disk_ok F validity_of a w" "later F validity_of a w w1" "later F validity_of a w1 w2"
  shows "later F validity_of a w w2"
proof -
  note d = later_disk(1) [OF assms(1-3)]
  have "obsolete F a k w1 \<Longrightarrow> obsolete F a k w2" for k using later_disk(3) [OF assms(1) d assms(4)] .
  with assms(3,4) show ?thesis by (auto simp: later_def) blast+
qed

section \<open>The operations\<close>

lemma called_simps [simp]: "wd_files (called w) = wd_files w" "wd_calls (called w) = Suc (wd_calls w)"
  by (simp_all add: called_def)

lemma later_called [simp]: "later F validity_of a w (called w)"
  by (simp add: later_def)

text \<open>A write of another file than the anchor or a certificate.\<close>

lemma fs_write_spec:
  assumes "fs_write F path data w = (r, w')"
  shows "wd_calls w' = Suc (wd_calls w)"
    and "r = Inr () \<Longrightarrow> wd_files w' path = Some data"
    and "path \<noteq> tmp_name path \<Longrightarrow> wd_files w' path = wd_files w path \<or> wd_files w' path = Some data"
    and "name \<noteq> path \<Longrightarrow> name \<noteq> tmp_name path \<Longrightarrow> wd_files w' name = wd_files w name"
    and "r = Inl err \<Longrightarrow> path \<noteq> tmp_name path \<Longrightarrow> wd_files w' path = wd_files w path"
  using assms write_atomic_whole [of "tl_write F (wd_calls w)" path data "wd_files w"]
  by (auto simp: fs_write_def split: prod.splits)

text \<open>Reading the identity changes no certificate and no anchor.\<close>

definition same_certs :: "world \<Rightarrow> world \<Rightarrow> bool" where
  "same_certs w w' \<longleftrightarrow> wd_calls w \<le> wd_calls w' \<and> wd_files w' ANCHOR = wd_files w ANCHOR \<and>
     (\<forall>k. wd_files w' (cert_name k) = wd_files w (cert_name k))"

lemma same_certs_later: "same_certs w w' \<Longrightarrow> later F validity_of a w w'"
  by (simp add: same_certs_def later_def)

lemma same_certs_refl [simp]: "same_certs w w" "same_certs w (called w)"
  by (simp_all add: same_certs_def)

lemma same_certs_trans: "same_certs w w1 \<Longrightarrow> same_certs w1 w2 \<Longrightarrow> same_certs w w2"
  by (auto simp: same_certs_def)

lemma migrate_same [simp]: "same_certs w (migrate_legacy_key F w)"
  by (simp add: migrate_legacy_key_def same_certs_def)

lemma fs_read_simps [simp]:
  "fst (fs_read F path w) = (if tl_reads F (wd_calls w) then wd_files w path else None)" "snd (fs_read F path w) = called w"
  "snd (fs_read_string F path w) = called w"
  "fst (fs_read_string F path w) = Option.bind (if tl_reads F (wd_calls w) then wd_files w path else None) from_utf8"
  by (simp_all add: fs_read_def fs_read_string_def)

lemma load_key_same: "load_or_generate_key F w = (r, w') \<Longrightarrow> same_certs w w'"
proof -
  assume l: "load_or_generate_key F w = (r, w')"
  obtain x w1 where x: "fs_read_string F IDENTITY w = (x, w1)" by fastforce
  then have w1: "w1 = called w" by (metis fs_read_simps(3) snd_conv)
  have "same_certs (called w1) w2" if "fs_write F IDENTITY d (called w1) = (q, w2)" for d q w2
    using fs_write_spec(1) [OF that] fs_write_spec(4) [OF that] by (simp add: same_certs_def)
  with l show "same_certs w w'"
    by (auto simp: load_or_generate_key_def x w1 split: option.splits prod.splits sum.splits
        intro: same_certs_trans [OF same_certs_trans [OF same_certs_refl(2) same_certs_refl(2)]])
qed

text \<open>A directory without an anchor and without certificates.\<close>

definition fresh_dir :: "world \<Rightarrow> bool" where
  "fresh_dir w \<longleftrightarrow> wd_files w ANCHOR = None \<and> (\<forall>k. wd_files w (cert_name k) = None)"

lemma fresh_dir_same: "same_certs w w' \<Longrightarrow> fresh_dir w \<Longrightarrow> fresh_dir w'"
  by (simp add: same_certs_def fresh_dir_def)

lemma int_digits_utf8: "from_utf8 (int_digits a) = Some (int_digits a)"
proof -
  have "list_all is_digit (dec_digits n)" for n by (rule dec_digits_digits)
  then have "list_all (\<lambda>b. b < 0x80) (int_digits a)"
    using graph_byte_ascii(1) [OF is_digit_graph] by (auto simp: int_digits_def list_all_iff)
  then show ?thesis by (simp add: from_utf8_def utf8_ascii(1))
qed

lemma load_anchor_disk:
  assumes "steady F" "disk_ok F validity_of a w" "load_or_create_anchor F w = (r, w')"
  shows "r = Inr a" "same_certs w w'"
proof -
  have a: "in_i64 a" using assms(2) steadyD(2,3) [OF assms(1), of "wd_calls w"] by (simp add: disk_ok_def in_i64_def)
  obtain x w1 where x: "fs_read_string F ANCHOR w = (x, w1)" by fastforce
  have "w1 = called w" "x = Some (int_digits a)"
    using assms(2) steadyD(4) [OF assms(1)] arg_cong [OF x, of snd] arg_cong [OF x, of fst]
    by (simp_all add: disk_ok_def int_digits_utf8)
  with assms(3) x a show "r = Inr a" "same_certs w w'"
    by (auto simp: load_or_create_anchor_def int_digits_trim parse_i64_digits)
qed

lemma load_anchor_fresh:
  assumes "steady F" "fresh_dir w" "load_or_create_anchor F w = (r, w')"
  shows "r = Inr a \<Longrightarrow> disk_ok F validity_of a w'" "r = Inl e \<Longrightarrow> fresh_dir w'"
proof -
  have x: "fs_read_string F ANCHOR w = (None, called w)"
    by (rule prod_eqI) (use assms(2) in \<open>simp_all add: fresh_dir_def\<close>)
  let ?now = "tl_clock F (Suc (wd_calls w))"
  obtain q w3 where q: "fs_write F ANCHOR (int_digits ?now) (called (called w)) = (q, w3)" by fastforce
  have r: "w' = w3" "r = (case q of Inl e \<Rightarrow> Inl e | Inr _ \<Rightarrow> Inr ?now)"
    using assms(3) by (simp_all add: load_or_create_anchor_def x now_unix_def q split: sum.splits)
  note spec = fs_write_spec [OF q]
  have certs: "wd_files w3 (cert_name k) = None" for k using spec(4) assms(2) by (simp add: fresh_dir_def)
  show "r = Inr a \<Longrightarrow> disk_ok F validity_of a w'"
    using r spec(1,2) certs steadyD [OF assms(1)] by (auto simp: disk_ok_def split: sum.splits)
  show "r = Inl e \<Longrightarrow> fresh_dir w'"
    using r spec(5) certs assms(2) by (auto simp: fresh_dir_def split: sum.splits)
qed

lemma prune_spec:
  assumes "keep_from = epoch_at a (tl_clock F m)" "m \<le> wd_calls w" "steady F" "0 \<le> a" "a \<le> tl_clock F m"
  shows "wd_calls (prune F keep_from w) = Suc (wd_calls w)" "wd_files (prune F keep_from w) ANCHOR = wd_files w ANCHOR"
    and "wd_files (prune F keep_from w) (cert_name k) = wd_files w (cert_name k) \<or> obsolete F a k (prune F keep_from w) \<and>
      wd_files (prune F keep_from w) (cert_name k) = None"
proof -
  have "utf8_lossy ANCHOR = ANCHOR" by (simp add: lits utf8_lossy_valid)
  then have "cert_number ANCHOR = None" by (simp add: cert_number_def strip_prefix_def lits)
  then show "wd_calls (prune F keep_from w) = Suc (wd_calls w)" "wd_files (prune F keep_from w) ANCHOR = wd_files w ANCHOR"
    by (simp_all add: prune_def)
  have e: "keep_from \<le> epoch_at a (tl_clock F (Suc (wd_calls w)))"
    unfolding assms(1) using assms(2) by (intro epoch_at_mono assms(4,5) steadyD(1,3) [OF assms(3)]) simp
  show "wd_files (prune F keep_from w) (cert_name k) = wd_files w (cert_name k) \<or> obsolete F a k (prune F keep_from w) \<and>
      wd_files (prune F keep_from w) (cert_name k) = None"
  proof (cases "k + 1 < 2 ^ 64")
    case True
    with e show ?thesis by (auto simp: prune_def cert_number_name obsolete_def)
  next
    case False
    then show ?thesis by (auto simp: prune_def obsolete_def)
  qed
qed

lemma generate_cert_spec:
  assumes "cert_laws F validity_of" "steady F" "disk_ok F validity_of a w" "ch_anchor c = a"
    and "load_or_generate_cert F c k nb na w = (r, w')" "cert_window a k = (nb, na)"
  shows "later F validity_of a w w'"
    and "r = Inr der \<Longrightarrow> validity_of der = cert_window a k \<and> on_disk F a k (tl_sha256 F der) w'"
    and "wd_files w (cert_name k) = Some d \<Longrightarrow> r = Inr d \<and> w' = called w"
proof -
  have a: "0 \<le> a" "a \<le> tl_clock F n" if "wd_calls w \<le> n" for n
    using assms(3) steadyD(1) [OF assms(2) that] by (auto simp: disk_ok_def)
  define w1 where "w1 = called w"
  have x: "fs_read F (cert_name k) w = (wd_files w (cert_name k), w1)"
    by (rule prod_eqI) (simp_all add: steadyD(4) [OF assms(2)] w1_def)
  have "later F validity_of a w w' \<and> (\<forall>der. r = Inr der \<longrightarrow> validity_of der = cert_window a k \<and> on_disk F a k (tl_sha256 F der) w') \<and>
      (\<forall>d. wd_files w (cert_name k) = Some d \<longrightarrow> r = Inr d \<and> w' = called w)"
  proof (cases "wd_files w (cert_name k)")
    case (Some d)
    with assms(3,5) x show ?thesis by (auto simp: load_or_generate_cert_def disk_ok_def on_disk_def w1_def)
  next
    case new: None
    have lc: "later F validity_of a w (called (called w))" by (simp add: later_def)
    show ?thesis
    proof (cases "(tl_timestamp F nb \<and> tl_timestamp F na) \<and> tl_sign F (ch_key c) nb na (wd_calls w1) \<noteq> None")
      case False
      with assms(5) x new show ?thesis
        by (auto simp: load_or_generate_cert_def later_def w1_def split: if_splits option.splits)
    next
      case True
      then obtain der where s: "tl_sign F (ch_key c) nb na (wd_calls w1) = Some der" by blast
      with assms(1,6) have der: "validity_of der = cert_window a k" by (auto simp: cert_laws_def)
      obtain q w2 where q: "fs_write F (cert_name k) der (called w1) = (q, w2)" by fastforce
      note spec = fs_write_spec [OF q]
      have files: "wd_files w2 ANCHOR = wd_files w ANCHOR" "\<And>j. j \<noteq> k \<Longrightarrow> wd_files w2 (cert_name j) = wd_files w (cert_name j)"
        "wd_calls w2 = Suc (Suc (Suc (wd_calls w)))"
        "wd_files w2 (cert_name k) = None \<or> wd_files w2 (cert_name k) = Some der"
        using spec(1,3,4) new by (simp_all add: w1_def)
      have l2: "later F validity_of a w w2"
        using files der new by (auto simp: later_def) (metis option.distinct(1) option.inject)+
      show ?thesis
      proof (cases q)
        case (Inl e)
        with assms(5) x s True q new l2 show ?thesis by (simp add: load_or_generate_cert_def) blast
      next
        case (Inr u)
        let ?m = "wd_calls w2"
        let ?w3 = "prune F (epoch_at a (tl_clock F ?m)) (called w2)"
        have r: "r = Inr der" "w' = ?w3"
          using assms(4,5) new x s True q Inr by (auto simp: load_or_generate_cert_def now_unix_def)
        have p: "wd_calls ?w3 = Suc (Suc ?m)" "wd_files ?w3 ANCHOR = wd_files w2 ANCHOR"
          "wd_files ?w3 (cert_name j) = wd_files w2 (cert_name j) \<or> obsolete F a j ?w3 \<and> wd_files ?w3 (cert_name j) = None" for j
          using prune_spec(1,2) [where m = ?m and w = "called w2" and F = F and a = a, OF refl]
            prune_spec(3) [where m = ?m and w = "called w2" and F = F and a = a and k = j, OF refl] assms(2) a [of ?m] files(3) by simp_all
        have l3: "later F validity_of a w2 ?w3"
          unfolding later_def using p by (metis le_SucI option.distinct(1) order_refl)
        have "wd_files w2 (cert_name k) = Some der" using spec(2) Inr by simp
        then have "on_disk F a k (tl_sha256 F der) ?w3" using p(3) [of k] by (auto simp: on_disk_def)
        with r der new later_trans [OF assms(2,3) l2 l3] show ?thesis by simp
      qed
    qed
  qed
  then show "later F validity_of a w w'"
    "r = Inr der \<Longrightarrow> validity_of der = cert_window a k \<and> on_disk F a k (tl_sha256 F der) w'"
    "wd_files w (cert_name k) = Some d \<Longrightarrow> r = Inr d \<and> w' = called w" by simp_all
qed

section \<open>The cache\<close>

definition chain_ok :: "('k, 'z) trust_lib_scheme \<Rightarrow> (bytes \<Rightarrow> i64 \<times> i64) \<Rightarrow> i64 \<Rightarrow> 'k chain \<Rightarrow> world \<Rightarrow> bool" where
  "chain_ok F validity_of a c w \<longleftrightarrow> ch_anchor c = a \<and> 1 \<le> ch_len c \<and> ch_len c \<le> 64 \<and>
     (\<forall>k e. ch_entries c k = Some e \<longrightarrow> en_hash e = tl_sha256 F (en_cert e) \<and> validity_of (en_cert e) = cert_window a k \<and>
        on_disk F a k (tl_sha256 F (en_cert e)) w)"

text \<open>The hash \<open>h\<close> handed out for epoch \<open>k\<close> stays its hash, as long as the epoch is needed.\<close>

definition pinned :: "('k, 'z) trust_lib_scheme \<Rightarrow> i64 \<Rightarrow> nat \<Rightarrow> bytes \<Rightarrow> 'k chain option \<Rightarrow> world \<Rightarrow> bool" where
  "pinned F a k h c w \<longleftrightarrow> obsolete F a k w \<or>
     (\<exists>der. wd_files w (cert_name k) = Some der \<and> tl_sha256 F der = h) \<and>
     (\<forall>c' e. c = Some c' \<longrightarrow> ch_entries c' k = Some e \<longrightarrow> en_hash e = h)"

lemma chain_ok_later:
  "steady F \<Longrightarrow> disk_ok F validity_of a w \<Longrightarrow> later F validity_of a w w' \<Longrightarrow> chain_ok F validity_of a c w \<Longrightarrow> chain_ok F validity_of a c w'"
  by (auto simp: chain_ok_def intro: later_disk(2))

lemma pinned_later:
  "steady F \<Longrightarrow> disk_ok F validity_of a w \<Longrightarrow> later F validity_of a w w' \<Longrightarrow> pinned F a k h c w \<Longrightarrow> pinned F a k h c w'"
  using later_disk(3) [of F validity_of a w w' k] by (auto simp: pinned_def later_def) blast

lemma entry_of_spec:
  assumes "cert_laws F validity_of" "steady F" "disk_ok F validity_of a w" "chain_ok F validity_of a c w"
    and "entry_of F k c w = (r, c', w')"
  shows "later F validity_of a w w'" "chain_ok F validity_of a c' w'" "ch_len c' = ch_len c"
    and "r = Inr e \<Longrightarrow> ch_entries c' k = Some e" "ch_entries c j = Some e \<Longrightarrow> ch_entries c' j = Some e"
    and "pinned F a j h (Some c) w \<Longrightarrow> pinned F a j h (Some c') w'"
proof -
  have a: "ch_anchor c = a" using assms(4) by (simp add: chain_ok_def)
  obtain nb na where w: "cert_window a k = (nb, na)" by fastforce
  obtain q w1 where g: "load_or_generate_cert F c k nb na w = (q, w1)" by fastforce
  note spec = generate_cert_spec [OF assms(1-3) a g w]
  have "later F validity_of a w w' \<and> chain_ok F validity_of a c' w' \<and> ch_len c' = ch_len c \<and>
    (\<forall>e. r = Inr e \<longrightarrow> ch_entries c' k = Some e) \<and> (\<forall>j e. ch_entries c j = Some e \<longrightarrow> ch_entries c' j = Some e) \<and>
    (\<forall>j h. pinned F a j h (Some c) w \<longrightarrow> pinned F a j h (Some c') w')"
  proof (cases "ch_entries c k")
    case (Some e)
    with assms(4,5) show ?thesis by (auto simp: entry_of_def)
  next
    case None
    show ?thesis
    proof (cases q)
      case (Inl er)
      with None assms(5) a w g have "c' = c" "w' = w1" "r = Inl er" by (auto simp: entry_of_def)
      with spec(1) chain_ok_later [OF assms(2,3) spec(1) assms(4)] pinned_later [OF assms(2,3) spec(1)] show ?thesis by simp
    next
      case (Inr der)
      let ?e = "\<lparr>en_cert = der, en_hash = tl_sha256 F der\<rparr>"
      have r: "r = Inr ?e" "c' = c\<lparr>ch_entries := (ch_entries c)(k := Some ?e)\<rparr>" "w' = w1"
        using None assms(5) a w g Inr by (auto simp: entry_of_def Let_def)
      have "chain_ok F validity_of a c' w1"
        using chain_ok_later [OF assms(2,3) spec(1) assms(4)] spec(2) [OF Inr] by (auto simp: r chain_ok_def)
      moreover have "pinned F a j h (Some c') w1" if p: "pinned F a j h (Some c) w" for j h
      proof (cases "j = k \<and> \<not> obsolete F a j w")
        case True
        with p obtain d where "wd_files w (cert_name k) = Some d" "tl_sha256 F d = h" by (auto simp: pinned_def)
        with spec(3) Inr True have "h = en_hash ?e" "wd_files w1 (cert_name k) = Some d" by simp_all
        with True \<open>tl_sha256 F d = h\<close> show ?thesis by (auto simp: pinned_def r)
      next
        case False
        with pinned_later [OF assms(2,3) spec(1) p] later_disk(3) [OF assms(2,3) spec(1), of j] show ?thesis
          by (auto simp: pinned_def r)
      qed
      ultimately show ?thesis using spec(1) None r by auto
    qed
  qed
  then show "later F validity_of a w w'" "chain_ok F validity_of a c' w'" "ch_len c' = ch_len c"
    "r = Inr e \<Longrightarrow> ch_entries c' k = Some e" "ch_entries c j = Some e \<Longrightarrow> ch_entries c' j = Some e"
    "pinned F a j h (Some c) w \<Longrightarrow> pinned F a j h (Some c') w'" by blast+
qed

lemma entries_of_spec:
  assumes "cert_laws F validity_of" "steady F" "disk_ok F validity_of a w" "chain_ok F validity_of a c w"
    and "entries_of F ks c w = (r, c', w')"
  shows "later F validity_of a w w'" "chain_ok F validity_of a c' w'" "ch_len c' = ch_len c"
    and "r = Inr es \<Longrightarrow> map (ch_entries c') ks = map Some es" "ch_entries c j = Some e \<Longrightarrow> ch_entries c' j = Some e"
    and "pinned F a j h (Some c) w \<Longrightarrow> pinned F a j h (Some c') w'"
proof -
  have "later F validity_of a w w' \<and> chain_ok F validity_of a c' w' \<and> ch_len c' = ch_len c \<and>
    (\<forall>es. r = Inr es \<longrightarrow> map (ch_entries c') ks = map Some es) \<and> (\<forall>j e. ch_entries c j = Some e \<longrightarrow> ch_entries c' j = Some e) \<and>
    (\<forall>j h. pinned F a j h (Some c) w \<longrightarrow> pinned F a j h (Some c') w')"
    using assms(3-5)
  proof (induction ks arbitrary: c w r c' w')
    case (Cons k ks)
    obtain q c1 w1 where q: "entry_of F k c w = (q, c1, w1)" by (metis prod_cases3)
    note s1 = entry_of_spec [OF assms(1,2) Cons.prems(1,2) q]
    show ?case
    proof (cases q)
      case (Inl er)
      with Cons.prems(3) q s1 show ?thesis by auto
    next
      case (Inr e)
      obtain p c2 w2 where p: "entries_of F ks c1 w1 = (p, c2, w2)" by (metis prod_cases3)
      note s2 = Cons.IH [OF later_disk(1) [OF assms(2) Cons.prems(1) s1(1)] s1(2) p]
      have r: "c' = c2" "w' = w2" "r = (case p of Inl er \<Rightarrow> Inl er | Inr es \<Rightarrow> Inr (e # es))"
        using Cons.prems(3) q Inr p by (auto split: sum.splits)
      have "later F validity_of a w w2" using later_trans [OF assms(2) Cons.prems(1) s1(1)] s2 by blast
      moreover have "ch_entries c2 k = Some e" using s1(4) Inr s2 by blast
      ultimately show ?thesis using s1(3,5,6) s2 by (auto simp: r split: sum.splits)
    qed
  qed auto
  then show "later F validity_of a w w'" "chain_ok F validity_of a c' w'" "ch_len c' = ch_len c"
    "r = Inr es \<Longrightarrow> map (ch_entries c') ks = map Some es" "ch_entries c j = Some e \<Longrightarrow> ch_entries c' j = Some e"
    "pinned F a j h (Some c) w \<Longrightarrow> pinned F a j h (Some c') w'" by blast+
qed

lemma entry_of_hash:
  assumes "steady F" "cert_laws F validity_of" "disk_ok F validity_of a w" "chain_ok F validity_of a c w"
    and "entry_of F k c w = (Inr e, c', w')" "wd_files w (cert_name k) = Some der" "tl_sha256 F der = h"
    and "\<And>e. ch_entries c k = Some e \<Longrightarrow> en_hash e = h"
  shows "en_hash e = h"
proof (cases "ch_entries c k")
  case None
  obtain nb na where w: "cert_window a k = (nb, na)" by fastforce
  obtain q w1 where g: "load_or_generate_cert F c k nb na w = (q, w1)" by fastforce
  have a: "ch_anchor c = a" using assms(4) by (simp add: chain_ok_def)
  from generate_cert_spec(3) [OF assms(2,1,3) a g w assms(6)] None w g assms(5,7) a show ?thesis
    by (auto simp: entry_of_def Let_def)
qed (use assms(5,8) in \<open>auto simp: entry_of_def\<close>)

section \<open>Starting\<close>

lemma empty_chain_ok: "1 \<le> n \<Longrightarrow> n \<le> 64 \<Longrightarrow>
    chain_ok F validity_of a \<lparr>ch_key = key, ch_anchor = a, ch_len = n, ch_entries = (\<lambda>_. None)\<rparr> w"
  by (simp add: chain_ok_def)

lemma chain_load_disk:
  assumes "cert_laws F validity_of" "steady F" "disk_ok F validity_of a w" "chain_load F n w = (r, w')"
  shows "later F validity_of a w w'" "r = Inr c \<Longrightarrow> chain_ok F validity_of a c w'"
    and "r = Inr c \<Longrightarrow> pinned F a j h None w \<Longrightarrow> pinned F a j h (Some c) w'"
proof -
  have "later F validity_of a w w' \<and> (\<forall>c. r = Inr c \<longrightarrow> chain_ok F validity_of a c w' \<and>
    (\<forall>j h. pinned F a j h None w \<longrightarrow> pinned F a j h (Some c) w'))"
  proof (cases "tl_mkdir F (wd_calls w)")
    case True
    obtain q w1 where k: "load_or_generate_key F (migrate_legacy_key F (called w)) = (q, w1)" by fastforce
    have s1: "same_certs w w1"
      using same_certs_trans [OF same_certs_trans [OF same_certs_refl(2) migrate_same] load_key_same [OF k]] .
    note l1 = same_certs_later [OF s1, of F validity_of a] and d1 = later_disk(1) [OF assms(2,3) same_certs_later [OF s1]]
    show ?thesis
    proof (cases "\<exists>key. q = Inr key \<and> tl_loads F key")
      case False
      with assms(4) True k l1 show ?thesis by (auto simp: chain_load_def Let_def split: sum.splits if_splits)
    next
      case key: True
      then obtain key where key: "q = Inr key" "tl_loads F key" by blast
      obtain p w2 where p: "load_or_create_anchor F w1 = (p, w2)" by fastforce
      note an = load_anchor_disk [OF assms(2) d1 p]
      let ?len = "max 1 (min 64 n)"
      let ?c = "\<lparr>ch_key = key, ch_anchor = a, ch_len = ?len, ch_entries = (\<lambda>_. None)\<rparr>"
      have l3: "later F validity_of a w (called w2)"
        by (rule same_certs_later [OF same_certs_trans [OF s1 same_certs_trans [OF an(2) same_certs_refl(2)]]])
      note d3 = later_disk(1) [OF assms(2,3) l3]
      obtain u c4 w4 where e: "entries_of F (epochs (epoch_at a (tl_clock F (wd_calls w2))) ?len) ?c (called w2) = (u, c4, w4)"
        by (metis prod_cases3)
      have ok: "chain_ok F validity_of a ?c (called w2)" by (rule empty_chain_ok) auto
      note spec = entries_of_spec [OF assms(1,2) d3 ok e]
      have r: "w' = w4" "r = (case u of Inl e \<Rightarrow> Inl e | Inr _ \<Rightarrow> Inr c4)"
        using assms(4) True k key p an(1) e by (auto simp: chain_load_def now_unix_def Let_def split: sum.splits)
      have "pinned F a j h (Some c4) w4" if "pinned F a j h None w" for j h
      proof -
        have "pinned F a j h None (called w2)" using pinned_later [OF assms(2,3) l3 that] .
        then have "pinned F a j h (Some ?c) (called w2)" by (auto simp: pinned_def)
        then show ?thesis by (rule spec(6))
      qed
      with later_trans [OF assms(2,3) l3 spec(1)] spec(2) r show ?thesis by (auto split: sum.splits)
    qed
  qed (use assms(4) in \<open>auto simp: chain_load_def\<close>)
  then show "later F validity_of a w w'" "r = Inr c \<Longrightarrow> chain_ok F validity_of a c w'"
    "r = Inr c \<Longrightarrow> pinned F a j h None w \<Longrightarrow> pinned F a j h (Some c) w'" by blast+
qed

lemma chain_load_fresh:
  assumes "cert_laws F validity_of" "steady F" "fresh_dir w" "chain_load F n w = (r, w')"
  shows "fresh_dir w' \<and> (\<exists>e. r = Inl e) \<or> (\<exists>a. disk_ok F validity_of a w' \<and> (\<forall>c. r = Inr c \<longrightarrow> chain_ok F validity_of a c w'))"
proof (cases "tl_mkdir F (wd_calls w)")
  case True
  obtain q w1 where k: "load_or_generate_key F (migrate_legacy_key F (called w)) = (q, w1)" by fastforce
  have "same_certs w w1"
    using same_certs_trans [OF same_certs_trans [OF same_certs_refl(2) migrate_same] load_key_same [OF k]] .
  then have f1: "fresh_dir w1" using assms(3) by (rule fresh_dir_same)
  show ?thesis
  proof (cases "\<exists>key. q = Inr key \<and> tl_loads F key")
    case False
    with assms(4) True k f1 show ?thesis by (auto simp: chain_load_def Let_def split: sum.splits if_splits)
  next
    case key: True
    then obtain key where key: "q = Inr key" "tl_loads F key" by blast
    obtain p w2 where p: "load_or_create_anchor F w1 = (p, w2)" by fastforce
    show ?thesis
    proof (cases p)
      case (Inl e)
      with load_anchor_fresh(2) [OF assms(2) f1 p] assms(4) True k key p show ?thesis
        by (auto simp: chain_load_def Let_def)
    next
      case (Inr a)
      let ?len = "max 1 (min 64 n)"
      let ?c = "\<lparr>ch_key = key, ch_anchor = a, ch_len = ?len, ch_entries = (\<lambda>_. None)\<rparr>"
      have d3: "disk_ok F validity_of a (called w2)"
        using later_disk(1) [OF assms(2) load_anchor_fresh(1) [OF assms(2) f1 p Inr] later_called] .
      obtain u c4 w4 where e: "entries_of F (epochs (epoch_at a (tl_clock F (wd_calls w2))) ?len) ?c (called w2) = (u, c4, w4)"
        by (metis prod_cases3)
      have ok: "chain_ok F validity_of a ?c (called w2)" by (rule empty_chain_ok) auto
      note spec = entries_of_spec [OF assms(1,2) d3 ok e]
      have r: "w' = w4" "r = (case u of Inl e \<Rightarrow> Inl e | Inr _ \<Rightarrow> Inr c4)"
        using assms(4) True k key p Inr e by (auto simp: chain_load_def now_unix_def Let_def split: sum.splits)
      have "disk_ok F validity_of a w'" using later_disk(1) [OF assms(2) d3 spec(1)] r(1) by simp
      moreover have "\<forall>c. r = Inr c \<longrightarrow> chain_ok F validity_of a c w'" using spec(2) r by (auto split: sum.splits)
      ultimately show ?thesis by blast
    qed
  qed
qed (use assms(3,4) in \<open>auto simp: chain_load_def fresh_dir_def\<close>)

section \<open>Runs\<close>

definition trust_at :: "('k, 'z) trust_lib_scheme \<Rightarrow> (bytes \<Rightarrow> i64 \<times> i64) \<Rightarrow> i64 \<Rightarrow> 'k trust \<Rightarrow> bool" where
  "trust_at F validity_of a s \<longleftrightarrow> disk_ok F validity_of a (tr_world s) \<and>
     (\<forall>c. tr_chain s = Some c \<longrightarrow> chain_ok F validity_of a c (tr_world s))"

definition trust_ok :: "('k, 'z) trust_lib_scheme \<Rightarrow> (bytes \<Rightarrow> i64 \<times> i64) \<Rightarrow> 'k trust \<Rightarrow> bool" where
  "trust_ok F validity_of s \<longleftrightarrow> (tr_chain s = None \<and> fresh_dir (tr_world s)) \<or> (\<exists>a. trust_at F validity_of a s)"

text \<open>What an answer says of the cache after it, at the time \<open>t\<close> of its operation.\<close>

definition answered :: "i64 \<Rightarrow> i64 \<Rightarrow> trust_out \<Rightarrow> 'k chain option \<Rightarrow> bool" where
  "answered a t out c \<longleftrightarrow> (case out of
       Silent \<Rightarrow> True
     | Served der \<Rightarrow> (\<exists>c' e. c = Some c' \<and> ch_entries c' (epoch_at a t) = Some e \<and> en_cert e = der)
     | Hash h \<Rightarrow> (\<exists>c' e. c = Some c' \<and> ch_entries c' (epoch_at a t) = Some e \<and> en_hash e = h)
     | Pins hs \<Rightarrow> (\<exists>c' es. c = Some c' \<and> map (ch_entries c') (epochs (epoch_at a t) (ch_len c')) = map Some es \<and> hs = map en_hash es))"

text \<open>The hash a client sees.\<close>

definition shown_hash :: "('k, 'z) trust_lib_scheme \<Rightarrow> trust_out \<Rightarrow> bytes option" where
  "shown_hash F out = (case out of Served der \<Rightarrow> Some (tl_sha256 F der) | Hash h \<Rightarrow> Some h | _ \<Rightarrow> None)"

lemma asked_entry:
  assumes "cert_laws F validity_of" "steady F" "disk_ok F validity_of a w" "chain_ok F validity_of a c w"
    and "chain_entry_now F c w = (r, c', w')"
  shows "later F validity_of a w w'" "chain_ok F validity_of a c' w'"
    and "r = Inr e \<Longrightarrow> ch_entries c' (epoch_at a (tl_clock F (wd_calls w))) = Some e"
    and "pinned F a j h (Some c) w \<Longrightarrow> pinned F a j h (Some c') w'"
    and "r = Inr e \<Longrightarrow> pinned F a (epoch_at a (tl_clock F (wd_calls w))) h (Some c) w \<Longrightarrow> en_hash e = h"
proof -
  let ?t = "tl_clock F (wd_calls w)"
  have a: "ch_anchor c = a" "0 \<le> a" "a \<le> ?t" using assms(3,4) by (simp_all add: chain_ok_def disk_ok_def)
  have e: "entry_of F (epoch_at a ?t) c (called w) = (r, c', w')"
    using assms(5) a(1) by (simp add: chain_entry_now_def now_unix_def)
  note d1 = later_disk(1) [OF assms(2,3) later_called] and c1 = chain_ok_later [OF assms(2,3) later_called assms(4)]
  note spec = entry_of_spec [OF assms(1,2) d1 c1 e]
  show "later F validity_of a w w'" using later_trans [OF assms(2,3) later_called spec(1)] .
  show "chain_ok F validity_of a c' w'" by (rule spec(2))
  show "r = Inr e \<Longrightarrow> ch_entries c' (epoch_at a ?t) = Some e" by (rule spec(4))
  show "pinned F a j h (Some c) w \<Longrightarrow> pinned F a j h (Some c') w'"
    by (rule spec(6)) (rule pinned_later [OF assms(2,3) later_called])
  show "en_hash e = h" if r: "r = Inr e" and p: "pinned F a (epoch_at a ?t) h (Some c) w"
  proof -
    have "\<not> obsolete F a (epoch_at a ?t) w"
      using epoch_at_bounds(3) [OF a(2,3) steadyD(3) [OF assms(2)]] by (simp add: obsolete_def)
    with p obtain der where "wd_files w (cert_name (epoch_at a ?t)) = Some der" "tl_sha256 F der = h"
      "\<And>e. ch_entries c (epoch_at a ?t) = Some e \<Longrightarrow> en_hash e = h"
      by (auto simp: pinned_def)
    then show ?thesis using entry_of_hash [OF assms(2,1) d1 c1 e [unfolded r]] by simp
  qed
qed

lemma trust_step_at:
  assumes "cert_laws F validity_of" "steady F" "trust_at F validity_of a s" "trust_step F op s = (out, s')"
  shows "trust_at F validity_of a s'" "later F validity_of a (tr_world s) (tr_world s')"
    and "answered a (trust_now F s) out (tr_chain s')"
    and "pinned F a j h (tr_chain s) (tr_world s) \<Longrightarrow> pinned F a j h (tr_chain s') (tr_world s')"
    and "shown_hash F out = Some h' \<Longrightarrow> pinned F a (epoch_at a (trust_now F s)) h (tr_chain s) (tr_world s) \<Longrightarrow> h' = h"
proof -
  let ?w = "tr_world s"
  have d: "disk_ok F validity_of a ?w" using assms(3) by (simp add: trust_at_def)
  have asked: "trust_at F validity_of a s' \<and> later F validity_of a ?w (tr_world s') \<and> answered a (trust_now F s) out (tr_chain s') \<and>
      (\<forall>j h. pinned F a j h (tr_chain s) ?w \<longrightarrow> pinned F a j h (tr_chain s') (tr_world s')) \<and>
      (\<forall>h h'. shown_hash F out = Some h' \<longrightarrow> pinned F a (epoch_at a (trust_now F s)) h (tr_chain s) ?w \<longrightarrow> h' = h)"
    if "tr_chain s = Some c" "chain_entry_now F c ?w = (r, c', w')" "s' = \<lparr>tr_chain = Some c', tr_world = w'\<rparr>"
      "out = (case r of Inl _ \<Rightarrow> Silent | Inr e \<Rightarrow> Served (en_cert e)) \<or> out = (case r of Inl _ \<Rightarrow> Silent | Inr e \<Rightarrow> Hash (en_hash e))"
    for c r c' w'
  proof -
    have c: "chain_ok F validity_of a c ?w" using assms(3) that(1) by (simp add: trust_at_def)
    note spec = asked_entry [OF assms(1,2) d c that(2)]
    have h: "en_hash e = tl_sha256 F (en_cert e)" if "r = Inr e" for e
      using spec(2,3) that by (auto simp: chain_ok_def)
    have d': "disk_ok F validity_of a w'" using later_disk(1) [OF assms(2) d spec(1)] .
    show ?thesis
      using that(1,3,4) spec d' h by (cases r) (auto simp: trust_at_def answered_def shown_hash_def trust_now_def)
  qed
  have "trust_at F validity_of a s' \<and> later F validity_of a ?w (tr_world s') \<and> answered a (trust_now F s) out (tr_chain s') \<and>
      (\<forall>j h. pinned F a j h (tr_chain s) ?w \<longrightarrow> pinned F a j h (tr_chain s') (tr_world s')) \<and>
      (\<forall>h h'. shown_hash F out = Some h' \<longrightarrow> pinned F a (epoch_at a (trust_now F s)) h (tr_chain s) ?w \<longrightarrow> h' = h)"
  proof (cases op)
    case (Load n)
    obtain r w' where l: "chain_load F n ?w = (r, w')" by fastforce
    note spec = chain_load_disk [OF assms(1,2) d l]
    have "pinned F a j h None ?w" if "pinned F a j h (tr_chain s) ?w" for j h using that by (auto simp: pinned_def)
    with assms(4) Load l spec later_disk(1) [OF assms(2) d spec(1)] pinned_later [OF assms(2) d spec(1)] show ?thesis
      by (cases r) (auto simp: trust_step_def trust_at_def answered_def shown_hash_def)
  next
    case Stop
    with assms(4) d show ?thesis
      by (auto simp: trust_step_def trust_at_def answered_def shown_hash_def pinned_def)
  next
    case Handshake
    show ?thesis
    proof (cases "tr_chain s")
      case (Some c)
      obtain r c' w' where e: "chain_entry_now F c ?w = (r, c', w')" by (metis prod_cases3)
      show ?thesis
        by (rule asked [OF Some e])
          (use assms(4) Handshake Some e in \<open>auto simp: trust_step_def resolve_def chain_current_def split: sum.splits\<close>)
    qed (use assms(3,4) Handshake in \<open>simp add: trust_step_def answered_def shown_hash_def\<close>)
  next
    case Ask_Hash
    show ?thesis
    proof (cases "tr_chain s")
      case (Some c)
      obtain r c' w' where e: "chain_entry_now F c ?w = (r, c', w')" by (metis prod_cases3)
      show ?thesis
        by (rule asked [OF Some e])
          (use assms(4) Ask_Hash Some e in \<open>auto simp: trust_step_def current_hash_def split: sum.splits\<close>)
    qed (use assms(3,4) Ask_Hash in \<open>simp add: trust_step_def answered_def shown_hash_def\<close>)
  next
    case Ask_Forward
    show ?thesis
    proof (cases "tr_chain s")
      case (Some c)
      let ?t = "tl_clock F (wd_calls ?w)"
      have c: "chain_ok F validity_of a c ?w" "ch_anchor c = a" using assms(3) Some by (simp_all add: trust_at_def chain_ok_def)
      obtain r c' w' where e: "entries_of F (epochs (epoch_at a ?t) (ch_len c)) c (called ?w) = (r, c', w')" by (metis prod_cases3)
      note spec = entries_of_spec [OF assms(1,2) later_disk(1) [OF assms(2) d later_called] chain_ok_later [OF assms(2) d later_called c(1)] e]
      have out: "s' = \<lparr>tr_chain = Some c', tr_world = w'\<rparr>" "out = (case r of Inl _ \<Rightarrow> Silent | Inr es \<Rightarrow> Pins (map en_hash es))"
        using assms(4) Ask_Forward Some c(2) e
        by (auto simp: trust_step_def forward_hashes_def now_unix_def split: sum.splits)
      have l: "later F validity_of a ?w w'" using later_trans [OF assms(2) d later_called spec(1)] .
      have p: "pinned F a j h (Some c') w'" if "pinned F a j h (Some c) ?w" for j h
        by (rule spec(6)) (rule pinned_later [OF assms(2) d later_called that])
      have ans: "answered a (trust_now F s) out (Some c')"
        using spec(3,4) by (cases r) (auto simp: out answered_def trust_now_def)
      have "shown_hash F out = None" by (cases r) (simp_all add: out shown_hash_def)
      with l p ans spec(2) later_disk(1) [OF assms(2) d l] Some show ?thesis by (simp add: out trust_at_def)
    qed (use assms(3,4) Ask_Forward in \<open>simp add: trust_step_def answered_def shown_hash_def\<close>)
  qed
  then show "trust_at F validity_of a s'" "later F validity_of a (tr_world s) (tr_world s')"
    "answered a (trust_now F s) out (tr_chain s')"
    "pinned F a j h (tr_chain s) (tr_world s) \<Longrightarrow> pinned F a j h (tr_chain s') (tr_world s')"
    "shown_hash F out = Some h' \<Longrightarrow> pinned F a (epoch_at a (trust_now F s)) h (tr_chain s) (tr_world s) \<Longrightarrow> h' = h" by blast+
qed

lemma trust_step_ok:
  assumes "cert_laws F validity_of" "steady F" "trust_ok F validity_of s" "trust_step F op s = (out, s')"
  shows "trust_ok F validity_of s'" "out \<noteq> Silent \<Longrightarrow> \<exists>a. trust_at F validity_of a s"
proof -
  have "trust_ok F validity_of s' \<and> (out \<noteq> Silent \<longrightarrow> (\<exists>a. trust_at F validity_of a s))"
  proof (cases "\<exists>a. trust_at F validity_of a s")
    case True
    then show ?thesis using trust_step_at(1) [OF assms(1,2) _ assms(4)] by (auto simp: trust_ok_def)
  next
    case False
    with assms(3) have f: "tr_chain s = None" "fresh_dir (tr_world s)" by (auto simp: trust_ok_def)
    show ?thesis
    proof (cases op)
      case (Load n)
      obtain r w' where l: "chain_load F n (tr_world s) = (r, w')" by fastforce
      from chain_load_fresh [OF assms(1,2) f(2) l] assms(4) Load l show ?thesis
        by (cases r) (auto simp: trust_step_def trust_ok_def trust_at_def)
    qed (use assms(4) f in \<open>auto simp: trust_step_def trust_ok_def\<close>)
  qed
  then show "trust_ok F validity_of s'" "out \<noteq> Silent \<Longrightarrow> \<exists>a. trust_at F validity_of a s" by blast+
qed

text \<open>The i-th operation of a run, and the run after it.\<close>

lemma trust_run_nth:
  assumes "cert_laws F validity_of" "steady F" "trust_ok F validity_of s" "i < length (fst (trust_run F ops s))"
  shows "\<exists>s1 op s2 ops'. trust_ok F validity_of s1 \<and> trust_step F op s1 = (snd (fst (trust_run F ops s) ! i), s2) \<and>
    fst (fst (trust_run F ops s) ! i) = trust_now F s1 \<and> drop (Suc i) (fst (trust_run F ops s)) = fst (trust_run F ops' s2)"
  using assms(3,4)
proof (induction ops arbitrary: s i)
  case (Cons op ops)
  obtain out s1 where st: "trust_step F op s = (out, s1)" by fastforce
  obtain outs s2 where run: "trust_run F ops s1 = (outs, s2)" by fastforce
  have r: "fst (trust_run F (op # ops) s) = (trust_now F s, out) # outs" by (simp add: st run)
  show ?case
  proof (cases i)
    case 0
    with Cons.prems(1) st run r show ?thesis
      by (intro exI [of _ s] exI [of _ op] exI [of _ s1] exI [of _ ops]) simp
  next
    case (Suc j)
    then have "j < length (fst (trust_run F ops s1))" using Cons.prems(2) r run by simp
    from Cons.IH [OF trust_step_ok(1) [OF assms(1,2) Cons.prems(1) st] this] show ?thesis by (simp only: r Suc run fst_conv nth_Cons_Suc drop_Suc_Cons)
  qed
qed simp

lemma trust_run_pinned:
  assumes "cert_laws F validity_of" "steady F" "trust_at F validity_of a s" "pinned F a k h (tr_chain s) (tr_world s)"
    and "(t, out) \<in> set (fst (trust_run F ops s))" "epoch_at a t = k" "shown_hash F out = Some h'"
  shows "h' = h"
  using assms(3-5)
proof (induction ops arbitrary: s)
  case (Cons op ops)
  obtain o1 s1 where st: "trust_step F op s = (o1, s1)" by fastforce
  note spec = trust_step_at [OF assms(1,2) Cons.prems(1) st]
  show ?case
  proof (cases "t = trust_now F s \<and> out = o1")
    case True
    with spec(5) Cons.prems(2) assms(6,7) show ?thesis by blast
  next
    case False
    with Cons.prems(3) st have "(t, out) \<in> set (fst (trust_run F ops s1))" by (auto split: prod.splits)
    then show ?thesis using Cons.IH [OF spec(1) spec(4) [OF Cons.prems(2)]] by blast
  qed
qed simp

lemma trust_run_later:
  assumes "cert_laws F validity_of" "steady F" "trust_at F validity_of a s1" "trust_at F validity_of a s"
    and "later F validity_of a (tr_world s1) (tr_world s)" "(t, out) \<in> set (fst (trust_run F ops s))"
  shows "trust_now F s1 \<le> t" "t < 2 ^ 40"
proof -
  have "trust_now F s1 \<le> t \<and> t < 2 ^ 40"
    using assms(4-6)
  proof (induction ops arbitrary: s)
    case (Cons op ops)
    obtain o1 s' where st: "trust_step F op s = (o1, s')" by fastforce
    note sp = trust_step_at [OF assms(1,2) Cons.prems(1) st]
    have d: "disk_ok F validity_of a (tr_world s1)" using assms(3) by (simp add: trust_at_def)
    show ?case
    proof (cases "t = trust_now F s")
      case True
      with Cons.prems(2) steadyD(1,3) [OF assms(2)] show ?thesis by (simp add: trust_now_def later_def)
    next
      case False
      with Cons.prems(3) st have "(t, out) \<in> set (fst (trust_run F ops s'))" by (auto split: prod.splits)
      with Cons.IH [OF sp(1) later_trans [OF assms(2) d Cons.prems(2) sp(2)]] show ?thesis by blast
    qed
  qed simp
  then show "trust_now F s1 \<le> t" "t < 2 ^ 40" by simp_all
qed

lemma length_epochs: "b < 2 ^ 40 \<Longrightarrow> n \<le> 64 \<Longrightarrow> epochs b n = [b ..< b + n]"
  by (simp add: epochs_def)

text \<open>What a client pins is pinned, in the order of the epochs.\<close>

lemma pins_pinned:
  assumes "cert_laws F validity_of" "steady F" "trust_at F validity_of a s" "trust_step F op s = (Pins hs, s')" "j < length hs"
  shows "pinned F a (epoch_at a (trust_now F s) + j) (hs ! j) (tr_chain s') (tr_world s')"
proof -
  note spec = trust_step_at [OF assms(1-4)]
  let ?b = "epoch_at a (trust_now F s)"
  from spec(3) obtain c es where c: "tr_chain s' = Some c" "map (ch_entries c) (epochs ?b (ch_len c)) = map Some es" "hs = map en_hash es"
    by (auto simp: answered_def)
  have ok: "chain_ok F validity_of a c (tr_world s')" using spec(1) c(1) by (simp add: trust_at_def)
  have "?b < 2 ^ 40"
    using assms(3) epoch_at_bounds(3) [OF _ _ steadyD(3) [OF assms(2)]] by (simp add: trust_at_def disk_ok_def trust_now_def)
  then have "map (ch_entries c) [?b ..< ?b + ch_len c] = map Some es"
    using c(2) ok by (simp add: length_epochs chain_ok_def)
  moreover from this have l: "length es = ch_len c" using length_map by (metis add_diff_cancel_left' length_upt)
  moreover have j: "j < length es" using assms(5) c(3) by simp
  ultimately have e: "ch_entries c (?b + j) = Some (es ! j)"
    by (metis length_map nth_map nth_upt length_upt add_diff_cancel_left' nat_add_left_cancel_less)
  then have "en_hash (es ! j) = tl_sha256 F (en_cert (es ! j))" "on_disk F a (?b + j) (tl_sha256 F (en_cert (es ! j))) (tr_world s')"
    using ok by (auto simp: chain_ok_def)
  with e j c show ?thesis by (auto simp: pinned_def on_disk_def)
qed

section \<open>Properties\<close>

text \<open>C34: Starting in a directory without an anchor and certificates, with a clock that does not run backwards and
  files that can be read, a handshake is never answered with a certificate outside its validity:
  whatever the restarts, the lengths of the window and the failures of writes, the certificate served
  is valid at the time of the handshake, and for at most 14 days in all, the limit of the browsers.\<close>

theorem served_certificate_valid:
  assumes "cert_laws F validity_of" "steady F" "fresh_dir w0"
    and "(t, Served der) \<in> set (fst (trust_run F ops \<lparr>tr_chain = None, tr_world = w0\<rparr>))"
  shows "fst (validity_of der) \<le> t \<and> t < snd (validity_of der) \<and> snd (validity_of der) - fst (validity_of der) = 14 * 86400"
proof -
  let ?s = "\<lparr>tr_chain = None, tr_world = w0\<rparr>"
  have ok: "trust_ok F validity_of ?s" using assms(3) by (simp add: trust_ok_def)
  obtain i where i: "i < length (fst (trust_run F ops ?s))" "fst (trust_run F ops ?s) ! i = (t, Served der)"
    using assms(4) by (metis in_set_conv_nth)
  obtain s1 op s2 where s: "trust_ok F validity_of s1" "trust_step F op s1 = (Served der, s2)" "t = trust_now F s1"
    using trust_run_nth [OF assms(1,2) ok i(1)] i(2) by auto
  obtain a where a: "trust_at F validity_of a s1" using trust_step_ok(2) [OF assms(1,2) s(1,2)] by auto
  note spec = trust_step_at [OF assms(1,2) a s(2)]
  from spec(1,3) have "validity_of der = cert_window a (epoch_at a t)"
    by (auto simp: answered_def s(3) trust_at_def chain_ok_def)
  moreover have "0 \<le> a" "a \<le> t" using a by (simp_all add: trust_at_def disk_ok_def s(3) trust_now_def)
  moreover have "t < 2 ^ 40" using steadyD(3) [OF assms(2)] by (simp add: s(3) trust_now_def)
  ultimately show ?thesis using cert_window_now [of a t "fst (validity_of der)" "snd (validity_of der)"]
    by (simp add: VALIDITY_def)
qed

text \<open>C35: The pins survive rotation: a client that was given the hashes of the window at time \<open>t0\<close> finds
  among them the hash of the certificate the server presents at every later moment, as long as 13 days
  have not passed for each hash but one, across rotations, restarts with another window length, pruning,
  failing writes and crashes.\<close>

theorem pins_survive_rotation:
  assumes "cert_laws F validity_of" "steady F" "fresh_dir w0"
    and "outs = fst (trust_run F ops \<lparr>tr_chain = None, tr_world = w0\<rparr>)" "i < j" "j < length outs"
    and "outs ! i = (t0, Pins hs)" "outs ! j = (t, out)" "shown_hash F out = Some h"
    and "t < t0 + (int (length hs) - 1) * STRIDE"
  shows "h \<in> set hs"
proof -
  let ?s = "\<lparr>tr_chain = None, tr_world = w0\<rparr>"
  have ok: "trust_ok F validity_of ?s" using assms(3) by (simp add: trust_ok_def)
  have "i < length (fst (trust_run F ops ?s))" using assms(4-6) by simp
  from trust_run_nth [OF assms(1,2) ok this] obtain s1 op s2 ops' where
    s: "trust_ok F validity_of s1" "trust_step F op s1 = (Pins hs, s2)" "t0 = trust_now F s1" "drop (Suc i) outs = fst (trust_run F ops' s2)"
    using assms(4,7) by auto
  obtain a where a: "trust_at F validity_of a s1" using trust_step_ok(2) [OF assms(1,2) s(1,2)] by auto
  note spec = trust_step_at [OF assms(1,2) a s(2)]
  have "drop (Suc i) outs ! (j - Suc i) = (t, out)" "j - Suc i < length (drop (Suc i) outs)" using assms(5,6,8) by simp_all
  then have mem: "(t, out) \<in> set (fst (trust_run F ops' s2))" unfolding s(4) by (metis nth_mem)
  let ?b = "epoch_at a t0" and ?k = "epoch_at a t"
  have t: "t0 \<le> t" "t < 2 ^ 40" using trust_run_later [OF assms(1,2) a spec(1,2) mem] by (simp_all add: s(3))
  have at: "0 \<le> a" "a \<le> t0" using a by (simp_all add: trust_at_def disk_ok_def s(3) trust_now_def)
  have t0: "t0 < 2 ^ 40" using t by simp
  have le: "?b \<le> ?k" using epoch_at_mono [OF at t] .
  have "a \<le> t" using at t by simp
  with epoch_at_bounds [OF at t0] epoch_at_bounds [OF at(1) _ t(2)] assms(10)
  have "(int ?k - int ?b - int (length hs)) * STRIDE < 0" by (simp add: algebra_simps)
  then have "int ?k - int ?b < int (length hs)" by (simp add: STRIDE_def)
  with le have j: "?k - ?b < length hs" by linarith
  have "pinned F a ?k (hs ! (?k - ?b)) (tr_chain s2) (tr_world s2)"
    using pins_pinned [OF assms(1,2) a s(2) j] le by (simp flip: s(3))
  from trust_run_pinned [OF assms(1,2) spec(1) this mem refl assms(9)] j show ?thesis by simp
qed

section \<open>A healthy system\<close>

text \<open>When nothing fails, a server starts and answers.\<close>

definition healthy :: "('k, 'z) trust_lib_scheme \<Rightarrow> bool" where
  "healthy F \<longleftrightarrow> (\<forall>n. tl_mkdir F n \<and> tl_write F n = Whole \<and> tl_generate F n \<noteq> None) \<and> (\<forall>pem. tl_from_pem F pem \<noteq> None) \<and>
     (\<forall>key. tl_loads F key) \<and> (\<forall>t. tl_timestamp F t) \<and> (\<forall>key nb na n. tl_sign F key nb na n \<noteq> None)"

lemma fs_write_healthy: "healthy F \<Longrightarrow> fs_write F path data w =
    (Inr (), called (w\<lparr>wd_files := (wd_files w)(tmp_name path := None, path := Some data)\<rparr>))"
  by (simp add: healthy_def fs_write_def write_atomic_def Let_def)

lemma healthyD:
  "healthy F \<Longrightarrow> tl_sign F key nb na n \<noteq> None" "healthy F \<Longrightarrow> tl_generate F n \<noteq> None" "healthy F \<Longrightarrow> tl_from_pem F pem \<noteq> None"
  "healthy F \<Longrightarrow> tl_timestamp F t" "healthy F \<Longrightarrow> tl_loads F key" "healthy F \<Longrightarrow> tl_mkdir F n"
  by (auto simp: healthy_def)

lemma entry_of_healthy:
  assumes "healthy F"
  shows "\<exists>e. fst (entry_of F k c w) = Inr e"
  by (simp add: entry_of_def load_or_generate_cert_def fs_write_healthy now_unix_def Let_def split_def assms healthyD [OF assms]
      split: option.split prod.split)

lemma entries_of_healthy: "healthy F \<Longrightarrow> \<exists>es. fst (entries_of F ks c w) = Inr es"
proof (induction ks arbitrary: c w)
  case (Cons k ks)
  obtain e c1 w1 where "entry_of F k c w = (Inr e, c1, w1)" using entry_of_healthy [OF Cons.prems] by (metis prod.exhaust fst_conv)
  moreover obtain es c2 w2 where "entries_of F ks c1 w1 = (Inr es, c2, w2)" using Cons by (metis prod.exhaust fst_conv)
  ultimately show ?case by simp
qed simp

lemma load_key_healthy:
  assumes "healthy F"
  shows "\<exists>key. fst (load_or_generate_key F w) = Inr key"
proof -
  obtain x w1 where x: "fs_read_string F IDENTITY w = (x, w1)" by fastforce
  obtain key where "tl_generate F (wd_calls w1) = Some key" using healthyD(2) [OF assms] by blast
  moreover obtain key' where "tl_from_pem F (the x) = Some key'" using healthyD(3) [OF assms] by blast
  ultimately show ?thesis by (cases x) (simp_all add: load_or_generate_key_def x fs_write_healthy assms)
qed

lemma load_anchor_healthy: "healthy F \<Longrightarrow> \<exists>a. fst (load_or_create_anchor F w) = Inr a"
  by (auto simp: load_or_create_anchor_def fs_write_healthy now_unix_def split: option.split prod.split)

lemma chain_load_healthy:
  assumes "healthy F"
  shows "\<exists>c w'. chain_load F n w = (Inr c, w')"
proof -
  obtain key w1 where k: "load_or_generate_key F (migrate_legacy_key F (called w)) = (Inr key, w1)"
    using load_key_healthy [OF assms] by (metis prod.exhaust fst_conv)
  obtain a w2 where a: "load_or_create_anchor F w1 = (Inr a, w2)"
    using load_anchor_healthy [OF assms] by (metis prod.exhaust fst_conv)
  obtain es c w4 where "entries_of F (epochs (epoch_at a (tl_clock F (wd_calls w2))) (max 1 (min 64 n)))
      \<lparr>ch_key = key, ch_anchor = a, ch_len = max 1 (min 64 n), ch_entries = (\<lambda>_. None)\<rparr> (called w2) = (Inr es, c, w4)"
    using entries_of_healthy [OF assms] by (metis prod.exhaust fst_conv)
  with k a assms show ?thesis by (simp add: chain_load_def now_unix_def Let_def healthyD)
qed

lemma handshake_healthy:
  assumes "healthy F" "tr_chain s = Some c"
  shows "\<exists>der s'. trust_step F Handshake s = (Served der, s') \<and> tr_chain s' \<noteq> None"
proof -
  obtain e c1 w1 where "chain_entry_now F c (tr_world s) = (Inr e, c1, w1)"
    using entry_of_healthy [OF assms(1)] by (auto simp: chain_entry_now_def now_unix_def) (metis prod.exhaust fst_conv)
  then show ?thesis using assms(2) by (simp add: trust_step_def resolve_def chain_current_def)
qed

section \<open>Files that cannot be read\<close>

text \<open>Without the second condition on the system the first property fails. An anchor that cannot be parsed
  is replaced by the present, so that the epochs are counted from zero again, while the certificates of
  the old count stay;\<close>

lemma lost_anchor_restarts:
  assumes "healthy F" "tl_reads F (wd_calls w)" "wd_files w ANCHOR = Some (lit ''?'')"
  shows "\<exists>w'. load_or_create_anchor F w = (Inr (tl_clock F (Suc (wd_calls w))), w') \<and>
    (\<forall>k. wd_files w' (cert_name k) = wd_files w (cert_name k))"
proof -
  have "str_trim (lit ''?'') = lit ''?''" using trim_graph [of "lit ''?''" "[]" "[]"] by (simp add: lit_def of_char_def graph_byte_def)
  then have "parse_i64 (str_trim (lit ''?'')) = None"
    by (simp add: lit_def of_char_def parse_i64_def parse_uint_def is_digit_def)
  moreover have "fs_read_string F ANCHOR w = (Some (lit ''?''), called w)"
    by (rule prod_eqI) (simp_all add: assms from_utf8_def lit_def of_char_def)
  ultimately show ?thesis by (simp add: load_or_create_anchor_def now_unix_def fs_write_healthy assms(1))
qed

text \<open>and a certificate is taken from the file of its number without a look at its validity.\<close>

lemma old_certificate_adopted:
  assumes "tl_reads F (wd_calls w)" "wd_files w (cert_name k) = Some old" "ch_entries c k = None"
  shows "fst (entry_of F k c w) = Inr \<lparr>en_cert = old, en_hash = tl_sha256 F old\<rparr>"
proof -
  have "fs_read F (cert_name k) w = (Some old, called w)" by (rule prod_eqI) (simp_all add: assms)
  then show ?thesis by (simp add: entry_of_def load_or_generate_cert_def assms(3) Let_def split_def)
qed

text \<open>An identity key that is there but cannot be read, for whatever reason, is overwritten by a new one.\<close>

lemma unreadable_key_replaced:
  assumes "healthy F" "\<not> tl_reads F (wd_calls w)"
  shows "\<exists>key w'. load_or_generate_key F w = (Inr key, w') \<and> wd_files w' IDENTITY = Some (tl_pem F key) \<and>
    tl_generate F (Suc (wd_calls w)) = Some key"
proof -
  obtain key where "tl_generate F (Suc (wd_calls w)) = Some key" using healthyD(2) [OF assms(1)] by blast
  moreover have "fs_read_string F IDENTITY w = (None, called w)" by (rule prod_eqI) (simp_all add: assms)
  ultimately show ?thesis by (simp add: load_or_generate_key_def fs_write_healthy assms(1))
qed

section \<open>Examples\<close>

definition trust_ex :: "unit trust_lib" where
  "trust_ex = \<lparr>tl_clock = (\<lambda>n. 1700000000), tl_mkdir = (\<lambda>_. True), tl_reads = (\<lambda>_. True), tl_write = (\<lambda>_. Whole),
     tl_renames = (\<lambda>_. True), tl_removes = (\<lambda>_ _. True), tl_from_pem = (\<lambda>_. Some ()), tl_generate = (\<lambda>_. Some ()),
     tl_pem = (\<lambda>_. lit ''key''), tl_loads = (\<lambda>_. True), tl_timestamp = (\<lambda>_. True),
     tl_sign = (\<lambda>_ nb na n. Some (int_digits nb @ 32 # int_digits na)), tl_sha256 = (\<lambda>b. b)\<rparr>"

definition no_files :: world where
  "no_files = \<lparr>wd_files = (\<lambda>_. None), wd_calls = 0\<rparr>"

definition digits_ex :: "bytes \<Rightarrow> int" where
  "digits_ex s = (if hd s = 45 then - int (digits_val (tl s)) else int (digits_val s))"

lemma digits_ex: "digits_ex (int_digits x) = x"
  using dec_digits_hd(1) [of "nat x"] by (simp add: digits_ex_def int_digits_def dec_digits_val)

definition validity_ex :: "bytes \<Rightarrow> i64 \<times> i64" where
  "validity_ex der =
     (digits_ex (takeWhile (\<lambda>b. b \<noteq> 32) der), digits_ex (tl (dropWhile (\<lambda>b. b \<noteq> 32) der)))"

lemma trust_ex_laws: "cert_laws trust_ex validity_ex" "steady trust_ex" "healthy trust_ex" "fresh_dir no_files"
proof -
  have sp: "takeWhile (\<lambda>b. b \<noteq> 32) (int_digits x @ 32 # r) = int_digits x"
    "dropWhile (\<lambda>b. b \<noteq> 32) (int_digits x @ 32 # r) = 32 # r" for x r
  proof -
    have "32 \<notin> set (int_digits x)"
      using dec_digits_digits [of "nat x"] dec_digits_digits [of "nat (- x)"]
      by (auto simp: int_digits_def list_all_iff is_digit_def)
    then have "\<forall>b \<in> set (int_digits x). b \<noteq> 32" by blast
    then show "takeWhile (\<lambda>b. b \<noteq> 32) (int_digits x @ 32 # r) = int_digits x"
      "dropWhile (\<lambda>b. b \<noteq> 32) (int_digits x @ 32 # r) = 32 # r"
      by (simp_all add: takeWhile_append2 dropWhile_append2)
  qed
  then show "cert_laws trust_ex validity_ex" by (simp add: cert_laws_def trust_ex_def validity_ex_def digits_ex)
  show "steady trust_ex" by (simp add: steady_def trust_ex_def mono_def)
  show "healthy trust_ex" by (simp add: healthy_def trust_ex_def)
  show "fresh_dir no_files" by (simp add: fresh_dir_def no_files_def)
qed

lemma entries_of_length:
  "entries_of F ks c w = (r, c', w') \<Longrightarrow> ch_len c' = ch_len c \<and> ch_anchor c' = ch_anchor c \<and> (\<forall>es. r = Inr es \<longrightarrow> length es = length ks)"
proof (induction ks arbitrary: c w r c' w')
  case (Cons k ks)
  have e: "entry_of F k c w = (q, c1, w1) \<Longrightarrow> ch_len c1 = ch_len c \<and> ch_anchor c1 = ch_anchor c" for q c1 w1
    by (auto simp: entry_of_def Let_def split: option.splits prod.splits sum.splits)
  from Cons.prems show ?case by (auto split: prod.splits sum.splits dest!: e Cons.IH)
qed simp

lemma chain_load_length: "chain_load F n w = (Inr c, w') \<Longrightarrow> ch_len c = max 1 (min 64 n)"
  by (auto simp: chain_load_def Let_def split: prod.splits sum.splits if_splits dest!: entries_of_length)

lemma load_step_healthy: "healthy F \<Longrightarrow> \<exists>c w. trust_step F (Load n) s = (Silent, \<lparr>tr_chain = Some c, tr_world = w\<rparr>)"
  using chain_load_healthy [of F n "tr_world s"] by (auto simp: trust_step_def)

theorem served_certificate_valid_witness:
  "\<exists>t der. (t, Served der) \<in> set (fst (trust_run trust_ex [Load 3, Handshake] \<lparr>tr_chain = None, tr_world = no_files\<rparr>)) \<and>
     fst (validity_ex der) \<le> t \<and> t < snd (validity_ex der)"
proof -
  let ?s = "\<lparr>tr_chain = None, tr_world = no_files\<rparr> :: unit trust"
  obtain c w where l: "trust_step trust_ex (Load 3) ?s = (Silent, \<lparr>tr_chain = Some c, tr_world = w\<rparr>)"
    using load_step_healthy [OF trust_ex_laws(3)] by blast
  obtain der s' where "trust_step trust_ex Handshake \<lparr>tr_chain = Some c, tr_world = w\<rparr> = (Served der, s')"
    using handshake_healthy [OF trust_ex_laws(3), of "\<lparr>tr_chain = Some c, tr_world = w\<rparr>"] by auto
  with l have "(trust_now trust_ex \<lparr>tr_chain = Some c, tr_world = w\<rparr>, Served der) \<in> set (fst (trust_run trust_ex [Load 3, Handshake] ?s))"
    by simp
  from this served_certificate_valid [OF trust_ex_laws(1,2,4) this] show ?thesis by blast
qed

lemma trust_now_ex: "trust_now trust_ex s = 1700000000"
  by (simp add: trust_now_def trust_ex_def)

text \<open>The pins taken from a window of two, and the certificate of the next start of the server.\<close>

lemma pins_ex:
  "\<exists>hs der. fst (trust_run trust_ex [Load 2, Ask_Forward, Stop, Load 1, Handshake] \<lparr>tr_chain = None, tr_world = no_files\<rparr>) =
     [(1700000000, Silent), (1700000000, Pins hs), (1700000000, Silent), (1700000000, Silent), (1700000000, Served der)] \<and> length hs = 2"
proof -
  let ?s = "\<lparr>tr_chain = None, tr_world = no_files\<rparr> :: unit trust"
  obtain c w where l: "trust_step trust_ex (Load 2) ?s = (Silent, \<lparr>tr_chain = Some c, tr_world = w\<rparr>)"
      "chain_load trust_ex 2 no_files = (Inr c, w)"
    using chain_load_healthy [OF trust_ex_laws(3), of 2 no_files] by (auto simp: trust_step_def)
  obtain a where a: "chain_ok trust_ex validity_ex a c w" "disk_ok trust_ex validity_ex a w"
    using chain_load_fresh [OF trust_ex_laws(1,2,4) l(2)] by auto
  have "epoch_at a 1700000000 < 2 ^ 40" using a(2) by (intro epoch_at_bounds) (simp_all add: disk_ok_def trust_ex_def)
  then have n: "length (epochs (epoch_at (ch_anchor c) 1700000000) (ch_len c)) = 2"
    using a(1) chain_load_length [OF l(2)] by (simp add: length_epochs chain_ok_def)
  obtain es c1 w1 where e: "entries_of trust_ex (epochs (epoch_at (ch_anchor c) 1700000000) (ch_len c)) c (called w) = (Inr es, c1, w1)"
    using entries_of_healthy [OF trust_ex_laws(3)] by (metis prod.exhaust fst_conv)
  have f: "trust_step trust_ex Ask_Forward \<lparr>tr_chain = Some c, tr_world = w\<rparr> = (Pins (map en_hash es), \<lparr>tr_chain = Some c1, tr_world = w1\<rparr>)"
    using e by (simp add: trust_step_def forward_hashes_def now_unix_def trust_ex_def)
  obtain c2 w2 where l2: "trust_step trust_ex (Load 1) \<lparr>tr_chain = None, tr_world = w1\<rparr> = (Silent, \<lparr>tr_chain = Some c2, tr_world = w2\<rparr>)"
    using load_step_healthy [OF trust_ex_laws(3)] by blast
  obtain der s' where h: "trust_step trust_ex Handshake \<lparr>tr_chain = Some c2, tr_world = w2\<rparr> = (Served der, s')"
    using handshake_healthy [OF trust_ex_laws(3), of "\<lparr>tr_chain = Some c2, tr_world = w2\<rparr>"] by auto
  have "length es = 2" using entries_of_length [OF e] n by simp
  then show ?thesis using l(1) f l2 h by (simp add: trust_now_ex trust_step_def [of _ Stop])
qed

theorem pins_survive_rotation_witness:
  "\<exists>hs der. length hs = 2 \<and> tl_sha256 trust_ex der \<in> set hs \<and> (1700000000, Served der) \<in>
     set (fst (trust_run trust_ex [Load 2, Ask_Forward, Stop, Load 1, Handshake] \<lparr>tr_chain = None, tr_world = no_files\<rparr>))"
proof -
  let ?outs = "fst (trust_run trust_ex [Load 2, Ask_Forward, Stop, Load 1, Handshake] \<lparr>tr_chain = None, tr_world = no_files\<rparr>)"
  obtain hs der where o: "?outs = [(1700000000, Silent), (1700000000, Pins hs), (1700000000, Silent), (1700000000, Silent),
      (1700000000, Served der)]" "length hs = 2" using pins_ex by blast
  have "tl_sha256 trust_ex der \<in> set hs"
    by (rule pins_survive_rotation [OF trust_ex_laws(1,2,4),
          where outs = ?outs and ops = "[Load 2, Ask_Forward, Stop, Load 1, Handshake]" and i = 1 and j = 4 and hs = hs and
            out = "Served der" and t = 1700000000 and ?t0.0 = 1700000000])
      (simp_all add: o o(1) [unfolded One_nat_def] STRIDE_def shown_hash_def del: trust_run.simps)
  moreover have "(1700000000, Served der) \<in> set ?outs" unfolding o(1) by simp
  ultimately show ?thesis using o(2) by blast
qed

end
