(* ===== verification/Helper_Wire.thy ===== *)
theory Helper_Wire
  imports Helper
begin

text \<open>
  One connection to the helper socket from both ends: \<open>handle_helper\<close> of the daemon
  (\<open>crates/quosh-server/src/helper.rs\<close>) and \<open>socket_query\<close> of the command line
  (\<open>crates/quosh-cli/src/main.rs\<close>). JSON is a library: its conversions are the record \<open>json_lib\<close>, with the
  laws \<open>json_laws\<close>.
\<close>

record json_lib =
  js_request :: "helper_request \<Rightarrow> rstr"
  js_read_request :: "bytes \<Rightarrow> helper_request option"
  js_response :: "helper_response \<Rightarrow> rstr"
  js_read_response :: "bytes \<Rightarrow> helper_response option"

text \<open>What is written reads back; it is one line, and an object.\<close>

definition json_laws :: "json_lib \<Rightarrow> bool" where
  "json_laws J \<longleftrightarrow>
     (\<forall>q. js_read_request J (js_request J q) = Some q \<and> 10 \<notin> set (js_request J q) \<and> js_request J q \<noteq> []) \<and>
     (\<forall>r. js_read_response J (js_response J r) = Some r \<and> 10 \<notin> set (js_response J r) \<and>
        js_response J r \<noteq> [] \<and> hd (js_response J r) = 123 \<and> last (js_response J r) = 125)"

section \<open>The daemon's end\<close>

datatype helper_end = Line_Failed line_error | Bad_Request | Answered bytes

text \<open>An empty line is not answered. A failure to write the answer comes after the request was carried out.\<close>

definition handle_helper ::
  "json_lib \<Rightarrow> host \<Rightarrow> (store_error \<Rightarrow> rstr) \<Rightarrow> helper_draw \<Rightarrow> u32 \<Rightarrow> line_read list \<Rightarrow> daemon \<Rightarrow> helper_end \<times> daemon" where
  "handle_helper J H show_error x uid reads d = (case read_request_line MAX_HELPER_BYTES reads [] of
       Inl e \<Rightarrow> (Line_Failed e, d)
     | Inr line \<Rightarrow>
         if line = [] then (Answered [], d)
         else (case js_read_request J line of
             None \<Rightarrow> (Bad_Request, d)
           | Some req \<Rightarrow> (case dispatch H show_error x uid req d of
               (resp, d') \<Rightarrow> (Answered (js_response J resp @ [10]), d'))))"

section \<open>The client's end\<close>

datatype query_error = Not_Running | Query_Io | Bad_Reply

text \<open>What happens to the connection: \<open>connect\<close> may fail, the exchange may fail, or the peer's bytes up to the
  end of its stream arrive. Without a daemon the program ends with exit status 2.\<close>

datatype exchange = No_Daemon | Broken | Received bytes

definition ascii_ws :: "byte \<Rightarrow> bool" where
  "ascii_ws b \<longleftrightarrow> b = 9 \<or> b = 10 \<or> b = 12 \<or> b = 13 \<or> b = 32"

definition trim_ascii :: "bytes \<Rightarrow> bytes" where
  "trim_ascii bs = rev (dropWhile ascii_ws (rev (dropWhile ascii_ws bs)))"

definition socket_query ::
  "json_lib \<Rightarrow> (bytes \<Rightarrow> 'w \<Rightarrow> exchange \<times> 'w) \<Rightarrow> helper_request \<Rightarrow> 'w \<Rightarrow> (query_error + helper_response) \<times> 'w" where
  "socket_query J conn req w = (case conn (js_request J req @ [10]) w of
       (No_Daemon, w') \<Rightarrow> (Inl Not_Running, w')
     | (Broken, w') \<Rightarrow> (Inl Query_Io, w')
     | (Received buf, w') \<Rightarrow> (ok_or (js_read_response J (trim_ascii buf)) Bad_Reply, w'))"

section \<open>Both ends\<close>

text \<open>The daemon answers what it reads, in whatever pieces the request arrives.\<close>

definition daemon_exchange ::
  "json_lib \<Rightarrow> host \<Rightarrow> (store_error \<Rightarrow> rstr) \<Rightarrow> helper_draw \<Rightarrow> u32 \<Rightarrow> (bytes \<Rightarrow> bytes list) \<Rightarrow> bytes \<Rightarrow> daemon \<Rightarrow> exchange \<times> daemon" where
  "daemon_exchange J H show_error x uid pieces req d =
     (case handle_helper J H show_error x uid (map Read_Bytes (pieces req)) d of
        (Answered bs, d') \<Rightarrow> (Received bs, d')
      | (_, d') \<Rightarrow> (Received [], d'))"

definition cuts :: "(bytes \<Rightarrow> bytes list) \<Rightarrow> bool" where
  "cuts pieces \<longleftrightarrow> (\<forall>bs. concat (pieces bs) = bs \<and> [] \<notin> set (pieces bs))"

lemma read_request_line_pieces:
  assumes "acc @ concat ps = line @ [10]" "10 \<notin> set line" "length line < mx" "[] \<notin> set ps"
  shows "read_request_line mx (map Read_Bytes ps) acc = Inr line"
  using assms(1,4)
proof (induction ps arbitrary: acc)
  case Nil
  then have "acc = line @ [10]" by simp
  moreover have "takeWhile (\<lambda>b. b \<noteq> 10) (line @ [10]) = line" using assms(2) by (simp add: takeWhile_append)
  ultimately show ?case by (subst read_request_line.simps) simp
next
  case (Cons p ps)
  show ?case
  proof (cases "10 \<in> set acc")
    case True
    have "concat (p # ps) = []"
    proof (rule ccontr)
      assume "concat (p # ps) \<noteq> []"
      with Cons.prems(1) have "acc @ butlast (concat (p # ps)) = line" by (metis butlast_append butlast_snoc)
      with True assms(2) show False by auto
    qed
    then show ?thesis using Cons.prems(2) by simp
  next
    case False
    have l: "length acc + length p \<le> Suc (length line)"
      using arg_cong [OF Cons.prems(1), of length] by simp
    with Cons.prems(2) have small: "length acc < mx" "length p \<le> mx - length acc"
      using assms(3) by (cases p; simp)+
    with Cons.IH [of "acc @ p"] Cons.prems False show ?thesis
      by (subst read_request_line.simps) (auto simp: Let_def)
  qed
qed

lemma trim_ascii_object: "bs \<noteq> [] \<Longrightarrow> hd bs = 123 \<Longrightarrow> last bs = 125 \<Longrightarrow> trim_ascii (bs @ [10]) = bs"
proof -
  assume b: "bs \<noteq> []" "hd bs = 123" "last bs = 125"
  have h: "dropWhile ascii_ws (bs @ [10]) = bs @ [10]" using b(1,2) by (cases bs) (simp_all add: ascii_ws_def)
  have "dropWhile ascii_ws (rev bs) = rev bs"
    using b(1,3) by (cases bs rule: rev_cases) (simp_all add: ascii_ws_def)
  then show ?thesis by (simp add: trim_ascii_def h) (simp add: ascii_ws_def)
qed

text \<open>A query to a running daemon is its \<open>dispatch\<close>.\<close>

lemma socket_query_dispatch:
  assumes "json_laws J" "cuts pieces" "length (js_request J req) < MAX_HELPER_BYTES"
  shows "socket_query J (daemon_exchange J H show_error x uid pieces) req d =
    (case dispatch H show_error x uid req d of (resp, d') \<Rightarrow> (Inr resp, d'))"
proof -
  have q: "js_read_request J (js_request J req) = Some req" "10 \<notin> set (js_request J req)" "js_request J req \<noteq> []"
    using assms(1) by (simp_all add: json_laws_def)
  have r: "read_request_line MAX_HELPER_BYTES (map Read_Bytes (pieces (js_request J req @ [10]))) [] = Inr (js_request J req)"
    by (rule read_request_line_pieces) (use assms(2,3) q(2) in \<open>simp_all add: cuts_def\<close>)
  obtain resp d' where d: "dispatch H show_error x uid req d = (resp, d')" by fastforce
  have "js_read_response J (trim_ascii (js_response J resp @ [10])) = Some resp"
    using assms(1) trim_ascii_object by (simp add: json_laws_def)
  then show ?thesis by (simp add: socket_query_def daemon_exchange_def handle_helper_def r q d)
qed

end
