(* ===== verification/Cli_Commands.thy ===== *)
theory Cli_Commands
  imports Helper_Wire Connect_Line
begin

text \<open>
  The commands of the program (\<open>crates/quosh-cli/src/main.rs\<close>) up to the terminal session: the helper
  commands that run on the server and talk to its socket, and the client's side, which runs the
  former over ssh and reads what they print. Running a program is a parameter \<open>exec\<close>, from the list of its
  words to its output, that passes a state of the world on; so is the connection to the socket.
\<close>

definition REMOTE_QUOSH :: rstr where "REMOTE_QUOSH = lit ''/usr/local/bin/quosh''"
definition DEFAULT_PORT :: u16 where "DEFAULT_PORT = 443"

datatype cmd_error =
    Query query_error
  | Refused rstr
  | Missing_Field rstr
  | Bad_Hex rstr
  | Ssh_Missing
  | Ssh_Failed rstr
  | No_Connect_Line
  | Bad_Connect_Line proto_error
  | No_Reply
  | Bad_Json

section \<open>Strings\<close>

text \<open>\<open>str::lines\<close>: the pieces between line feeds without a carriage return at their end; what follows the
  last line feed is a line unless it is empty.\<close>

definition strip_cr :: "bytes \<Rightarrow> bytes" where
  "strip_cr l = (if l \<noteq> [] \<and> last l = 13 then butlast l else l)"

fun lines_from :: "bytes \<Rightarrow> bytes \<Rightarrow> rstr list" where
  "lines_from acc [] = (if acc = [] then [] else [rev acc])"
| "lines_from acc (b # bs) = (if b = 10 then strip_cr (rev acc) # lines_from [] bs else lines_from (b # acc) bs)"

definition str_lines :: "rstr \<Rightarrow> rstr list" where
  "str_lines s = lines_from [] s"

text \<open>The last line of which \<open>p\<close> holds: \<open>lines().rev().find(p)\<close>.\<close>

definition last_line :: "(rstr \<Rightarrow> bool) \<Rightarrow> rstr \<Rightarrow> rstr option" where
  "last_line p s = find p (rev (str_lines s))"

section \<open>Commands on the server\<close>

definition request_default :: helper_request where
  "request_default = \<lparr>hr_op = [], hr_cols = 0, hr_rows = 0, hr_kill_idle = False, hr_credential = None,
     hr_all = False, hr_sessions = False\<rparr>"

definition hex_field :: "(rstr \<Rightarrow> bytes option) \<Rightarrow> nat \<Rightarrow> rstr \<Rightarrow> rstr \<Rightarrow> rstr option \<Rightarrow> cmd_error + bytes" where
  "hex_field hex_decode n missing name s = (case s of
       None \<Rightarrow> Inl (Missing_Field missing)
     | Some h \<Rightarrow> (case hex_decode h of
           None \<Rightarrow> Inl (Bad_Hex h)
         | Some v \<Rightarrow> if length v = n then Inr v else Inl (Bad_Hex name)))"

definition hex16 :: "(rstr \<Rightarrow> bytes option) \<Rightarrow> rstr option \<Rightarrow> cmd_error + bytes" where
  "hex16 hex_decode s = hex_field hex_decode 16 (lit ''missing session_id'') (lit ''session_id'') s"

definition hex32 :: "(rstr \<Rightarrow> bytes option) \<Rightarrow> rstr option \<Rightarrow> cmd_error + bytes" where
  "hex32 hex_decode s = hex_field hex_decode 32 (lit ''missing hex'') (lit ''hex32'') s"

definition short :: "rstr \<Rightarrow> rstr" where
  "short s = take (min (length s) 16) s"

text \<open>The check of a reply that all commands but one begin with.\<close>

definition accepted :: "rstr \<Rightarrow> helper_response \<Rightarrow> cmd_error + helper_response" where
  "accepted otherwise resp = (if \<not> hs_ok resp then Inl (Refused (case hs_error resp of None \<Rightarrow> otherwise | Some e \<Rightarrow> e)) else Inr resp)"

text \<open>\<open>query\<close> is \<open>socket_query\<close> on the socket. The results are the bytes printed on standard output.\<close>

type_synonym 'w query = "helper_request \<Rightarrow> 'w \<Rightarrow> (query_error + helper_response) \<times> 'w"

definition connect_output :: "(bytes \<Rightarrow> rstr) \<Rightarrow> (rstr \<Rightarrow> bytes option) \<Rightarrow> helper_response \<Rightarrow> cmd_error + bytes" where
  "connect_output hex_encode hex_decode resp =
     res_bind (hex32 hex_decode (hs_cert_sha256 resp)) (\<lambda>hash.
     res_bind (hex16 hex_decode (hs_session_id resp)) (\<lambda>sid.
     res_bind (hex32 hex_decode (hs_token resp)) (\<lambda>token.
     Inr (format_connect_line hex_encode (case hs_port resp of None \<Rightarrow> DEFAULT_PORT | Some p \<Rightarrow> p) hash sid token @ [10]))))"

definition helper ::
  "json_lib \<Rightarrow> (bytes \<Rightarrow> rstr) \<Rightarrow> (rstr \<Rightarrow> bytes option) \<Rightarrow> 'w query \<Rightarrow> u16 \<Rightarrow> u16 \<Rightarrow> bool \<Rightarrow> bool \<Rightarrow> 'w \<Rightarrow> (cmd_error + bytes) \<times> 'w" where
  "helper J hex_encode hex_decode query cols rows kill idle_only w =
     (let req = request_default\<lparr>hr_op := (if idle_only then lit ''idle'' else lit ''create''), hr_cols := cols, hr_rows := rows,
                  hr_kill_idle := kill\<rparr> in
      case query req w of
        (Inl e, w') \<Rightarrow> (Inl (Query e), w')
      | (Inr resp, w') \<Rightarrow>
          (res_bind (accepted (lit ''create failed'') resp) (\<lambda>resp.
             if idle_only then Inr (js_response J resp @ [10]) else connect_output hex_encode hex_decode resp), w'))"

definition enroll_helper :: "json_lib \<Rightarrow> 'w query \<Rightarrow> 'w \<Rightarrow> (cmd_error + bytes) \<times> 'w" where
  "enroll_helper J query w = (case query (request_default\<lparr>hr_op := lit ''enroll-nonce''\<rparr>) w of
       (Inl e, w') \<Rightarrow> (Inl (Query e), w')
     | (Inr resp, w') \<Rightarrow> (Inr (js_response J resp @ [10]), w'))"

text \<open>\<open>show_int\<close> is the decimal text of an \<open>i64\<close>.\<close>

definition device_line :: "(int \<Rightarrow> rstr) \<Rightarrow> device_info \<Rightarrow> bytes" where
  "device_line show_int d = lit ''credential '' @ short (di_credential d) @ lit ''  '' @ di_user d @ lit ''  created '' @
     show_int (di_created d) @ lit ''  last used '' @
     (case di_last_used d of None \<Rightarrow> lit ''never'' | Some t \<Rightarrow> show_int t) @ [10]"

definition session_line :: "(int \<Rightarrow> rstr) \<Rightarrow> session_info \<Rightarrow> bytes" where
  "session_line show_int s = lit ''session '' @ short (si_token s) @ lit ''  last seen '' @ show_int (si_last_seen s) @ [10]"

definition cli_devices :: "(int \<Rightarrow> rstr) \<Rightarrow> 'w query \<Rightarrow> 'w \<Rightarrow> (cmd_error + bytes) \<times> 'w" where
  "cli_devices show_int query w = (case query (request_default\<lparr>hr_op := lit ''devices''\<rparr>) w of
       (Inl e, w') \<Rightarrow> (Inl (Query e), w')
     | (Inr resp, w') \<Rightarrow> (res_bind (accepted (lit ''devices failed'') resp) (\<lambda>resp.
         Inr ((if hs_devices resp = [] \<and> hs_sessions resp = [] then lit ''no enrolled devices or sessions'' @ [10] else []) @
           concat (map (device_line show_int) (hs_devices resp)) @ concat (map (session_line show_int) (hs_sessions resp)))), w'))"

definition cli_revoke :: "'w query \<Rightarrow> rstr option \<Rightarrow> bool \<Rightarrow> bool \<Rightarrow> 'w \<Rightarrow> (cmd_error + bytes) \<times> 'w" where
  "cli_revoke query credential everything sessions w =
     (case query (request_default\<lparr>hr_op := lit ''revoke'', hr_credential := credential, hr_all := everything, hr_sessions := sessions\<rparr>) w of
        (Inl e, w') \<Rightarrow> (Inl (Query e), w')
      | (Inr resp, w') \<Rightarrow> (res_bind (accepted (lit ''revoke failed'') resp) (\<lambda>resp.
          Inr (lit ''revoked '' @ dec_digits (case hs_revoked resp of None \<Rightarrow> 0 | Some n \<Rightarrow> n) @ [10])), w'))"

section \<open>Over ssh\<close>

record cmd_output =
  co_success :: bool
  co_stdout :: bytes
  co_stderr :: bytes

type_synonym 'w exec = "rstr list \<Rightarrow> 'w \<Rightarrow> cmd_output option \<times> 'w"

definition ssh_argv :: "rstr \<Rightarrow> rstr \<Rightarrow> rstr list \<Rightarrow> rstr list" where
  "ssh_argv ssh target rest = split_whitespace ssh @ [target, lit ''--'', REMOTE_QUOSH] @ filter (\<lambda>r. r \<noteq> []) rest"

definition ssh_helper :: "'w exec \<Rightarrow> rstr \<Rightarrow> rstr \<Rightarrow> rstr list \<Rightarrow> 'w \<Rightarrow> (cmd_error + rstr) \<times> 'w" where
  "ssh_helper exec ssh target rest w = (case exec (ssh_argv ssh target rest) w of
       (None, w') \<Rightarrow> (Inl Ssh_Missing, w')
     | (Some out, w') \<Rightarrow>
         (if \<not> co_success out
          then Inl (Ssh_Failed (lit ''ssh helper failed: '' @ utf8_lossy (co_stderr out) @ utf8_lossy (co_stdout out)))
          else Inr (utf8_lossy (co_stdout out)), w'))"

text \<open>The name after the last \<open>@\<close>.\<close>

definition after_at :: "rstr \<Rightarrow> rstr" where
  "after_at target = rev (takeWhile (\<lambda>b. b \<noteq> 64) (rev target))"

fun hostname_line :: "rstr list \<Rightarrow> rstr option" where
  "hostname_line [] = None"
| "hostname_line (l # ls) = (case split_whitespace l of
       w # h # _ \<Rightarrow> if w = lit ''hostname'' \<and> h \<noteq> [] then Some h else hostname_line ls
     | _ \<Rightarrow> hostname_line ls)"

definition ssh_hostname :: "'w exec \<Rightarrow> rstr \<Rightarrow> rstr \<Rightarrow> 'w \<Rightarrow> rstr \<times> 'w" where
  "ssh_hostname exec ssh target w =
     (if split_whitespace ssh = [] then (after_at target, w)
      else case exec (split_whitespace ssh @ [lit ''-G'', target]) w of
          (None, w') \<Rightarrow> (after_at target, w')
        | (Some out, w') \<Rightarrow>
            (if \<not> co_success out then after_at target
             else (case hostname_line (str_lines (utf8_lossy (co_stdout out))) of None \<Rightarrow> after_at target | Some h \<Rightarrow> h), w'))"

definition wt_url :: "rstr \<Rightarrow> u16 \<Rightarrow> rstr" where
  "wt_url host port = lit ''https://'' @
     (if 58 \<in> set host \<and> \<not> starts_with host (lit ''['') then lit ''['' @ host @ lit '']'' else host) @
     lit '':'' @ dec_digits (unat port) @ WT_PATH"

text \<open>The question about idle sessions, asked only on a terminal; a failure to find out is not an error.\<close>

definition idle_prompt :: "nat \<Rightarrow> rstr" where
  "idle_prompt n = lit ''There's '' @ dec_digits n @ lit '' idle connection'' @ (if n = 1 then [] else lit ''s'') @
     lit ''. Kill '' @ (if n = 1 then lit ''it'' else lit ''them'') @ lit ''? [y/N] ''"

definition kill_answer :: "rstr \<Rightarrow> bool" where
  "kill_answer ans \<longleftrightarrow> str_trim ans = lit ''y'' \<or> str_trim ans = lit ''Y'' \<or> str_trim ans = lit ''yes''"

definition ask_kill :: "json_lib \<Rightarrow> 'w exec \<Rightarrow> rstr \<Rightarrow> rstr \<Rightarrow> bool \<Rightarrow> rstr \<Rightarrow> 'w \<Rightarrow> bool \<times> 'w" where
  "ask_kill J exec ssh target is_tty ans w =
     (if \<not> is_tty then (False, w)
      else case ssh_helper exec ssh target
          [lit ''create-session'', lit ''--idle-only'', lit ''--cols'', lit ''1'', lit ''--rows'', lit ''1''] w of
        (Inl e, w') \<Rightarrow> (False, w')
      | (Inr raw, w') \<Rightarrow> (case js_read_response J (str_trim raw) of
            None \<Rightarrow> (False, w')
          | Some resp \<Rightarrow> (hs_idle resp \<noteq> [] \<and> kill_answer ans, w')))"

definition create_args :: "u16 \<Rightarrow> u16 \<Rightarrow> bool \<Rightarrow> rstr list" where
  "create_args cols rows kill = [lit ''create-session'', lit ''--cols'', dec_digits (unat cols), lit ''--rows'', dec_digits (unat rows)] @
     (if kill then [lit ''--kill-idle''] else [])"

definition connect_details ::
  "(rstr \<Rightarrow> bytes option) \<Rightarrow> 'w exec \<Rightarrow> rstr \<Rightarrow> rstr \<Rightarrow> rstr list \<Rightarrow> 'w \<Rightarrow> (cmd_error + u16 \<times> bytes \<times> bytes \<times> bytes) \<times> 'w" where
  "connect_details hex_decode exec ssh target args w = (case ssh_helper exec ssh target args w of
       (Inl e, w') \<Rightarrow> (Inl e, w')
     | (Inr out, w') \<Rightarrow> (case last_line (\<lambda>l. starts_with l CONNECT_PREFIX) out of
           None \<Rightarrow> (Inl No_Connect_Line, w')
         | Some line \<Rightarrow> (case parse_connect_line hex_decode line of
               Inl e \<Rightarrow> (Inl (Bad_Connect_Line e), w')
             | Inr r \<Rightarrow> (Inr r, w'))))"

text \<open>The client command up to \<open>run_session\<close>: the host, the port, the certificate hash, the session, the
  token and the title it is called with.\<close>

definition client_start ::
  "json_lib \<Rightarrow> (rstr \<Rightarrow> bytes option) \<Rightarrow> 'w exec \<Rightarrow> rstr \<Rightarrow> rstr \<Rightarrow> u16 \<times> u16 \<Rightarrow> bool \<Rightarrow> rstr \<Rightarrow> 'w \<Rightarrow>
   (cmd_error + rstr \<times> u16 \<times> bytes \<times> bytes \<times> bytes \<times> rstr) \<times> 'w" where
  "client_start J hex_decode exec ssh target sz is_tty ans w = (case sz of (cols, rows) \<Rightarrow>
     (case ask_kill J exec ssh target is_tty ans w of (kill, w1) \<Rightarrow>
       (case connect_details hex_decode exec ssh target (create_args cols rows kill) w1 of
          (Inl e, w2) \<Rightarrow> (Inl e, w2)
        | (Inr (port, hash, sid, token), w2) \<Rightarrow> (case ssh_hostname exec ssh target w2 of
            (host, w3) \<Rightarrow> (Inr (host, port, hash, sid, token, lit ''quosh: '' @ target), w3)))))"

section \<open>Enrolment\<close>

record enroll_link =
  el_host :: rstr
  el_port :: u16
  el_hash :: rstr
  el_nonce :: rstr
  el_user :: rstr

text \<open>The name before the first \<open>@\<close>.\<close>

definition before_at :: "rstr \<Rightarrow> rstr" where
  "before_at target = takeWhile (\<lambda>b. b \<noteq> 64) target"

definition enroll_url :: "(enroll_link \<Rightarrow> rstr) \<Rightarrow> rstr \<Rightarrow> enroll_link \<Rightarrow> rstr" where
  "enroll_url encoded base_url p = rev (dropWhile (\<lambda>b. b = 47) (rev base_url)) @ lit ''/e#enroll='' @ encoded p"

text \<open>\<open>encoded\<close> is the base64 text of the link as JSON, with version 1.\<close>

definition cli_enroll ::
  "json_lib \<Rightarrow> (enroll_link \<Rightarrow> rstr) \<Rightarrow> 'w exec \<Rightarrow> rstr \<Rightarrow> rstr \<Rightarrow> rstr \<Rightarrow> 'w \<Rightarrow> (cmd_error + bytes) \<times> 'w" where
  "cli_enroll J encoded exec ssh target base_url w = (case ssh_helper exec ssh target [lit ''enroll-helper''] w of
       (Inl e, w1) \<Rightarrow> (Inl e, w1)
     | (Inr raw, w1) \<Rightarrow> (case last_line (\<lambda>l. starts_with (str_trim_start l) (lit ''{'')) raw of
           None \<Rightarrow> (Inl No_Reply, w1)
         | Some json \<Rightarrow> (case js_read_response J (str_trim json) of
               None \<Rightarrow> (Inl Bad_Json, w1)
             | Some resp \<Rightarrow> (case accepted (lit ''enrol failed'') resp of
                   Inl e \<Rightarrow> (Inl e, w1)
                 | Inr resp \<Rightarrow> (case ssh_hostname exec ssh target w1 of (host, w2) \<Rightarrow>
                     (case (hs_cert_sha256 resp, hs_nonce resp) of
                        (None, _) \<Rightarrow> (Inl (Missing_Field (lit ''missing cert hash'')), w2)
                      | (Some h, None) \<Rightarrow> (Inl (Missing_Field (lit ''missing nonce'')), w2)
                      | (Some h, Some n) \<Rightarrow>
                          (Inr (enroll_url encoded base_url
                             \<lparr>el_host = host, el_port = (case hs_port resp of None \<Rightarrow> DEFAULT_PORT | Some p \<Rightarrow> p), el_hash = h,
                              el_nonce = n, el_user = (case hs_user resp of None \<Rightarrow> before_at target | Some u \<Rightarrow> u)\<rparr> @ [10]), w2)))))))"

section \<open>Lines\<close>

lemma lines_from_append: "lines_from acc (a @ 10 # b) = lines_from acc (a @ [10]) @ lines_from [] b"
  by (induction a arbitrary: acc) simp_all

text \<open>A line of the output is found from the end when no later line has the prefix.\<close>

lemma last_line_found:
  assumes "pre = [] \<or> last pre = 10" "10 \<notin> set line" "line \<noteq> []" "last line \<noteq> 13" "p line" "list_all (\<lambda>l. \<not> p l) (str_lines post)"
  shows "last_line p (pre @ line @ 10 # post) = Some line"
proof -
  have one: "lines_from acc (line @ [10]) = [strip_cr (rev acc @ line)]" if "10 \<notin> set line" for line acc :: bytes
    using that by (induction line arbitrary: acc) auto
  have "str_lines (line @ 10 # post) = line # str_lines post"
    using lines_from_append [of "[]" line post] one [OF assms(2), of "[]"] assms(3,4) by (simp add: str_lines_def strip_cr_def)
  moreover have "str_lines (pre @ x) = str_lines pre @ str_lines x" for x
  proof (cases "pre = []")
    case False
    then obtain q where "pre = q @ [10]" using assms(1) by (metis append_butlast_last_id)
    then show ?thesis using lines_from_append [of "[]" q x] by (simp add: str_lines_def)
  qed (simp add: str_lines_def)
  ultimately have "last_line p (pre @ line @ 10 # post) = find p (rev (str_lines post) @ line # rev (str_lines pre))"
    by (simp add: last_line_def)
  moreover have "find p (xs @ ys) = find p ys" if "list_all (\<lambda>l. \<not> p l) xs" for xs ys
    using that by (induction xs) simp_all
  ultimately show ?thesis using assms(5,6) by simp
qed

text \<open>With a blank ssh command the target is run as a program.\<close>

lemma blank_ssh_runs_target: "list_all blank_byte ssh \<Longrightarrow> hd (ssh_argv ssh target rest) = target"
proof -
  assume b: "list_all blank_byte ssh"
  have "words_of (map (\<lambda>b. [b]) ssh) = []"
    using b by (induction ssh) (simp_all add: words_of.simps [of "[]"] words_of_space blank_byte_def)
  moreover have "utf8_chars ssh = map (\<lambda>b. [b]) ssh" using b by (intro utf8_ascii(2)) (auto simp: list_all_iff blank_byte_def)
  ultimately show ?thesis by (simp add: ssh_argv_def split_whitespace_def)
qed

end
