(* ===== verification/Bootstrap.thy ===== *)
theory Bootstrap
  imports Cli_Commands Auth_Props Client_Props "HOL-Library.Countable"
begin

text \<open>
  How a native client comes to its session: the command line asks for one over ssh, the helper on the
  server asks the daemon, prints the connect line, the client finds it in what ssh gives it, and its
  hello is accepted for the session that was created. The parts are \<open>Cli_Commands\<close>, \<open>Helper_Wire\<close>,
  \<open>Helper\<close>, \<open>Connect_Line\<close>, \<open>Client\<close> and \<open>Transport\<close>.
\<close>

section \<open>The line in the output\<close>

lemma utf8_valid_append: "utf8_valid a \<Longrightarrow> utf8_valid b \<Longrightarrow> utf8_valid (a @ b)"
proof (induction a rule: utf8_valid.induct)
  case (1 a)
  show ?case
  proof (cases "a = []")
    case False
    let ?n = "snd (utf8_step a)"
    from False "1.prems"(1) have a: "fst (utf8_step a)" "utf8_valid (drop ?n a)" by (simp_all add: utf8_valid.simps [of a])
    with "1.IH" False "1.prems"(2) have "utf8_valid (drop ?n a @ b)" by blast
    from utf8_valid_append_step [OF a(1) False this] show ?thesis by (simp flip: append_assoc)
  qed (use 1 in simp)
qed

definition line_byte :: "byte \<Rightarrow> bool" where
  "line_byte b \<longleftrightarrow> graph_byte b \<or> b = 32"

lemma line_byte_plain: "line_byte b \<Longrightarrow> b < 0x80 \<and> b \<noteq> 10 \<and> b \<noteq> 13"
  by (auto simp: line_byte_def graph_byte_def word_le_nat_alt word_less_nat_alt)

lemma connect_line_plain:
  assumes "hex_laws enc dec"
  shows "list_all line_byte (format_connect_line enc port hash sid tok)"
    and "starts_with (format_connect_line enc port hash sid tok) CONNECT_PREFIX"
    and "format_connect_line enc port hash sid tok \<noteq> []"
proof -
  have "list_all line_byte (enc b)" for b
    using assms hex_digit_graph by (auto simp: hex_laws_def list_all_iff line_byte_def)
  moreover have "list_all line_byte (dec_digits n)" for n
    using dec_digits_digits [of n] is_digit_graph by (auto simp: list_all_iff line_byte_def)
  moreover have "list_all line_byte CONNECT_PREFIX"
    by (simp add: CONNECT_PREFIX_def lit_def of_char_def line_byte_def graph_byte_def)
  ultimately show "list_all line_byte (format_connect_line enc port hash sid tok)"
    by (simp add: format_connect_line_def lit_space line_byte_def)
  show "starts_with (format_connect_line enc port hash sid tok) CONNECT_PREFIX"
    "format_connect_line enc port hash sid tok \<noteq> []"
    by (simp_all add: starts_with_def format_connect_line_def CONNECT_PREFIX_def lit_def)
qed

lemma connect_details_found:
  assumes "hex_laws enc dec" "length hash = 32" "length sid = 16" "length tok = 32"
    and "pre = [] \<or> last pre = 10" "utf8_valid pre" "utf8_valid post"
    and "list_all (\<lambda>l. \<not> starts_with l CONNECT_PREFIX) (str_lines post)"
    and "exec (ssh_argv ssh target args) w =
      (Some \<lparr>co_success = True, co_stdout = pre @ (format_connect_line enc port hash sid tok @ [10]) @ post, co_stderr = er\<rparr>, w')"
  shows "connect_details dec exec ssh target args w = (Inr (port, hash, sid, tok), w')"
proof -
  let ?line = "format_connect_line enc port hash sid tok"
  note p = connect_line_plain [OF assms(1), where port = port and hash = hash and sid = sid and tok = tok]
  have plain: "list_all (\<lambda>b. b < 0x80) ?line" "10 \<notin> set ?line" "13 \<notin> set ?line"
    using p(1) line_byte_plain by (auto simp: list_all_iff)
  have "utf8_valid (?line @ [10])" using plain(1) by (intro utf8_ascii(1)) simp
  then have v: "utf8_lossy (pre @ ?line @ 10 # post) = pre @ ?line @ 10 # post"
    using utf8_valid_append [OF assms(6) utf8_valid_append [OF _ assms(7)], of "?line @ [10]"] by (simp add: utf8_lossy_valid)
  have "last ?line \<noteq> 13" using plain(3) p(3) last_in_set by metis
  from last_line_found [OF assms(5) plain(2) p(3) this, where p = "\<lambda>l. starts_with l CONNECT_PREFIX", OF p(2) assms(8)]
  have f: "last_line (\<lambda>l. starts_with l CONNECT_PREFIX) (pre @ ?line @ 10 # post) = Some ?line" .
  have "parse_connect_line dec ([] @ ?line @ []) = Inr (port, hash, sid, tok)"
    by (rule connect_line_roundtrip [OF assms(1-4)]) simp_all
  with assms(9) v f show ?thesis by (simp add: connect_details_def ssh_helper_def)
qed

section \<open>The session behind it\<close>

definition create_request :: "u16 \<Rightarrow> u16 \<Rightarrow> bool \<Rightarrow> helper_request" where
  "create_request cols rows kill =
     request_default\<lparr>hr_op := lit ''create'', hr_cols := cols, hr_rows := rows, hr_kill_idle := kill\<rparr>"

lemma dispatch_create:
  assumes "hd_cert x = Inr hash" "dispatch H show_error x uid (create_request cols rows kill) d = (resp, d')" "hs_ok resp"
  shows "hs_port resp = Some (dm_port d)" "hs_cert_sha256 resp = Some (ho_hex H hash)"
    "hs_session_id resp = Some (ho_hex H (hd_sid x))" "hs_token resp = Some (ho_hex H (hd_token x))"
    and "\<exists>s. map_of (dm_sessions d') (hd_sid x) = Some s \<and> se_token s = hd_token x \<and> se_uid s = uid"
proof -
  let ?base = "response_default\<lparr>hs_ok := True, hs_port := Some (dm_port d), hs_cert_sha256 := Some (ho_hex H hash)\<rparr>"
  define d1 where "d1 = (if kill then snd (kill_idle uid (hd_now_ms x) d) else d)"
  have ops: "lit ''create'' \<noteq> lit ''idle''" "lit ''create'' \<noteq> lit ''ping''" by (simp_all add: lit_def of_char_def)
  have "create_session H (hd_sid x) (hd_token x) (hd_spawned x) (hd_now_ms x) uid (create_request cols rows kill) ?base d = (resp, d')"
    using assms(1,2) ops by (simp add: dispatch_def create_request_def)
  then obtain c r q where s: "spawn_session H (hd_sid x) (hd_token x) (hd_spawned x) (hd_now_ms x) uid c r d1 = (q, d')"
    and resp: "resp = (case q of Inl e \<Rightarrow> (fail e)\<lparr>hs_idle := collect_idle H uid (hd_now_ms x) d\<rparr>
      | Inr (sid, token) \<Rightarrow> ?base\<lparr>hs_session_id := Some (ho_hex H sid), hs_token := Some (ho_hex H token),
          hs_idle := collect_idle H uid (hd_now_ms x) d\<rparr>)"
    by (auto simp: create_session_def create_request_def d1_def Let_def split: prod.splits sum.splits)
  have "\<exists>y. q = Inr y" using assms(3) resp by (cases q) (simp_all add: fail_def response_default_def)
  then obtain c' r' where q: "q = Inr (hd_sid x, hd_token x)"
    "d' = d1\<lparr>dm_sessions := AList.update (hd_sid x) (session_new (hd_sid x) (hd_token x) uid c' r' (hd_now_ms x)) (dm_sessions d1)\<rparr>"
    using s by (auto simp: spawn_session_def split: sum.splits prod.splits if_splits option.splits)
  show "hs_port resp = Some (dm_port d)" "hs_cert_sha256 resp = Some (ho_hex H hash)"
    "hs_session_id resp = Some (ho_hex H (hd_sid x))" "hs_token resp = Some (ho_hex H (hd_token x))"
    by (simp_all add: resp q(1))
  show "\<exists>s. map_of (dm_sessions d') (hd_sid x) = Some s \<and> se_token s = hd_token x \<and> se_uid s = uid"
    by (simp add: q(2) update_conv' session_new_def)
qed

text \<open>What ssh gives of a command on the server: its output between other lines, and whether it succeeded.\<close>

definition over_ssh :: "bytes \<Rightarrow> bytes \<Rightarrow> (cmd_error + bytes) \<times> 'w \<Rightarrow> cmd_output option \<times> 'w" where
  "over_ssh pre post res = (case res of (r, w) \<Rightarrow>
     (Some \<lparr>co_success = is_ok r, co_stdout = pre @ (case r of Inl e \<Rightarrow> [] | Inr out \<Rightarrow> out) @ post, co_stderr = []\<rparr>, w))"

definition client_hello_of :: "bytes \<Rightarrow> bytes \<Rightarrow> u16 \<Rightarrow> u16 \<Rightarrow> hello" where
  "client_hello_of sid token cols rows =
     \<lparr>h_protocol = PROTOCOL_VERSION, h_session_id = sid, h_token = token, h_cols = cols, h_rows = rows\<rparr>"

text \<open>C36: A session that the daemon creates for a request over ssh is the one its client attaches to. If what
  ssh prints is valid UTF-8 and the connect line stands on a line of its own, what comes before it
  being empty or ending its last line, and if no later line begins like a connect line, the client ends
  with the port, the certificate hash, the session id and the token the daemon chose, and the hello it
  then sends is accepted, without further authentication, for a session of the user who asked. (An
  unterminated line before it hides the connect line, and of several the client takes the last.)\<close>

theorem ssh_bootstrap:
  assumes "hex_laws (ho_hex H) dec" "json_laws J" "cuts pieces"
    and "length (js_request J (create_request cols rows kill)) < MAX_HELPER_BYTES"
    and "hd_cert x = Inr hash" "length hash = 32" "length (hd_sid x) = 16" "length (hd_token x) = 32"
    and "dispatch H show_error x uid (create_request cols rows kill) d = (resp, d')" "hs_ok resp"
    and "exec (ssh_argv ssh target (create_args cols rows kill)) d = over_ssh pre post
      (helper J (ho_hex H) dec (socket_query J (daemon_exchange J H show_error x uid pieces)) cols rows kill False d)"
    and "pre = [] \<or> last pre = 10" "utf8_valid pre" "utf8_valid post"
    and "list_all (\<lambda>l. \<not> starts_with l CONNECT_PREFIX) (str_lines post)"
  shows "connect_details dec exec ssh target (create_args cols rows kill) d = (Inr (dm_port d, hash, hd_sid x, hd_token x), d') \<and>
    (\<exists>p s. client_hello (client_new F (hd_sid x) (hd_token x) cols rows never) = encode_frame MSG_HELLO p \<and>
       check_hello (map_of (dm_sessions d')) None MSG_HELLO p = Inr (client_hello_of (hd_sid x) (hd_token x) cols rows, s) \<and>
       se_uid s = uid)"
proof
  note created = dispatch_create [OF assms(5,9,10)]
  have hx: "dec (ho_hex H b) = Some b" for b using assms(1) by (simp add: hex_laws_def)
  have q: "socket_query J (daemon_exchange J H show_error x uid pieces) (create_request cols rows kill) d = (Inr resp, d')"
    using socket_query_dispatch [OF assms(2-4), of H show_error x uid d] assms(9) by simp
  have h: "helper J (ho_hex H) dec (socket_query J (daemon_exchange J H show_error x uid pieces)) cols rows kill False d =
      (Inr (format_connect_line (ho_hex H) (dm_port d) hash (hd_sid x) (hd_token x) @ [10]), d')"
    using q assms(6-8,10) created(1-4) hx
    by (simp add: helper_def create_request_def accepted_def connect_output_def hex32_def hex16_def hex_field_def)
  show "connect_details dec exec ssh target (create_args cols rows kill) d = (Inr (dm_port d, hash, hd_sid x, hd_token x), d')"
    by (rule connect_details_found [OF assms(1,6-8,12-15), where er = "[]"]) (simp add: assms(11) h over_ssh_def)
  obtain s where s: "map_of (dm_sessions d') (hd_sid x) = Some s" "se_token s = hd_token x" "se_uid s = uid"
    using created(5) by blast
  let ?p = "le16 PROTOCOL_VERSION @ hd_sid x @ hd_token x @ le16 cols @ le16 rows"
  have "hello_decode ?p = Inr (client_hello_of (hd_sid x) (hd_token x) cols rows)"
    using assms(7,8) by (simp add: hello_decode_def client_hello_of_def byte_simps)
  then have "check_hello (map_of (dm_sessions d')) None MSG_HELLO ?p = Inr (client_hello_of (hd_sid x) (hd_token x) cols rows, s)"
    using s by (simp add: check_hello_Inr client_hello_of_def)
  moreover have "client_hello (client_new F (hd_sid x) (hd_token x) cols rows never) = encode_frame MSG_HELLO ?p"
    by (simp add: client_hello_def client_new_def hello_encode_def)
  ultimately show "\<exists>p s. client_hello (client_new F (hd_sid x) (hd_token x) cols rows never) = encode_frame MSG_HELLO p \<and>
       check_hello (map_of (dm_sessions d')) None MSG_HELLO p = Inr (client_hello_of (hd_sid x) (hd_token x) cols rows, s) \<and>
       se_uid s = uid" using s(3) by blast
qed

section \<open>An example\<close>

text \<open>A codec that satisfies the laws: a value is written as a number in unary, except one request that is
  written short.\<close>

definition request_fields where
  "request_fields q = (hr_op q, hr_cols q, hr_rows q, hr_kill_idle q, hr_credential q, hr_all q, hr_sessions q)"

definition request_of where
  "request_of x = (case x of (op, cols, rows, kill, cred, al, sess) \<Rightarrow>
     \<lparr>hr_op = op, hr_cols = cols, hr_rows = rows, hr_kill_idle = kill, hr_credential = cred, hr_all = al, hr_sessions = sess\<rparr>)"

definition response_fields where
  "response_fields r = (hs_ok r, hs_error r, hs_session_id r, hs_token r, hs_port r, hs_cert_sha256 r,
     map (\<lambda>i. (ii_id i, ii_idle_secs i)) (hs_idle r), hs_nonce r, hs_user r,
     map (\<lambda>i. (di_credential i, di_user i, di_created i, di_last_used i)) (hs_devices r),
     map (\<lambda>i. (si_token i, si_last_seen i)) (hs_sessions r), hs_revoked r)"

definition response_of where
  "response_of x = (case x of (a, b, c, d, e, f, g, h, i, j, k, l) \<Rightarrow>
     \<lparr>hs_ok = a, hs_error = b, hs_session_id = c, hs_token = d, hs_port = e, hs_cert_sha256 = f,
      hs_idle = map (\<lambda>(u, v). \<lparr>ii_id = u, ii_idle_secs = v\<rparr>) g, hs_nonce = h, hs_user = i,
      hs_devices = map (\<lambda>(u, v, w, z). \<lparr>di_credential = u, di_user = v, di_created = w, di_last_used = z\<rparr>) j,
      hs_sessions = map (\<lambda>(u, v). \<lparr>si_token = u, si_last_seen = v\<rparr>) k, hs_revoked = l\<rparr>)"

lemma fields_inverse: "request_of (request_fields q) = q" "response_of (response_fields r) = r"
proof -
  have lists: "map (\<lambda>x. \<lparr>ii_id = ii_id x, ii_idle_secs = ii_idle_secs x\<rparr>) is = is"
    "map (\<lambda>x. \<lparr>di_credential = di_credential x, di_user = di_user x, di_created = di_created x, di_last_used = di_last_used x\<rparr>) ds = ds"
    "map (\<lambda>x. \<lparr>si_token = si_token x, si_last_seen = si_last_seen x\<rparr>) ss = ss" for "is" ds ss
    by (rule map_idI; simp)+
  show "request_of (request_fields q) = q" "response_of (response_fields r) = r"
    by (simp_all add: request_of_def request_fields_def response_of_def response_fields_def comp_def lists)
qed

definition create_ex :: helper_request where "create_ex = create_request 80 24 False"

definition json_ex :: json_lib where
  "json_ex = \<lparr>js_request = (\<lambda>q. if q = create_ex then [49] else replicate (Suc (to_nat (request_fields q))) 48),
     js_read_request = (\<lambda>b. if b = [49] then Some create_ex else Some (request_of (from_nat (length b - 1)))),
     js_response = (\<lambda>r. 123 # replicate (to_nat (response_fields r)) 48 @ [125]),
     js_read_response = (\<lambda>b. Some (response_of (from_nat (length b - 2))))\<rparr>"

lemma json_ex_laws: "json_laws json_ex"
proof -
  have "replicate (Suc n) (48 :: byte) \<noteq> [49]" for n by (cases n) simp_all
  then show ?thesis by (simp add: json_laws_def json_ex_def fields_inverse del: replicate.simps)
qed

definition host_ex :: host where
  "host_ex = \<lparr>ho_hex = hex_enc_ex, ho_max_cells = 262144, ho_unix_name = (\<lambda>_. None)\<rparr>"

definition draw_ex :: helper_draw where
  "draw_ex = \<lparr>hd_cert = Inr (replicate 32 1), hd_sid = replicate 16 2, hd_token = replicate 32 3, hd_nonce = [],
     hd_spawned = None, hd_saved = True, hd_now = 0, hd_now_ms = 0\<rparr>"

text \<open>A server whose shell greets everybody, before and after.\<close>

definition exec_ex :: "daemon exec" where
  "exec_ex argv d = (if argv = ssh_argv (lit ''ssh'') (lit ''a@b'') (create_args 80 24 False)
     then over_ssh (lit ''hello'' @ [10]) (lit ''bye'') (helper json_ex (ho_hex host_ex) hex_dec_ex
       (socket_query json_ex (daemon_exchange json_ex host_ex (\<lambda>_. []) draw_ex 7 (\<lambda>b. if b = [] then [] else [b]))) 80 24 False False d)
     else (None, d))"

lemma dispatch_ex: "hs_ok (fst (dispatch host_ex (\<lambda>_. []) draw_ex 7 (create_request 80 24 False) daemon_ex))"
proof -
  have "lit ''create'' \<noteq> lit ''idle''" "lit ''create'' \<noteq> lit ''ping''" by (simp_all add: lit_def of_char_def)
  moreover have "validate_dims 262144 80 24 = Inr (80, 24)"
    by (simp add: validate_dims_def MIN_COLS_def MIN_ROWS_def MAX_COLS_def MAX_ROWS_def)
  ultimately show ?thesis
    by (simp add: dispatch_def create_request_def create_session_def spawn_session_def request_default_def draw_ex_def host_ex_def
        daemon_ex_def MAX_SESSIONS_def MAX_PER_UID_def session_ex_def Let_def split_def)
qed

theorem ssh_bootstrap_witness:
  "\<exists>d'. connect_details hex_dec_ex exec_ex (lit ''ssh'') (lit ''a@b'') (create_args 80 24 False) daemon_ex =
     (Inr (1, replicate 32 1, replicate 16 2, replicate 32 3), d')"
proof -
  obtain resp d' where d: "dispatch host_ex (\<lambda>_. []) draw_ex 7 (create_request 80 24 False) daemon_ex = (resp, d')" by fastforce
  have ok: "hs_ok resp" using dispatch_ex by (simp add: d)
  have cut: "cuts (\<lambda>b. if b = [] then [] else [b])" by (simp add: cuts_def)
  have small: "length (js_request json_ex (create_request 80 24 False)) < MAX_HELPER_BYTES"
    by (simp add: json_ex_def create_ex_def MAX_HELPER_BYTES_def)
  have laws: "hex_laws (ho_hex host_ex) hex_dec_ex" using hex_ex_laws by (simp add: host_ex_def)
  have plain: "utf8_valid (lit ''hello'' @ [10])" "utf8_valid (lit ''bye'')" by (simp_all add: lit_def of_char_def)
  have quiet: "list_all (\<lambda>l. \<not> starts_with l CONNECT_PREFIX) (str_lines (lit ''bye''))"
    by (simp add: str_lines_def lit_def of_char_def starts_with_def CONNECT_PREFIX_def)
  have draws: "hd_cert draw_ex = Inr (replicate 32 1)" "hd_sid draw_ex = replicate 16 2" "hd_token draw_ex = replicate 32 3"
    by (simp_all add: draw_ex_def)
  have len: "length (replicate 32 1 :: bytes) = 32" "length (hd_sid draw_ex) = 16" "length (hd_token draw_ex) = 32"
    by (simp_all add: draws)
  have ex: "exec_ex (ssh_argv (lit ''ssh'') (lit ''a@b'') (create_args 80 24 False)) daemon_ex =
      over_ssh (lit ''hello'' @ [10]) (lit ''bye'') (helper json_ex (ho_hex host_ex) hex_dec_ex
       (socket_query json_ex (daemon_exchange json_ex host_ex (\<lambda>_. []) draw_ex 7 (\<lambda>b. if b = [] then [] else [b]))) 80 24 False False daemon_ex)"
    by (simp add: exec_ex_def)
  have nl: "lit ''hello'' @ [10] = [] \<or> last (lit ''hello'' @ [10]) = 10" by simp
  from ssh_bootstrap [where exec = exec_ex and ssh = "lit ''ssh''" and target = "lit ''a@b''" and d = daemon_ex and H = host_ex and
      x = draw_ex and show_error = "\<lambda>_. []" and pieces = "\<lambda>b. if b = [] then [] else [b]" and J = json_ex and uid = 7 and
      cols = 80 and rows = 24 and kill = False and F = client_lib_ex and never = True,
      OF laws json_ex_laws cut small draws(1) len d ok ex nl plain quiet]
  show ?thesis by (auto simp: draws daemon_ex_def)
qed

end
