(* ===== verification/Bindings.thy ===== *)
theory Bindings
  imports Client_Props Auth_Messages Predict_Gate Connect_Line
begin

text \<open>
  The bindings a browser calls: \<open>crates/quosh-client-wasm/src/lib.rs\<close> (the client),
  \<open>crates/quosh-predict-wasm/src/lib.rs\<close> (the predictor) and \<open>crates/quosh-proto-wasm/src/lib.rs\<close> (codecs
  and the feed). They check lengths, convert between JavaScript's numbers and the integers of the
  core, and call it. \<open>usize\<close> has 32 bits here; arithmetic on it wraps, as in a release build.
\<close>

section \<open>Numbers\<close>

text \<open>An \<open>f64\<close>, up to the sign of zero: the finite ones are rationals.\<close>

datatype js_num = Number rat | Infinity bool | Not_A_Number

text \<open>\<open>as u64\<close> drops the fraction and saturates, and makes zero of what is not a number.\<close>

definition js_u64 :: "js_num \<Rightarrow> u64" where
  "js_u64 x = (case x of
       Not_A_Number \<Rightarrow> 0
     | Infinity negative \<Rightarrow> if negative then 0 else 0xFFFFFFFFFFFFFFFF
     | Number q \<Rightarrow> (let n = \<lfloor>q\<rfloor> in if n < 0 then 0 else if n \<ge> 2 ^ 64 then 0xFFFFFFFFFFFFFFFF else of_int n))"

fun bit_length :: "nat \<Rightarrow> nat" where
  "bit_length n = (if n = 0 then 0 else Suc (bit_length (n div 2)))"

declare bit_length.simps [simp del]

text \<open>\<open>as f64\<close>: to 53 bits, to the nearest, of two equally near the even one.\<close>

definition round_53 :: "nat \<Rightarrow> nat" where
  "round_53 n = (if bit_length n \<le> 53 then n
     else (let e = bit_length n - 53; q = n div 2 ^ e; r = n mod 2 ^ e; half = 2 ^ (e - 1) in
       (if r > half \<or> r = half \<and> odd q then q + 1 else q) * 2 ^ e))"

definition js_of_u64 :: "u64 \<Rightarrow> js_num" where
  "js_of_u64 w = Number (of_nat (round_53 (unat w)))"

section \<open>Lengths\<close>

datatype js_error = Js_Text rstr | Js_Proto proto_error | Js_Client client_error

definition arr16 :: "bytes \<Rightarrow> js_error + bytes" where
  "arr16 b = (if length b = 16 then Inr b else Inl (Js_Text (lit ''expected 16 bytes'')))"

definition arr32 :: "bytes \<Rightarrow> js_error + bytes" where
  "arr32 b = (if length b = 32 then Inr b else Inl (Js_Text (lit ''expected 32 bytes'')))"

definition js_err :: "proto_error + 'a \<Rightarrow> js_error + 'a" where
  "js_err r = map_sum Js_Proto id r"

section \<open>The client\<close>

definition wasm_client_new ::
  "('f, 'v, 'z) client_lib_scheme \<Rightarrow> bytes \<Rightarrow> bytes \<Rightarrow> u16 \<Rightarrow> u16 \<Rightarrow> bool \<Rightarrow> js_error + ('f, 'v) client" where
  "wasm_client_new F session_id token cols rows never =
     res_bind (arr16 session_id) (\<lambda>sid. res_bind (arr32 token) (\<lambda>tok. Inr (client_new F sid tok cols rows never)))"

text \<open>The calls that change the client, with what they return.\<close>

datatype js_call =
    Js_Begin js_num
  | Js_End
  | Js_Reset
  | Js_Receive bytes js_num
  | Js_Datagram bytes js_num
  | Js_Input bytes js_num
  | Js_Size u16 u16
  | Js_Hang_Up
  | Js_Tick js_num
  | Js_Pump
  | Js_Advance nat

datatype js_result = Js_Done | Js_Thrown js_error | Js_Alive bool

fun wasm_call :: "('f, 'v, 'z) client_lib_scheme \<Rightarrow> js_call \<Rightarrow> ('f, 'v) client \<Rightarrow> js_result \<times> ('f, 'v) client" where
  "wasm_call F (Js_Begin now_ms) c = (Js_Done, begin_connection (js_u64 now_ms) c)"
| "wasm_call F Js_End c = (Js_Done, end_connection c)"
| "wasm_call F Js_Reset c = (Js_Done, client_reset c)"
| "wasm_call F (Js_Receive bs now_ms) c = (case recv_control F bs (js_u64 now_ms) c of
     (c', e) \<Rightarrow> ((case e of None \<Rightarrow> Js_Done | Some e \<Rightarrow> Js_Thrown (Js_Client e)), c'))"
| "wasm_call F (Js_Datagram bs now_ms) c = (Js_Done, recv_datagram F bs (js_u64 now_ms) c)"
| "wasm_call F (Js_Input bs now_ms) c = (Js_Done, queue_input F bs (js_u64 now_ms) c)"
| "wasm_call F (Js_Size cols rows) c = (Js_Done, set_size cols rows c)"
| "wasm_call F Js_Hang_Up c = (Js_Done, request_hangup c)"
| "wasm_call F (Js_Tick now_ms) c = (case client_tick F (js_u64 now_ms) c of (c', t) \<Rightarrow> (Js_Alive (t = Alive), c'))"
| "wasm_call F Js_Pump c = (Js_Done, client_pump c)"
| "wasm_call F (Js_Advance n) c = (Js_Done, client_advance_outbound n c)"

text \<open>The getters with a conversion.\<close>

definition wasm_outage_secs :: "('f, 'v) client \<Rightarrow> rat option" where
  "wasm_outage_secs c = map_option (\<lambda>ms. of_nat (unat ms) / 1000) (cl_outage c)"

definition wasm_tick_delay :: "('f, 'v) client \<Rightarrow> js_num option" where
  "wasm_tick_delay c = map_option js_of_u64 (tick_delay_ms c)"

text \<open>What a browser reads of a frame.\<close>

record frame_view =
  fv_rows :: u16
  fv_cols :: u16
  fv_cursor_row :: u16
  fv_cursor_col :: u16
  fv_mode :: u16
  fv_title :: rstr
  fv_cells :: bytes

definition view_frame :: "('f, 'z) frame_lib_scheme \<Rightarrow> 'f \<Rightarrow> frame_view" where
  "view_frame F f = \<lparr>fv_rows = fs_rows F f, fv_cols = fs_cols F f, fv_cursor_row = fs_cursor_row F f,
     fv_cursor_col = fs_cursor_col F f, fv_mode = fs_mode F f, fv_title = fs_title F f, fv_cells = fs_cells F f\<rparr>"

definition wasm_display :: "('f, 'v, 'z) client_lib_scheme \<Rightarrow> ('f, 'v) client \<Rightarrow> frame_view option" where
  "wasm_display F c = map_option (view_frame F) (cl_display c)"

definition wasm_confirmed :: "('f, 'v, 'z) client_lib_scheme \<Rightarrow> ('f, 'v) client \<Rightarrow> frame_view option" where
  "wasm_confirmed F c = map_option (\<lambda>s. view_frame F (sc_frame s)) (cl_confirmed c)"

section \<open>Codecs\<close>

record screen_view =
  sv_version :: js_num
  sv_echo_ack :: js_num
  sv_frame :: frame_view

definition wasm_decode_screen :: "('f, 'z) codec_lib_scheme \<Rightarrow> bytes \<Rightarrow> js_error + screen_view" where
  "wasm_decode_screen F bs = res_bind (js_err (screen_decode F bs)) (\<lambda>s.
     Inr \<lparr>sv_version = js_of_u64 (sc_version s), sv_echo_ack = js_of_u64 (sc_echo_ack s), sv_frame = view_frame F (sc_frame s)\<rparr>)"

definition wasm_encode_auth_hello :: "bytes \<Rightarrow> bytes \<Rightarrow> bytes \<Rightarrow> u16 \<Rightarrow> u16 \<Rightarrow> js_error + bytes" where
  "wasm_encode_auth_hello auth_token session_id session_token cols rows =
     res_bind (arr32 auth_token) (\<lambda>a. res_bind (arr16 session_id) (\<lambda>s. res_bind (arr32 session_token) (\<lambda>t.
     Inr (auth_hello_encode \<lparr>ah_auth_token = a, ah_session_id = s, ah_session_token = t, ah_cols = cols, ah_rows = rows\<rparr>))))"

record challenge_view =
  vc_challenge :: bytes
  vc_rp_id :: rstr
  vc_hashes :: "rstr list"

definition wasm_decode_challenge :: "(bytes \<Rightarrow> rstr) \<Rightarrow> bytes \<Rightarrow> js_error + challenge_view" where
  "wasm_decode_challenge hex_encode bs = res_bind (js_err (challenge_decode bs)) (\<lambda>c.
     Inr \<lparr>vc_challenge = ch_challenge c, vc_rp_id = ch_rp_id c, vc_hashes = map hex_encode (ch_hashes c)\<rparr>)"

definition wasm_encode_enroll :: "bytes \<Rightarrow> bytes \<Rightarrow> bytes \<Rightarrow> js_error + bytes" where
  "wasm_encode_enroll nonce client_data_json attestation_object =
     res_bind (arr16 nonce) (\<lambda>n. js_err (enroll_encode
       \<lparr>en_nonce = n, en_client_data_json = client_data_json, en_attestation_object = attestation_object\<rparr>))"

definition wasm_encode_assert :: "bytes \<Rightarrow> bytes \<Rightarrow> bytes \<Rightarrow> bytes \<Rightarrow> js_error + bytes" where
  "wasm_encode_assert credential_id authenticator_data client_data_json signature =
     js_err (assert_encode \<lparr>as_credential_id = credential_id, as_authenticator_data = authenticator_data,
       as_client_data_json = client_data_json, as_signature = signature\<rparr>)"

record auth_ok_view =
  va_auth_token :: bytes
  va_uid :: u32
  va_session_id :: bytes
  va_session_token :: bytes
  va_hashes :: "rstr list"

definition wasm_decode_auth_ok :: "(bytes \<Rightarrow> rstr) \<Rightarrow> bytes \<Rightarrow> js_error + auth_ok_view" where
  "wasm_decode_auth_ok hex_encode bs = res_bind (js_err (auth_ok_decode bs)) (\<lambda>a.
     Inr \<lparr>va_auth_token = ao_auth_token a, va_uid = ao_uid a, va_session_id = ao_session_id a,
       va_session_token = ao_session_token a, va_hashes = map hex_encode (ao_hashes a)\<rparr>)"

definition wasm_decode_auth_fail :: "bytes \<Rightarrow> js_error + rstr" where
  "wasm_decode_auth_fail bs = js_err (auth_fail_decode bs)"

text \<open>The feed: the answer of \<open>push_ctrl\<close>, whether the frame was taken, is dropped.\<close>

datatype feed_call = Feed_Ctrl bytes | Feed_Screen bytes | Feed_Sent nat

fun wasm_feed_call :: "feed_call \<Rightarrow> feed \<Rightarrow> feed" where
  "wasm_feed_call (Feed_Ctrl bs) f = snd (feed_push_ctrl bs f)"
| "wasm_feed_call (Feed_Screen bs) f = feed_push_screen bs f"
| "wasm_feed_call (Feed_Sent n) f = feed_advance n f"

section \<open>The predictor\<close>

definition wasm_frame_new ::
  "('f, 'z) frame_lib_scheme \<Rightarrow> u16 \<Rightarrow> u16 \<Rightarrow> u16 \<Rightarrow> u16 \<Rightarrow> u16 \<Rightarrow> rstr \<Rightarrow> bytes \<Rightarrow> js_error + 'f" where
  "wasm_frame_new F rows cols cursor_row cursor_col mode title cells =
     (let expected = ((unat rows * unat cols) mod 2 ^ 32 * CELL_SIZE) mod 2 ^ 32 in
      if length cells \<noteq> expected
      then Inl (Js_Text (lit ''cells must be '' @ dec_digits expected @ lit '' bytes ('' @ dec_digits (unat rows) @ lit ''x'' @
        dec_digits (unat cols) @ lit ''x'' @ dec_digits CELL_SIZE @ lit ''), got '' @ dec_digits (length cells)))
      else Inr (fs_from_parts F rows cols cursor_row cursor_col mode title cells))"

datatype 'f predict_call =
    Js_Preference bool
  | Js_Sent js_num
  | Js_Acked js_num
  | Js_Late_Acked js_num
  | Js_Interval u32
  | Js_Overwrite bool
  | Js_Forget
  | Js_Byte byte 'f js_num
  | Js_Cull 'f js_num

fun wasm_predict_call :: "('f, 'v, 'z) predict_lib_scheme \<Rightarrow> 'f predict_call \<Rightarrow> 'v predictor \<Rightarrow> 'v predictor" where
  "wasm_predict_call F (Js_Preference adaptive) p = set_display_preference (if adaptive then Adaptive else Never) p"
| "wasm_predict_call F (Js_Sent s) p = set_local_frame_sent (js_u64 s) p"
| "wasm_predict_call F (Js_Acked s) p = set_local_frame_acked (js_u64 s) p"
| "wasm_predict_call F (Js_Late_Acked s) p = set_local_frame_late_acked (js_u64 s) p"
| "wasm_predict_call F (Js_Interval ms) p = set_send_interval ms p"
| "wasm_predict_call F (Js_Overwrite b) p = set_predict_overwrite b p"
| "wasm_predict_call F Js_Forget p = predictor_reset p"
| "wasm_predict_call F (Js_Byte b f now_ms) p = new_user_byte F b f (js_u64 now_ms) p"
| "wasm_predict_call F (Js_Cull f now_ms) p = cull F f (js_u64 now_ms) p"

section \<open>What the numbers keep\<close>

lemma bit_length_le: "n < 2 ^ k \<Longrightarrow> bit_length n \<le> k"
proof (induction n arbitrary: k rule: bit_length.induct)
  case (1 n)
  show ?case
  proof (cases "n = 0")
    case False
    with 1(2) obtain j where j: "k = Suc j" by (cases k) auto
    then have "n div 2 < 2 ^ j" using 1(2) by simp
    with 1(1) [OF False] j False show ?thesis by (subst bit_length.simps) simp
  qed (subst bit_length.simps, simp)
qed

lemma js_u64_integer: "n < 2 ^ 64 \<Longrightarrow> js_u64 (Number (of_nat n)) = of_nat n"
  by (simp add: js_u64_def Let_def)

lemma js_u64_mono:
  assumes "p \<le> q"
  shows "js_u64 (Number p) \<le> js_u64 (Number q)"
proof -
  define m n where "m = \<lfloor>p\<rfloor>" and "n = \<lfloor>q\<rfloor>"
  have le: "m \<le> n" using assms by (simp add: m_def n_def floor_mono)
  have top: "w \<le> (0xFFFFFFFFFFFFFFFF :: u64)" for w
  proof -
    have "(0xFFFFFFFFFFFFFFFF :: u64) = - 1" by simp
    then show ?thesis by (simp only: word_order.extremum)
  qed
  have small: "(of_int m :: u64) \<le> of_int n" if "0 \<le> m" "n < 2 ^ 64"
    using that le by (simp add: word_le_def uint_word_of_int_eq take_bit_int_eq_self)
  show ?thesis using le top small by (auto simp: js_u64_def Let_def simp flip: m_def n_def)
qed

lemma js_of_u64_exact:
  assumes "unat w < 2 ^ 53"
  shows "js_of_u64 w = Number (of_nat (unat w))" "js_u64 (js_of_u64 w) = w"
proof -
  show e: "js_of_u64 w = Number (of_nat (unat w))"
    using bit_length_le [OF assms] by (simp add: js_of_u64_def round_53_def)
  have "unat w < 2 ^ 64" using assms by simp
  from js_u64_integer [OF this] show "js_u64 (js_of_u64 w) = w" by (simp add: e)
qed

text \<open>Above, two values meet in one number.\<close>

lemma js_of_u64_inexact: "js_of_u64 (2 ^ 53 + 1) = js_of_u64 (2 ^ 53)"
proof -
  have b: "bit_length (2 ^ 53 + 1) = 54" "bit_length (2 ^ 53) = 54"
    by (simp_all add: bit_length.simps)
  then show ?thesis by (simp add: js_of_u64_def round_53_def Let_def)
qed

section \<open>The calls are calls of the core\<close>

text \<open>The event of the core for a call, at the time as an integer.\<close>

fun call_event :: "js_call \<Rightarrow> 'f cevent" where
  "call_event (Js_Begin t) = Begin (js_u64 t)"
| "call_event Js_End = End"
| "call_event Js_Reset = Forget"
| "call_event (Js_Receive bs t) = Receive bs (js_u64 t)"
| "call_event (Js_Datagram bs t) = Datagram bs (js_u64 t)"
| "call_event (Js_Input bs t) = Queue_Input bs (js_u64 t)"
| "call_event (Js_Size cols rows) = Set_Size cols rows"
| "call_event Js_Hang_Up = Hang_Up"
| "call_event (Js_Tick t) = Tick (js_u64 t)"
| "call_event Js_Pump = Pump_Out"
| "call_event (Js_Advance n) = Sent_Out n"

lemma wasm_call_step: "snd (wasm_call F call c) = client_step F (call_event call) c"
  by (cases call) (simp_all split: prod.split)

text \<open>A program in the browser: the client is made, then called.\<close>

definition wasm_run ::
  "('f, 'v, 'z) client_lib_scheme \<Rightarrow> bytes \<Rightarrow> bytes \<Rightarrow> u16 \<Rightarrow> u16 \<Rightarrow> bool \<Rightarrow> js_call list \<Rightarrow> js_error + ('f, 'v) client" where
  "wasm_run F session_id token cols rows never calls =
     res_bind (wasm_client_new F session_id token cols rows never) (\<lambda>c. Inr (fold (\<lambda>call c. snd (wasm_call F call c)) calls c))"

section \<open>From the handshake to the client\<close>

text \<open>The handshake runs on a \<open>FrameBuffer\<close>; what it has not consumed is handed to the client. An operation
  pushes a chunk or takes a frame.\<close>

datatype buffer_op = Push_Chunk bytes | Take_Frame

fun buffer_run :: "buffer_op list \<Rightarrow> frame_buffer \<Rightarrow> proto_error + (byte \<times> bytes) list \<times> frame_buffer" where
  "buffer_run [] fb = Inr ([], fb)"
| "buffer_run (Push_Chunk bs # ops) fb = buffer_run ops (fb_push bs fb)"
| "buffer_run (Take_Frame # ops) fb = res_bind (fb_take fb) (\<lambda>(m, fb).
     res_bind (buffer_run ops fb) (\<lambda>(fs, fb). Inr ((case m of None \<Rightarrow> fs | Some f \<Rightarrow> f # fs), fb)))"

fun pushed :: "buffer_op list \<Rightarrow> bytes" where
  "pushed [] = []"
| "pushed (Push_Chunk bs # ops) = bs @ pushed ops"
| "pushed (Take_Frame # ops) = pushed ops"

text \<open>The chunks a client receives, up to the first error.\<close>

fun recv_all ::
  "('f, 'v, 'z) client_lib_scheme \<Rightarrow> u64 \<Rightarrow> bytes list \<Rightarrow> ('f, 'v) client \<Rightarrow> ('f, 'v) client \<times> client_error option" where
  "recv_all F now [] c = (c, None)"
| "recv_all F now (b # bs) c = (case recv_control F b now c of (c', Some e) \<Rightarrow> (c', Some e) | (c', None) \<Rightarrow> recv_all F now bs c')"

lemma split_frame_encoded: "split_frame a = Inr (Some (t, p), r) \<Longrightarrow> a = encode_frame t p @ r"
proof -
  assume "split_frame a = Inr (Some (t, p), r)"
  then obtain n where n: "peek_len a = Inr (Some n)" "4 + n \<le> length a" "drop 4 (take (4 + n) a) = t # p" "r = drop (4 + n) a"
    by (auto simp: split_frame_Some_iff)
  have len: "n = 1 + length p" using arg_cong [OF n(3), of length] n(2) by simp
  have "n = unat (rd32 (take 4 a))" using n(1) by (auto simp: peek_len_def slc_def Let_def split: if_splits)
  then have "le32 (of_nat n) = take 4 a" using n(2) le_rd_words(2) [of "take 4 a"] by simp
  then have "encode_frame t p = take 4 a @ drop 4 (take (4 + n) a)" using n(3) len by (simp add: encode_frame_def Let_def)
  also have "\<dots> = take (4 + n) a" by (metis append_take_drop_id take_take min.absorb1 le_add1)
  finally show ?thesis using n(4) by simp
qed

lemma buffer_run_stream:
  "buffer_run ops fb = Inr (fs, fb') \<Longrightarrow>
   fb_remaining fb @ pushed ops = concat (map (\<lambda>(t, p). encode_frame t p) fs) @ fb_remaining fb'"
proof (induction ops arbitrary: fb fs)
  case (Cons op ops)
  show ?case
  proof (cases op)
    case (Push_Chunk bs)
    with Cons.IH [of "fb_push bs fb" fs] Cons.prems show ?thesis by (simp add: fb_push_def fb_remaining_def)
  next
    case Take_Frame
    then obtain m fb1 gs where t: "fb_take fb = Inr (m, fb1)" "buffer_run ops fb1 = Inr (gs, fb')"
        "fs = (case m of None \<Rightarrow> gs | Some f \<Rightarrow> f # gs)"
      using Cons.prems by (auto simp: res_bind_eq_Inr_iff)
    note ih = Cons.IH [OF t(2)]
    show ?thesis
    proof (cases m)
      case None
      with t(1) have "fb_buf fb1 = fb_buf fb"
        by (auto simp: fb_take_def split: sum.splits dest: split_frame_None_rest)
      with ih None t(3) Take_Frame show ?thesis by (simp add: fb_remaining_def)
    next
      case (Some f)
      then obtain ty p where f: "m = Some (ty, p)" by (cases f) simp
      with t(1) have "fb_buf fb = encode_frame ty p @ fb_buf fb1"
        by (auto simp: fb_take_def split: sum.splits dest: split_frame_encoded)
      with ih f t(3) Take_Frame show ?thesis by (simp add: fb_remaining_def)
    qed
  qed
qed simp

lemma recv_all_stream:
  "[] \<notin> set bs \<Longrightarrow> bs \<noteq> [] \<Longrightarrow> \<exists>c1 c2 e. recv_all F now bs c = (c1, e) \<and> recv_control F (concat bs) now c = (c2, e) \<and>
    (e = None \<longrightarrow> c1 = c2) \<and> c1\<lparr>cl_recv_buf := []\<rparr> = c2\<lparr>cl_recv_buf := []\<rparr>"
proof (induction bs arbitrary: c)
  case (Cons b bs)
  obtain c1 e where r: "recv_control F b now c = (c1, e)" by fastforce
  show ?case
  proof (cases "bs = []")
    case True
    with r show ?thesis by (simp split: option.split)
  next
    case False
    have b: "b \<noteq> []" using Cons.prems(1) by auto
    note app = recv_control_append [OF b, of F "concat bs" now c]
    show ?thesis
    proof (cases e)
      case None
      with Cons.IH [of c1] Cons.prems(1) False r app show ?thesis by simp
    next
      case (Some x)
      with r app show ?thesis by simp
    qed
  qed
qed simp

text \<open>What the browser encodes the server decodes.\<close>

lemma wasm_auth_hello_decodes:
  "wasm_encode_auth_hello a s t cols rows = Inr bs \<Longrightarrow> \<exists>p. bs = encode_frame MSG_AUTH_HELLO p \<and> auth_hello_decode p =
     Inr \<lparr>ah_auth_token = a, ah_session_id = s, ah_session_token = t, ah_cols = cols, ah_rows = rows\<rparr>"
  by (rule exI [of _ "a @ s @ t @ le16 cols @ le16 rows"])
    (auto simp: wasm_encode_auth_hello_def arr16_def arr32_def auth_hello_encode_def auth_hello_decode_def byte_simps
      split: if_splits)

section \<open>The predictor and its frames\<close>

fun predict_event :: "'f predict_call \<Rightarrow> 'f pevent option" where
  "predict_event (Js_Preference b) = Some (Preference (if b then Adaptive else Never))"
| "predict_event (Js_Sent s) = Some (Frame_Sent (js_u64 s))"
| "predict_event (Js_Acked s) = Some (Frame_Acked (js_u64 s))"
| "predict_event (Js_Late_Acked s) = Some (Frame_Late_Acked (js_u64 s))"
| "predict_event (Js_Interval ms) = Some (Send_Interval ms)"
| "predict_event (Js_Overwrite b) = Some (Overwrite b)"
| "predict_event Js_Forget = None"
| "predict_event (Js_Byte b f t) = Some (Type_Byte b f (js_u64 t))"
| "predict_event (Js_Cull f t) = Some (Reconcile f (js_u64 t))"

lemma wasm_predict_step:
  "wasm_predict_call F call p = (case predict_event call of None \<Rightarrow> predictor_reset p | Some ev \<Rightarrow> pred_event F ev p)"
  by (cases call) simp_all

text \<open>A frame is taken only with the cells its size needs, while that number is a \<open>usize\<close>;\<close>

lemma wasm_frame_checked:
  assumes "wasm_frame_new F rows cols cr cc mode title cells = Inr f" "unat rows * unat cols * CELL_SIZE < 2 ^ 32"
  shows "length cells = unat rows * unat cols * CELL_SIZE"
proof -
  have "unat rows * unat cols \<le> unat rows * unat cols * CELL_SIZE" by (simp add: CELL_SIZE_def)
  then have "unat rows * unat cols < 2 ^ 32" using assms(2) by (rule le_less_trans)
  with assms show ?thesis by (simp add: wasm_frame_new_def Let_def split: if_splits)
qed

text \<open>beyond, the product wraps, and a frame of 32768 rows and columns is taken without any cells.\<close>

lemma wasm_frame_overflows:
  "wasm_frame_new F 32768 32768 cr cc mode title [] = Inr (fs_from_parts F 32768 32768 cr cc mode title [])"
  by (simp add: wasm_frame_new_def CELL_SIZE_def)

section \<open>Properties\<close>

text \<open>A client is made for an id and a token of the right lengths only, and after any calls it is the core
  client after the same calls, at the times as integers.\<close>

lemma browser_client_refines:
  "wasm_run F session_id token cols rows never calls =
     (if length session_id \<noteq> 16 then Inl (Js_Text (lit ''expected 16 bytes''))
      else if length token \<noteq> 32 then Inl (Js_Text (lit ''expected 32 bytes''))
      else Inr (fold (client_step F) (map call_event calls) (client_new F session_id token cols rows never)))"
proof -
  have "fold (\<lambda>call c. snd (wasm_call F call c)) calls c = fold (client_step F) (map call_event calls) c" for c
    by (induction calls arbitrary: c) (simp_all add: wasm_call_step)
  then show ?thesis by (simp add: wasm_run_def wasm_client_new_def arr16_def arr32_def)
qed

text \<open>What two readings of the clock are apart, the integers are apart up to the fraction; what is below zero or
  not a number is the beginning of time.\<close>

lemma unat_js_u64:
  assumes "0 \<le> p"
  shows "unat (js_u64 (Number p)) = (if p < 2 ^ 64 then nat \<lfloor>p\<rfloor> else 2 ^ 64 - 1)"
proof (cases "p < 2 ^ 64")
  case True
  define n where "n = \<lfloor>p\<rfloor>"
  have n: "0 \<le> n" "n < 2 ^ 64" using assms True by (simp_all add: n_def floor_less_iff)
  then have "uint (of_int n :: u64) = n" by (simp add: uint_word_of_int_eq take_bit_int_eq_self)
  with n have "unat (js_u64 (Number p)) = nat n" by (simp add: js_u64_def Let_def unat_eq_nat_uint flip: n_def)
  with True show ?thesis by (simp add: n_def)
next
  case False
  then have "2 ^ 64 \<le> \<lfloor>p\<rfloor>" by (simp add: le_floor_iff)
  with False show ?thesis by (simp add: js_u64_def Let_def)
qed

lemma js_clock_apart:
  assumes "0 \<le> p" "p + of_nat k \<le> q" "p + of_nat k < 2 ^ 64"
  shows "unat (js_u64 (Number p)) + k \<le> unat (js_u64 (Number q))"
proof -
  have p: "unat (js_u64 (Number p)) = nat \<lfloor>p\<rfloor>" using assms unat_js_u64 [of p] by simp
  have "\<lfloor>p + of_nat k\<rfloor> = \<lfloor>p\<rfloor> + int k" by linarith
  moreover have "\<lfloor>p + of_nat k\<rfloor> < 2 ^ 64" using assms(3) unfolding floor_less_iff by simp
  moreover have "\<lfloor>p + of_nat k\<rfloor> \<le> \<lfloor>q\<rfloor>" by (rule floor_mono [OF assms(2)])
  moreover have "0 \<le> \<lfloor>p\<rfloor>" using assms(1) by simp
  ultimately have m: "\<lfloor>p\<rfloor> + int k \<le> \<lfloor>q\<rfloor>" "\<lfloor>p\<rfloor> + int k < 2 ^ 64" "0 \<le> \<lfloor>p\<rfloor>" by linarith+
  have "0 \<le> q" using assms(1,2) by linarith
  note q = unat_js_u64 [OF this]
  show ?thesis
  proof (cases "q < 2 ^ 64")
    case True
    with q have "unat (js_u64 (Number q)) = nat \<lfloor>q\<rfloor>" by simp
    with m show ?thesis unfolding p by linarith
  next
    case False
    with q have "unat (js_u64 (Number q)) = 18446744073709551615" by simp
    moreover have "\<lfloor>p\<rfloor> + int k < 18446744073709551616" using m(2) by simp
    ultimately show ?thesis using m(1,3) unfolding p by linarith
  qed
qed

lemma js_clock_near:
  assumes "0 \<le> p" "q < p + of_nat k" "p < 2 ^ 64"
  shows "unat (js_u64 (Number q)) < unat (js_u64 (Number p)) + Suc k"
proof (cases "0 \<le> q")
  case True
  have "\<lfloor>q\<rfloor> \<le> \<lfloor>p\<rfloor> + int k" using assms(2) by linarith
  moreover have "int (unat (js_u64 (Number q))) \<le> \<lfloor>q\<rfloor>"
  proof (cases "q < 2 ^ 64")
    case False
    then have "2 ^ 64 \<le> \<lfloor>q\<rfloor>" by (simp add: le_floor_iff)
    moreover have "int (unat (js_u64 (Number q))) = 2 ^ 64 - 1" using unat_js_u64 [OF True] False by simp
    ultimately show ?thesis by linarith
  qed (use unat_js_u64 [OF True] True in simp)
  moreover have "0 \<le> \<lfloor>p\<rfloor>" using assms(1) by simp
  moreover have p: "unat (js_u64 (Number p)) = nat \<lfloor>p\<rfloor>" using unat_js_u64 [OF assms(1)] assms(3) by simp
  ultimately show ?thesis unfolding p by linarith
next
  case False
  then have "\<lfloor>q\<rfloor> < 0" by simp
  then show ?thesis by (simp add: js_u64_def Let_def)
qed

text \<open>The calls that are possible while nothing arrives and the user stays.\<close>

fun js_quiet :: "js_call \<Rightarrow> bool" where
  "js_quiet (Js_Begin _) = False"
| "js_quiet Js_End = False"
| "js_quiet (Js_Receive _ _) = False"
| "js_quiet (Js_Datagram _ _) = False"
| "js_quiet Js_Hang_Up = False"
| "js_quiet _ = True"

abbreviation js_calls :: "('f, 'v, 'z) client_lib_scheme \<Rightarrow> js_call list \<Rightarrow> ('f, 'v) client \<Rightarrow> ('f, 'v) client" where
  "js_calls F calls c \<equiv> fold (\<lambda>call c. snd (wasm_call F call c)) calls c"

text \<open>C37: A silent link is seen by the browser's clock, which counts milliseconds with a fraction. After
  \<open>begin_connection\<close> at \<open>p\<close> and any calls while nothing arrives and the user stays, \<open>tick\<close> at \<open>q\<close> answers
  that the link is dead if \<open>q\<close> is 20 seconds or more after \<open>p\<close>, and that it is alive if \<open>q\<close> is less than
  7.999 seconds after it, or before it, or not a number; after a hangup it always answers alive.\<close>

theorem browser_silent_link:
  assumes "list_all js_quiet calls" "0 \<le> p" "p + 20000 < 2 ^ 64"
  shows "let c = js_calls F calls (snd (wasm_call F (Js_Begin (Number p)) c0)) in
    (\<not> cl_hungup c0 \<and> p + 20000 \<le> q \<longrightarrow> fst (wasm_call F (Js_Tick (Number q)) c) = Js_Alive False) \<and>
    (q < p + 7999 \<or> cl_hungup c0 \<longrightarrow> fst (wasm_call F (Js_Tick (Number q)) c) = Js_Alive True) \<and>
    fst (wasm_call F (Js_Tick Not_A_Number) c) = Js_Alive True"
proof -
  have calls: "js_calls F calls c = fold (client_step F) (map call_event calls) c" for c
    by (induction calls arbitrary: c) (simp_all add: wasm_call_step)
  have quiet: "list_all quiet (map call_event calls :: 'a cevent list)"
    using assms(1) by (induction calls) (auto elim: js_quiet.elims)
  let ?c = "js_calls F calls (snd (wasm_call F (Js_Begin (Number p)) c0))"
  have tick: "fst (wasm_call F (Js_Tick t) c) = Js_Alive (snd (client_tick F (js_u64 t) c) = Alive)" for t c
    by (simp split: prod.split)
  note silent = silent_link_detected [OF quiet, of F "js_u64 (Number p)" c0, unfolded Let_def]
  have "unat (js_u64 (Number p)) + 20000 \<le> unat (js_u64 (Number q))" if "p + 20000 \<le> q"
    using js_clock_apart [of p 20000 q] that assms(2,3) by simp
  moreover have "unat (js_u64 (Number q)) < unat (js_u64 (Number p)) + 8000" if "q < p + 7999"
    using js_clock_near [of p q 7999] that assms(2,3) by simp
  moreover have "unat (js_u64 Not_A_Number) < unat (js_u64 (Number p)) + 8000" by (simp add: js_u64_def)
  moreover have "snd (wasm_call F (Js_Begin (Number p)) c0) = begin_connection (js_u64 (Number p)) c0" by simp
  ultimately show ?thesis using silent unfolding Let_def tick calls by (simp del: wasm_call.simps)
qed

theorem browser_silent_link_witness:
  "fst (wasm_call client_lib_ex (Js_Tick (Number (40011 / 2))) (js_calls client_lib_ex [Js_Input [97] (Number 6), Js_Pump]
     (snd (wasm_call client_lib_ex (Js_Begin (Number (11 / 2))) client_ex)))) = Js_Alive False"
  using browser_silent_link [of "[Js_Input [97] (Number 6), Js_Pump]" "11 / 2" client_lib_ex client_ex "40011 / 2"]
  by (simp add: Let_def client_ex_def client_new_def del: wasm_call.simps)

text \<open>C38: Nothing is lost or read twice between the handshake and the client: whatever the chunks and however
  pushing and taking alternate, the stream is the frames the handshake took followed by what the
  client is given, the bytes that remained and the later chunks, and the client ends as if it
  had received those in one piece.\<close>

theorem browser_handover:
  assumes "buffer_run ops fb_new = Inr (fs, fb)" "[] \<notin> set chunks" "fb_remaining fb \<noteq> []"
  shows "pushed ops @ concat chunks = concat (map (\<lambda>(t, p). encode_frame t p) fs) @ concat (fb_remaining fb # chunks) \<and>
    (\<exists>c1 c2 e. recv_all F now (fb_remaining fb # chunks) c = (c1, e) \<and>
       recv_control F (concat (fb_remaining fb # chunks)) now c = (c2, e) \<and>
       (if e = None then c1 = c2 else c1\<lparr>cl_recv_buf := []\<rparr> = c2\<lparr>cl_recv_buf := []\<rparr>))"
proof
  show "pushed ops @ concat chunks = concat (map (\<lambda>(t, p). encode_frame t p) fs) @ concat (fb_remaining fb # chunks)"
    using buffer_run_stream [OF assms(1)] by (simp add: fb_new_def fb_remaining_def)
  have "[] \<notin> set (fb_remaining fb # chunks)" using assms(2,3) by auto
  from recv_all_stream [OF this, of F now c] obtain c1 c2 e where
    "recv_all F now (fb_remaining fb # chunks) c = (c1, e)" "recv_control F (concat (fb_remaining fb # chunks)) now c = (c2, e)"
    "e = None \<longrightarrow> c1 = c2" "c1\<lparr>cl_recv_buf := []\<rparr> = c2\<lparr>cl_recv_buf := []\<rparr>" by blast
  then show "\<exists>c1 c2 e. recv_all F now (fb_remaining fb # chunks) c = (c1, e) \<and>
       recv_control F (concat (fb_remaining fb # chunks)) now c = (c2, e) \<and>
       (if e = None then c1 = c2 else c1\<lparr>cl_recv_buf := []\<rparr> = c2\<lparr>cl_recv_buf := []\<rparr>)"
    by (intro exI [of _ c1] exI [of _ c2] exI [of _ e] conjI) (simp_all del: recv_all.simps)
qed

text \<open>The server's answer and its first frame in one chunk.\<close>

lemma buffer_ex:
  "buffer_run [Push_Chunk [2, 0, 0, 0, 5, 7, 2, 0], Take_Frame] fb_new = Inr ([(5, [7])], \<lparr>fb_buf = [2, 0]\<rparr>)"
proof -
  have "split_frame [2, 0, 0, 0, 5, 7, 2, 0] = Inr (Some (5, [7]), [2, 0 :: byte])"
    by (simp add: split_frame_def peek_len_def MAX_FRAME_def byte_eval slc_def Let_def)
  then show ?thesis by (simp add: fb_take_def fb_push_def fb_new_def)
qed

theorem browser_handover_witness:
  "\<exists>c1 c2 e. recv_all client_lib_ex 5 [[2, 0], [0, 0, 9, 9]] client_ex = (c1, e) \<and>
     recv_control client_lib_ex [2, 0, 0, 0, 9, 9] 5 client_ex = (c2, e) \<and> c1\<lparr>cl_recv_buf := []\<rparr> = c2\<lparr>cl_recv_buf := []\<rparr>"
proof -
  from browser_handover [OF buffer_ex, of "[[0, 0, 9, 9]]" client_lib_ex 5 client_ex]
  obtain c1 c2 e where "recv_all client_lib_ex 5 [[2, 0], [0, 0, 9, 9]] client_ex = (c1, e)"
    "recv_control client_lib_ex [2, 0, 0, 0, 9, 9] 5 client_ex = (c2, e)"
    "if e = None then c1 = c2 else c1\<lparr>cl_recv_buf := []\<rparr> = c2\<lparr>cl_recv_buf := []\<rparr>"
    by (auto simp: fb_remaining_def simp del: recv_all.simps)
  then show ?thesis by (intro exI [of _ c1] exI [of _ c2] exI [of _ e]) (auto split: if_splits)
qed

end
