(* ===== verification/Server_Main.thy ===== *)
theory Server_Main
  imports Helper Cert_Chain
begin

text \<open>
  The server's program (\<open>crates/quosh-server/src/main.rs\<close>): the port it announces, its start and its
  shutdown. Sockets, directories and the device file are the record \<open>start_env\<close>; tracing and the parser of
  arguments are left out.
\<close>

section \<open>Start\<close>

text \<open>The text after the last colon, if it is a port.\<close>

definition bind_port :: "rstr \<Rightarrow> u16" where
  "bind_port bind_addr = (case parse_uint 65536 (rev (takeWhile (\<lambda>b. b \<noteq> 58) (rev bind_addr))) of
     None \<Rightarrow> 443 | Some p \<Rightarrow> of_nat p)"

record server_args =
  sa_bind :: rstr
  sa_cert_chain :: nat
  sa_rp_id :: rstr
  sa_origin :: rstr

record start_env =
  st_dirs :: bool
  st_addr :: bool
  st_endpoint :: bool
  st_socket :: bool
  st_devices :: file_read
  st_parse :: "bytes \<Rightarrow> devices option"

datatype start_error = Dirs_Failed | Chain_Failed trust_error | Bad_Bind_Address | Endpoint_Failed | Socket_Failed | Store_Failed store_error

text \<open>The steps of \<open>main\<close> in their order, up to its loop.\<close>

definition server_start ::
  "('k, 'z) trust_lib_scheme \<Rightarrow> start_env \<Rightarrow> server_args \<Rightarrow> world \<Rightarrow> (start_error + daemon \<times> 'k chain) \<times> world" where
  "server_start F e a w =
     (if \<not> st_dirs e then (Inl Dirs_Failed, w)
      else case chain_load F (sa_cert_chain a) w of
        (Inl er, w1) \<Rightarrow> (Inl (Chain_Failed er), w1)
      | (Inr c, w1) \<Rightarrow> (case current_hash F c w1 of
          (Inl er, c1, w2) \<Rightarrow> (Inl (Chain_Failed er), w2)
        | (Inr h, c1, w2) \<Rightarrow>
            (if \<not> st_addr e then Inl Bad_Bind_Address
             else if \<not> st_endpoint e then Inl Endpoint_Failed
             else if \<not> st_socket e then Inl Socket_Failed
             else (case devices_load (st_parse e) (st_devices e) of
                 Inl er \<Rightarrow> Inl (Store_Failed er)
               | Inr dv \<Rightarrow> Inr (\<lparr>dm_sessions = [], dm_devices = dv, dm_nonces = nonce_store_new, dm_port = bind_port (sa_bind a),
                   dm_rp_id = sa_rp_id a, dm_origin = sa_origin a\<rparr>, c1)), w2)))"

section \<open>Shutdown\<close>

text \<open>The keys are read once; then each session is destroyed. The result is what was told to hang up.\<close>

fun destroy_all :: "bytes list \<Rightarrow> daemon \<Rightarrow> session list \<times> daemon" where
  "destroy_all [] d = ([], d)"
| "destroy_all (i # ids) d = (case destroy i d of (s, d1) \<Rightarrow>
     (case destroy_all ids d1 of (ss, d2) \<Rightarrow> ((case s of None \<Rightarrow> ss | Some s \<Rightarrow> s # ss), d2)))"

definition server_shutdown :: "daemon \<Rightarrow> session list \<times> daemon" where
  "server_shutdown d = destroy_all (map fst (dm_sessions d)) d"

text \<open>Every session is told to hang up, once, and none is left in the registry.\<close>

lemma destroy_all_spec:
  assumes "distinct (map fst xs)" "dm_sessions d = xs"
  shows "fst (destroy_all (map fst xs) d) = map (\<lambda>(i, s). session_request_hangup s) xs \<and>
    dm_sessions (snd (destroy_all (map fst xs) d)) = []"
  using assms
proof (induction xs arbitrary: d)
  case (Cons x xs)
  obtain i s where x: "x = (i, s)" by fastforce
  have "AList.delete i xs = xs" using Cons.prems(1) by (simp add: x AList.delete_eq filter_id_conv) (force simp: x)
  then have d: "destroy i d = (Some (session_request_hangup s), d\<lparr>dm_sessions := xs\<rparr>)"
    using Cons.prems(2) by (simp add: destroy_def registry_remove_def x AList.delete_eq)
  from Cons.IH [of "d\<lparr>dm_sessions := xs\<rparr>"] Cons.prems(1) show ?case by (simp add: x d split_def)
qed simp

lemma server_shutdown_spec:
  assumes "distinct (map fst (dm_sessions d))"
  shows "fst (server_shutdown d) = map (\<lambda>(i, s). session_request_hangup s) (dm_sessions d)"
    and "dm_sessions (snd (server_shutdown d)) = []"
  using destroy_all_spec [OF assms refl] by (simp_all add: server_shutdown_def)

text \<open>The port is the one in the address, whichever address it is.\<close>

lemma bind_port_address: "bind_port (host @ 58 # dec_digits (unat p)) = p"
proof -
  let ?d = "dec_digits (unat p)"
  have "\<forall>b \<in> set ?d. b \<noteq> 58" using dec_digits_digits [of "unat p"] by (auto simp: list_all_iff is_digit_def)
  then have "takeWhile (\<lambda>b. b \<noteq> 58) (rev ?d @ 58 # rev host) = rev ?d" by (subst takeWhile_append2) auto
  then show ?thesis using parse_uint_dec_digits [OF unat_word_bounds(2) [of p]] by (simp add: bind_port_def)
qed

end
