(* ===== verification/Login_Shell.thy ===== *)
theory Login_Shell
  imports Session Utf8
begin

text \<open>
  How a session's shell is started: \<open>spawn_pair\<close> of \<open>crates/quosh-server/src/session.rs\<close> before the session
  is built, and the pseudo-terminals of \<open>crates/quosh-pty/src/lib.rs\<close>. The daemon's descriptor table is shared
  by all its threads, so a start is a machine with one step per system call, and any number of them may be
  interleaved. What a call answers is an argument of its step. The credentials of a process and the calls
  that change them are the parameter \<open>cred_lib\<close>, with the laws \<open>cred_laws\<close>; the user database is a
  parameter too. Rust's \<open>Command\<close> duplicates the three descriptors onto 0 to 2 in the child before it
  runs the closure of \<open>pre_exec\<close>, then executes the program.
\<close>

section \<open>The user and the command\<close>

record user =
  us_name :: rstr
  us_gid :: u32
  us_shell :: bytes
  us_dir :: bytes

record command =
  co_program :: bytes
  co_arg0 :: rstr
  co_dir :: bytes
  co_env :: "(rstr \<times> bytes) list"

fun split_at_byte :: "byte \<Rightarrow> bytes \<Rightarrow> bytes list" where
  "split_at_byte c [] = [[]]"
| "split_at_byte c (b # bs) = (if b = c then [] # split_at_byte c bs
     else case split_at_byte c bs of [] \<Rightarrow> [[b]] | w # ws \<Rightarrow> (b # w) # ws)"

text \<open>\<open>Path::file_name\<close>: the last component, unless it is \<open>..\<close>.\<close>

definition path_file_name :: "bytes \<Rightarrow> bytes option" where
  "path_file_name p = (let parts = filter (\<lambda>w. w \<noteq> [] \<and> w \<noteq> lit ''.'') (split_at_byte 47 p) in
     if parts = [] \<or> last parts = lit ''..'' then None else Some (last parts))"

definition shell_name :: "bytes \<Rightarrow> rstr" where
  "shell_name shell = (case path_file_name shell of
       Some n \<Rightarrow> if utf8_valid n then n else lit ''sh''
     | None \<Rightarrow> lit ''sh'')"

definition login_command :: "user \<Rightarrow> command" where
  "login_command u = \<lparr>co_program = us_shell u, co_arg0 = lit ''-'' @ shell_name (us_shell u), co_dir = us_dir u,
     co_env = [(lit ''USER'', us_name u), (lit ''LOGNAME'', us_name u), (lit ''HOME'', utf8_lossy (us_dir u)),
       (lit ''SHELL'', us_shell u), (lit ''TERM'', lit ''xterm-256color''),
       (lit ''PATH'', lit ''/usr/local/sbin:/usr/local/bin:/usr/sbin:/usr/bin:/sbin:/bin''),
       (lit ''LANG'', lit ''C.UTF-8'')]\<rparr>"

text \<open>What is known before the first system call that opens something: \<open>passwd\<close> answers the look-up of a
  user, \<open>grouplist\<close> of the groups.\<close>

datatype spawn_error = Bad_Size dims_error | Lookup_Failed | No_Such_User | Nul_In_Name | Groups_Failed

record login =
  lg_uid :: u32
  lg_gid :: u32
  lg_groups :: "u32 list"
  lg_command :: command

record user_db =
  db_user :: "u32 \<Rightarrow> user option option"
  db_groups :: "rstr \<Rightarrow> u32 \<Rightarrow> u32 list option"

definition prepare :: "nat \<Rightarrow> user_db \<Rightarrow> u32 \<Rightarrow> u16 \<Rightarrow> u16 \<Rightarrow> spawn_error + login" where
  "prepare max_cells U uid cols rows = (case validate_dims max_cells cols rows of
       Inl e \<Rightarrow> Inl (Bad_Size e)
     | Inr _ \<Rightarrow> (case db_user U uid of
         None \<Rightarrow> Inl Lookup_Failed
       | Some None \<Rightarrow> Inl No_Such_User
       | Some (Some u) \<Rightarrow>
           if 0 \<in> set (us_name u) then Inl Nul_In_Name
           else (case db_groups U (us_name u) (us_gid u) of
               None \<Rightarrow> Inl Groups_Failed
             | Some gs \<Rightarrow> Inr \<lparr>lg_uid = uid, lg_gid = us_gid u, lg_groups = gs, lg_command = login_command u\<rparr>)))"

section \<open>Credentials\<close>

record 'c cred_lib =
  pk_real :: "'c \<Rightarrow> u32"
  pk_eff :: "'c \<Rightarrow> u32"
  pk_gid :: "'c \<Rightarrow> u32"
  pk_groups :: "'c \<Rightarrow> u32 list"
  pk_setsid :: "'c \<Rightarrow> 'c option"
  pk_setgroups :: "u32 list \<Rightarrow> 'c \<Rightarrow> 'c option"
  pk_setgid :: "u32 \<Rightarrow> 'c \<Rightarrow> 'c option"
  pk_setuid :: "u32 \<Rightarrow> 'c \<Rightarrow> 'c option"
  pk_set_tty :: "'c \<Rightarrow> 'c"

datatype exec_error = Call_Failed | Not_Root

text \<open>The closure that runs in the child; the result of the last call is dropped. \<open>current\<close> is
  \<open>Uid::current()\<close>, the daemon's real user.\<close>

definition pre_exec :: "('c, 'z) cred_lib_scheme \<Rightarrow> u32 \<Rightarrow> login \<Rightarrow> 'c \<Rightarrow> exec_error + 'c" where
  "pre_exec C current lg c =
     res_bind (ok_or (pk_setsid C c) Call_Failed) (\<lambda>c.
     res_bind
       (if current = 0 then
          res_bind (ok_or (pk_setgroups C (lg_groups lg) c) Call_Failed) (\<lambda>c.
          res_bind (ok_or (pk_setgid C (lg_gid lg) c) Call_Failed) (\<lambda>c.
          ok_or (pk_setuid C (lg_uid lg) c) Call_Failed))
        else if lg_uid lg \<noteq> current then Inl Not_Root
        else Inr c) (\<lambda>c.
     Inr (pk_set_tty C c)))"

section \<open>Descriptors\<close>

text \<open>The ends of the \<open>k\<close>th pseudo-terminal, and everything else.\<close>

datatype file_end = Master nat | Slave nat | Other nat

record descriptor =
  de_end :: file_end
  de_cloexec :: bool

type_synonym fd_table = "nat \<Rightarrow> descriptor option"

text \<open>\<open>F_DUPFD_CLOEXEC\<close>.\<close>

definition dup_cloexec :: "nat \<Rightarrow> nat \<Rightarrow> fd_table \<Rightarrow> fd_table" where
  "dup_cloexec s new t = (case t s of None \<Rightarrow> t | Some d \<Rightarrow> t(new \<mapsto> d\<lparr>de_cloexec := True\<rparr>))"

definition close_all :: "nat list \<Rightarrow> fd_table \<Rightarrow> fd_table" where
  "close_all fds t = (\<lambda>fd. if fd \<in> set fds then None else t fd)"

text \<open>What is left open in the child: \<open>i\<close>, \<open>o\<close> and \<open>e\<close> on 0 to 2, and what is not closed by the execution.\<close>

definition exec_table :: "nat \<Rightarrow> nat \<Rightarrow> nat \<Rightarrow> fd_table \<Rightarrow> fd_table" where
  "exec_table i j e t = (\<lambda>fd.
     if fd = 0 then map_option (\<lambda>d. d\<lparr>de_cloexec := False\<rparr>) (t i)
     else if fd = 1 then map_option (\<lambda>d. d\<lparr>de_cloexec := False\<rparr>) (t j)
     else if fd = 2 then map_option (\<lambda>d. d\<lparr>de_cloexec := False\<rparr>) (t e)
     else (case t fd of None \<Rightarrow> None | Some d \<Rightarrow> if de_cloexec d then None else Some d))"

section \<open>The calls of one start\<close>

record 'c shell =
  sh_fds :: fd_table
  sh_creds :: 'c
  sh_command :: command

text \<open>After which call a start is. \<open>open_cloexec\<close> makes the first six, then come the three duplicates, the
  spawn of the shell, and the end of its session.\<close>

datatype 'c stage =
    Opening
  | Opened nat
  | Granted nat
  | Unlocked nat
  | Named nat
  | Paired nat nat
  | Sized nat nat
  | With_In nat nat nat
  | With_Out nat nat nat nat
  | Ready nat nat nat nat
  | Started nat "'c shell"
  | Refused
  | Ended

text \<open>The descriptors a stage owns. An error drops them.\<close>

fun stage_fds :: "nat \<Rightarrow> 'c stage \<Rightarrow> (nat \<times> file_end) list" where
  "stage_fds k (Opened m) = [(m, Master k)]"
| "stage_fds k (Granted m) = [(m, Master k)]"
| "stage_fds k (Unlocked m) = [(m, Master k)]"
| "stage_fds k (Named m) = [(m, Master k)]"
| "stage_fds k (Paired m s) = [(m, Master k), (s, Slave k)]"
| "stage_fds k (Sized m s) = [(m, Master k), (s, Slave k)]"
| "stage_fds k (With_In m s i) = [(m, Master k), (s, Slave k), (i, Slave k)]"
| "stage_fds k (With_Out m s i j) = [(m, Master k), (s, Slave k), (i, Slave k), (j, Slave k)]"
| "stage_fds k (Ready m i j e) = [(m, Master k), (i, Slave k), (j, Slave k), (e, Slave k)]"
| "stage_fds k (Started m sh) = [(m, Master k)]"
| "stage_fds k _ = []"

datatype call_answer = Fails | Done | Gives nat

text \<open>One call: \<open>c\<close> are the daemon's credentials.\<close>

fun stage_call ::
  "('c, 'z) cred_lib_scheme \<Rightarrow> 'c \<Rightarrow> nat \<Rightarrow> login \<Rightarrow> call_answer \<Rightarrow> 'c stage \<Rightarrow> fd_table \<Rightarrow> 'c stage \<times> fd_table"
where
  "stage_call C c k lg (Gives m) Opening t = (Opened m, t(m \<mapsto> \<lparr>de_end = Master k, de_cloexec = True\<rparr>))"
| "stage_call C c k lg Done (Opened m) t = (Granted m, t)"
| "stage_call C c k lg Done (Granted m) t = (Unlocked m, t)"
| "stage_call C c k lg Done (Unlocked m) t = (Named m, t)"
| "stage_call C c k lg (Gives s) (Named m) t = (Paired m s, t(s \<mapsto> \<lparr>de_end = Slave k, de_cloexec = True\<rparr>))"
| "stage_call C c k lg Done (Paired m s) t = (Sized m s, t)"
| "stage_call C c k lg (Gives i) (Sized m s) t = (With_In m s i, dup_cloexec s i t)"
| "stage_call C c k lg (Gives j) (With_In m s i) t = (With_Out m s i j, dup_cloexec s j t)"
| "stage_call C c k lg (Gives e) (With_Out m s i j) t = (Ready m i j e, close_all [s] (dup_cloexec s e t))"
| "stage_call C c k lg Done (Ready m i j e) t = (case pre_exec C (pk_real C c) lg c of
       Inl _ \<Rightarrow> (Refused, close_all [m, i, j, e] t)
     | Inr c' \<Rightarrow> (Started m \<lparr>sh_fds = exec_table i j e t, sh_creds = c', sh_command = lg_command lg\<rparr>, close_all [i, j, e] t))"
| "stage_call C c k lg _ (Started m sh) t = (Ended, close_all [m] t)"
| "stage_call C c k lg _ Refused t = (Refused, t)"
| "stage_call C c k lg _ Ended t = (Ended, t)"
| "stage_call C c k lg _ st t = (Refused, close_all (map fst (stage_fds k st)) t)"

section \<open>All starts of a daemon\<close>

record 'c spawns =
  sp_table :: fd_table
  sp_starts :: "nat \<Rightarrow> (login \<times> 'c stage) option"

text \<open>Other descriptors come and go: sockets, files, all of them opened by the standard library, which sets
  \<open>O_CLOEXEC\<close>.\<close>

datatype spawn_event = Begin nat u32 u16 u16 | Answer nat call_answer | Open_Other nat nat | Close_Other nat

text \<open>The kernel answers with a number that is not in use.\<close>

fun fd_free :: "fd_table \<Rightarrow> call_answer \<Rightarrow> bool" where
  "fd_free t (Gives fd) \<longleftrightarrow> t fd = None"
| "fd_free t _ \<longleftrightarrow> True"

definition is_other :: "descriptor option \<Rightarrow> bool" where
  "is_other x = (case x of Some d \<Rightarrow> (case de_end d of Other _ \<Rightarrow> True | _ \<Rightarrow> False) | None \<Rightarrow> False)"

fun spawn_step ::
  "nat \<Rightarrow> user_db \<Rightarrow> ('c, 'z) cred_lib_scheme \<Rightarrow> 'c \<Rightarrow> spawn_event \<Rightarrow> 'c spawns \<Rightarrow> 'c spawns"
where
  "spawn_step max_cells U C c (Begin k uid cols rows) S = (case (sp_starts S k, prepare max_cells U uid cols rows) of
       (None, Inr lg) \<Rightarrow> S\<lparr>sp_starts := (sp_starts S)(k \<mapsto> (lg, Opening))\<rparr>
     | _ \<Rightarrow> S)"
| "spawn_step max_cells U C c (Answer k a) S = (case sp_starts S k of
       None \<Rightarrow> S
     | Some (lg, st) \<Rightarrow>
         if fd_free (sp_table S) a
         then (case stage_call C c k lg a st (sp_table S) of
             (st', t') \<Rightarrow> S\<lparr>sp_table := t', sp_starts := (sp_starts S)(k \<mapsto> (lg, st'))\<rparr>)
         else S)"
| "spawn_step max_cells U C c (Open_Other fd n) S =
     (if sp_table S fd = None then S\<lparr>sp_table := (sp_table S)(fd \<mapsto> \<lparr>de_end = Other n, de_cloexec = True\<rparr>)\<rparr> else S)"
| "spawn_step max_cells U C c (Close_Other fd) S =
     (if is_other (sp_table S fd) then S\<lparr>sp_table := (sp_table S)(fd := None)\<rparr> else S)"

definition spawn_run ::
  "nat \<Rightarrow> user_db \<Rightarrow> ('c, 'z) cred_lib_scheme \<Rightarrow> 'c \<Rightarrow> spawn_event list \<Rightarrow> fd_table \<Rightarrow> 'c spawns" where
  "spawn_run max_cells U C c es t = fold (spawn_step max_cells U C c) es \<lparr>sp_table = t, sp_starts = Map.empty\<rparr>"

section \<open>The end of the shell\<close>

text \<open>\<open>kill_pgid\<close> signals the group; \<open>reap_child\<close> terminates, and kills what has not ended within two seconds.
  The result lists the signals sent, with their targets.\<close>

definition SIGTERM :: u32 where "SIGTERM = 15"
definition SIGKILL :: u32 where "SIGKILL = 9"

definition kill_pgid :: "u32 option \<Rightarrow> u32 \<Rightarrow> (u32 \<times> u32) list" where
  "kill_pgid pid sig = (case pid of None \<Rightarrow> [] | Some p \<Rightarrow> [(- p, sig)])"

datatype wait_end = Exited "u32 option" | Wait_Failed | Timed_Out

definition reap_child :: "u32 option \<Rightarrow> wait_end \<Rightarrow> wait_end \<Rightarrow> u32 \<times> (u32 \<times> u32) list" where
  "reap_child pid first second = (case first of
       Exited st \<Rightarrow> (case st of Some code \<Rightarrow> code | None \<Rightarrow> 1, kill_pgid pid SIGTERM)
     | _ \<Rightarrow> (case second of Exited (Some code) \<Rightarrow> code | _ \<Rightarrow> 1, kill_pgid pid SIGTERM @ kill_pgid pid SIGKILL))"

section \<open>Who the shell runs as\<close>

text \<open>What the manual pages say: the calls change the identity they name and nothing else. \<open>setgid\<close> and
  \<open>setuid\<close> do more for the superuser than for others.\<close>

definition same_but ::
  "('c, 'z) cred_lib_scheme \<Rightarrow> 'c \<Rightarrow> 'c \<Rightarrow> u32 \<Rightarrow> u32 \<Rightarrow> u32 \<Rightarrow> u32 list \<Rightarrow> bool" where
  "same_but C c c' r e g gs \<longleftrightarrow> pk_real C c' = r \<and> pk_eff C c' = e \<and> pk_gid C c' = g \<and> pk_groups C c' = gs"

definition cred_laws :: "('c, 'z) cred_lib_scheme \<Rightarrow> bool" where
  "cred_laws C \<longleftrightarrow>
     (\<forall>c c'. pk_setsid C c = Some c' \<longrightarrow> same_but C c c' (pk_real C c) (pk_eff C c) (pk_gid C c) (pk_groups C c)) \<and>
     (\<forall>c. same_but C c (pk_set_tty C c) (pk_real C c) (pk_eff C c) (pk_gid C c) (pk_groups C c)) \<and>
     (\<forall>gs c c'. pk_setgroups C gs c = Some c' \<longrightarrow> same_but C c c' (pk_real C c) (pk_eff C c) (pk_gid C c) gs) \<and>
     (\<forall>g c c'. pk_eff C c = 0 \<longrightarrow> pk_setgid C g c = Some c' \<longrightarrow>
        same_but C c c' (pk_real C c) (pk_eff C c) g (pk_groups C c)) \<and>
     (\<forall>u c c'. pk_eff C c = 0 \<longrightarrow> pk_setuid C u c = Some c' \<longrightarrow> same_but C c c' u u (pk_gid C c) (pk_groups C c))"

lemma pre_exec_steps:
  assumes "pre_exec C current lg c = Inr c'"
  obtains c1 where "pk_setsid C c = Some c1" "current \<noteq> 0" "lg_uid lg = current" "c' = pk_set_tty C c1"
  | c1 c2 c3 c4 where "pk_setsid C c = Some c1" "current = 0" "pk_setgroups C (lg_groups lg) c1 = Some c2"
      "pk_setgid C (lg_gid lg) c2 = Some c3" "pk_setuid C (lg_uid lg) c3 = Some c4" "c' = pk_set_tty C c4"
proof (cases "current = 0")
  case True
  with assms show ?thesis by (simp add: pre_exec_def res_bind_eq_Inr_iff) (metis that(2))
next
  case False
  with assms have "lg_uid lg = current" by (auto simp: pre_exec_def res_bind_eq_Inr_iff split: if_splits)
  with assms False show ?thesis by (simp add: pre_exec_def res_bind_eq_Inr_iff) (metis that(1))
qed

text \<open>A daemon of the superuser becomes the user with all of their groups; any other daemon starts only its own
  user's shells.\<close>

definition runs_as :: "('c, 'z) cred_lib_scheme \<Rightarrow> 'c \<Rightarrow> login \<Rightarrow> 'c \<Rightarrow> bool" where
  "runs_as C c lg c' \<longleftrightarrow>
     same_but C c c' (lg_uid lg) (lg_uid lg) (if pk_real C c = 0 then lg_gid lg else pk_gid C c)
       (if pk_real C c = 0 then lg_groups lg else pk_groups C c) \<and>
     (pk_real C c \<noteq> 0 \<longrightarrow> lg_uid lg = pk_real C c)"

lemma pre_exec_runs_as:
  assumes laws: "cred_laws C" and c: "pk_eff C c = pk_real C c"
    and p: "pre_exec C (pk_real C c) lg c = Inr c'"
  shows "runs_as C c lg c'"
  using p
proof (cases rule: pre_exec_steps)
  case (1 c1)
  have "same_but C c c1 (pk_real C c) (pk_eff C c) (pk_gid C c) (pk_groups C c)" using laws 1(1) by (simp add: cred_laws_def)
  moreover have "same_but C c1 c' (pk_real C c1) (pk_eff C c1) (pk_gid C c1) (pk_groups C c1)"
    using laws 1(4) by (simp add: cred_laws_def)
  ultimately show ?thesis using 1 c by (simp add: runs_as_def same_but_def)
next
  case (2 c1 c2 c3 c4)
  have a: "same_but C c c1 (pk_real C c) (pk_eff C c) (pk_gid C c) (pk_groups C c)" using laws 2(1) by (simp add: cred_laws_def)
  have b: "same_but C c1 c2 (pk_real C c1) (pk_eff C c1) (pk_gid C c1) (lg_groups lg)" using laws 2(3) by (simp add: cred_laws_def)
  have e: "pk_eff C c2 = 0" using a b c 2(2) by (simp add: same_but_def)
  have d: "same_but C c2 c3 (pk_real C c2) (pk_eff C c2) (lg_gid lg) (pk_groups C c2)"
    using laws 2(4) e by (simp add: cred_laws_def)
  have "pk_eff C c3 = 0" using d e by (simp add: same_but_def)
  then have "same_but C c3 c4 (lg_uid lg) (lg_uid lg) (pk_gid C c3) (pk_groups C c3)" using laws 2(5) by (simp add: cred_laws_def)
  moreover have "same_but C c4 c' (pk_real C c4) (pk_eff C c4) (pk_gid C c4) (pk_groups C c4)"
    using laws 2(6) by (simp add: cred_laws_def)
  ultimately show ?thesis using 2(2) b d by (simp add: runs_as_def same_but_def)
qed

text \<open>\<open>Uid::current()\<close> is the real user. A daemon installed with the set-user-id bit of the superuser would leave
  its effective user to the shell.\<close>

lemma setuid_daemon_leaks:
  assumes "cred_laws C" "pk_real C c = lg_uid lg" "lg_uid lg \<noteq> 0" "pk_eff C c = 0"
    and "pre_exec C (pk_real C c) lg c = Inr c'"
  shows "pk_eff C c' = 0"
  using assms(5)
proof (cases rule: pre_exec_steps)
  case (1 c1)
  have "same_but C c c1 (pk_real C c) (pk_eff C c) (pk_gid C c) (pk_groups C c)" using assms(1) 1(1) by (simp add: cred_laws_def)
  moreover have "same_but C c1 c' (pk_real C c1) (pk_eff C c1) (pk_gid C c1) (pk_groups C c1)"
    using assms(1) 1(4) by (simp add: cred_laws_def)
  ultimately show ?thesis using assms(4) by (simp add: same_but_def)
next
  case 2
  with assms(2,3) show ?thesis by simp
qed

section \<open>What the shell inherits\<close>

definition shell_ok :: "('c, 'z) cred_lib_scheme \<Rightarrow> 'c \<Rightarrow> nat \<Rightarrow> login \<Rightarrow> 'c shell \<Rightarrow> bool" where
  "shell_ok C c k lg sh \<longleftrightarrow>
     (\<forall>fd. sh_fds sh fd = (if fd < 3 then Some \<lparr>de_end = Slave k, de_cloexec = False\<rparr> else None)) \<and>
     runs_as C c lg (sh_creds sh) \<and> sh_command sh = lg_command lg"

definition closes_on_exec :: "fd_table \<Rightarrow> bool" where
  "closes_on_exec t \<longleftrightarrow> (\<forall>fd d. t fd = Some d \<longrightarrow> fd < 3 \<or> de_cloexec d)"

definition holds_fds :: "fd_table \<Rightarrow> (nat \<times> file_end) list \<Rightarrow> bool" where
  "holds_fds t xs \<longleftrightarrow> distinct (map fst xs) \<and> list_all (\<lambda>(fd, x). t fd = Some \<lparr>de_end = x, de_cloexec = True\<rparr>) xs"

definition stage_ok :: "('c, 'z) cred_lib_scheme \<Rightarrow> 'c \<Rightarrow> nat \<Rightarrow> login \<Rightarrow> 'c stage \<Rightarrow> fd_table \<Rightarrow> bool" where
  "stage_ok C c k lg st t \<longleftrightarrow> holds_fds t (stage_fds k st) \<and> (case st of Started m sh \<Rightarrow> shell_ok C c k lg sh | _ \<Rightarrow> True)"

text \<open>One call of a start keeps what that start owns, and everything it closes or opens is its own.\<close>

definition touches :: "nat \<Rightarrow> fd_table \<Rightarrow> fd_table \<Rightarrow> bool" where
  "touches k t t' \<longleftrightarrow> (\<forall>fd. t' fd = t fd \<or> t fd = None \<or>
     (\<exists>d. t fd = Some d \<and> (de_end d = Master k \<or> de_end d = Slave k)))"

lemmas fd_simps = holds_fds_def touches_def closes_on_exec_def close_all_def dup_cloexec_def

lemma exec_table_slaves:
  assumes "closes_on_exec t" "\<And>fd. fd \<in> {i, j, e} \<Longrightarrow> t fd = Some \<lparr>de_end = Slave k, de_cloexec = True\<rparr>"
  shows "exec_table i j e t fd = (if fd < 3 then Some \<lparr>de_end = Slave k, de_cloexec = False\<rparr> else None)"
proof -
  have "fd = 0 \<or> fd = 1 \<or> fd = 2 \<or> \<not> fd < 3" by arith
  with assms show ?thesis by (auto simp: exec_table_def closes_on_exec_def split: option.split)
qed

lemma close_held:
  assumes "holds_fds t (stage_fds k st)" "closes_on_exec t"
  shows "touches k t (close_all (map fst (stage_fds k st)) t) \<and> closes_on_exec (close_all (map fst (stage_fds k st)) t)"
proof -
  have "x = Master k \<or> x = Slave k" if "(fd, x) \<in> set (stage_fds k st)" for fd x
    using that by (cases st) auto
  with assms show ?thesis by (fastforce simp: fd_simps list_all_iff)
qed

lemma fresh_fd:
  assumes "t fd = None" "holds_fds t xs"
  shows "holds_fds (t(fd \<mapsto> \<lparr>de_end = x, de_cloexec = True\<rparr>)) (xs @ [(fd, x)])"
  using assms by (force simp: holds_fds_def list_all_iff)

lemma touches_fresh: "t fd = None \<Longrightarrow> touches k t (t(fd \<mapsto> d))"
  by (simp add: touches_def)

lemma closes_fresh: "closes_on_exec t \<Longrightarrow> de_cloexec d \<Longrightarrow> closes_on_exec (t(fd \<mapsto> d))"
  by (simp add: closes_on_exec_def)

lemma dup_held:
  assumes "holds_fds t xs" "(s, Slave k) \<in> set xs" "t fd = None"
  shows "dup_cloexec s fd t = t(fd \<mapsto> \<lparr>de_end = Slave k, de_cloexec = True\<rparr>)"
  using assms by (auto simp: dup_cloexec_def holds_fds_def list_all_iff)

lemma drop_held:
  assumes "\<And>fd. fd \<in> set fds \<Longrightarrow> \<exists>x. t fd = Some \<lparr>de_end = x, de_cloexec = True\<rparr> \<and> (x = Master k \<or> x = Slave k)"
    and "closes_on_exec t"
  shows "touches k t (close_all fds t)" "closes_on_exec (close_all fds t)"
proof -
  show "touches k t (close_all fds t)" unfolding touches_def
  proof
    fix fd
    show "close_all fds t fd = t fd \<or> t fd = None \<or> (\<exists>d. t fd = Some d \<and> (de_end d = Master k \<or> de_end d = Slave k))"
    proof (cases "fd \<in> set fds")
      case True
      from assms(1) [OF this] show ?thesis by auto
    qed (simp add: close_all_def)
  qed
  show "closes_on_exec (close_all fds t)" using assms(2) by (simp add: closes_on_exec_def close_all_def)
qed

definition call_ok :: "('c, 'z) cred_lib_scheme \<Rightarrow> 'c \<Rightarrow> nat \<Rightarrow> login \<Rightarrow> fd_table \<Rightarrow> 'c stage \<times> fd_table \<Rightarrow> bool" where
  "call_ok C c k lg t r \<longleftrightarrow> stage_ok C c k lg (fst r) (snd r) \<and> touches k t (snd r) \<and> closes_on_exec (snd r)"

definition not_started :: "'c stage \<Rightarrow> bool" where
  "not_started st = (case st of Started _ _ \<Rightarrow> False | _ \<Rightarrow> True)"

lemma not_started_ok: "not_started st \<Longrightarrow> stage_ok C c k lg st t \<longleftrightarrow> holds_fds t (stage_fds k st)"
  by (simp add: not_started_def stage_ok_def split: stage.splits)

lemma call_ok_refuse:
  assumes "holds_fds t (stage_fds k st)" "closes_on_exec t"
  shows "call_ok C c k lg t (Refused, close_all (map fst (stage_fds k st)) t)"
  using close_held [OF assms] by (simp add: call_ok_def stage_ok_def holds_fds_def)

lemma call_ok_same:
  assumes "holds_fds t (stage_fds k st)" "closes_on_exec t" "stage_fds k st' = stage_fds k st" "not_started st'"
  shows "call_ok C c k lg t (st', t)"
  using assms by (simp add: call_ok_def not_started_ok touches_def)

lemma call_ok_open:
  assumes "holds_fds t (stage_fds k st)" "closes_on_exec t" "t fd = None" "not_started st'"
    and "stage_fds k st' = stage_fds k st @ [(fd, x)]"
  shows "call_ok C c k lg t (st', t(fd \<mapsto> \<lparr>de_end = x, de_cloexec = True\<rparr>))"
  using fresh_fd [OF assms(3,1)] assms by (simp add: call_ok_def not_started_ok touches_fresh closes_fresh)

text \<open>The third duplicate, and the end of the slave it is a copy of.\<close>

lemma call_ok_ready:
  assumes "holds_fds t (stage_fds k (With_Out m s i j))" "closes_on_exec t" "t e = None"
  shows "call_ok C c k lg t (Ready m i j e, close_all [s] (dup_cloexec s e t))"
proof -
  have d: "dup_cloexec s e t = t(e \<mapsto> \<lparr>de_end = Slave k, de_cloexec = True\<rparr>)"
    by (rule dup_held [OF assms(1) _ assms(3)]) simp
  have "holds_fds (close_all [s] (t(e \<mapsto> \<lparr>de_end = Slave k, de_cloexec = True\<rparr>))) (stage_fds k (Ready m i j e))"
    using assms(1,3) by (auto simp: holds_fds_def close_all_def)
  moreover have "touches k t (close_all [s] (t(e \<mapsto> \<lparr>de_end = Slave k, de_cloexec = True\<rparr>)))"
    using assms(1,3) by (auto simp: touches_def close_all_def holds_fds_def)
  moreover have "closes_on_exec (close_all [s] (t(e \<mapsto> \<lparr>de_end = Slave k, de_cloexec = True\<rparr>)))"
    using assms(2) by (auto simp: closes_on_exec_def close_all_def)
  ultimately show ?thesis unfolding d by (simp add: call_ok_def stage_ok_def)
qed

text \<open>The spawn of the shell.\<close>

lemma call_ok_spawn:
  assumes "cred_laws C" "pk_eff C c = pk_real C c" "closes_on_exec t" and h: "holds_fds t (stage_fds k (Ready m i j e))"
    and p: "pre_exec C (pk_real C c) lg c = Inr c'"
  shows "call_ok C c k lg t (Started m \<lparr>sh_fds = exec_table i j e t, sh_creds = c', sh_command = lg_command lg\<rparr>, close_all [i, j, e] t)"
proof -
  have "t fd = Some \<lparr>de_end = Slave k, de_cloexec = True\<rparr>" if "fd \<in> {i, j, e}" for fd
    using that h by (auto simp: holds_fds_def)
  note f = exec_table_slaves [OF assms(3) this]
  have "holds_fds (close_all [i, j, e] t) [(m, Master k)]" using h by (auto simp: holds_fds_def close_all_def)
  moreover have "touches k t (close_all [i, j, e] t)" "closes_on_exec (close_all [i, j, e] t)"
    by (rule drop_held [OF _ assms(3)]; use h in \<open>auto simp: holds_fds_def\<close>)+
  ultimately show ?thesis
    using pre_exec_runs_as [OF assms(1,2) p] f by (simp add: call_ok_def stage_ok_def shell_ok_def)
qed

lemma stage_call_ok:
  assumes "cred_laws C" "pk_eff C c = pk_real C c" and cl: "closes_on_exec t" and ok: "stage_ok C c k lg st t" and fr: "fd_free t a"
  shows "call_ok C c k lg t (stage_call C c k lg a st t)"
proof -
  have h: "holds_fds t (stage_fds k st)" using ok by (simp add: stage_ok_def)
  note refuse = call_ok_refuse [OF h cl, of C c lg]
  note same = call_ok_same [OF h cl]
  note grow = call_ok_open [OF h cl]
  have dup: "call_ok C c k lg t (st', dup_cloexec s fd t)"
    if "(s, Slave k) \<in> set (stage_fds k st)" "t fd = None" "not_started st'" "stage_fds k st' = stage_fds k st @ [(fd, Slave k)]" for st' s fd
    unfolding dup_held [OF h that(1,2)] by (rule grow [OF that(2-4)])
  show ?thesis
  proof (cases st)
    case (Ready m i j e)
    show ?thesis
    proof (cases "a = Done")
      case True
      have "call_ok C c k lg t (Started m \<lparr>sh_fds = exec_table i j e t, sh_creds = c', sh_command = lg_command lg\<rparr>, close_all [i, j, e] t)"
        if "pre_exec C (pk_real C c) lg c = Inr c'" for c'
        using call_ok_spawn [OF assms(1,2) cl _ that] h by (simp add: Ready)
      then show ?thesis using refuse by (simp add: Ready True split: sum.split)
    qed (use refuse in \<open>cases a; simp add: Ready\<close>)
  next
    case (With_Out m s i j)
    then show ?thesis using refuse call_ok_ready [OF _ cl, of k m s i j _ C c lg] h fr by (cases a) simp_all
  next
    case (Started m sh)
    then show ?thesis using refuse by (cases a) (simp_all add: call_ok_def stage_ok_def holds_fds_def)
  next
    case Opening
    then show ?thesis using refuse fr by (cases a) (auto simp: not_started_def intro!: grow)
  next
    case (Opened m)
    then show ?thesis using refuse by (cases a) (auto simp: not_started_def intro!: same)
  next
    case (Granted m)
    then show ?thesis using refuse by (cases a) (auto simp: not_started_def intro!: same)
  next
    case (Unlocked m)
    then show ?thesis using refuse by (cases a) (auto simp: not_started_def intro!: same)
  next
    case (Named m)
    then show ?thesis using refuse fr by (cases a) (auto simp: not_started_def intro!: grow)
  next
    case (Paired m s)
    then show ?thesis using refuse by (cases a) (auto simp: not_started_def intro!: same)
  next
    case (Sized m s)
    then show ?thesis using refuse fr by (cases a) (auto simp: not_started_def intro!: dup)
  next
    case (With_In m s i)
    then show ?thesis using refuse fr by (cases a) (auto simp: not_started_def intro!: dup)
  next
    case Refused
    then show ?thesis by (cases a) (auto simp: not_started_def intro!: same)
  next
    case Ended
    then show ?thesis by (cases a) (auto simp: not_started_def intro!: same)
  qed
qed

section \<open>Every interleaving\<close>

text \<open>The calls of one start leave the others' descriptors alone.\<close>

lemma touches_held:
  assumes "touches j t t'" "j \<noteq> k" "(fd, x) \<in> set (stage_fds k st)" "t fd = Some \<lparr>de_end = x, de_cloexec = True\<rparr>"
  shows "t' fd = t fd"
proof -
  have "x = Master k \<or> x = Slave k" using assms(3) by (cases st) auto
  moreover have "t' fd = t fd \<or> t fd = None \<or> (\<exists>d. t fd = Some d \<and> (de_end d = Master j \<or> de_end d = Slave j))"
    using assms(1) by (simp add: touches_def)
  ultimately show ?thesis using assms(2,4) by auto
qed

lemma stage_ok_frame:
  assumes "\<And>fd x. (fd, x) \<in> set (stage_fds k st) \<Longrightarrow> t fd = Some \<lparr>de_end = x, de_cloexec = True\<rparr> \<Longrightarrow> t' fd = t fd"
    and "stage_ok C c k lg st t"
  shows "stage_ok C c k lg st t'"
  using assms by (auto simp: stage_ok_def holds_fds_def list_all_iff)

definition asked :: "nat \<Rightarrow> user_db \<Rightarrow> spawn_event list \<Rightarrow> nat \<Rightarrow> login \<Rightarrow> bool" where
  "asked max_cells U es k lg \<longleftrightarrow>
     (\<exists>cols rows. Begin k (lg_uid lg) cols rows \<in> set es \<and> prepare max_cells U (lg_uid lg) cols rows = Inr lg)"

definition spawns_ok ::
  "nat \<Rightarrow> user_db \<Rightarrow> ('c, 'z) cred_lib_scheme \<Rightarrow> 'c \<Rightarrow> spawn_event list \<Rightarrow> 'c spawns \<Rightarrow> bool" where
  "spawns_ok max_cells U C c es S \<longleftrightarrow> closes_on_exec (sp_table S) \<and>
     (\<forall>k lg st. sp_starts S k = Some (lg, st) \<longrightarrow> stage_ok C c k lg st (sp_table S) \<and> asked max_cells U es k lg)"

lemma spawns_okI:
  assumes "closes_on_exec (sp_table S)"
    and "\<And>k lg st. sp_starts S k = Some (lg, st) \<Longrightarrow> stage_ok C c k lg st (sp_table S) \<and> asked max_cells U es k lg"
  shows "spawns_ok max_cells U C c es S"
  using assms by (simp add: spawns_ok_def)

lemma spawns_okD:
  assumes "spawns_ok max_cells U C c es S"
  shows "closes_on_exec (sp_table S)"
    and "sp_starts S k = Some (lg, st) \<Longrightarrow> stage_ok C c k lg st (sp_table S)"
    and "sp_starts S k = Some (lg, st) \<Longrightarrow> asked max_cells U es k lg"
  using assms by (simp_all add: spawns_ok_def)

lemma prepare_uid: "prepare max_cells U uid cols rows = Inr lg \<Longrightarrow> lg_uid lg = uid"
  by (auto simp: prepare_def split: sum.splits option.splits if_splits)

lemma prepare_user:
  assumes "prepare max_cells U uid cols rows = Inr lg"
  shows "\<exists>u. db_user U uid = Some (Some u) \<and> db_groups U (us_name u) (us_gid u) = Some (lg_groups lg) \<and>
    lg_gid lg = us_gid u \<and> lg_command lg = login_command u"
  using assms by (auto simp: prepare_def split: sum.splits option.splits if_splits)

lemma asked_mono: "asked max_cells U es k lg \<Longrightarrow> asked max_cells U (es @ [e]) k lg"
  by (auto simp: asked_def)

lemma asked_Begin: "prepare max_cells U uid cols rows = Inr lg \<Longrightarrow> asked max_cells U (es @ [Begin k uid cols rows]) k lg"
  using prepare_uid by (fastforce simp: asked_def)

lemma spawns_ok_answer:
  assumes "cred_laws C" "pk_eff C c = pk_real C c" and S: "spawns_ok max_cells U C c es S"
    and k: "sp_starts S k = Some (lg, st)" and fr: "fd_free (sp_table S) a"
    and r: "stage_call C c k lg a st (sp_table S) = (st', t')"
  shows "spawns_ok max_cells U C c (es @ [Answer k a]) (S\<lparr>sp_table := t', sp_starts := (sp_starts S)(k \<mapsto> (lg, st'))\<rparr>)"
proof -
  have ok: "call_ok C c k lg (sp_table S) (st', t')"
    using stage_call_ok [OF assms(1,2) spawns_okD(1) [OF S] spawns_okD(2) [OF S k] fr] by (simp add: r)
  show ?thesis
  proof (rule spawns_okI)
    show "closes_on_exec (sp_table (S\<lparr>sp_table := t', sp_starts := (sp_starts S)(k \<mapsto> (lg, st'))\<rparr>))"
      using ok by (simp add: call_ok_def)
    fix j lg2 st2
    assume "sp_starts (S\<lparr>sp_table := t', sp_starts := (sp_starts S)(k \<mapsto> (lg, st'))\<rparr>) j = Some (lg2, st2)"
    then have j: "j = k \<and> lg2 = lg \<and> st2 = st' \<or> j \<noteq> k \<and> sp_starts S j = Some (lg2, st2)" by (auto split: if_splits)
    have "stage_ok C c j lg2 st2 t'"
    proof (cases "j = k")
      case False
      then have s: "sp_starts S j = Some (lg2, st2)" using j by simp
      have "touches k (sp_table S) t'" using ok by (simp add: call_ok_def)
      with False show ?thesis by (intro stage_ok_frame [OF _ spawns_okD(2) [OF S s]]) (metis touches_held)
    qed (use j ok in \<open>simp add: call_ok_def\<close>)
    moreover have "asked max_cells U (es @ [Answer k a]) j lg2"
      using j spawns_okD(3) [OF S] k by (auto intro!: asked_mono)
    ultimately show "stage_ok C c j lg2 st2 (sp_table (S\<lparr>sp_table := t', sp_starts := (sp_starts S)(k \<mapsto> (lg, st'))\<rparr>)) \<and>
        asked max_cells U (es @ [Answer k a]) j lg2" by simp
  qed
qed

text \<open>Other descriptors: what a start owns is in use, and is no other file.\<close>

lemma spawns_ok_other:
  assumes S: "spawns_ok max_cells U C c es S" and "closes_on_exec t'"
    and "\<And>fd. t' fd = sp_table S fd \<or> sp_table S fd = None \<or> is_other (sp_table S fd)"
  shows "spawns_ok max_cells U C c (es @ [e]) (S\<lparr>sp_table := t'\<rparr>)"
proof (rule spawns_okI)
  fix k lg st
  assume "sp_starts (S\<lparr>sp_table := t'\<rparr>) k = Some (lg, st)"
  then have k: "sp_starts S k = Some (lg, st)" by simp
  have "stage_ok C c k lg st t'"
  proof (rule stage_ok_frame [OF _ spawns_okD(2) [OF S k]])
    fix fd x assume "(fd, x) \<in> set (stage_fds k st)" and t: "sp_table S fd = Some \<lparr>de_end = x, de_cloexec = True\<rparr>"
    then have "x = Master k \<or> x = Slave k" by (cases st) auto
    with t assms(3) [of fd] show "t' fd = sp_table S fd" by (auto simp: is_other_def)
  qed
  then show "stage_ok C c k lg st (sp_table (S\<lparr>sp_table := t'\<rparr>)) \<and> asked max_cells U (es @ [e]) k lg"
    using asked_mono spawns_okD(3) [OF S k] by simp
qed (use assms(2) in simp)

lemma spawns_ok_mono: "spawns_ok max_cells U C c es S \<Longrightarrow> spawns_ok max_cells U C c (es @ [e]) S"
  by (auto simp: spawns_ok_def intro: asked_mono)

lemma spawn_step_ok:
  assumes "cred_laws C" "pk_eff C c = pk_real C c" and S: "spawns_ok max_cells U C c es S"
  shows "spawns_ok max_cells U C c (es @ [e]) (spawn_step max_cells U C c e S)"
proof (cases e)
  case (Begin k uid cols rows)
  show ?thesis
  proof (cases "\<exists>lg. sp_starts S k = None \<and> prepare max_cells U uid cols rows = Inr lg")
    case True
    then obtain lg where lg: "sp_starts S k = None" "prepare max_cells U uid cols rows = Inr lg" by blast
    have "spawns_ok max_cells U C c (es @ [e]) (S\<lparr>sp_starts := (sp_starts S)(k \<mapsto> (lg, Opening))\<rparr>)"
      using spawns_okD [OF S] asked_Begin [OF lg(2)]
      by (intro spawns_okI) (auto simp: Begin stage_ok_def holds_fds_def intro: asked_mono split: if_splits)
    with lg show ?thesis by (simp add: Begin)
  next
    case False
    then have "spawn_step max_cells U C c e S = S" by (auto simp: Begin split: option.splits sum.splits)
    with spawns_ok_mono [OF S] show ?thesis by simp
  qed
next
  case (Answer k a)
  with spawns_ok_mono [OF S] spawns_ok_answer [OF assms(1,2) S] show ?thesis by (simp split: option.split prod.split)
next
  case (Open_Other fd n)
  have "closes_on_exec ((sp_table S)(fd \<mapsto> \<lparr>de_end = Other n, de_cloexec = True\<rparr>))"
    using spawns_okD(1) [OF S] by (rule closes_fresh) simp
  with spawns_ok_mono [OF S] spawns_ok_other [OF S this] show ?thesis by (simp add: Open_Other)
next
  case (Close_Other fd)
  have "closes_on_exec ((sp_table S)(fd := None))" using spawns_okD(1) [OF S] by (simp add: closes_on_exec_def)
  with spawns_ok_mono [OF S] spawns_ok_other [OF S this] show ?thesis by (simp add: Close_Other)
qed

lemma spawn_run_ok:
  assumes "cred_laws C" "pk_eff C c = pk_real C c" "closes_on_exec t"
  shows "spawns_ok max_cells U C c es (spawn_run max_cells U C c es t)"
proof (induction es rule: rev_induct)
  case Nil
  with assms(3) show ?case by (simp add: spawn_run_def spawns_ok_def)
next
  case (snoc e es)
  from spawn_step_ok [OF assms(1,2) this] show ?case by (simp add: spawn_run_def)
qed

text \<open>C4: Shells are isolated from each other: in every interleaving of any number of starts, of calls that
  fail and of files opened and closed meanwhile, a started shell has its own terminal on the descriptors 0
  to 2 and nothing else open, in particular no terminal of another session; it runs as the user its
  session was asked for. A daemon of the superuser gives it the group and the groups of the user database,
  any other daemon starts only the shells of its own user. The command and its environment come
  from the user database alone.\<close>

theorem login_shell_isolated:
  assumes "cred_laws C" "pk_eff C c = pk_real C c" "closes_on_exec t"
    and "sp_starts (spawn_run max_cells U C c es t) k = Some (lg, Started m sh)"
  shows "(\<forall>fd. sh_fds sh fd = (if fd < 3 then Some \<lparr>de_end = Slave k, de_cloexec = False\<rparr> else None)) \<and>
    (\<exists>cols rows. Begin k (pk_real C (sh_creds sh)) cols rows \<in> set es) \<and>
    pk_eff C (sh_creds sh) = pk_real C (sh_creds sh) \<and>
    (\<exists>u. db_user U (pk_real C (sh_creds sh)) = Some (Some u) \<and> sh_command sh = login_command u \<and>
      (if pk_real C c = 0
       then pk_gid C (sh_creds sh) = us_gid u \<and> db_groups U (us_name u) (us_gid u) = Some (pk_groups C (sh_creds sh))
       else pk_real C (sh_creds sh) = pk_real C c \<and> pk_gid C (sh_creds sh) = pk_gid C c \<and>
         pk_groups C (sh_creds sh) = pk_groups C c))"
proof -
  note ok = spawns_okD(2,3) [OF spawn_run_ok [OF assms(1-3)] assms(4)]
  from ok(1) have sh: "shell_ok C c k lg sh" by (simp add: stage_ok_def)
  from ok(2) obtain cols rows where p: "Begin k (lg_uid lg) cols rows \<in> set es" "prepare max_cells U (lg_uid lg) cols rows = Inr lg"
    by (auto simp: asked_def)
  from prepare_user [OF p(2)] obtain u where "db_user U (lg_uid lg) = Some (Some u)"
    "db_groups U (us_name u) (us_gid u) = Some (lg_groups lg)" "lg_gid lg = us_gid u" "lg_command lg = login_command u" by blast
  with sh p(1) show ?thesis by (auto simp: shell_ok_def runs_as_def same_but_def) blast
qed

text \<open>Credentials as a plain record.\<close>

record creds =
  x_real :: u32
  x_eff :: u32
  x_gid :: u32
  x_groups :: "u32 list"

definition posix_ex :: "creds cred_lib" where
  "posix_ex = \<lparr>pk_real = x_real, pk_eff = x_eff, pk_gid = x_gid, pk_groups = x_groups, pk_setsid = Some,
     pk_setgroups = (\<lambda>gs c. if x_eff c = 0 then Some (c\<lparr>x_groups := gs\<rparr>) else None),
     pk_setgid = (\<lambda>g c. if x_eff c = 0 \<or> g = x_gid c then Some (c\<lparr>x_gid := g\<rparr>) else None),
     pk_setuid = (\<lambda>u c. if x_eff c = 0 then Some (c\<lparr>x_real := u, x_eff := u\<rparr>)
       else if u = x_real c then Some (c\<lparr>x_eff := u\<rparr>) else None),
     pk_set_tty = (\<lambda>c. c)\<rparr>"

lemma posix_ex_laws: "cred_laws posix_ex"
  by (simp add: cred_laws_def posix_ex_def same_but_def)

definition user_ex :: user where
  "user_ex = \<lparr>us_name = lit ''ann'', us_gid = 100, us_shell = lit ''/bin/zsh'', us_dir = lit ''/home/ann''\<rparr>"

definition db_ex :: user_db where
  "db_ex = \<lparr>db_user = (\<lambda>u. if u = 1000 then Some (Some user_ex) else Some None), db_groups = (\<lambda>n g. Some [g, 27])\<rparr>"

text \<open>Two starts, interleaved: the first is refused, the second gets its shell.\<close>

definition starts_ex :: "spawn_event list" where
  "starts_ex = [Begin 1 1000 80 24, Begin 2 1000 80 24, Answer 1 (Gives 5), Answer 2 (Gives 6), Answer 1 Done,
     Answer 2 Done, Answer 2 Done, Answer 2 Done, Answer 2 (Gives 7), Answer 2 Done, Answer 2 (Gives 8), Open_Other 9 0,
     Answer 2 (Gives 10), Answer 2 (Gives 11), Answer 1 Fails, Answer 2 Done]"

theorem login_shell_isolated_witness:
  "\<exists>lg sh. sp_starts (spawn_run 10000 db_ex posix_ex \<lparr>x_real = 0, x_eff = 0, x_gid = 0, x_groups = []\<rparr> starts_ex Map.empty) 2 =
      Some (lg, Started 6 sh) \<and> sh_fds sh 0 = Some \<lparr>de_end = Slave 2, de_cloexec = False\<rparr> \<and> sh_fds sh 6 = None"
proof -
  let ?c = "\<lparr>x_real = 0, x_eff = 0, x_gid = 0, x_groups = []\<rparr>"
  let ?lg = "\<lparr>lg_uid = 1000, lg_gid = 100, lg_groups = [100, 27], lg_command = login_command user_ex\<rparr>"
  have p: "prepare 10000 db_ex 1000 80 24 = Inr ?lg"
    by (simp add: prepare_def validate_dims_def MIN_COLS_def MIN_ROWS_def MAX_COLS_def MAX_ROWS_def db_ex_def)
      (simp add: user_ex_def lit_def of_char_def)
  have x: "pre_exec posix_ex 0 ?lg ?c = Inr \<lparr>x_real = 1000, x_eff = 1000, x_gid = 100, x_groups = [100, 27]\<rparr>"
    by (simp add: pre_exec_def posix_ex_def ok_or_def)
  have r: "pk_real posix_ex ?c = 0" "pk_eff posix_ex ?c = 0" by (simp_all add: posix_ex_def)
  have "\<exists>sh. sp_starts (spawn_run 10000 db_ex posix_ex ?c starts_ex Map.empty) 2 = Some (?lg, Started 6 sh)"
    by (simp add: spawn_run_def starts_ex_def p x r dup_cloexec_def close_all_def)
  then obtain sh where s: "sp_starts (spawn_run 10000 db_ex posix_ex ?c starts_ex Map.empty) 2 = Some (?lg, Started 6 sh)" by blast
  have "\<forall>fd. sh_fds sh fd = (if fd < 3 then Some \<lparr>de_end = Slave 2, de_cloexec = False\<rparr> else None)"
    using login_shell_isolated [OF posix_ex_laws _ _ s] by (simp add: r closes_on_exec_def)
  with s show ?thesis by auto
qed

end
