(* ===== verification/Device_Files.thy ===== *)
theory Device_Files
  imports Devices Cert_Files "HOL-Library.Countable"
begin

text \<open>
  The file of the device store (\<open>DeviceStore::persist\<close> and \<open>load\<close> of
  \<open>crates/quosh-server/src/devices.rs\<close>): every operation that changes the store writes the whole table to a
  temporary file and renames it, a restart reads the table back. The answers of the system calls are
  arguments, JSON is a pair of functions with the law that what is written can be read back. A crash in the
  middle of a write leaves what a failure at the same place leaves.
\<close>

section \<open>One write\<close>

definition DEVICES_FILE :: rstr where "DEVICES_FILE = lit ''devices.json''"

text \<open>What the calls answer: \<open>sy_written\<close> is None when all of the data was written, otherwise how much was.\<close>

record save_calls =
  sy_removed :: bool
  sy_created :: bool
  sy_written :: "nat option"
  sy_synced :: bool
  sy_renamed :: bool

definition save_file :: "save_calls \<Rightarrow> bytes \<Rightarrow> bytes \<Rightarrow> files \<Rightarrow> (store_error + unit) \<times> files" where
  "save_file c path data fs =
     (let tmp = tmp_name path; fs = (if sy_removed c then fs(tmp := None) else fs) in
      if fs tmp \<noteq> None \<or> \<not> sy_created c then (Inl Save_Failed, fs)
      else case sy_written c of
          Some n \<Rightarrow> (Inl Save_Failed, fs(tmp := Some (take n data)))
        | None \<Rightarrow>
            if \<not> sy_synced c \<or> \<not> sy_renamed c then (Inl Save_Failed, fs(tmp := Some data))
            else (Inr (), fs(tmp := None, path := Some data)))"

lemma devices_tmp [simp]: "tmp_name DEVICES_FILE \<noteq> DEVICES_FILE" "DEVICES_FILE \<noteq> tmp_name DEVICES_FILE"
  by (simp_all add: tmp_name_def file_stem_def Let_def DEVICES_FILE_def lit_def of_char_def)

lemma save_file_whole:
  assumes "save_file c DEVICES_FILE data fs = (r, fs')"
  shows "r = Inr () \<Longrightarrow> fs' DEVICES_FILE = Some data"
    and "r = Inl e \<Longrightarrow> fs' DEVICES_FILE = fs DEVICES_FILE"
  using assms by (auto simp: save_file_def Let_def split: option.splits if_splits)

section \<open>The operations on memory and file\<close>

type_synonym store = "devices \<times> files"

text \<open>An operation changes the table under the lock, then writes it; \<open>f saved\<close> is the operation when the
  write ends so.\<close>

definition commit ::
  "(devices \<Rightarrow> bytes) \<Rightarrow> save_calls \<Rightarrow> (bool \<Rightarrow> devices \<Rightarrow> 'a stored) \<Rightarrow> store \<Rightarrow> (store_error + 'a) \<times> store" where
  "commit json c f = (\<lambda>(d, fs).
     case save_file c DEVICES_FILE (json (snd (f True d))) fs of (r, fs') \<Rightarrow>
     case f (r = Inr ()) d of (res, d') \<Rightarrow> (res, d', fs'))"

datatype store_op =
    St_Register save_calls registration
  | St_Touched save_calls rstr u32 int
  | St_Issue save_calls bytes u32 "rstr option" int
  | St_Touch save_calls bytes int
  | St_Rotate save_calls save_calls bytes "bytes option" u32 "rstr option" int
  | St_Revoke_Credential save_calls u32 rstr
  | St_Revoke_All save_calls u32
  | St_Revoke_Sessions save_calls u32

definition answer :: "('e + 'a) \<times> store \<Rightarrow> bool \<times> store" where
  "answer = (\<lambda>(r, st). (case r of Inl _ \<Rightarrow> False | Inr _ \<Rightarrow> True, st))"

text \<open>One call, with whether it was answered \<open>Ok\<close>.\<close>

fun store_step :: "(bytes \<Rightarrow> rstr) \<Rightarrow> (devices \<Rightarrow> bytes) \<Rightarrow> store_op \<Rightarrow> store \<Rightarrow> bool \<times> store" where
  "store_step hex json (St_Register c reg) st = answer (commit json c (\<lambda>s. register s reg) st)"
| "store_step hex json (St_Touched c cid n now) st = answer (commit json c (\<lambda>s. touched s cid n now) st)"
| "store_step hex json (St_Issue c fresh uid cid now) st =
     answer (commit json c (\<lambda>s. issue_token hex s fresh uid cid now) st)"
| "store_step hex json (St_Touch c tok now) st =
     (if list_ex (\<lambda>t. sk_token t = hex tok) (dv_tokens (fst st))
      then answer (commit json c (\<lambda>s. touch_token hex s tok now) st) else (True, st))"
| "store_step hex json (St_Rotate c1 c2 fresh old uid cid now) st = (case old of
      None \<Rightarrow> answer (commit json c2 (\<lambda>s. issue_token hex s fresh uid cid now) st)
    | Some t0 \<Rightarrow>
        (case commit json c1 (\<lambda>s d. (persist s, d\<lparr>dv_tokens := filter (\<lambda>t. sk_token t \<noteq> hex t0) (dv_tokens d)\<rparr>)) st of
          (Inl e, st') \<Rightarrow> (False, st')
        | (Inr _, st') \<Rightarrow> answer (commit json c2 (\<lambda>s. issue_token hex s fresh uid cid now) st')))"
| "store_step hex json (St_Revoke_Credential c uid cid) st = answer (commit json c (\<lambda>s. revoke_credential s uid cid) st)"
| "store_step hex json (St_Revoke_All c uid) st = answer (commit json c (\<lambda>s. revoke_all s uid) st)"
| "store_step hex json (St_Revoke_Sessions c uid) st = answer (commit json c (\<lambda>s. revoke_sessions s uid) st)"

text \<open>A life of the store: calls and restarts. A restart reads the file, and can fail.\<close>

datatype store_event = Store_Call store_op | Store_Restart

definition store_load :: "(bytes \<Rightarrow> devices option) \<Rightarrow> files \<Rightarrow> store_error + devices" where
  "store_load parse fs = devices_load parse (case fs DEVICES_FILE of None \<Rightarrow> Not_Found | Some bs \<Rightarrow> Contents bs)"

fun store_run ::
  "(bytes \<Rightarrow> rstr) \<Rightarrow> (devices \<Rightarrow> bytes) \<Rightarrow> (bytes \<Rightarrow> devices option) \<Rightarrow> store_event list \<Rightarrow> store \<Rightarrow> store_error + store"
where
  "store_run hex json parse [] st = Inr st"
| "store_run hex json parse (Store_Call op # es) st = store_run hex json parse es (snd (store_step hex json op st))"
| "store_run hex json parse (Store_Restart # es) st =
     res_bind (store_load parse (snd st)) (\<lambda>d. store_run hex json parse es (d, snd st))"

text \<open>The same operation without the file.\<close>

fun plain_op :: "bool \<Rightarrow> bool \<Rightarrow> store_op \<Rightarrow> device_op" where
  "plain_op s1 s2 (St_Register _ reg) = Register s1 reg"
| "plain_op s1 s2 (St_Touched _ cid n now) = Touched s1 cid n now"
| "plain_op s1 s2 (St_Issue _ fresh uid cid now) = Issue_Token s1 fresh uid cid now"
| "plain_op s1 s2 (St_Touch _ tok now) = Touch_Token s1 tok now"
| "plain_op s1 s2 (St_Rotate _ _ fresh old uid cid now) = Rotate_Token s1 s2 fresh old uid cid now"
| "plain_op s1 s2 (St_Revoke_Credential _ uid cid) = Revoke_Credential s1 uid cid"
| "plain_op s1 s2 (St_Revoke_All _ uid) = Revoke_All s1 uid"
| "plain_op s1 s2 (St_Revoke_Sessions _ uid) = Revoke_Sessions s1 uid"

section \<open>Memory and file\<close>

text \<open>In memory the store takes the step of the theory \<open>Devices\<close>.\<close>

lemma commit_memory: "\<exists>s. fst (snd (commit json c f st)) = snd (f s (fst st))"
  by (cases st) (auto simp: commit_def split_def)

lemma answer_memory: "snd (answer x) = snd x"
  by (simp add: answer_def split_def)

lemma commit_answer_memory: "\<exists>s. fst (snd (answer (commit json c f st))) = snd (f s (fst st))"
  by (simp add: answer_memory commit_memory)

lemma store_step_memory: "\<exists>s1 s2. fst (snd (store_step hex json op st)) = device_step hex (plain_op s1 s2 op) (fst st)"
proof (cases op)
  case (St_Rotate c1 c2 fresh old uid cid now)
  show ?thesis
  proof (cases old)
    case None
    show ?thesis
      using commit_answer_memory [of json c2 "\<lambda>s. issue_token hex s fresh uid cid now" st]
      by (simp add: St_Rotate None rotate_token_def)
  next
    case (Some t0)
    let ?f = "\<lambda>s d. (persist s, d\<lparr>dv_tokens := filter (\<lambda>t. sk_token t \<noteq> hex t0) (dv_tokens d)\<rparr>)"
    obtain r st1 where c: "commit json c1 ?f st = (r, st1)" by (rule prod.exhaust)
    then have d1: "fst st1 = snd (?f True (fst st))" by (auto simp: commit_def split: prod.splits)
    show ?thesis
    proof (cases r)
      case (Inl e)
      with c d1 show ?thesis
        by (intro exI [of _ False]) (simp add: St_Rotate Some rotate_token_def persist_def Let_def)
    next
      case (Inr u)
      with c d1 show ?thesis
        using commit_answer_memory [of json c2 "\<lambda>s. issue_token hex s fresh uid cid now" st1]
        by (intro exI [of _ True]) (simp add: St_Rotate Some rotate_token_def persist_def Let_def issue_token_def)
    qed
  qed
next
  case (St_Register c reg)
  then show ?thesis using commit_answer_memory [of json c "\<lambda>s. register s reg" st] by simp
next
  case (St_Touched c cid n now)
  then show ?thesis using commit_answer_memory [of json c "\<lambda>s. touched s cid n now" st] by simp
next
  case (St_Issue c fresh uid cid now)
  then show ?thesis using commit_answer_memory [of json c "\<lambda>s. issue_token hex s fresh uid cid now" st] by simp
next
  case (St_Touch c tok now)
  then show ?thesis using commit_answer_memory [of json c "\<lambda>s. touch_token hex s tok now" st]
    by (cases "list_ex (\<lambda>t. sk_token t = hex tok) (dv_tokens (fst st))") (simp_all add: touch_token_def)
next
  case (St_Revoke_Credential c uid cid)
  then show ?thesis using commit_answer_memory [of json c "\<lambda>s. revoke_credential s uid cid" st] by simp
next
  case (St_Revoke_All c uid)
  then show ?thesis using commit_answer_memory [of json c "\<lambda>s. revoke_all s uid" st] by simp
next
  case (St_Revoke_Sessions c uid)
  then show ?thesis using commit_answer_memory [of json c "\<lambda>s. revoke_sessions s uid" st] by simp
qed

definition text_laws :: "(devices \<Rightarrow> bytes) \<Rightarrow> (bytes \<Rightarrow> devices option) \<Rightarrow> bool" where
  "text_laws json parse \<longleftrightarrow> (\<forall>d. parse (json d) = Some d)"

lemma store_load_cong: "fs DEVICES_FILE = fs' DEVICES_FILE \<Longrightarrow> store_load parse fs = store_load parse fs'"
  by (simp add: store_load_def)

lemma store_load_saved: "text_laws json parse \<Longrightarrow> fs DEVICES_FILE = Some (json t) \<Longrightarrow> store_load parse fs = Inr t"
  by (simp add: store_load_def text_laws_def ok_or_def)

text \<open>A condition on tables, of the one in memory and of the one a restart would read.\<close>

definition both :: "(bytes \<Rightarrow> devices option) \<Rightarrow> (devices \<Rightarrow> bool) \<Rightarrow> store \<Rightarrow> bool" where
  "both parse P st \<longleftrightarrow> P (fst st) \<and> (\<exists>t. store_load parse (snd st) = Inr t \<and> P t)"

text \<open>An operation whose writes cannot be told apart in memory saves what it leaves, or nothing.\<close>

lemma commit_cases:
  assumes "text_laws json parse" "commit json c f (d, fs) = (res, st')"
  obtains "st' = (snd (f True d), snd st')" "res = fst (f True d)" "store_load parse (snd st') = Inr (snd (f True d))"
  | "st' = (snd (f False d), snd st')" "res = fst (f False d)" "store_load parse (snd st') = store_load parse fs"
proof -
  obtain r fs' where s: "save_file c DEVICES_FILE (json (snd (f True d))) fs = (r, fs')" by fastforce
  show ?thesis
  proof (cases r)
    case (Inl e)
    with save_file_whole(2) [OF s this] assms(2) show ?thesis
      by (intro that(2)) (auto simp: commit_def s split_def intro: store_load_cong)
  next
    case (Inr u)
    with save_file_whole(1) [OF s] assms show ?thesis
      by (intro that(1)) (auto simp: commit_def s split_def intro: store_load_saved)
  qed
qed

lemma commit_both:
  assumes "text_laws json parse" "both parse P st" "\<And>s. P (snd (f s (fst st)))"
  shows "both parse P (snd (commit json c f st))"
proof -
  obtain d fs where st: "st = (d, fs)" by fastforce
  obtain res st' where c: "commit json c f (d, fs) = (res, st')" by (rule prod.exhaust)
  from assms show ?thesis unfolding st c
    by (cases rule: commit_cases [OF assms(1) c]) (metis both_def fst_conv snd_conv)+
qed

lemma store_step_both:
  assumes j: "text_laws json parse" and "both parse P st"
    and "\<And>d s1 s2. P d \<Longrightarrow> P (device_step hex (plain_op s1 s2 op) d)"
  shows "both parse P (snd (store_step hex json op st))"
proof -
  have m: "P (fst st)" using assms(2) by (simp add: both_def)
  note keep = commit_both [OF j]
  show ?thesis
  proof (cases op)
    case (St_Rotate c1 c2 fresh old uid cid now)
    show ?thesis
    proof (cases old)
      case None
      have "P (snd (issue_token hex s fresh uid cid now (fst st)))" for s
        using assms(3) [OF m, of s s] by (simp add: St_Rotate None rotate_token_def)
      then show ?thesis by (simp add: St_Rotate None answer_memory keep assms(2))
    next
      case (Some t0)
      let ?f = "\<lambda>s d. (persist s, d\<lparr>dv_tokens := filter (\<lambda>t. sk_token t \<noteq> hex t0) (dv_tokens d)\<rparr>)"
      obtain r st1 where c: "commit json c1 ?f st = (r, st1)" by (rule prod.exhaust)
      have "P (snd (?f s (fst st)))" for s
        using assms(3) [OF m, of False s] by (simp add: St_Rotate Some rotate_token_def persist_def Let_def)
      with keep [OF assms(2), of ?f c1] c have b: "both parse P st1" by simp
      have "fst st1 = snd (?f True (fst st))" using c by (auto simp: commit_def split: prod.splits)
      then have "P (snd (issue_token hex s fresh uid cid now (fst st1)))" for s
        using assms(3) [OF m, of True s] by (simp add: St_Rotate Some rotate_token_def persist_def Let_def)
      with b c show ?thesis by (simp add: St_Rotate Some answer_memory keep split: sum.split)
    qed
  qed (use assms(2) assms(3) [OF m] in \<open>auto simp: answer_memory intro: keep\<close>)
qed

text \<open>What every operation of a run keeps, restarts keep, and no restart of the run fails.\<close>

lemma store_run_both:
  assumes "text_laws json parse" "both parse P st"
    and "\<And>op d s1 s2. Store_Call op \<in> set es \<Longrightarrow> P d \<Longrightarrow> P (device_step hex (plain_op s1 s2 op) d)"
  shows "\<exists>st'. store_run hex json parse es st = Inr st' \<and> both parse P st'"
  using assms(2,3)
proof (induction es arbitrary: st)
  case (Cons e es)
  show ?case
  proof (cases e)
    case (Store_Call op)
    have "both parse P (snd (store_step hex json op st))"
      using Cons.prems(2) [of op] by (intro store_step_both assms(1) Cons.prems(1)) (simp add: Store_Call)
    from Cons.IH [OF this] Cons.prems(2) show ?thesis by (simp add: Store_Call)
  next
    case Store_Restart
    with Cons.prems(1) Cons.IH Cons.prems(2) show ?thesis by (fastforce simp: both_def)
  qed
qed simp

text \<open>From an empty directory, every restart reads a table, whatever fails.\<close>

lemma restarts_succeed:
  assumes "text_laws json parse" "fs DEVICES_FILE = None"
  shows "\<exists>st'. store_run hex json parse es (\<lparr>dv_registrations = [], dv_tokens = []\<rparr>, fs) = Inr st'"
proof -
  have "both parse (\<lambda>_. True) (\<lparr>dv_registrations = [], dv_tokens = []\<rparr>, fs)"
    by (simp add: both_def store_load_def assms(2))
  from store_run_both [OF assms(1) this] show ?thesis by blast
qed

section \<open>What was answered is on disk\<close>

lemma answered_commit:
  assumes "text_laws json parse" "answer (commit json c f st) = (True, st')" "\<And>d. \<exists>e. fst (f False d) = Inl e"
  shows "fst st' = snd (f True (fst st)) \<and> store_load parse (snd st') = Inr (snd (f True (fst st)))"
proof -
  obtain d fs where st: "st = (d, fs)" by (rule prod.exhaust)
  obtain res st1 where c: "commit json c f (d, fs) = (res, st1)" by (rule prod.exhaust)
  have st1: "st1 = st'" and ok: "\<exists>v. res = Inr v" using assms(2) by (auto simp: st c answer_def split: sum.splits)
  show ?thesis
  proof (cases rule: commit_cases [OF assms(1) c])
    case 1
    then show ?thesis by (metis st st1 fst_conv)
  next
    case 2
    with ok assms(3) [of d] show ?thesis by auto
  qed
qed

text \<open>What an operation revokes: the tokens of a user, by the passkey behind them, and the passkeys; and what
  an event gives to a user.\<close>

fun revokes_token :: "store_op \<Rightarrow> u32 \<Rightarrow> rstr option \<Rightarrow> bool" where
  "revokes_token (St_Revoke_Credential _ u k) uid cid \<longleftrightarrow> uid = u \<and> cid = Some k"
| "revokes_token (St_Revoke_All _ u) uid cid \<longleftrightarrow> uid = u"
| "revokes_token (St_Revoke_Sessions _ u) uid cid \<longleftrightarrow> uid = u"
| "revokes_token _ uid cid \<longleftrightarrow> False"

fun revokes_passkey :: "store_op \<Rightarrow> u32 \<Rightarrow> rstr \<Rightarrow> bool" where
  "revokes_passkey (St_Revoke_Credential _ u k) uid cid \<longleftrightarrow> uid = u \<and> cid = k"
| "revokes_passkey (St_Revoke_All _ u) uid cid \<longleftrightarrow> uid = u"
| "revokes_passkey _ uid cid \<longleftrightarrow> False"

fun is_revocation :: "store_op \<Rightarrow> bool" where
  "is_revocation (St_Revoke_Credential _ _ _) = True"
| "is_revocation (St_Revoke_All _ _) = True"
| "is_revocation (St_Revoke_Sessions _ _) = True"
| "is_revocation _ = False"

fun tokens_given :: "(bytes \<Rightarrow> rstr) \<Rightarrow> store_op \<Rightarrow> (u32 \<times> rstr) list" where
  "tokens_given hex (St_Issue _ fresh uid cid now) = [(uid, hex fresh)]"
| "tokens_given hex (St_Rotate _ _ fresh old uid cid now) = [(uid, hex fresh)]"
| "tokens_given hex _ = []"

fun passkeys_given :: "store_op \<Rightarrow> (u32 \<times> rstr) list" where
  "passkeys_given (St_Register _ reg) = [(rg_uid reg, rg_credential_id reg)]"
| "passkeys_given _ = []"

definition calls_of :: "store_event list \<Rightarrow> store_op list" where
  "calls_of es = concat (map (\<lambda>e. case e of Store_Call op \<Rightarrow> [op] | Store_Restart \<Rightarrow> []) es)"

definition given_tokens :: "(bytes \<Rightarrow> rstr) \<Rightarrow> store_event list \<Rightarrow> (u32 \<times> rstr) set" where
  "given_tokens hex es = set (concat (map (tokens_given hex) (calls_of es)))"

definition given_passkeys :: "store_event list \<Rightarrow> (u32 \<times> rstr) set" where
  "given_passkeys es = set (concat (map passkeys_given (calls_of es)))"

text \<open>Of what \<open>rv\<close> revokes a table holds only what is in \<open>G\<close> and \<open>K\<close>.\<close>

definition only_given :: "store_op \<Rightarrow> (u32 \<times> rstr) set \<Rightarrow> (u32 \<times> rstr) set \<Rightarrow> devices \<Rightarrow> bool" where
  "only_given rv G K d \<longleftrightarrow>
     list_all (\<lambda>t. revokes_token rv (sk_uid t) (sk_credential_id t) \<longrightarrow> (sk_uid t, sk_token t) \<in> G) (dv_tokens d) \<and>
     list_all (\<lambda>r. revokes_passkey rv (rg_uid r) (rg_credential_id r) \<longrightarrow> (rg_uid r, rg_credential_id r) \<in> K)
       (dv_registrations d)"

lemma only_given_step:
  assumes "only_given rv G K d" "set (tokens_given hex op) \<subseteq> G" "set (passkeys_given op) \<subseteq> K"
  shows "only_given rv G K (device_step hex (plain_op s1 s2 op) d)"
  using assms
  by (cases op) (auto simp: only_given_def register_def touched_def issue_token_def touch_token_def
      rotate_token_def persist_def revoke_credential_def revoke_all_def revoke_sessions_def Let_def
      intro!: update_first_all list_all_filtered split: option.split)

lemma revocation_saved:
  assumes j: "text_laws json parse" and op: "is_revocation rv" "store_step hex json rv st = (True, st')"
  shows "both parse (only_given rv G K) st'"
proof (cases rv)
  case (St_Revoke_All c uid)
  have "\<exists>e. fst (revoke_all False uid d) = Inl e" for d by (simp add: revoke_all_def persist_def Let_def)
  from answered_commit [where f = "\<lambda>s. revoke_all s uid", OF j _ this] op(2) show ?thesis
    by (simp add: both_def St_Revoke_All) (simp add: only_given_def revoke_all_def Let_def list_all_iff)
next
  case (St_Revoke_Sessions c uid)
  have "\<exists>e. fst (revoke_sessions False uid d) = Inl e" for d by (simp add: revoke_sessions_def persist_def Let_def)
  from answered_commit [where f = "\<lambda>s. revoke_sessions s uid", OF j _ this] op(2) show ?thesis
    by (simp add: both_def St_Revoke_Sessions) (simp add: only_given_def revoke_sessions_def Let_def list_all_iff)
next
  case (St_Revoke_Credential c uid cid)
  have "\<exists>e. fst (revoke_credential False uid cid d) = Inl e" for d by (simp add: revoke_credential_def persist_def Let_def)
  from answered_commit [where f = "\<lambda>s. revoke_credential s uid cid", OF j _ this] op(2) show ?thesis
    by (simp add: both_def St_Revoke_Credential) (auto simp: only_given_def revoke_credential_def Let_def list_all_iff)
qed (use op(1) in simp_all)

lemma call_given:
  assumes "Store_Call op \<in> set es"
  shows "set (tokens_given hex op) \<subseteq> given_tokens hex es" "set (passkeys_given op) \<subseteq> given_passkeys es"
proof -
  have "op \<in> set (calls_of es)" using assms by (force simp: calls_of_def)
  then show "set (tokens_given hex op) \<subseteq> given_tokens hex es" "set (passkeys_given op) \<subseteq> given_passkeys es"
    by (auto simp: given_tokens_def given_passkeys_def)
qed

text \<open>C11: A revocation that was answered \<open>Ok\<close> is never undone: over any further calls, with writes that fail or are
  cut off at any point and restarts between them, every restart reads the file, and what the store then holds of
  the kind that was revoked was given after the revocation. After \<open>revoke_all\<close> or \<open>revoke_sessions\<close> a token that
  authenticates the user is one that \<open>issue_token\<close> or \<open>rotate_token\<close> made since; after \<open>revoke_credential\<close> no older token
  is bound to that passkey; and a passkey that \<open>revoke_all\<close> or \<open>revoke_credential\<close> removed is found as the user's only
  if it was registered again. (That a handshake in flight is such a source of a new token is
  \<open>rotation_in_flight\<close> below.)\<close>

theorem revocation_durable:
  assumes "text_laws json parse" "is_revocation rv" "store_step hex json rv st = (True, st1)"
  shows "\<exists>d fs. store_run hex json parse es st1 = Inr (d, fs) \<and>
    (\<forall>uid token now. (\<forall>cid. revokes_token rv uid cid) \<and> validate_token hex token now d = Some uid \<longrightarrow>
       (uid, hex token) \<in> given_tokens hex es) \<and>
    (\<forall>t \<in> set (dv_tokens d). revokes_token rv (sk_uid t) (sk_credential_id t) \<longrightarrow>
       (sk_uid t, sk_token t) \<in> given_tokens hex es) \<and>
    (\<forall>uid cid. revokes_passkey rv uid cid \<and> map_option rg_uid (find_credential cid d) = Some uid \<longrightarrow>
       (uid, cid) \<in> given_passkeys es)"
proof -
  have "\<exists>st'. store_run hex json parse es st1 = Inr st' \<and> both parse (only_given rv (given_tokens hex es) (given_passkeys es)) st'"
    by (rule store_run_both [OF assms(1) revocation_saved [OF assms]]) (intro only_given_step call_given)
  then obtain d fs where d: "store_run hex json parse es st1 = Inr (d, fs)"
    "only_given rv (given_tokens hex es) (given_passkeys es) d" by (auto simp: both_def)
  have tok: "(sk_uid t, sk_token t) \<in> given_tokens hex es"
    if "t \<in> set (dv_tokens d)" "revokes_token rv (sk_uid t) (sk_credential_id t)" for t
    using d(2) that by (auto simp: only_given_def list_all_iff)
  have "(uid, hex token) \<in> given_tokens hex es"
    if "\<forall>cid. revokes_token rv uid cid" "validate_token hex token now d = Some uid" for uid token now
  proof -
    from that(2) obtain i where "i < length (dv_tokens d)" "sk_token (dv_tokens d ! i) = hex token"
      "sk_uid (dv_tokens d ! i) = uid"
      by (auto simp: validate_token_def find_Some_iff)
    then obtain t where "t \<in> set (dv_tokens d)" "sk_token t = hex token" "sk_uid t = uid" using nth_mem by blast
    with tok [of t] that(1) show ?thesis by simp
  qed
  moreover have "(uid, cid) \<in> given_passkeys es"
    if "revokes_passkey rv uid cid" "map_option rg_uid (find_credential cid d) = Some uid" for uid cid
  proof -
    from that(2) obtain i where "i < length (dv_registrations d)" "rg_credential_id (dv_registrations d ! i) = cid"
      "rg_uid (dv_registrations d ! i) = uid"
      by (auto simp: find_credential_def find_Some_iff)
    then obtain r where "r \<in> set (dv_registrations d)" "rg_credential_id r = cid" "rg_uid r = uid" using nth_mem by blast
    with d(2) that(1) show ?thesis by (auto simp: only_given_def list_all_iff)
  qed
  ultimately show ?thesis using d(1) tok by blast
qed

text \<open>A handshake checks its token and rotates it under two locks, one after the other. A revocation that is answered
  between them does not stop it: \<open>rotate_token\<close> does not look whether the old token is still there, and the user
  has a live token again.\<close>

lemma rotation_in_flight:
  assumes "validate_token hex old now (fst st) = Some uid" "store_step hex json (St_Revoke_All c uid) st = (True, st1)"
    and "store_step hex json (St_Rotate c1 c2 fresh (Some old) uid None now) st1 = (True, st2)"
    and "\<forall>t \<in> set (dv_tokens (fst st)). sk_token t \<noteq> hex fresh"
  shows "validate_token hex fresh now (fst st2) = Some uid"
proof -
  have c: "\<exists>s. fst (snd (commit json c f x)) = snd (f s (fst x)) \<and> (\<forall>v. fst (commit json c f x) = Inr v \<longrightarrow> fst (f s (fst x)) = Inr v)" for c f x
    by (cases x) (auto simp: commit_def split_def)
  have 1: "fst st1 = snd (revoke_all True uid (fst st))"
    using assms(2) by (cases st) (auto simp: answer_def commit_def revoke_all_def split_def Let_def split: sum.splits)
  let ?f = "\<lambda>s d. (persist s, d\<lparr>dv_tokens := filter (\<lambda>t. sk_token t \<noteq> hex old) (dv_tokens d)\<rparr>)"
  obtain r st' where f: "commit json c1 ?f st1 = (r, st')" by (rule prod.exhaust)
  have d': "fst st' = snd (?f True (fst st1))" using f by (cases st1) (auto simp: commit_def split: prod.splits)
  obtain u where "r = Inr u" using assms(3) f by (cases r) auto
  with assms(3) f have "st2 = snd (commit json c2 (\<lambda>s. issue_token hex s fresh uid None now) st')"
    by (auto simp: answer_def split: sum.splits prod.splits)
  then have 2: "dv_tokens (fst st2) = dv_tokens (fst st') @
      [\<lparr>sk_token = hex fresh, sk_uid = uid, sk_credential_id = None, sk_last_seen = now\<rparr>]"
    using c [of c2 "\<lambda>s. issue_token hex s fresh uid None now" st'] by (auto simp: issue_token_def)
  have "\<forall>t \<in> set (dv_tokens (fst st')). sk_token t \<noteq> hex fresh"
    using assms(4) by (auto simp: d' 1 revoke_all_def Let_def)
  then have "List.find (\<lambda>t. sk_token t = hex fresh \<and> now - sk_last_seen t \<le> SESSION_IDLE_SECS) (dv_tokens (fst st')) = None"
    by (auto simp: find_None_iff)
  then show ?thesis by (simp add: validate_token_def 2 find_snoc SESSION_IDLE_SECS_def)
qed

text \<open>An encoding of tables that can be read back.\<close>

definition table_code :: "devices \<Rightarrow> nat" where
  "table_code d = to_nat (map (\<lambda>r. (unat (rg_uid r), map unat (rg_credential_id r), map unat (rg_public_key r),
       map unat (rg_rp_id r), map unat (rg_origin r), map unat (rg_user_name r), unat (rg_sign_count r),
       rg_created r, rg_last_used r)) (dv_registrations d),
     map (\<lambda>t. (map unat (sk_token t), unat (sk_uid t), map_option (map unat) (sk_credential_id t), sk_last_seen t))
       (dv_tokens d))"

definition table_text :: "devices \<Rightarrow> bytes" where
  "table_text d = replicate (table_code d) 123"

definition table_of_text :: "bytes \<Rightarrow> devices option" where
  "table_of_text bs = Some (inv table_code (length bs))"

lemma map_unat_eq [simp]: "map unat xs = map unat ys \<longleftrightarrow> xs = ys"
  by (rule inj_map_eq_map) (auto intro!: injI simp: word_unat_eq_iff)

lemma table_code_inj: "inj table_code"
proof (rule injI)
  fix c d assume "table_code c = table_code d"
  then have e: "map (\<lambda>r. (unat (rg_uid r), map unat (rg_credential_id r), map unat (rg_public_key r),
       map unat (rg_rp_id r), map unat (rg_origin r), map unat (rg_user_name r), unat (rg_sign_count r),
       rg_created r, rg_last_used r)) (dv_registrations c) = map (\<lambda>r. (unat (rg_uid r), map unat (rg_credential_id r), map unat (rg_public_key r),
       map unat (rg_rp_id r), map unat (rg_origin r), map unat (rg_user_name r), unat (rg_sign_count r),
       rg_created r, rg_last_used r)) (dv_registrations d)"
    "map (\<lambda>t. (map unat (sk_token t), unat (sk_uid t), map_option (map unat) (sk_credential_id t), sk_last_seen t))
       (dv_tokens c) = map (\<lambda>t. (map unat (sk_token t), unat (sk_uid t), map_option (map unat) (sk_credential_id t), sk_last_seen t))
       (dv_tokens d)"
    by (simp_all add: table_code_def)
  have o: "map_option (map unat) x = map_option (map unat) y \<Longrightarrow> x = y" for x y :: "rstr option"
    by (cases x; cases y) simp_all
  have "dv_registrations c = dv_registrations d"
    by (rule map_injective [OF e(1)]) (auto intro!: injI registration.equality simp: word_unat_eq_iff)
  moreover have "dv_tokens c = dv_tokens d"
    by (rule map_injective [OF e(2)]) (auto intro!: injI session_token.equality dest: o simp: word_unat_eq_iff)
  ultimately show "c = d" by simp
qed

lemma table_text_laws: "text_laws table_text table_of_text"
  by (simp add: text_laws_def table_text_def table_of_text_def table_code_inj)

theorem revocation_durable_witness:
  "\<exists>d fs. store_run hex_enc_ex table_text table_of_text
      [Store_Call (St_Issue \<lparr>sy_removed = True, sy_created = True, sy_written = Some 3, sy_synced = True, sy_renamed = True\<rparr> [2] 8 None 20),
       Store_Restart, Store_Call (St_Touch \<lparr>sy_removed = True, sy_created = True, sy_written = None, sy_synced = True, sy_renamed = True\<rparr> [1] 30)]
      (snd (store_step hex_enc_ex table_text
         (St_Revoke_All \<lparr>sy_removed = False, sy_created = True, sy_written = None, sy_synced = True, sy_renamed = True\<rparr> 7)
         (device_run hex_enc_ex [Issue_Token True [1] 7 None 10], Map.empty))) = Inr (d, fs) \<and>
    validate_token hex_enc_ex [1] 40 d \<noteq> Some 7 \<and> map_option rg_uid (find_credential [] d) \<noteq> Some 7"
proof -
  let ?rv = "St_Revoke_All \<lparr>sy_removed = False, sy_created = True, sy_written = None, sy_synced = True, sy_renamed = True\<rparr> 7"
  let ?st = "(device_run hex_enc_ex [Issue_Token True [1] 7 None 10], Map.empty)"
  let ?es = "[Store_Call (St_Issue \<lparr>sy_removed = True, sy_created = True, sy_written = Some 3, sy_synced = True, sy_renamed = True\<rparr> [2] 8 None 20),
       Store_Restart, Store_Call (St_Touch \<lparr>sy_removed = True, sy_created = True, sy_written = None, sy_synced = True, sy_renamed = True\<rparr> [1] 30)]"
  have "store_step hex_enc_ex table_text ?rv ?st = (True, snd (store_step hex_enc_ex table_text ?rv ?st))"
    by (simp add: answer_def commit_def save_file_def revoke_all_def persist_def Let_def)
  from revocation_durable [OF table_text_laws _ this, of ?es]
  obtain d fs where "store_run hex_enc_ex table_text table_of_text ?es (snd (store_step hex_enc_ex table_text ?rv ?st)) = Inr (d, fs)"
    "\<forall>uid token now. (\<forall>cid. revokes_token ?rv uid cid) \<and> validate_token hex_enc_ex token now d = Some uid \<longrightarrow>
       (uid, hex_enc_ex token) \<in> given_tokens hex_enc_ex ?es"
    "\<forall>uid cid. revokes_passkey ?rv uid cid \<and> map_option rg_uid (find_credential cid d) = Some uid \<longrightarrow>
       (uid, cid) \<in> given_passkeys ?es" by auto
  moreover have "(7, x) \<notin> given_tokens hex_enc_ex ?es" "(7, x) \<notin> given_passkeys ?es" for x
    by (simp_all add: given_tokens_def given_passkeys_def calls_of_def)
  ultimately show ?thesis by (intro exI [of _ d] exI [of _ fs] conjI) fastforce+
qed

text \<open>The hypothesis that the revocation was answered is needed: if its file could not be renamed, what was
  revoked is back after a restart.\<close>

lemma unsaved_revocation_undone:
  assumes "store_load parse fs = Inr d" "\<not> sy_renamed c"
  shows "\<exists>fs'. store_step hex json (St_Revoke_All c uid) (d, fs) = (False, device_step hex (Revoke_All False uid) d, fs') \<and>
    store_load parse fs' = Inr d"
proof -
  let ?s = "save_file c DEVICES_FILE (json (snd (revoke_all True uid d))) fs"
  have "\<exists>e. fst ?s = Inl e" using assms(2) by (simp add: save_file_def Let_def split: option.split)
  then obtain e where s: "fst ?s = Inl e" by blast
  have "snd ?s DEVICES_FILE = fs DEVICES_FILE" by (rule save_file_whole(2) [OF _ s]) simp
  then have "store_load parse (snd ?s) = Inr d" using assms(1) store_load_cong by metis
  with s show ?thesis
    by (intro exI [of _ "snd ?s"]) (simp add: answer_def commit_def split_def revoke_all_def persist_def Let_def)
qed

end
