(* ===== verification/Daemon_Run.thy ===== *)
theory Daemon_Run
  imports Auth_Props Server_Main
begin

text \<open>
  The running server: the helper socket, the handshakes of browsers and the ends of sessions, interleaved on one
  \<open>daemon\<close> (\<open>serve_unix\<close> and \<open>handle_helper\<close> of \<open>crates/quosh-server/src/helper.rs\<close>, \<open>handle_incoming\<close> of
  \<open>transport.rs\<close>, the loop of \<open>main.rs\<close>). The tasks share the daemon under its locks, so what happens
  between two waits of a task is one event. The theory shows what users can do to each other: nothing,
  except through limits they share.
\<close>

section \<open>Events\<close>

text \<open>A connection waits for the reply to its challenge, or for the hello of its user.\<close>

datatype conn = Waits_Reply int auth_hello bytes | Waits_Hello u32

record server =
  sv_daemon :: daemon
  sv_conns :: "nat \<Rightarrow> conn option"

text \<open>A session is changed by its transports and its owner, which keep its identity (\<open>session_calls_same\<close>);
  its end takes it out of the registry. After a signal \<open>main\<close> destroys the sessions one by one, while the other tasks go on.\<close>

datatype server_event =
    Helper_Request u32 helper_draw helper_request
  | Auth_First nat auth_draw bytes
  | Auth_Answer nat auth_draw "handshake_error + byte \<times> bytes"
  | Say_Hello nat byte bytes
  | Hang_Up nat
  | Session_Changes bytes session
  | Owner_Ends bytes
  | Destroyed bytes

definition same_session :: "session \<Rightarrow> session \<Rightarrow> bool" where
  "same_session s s' \<longleftrightarrow> se_id s' = se_id s \<and> se_token s' = se_token s \<and> se_uid s' = se_uid s"

lemma session_calls_same:
  "same_session s (snd (claim_transport s))" "same_session s (detach_if_epoch e now s)" "same_session s (ack_state v s)"
  "same_session s (snd (try_input q data s))" "same_session s (snd (try_resize mx cols rows s))"
  "same_session s (try_ack v s)" "same_session s (session_request_hangup s)"
  by (simp_all add: same_session_def claim_transport_def detach_if_epoch_def ack_state_def try_input_def try_resize_def
      try_ack_def try_send_def session_request_hangup_def Let_def split: sum.split)

definition put_session :: "bytes \<Rightarrow> session \<Rightarrow> daemon \<Rightarrow> daemon" where
  "put_session sid s d = d\<lparr>dm_sessions := AList.update sid s (dm_sessions d)\<rparr>"

definition enter :: "nat \<Rightarrow> auth_state \<times> bytes list \<times> daemon \<Rightarrow> int \<Rightarrow> server \<Rightarrow> server" where
  "enter n r now S = (case r of (st, out, d) \<Rightarrow> S\<lparr>sv_daemon := d, sv_conns := (sv_conns S)(n :=
     (case st of Over (Inl e) \<Rightarrow> None | Over (Inr uid) \<Rightarrow> Some (Waits_Hello uid)
       | Awaiting h chal \<Rightarrow> Some (Waits_Reply now h chal)))\<rparr>)"

fun server_step ::
  "('a auth_host_scheme) \<Rightarrow> (store_error \<Rightarrow> rstr) \<Rightarrow> server_event \<Rightarrow> server \<Rightarrow> server" where
  "server_step H show_error (Helper_Request uid x req) S =
     S\<lparr>sv_daemon := snd (dispatch (host.truncate H) show_error x uid req (sv_daemon S))\<rparr>"
| "server_step H show_error (Auth_First n x payload) S = (case sv_conns S n of
       Some _ \<Rightarrow> S | None \<Rightarrow> enter n (auth_begin H x payload (sv_daemon S)) (ax_now x) S)"
| "server_step H show_error (Auth_Answer n y reply) S = (case sv_conns S n of
       Some (Waits_Reply now h chal) \<Rightarrow> enter n (apfst Over (auth_reply H y now h chal reply (sv_daemon S))) now S
     | _ \<Rightarrow> S)"
| "server_step H show_error (Say_Hello n mty payload) S =
     (case sv_conns S n of Some (Waits_Reply now h chal) \<Rightarrow> S
      | c \<Rightarrow> (let uid = (case c of Some (Waits_Hello uid) \<Rightarrow> Some uid | _ \<Rightarrow> None);
               S = S\<lparr>sv_conns := (sv_conns S)(n := None)\<rparr> in
          case check_hello (map_of (dm_sessions (sv_daemon S))) uid mty payload of
            Inl _ \<Rightarrow> S
          | Inr (hello, s) \<Rightarrow> S\<lparr>sv_daemon := put_session (h_session_id hello) (snd (claim_transport s)) (sv_daemon S)\<rparr>))"
| "server_step H show_error (Hang_Up n) S = S\<lparr>sv_conns := (sv_conns S)(n := None)\<rparr>"
| "server_step H show_error (Session_Changes sid s') S = (case map_of (dm_sessions (sv_daemon S)) sid of
       Some s \<Rightarrow> if same_session s s' then S\<lparr>sv_daemon := put_session sid s' (sv_daemon S)\<rparr> else S
     | None \<Rightarrow> S)"
| "server_step H show_error (Owner_Ends sid) S = S\<lparr>sv_daemon := registry_remove sid (sv_daemon S)\<rparr>"
| "server_step H show_error (Destroyed sid) S = S\<lparr>sv_daemon := snd (destroy sid (sv_daemon S))\<rparr>"

definition server_run :: "('a auth_host_scheme) \<Rightarrow> (store_error \<Rightarrow> rstr) \<Rightarrow> server_event list \<Rightarrow> server \<Rightarrow> server" where
  "server_run H show_error es S = fold (server_step H show_error) es S"

section \<open>What a user has\<close>

text \<open>A user's sessions, passkeys, tokens, and the enrolment nonces that are valid after time \<open>T\<close>.\<close>

record user_view =
  uv_sessions :: "(bytes \<times> session) list"
  uv_registrations :: "registration list"
  uv_tokens :: "session_token list"
  uv_nonces :: "(bytes \<times> nonce) list"

definition view :: "u32 \<Rightarrow> int \<Rightarrow> daemon \<Rightarrow> user_view" where
  "view u T d = \<lparr>uv_sessions = filter (\<lambda>(_, s). se_uid s = u) (dm_sessions d),
     uv_registrations = filter (\<lambda>r. rg_uid r = u) (dv_registrations (dm_devices d)),
     uv_tokens = filter (\<lambda>t. sk_uid t = u) (dv_tokens (dm_devices d)),
     uv_nonces = filter (\<lambda>(_, n). nc_uid n = u \<and> nc_expires n > T) (dm_nonces d)\<rparr>"

lemma view_cong:
  assumes "uv_sessions (view u T d') = uv_sessions (view u T d)"
    and "uv_registrations (view u T d') = uv_registrations (view u T d)"
    and "uv_tokens (view u T d') = uv_tokens (view u T d)" "uv_nonces (view u T d') = uv_nonces (view u T d)"
  shows "view u T d' = view u T d"
  using assms by (simp add: view_def)

lemma alist_update_new: "k \<notin> fst ` set al \<Longrightarrow> AList.update k v al = al @ [(k, v)]"
  by (induction al) auto

lemma filter_update_same:
  assumes "map_of al k = Some v0" "\<not> P v0" "\<not> P v"
  shows "filter (\<lambda>(_, x). P x) (AList.update k v al) = filter (\<lambda>(_, x). P x) al"
  using assms by (induction al) (auto split: if_splits)

lemma filter_delete_other:
  assumes "distinct (map fst al)" "\<And>v. map_of al k = Some v \<Longrightarrow> \<not> P v"
  shows "filter (\<lambda>(_, x). P x) (AList.delete k al) = filter (\<lambda>(_, x). P x) al"
  using assms
proof (induction al)
  case (Cons p al)
  obtain j v where p: "p = (j, v)" by fastforce
  show ?case
  proof (cases "j = k")
    case True
    then have "AList.delete k al = al" using Cons.prems(1)
      by (simp add: p AList.delete_eq filter_id_conv) (force simp: rev_image_eqI)
    moreover have "\<not> P v" using Cons.prems(2) by (simp add: p True)
    ultimately show ?thesis by (simp add: p True)
  next
    case False
    have "filter (\<lambda>(_, x). P x) (AList.delete k al) = filter (\<lambda>(_, x). P x) al"
      using Cons.prems False by (intro Cons.IH) (auto simp: p)
    then show ?thesis using False by (simp add: p)
  qed
qed simp

section \<open>What one operation does to others\<close>

text \<open>The registry has one entry for an id, no token is listed twice, no nonce is issued twice.\<close>

definition daemon_ok :: "daemon \<Rightarrow> bool" where
  "daemon_ok d \<longleftrightarrow> distinct (map fst (dm_sessions d)) \<and> distinct (map sk_token (dv_tokens (dm_devices d))) \<and>
     distinct (map fst (dm_nonces d))"

definition no_session :: "bytes \<Rightarrow> daemon \<Rightarrow> bool" where
  "no_session sid d \<longleftrightarrow> sid \<notin> fst ` set (dm_sessions d)"

lemma spawn_session_view:
  assumes "spawn_session H sid tok sp now uid cols rows d = (r, d')" "no_session sid d"
  shows "u \<noteq> uid \<Longrightarrow> view u T d' = view u T d" and "dm_devices d' = dm_devices d" "dm_nonces d' = dm_nonces d"
  using assms
  by (auto simp: spawn_session_def view_def no_session_def alist_update_new session_new_def
      split: sum.splits if_splits option.splits)

lemma spawn_session_ok:
  assumes "spawn_session H sid tok sp now uid cols rows d = (r, d')" "no_session sid d" "daemon_ok d"
  shows "daemon_ok d'"
  using assms
  by (auto simp: spawn_session_def daemon_ok_def no_session_def alist_update_new split: sum.splits if_splits option.splits)

lemma kill_idle_view:
  "u \<noteq> uid \<Longrightarrow> view u T (snd (kill_idle uid now d)) = view u T d"
  by (auto simp: view_def kill_idle_def is_idle_def intro!: filter_cong)

lemma kill_idle_frame:
  "daemon_ok d \<Longrightarrow> daemon_ok (snd (kill_idle uid now d))" "no_session sid d \<Longrightarrow> no_session sid (snd (kill_idle uid now d))"
  by (auto simp: daemon_ok_def no_session_def kill_idle_def distinct_map_filter)

lemma put_session_view:
  assumes "map_of (dm_sessions d) sid = Some s" "se_uid s \<noteq> u" "se_uid s' \<noteq> u"
  shows "view u T (put_session sid s' d) = view u T d"
  using filter_update_same [OF assms(1), where P = "\<lambda>s. se_uid s = u"] assms(2,3)
  by (simp add: view_def put_session_def)

lemma put_session_ok: "daemon_ok d \<Longrightarrow> daemon_ok (put_session sid s d)"
  by (simp add: daemon_ok_def put_session_def distinct_update)

lemma registry_remove_view:
  assumes "daemon_ok d" "\<And>s. map_of (dm_sessions d) sid = Some s \<Longrightarrow> se_uid s \<noteq> u"
  shows "view u T (registry_remove sid d) = view u T d"
  using filter_delete_other [of "dm_sessions d" sid "\<lambda>s. se_uid s = u"] assms
  by (simp add: view_def registry_remove_def daemon_ok_def)

lemma registry_remove_ok: "daemon_ok d \<Longrightarrow> daemon_ok (registry_remove sid d)"
  by (simp add: daemon_ok_def registry_remove_def distinct_delete)

text \<open>A daemon whose devices alone change.\<close>

lemma devices_view:
  assumes "filter (\<lambda>r. rg_uid r = u) (dv_registrations dv) = filter (\<lambda>r. rg_uid r = u) (dv_registrations (dm_devices d))"
    and "filter (\<lambda>t. sk_uid t = u) (dv_tokens dv) = filter (\<lambda>t. sk_uid t = u) (dv_tokens (dm_devices d))"
  shows "view u T (d\<lparr>dm_devices := dv\<rparr>) = view u T d"
  using assms by (simp add: view_def)

lemma revoke_view:
  "u \<noteq> uid \<Longrightarrow> view u T (d\<lparr>dm_devices := snd (revoke_credential saved uid cid (dm_devices d))\<rparr>) = view u T d"
  "u \<noteq> uid \<Longrightarrow> view u T (d\<lparr>dm_devices := snd (revoke_all saved uid (dm_devices d))\<rparr>) = view u T d"
  "u \<noteq> uid \<Longrightarrow> view u T (d\<lparr>dm_devices := snd (revoke_sessions saved uid (dm_devices d))\<rparr>) = view u T d"
  by (auto simp: view_def revoke_credential_def revoke_all_def revoke_sessions_def Let_def intro!: filter_cong)

lemma revoke_ok:
  "daemon_ok d \<Longrightarrow> daemon_ok (d\<lparr>dm_devices := snd (revoke_credential saved uid cid (dm_devices d))\<rparr>)"
  "daemon_ok d \<Longrightarrow> daemon_ok (d\<lparr>dm_devices := snd (revoke_all saved uid (dm_devices d))\<rparr>)"
  "daemon_ok d \<Longrightarrow> daemon_ok (d\<lparr>dm_devices := snd (revoke_sessions saved uid (dm_devices d))\<rparr>)"
  by (auto simp: daemon_ok_def revoke_credential_def revoke_all_def revoke_sessions_def Let_def distinct_map_filter)

lemma issue_view:
  "u \<noteq> uid \<Longrightarrow> view u T (d\<lparr>dm_devices := snd (issue_token hex saved fresh uid cid now (dm_devices d))\<rparr>) = view u T d"
  by (simp add: view_def issue_token_def)

definition no_token :: "rstr \<Rightarrow> daemon \<Rightarrow> bool" where
  "no_token s d \<longleftrightarrow> s \<notin> sk_token ` set (dv_tokens (dm_devices d))"

lemma issue_ok:
  "daemon_ok d \<Longrightarrow> no_token (hex fresh) d \<Longrightarrow>
    daemon_ok (d\<lparr>dm_devices := snd (issue_token hex saved fresh uid cid now (dm_devices d))\<rparr>)"
  by (simp add: daemon_ok_def no_token_def issue_token_def)

lemma find_in: "List.find P xs = Some x \<Longrightarrow> x \<in> set xs \<and> P x"
  by (auto simp: find_Some_iff)

text \<open>The tokens dropped under a string are the one token that has it.\<close>

lemma drop_token_view:
  assumes "daemon_ok d" "validate_token hex tok now (dm_devices d) = Some uid" "u \<noteq> uid"
  shows "filter (\<lambda>t. sk_uid t = u) (filter (\<lambda>t. sk_token t \<noteq> hex tok) (dv_tokens (dm_devices d))) =
    filter (\<lambda>t. sk_uid t = u) (dv_tokens (dm_devices d))"
proof -
  obtain t0 where t0: "t0 \<in> set (dv_tokens (dm_devices d))" "sk_token t0 = hex tok" "sk_uid t0 = uid"
    using assms(2) by (auto simp: validate_token_def dest!: find_in)
  have inj: "inj_on sk_token (set (dv_tokens (dm_devices d)))" using assms(1) by (simp add: daemon_ok_def distinct_map)
  have "sk_token t \<noteq> hex tok" if "t \<in> set (dv_tokens (dm_devices d))" "sk_uid t = u" for t
  proof
    assume "sk_token t = hex tok"
    then have "t = t0" using inj_onD [OF inj _ that(1) t0(1)] t0(2) by simp
    with that(2) t0(3) assms(3) show False by simp
  qed
  then show ?thesis unfolding filter_filter by (intro filter_cong refl) blast
qed

lemma rotate_view:
  assumes "daemon_ok d" "validate_token hex tok now (dm_devices d) = Some uid" "u \<noteq> uid"
  shows "view u T (d\<lparr>dm_devices := snd (rotate_token hex s1 s2 fresh (Some tok) uid cid t (dm_devices d))\<rparr>) = view u T d"
  using drop_token_view [OF assms] assms(3)
  by (intro devices_view) (simp_all add: rotate_token_def persist_def issue_token_def Let_def)

lemma rotate_ok:
  "daemon_ok d \<Longrightarrow> no_token (hex fresh) d \<Longrightarrow>
    daemon_ok (d\<lparr>dm_devices := snd (rotate_token hex s1 s2 fresh old uid cid t (dm_devices d))\<rparr>)"
  by (auto simp: daemon_ok_def no_token_def rotate_token_def persist_def issue_token_def Let_def distinct_map_filter
      split: option.split)

lemma touched_view:
  assumes "find_credential cid (dm_devices d) = Some reg" "rg_uid reg \<noteq> u"
  shows "view u T (d\<lparr>dm_devices := snd (touched saved cid n now (dm_devices d))\<rparr>) = view u T d"
proof -
  have "filter (\<lambda>r. rg_uid r = u) (update_first (\<lambda>r. rg_credential_id r = cid)
      (\<lambda>r. r\<lparr>rg_sign_count := max (rg_sign_count r) n, rg_last_used := Some now\<rparr>) rs) = filter (\<lambda>r. rg_uid r = u) rs"
    if "List.find (\<lambda>r. rg_credential_id r = cid) rs = Some reg" for rs
    using that assms(2) by (induction rs) (auto split: if_splits)
  with assms(1) show ?thesis by (intro devices_view) (simp_all add: touched_def find_credential_def)
qed

lemma register_view:
  assumes "rg_uid reg \<noteq> u" "\<forall>r \<in> set (registrations u (dm_devices d)). rg_credential_id r \<noteq> rg_credential_id reg"
  shows "view u T (d\<lparr>dm_devices := snd (register saved reg (dm_devices d))\<rparr>) = view u T d"
  using assms by (intro devices_view) (auto simp: register_def registrations_def intro!: filter_cong)

lemma register_touched_ok:
  "daemon_ok d \<Longrightarrow> daemon_ok (d\<lparr>dm_devices := snd (register saved reg (dm_devices d))\<rparr>)"
  "daemon_ok d \<Longrightarrow> daemon_ok (d\<lparr>dm_devices := snd (touched saved cid n now (dm_devices d))\<rparr>)"
  by (simp_all add: daemon_ok_def register_def touched_def)

lemma nonce_issue_view:
  assumes "u \<noteq> uid" "now \<le> T" "fresh \<notin> fst ` set (dm_nonces d)"
  shows "view u T (d\<lparr>dm_nonces := snd (nonce_issue fresh uid now (dm_nonces d))\<rparr>) = view u T d"
proof -
  have "fresh \<notin> fst ` set (filter (\<lambda>(_, n). nc_expires n > now) (dm_nonces d))" using assms(3) by auto
  then show ?thesis using assms(1,2)
    by (auto simp: view_def nonce_issue_def Let_def alist_update_new intro!: filter_cong)
qed

lemma nonce_consume_view:
  assumes "distinct (map fst (dm_nonces d))" "now \<le> T"
    and "\<And>n. map_of (dm_nonces d) k = Some n \<Longrightarrow> nc_expires n > now \<Longrightarrow> nc_uid n \<noteq> u"
  shows "view u T (d\<lparr>dm_nonces := snd (nonce_consume k now (dm_nonces d))\<rparr>) = view u T d"
  using filter_delete_other [OF assms(1), of k "\<lambda>n. nc_uid n = u \<and> nc_expires n > T"] assms(2,3)
  by (force simp: view_def nonce_consume_def split: option.split)

lemma nonce_ops_ok:
  "daemon_ok d \<Longrightarrow> daemon_ok (d\<lparr>dm_nonces := snd (nonce_issue fresh uid now (dm_nonces d))\<rparr>)"
  "daemon_ok d \<Longrightarrow> daemon_ok (d\<lparr>dm_nonces := snd (nonce_consume k now (dm_nonces d))\<rparr>)"
  by (auto simp: daemon_ok_def nonce_issue_def nonce_consume_def Let_def distinct_update distinct_delete
      distinct_fst_filter split: option.split)

section \<open>What one request does to others\<close>

definition helper_fresh :: "helper_draw \<Rightarrow> daemon \<Rightarrow> bool" where
  "helper_fresh x d \<longleftrightarrow> no_session (hd_sid x) d \<and> hd_nonce x \<notin> fst ` set (dm_nonces d)"

lemma create_session_frame:
  assumes "no_session sid d"
  shows "u \<noteq> uid \<Longrightarrow> view u T (snd (create_session H sid tok sp now uid req resp d)) = view u T d"
    and "daemon_ok d \<Longrightarrow> daemon_ok (snd (create_session H sid tok sp now uid req resp d))"
proof -
  define d1 where "d1 = (if hr_kill_idle req then snd (kill_idle uid now d) else d)"
  define c where "c = (if hr_cols req = 0 then 80 else hr_cols req)"
  define w where "w = (if hr_rows req = 0 then 24 else hr_rows req)"
  obtain r d2 where s: "spawn_session H sid tok sp now uid c w d1 = (r, d2)" by fastforce
  have e: "snd (create_session H sid tok sp now uid req resp d) = d2"
    using s by (cases r) (auto simp: create_session_def Let_def simp flip: d1_def c_def w_def)
  have n: "no_session sid d1" using assms by (simp add: d1_def kill_idle_frame)
  show "view u T (snd (create_session H sid tok sp now uid req resp d)) = view u T d" if "u \<noteq> uid"
    using spawn_session_view(1) [OF s n that] kill_idle_view [OF that] unfolding e by (simp add: d1_def)
  show "daemon_ok (snd (create_session H sid tok sp now uid req resp d))" if "daemon_ok d"
    using spawn_session_ok [OF s n] that unfolding e by (simp add: d1_def kill_idle_frame)
qed

lemma revoke_request_frame:
  shows "u \<noteq> uid \<Longrightarrow> view u T (snd (revoke sh saved uid req resp d)) = view u T d"
    and "daemon_ok d \<Longrightarrow> daemon_ok (snd (revoke sh saved uid req resp d))"
  using revoke_view [where u = u and uid = uid and T = T and d = d and saved = saved]
    revoke_ok [where d = d and saved = saved and uid = uid]
  by (auto simp: revoke_def Let_def split_def split: option.split sum.split)

lemma dispatch_frame:
  assumes "helper_fresh x d"
  shows "u \<noteq> uid \<Longrightarrow> hd_now x \<le> T \<Longrightarrow> view u T (snd (dispatch H sh x uid req d)) = view u T d"
    and "daemon_ok d \<Longrightarrow> daemon_ok (snd (dispatch H sh x uid req d))"
  using assms nonce_issue_view [where u = u and uid = uid and now = "hd_now x" and T = T and fresh = "hd_nonce x" and d = d]
    nonce_ops_ok(1) [where d = d]
  by (auto simp: dispatch_def helper_fresh_def create_session_frame revoke_request_frame enroll_nonce_def split_def Let_def
      split: sum.split)

section \<open>What one handshake does to others\<close>

definition auth_fresh :: "('a auth_host_scheme) \<Rightarrow> auth_draw \<Rightarrow> daemon \<Rightarrow> bool" where
  "auth_fresh H x d \<longleftrightarrow> no_session (fst (ax_session x)) d \<and> no_token (ho_hex H (ax_token x)) d"

lemma finish_auth_frame:
  assumes "no_session (fst (ax_session x)) d"
  shows "u \<noteq> uid \<Longrightarrow> view u T (snd (snd (finish_auth H x uid token h c r d))) = view u T d"
    and "daemon_ok d \<Longrightarrow> daemon_ok (snd (snd (finish_auth H x uid token h c r d)))"
proof -
  obtain a d1 where r: "resolve_session H x uid h c r d = (a, d1)" by fastforce
  have v: "view u T d1 = view u T d" if "u \<noteq> uid"
    using r spawn_session_view(1) [OF _ assms that]
    by (auto simp: resolve_session_def split: if_splits prod.splits sum.splits option.splits)
  have o: "daemon_ok d1" if "daemon_ok d"
    using r spawn_session_ok [OF _ assms that] that
    by (auto simp: resolve_session_def split: if_splits prod.splits sum.splits option.splits)
  show "view u T (snd (snd (finish_auth H x uid token h c r d))) = view u T d" if "u \<noteq> uid"
    using v [OF that] by (simp add: finish_auth_def r split_def Let_def split: option.split sum.split)
  show "daemon_ok (snd (snd (finish_auth H x uid token h c r d)))" if "daemon_ok d"
    using o [OF that] that by (simp add: finish_auth_def r split_def Let_def split: option.split sum.split)
qed

lemma auth_begin_cases:
  assumes "auth_begin H x payload d = (st, out, d')"
  obtains (same) "d' = d"
    | (token) h uid r dv where "auth_hello_decode payload = Inr h" "token_proves H d (ax_now x) h uid"
      "rotate_token (ho_hex H) (ax_saved1 x) (ax_saved2 x) (ax_token x) (Some (ah_auth_token h)) uid None (ax_now x) (dm_devices d) = (r, dv)"
      "d' = d\<lparr>dm_devices := dv\<rparr> \<or>
       (\<exists>t a out. finish_auth H x uid t h (hello_cols h) (hello_rows h) (d\<lparr>dm_devices := dv\<rparr>) = (a, out, d'))"
  using assms
  by (fastforce simp: auth_begin_def token_proves_def Let_def apfst_def map_prod_def
      split: sum.splits option.splits prod.splits if_splits)

lemma auth_begin_frame:
  assumes f: "auth_fresh H x d" and ok: "daemon_ok d" and b: "auth_begin H x payload d = (st, out, d')"
  shows "\<not> (\<exists>h. auth_hello_decode payload = Inr h \<and> token_proves H d (ax_now x) h u) \<Longrightarrow> view u T d' = view u T d"
    and "daemon_ok d'"
proof -
  from b  have *: "(\<not> (\<exists>h. auth_hello_decode payload = Inr h \<and> token_proves H d (ax_now x) h u) \<longrightarrow> view u T d' = view u T d) \<and> daemon_ok d'"
  proof (cases rule: auth_begin_cases)
    case same
    with ok show ?thesis by simp
  next
    case (token h uid r dv)
    have dv: "dv = snd (rotate_token (ho_hex H) (ax_saved1 x) (ax_saved2 x) (ax_token x) (Some (ah_auth_token h)) uid None (ax_now x) (dm_devices d))"
      by (simp add: token(3))
    have ok1: "daemon_ok (d\<lparr>dm_devices := dv\<rparr>)" unfolding dv by (rule rotate_ok [OF ok]) (use f in \<open>simp add: auth_fresh_def\<close>)
    have ns: "no_session (fst (ax_session x)) (d\<lparr>dm_devices := dv\<rparr>)" using f by (simp add: auth_fresh_def no_session_def)
    have "view u T (d\<lparr>dm_devices := dv\<rparr>) = view u T d" if "u \<noteq> uid"
      unfolding dv by (rule rotate_view [where now = "ax_now x", OF ok _ that]) (use token(2) in \<open>simp add: token_proves_def\<close>)
    then show ?thesis
      using token(1,2,4) finish_auth_frame [OF ns] ok1 by (metis snd_conv)
  qed
  show "view u T d' = view u T d" if "\<not> (\<exists>h. auth_hello_decode payload = Inr h \<and> token_proves H d (ax_now x) h u)"
    using * that by blast
  show "daemon_ok d'" using * by blast
qed

text \<open>An enrolment whose authenticator presents the id of a passkey the user has already: \<open>register\<close> would replace
  it (\<open>register_displaces\<close>).\<close>

definition displaces :: "('a auth_host_scheme) \<Rightarrow> daemon \<Rightarrow> bytes \<Rightarrow> bytes \<Rightarrow> u32 \<Rightarrow> bool" where
  "displaces H d chal reply u \<longleftrightarrow> (\<exists>e reg. enroll_decode reply = Inr e \<and>
     verify_registration (au_lib H) (dm_rp_id d) (dm_origin d) chal (en_client_data_json e) (en_attestation_object e) = Inr reg \<and>
     (\<exists>r \<in> set (registrations u (dm_devices d)). rg_credential_id r = ho_hex H (rd_credential_id reg)))"

lemma do_enroll_frame:
  assumes e: "do_enroll H saved reply chal now d = (r, d')" and ok: "daemon_ok d"
  shows "daemon_ok d'" "dm_sessions d' = dm_sessions d" "dv_tokens (dm_devices d') = dv_tokens (dm_devices d)"
    and "\<not> nonce_proves d now reply u \<Longrightarrow> \<not> displaces H d chal reply u \<Longrightarrow> now \<le> T \<Longrightarrow> view u T d' = view u T d"
proof -
  have *: "daemon_ok d' \<and> dm_sessions d' = dm_sessions d \<and> dv_tokens (dm_devices d') = dv_tokens (dm_devices d) \<and>
    (\<not> nonce_proves d now reply u \<longrightarrow> \<not> displaces H d chal reply u \<longrightarrow> now \<le> T \<longrightarrow> view u T d' = view u T d)"
  proof (cases "enroll_decode reply")
    case (Inl x)
    with e ok show ?thesis by (simp add: do_enroll_def)
  next
    case (Inr en)
    obtain w m where c: "nonce_consume (en_nonce en) now (dm_nonces d) = (w, m)" by fastforce
    let ?d = "d\<lparr>dm_nonces := m\<rparr>"
    have m: "m = snd (nonce_consume (en_nonce en) now (dm_nonces d))" by (simp add: c)
    have ok1: "daemon_ok ?d" unfolding m by (rule nonce_ops_ok(2) [OF ok])
    have v1: "view u T ?d = view u T d" if "\<not> nonce_proves d now reply u" "now \<le> T"
      unfolding m
    proof (rule nonce_consume_view [OF _ that(2)])
      show "distinct (map fst (dm_nonces d))" using ok by (simp add: daemon_ok_def)
      show "nc_uid n \<noteq> u" if "map_of (dm_nonces d) (en_nonce en) = Some n" "nc_expires n > now" for n
        using that \<open>\<not> nonce_proves d now reply u\<close> Inr by (simp add: nonce_proves_def nonce_consume_def)
    qed
    consider "d' = ?d" | uid reg rec where "w = Some uid" "verify_registration (au_lib H) (dm_rp_id ?d) (dm_origin ?d) chal
        (en_client_data_json en) (en_attestation_object en) = Inr reg" "rg_uid rec = uid"
        "rg_credential_id rec = ho_hex H (rd_credential_id reg)" "d' = ?d\<lparr>dm_devices := snd (register saved rec (dm_devices ?d))\<rparr>"
    proof (cases w)
      case None
      with e Inr c that(1) show thesis by (simp add: do_enroll_def)
    next
      case (Some uid)
      show thesis
      proof (cases "verify_registration (au_lib H) (dm_rp_id ?d) (dm_origin ?d) chal (en_client_data_json en) (en_attestation_object en)")
        case (Inl x)
        with e \<open>enroll_decode reply = Inr en\<close> c Some that(1) show thesis by (simp add: do_enroll_def Let_def)
      next
        case (Inr reg)
        define rec where "rec = \<lparr>rg_uid = uid, rg_credential_id = ho_hex H (rd_credential_id reg),
          rg_public_key = ho_hex H (rd_public_key reg), rg_rp_id = dm_rp_id ?d, rg_origin = dm_origin ?d,
          rg_user_name = (case ho_unix_name H uid of Some n \<Rightarrow> n @ lit ''@'' @ dm_origin ?d
            | None \<Rightarrow> lit ''uid-'' @ dec_digits (unat uid) @ lit ''@'' @ dm_origin ?d),
          rg_sign_count = rd_sign_count reg, rg_created = now, rg_last_used = Some now\<rparr>"
        have "d' = ?d\<lparr>dm_devices := snd (register saved rec (dm_devices ?d))\<rparr>"
          using e \<open>enroll_decode reply = Inr en\<close> c Some Inr
          by (simp add: do_enroll_def Let_def split_def rec_def split: sum.splits)
        with that(2) [OF Some Inr, of rec] show thesis by (simp add: rec_def)
      qed
    qed
    then show ?thesis
    proof cases
      case 1
      with ok1 v1 show ?thesis by simp
    next
      case (2 uid reg rec)
      have "view u T d' = view u T ?d" if "\<not> nonce_proves d now reply u" "\<not> displaces H d chal reply u"
        unfolding 2(5)
      proof (rule register_view)
        show "rg_uid rec \<noteq> u" using that(1) Inr c 2(1,3) by (auto simp: nonce_proves_def)
        show "\<forall>r \<in> set (registrations u (dm_devices ?d)). rg_credential_id r \<noteq> rg_credential_id rec"
          using that(2) Inr 2(2,4) by (auto simp: displaces_def)
      qed
      moreover have "daemon_ok d'" unfolding 2(5) by (rule register_touched_ok(1) [OF ok1])
      moreover have "dm_sessions d' = dm_sessions d" "dv_tokens (dm_devices d') = dv_tokens (dm_devices d)"
        by (simp_all add: 2(5) register_def)
      ultimately show ?thesis using v1 by metis
    qed
  qed
  from * show "daemon_ok d'" "dm_sessions d' = dm_sessions d" "dv_tokens (dm_devices d') = dv_tokens (dm_devices d)"
    and "\<not> nonce_proves d now reply u \<Longrightarrow> \<not> displaces H d chal reply u \<Longrightarrow> now \<le> T \<Longrightarrow> view u T d' = view u T d" by blast+
qed

lemma do_assert_frame:
  assumes e: "do_assert H saved reply chal now d = (r, d')" and ok: "daemon_ok d"
  shows "daemon_ok d'" "dm_sessions d' = dm_sessions d" "dv_tokens (dm_devices d') = dv_tokens (dm_devices d)"
    and "\<not> passkey_proves H d chal reply u \<Longrightarrow> view u T d' = view u T d"
proof -
  consider "d' = d" | a reg key n where "assert_decode reply = Inr a"
      "find_credential (ho_hex H (as_credential_id a)) (dm_devices d) = Some reg" "au_unhex H (rg_public_key reg) = Some key"
      "verify_assertion (au_lib H) (dm_rp_id d) (dm_origin d) chal (as_client_data_json a) (as_authenticator_data a) (as_signature a) key = Inr n"
      "d' = d\<lparr>dm_devices := snd (touched saved (ho_hex H (as_credential_id a)) n now (dm_devices d))\<rparr>"
    using e by (fastforce simp: do_assert_def Let_def split_def split: sum.splits option.splits)
  then have *: "daemon_ok d' \<and> dm_sessions d' = dm_sessions d \<and> dv_tokens (dm_devices d') = dv_tokens (dm_devices d) \<and>
    (\<not> passkey_proves H d chal reply u \<longrightarrow> view u T d' = view u T d)"
  proof cases
    case 1
    with ok show ?thesis by simp
  next
    case (2 a reg key n)
    have "rg_uid reg \<noteq> u" if "\<not> passkey_proves H d chal reply u"
      using that 2(1-3) verify_assertion_sound [OF 2(4)] by (auto simp: passkey_proves_def)
    then have "view u T d' = view u T d" if "\<not> passkey_proves H d chal reply u"
      unfolding 2(5) using that by (intro touched_view [OF 2(2)]) blast
    with 2(5) ok show ?thesis by (simp add: register_touched_ok) (simp add: touched_def)
  qed
  from * show "daemon_ok d'" "dm_sessions d' = dm_sessions d" "dv_tokens (dm_devices d') = dv_tokens (dm_devices d)"
    and "\<not> passkey_proves H d chal reply u \<Longrightarrow> view u T d' = view u T d" by blast+
qed

text \<open>What follows a ceremony: a token, then the end of the handshake.\<close>

definition given ::
  "('a auth_host_scheme) \<Rightarrow> auth_draw \<Rightarrow> int \<Rightarrow> auth_hello \<Rightarrow> auth_error + u32 \<times> rstr \<Rightarrow> daemon \<Rightarrow> daemon \<Rightarrow> bool" where
  "given H y now h c d1 d' \<longleftrightarrow> d' = d1 \<or> (\<exists>uid cid t dv. c = Inr (uid, cid) \<and>
     issue_token (ho_hex H) (ax_saved2 y) (ax_token y) uid (Some cid) now (dm_devices d1) = (t, dv) \<and>
     (d' = d1\<lparr>dm_devices := dv\<rparr> \<or>
      (\<exists>tok a out. finish_auth H y uid tok h (hello_cols h) (hello_rows h) (d1\<lparr>dm_devices := dv\<rparr>) = (a, out, d'))))"

text \<open>A reply is on behalf of a user, or displaces their passkey.\<close>

definition reply_by ::
  "('a auth_host_scheme) \<Rightarrow> daemon \<Rightarrow> int \<Rightarrow> bytes \<Rightarrow> handshake_error + byte \<times> bytes \<Rightarrow> u32 \<Rightarrow> bool" where
  "reply_by H d now chal reply u \<longleftrightarrow> (\<exists>payload.
     reply = Inr (MSG_ENROLL, payload) \<and> (nonce_proves d now payload u \<or> displaces H d chal payload u) \<or>
     reply = Inr (MSG_ASSERT, payload) \<and> passkey_proves H d chal payload u)"

lemma auth_reply_cases:
  assumes "auth_reply H y now h chal reply d = (r, out, d')"
  obtains (same) "d' = d"
    | (enrol) payload c d1 where "reply = Inr (MSG_ENROLL, payload)" "do_enroll H (ax_saved1 y) payload chal now d = (c, d1)"
      "given H y now h c d1 d'"
    | (assertion) payload c d1 where "reply = Inr (MSG_ASSERT, payload)" "do_assert H (ax_saved1 y) payload chal now d = (c, d1)"
      "given H y now h c d1 d'"
proof (cases reply)
  case (Inl x)
  with assms that(1) show thesis by (simp add: auth_reply_def)
next
  case (Inr tp)
  obtain mty payload where tp: "tp = (mty, payload)" by fastforce
  have g: "given H y now h c d1 d'"
    if "(if mty = MSG_ENROLL then do_enroll H (ax_saved1 y) payload chal now d
      else if mty = MSG_ASSERT then do_assert H (ax_saved1 y) payload chal now d else (Inl Unexpected_Reply, d)) = (c, d1)" for c d1
    using assms unfolding auth_reply_def Inr tp
    by (fastforce simp: that given_def Let_def split: sum.splits prod.splits)
  show thesis
  proof (cases "mty = MSG_ENROLL")
    case True
    obtain c d1 where c: "do_enroll H (ax_saved1 y) payload chal now d = (c, d1)" by fastforce
    show thesis using that(2) [OF _ c] g [of c d1] c by (simp add: Inr tp True)
  next
    case enrol: False
    show thesis
    proof (cases "mty = MSG_ASSERT")
      case True
      obtain c d1 where c: "do_assert H (ax_saved1 y) payload chal now d = (c, d1)" by fastforce
      show thesis using that(3) [OF _ c] g [of c d1] c enrol by (simp add: Inr tp True)
    next
      case False
      with enrol assms that(1) show thesis by (simp add: auth_reply_def Inr tp)
    qed
  qed
qed

lemma given_frame:
  assumes g: "given H y now h c d1 d'" and ok: "daemon_ok d1" and f: "auth_fresh H y d1"
  shows "(\<And>cid. c \<noteq> Inr (u, cid)) \<Longrightarrow> view u T d' = view u T d1" and "daemon_ok d'"
proof -
  consider "d' = d1" | uid cid t dv where "c = Inr (uid, cid)"
      "issue_token (ho_hex H) (ax_saved2 y) (ax_token y) uid (Some cid) now (dm_devices d1) = (t, dv)"
      "d' = d1\<lparr>dm_devices := dv\<rparr> \<or> (\<exists>tok a o'. finish_auth H y uid tok h (hello_cols h) (hello_rows h) (d1\<lparr>dm_devices := dv\<rparr>) = (a, o', d'))"
    using g unfolding given_def by blast
  then have *: "((\<forall>cid. c \<noteq> Inr (u, cid)) \<longrightarrow> view u T d' = view u T d1) \<and> daemon_ok d'"
  proof cases
    case 1
    with ok show ?thesis by simp
  next
    case (2 uid cid t dv)
    have dv: "dv = snd (issue_token (ho_hex H) (ax_saved2 y) (ax_token y) uid (Some cid) now (dm_devices d1))" by (simp add: 2(2))
    have ok2: "daemon_ok (d1\<lparr>dm_devices := dv\<rparr>)"
      unfolding dv by (rule issue_ok [OF ok]) (use f in \<open>simp add: auth_fresh_def\<close>)
    have ns: "no_session (fst (ax_session y)) (d1\<lparr>dm_devices := dv\<rparr>)" using f by (simp add: auth_fresh_def no_session_def)
    have v2: "view u T (d1\<lparr>dm_devices := dv\<rparr>) = view u T d1" if "u \<noteq> uid" unfolding dv by (rule issue_view [OF that])
    have "u \<noteq> uid" if "\<forall>cid. c \<noteq> Inr (u, cid)" using that 2(1) by blast
    then show ?thesis using 2(3) finish_auth_frame [OF ns] ok2 v2 by (metis snd_conv)
  qed
  show "view u T d' = view u T d1" if "\<And>cid. c \<noteq> Inr (u, cid)" using * that by blast
  show "daemon_ok d'" using * by blast
qed

lemma auth_reply_frame:
  assumes f: "auth_fresh H y d" and ok: "daemon_ok d" and e: "auth_reply H y now h chal reply d = (r, out, d')"
  shows "\<not> reply_by H d now chal reply u \<Longrightarrow> now \<le> T \<Longrightarrow> view u T d' = view u T d" and "daemon_ok d'"
proof -
  have fresh: "auth_fresh H y d1" if "dm_sessions d1 = dm_sessions d" "dv_tokens (dm_devices d1) = dv_tokens (dm_devices d)" for d1
    using f that by (simp add: auth_fresh_def no_session_def no_token_def)
  from e have *: "(\<not> reply_by H d now chal reply u \<longrightarrow> now \<le> T \<longrightarrow> view u T d' = view u T d) \<and> daemon_ok d'"
  proof (cases rule: auth_reply_cases)
    case same
    with ok show ?thesis by simp
  next
    case (enrol payload c d1)
    note fr = do_enroll_frame [OF enrol(2) ok]
    note g = given_frame [OF enrol(3) fr(1) fresh [OF fr(2,3)]]
    have "c \<noteq> Inr (u, cid)" if "\<not> reply_by H d now chal reply u" for cid
      using that enrol(1) do_enroll_sound [of H "ax_saved1 y" payload chal now d u cid d1] enrol(2) by (auto simp: reply_by_def)
    moreover have "view u T d1 = view u T d" if "\<not> reply_by H d now chal reply u" "now \<le> T"
      using that enrol(1) by (intro fr(4)) (auto simp: reply_by_def)
    ultimately show ?thesis using g by metis
  next
    case (assertion payload c d1)
    note fr = do_assert_frame [OF assertion(2) ok]
    note g = given_frame [OF assertion(3) fr(1) fresh [OF fr(2,3)]]
    have "c \<noteq> Inr (u, cid)" if "\<not> reply_by H d now chal reply u" for cid
      using that assertion(1) do_assert_sound [of H "ax_saved1 y" payload chal now d u cid d1] assertion(2) by (auto simp: reply_by_def)
    moreover have "view u T d1 = view u T d" if "\<not> reply_by H d now chal reply u"
      using that assertion(1) by (intro fr(4)) (auto simp: reply_by_def)
    ultimately show ?thesis using g by metis
  qed
  from * show "\<not> reply_by H d now chal reply u \<Longrightarrow> now \<le> T \<Longrightarrow> view u T d' = view u T d" and "daemon_ok d'" by blast+
qed

section \<open>Separation\<close>

text \<open>Random values are not in use.\<close>

definition fresh_event :: "('a auth_host_scheme) \<Rightarrow> server \<Rightarrow> server_event \<Rightarrow> bool" where
  "fresh_event H S e = (case e of
       Helper_Request uid x req \<Rightarrow> helper_fresh x (sv_daemon S)
     | Auth_First n x payload \<Rightarrow> auth_fresh H x (sv_daemon S)
     | Auth_Answer n y reply \<Rightarrow> auth_fresh H y (sv_daemon S)
     | _ \<Rightarrow> True)"

fun fresh_run :: "('a auth_host_scheme) \<Rightarrow> (store_error \<Rightarrow> rstr) \<Rightarrow> server_event list \<Rightarrow> server \<Rightarrow> bool" where
  "fresh_run H sh [] S = True"
| "fresh_run H sh (e # es) S = (fresh_event H S e \<and> fresh_run H sh es (server_step H sh e S))"

text \<open>The clock an event reads, where it matters for nonces, is not after \<open>T\<close>.\<close>

definition not_after :: "int \<Rightarrow> server \<Rightarrow> server_event \<Rightarrow> bool" where
  "not_after T S e = (case e of
       Helper_Request uid x req \<Rightarrow> hd_now x \<le> T
     | Auth_Answer n y reply \<Rightarrow> (case sv_conns S n of Some (Waits_Reply now h chal) \<Rightarrow> now \<le> T | _ \<Rightarrow> True)
     | _ \<Rightarrow> True)"

text \<open>What counts as a user's own doing: their requests over the helper socket, a handshake with their live token,
  nonce or passkey, a hello with the token of their session, and what happens in their sessions. The one exception is an
  enrolment that displaces their passkey.\<close>

definition by_user :: "('a auth_host_scheme) \<Rightarrow> u32 \<Rightarrow> server \<Rightarrow> server_event \<Rightarrow> bool" where
  "by_user H u S e = (let d = sv_daemon S; owns = (\<lambda>sid. \<exists>s. map_of (dm_sessions d) sid = Some s \<and> se_uid s = u) in
     case e of
       Helper_Request uid x req \<Rightarrow> uid = u
     | Auth_First n x payload \<Rightarrow> (\<exists>h. auth_hello_decode payload = Inr h \<and> token_proves H d (ax_now x) h u)
     | Auth_Answer n y reply \<Rightarrow> (\<exists>now h chal. sv_conns S n = Some (Waits_Reply now h chal) \<and> reply_by H d now chal reply u)
     | Say_Hello n mty payload \<Rightarrow> (\<exists>h s. hello_decode payload = Inr h \<and> map_of (dm_sessions d) (h_session_id h) = Some s \<and>
         se_uid s = u \<and> se_token s = h_token h)
     | Hang_Up n \<Rightarrow> False
     | Session_Changes sid s' \<Rightarrow> owns sid
     | Owner_Ends sid \<Rightarrow> owns sid
     | Destroyed sid \<Rightarrow> owns sid)"

lemma enter_daemon: "sv_daemon (enter n (st, out, d) now S) = d"
  by (simp add: enter_def)

lemma claim_uid: "se_uid (snd (claim_transport s)) = se_uid s"
  by (simp add: claim_transport_def Let_def)

lemma server_step_ok:
  assumes ok: "daemon_ok (sv_daemon S)" and f: "fresh_event H S e"
  shows "daemon_ok (sv_daemon (server_step H sh e S))"
proof (cases e)
  case (Helper_Request uid x req)
  with f show ?thesis using dispatch_frame(2) [OF _ ok] by (simp add: fresh_event_def)
next
  case (Auth_First n x payload)
  obtain st out d' where b: "auth_begin H x payload (sv_daemon S) = (st, out, d')" by (metis prod_cases3)
  from f have "auth_fresh H x (sv_daemon S)" by (simp add: Auth_First fresh_event_def)
  from auth_begin_frame(2) [OF this ok b] ok show ?thesis by (simp add: Auth_First b enter_daemon split: option.split)
next
  case (Auth_Answer n y reply)
  show ?thesis
  proof (cases "\<exists>now h chal. sv_conns S n = Some (Waits_Reply now h chal)")
    case True
    then obtain now h chal where c: "sv_conns S n = Some (Waits_Reply now h chal)" by blast
    obtain r out d' where b: "auth_reply H y now h chal reply (sv_daemon S) = (r, out, d')" by (metis prod_cases3)
    from f have "auth_fresh H y (sv_daemon S)" by (simp add: Auth_Answer fresh_event_def)
    from auth_reply_frame(2) [OF this ok b] show ?thesis by (simp add: Auth_Answer b c enter_daemon)
  next
    case False
    with ok show ?thesis by (auto simp: Auth_Answer split: option.split conn.split)
  qed
next
  case (Say_Hello n mty payload)
  with ok show ?thesis by (auto simp: Let_def put_session_ok split: option.split conn.split sum.split)
next
  case (Session_Changes sid s')
  with ok show ?thesis by (auto simp: put_session_ok split: option.split)
qed (use ok in \<open>simp_all add: registry_remove_ok destroy_def\<close>)

lemma server_step_view:
  assumes ok: "daemon_ok (sv_daemon S)" and f: "fresh_event H S e" and T: "not_after T S e" and n: "\<not> by_user H u S e"
  shows "view u T (sv_daemon (server_step H sh e S)) = view u T (sv_daemon S)"
proof (cases e)
  case (Helper_Request uid x req)
  with f T n show ?thesis
    by (simp add: fresh_event_def not_after_def by_user_def dispatch_frame(1))
next
  case (Auth_First m x payload)
  obtain st out d' where b: "auth_begin H x payload (sv_daemon S) = (st, out, d')" by (metis prod_cases3)
  have "auth_fresh H x (sv_daemon S)" using f by (simp add: Auth_First fresh_event_def)
  from auth_begin_frame(1) [OF this ok b] n show ?thesis
    by (simp add: Auth_First b enter_daemon by_user_def split: option.split)
next
  case (Auth_Answer m y reply)
  show ?thesis
  proof (cases "\<exists>now h chal. sv_conns S m = Some (Waits_Reply now h chal)")
    case True
    then obtain now h chal where c: "sv_conns S m = Some (Waits_Reply now h chal)" by blast
    obtain r out d' where b: "auth_reply H y now h chal reply (sv_daemon S) = (r, out, d')" by (metis prod_cases3)
    from f have "auth_fresh H y (sv_daemon S)" by (simp add: Auth_Answer fresh_event_def)
    from auth_reply_frame(1) [OF this ok b] n T show ?thesis
      by (simp add: Auth_Answer b c enter_daemon by_user_def not_after_def)
  next
    case False
    then show ?thesis by (auto simp: Auth_Answer split: option.split conn.split)
  qed
next
  case (Say_Hello m mty payload)
  have "view u T (put_session (h_session_id h) (snd (claim_transport s)) (sv_daemon S)) = view u T (sv_daemon S)"
    if "check_hello (map_of (dm_sessions (sv_daemon S))) uid mty payload = Inr (h, s)" for uid h s
    using that n by (intro put_session_view) (auto simp: check_hello_Inr by_user_def Say_Hello claim_uid)
  then show ?thesis by (auto simp: Say_Hello Let_def split: option.split conn.split sum.split)
next
  case (Session_Changes sid s')
  then show ?thesis using n
    by (auto simp: by_user_def same_session_def intro!: put_session_view split: option.split)
next
  case (Owner_Ends sid)
  then show ?thesis using n by (auto simp: by_user_def intro!: registry_remove_view [OF ok])
next
  case (Destroyed sid)
  then show ?thesis using n by (auto simp: by_user_def destroy_def intro!: registry_remove_view [OF ok])
qed simp

lemma server_run_ok:
  "daemon_ok (sv_daemon S) \<Longrightarrow> fresh_run H sh es S \<Longrightarrow> daemon_ok (sv_daemon (server_run H sh es S))"
  unfolding server_run_def by (induction es arbitrary: S) (simp_all add: server_step_ok)

lemma fresh_run_snoc: "fresh_run H sh (es @ [e]) S \<longleftrightarrow> fresh_run H sh es S \<and> fresh_event H (server_run H sh es S) e"
  unfolding server_run_def by (induction es arbitrary: S) simp_all

text \<open>C3: Users are separated: in every interleaving of requests, handshakes, connections and ends of sessions, a
  user's sessions, passkeys, login tokens and valid enrolment nonces change only by an event of their own: a request of
  their uid on the helper socket, a handshake with their live token, their nonce or a signature of their passkey, a
  connection that knows their session's token, or an event in their session; or by an enrolment that
  presents the credential id of one of their passkeys.\<close>

theorem user_separation:
  assumes "daemon_ok (sv_daemon S)" "fresh_run H sh (es @ [e]) S"
    and "not_after T (server_run H sh es S) e" "\<not> by_user H u (server_run H sh es S) e"
  shows "view u T (sv_daemon (server_run H sh (es @ [e]) S)) = view u T (sv_daemon (server_run H sh es S))"
proof -
  have f: "fresh_run H sh es S" "fresh_event H (server_run H sh es S) e" using assms(2) by (simp_all add: fresh_run_snoc)
  have "server_run H sh (es @ [e]) S = server_step H sh e (server_run H sh es S)" by (simp add: server_run_def)
  then show ?thesis using server_step_view [OF server_run_ok [OF assms(1) f(1)] f(2) assms(3,4)] by simp
qed

text \<open>User 8 creates a session, then revokes everything; user 7 has the session and the token of \<open>daemon_ex\<close>.\<close>

definition server_ex :: server where
  "server_ex = \<lparr>sv_daemon = daemon_ex, sv_conns = Map.empty\<rparr>"

definition draw_ex :: helper_draw where
  "draw_ex = \<lparr>hd_cert = Inr [], hd_sid = [5], hd_token = [6], hd_nonce = [7], hd_spawned = None, hd_saved = True,
     hd_now = 100, hd_now_ms = 0\<rparr>"

definition request_ex :: "rstr \<Rightarrow> helper_request" where
  "request_ex op = \<lparr>hr_op = op, hr_cols = 80, hr_rows = 24, hr_kill_idle = True, hr_credential = None, hr_all = True,
     hr_sessions = False\<rparr>"

lemma server_ex_ok: "daemon_ok (sv_daemon server_ex)"
  by (simp add: daemon_ok_def server_ex_def daemon_ex_def)

theorem user_separation_witness:
  "view 7 200 (sv_daemon (server_run auth_host_ex (\<lambda>_. []) ([Helper_Request 8 draw_ex (request_ex (lit ''ping''))] @
      [Helper_Request 8 draw_ex (request_ex (lit ''revoke''))]) server_ex)) =
   view 7 200 (sv_daemon (server_run auth_host_ex (\<lambda>_. []) [Helper_Request 8 draw_ex (request_ex (lit ''ping''))] server_ex))"
proof (rule user_separation [OF server_ex_ok])
  have l: "lit ''ping'' \<noteq> lit ''idle''" by (simp add: lit_def of_char_def)
  have s: "server_step auth_host_ex (\<lambda>_. []) (Helper_Request 8 draw_ex (request_ex (lit ''ping''))) server_ex = server_ex"
    by (simp add: server_ex_def draw_ex_def request_ex_def dispatch_def l)
  have "fresh_event auth_host_ex server_ex (Helper_Request 8 draw_ex q)" for q
    by (simp add: fresh_event_def helper_fresh_def no_session_def server_ex_def daemon_ex_def draw_ex_def) (simp add: numeral_eq_Suc)
  then show "fresh_run auth_host_ex (\<lambda>_. []) ([Helper_Request 8 draw_ex (request_ex (lit ''ping''))] @
      [Helper_Request 8 draw_ex (request_ex (lit ''revoke''))]) server_ex" by (simp del: server_step.simps add: s)
qed (simp_all add: not_after_def by_user_def draw_ex_def)

section \<open>What answers reveal\<close>

lemma filter_own:
  assumes "filter (\<lambda>(_, s). se_uid s = u) xs = filter (\<lambda>(_, s). se_uid s = u) ys"
  shows "filter (\<lambda>(_, s). is_idle u now s) xs = filter (\<lambda>(_, s). is_idle u now s) ys"
proof -
  have z: "filter (\<lambda>(_, s). is_idle u now s) zs = filter (\<lambda>(_, s). is_idle u now s) (filter (\<lambda>(_, s). se_uid s = u) zs)"
    for zs :: "('a \<times> session) list"
    unfolding filter_filter by (rule filter_cong [OF refl]) (auto simp: is_idle_def)
  show ?thesis using z [of xs] z [of ys] unfolding assms by (rule trans [OF _ sym])
qed

lemma filter_busy:
  assumes "filter (\<lambda>(_, s). se_uid s = u) xs = filter (\<lambda>(_, s). se_uid s = u) ys"
  shows "filter (\<lambda>(_, s). se_uid s = u) (filter (\<lambda>(_, s). \<not> is_idle u now s) xs) =
    filter (\<lambda>(_, s). se_uid s = u) (filter (\<lambda>(_, s). \<not> is_idle u now s) ys)"
proof -
  have z: "filter (\<lambda>(_, s). se_uid s = u) (filter (\<lambda>(_, s). \<not> is_idle u now s) zs) =
      filter (\<lambda>(_, s). \<not> is_idle u now s) (filter (\<lambda>(_, s). se_uid s = u) zs)" for zs :: "('a \<times> session) list"
    unfolding filter_filter by (rule filter_cong [OF refl]) auto
  show ?thesis using z [of xs] z [of ys] unfolding assms by (rule trans [OF _ sym])
qed

text \<open>Two daemons look the same to a user.\<close>

definition alike :: "u32 \<Rightarrow> int \<Rightarrow> daemon \<Rightarrow> daemon \<Rightarrow> bool" where
  "alike u T d d' \<longleftrightarrow> view u T d = view u T d' \<and> length (dm_sessions d) = length (dm_sessions d') \<and> dm_port d = dm_port d'"

lemma alikeD:
  assumes "alike u T d d'"
  shows "filter (\<lambda>(_, s). se_uid s = u) (dm_sessions d) = filter (\<lambda>(_, s). se_uid s = u) (dm_sessions d')"
    and "length (dm_sessions d) = length (dm_sessions d')" "dm_port d = dm_port d'"
    and "registrations u (dm_devices d) = registrations u (dm_devices d')" "tokens u (dm_devices d) = tokens u (dm_devices d')"
    and "filter (\<lambda>r. rg_uid r = u) (dv_registrations (dm_devices d)) = filter (\<lambda>r. rg_uid r = u) (dv_registrations (dm_devices d'))"
    and "filter (\<lambda>t. sk_uid t = u) (dv_tokens (dm_devices d)) = filter (\<lambda>t. sk_uid t = u) (dv_tokens (dm_devices d'))"
  using assms by (simp_all add: alike_def view_def registrations_def tokens_def)

lemma collect_idle_alike: "alike u T d d' \<Longrightarrow> collect_idle H u now d = collect_idle H u now d'"
  using filter_own [OF alikeD(1), of u T d d' now] by (simp add: collect_idle_def)

lemma length_filter_not: "length (filter (\<lambda>x. \<not> P x) xs) = length xs - length (filter P xs)"
  using sum_length_filter_compl [of P xs] by simp

lemma existed_iff: "(length (filter (\<lambda>x. \<not> P x) xs) \<noteq> length xs) = (filter P xs \<noteq> [])"
proof -
  have "length (filter P xs) + length (filter (\<lambda>x. \<not> P x) xs) = length xs" by (rule sum_length_filter_compl)
  then have "length (filter (\<lambda>x. \<not> P x) xs) \<noteq> length xs \<longleftrightarrow> length (filter P xs) \<noteq> 0" by linarith
  then show ?thesis by simp
qed

lemma spawn_session_alike:
  assumes "filter (\<lambda>(_, s). se_uid s = u) (dm_sessions d) = filter (\<lambda>(_, s). se_uid s = u) (dm_sessions d')"
    and "length (dm_sessions d) = length (dm_sessions d')"
  shows "fst (spawn_session H sid tok sp now u c r d) = fst (spawn_session H sid tok sp now u c r d')"
  using assms by (simp add: spawn_session_def split: sum.split option.split)

definition after_kill :: "u32 \<Rightarrow> nat \<Rightarrow> helper_request \<Rightarrow> daemon \<Rightarrow> daemon" where
  "after_kill u now req d = (if hr_kill_idle req then snd (kill_idle u now d) else d)"

lemma create_session_answer:
  "fst (create_session H sid tok sp now u req resp d) =
    (case fst (spawn_session H sid tok sp now u (if hr_cols req = 0 then 80 else hr_cols req)
        (if hr_rows req = 0 then 24 else hr_rows req) (after_kill u now req d)) of
       Inr (s, t) \<Rightarrow> resp\<lparr>hs_session_id := Some (ho_hex H s), hs_token := Some (ho_hex H t), hs_idle := collect_idle H u now d\<rparr>
     | Inl e \<Rightarrow> (fail e)\<lparr>hs_idle := collect_idle H u now d\<rparr>)"
proof -
  define d1 where "d1 = after_kill u now req d"
  define c where "c = (if hr_cols req = 0 then 80 else hr_cols req)"
  define w where "w = (if hr_rows req = 0 then 24 else hr_rows req)"
  obtain r d2 where s: "spawn_session H sid tok sp now u c w d1 = (r, d2)" by fastforce
  have e: "fst (create_session H sid tok sp now u req resp d) =
    (case r of Inr (s, t) \<Rightarrow> resp\<lparr>hs_session_id := Some (ho_hex H s), hs_token := Some (ho_hex H t), hs_idle := collect_idle H u now d\<rparr>
     | Inl e \<Rightarrow> (fail e)\<lparr>hs_idle := collect_idle H u now d\<rparr>)"
    using s by (cases r) (auto simp: create_session_def Let_def simp flip: d1_def [unfolded after_kill_def] c_def w_def)
  show ?thesis unfolding e c_def [symmetric] w_def [symmetric] d1_def [symmetric] s by simp
qed

lemma sessions_after_kill:
  "dm_sessions (after_kill u now req d) =
    (if hr_kill_idle req then filter (\<lambda>(_, s). \<not> is_idle u now s) (dm_sessions d) else dm_sessions d)"
  by (simp add: after_kill_def kill_idle_def)

lemma after_kill_alike:
  assumes a: "alike u T d d'"
  shows "filter (\<lambda>(_, s). se_uid s = u) (dm_sessions (after_kill u now req d)) =
      filter (\<lambda>(_, s). se_uid s = u) (dm_sessions (after_kill u now req d'))"
    and "length (dm_sessions (after_kill u now req d)) = length (dm_sessions (after_kill u now req d'))"
proof -
  have n: "length (filter (\<lambda>(_, s). \<not> is_idle u now s) zs) = length zs - length (filter (\<lambda>(_, s). is_idle u now s) zs)"
    for zs :: "(bytes \<times> session) list"
    using length_filter_not [of "\<lambda>(_, s). is_idle u now s" zs] by (simp add: case_prod_unfold)
  show "filter (\<lambda>(_, s). se_uid s = u) (dm_sessions (after_kill u now req d)) =
      filter (\<lambda>(_, s). se_uid s = u) (dm_sessions (after_kill u now req d'))"
    using alikeD(1) [OF a] filter_busy [OF alikeD(1) [OF a], of now] by (cases "hr_kill_idle req") (simp_all only: sessions_after_kill if_True if_False)
  show "length (dm_sessions (after_kill u now req d)) = length (dm_sessions (after_kill u now req d'))"
    using alikeD(2) [OF a] filter_own [OF alikeD(1) [OF a], of now]
    by (cases "hr_kill_idle req") (simp_all only: sessions_after_kill if_True if_False n)
qed

lemma create_session_alike:
  assumes a: "alike u T d d'"
  shows "fst (create_session H sid tok sp now u req resp d) = fst (create_session H sid tok sp now u req resp d')"
  unfolding create_session_answer
  by (simp only: collect_idle_alike [OF a] spawn_session_alike [OF after_kill_alike(1,2) [OF a]])
lemma list_devices_alike: "alike u T d d' \<Longrightarrow> list_devices u resp d = list_devices u resp d'"
  using alikeD(4,5) [of u T d d'] by (simp add: list_devices_def)

lemma resolve_credential_alike:
  "alike u T d d' \<Longrightarrow> resolve_credential u p (dm_devices d) = resolve_credential u p (dm_devices d')"
  using alikeD(4) [of u T d d'] by (simp add: resolve_credential_def)

lemma revokes_alike:
  assumes a: "alike u T d d'"
  shows "fst (revoke_all saved u (dm_devices d)) = fst (revoke_all saved u (dm_devices d'))"
    and "fst (revoke_sessions saved u (dm_devices d)) = fst (revoke_sessions saved u (dm_devices d'))"
    and "fst (revoke_credential saved u cid (dm_devices d)) = fst (revoke_credential saved u cid (dm_devices d'))"
proof -
  show "fst (revoke_all saved u (dm_devices d)) = fst (revoke_all saved u (dm_devices d'))"
    by (simp add: revoke_all_def alikeD(6) [OF a])
  show "fst (revoke_sessions saved u (dm_devices d)) = fst (revoke_sessions saved u (dm_devices d'))"
    by (simp add: revoke_sessions_def alikeD(7) [OF a])
  have z: "filter (\<lambda>r. rg_uid r = u \<and> rg_credential_id r = cid) xs = filter (\<lambda>r. rg_credential_id r = cid) (filter (\<lambda>r. rg_uid r = u) xs)" for xs
    by (simp add: conj_commute)
  show "fst (revoke_credential saved u cid (dm_devices d)) = fst (revoke_credential saved u cid (dm_devices d'))"
    by (simp only: revoke_credential_def Let_def fst_conv existed_iff z alikeD(6) [OF a])
qed

lemma revoke_alike:
  assumes a: "alike u T d d'"
  shows "fst (revoke sh saved u req resp d) = fst (revoke sh saved u req resp d')"
proof -
  have r: "resolve_credential u p (dm_devices d) = resolve_credential u p (dm_devices d')" for p
    by (rule resolve_credential_alike [OF a])
  note e = revokes_alike [OF a]
  show ?thesis unfolding revoke_def Let_def split_def if_distrib [of fst] option.case_distrib [of fst] sum.case_distrib [of fst]
      fst_conv fst_apfst r e ..
qed

lemma nonce_issue_answer: "fst (nonce_issue fresh uid now m) = fresh"
  by (simp add: nonce_issue_def Let_def)

text \<open>C39: The helper socket tells a user nothing about others but whether the server is full: the answer to a request is
  the same on any two states of the daemon in which the user has the same sessions, passkeys, tokens and nonces and in
  which there are as many sessions in all.\<close>

theorem helper_answers_own:
  assumes "view uid T d = view uid T d'" "length (dm_sessions d) = length (dm_sessions d')" "dm_port d = dm_port d'"
  shows "fst (dispatch H sh x uid req d) = fst (dispatch H sh x uid req d')"
proof -
  have a: "alike uid T d d'" using assms by (simp add: alike_def)
  show ?thesis
    unfolding dispatch_def Let_def enroll_nonce_def split_def if_distrib [of fst] sum.case_distrib [of fst] fst_conv
      collect_idle_alike [OF a] create_session_alike [OF a] list_devices_alike [OF a] revoke_alike [OF a] alikeD(3) [OF a] nonce_issue_answer ..
qed
theorem helper_answers_own_witness:
  "fst (dispatch (host.truncate auth_host_ex) (\<lambda>_. []) draw_ex 8 (request_ex (lit ''create'')) daemon_ex) =
   fst (dispatch (host.truncate auth_host_ex) (\<lambda>_. []) draw_ex 8 (request_ex (lit ''create''))
     (daemon_ex\<lparr>dm_devices := \<lparr>dv_registrations = [], dv_tokens = []\<rparr>\<rparr>))"
  by (rule helper_answers_own [where T = 0])
    (simp_all add: view_def daemon_ex_def session_ex_def session_new_def)

section \<open>Limits\<close>

definition within_limits :: "daemon \<Rightarrow> bool" where
  "within_limits d \<longleftrightarrow> length (dm_sessions d) \<le> MAX_SESSIONS \<and>
     (\<forall>uid. length (filter (\<lambda>(_, s). se_uid s = uid) (dm_sessions d)) \<le> MAX_PER_UID)"

lemma limits_smaller:
  assumes "within_limits d" "dm_sessions d' = filter P (dm_sessions d)"
  shows "within_limits d'"
proof -
  have f: "length (filter Q (filter P xs)) \<le> length (filter Q xs)" for Q and xs :: "(bytes \<times> session) list"
    by (induction xs) auto
  show ?thesis
    using assms(1) order.trans [OF f] order.trans [OF length_filter_le] unfolding within_limits_def assms(2) by blast
qed

lemma limits_same: "within_limits d \<Longrightarrow> dm_sessions d' = dm_sessions d \<Longrightarrow> within_limits d'"
  by (simp add: within_limits_def)

lemma limits_spawn:
  assumes "spawn_session H sid tok sp now uid c r d = (x, d')" "within_limits d" "no_session sid d"
  shows "within_limits d'"
  using assms
  by (auto simp: spawn_session_def within_limits_def no_session_def alist_update_new session_new_def
      split: sum.splits if_splits option.splits)

lemma update_same_owner:
  assumes "map_of al sid = Some s" "se_uid s' = se_uid s"
  shows "length (filter (\<lambda>(_, s). se_uid s = u) (AList.update sid s' al)) = length (filter (\<lambda>(_, s). se_uid s = u) al)"
  using assms by (induction al) (auto split: if_splits)

lemma limits_put:
  assumes "within_limits d" "map_of (dm_sessions d) sid = Some s" "se_uid s' = se_uid s"
  shows "within_limits (put_session sid s' d)"
proof -
  have "length (AList.update sid s' al) = length al" if "map_of al sid = Some s" for al :: "(bytes \<times> session) list"
    using that by (induction al) (auto split: if_splits)
  then show ?thesis using assms update_same_owner [OF assms(2,3)] by (simp add: within_limits_def put_session_def)
qed
text \<open>A handshake changes the registry only by a session it spawns.\<close>

definition spawned :: "('a auth_host_scheme) \<Rightarrow> auth_draw \<Rightarrow> daemon \<Rightarrow> daemon \<Rightarrow> bool" where
  "spawned H x d d' \<longleftrightarrow> dm_sessions d' = dm_sessions d \<or> (\<exists>uid c r d1 y. dm_sessions d1 = dm_sessions d \<and>
     spawn_session (host.truncate H) (fst (ax_session x)) (snd (ax_session x)) (ax_spawned x) (ax_now_ms x) uid c r d1 = (y, d'))"

lemma finish_auth_spawned:
  assumes "finish_auth H x uid tok h c r d1 = (a, out, d')" "dm_sessions d1 = dm_sessions d"
  shows "spawned H x d d'"
proof -
  obtain b d2 where r: "resolve_session H x uid h c r d1 = (b, d2)" by fastforce
  have "dm_sessions d2 = dm_sessions d \<or> (\<exists>y. spawn_session (host.truncate H) (fst (ax_session x)) (snd (ax_session x)) (ax_spawned x)
      (ax_now_ms x) uid c r d1 = (y, d2))"
    using r assms(2) by (auto simp: resolve_session_def split: if_splits prod.splits sum.splits option.splits)
  moreover have "d' = d2 \<or> d' = d1" using assms(1) r by (auto simp: finish_auth_def Let_def split: option.splits sum.splits prod.splits)
  ultimately show ?thesis using assms(2) by (auto simp: spawned_def)
qed

lemma spawned_limits:
  assumes "spawned H x d d'" "within_limits d" "no_session (fst (ax_session x)) d"
  shows "within_limits d'"
proof -
  consider "dm_sessions d' = dm_sessions d" | uid c r d1 y where "dm_sessions d1 = dm_sessions d"
      "spawn_session (host.truncate H) (fst (ax_session x)) (snd (ax_session x)) (ax_spawned x) (ax_now_ms x) uid c r d1 = (y, d')"
    using assms(1) unfolding spawned_def by blast
  then show ?thesis
  proof cases
    case 1
    with assms(2) show ?thesis by (rule limits_same)
  next
    case (2 uid c r d1 y)
    have "no_session (fst (ax_session x)) d1" using assms(3) 2(1) by (simp add: no_session_def)
    then show ?thesis by (rule limits_spawn [OF 2(2) limits_same [OF assms(2) 2(1)]])
  qed
qed

lemma auth_begin_spawned:
  assumes "auth_begin H x payload d = (st, out, d')"
  shows "spawned H x d d'"
  using assms
proof (cases rule: auth_begin_cases)
  case same
  then show ?thesis by (simp add: spawned_def)
next
  case (token h uid r dv)
  from token(4) show ?thesis
    using finish_auth_spawned [where H = H and x = x and uid = uid and d = d and d' = d'] by (force simp: spawned_def)
qed

lemma given_spawned:
  assumes "given H y now h c d1 d'" "dm_sessions d1 = dm_sessions d"
  shows "spawned H y d d'"
  using assms finish_auth_spawned [where H = H and x = y and d = d and d' = d'] by (force simp: given_def spawned_def)

lemma auth_reply_spawned:
  assumes "auth_reply H y now h chal reply d = (r, out, d')" "daemon_ok d"
  shows "spawned H y d d'"
  using assms(1)
proof (cases rule: auth_reply_cases)
  case same
  then show ?thesis by (simp add: spawned_def)
next
  case (enrol payload c d1)
  show ?thesis by (rule given_spawned [OF enrol(3) do_enroll_frame(2) [OF enrol(2) assms(2)]])
next
  case (assertion payload c d1)
  show ?thesis by (rule given_spawned [OF assertion(3) do_assert_frame(2) [OF assertion(2) assms(2)]])
qed
lemma dispatch_limits:
  assumes "within_limits d" "helper_fresh x d"
  shows "within_limits (snd (dispatch H sh x uid req d))"
proof -
  have c: "within_limits (snd (create_session H (hd_sid x) tok sp now uid req resp d))" for tok sp now resp
  proof -
    obtain r d2 where s: "spawn_session H (hd_sid x) tok sp now uid (if hr_cols req = 0 then 80 else hr_cols req)
        (if hr_rows req = 0 then 24 else hr_rows req) (after_kill uid now req d) = (r, d2)" by fastforce
    have l: "within_limits (after_kill uid now req d)"
    proof (cases "hr_kill_idle req")
      case True
      then show ?thesis by (intro limits_smaller [OF assms(1)]) (simp add: sessions_after_kill)
    qed (simp add: after_kill_def assms(1))
    have n: "no_session (hd_sid x) (after_kill uid now req d)"
      using assms(2) by (auto simp: no_session_def helper_fresh_def sessions_after_kill)
    have "snd (create_session H (hd_sid x) tok sp now uid req resp d) = d2"
      using s by (cases r) (auto simp: create_session_def Let_def after_kill_def)
    with limits_spawn [OF s l n] show ?thesis by simp
  qed
  have r: "within_limits (snd (revoke sh sv uid req resp d))" for sv resp
    by (rule limits_same [OF assms(1)])
      (auto simp: revoke_def Let_def split_def split: option.split sum.split)
  have "within_limits (snd (enroll_nonce H f now uid resp d))" for f now resp
    by (rule limits_same [OF assms(1)]) (simp add: enroll_nonce_def split_def Let_def)
  with c r assms(1) show ?thesis by (simp add: dispatch_def Let_def split: sum.split)
qed

lemma server_step_limits:
  assumes ok: "daemon_ok (sv_daemon S)" and f: "fresh_event H S e" and l: "within_limits (sv_daemon S)"
  shows "within_limits (sv_daemon (server_step H sh e S))"
proof (cases e)
  case (Helper_Request uid x req)
  with f l show ?thesis by (simp add: fresh_event_def dispatch_limits)
next
  case (Auth_First n x payload)
  obtain st out d' where b: "auth_begin H x payload (sv_daemon S) = (st, out, d')" by (metis prod_cases3)
  from f have "no_session (fst (ax_session x)) (sv_daemon S)" by (simp add: Auth_First fresh_event_def auth_fresh_def)
  from spawned_limits [OF auth_begin_spawned [OF b] l this] l show ?thesis
    by (simp add: Auth_First b enter_daemon split: option.split)
next
  case (Auth_Answer n y reply)
  show ?thesis
  proof (cases "\<exists>now h chal. sv_conns S n = Some (Waits_Reply now h chal)")
    case True
    then obtain now h chal where c: "sv_conns S n = Some (Waits_Reply now h chal)" by blast
    obtain r out d' where b: "auth_reply H y now h chal reply (sv_daemon S) = (r, out, d')" by (metis prod_cases3)
    from f have "no_session (fst (ax_session y)) (sv_daemon S)" by (simp add: Auth_Answer fresh_event_def auth_fresh_def)
    from spawned_limits [OF auth_reply_spawned [OF b ok] l this] show ?thesis by (simp add: Auth_Answer b c enter_daemon)
  next
    case False
    with l show ?thesis by (auto simp: Auth_Answer split: option.split conn.split)
  qed
next
  case (Say_Hello m mty payload)
  have "within_limits (put_session (h_session_id h) (snd (claim_transport s)) (sv_daemon S))"
    if "check_hello (map_of (dm_sessions (sv_daemon S))) uid mty payload = Inr (h, s)" for uid h s
    using that by (intro limits_put [OF l]) (auto simp: check_hello_Inr claim_uid)
  with l show ?thesis by (auto simp: Say_Hello Let_def split: option.split conn.split sum.split)
next
  case (Session_Changes sid s')
  with l show ?thesis by (auto simp: same_session_def intro!: limits_put split: option.split)
next
  case (Owner_Ends sid)
  then show ?thesis by (simp add: registry_remove_def AList.delete_eq limits_smaller [OF l])
next
  case (Destroyed sid)
  then show ?thesis by (simp add: registry_remove_def destroy_def AList.delete_eq limits_smaller [OF l])
qed (use l in simp)

text \<open>C40: The limits hold over every interleaving, whichever of the helper socket and the browsers' handshakes asks for
  sessions: never more than 128 sessions in all nor 32 of one user, and no two under one id.\<close>

theorem session_limits:
  assumes "daemon_ok (sv_daemon S)" "dm_sessions (sv_daemon S) = []" "fresh_run H sh es S"
  shows "length (dm_sessions (sv_daemon (server_run H sh es S))) \<le> 128 \<and>
    length (filter (\<lambda>(_, s). se_uid s = u) (dm_sessions (sv_daemon (server_run H sh es S)))) \<le> 32 \<and>
    distinct (map fst (dm_sessions (sv_daemon (server_run H sh es S))))"
proof -
  have "within_limits (sv_daemon (server_run H sh es S))" if "fresh_run H sh es S" for es
    using that
  proof (induction es rule: rev_induct)
    case Nil
    then show ?case by (simp add: server_run_def within_limits_def assms(2))
  next
    case (snoc e es)
    then have f: "fresh_run H sh es S" "fresh_event H (server_run H sh es S) e" by (simp_all add: fresh_run_snoc)
    from server_step_limits [OF server_run_ok [OF assms(1) f(1)] f(2) snoc.IH [OF f(1)]]
    show ?case by (simp add: server_run_def)
  qed
  then show ?thesis using server_run_ok [OF assms(1,3)] assms(3)
    by (simp add: within_limits_def daemon_ok_def MAX_SESSIONS_def MAX_PER_UID_def)
qed
theorem session_limits_witness:
  "length (dm_sessions (sv_daemon (server_run auth_host_ex (\<lambda>_. []) [Helper_Request 8 draw_ex (request_ex (lit ''create''))]
     (server_ex\<lparr>sv_daemon := daemon_ex\<lparr>dm_sessions := []\<rparr>\<rparr>)))) \<le> 128"
proof -
  have "fresh_run auth_host_ex (\<lambda>_. []) [Helper_Request 8 draw_ex (request_ex (lit ''create''))]
      (server_ex\<lparr>sv_daemon := daemon_ex\<lparr>dm_sessions := []\<rparr>\<rparr>)"
    by (simp add: fresh_event_def helper_fresh_def no_session_def daemon_ex_def)
  then show ?thesis
    using session_limits [of "server_ex\<lparr>sv_daemon := daemon_ex\<lparr>dm_sessions := []\<rparr>\<rparr>" auth_host_ex "\<lambda>_. []"
        "[Helper_Request 8 draw_ex (request_ex (lit ''create''))]"] server_ex_ok
    by (simp add: daemon_ok_def server_ex_def)
qed

section \<open>How long a token lives\<close>

definition tokens_from :: "rstr \<Rightarrow> int \<Rightarrow> daemon \<Rightarrow> daemon \<Rightarrow> bool" where
  "tokens_from s now d d' \<longleftrightarrow> (\<forall>t \<in> set (dv_tokens (dm_devices d')). t \<in> set (dv_tokens (dm_devices d)) \<or>
     sk_token t = s \<and> sk_last_seen t = now)"

lemma tokens_same: "dv_tokens (dm_devices d') = dv_tokens (dm_devices d) \<Longrightarrow> tokens_from s now d d'"
  by (simp add: tokens_from_def)

lemma finish_auth_devices:
  assumes "finish_auth H x uid tok h c r d = (a, out, d')"
  shows "dm_devices d' = dm_devices d"
  using assms
  by (auto simp: finish_auth_def resolve_session_def spawn_session_def Let_def
      split: option.splits sum.splits prod.splits if_splits)

lemma auth_begin_tokens:
  assumes "auth_begin H x payload d = (st, out, d')"
  shows "tokens_from (ho_hex H (ax_token x)) (ax_now x) d d'"
  using assms
proof (cases rule: auth_begin_cases)
  case same
  then show ?thesis by (simp add: tokens_same)
next
  case (token h uid r dv)
  have "dm_devices d' = dv" using token(4) finish_auth_devices by fastforce
  moreover have "dv = snd (rotate_token (ho_hex H) (ax_saved1 x) (ax_saved2 x) (ax_token x) (Some (ah_auth_token h)) uid None (ax_now x) (dm_devices d))"
    by (simp add: token(3))
  ultimately show ?thesis by (auto simp: tokens_from_def rotate_token_def persist_def issue_token_def Let_def)
qed

lemma auth_reply_tokens:
  assumes "auth_reply H y now h chal reply d = (r, out, d')" "daemon_ok d"
  shows "tokens_from (ho_hex H (ax_token y)) now d d'"
proof -
  have g: "tokens_from (ho_hex H (ax_token y)) now d d'"
    if "given H y now h c d1 d'" "dv_tokens (dm_devices d1) = dv_tokens (dm_devices d)" for c d1
  proof -
    have "dm_devices d' = dm_devices d1 \<or>
        (\<exists>uid cid. dm_devices d' = snd (issue_token (ho_hex H) (ax_saved2 y) (ax_token y) uid (Some cid) now (dm_devices d1)))"
    proof (cases "d' = d1")
      case False
      with that(1) obtain uid cid t dv where i: "issue_token (ho_hex H) (ax_saved2 y) (ax_token y) uid (Some cid) now (dm_devices d1) = (t, dv)"
        and d': "d' = d1\<lparr>dm_devices := dv\<rparr> \<or>
          (\<exists>tok a out. finish_auth H y uid tok h (hello_cols h) (hello_rows h) (d1\<lparr>dm_devices := dv\<rparr>) = (a, out, d'))"
        unfolding given_def by blast
      from d' have "dm_devices d' = dv" by (auto dest: finish_auth_devices)
      with i show ?thesis by (metis snd_conv)
    qed simp
    with that(2) show ?thesis by (auto simp: tokens_from_def issue_token_def)
  qed
  from assms(1) show ?thesis
  proof (cases rule: auth_reply_cases)
    case same
    then show ?thesis by (simp add: tokens_same)
  next
    case (enrol payload c d1)
    show ?thesis by (rule g [OF enrol(3) do_enroll_frame(3) [OF enrol(2) assms(2)]])
  next
    case (assertion payload c d1)
    show ?thesis by (rule g [OF assertion(3) do_assert_frame(3) [OF assertion(2) assms(2)]])
  qed
qed

text \<open>The clock of the handshake that gives a token.\<close>

definition gives_at :: "('a auth_host_scheme) \<Rightarrow> server \<Rightarrow> server_event \<Rightarrow> session_token \<Rightarrow> bool" where
  "gives_at H S e t \<longleftrightarrow> (case e of
       Auth_First n x payload \<Rightarrow> sk_token t = ho_hex H (ax_token x) \<and> sk_last_seen t = ax_now x
     | Auth_Answer n y reply \<Rightarrow> (\<exists>now h chal. sv_conns S n = Some (Waits_Reply now h chal) \<and>
         sk_token t = ho_hex H (ax_token y) \<and> sk_last_seen t = now)
     | _ \<Rightarrow> False)"

lemma create_session_devices: "dm_devices (snd (create_session K sid tok sp now uid req resp d)) = dm_devices d"
proof -
  obtain r d2 where s: "spawn_session K sid tok sp now uid (if hr_cols req = 0 then 80 else hr_cols req)
      (if hr_rows req = 0 then 24 else hr_rows req) (after_kill uid now req d) = (r, d2)" by fastforce
  have "dm_devices d2 = dm_devices (after_kill uid now req d)"
    using s by (auto simp: spawn_session_def split: sum.splits if_splits option.splits)
  moreover have "snd (create_session K sid tok sp now uid req resp d) = d2"
    using s by (cases r) (auto simp: create_session_def Let_def after_kill_def)
  ultimately show ?thesis by (simp add: after_kill_def kill_idle_def)
qed

lemma revoke_tokens: "set (dv_tokens (dm_devices (snd (revoke sh sv uid req resp d)))) \<subseteq> set (dv_tokens (dm_devices d))"
proof -
  have r: "set (dv_tokens (snd (revoke_all sv uid dv))) \<subseteq> set (dv_tokens dv)" "set (dv_tokens (snd (revoke_sessions sv uid dv))) \<subseteq> set (dv_tokens dv)"
    "set (dv_tokens (snd (revoke_credential sv uid cid dv))) \<subseteq> set (dv_tokens dv)" for cid dv
    by (auto simp: revoke_all_def revoke_sessions_def revoke_credential_def Let_def)
  show ?thesis using r [where dv = "dm_devices d"] by (simp add: revoke_def Let_def split_def split: option.split sum.split)
qed

lemma dispatch_tokens: "set (dv_tokens (dm_devices (snd (dispatch K sh x uid req d)))) \<subseteq> set (dv_tokens (dm_devices d))"
  using revoke_tokens by (simp add: dispatch_def enroll_nonce_def split_def Let_def create_session_devices split: sum.split)

text \<open>Nothing the server does extends a token's idle timer (\<open>touch_token\<close> has no caller): a token keeps
  the time at which a handshake gave it, so it expires an hour later, however active its session is.\<close>

lemma tokens_never_extended:
  assumes ok: "daemon_ok (sv_daemon S)" and t: "t \<in> set (dv_tokens (dm_devices (sv_daemon (server_step H sh e S))))"
  shows "t \<in> set (dv_tokens (dm_devices (sv_daemon S))) \<or> gives_at H S e t"
proof (cases e)
  case (Helper_Request uid x req)
  with t dispatch_tokens show ?thesis by fastforce
next
  case (Auth_First n x payload)
  obtain st out d' where b: "auth_begin H x payload (sv_daemon S) = (st, out, d')" by (metis prod_cases3)
  from auth_begin_tokens [OF b] t show ?thesis
    by (auto simp: Auth_First b enter_daemon tokens_from_def gives_at_def split: option.splits)
next
  case (Auth_Answer n y reply)
  show ?thesis
  proof (cases "\<exists>now h chal. sv_conns S n = Some (Waits_Reply now h chal)")
    case True
    then obtain now h chal where c: "sv_conns S n = Some (Waits_Reply now h chal)" by blast
    obtain r out d' where b: "auth_reply H y now h chal reply (sv_daemon S) = (r, out, d')" by (metis prod_cases3)
    from auth_reply_tokens [OF b ok] t c show ?thesis
      by (auto simp: Auth_Answer b enter_daemon tokens_from_def gives_at_def)
  next
    case False
    with t show ?thesis by (auto simp: Auth_Answer split: option.splits conn.splits)
  qed
qed (use t in \<open>auto simp: put_session_def registry_remove_def destroy_def Let_def split: option.splits conn.splits sum.splits if_splits\<close>)
section \<open>The handshake as a whole\<close>

text \<open>\<open>auth_run\<close> of the theory \<open>Auth\<close> is two events of this one, with those of others between them: what it leaves of the
  daemon is what the events leave.\<close>

lemma auth_run_events:
  assumes r: "auth_run H x y others payload buf chunks (sv_daemon S) = (r, out, buf', chunks', d')"
    and n: "sv_conns S n = None"
    and o: "others (sv_daemon S) = sv_daemon (server_run H sh es (server_step H sh (Auth_First n x payload) S))"
    and c: "sv_conns (server_run H sh es (server_step H sh (Auth_First n x payload) S)) n =
      sv_conns (server_step H sh (Auth_First n x payload) S) n"
  shows "d' = sv_daemon (server_run H sh [Auth_First n x payload] S) \<or>
    (\<exists>reply. d' = sv_daemon (server_run H sh (Auth_First n x payload # es @ [Auth_Answer n y reply]) S))"
proof -
  obtain st o1 d1 where b: "auth_begin H x payload (sv_daemon S) = (st, o1, d1)" by (metis prod_cases3)
  show ?thesis
  proof (cases st)
    case (Over a)
    with r b have "d' = d1" by (simp add: auth_run_def)
    with b n show ?thesis by (simp add: server_run_def enter_daemon)
  next
    case (Awaiting h chal)
    define S1 where "S1 = server_run H sh es (server_step H sh (Auth_First n x payload) S)"
    have "sv_conns S1 n = Some (Waits_Reply (ax_now x) h chal)"
      using c n b by (simp add: S1_def enter_def Awaiting)
    moreover obtain reply a o2 where "auth_reply H y (ax_now x) h chal reply (sv_daemon S1) = (a, o2, d')"
      using r auth_begin_Awaiting [OF b [unfolded Awaiting]] o unfolding auth_run_def b Awaiting
      by (auto simp: Let_def S1_def split: prod.splits sum.splits)
    ultimately have "sv_daemon (server_step H sh (Auth_Answer n y reply) S1) = d'" by (simp add: enter_daemon)
    then show ?thesis by (intro disjI2 exI [of _ reply]) (simp add: server_run_def S1_def)
  qed
qed

end
